(* ===== verification/Prelude.thy ===== *)
theory Prelude
  imports Main "HOL-Library.Word" "HOL-Library.Signed_Division"
begin

text \<open>
  Shared vocabulary of the development: the type of results a kernel routine can have, its
  sequencing operator, C arrays with their bounds written out, and the rules by which the
  component theories reason about them.

  A kernel routine is a function from the state to a result:
  \<^item> \<open>Ok v s\<close>: it returns \<open>v\<close> in state \<open>s\<close> (an error return is a negative \<open>v\<close>, as in C);
  \<^item> \<open>Panic msg\<close>: it called \<open>panic(msg)\<close>, which never returns (\<open>kernel/panic.c\<close> ends in
    \<open>for(;;);\<close>);
  \<^item> \<open>Exits code s\<close>: it called \<open>do_exit(code)\<close>, declared to never return, in state \<open>s\<close>;
  \<^item> \<open>Sleeps s\<close>: the task went to sleep in state \<open>s\<close> and nothing in the model wakes it;
  \<^item> \<open>Fault why\<close>: the C has no defined meaning (null pointer, index outside an array);
  \<^item> \<open>Hang\<close>: a loop used up its fuel. Every theorem that a routine returns shows \<open>Ok\<close>.
\<close>

unbundle bit_operations_syntax

type_synonym u8 = "8 word"
type_synonym u16 = "16 word"
type_synonym u32 = "32 word"

datatype ('a, 's) res =
    Ok 'a 's
  | Panic string
  | Exits int 's
  | Sleeps 's
  | Fault string
  | Hang

named_theorems res_defs "definitions of the monadic helpers"

fun bind :: "('a, 's) res \<Rightarrow> ('a \<Rightarrow> 's \<Rightarrow> ('b, 's) res) \<Rightarrow> ('b, 's) res" where
  "bind (Ok v s) f = f v s"
| "bind (Panic m) f = Panic m"
| "bind (Exits c s) f = Exits c s"
| "bind (Sleeps s) f = Sleeps s"
| "bind (Fault w) f = Fault w"
| "bind Hang f = Hang"

definition is_ok :: "('a, 's) res \<Rightarrow> bool" where
  "is_ok r = (case r of Ok v s \<Rightarrow> True | _ \<Rightarrow> False)"

lemma is_ok_simps [simp]:
  "is_ok (Ok v s)" "\<not> is_ok (Panic m)" "\<not> is_ok (Exits c s)" "\<not> is_ok (Sleeps s)"
  "\<not> is_ok (Fault w)" "\<not> is_ok Hang"
  by (simp_all add: is_ok_def)

lemma bind_eq_Ok:
  "bind m f = Ok v t \<longleftrightarrow> (\<exists>x s. m = Ok x s \<and> f x s = Ok v t)"
  by (cases m) auto

lemma bind_eq_OkE [elim!]:
  assumes "bind m f = Ok v t"
  obtains x s where "m = Ok x s" and "f x s = Ok v t"
  using assms by (auto simp: bind_eq_Ok)

lemma bind_assoc: "bind (bind m f) g = bind m (\<lambda>x s. bind (f x s) g)"
  by (cases m) simp_all

lemma bind_Ok_right [simp]: "bind m Ok = m"
  by (cases m) simp_all

lemma bind_cong [fundef_cong]:
  assumes "m = m'" and "\<And>x s. m' = Ok x s \<Longrightarrow> f x s = f' x s"
  shows "bind m f = bind m' f'"
  using assms by (cases m') auto

text \<open>
  A C array is a list; reading or writing outside it is a fault. \<open>aget\<close> and \<open>aset\<close> take
  the index as the C code computes it, an unsigned number already read as \<open>nat\<close>.
\<close>

definition aget :: "'a list \<Rightarrow> nat \<Rightarrow> 's \<Rightarrow> ('a, 's) res" where
  "aget xs i s = (if i < length xs then Ok (xs ! i) s else Fault ''index'')"

lemma aget_in [simp]: "i < length xs \<Longrightarrow> aget xs i s = Ok (xs ! i) s"
  by (simp add: aget_def)

lemma aget_eq_Ok: "aget xs i s = Ok v t \<longleftrightarrow> i < length xs \<and> v = xs ! i \<and> t = s"
  by (auto simp: aget_def)

text \<open>The scans the code runs over its tables: least index with a property, if any.\<close>

primrec find_idx_from :: "('a \<Rightarrow> bool) \<Rightarrow> nat \<Rightarrow> 'a list \<Rightarrow> nat option" where
  "find_idx_from p i [] = None"
| "find_idx_from p i (x # xs) = (if p x then Some i else find_idx_from p (Suc i) xs)"

definition find_idx :: "('a \<Rightarrow> bool) \<Rightarrow> 'a list \<Rightarrow> nat option" where
  "find_idx p xs = find_idx_from p 0 xs"

lemma find_idx_from_Some_iff:
  "find_idx_from p i xs = Some j \<longleftrightarrow>
     i \<le> j \<and> j < i + length xs \<and> p (xs ! (j - i)) \<and> (\<forall>k < j - i. \<not> p (xs ! k))"
proof (induction xs arbitrary: i)
  case Nil
  then show ?case by simp
next
  case (Cons x xs)
  show ?case
  proof (cases "p x")
    case True
    then show ?thesis
      by (auto, metis diff_is_0_eq' neq0_conv nth_Cons_0 le_antisym not_le zero_less_diff)
  next
    case False
    have step: "j - i = Suc (j - Suc i)" if "Suc i \<le> j" using that by simp
    show ?thesis
    proof
      assume "find_idx_from p i (x # xs) = Some j"
      with False have "find_idx_from p (Suc i) xs = Some j" by simp
      with Cons.IH have *: "Suc i \<le> j" "j < Suc i + length xs" "p (xs ! (j - Suc i))"
        "\<forall>k < j - Suc i. \<not> p (xs ! k)" by auto
      show "i \<le> j \<and> j < i + length (x # xs) \<and> p ((x # xs) ! (j - i))
        \<and> (\<forall>k < j - i. \<not> p ((x # xs) ! k))"
        using * False step by (auto simp: less_Suc_eq_0_disj)
    next
      assume *: "i \<le> j \<and> j < i + length (x # xs) \<and> p ((x # xs) ! (j - i))
        \<and> (\<forall>k < j - i. \<not> p ((x # xs) ! k))"
      with False have "Suc i \<le> j" by (metis diff_self_eq_0 le_neq_implies_less nth_Cons_0 Suc_leI)
      with * step have "find_idx_from p (Suc i) xs = Some j"
        by (subst Cons.IH) auto
      with False show "find_idx_from p i (x # xs) = Some j" by simp
    qed
  qed
qed

lemma find_idx_Some_iff:
  "find_idx p xs = Some j \<longleftrightarrow> j < length xs \<and> p (xs ! j) \<and> (\<forall>k < j. \<not> p (xs ! k))"
  by (simp add: find_idx_def find_idx_from_Some_iff)

lemma find_idx_from_None_iff: "find_idx_from p i xs = None \<longleftrightarrow> (\<forall>x \<in> set xs. \<not> p x)"
  by (induction xs arbitrary: i) auto

lemma find_idx_None_iff: "find_idx p xs = None \<longleftrightarrow> (\<forall>x \<in> set xs. \<not> p x)"
  by (simp add: find_idx_def find_idx_from_None_iff)

lemma find_idx_cong:
  assumes "\<And>x. x \<in> set xs \<Longrightarrow> p x = q x"
  shows "find_idx p xs = find_idx q xs"
proof -
  have "find_idx_from p i xs = find_idx_from q i xs" for i
    using assms by (induction xs arbitrary: i) auto
  then show ?thesis by (simp add: find_idx_def)
qed

lemma find_idx_SomeD:
  assumes "find_idx p xs = Some j"
  shows "j < length xs" and "p (xs ! j)" and "\<And>k. k < j \<Longrightarrow> \<not> p (xs ! k)"
  using assms by (simp_all add: find_idx_Some_iff)

text \<open>A \<open>long\<close> has 32 bits: a sum that leaves its range wraps around. Numbers of this kind
  are kept as \<open>int\<close>; where the code computes with them \<open>long\<close> is written out.\<close>

definition long :: "int \<Rightarrow> int" where
  "long x = sint (of_int x :: 32 word)"

lemma long_id: "- (2 ^ 31) \<le> x \<Longrightarrow> x < 2 ^ 31 \<Longrightarrow> long x = x"
  by (simp add: long_def sint_sbintrunc' signed_take_bit_int_eq_self)

text \<open>Byte count and multiset facts used for the tables.\<close>

lemma unat_inc: "x \<noteq> - 1 \<Longrightarrow> unat (x + 1) = Suc (unat x)" for x :: "'a::len word"
  using unatSuc [of x] by (simp add: add.commute add_eq_0_iff)

lemma unat_dec: "x \<noteq> 0 \<Longrightarrow> unat (x - 1) = unat x - 1" for x :: "'a::len word"
  by (rule unat_minus_one)

lemma unat_of_nat_small: "n < 2 ^ LENGTH('a) \<Longrightarrow> unat (of_nat n :: 'a::len word) = n"
  by (simp add: unat_of_nat take_bit_nat_eq_self)

end
