(* ===== verification/Addr.thy ===== *)
theory Addr
  imports Prelude
begin

text \<open>
  Page arithmetic on 32-bit addresses, as the memory-management code writes it: the frame of an
  address is \<open>x AND 0xFFFFF000\<close>, its offset \<open>x AND 0xFFF\<close>; the slot of an address in the page
  directory (which lives at physical address 0) is \<open>(x >> 20) AND 0xFFC\<close>, and its byte offset in
  a page table \<open>(x >> 10) AND 0xFFC\<close>. The lemmas say that frame plus offset is an injective
  encoding, which is what every page-table update relies on.
\<close>

definition dir_slot :: "u32 \<Rightarrow> u32" where
  "dir_slot a = drop_bit 20 a AND 0xFFC"

definition pte_offset :: "u32 \<Rightarrow> u32" where
  "pte_offset a = drop_bit 10 a AND 0xFFC"

named_theorems page_simps "simplification rules for frames and offsets"

lemma frame_mask: "(0xFFFFF000::u32) = NOT (mask 12)"
  by (simp add: mask_eq_exp_minus_1)

lemma off_mask: "(0xFFF::u32) = mask 12"
  by (simp add: mask_eq_exp_minus_1)

lemma slot_mask: "(0xFFC::u32) = push_bit 2 (mask 10)"
  by (simp add: mask_eq_exp_minus_1)

lemma bit_frame: "bit (x AND 0xFFFFF000 :: u32) n \<longleftrightarrow> 12 \<le> n \<and> bit x n"
  unfolding frame_mask by (auto simp: bit_simps dest: bit_imp_le_length)

lemma bit_off: "bit (x AND 0xFFF :: u32) n \<longleftrightarrow> n < 12 \<and> bit x n"
  unfolding off_mask by (auto simp: bit_simps dest: bit_imp_le_length)

lemma off0_iff: "(p::u32) AND 0xFFF = 0 \<longleftrightarrow> (\<forall>n<12. \<not> bit p n)"
  unfolding bit_eq_iff [of "p AND 0xFFF"] bit_off by (auto dest: bit_imp_le_length)

lemma frame0_iff: "(p::u32) AND 0xFFFFF000 = 0 \<longleftrightarrow> (\<forall>n\<ge>12. \<not> bit p n)"
  unfolding bit_eq_iff [of "p AND 0xFFFFF000"] bit_frame using bit_imp_le_length [of p] by auto

lemma page_add_or:
  fixes p off :: u32
  assumes "p AND 0xFFF = 0" and "off AND 0xFFFFF000 = 0"
  shows "p + off = p OR off"
  using assms by (intro disjunctive_add) (auto simp: off0_iff frame0_iff, meson not_le)

lemma or_frame:
  fixes p off :: u32
  assumes "p AND 0xFFF = 0" and "off AND 0xFFFFF000 = 0"
  shows "(p OR off) AND 0xFFFFF000 = p"
  by (rule bit_word_eqI)
    (use assms in \<open>auto simp: off0_iff frame0_iff bit_frame bit_or_iff; meson not_le\<close>)

lemma or_off:
  fixes p off :: u32
  assumes "p AND 0xFFF = 0" and "off AND 0xFFFFF000 = 0"
  shows "(p OR off) AND 0xFFF = off"
  by (rule bit_word_eqI)
    (use assms in \<open>auto simp: off0_iff frame0_iff bit_off bit_or_iff; meson not_le\<close>)

lemma frame_add [page_simps]:
  fixes p off :: u32
  shows "p AND 0xFFF = 0 \<Longrightarrow> off AND 0xFFFFF000 = 0 \<Longrightarrow> (p + off) AND 0xFFFFF000 = p"
  by (simp add: page_add_or or_frame)

lemma off_add [page_simps]:
  fixes p off :: u32
  shows "p AND 0xFFF = 0 \<Longrightarrow> off AND 0xFFFFF000 = 0 \<Longrightarrow> (p + off) AND 0xFFF = off"
  by (simp add: page_add_or or_off)

lemma frame_off0 [page_simps]: "(x AND 0xFFFFF000) AND 0xFFF = (0::u32)"
  by (simp add: off0_iff bit_frame)

lemma off_frame0 [page_simps]: "(x AND 0xFFF) AND 0xFFFFF000 = (0::u32)"
  by (simp add: frame0_iff bit_off)

lemma frame_idem [page_simps]: "(x AND 0xFFFFF000) AND 0xFFFFF000 = (x AND 0xFFFFF000 :: u32)"
  by (simp add: and.assoc)

lemma frame_aligned [page_simps]: "(p::u32) AND 0xFFF = 0 \<Longrightarrow> p AND 0xFFFFF000 = p"
  using or_frame [of p 0] by simp

lemma frame_or7 [page_simps]: "(p::u32) AND 0xFFF = 0 \<Longrightarrow> (p OR 7) AND 0xFFFFF000 = p"
  by (rule or_frame) simp_all

lemma odd_or7 [page_simps]: "((p::u32) OR 7) AND 1 = 1"
  by (simp add: and_one_eq even_or_iff flip: odd_iff_mod_2_eq_one)

lemma pte_offset_frame [page_simps]: "pte_offset x AND 0xFFFFF000 = 0"
  unfolding pte_offset_def slot_mask frame0_iff by (auto simp: bit_simps)

lemma dir_slot_frame [page_simps]: "dir_slot x AND 0xFFFFF000 = 0"
  unfolding dir_slot_def slot_mask frame0_iff by (auto simp: bit_simps)

lemma page_add_inj:
  fixes p q x y :: u32
  assumes "p AND 0xFFF = 0" "q AND 0xFFF = 0" "x AND 0xFFFFF000 = 0" "y AND 0xFFFFF000 = 0"
  shows "p + x = q + y \<longleftrightarrow> p = q \<and> x = y"
  by (metis assms frame_add off_add)

text \<open>The two ways the code indexes a page table agree.\<close>

lemma pte_index: "4 * (drop_bit 12 a AND 0x3FF) = pte_offset a"
proof -
  have m: "(0x3FF::u32) = mask 10" by (simp add: mask_eq_exp_minus_1)
  have "4 * (drop_bit 12 a AND 0x3FF) = push_bit 2 (drop_bit 12 a AND 0x3FF)"
    by (simp only: push_bit_eq_mult) simp
  also have "\<dots> = pte_offset a"
    unfolding slot_mask m pte_offset_def by (rule bit_word_eqI) (auto simp: bit_simps)
  finally show ?thesis .
qed

lemma and_one_eq0 [page_simps]: "(x::u32) AND 1 = 0 \<longleftrightarrow> even x"
  by (simp add: and_one_eq flip: even_iff_mod_2_eq_zero)

end
