(* ===== verification/PageAlloc.thy ===== *)
theory PageAlloc
  imports Prelude
begin

text \<open>
  The contract by which the rest of the kernel uses the page allocator: what a successful
  \<open>get_free_page\<close> and \<open>free_page\<close> promise about the reference counts. \<open>alloc_pages\<close> is the
  loop by which a client collects several pages; its properties are proved once from the
  contract. The memory manager provides the interpretation.
\<close>

text \<open>
  Collect \<open>n\<close> pages in allocation order; the flag says whether all of them were obtained.
\<close>

fun alloc_pages :: "('s \<Rightarrow> (u32, 's) res) \<Rightarrow> nat \<Rightarrow> 's \<Rightarrow> (bool \<times> u32 list, 's) res" where
  "alloc_pages alloc 0 s = Ok (True, []) s"
| "alloc_pages alloc (Suc n) s =
     bind (alloc s) (\<lambda>p s.
     if p = 0 then Ok (False, []) s
     else bind (alloc_pages alloc n s) (\<lambda>(ok, ps) s. Ok (ok, p # ps) s))"

text \<open>Release a list of pages in order.\<close>

fun free_list :: "(u32 \<Rightarrow> 's \<Rightarrow> (unit, 's) res) \<Rightarrow> u32 list \<Rightarrow> 's \<Rightarrow> (unit, 's) res" where
  "free_list free [] s = Ok () s"
| "free_list free (p # ps) s = bind (free p s) (\<lambda>_ s. free_list free ps s)"

locale page_alloc =
  fixes alloc :: "'s \<Rightarrow> (u32, 's) res"
    and free :: "u32 \<Rightarrow> 's \<Rightarrow> (unit, 's) res"
    and refs :: "'s \<Rightarrow> u32 \<Rightarrow> nat"
    and page :: "u32 \<Rightarrow> bool"
    and inv :: "'s \<Rightarrow> bool"
  assumes alloc_returns: "inv s \<Longrightarrow> \<exists>p t. alloc s = Ok p t \<and> inv t"
    and alloc_none: "inv s \<Longrightarrow> alloc s = Ok 0 t \<Longrightarrow> t = s \<and> (\<forall>q. page q \<longrightarrow> refs s q \<noteq> 0)"
    and alloc_some: "inv s \<Longrightarrow> alloc s = Ok p t \<Longrightarrow> p \<noteq> 0 \<Longrightarrow>
        page p \<and> refs s p = 0 \<and> refs t p = 1 \<and> (\<forall>q. page q \<longrightarrow> q \<noteq> p \<longrightarrow> refs t q = refs s q)"
    and free_returns: "inv s \<Longrightarrow> page p \<Longrightarrow> refs s p = 1 \<Longrightarrow>
        \<exists>t. free p s = Ok () t \<and> inv t \<and> refs t p = 0
          \<and> (\<forall>q. page q \<longrightarrow> q \<noteq> p \<longrightarrow> refs t q = refs s q)"
    and page_nonzero: "page p \<Longrightarrow> p \<noteq> 0"
begin

lemma alloc_inv: "inv s \<Longrightarrow> alloc s = Ok p t \<Longrightarrow> inv t"
  using alloc_returns by fastforce

lemma alloc_pages_spec:
  assumes "inv s"
  shows "\<exists>ok ps t. alloc_pages alloc n s = Ok (ok, ps) t \<and> inv t \<and> distinct ps
     \<and> (\<forall>p \<in> set ps. page p \<and> refs s p = 0 \<and> refs t p = 1)
     \<and> (\<forall>q. page q \<longrightarrow> q \<notin> set ps \<longrightarrow> refs t q = refs s q)
     \<and> length ps \<le> n \<and> (ok \<longleftrightarrow> length ps = n)
     \<and> (\<not> ok \<longrightarrow> (\<forall>q. page q \<longrightarrow> refs t q \<noteq> 0))"
  using assms
proof (induction n arbitrary: s)
  case 0
  then show ?case by (intro exI [of _ True]) simp
next
  case (Suc n)
  then obtain p u where a: "alloc s = Ok p u" and u: "inv u"
    using alloc_returns by blast
  show ?case
  proof (cases "p = 0")
    case True
    with a Suc.prems alloc_none [of s u] show ?thesis by auto
  next
    case False
    note p = alloc_some [OF Suc.prems a False]
    from Suc.IH [OF u] obtain ok ps t where
      r: "alloc_pages alloc n u = Ok (ok, ps) t" and t: "inv t" and d: "distinct ps"
      and ps: "\<forall>p \<in> set ps. page p \<and> refs u p = 0 \<and> refs t p = 1"
      and frame: "\<forall>q. page q \<longrightarrow> q \<notin> set ps \<longrightarrow> refs t q = refs u q"
      and len: "length ps \<le> n" "ok \<longleftrightarrow> length ps = n"
      and fail: "\<not> ok \<longrightarrow> (\<forall>q. page q \<longrightarrow> refs t q \<noteq> 0)"
      by blast
    have notin: "p \<notin> set ps" using p ps by auto
    have "refs t p = 1" using p frame notin by simp
    moreover have "refs s q = 0" if "q \<in> set ps" for q
      using that p ps notin by (metis)
    moreover have "refs t q = refs s q" if "page q" "q \<notin> set (p # ps)" for q
      using that p frame by simp
    ultimately show ?thesis
      using a False r t d ps p notin len fail by (intro exI [of _ ok] exI [of _ "p # ps"]) auto
  qed
qed

lemma free_list_spec:
  assumes "inv s" and "distinct ps" and "\<forall>p \<in> set ps. page p \<and> refs s p = 1"
  shows "\<exists>t. free_list free ps s = Ok () t \<and> inv t \<and> (\<forall>p \<in> set ps. refs t p = 0)
     \<and> (\<forall>q. page q \<longrightarrow> q \<notin> set ps \<longrightarrow> refs t q = refs s q)"
  using assms
proof (induction ps arbitrary: s)
  case Nil
  then show ?case by simp
next
  case (Cons p ps)
  then obtain u where u: "free p s = Ok () u" "inv u" "refs u p = 0"
    "\<forall>q. page q \<longrightarrow> q \<noteq> p \<longrightarrow> refs u q = refs s q"
    using free_returns [of s p] by auto
  have "\<forall>q \<in> set ps. page q \<and> refs u q = 1" using Cons.prems u by auto
  with Cons.IH [OF u(2)] Cons.prems obtain t where
    "free_list free ps u = Ok () t" "inv t" "\<forall>p \<in> set ps. refs t p = 0"
    "\<forall>q. page q \<longrightarrow> q \<notin> set ps \<longrightarrow> refs t q = refs u q" by auto
  with u Cons.prems show ?case by auto
qed

text \<open>A failed collection that is rolled back, last page first, leaves every count as it was.\<close>

lemma alloc_rollback:
  assumes "inv s" and "alloc_pages alloc n s = Ok (ok, ps) t"
  shows "\<exists>u. free_list free (rev ps) t = Ok () u \<and> inv u \<and> (\<forall>q. page q \<longrightarrow> refs u q = refs s q)"
proof -
  from alloc_pages_spec [OF assms(1), of n] assms(2) have
    t: "inv t" "distinct ps" and ps: "\<forall>p \<in> set ps. page p \<and> refs s p = 0 \<and> refs t p = 1"
    and fr: "\<forall>q. page q \<longrightarrow> q \<notin> set ps \<longrightarrow> refs t q = refs s q" by auto
  with free_list_spec [of t "rev ps"] obtain u where "free_list free (rev ps) t = Ok () u" "inv u"
    "\<forall>p \<in> set ps. refs u p = 0" "\<forall>q. page q \<longrightarrow> q \<notin> set ps \<longrightarrow> refs u q = refs t q" by auto
  with ps fr show ?thesis by metis
qed

end

end
