(* ===== verification/Mm.thy ===== *)
theory Mm
  imports Addr PageAlloc
begin

text \<open>
  Physical memory and paging: \<open>mm/memory.c\<close>, but for the routines that need the file system
  (\<open>share_page\<close>, \<open>do_no_page\<close>). The state is the byte array \<open>mem_map\<close> of reference counts, the
  variable \<open>HIGH_MEMORY\<close> and physical memory, as a store of 32-bit words at byte addresses
  divisible by 4; the page directory is at address 0, as \<open>_pg_dir\<close> is. Page tables are read and
  written through this store, so their aliasing is the code's. \<open>printk\<close> and \<open>invalidate\<close> have no
  effect on this state. A reference count outside \<open>mem_map\<close> that the code would write is a
  \<open>Fault\<close>; \<open>oom\<close> ends the task with \<open>SIGSEGV\<close>.
\<close>

definition LOW_MEM :: u32 where
  "LOW_MEM = 0x100000"

definition PAGING_PAGES :: nat where
  "PAGING_PAGES = 3840"

definition USED :: u8 where
  "USED = 100"

definition MAP_NR :: "u32 \<Rightarrow> nat" where
  "MAP_NR addr = unat (drop_bit 12 (addr - LOW_MEM))"

definition SIGSEGV :: int where
  "SIGSEGV = 11"

record mm =
  mem_map :: "u8 list"
  HIGH_MEMORY :: u32
  phys :: "u32 \<Rightarrow> u32"

definition poke :: "u32 \<Rightarrow> u32 \<Rightarrow> 'a mm_scheme \<Rightarrow> 'a mm_scheme" where
  "poke a v s = s\<lparr>phys := (phys s)(a := v)\<rparr>"

definition oom :: "'a mm_scheme \<Rightarrow> ('b, 'a mm_scheme) res" where
  "oom s = Exits SIGSEGV s"

subsection \<open>Page frames\<close>

text \<open>\<open>repne scasb\<close> from the last entry of \<open>mem_map\<close> downwards, looking for a zero byte.\<close>

fun scan_down :: "u8 list \<Rightarrow> nat \<Rightarrow> nat option" where
  "scan_down mp 0 = None"
| "scan_down mp (Suc n) = (if mp ! n = 0 then Some n else scan_down mp n)"

definition page_addr :: "nat \<Rightarrow> u32" where
  "page_addr n = push_bit 12 (of_nat n) + LOW_MEM"

definition clear_page :: "u32 \<Rightarrow> (u32 \<Rightarrow> u32) \<Rightarrow> u32 \<Rightarrow> u32" where
  "clear_page p m = (\<lambda>a. if a AND 0xFFFFF000 = p then 0 else m a)"

definition copy_page :: "u32 \<Rightarrow> u32 \<Rightarrow> (u32 \<Rightarrow> u32) \<Rightarrow> u32 \<Rightarrow> u32" where
  "copy_page src dst m =
     (\<lambda>a. if a AND 0xFFFFF000 = dst then m (src + (a AND 0xFFF)) else m a)"

definition get_free_page :: "'a mm_scheme \<Rightarrow> (u32, 'a mm_scheme) res" where
  "get_free_page s =
     (case scan_down (mem_map s) PAGING_PAGES of
        None \<Rightarrow> Ok 0 s
      | Some n \<Rightarrow>
          Ok (page_addr n)
            (s\<lparr>mem_map := (mem_map s)[n := 1], phys := clear_page (page_addr n) (phys s)\<rparr>))"

definition free_page :: "u32 \<Rightarrow> 'a mm_scheme \<Rightarrow> (unit, 'a mm_scheme) res" where
  "free_page addr s =
     (if addr < LOW_MEM then Ok () s
      else if HIGH_MEMORY s \<le> addr then Panic ''trying to free nonexistent page''
      else bind (aget (mem_map s) (MAP_NR addr) s) (\<lambda>c s.
        if c \<noteq> 0 then Ok () (s\<lparr>mem_map := (mem_map s)[MAP_NR addr := c - 1]\<rparr>)
        else Panic ''trying to free free page''))"

definition inc_map :: "u32 \<Rightarrow> 'a mm_scheme \<Rightarrow> (unit, 'a mm_scheme) res" where
  "inc_map addr s =
     bind (aget (mem_map s) (MAP_NR addr) s) (\<lambda>c s.
       Ok () (s\<lparr>mem_map := (mem_map s)[MAP_NR addr := c + 1]\<rparr>))"

definition dec_map :: "u32 \<Rightarrow> 'a mm_scheme \<Rightarrow> (unit, 'a mm_scheme) res" where
  "dec_map addr s =
     bind (aget (mem_map s) (MAP_NR addr) s) (\<lambda>c s.
       Ok () (s\<lparr>mem_map := (mem_map s)[MAP_NR addr := c - 1]\<rparr>))"

subsection \<open>Freeing and copying page tables\<close>

fun free_ptes :: "nat \<Rightarrow> u32 \<Rightarrow> 'a mm_scheme \<Rightarrow> (unit, 'a mm_scheme) res" where
  "free_ptes 0 pg_table s = Ok () s"
| "free_ptes (Suc nr) pg_table s =
     bind (if phys s pg_table AND 1 \<noteq> 0 then free_page (phys s pg_table AND 0xFFFFF000) s
           else Ok () s) (\<lambda>_ s.
     free_ptes nr (pg_table + 4) (poke pg_table 0 s))"

fun free_dirs :: "nat \<Rightarrow> u32 \<Rightarrow> 'a mm_scheme \<Rightarrow> (unit, 'a mm_scheme) res" where
  "free_dirs 0 dir s = Ok () s"
| "free_dirs (Suc n) dir s =
     bind (if phys s dir AND 1 = 0 then Ok () s
           else bind (free_ptes 1024 (phys s dir AND 0xFFFFF000) s) (\<lambda>_ s.
                bind (free_page (phys s dir AND 0xFFFFF000) s) (\<lambda>_ s.
                Ok () (poke dir 0 s)))) (\<lambda>_ s.
     free_dirs n (dir + 4) s)"

definition free_page_tables :: "u32 \<Rightarrow> u32 \<Rightarrow> 'a mm_scheme \<Rightarrow> (int, 'a mm_scheme) res" where
  "free_page_tables src len s =
     (if src AND 0x3FFFFF \<noteq> 0 then Panic ''free_page_tables called with wrong alignment''
      else if src = 0 then Panic ''Trying to free up swapper memory space''
      else bind (free_dirs (unat (drop_bit 22 (len + 0x3FFFFF))) (dir_slot src) s)
             (\<lambda>_ s. Ok 0 s))"

fun copy_ptes :: "nat \<Rightarrow> u32 \<Rightarrow> u32 \<Rightarrow> 'a mm_scheme \<Rightarrow> (unit, 'a mm_scheme) res" where
  "copy_ptes 0 from_pt to_pt s = Ok () s"
| "copy_ptes (Suc nr) from_pt to_pt s =
     bind (let this_page = phys s from_pt in
           if this_page AND 1 = 0 then Ok () s
           else let this_page = this_page AND NOT 2;
                    s = poke to_pt this_page s in
                if LOW_MEM < this_page then inc_map this_page (poke from_pt this_page s)
                else Ok () s) (\<lambda>_ s.
     copy_ptes nr (from_pt + 4) (to_pt + 4) s)"

text \<open>The loop over the directory; the value is the code's return value 0 or -1.\<close>

fun copy_dirs :: "nat \<Rightarrow> u32 \<Rightarrow> u32 \<Rightarrow> u32 \<Rightarrow> 'a mm_scheme \<Rightarrow> (int, 'a mm_scheme) res" where
  "copy_dirs 0 src from_dir to_dir s = Ok 0 s"
| "copy_dirs (Suc n) src from_dir to_dir s =
     (if phys s to_dir AND 1 \<noteq> 0 then Panic ''copy_page_tables: already exist''
      else if phys s from_dir AND 1 = 0 then
        copy_dirs n src (from_dir + 4) (to_dir + 4) s
      else
        let from_page_table = phys s from_dir AND 0xFFFFF000 in
        bind (get_free_page s) (\<lambda>to_page_table s.
        if to_page_table = 0 then Ok (-1) s
        else
          let s = poke to_dir (to_page_table OR 7) s in
          bind (copy_ptes (if src = 0 then 0xA0 else 1024) from_page_table to_page_table s)
            (\<lambda>_ s. copy_dirs n src (from_dir + 4) (to_dir + 4) s)))"

definition copy_page_tables :: "u32 \<Rightarrow> u32 \<Rightarrow> u32 \<Rightarrow> 'a mm_scheme \<Rightarrow> (int, 'a mm_scheme) res"
  where
  "copy_page_tables src dst len s =
     (if src AND 0x3FFFFF \<noteq> 0 \<or> dst AND 0x3FFFFF \<noteq> 0
      then Panic ''copy_page_tables called with wrong alignment''
      else copy_dirs (unat (drop_bit 22 (len + 0x3FFFFF))) src (dir_slot src) (dir_slot dst) s)"

subsection \<open>Mapping and copy-on-write\<close>

definition put_page :: "u32 \<Rightarrow> u32 \<Rightarrow> 'a mm_scheme \<Rightarrow> (u32, 'a mm_scheme) res" where
  "put_page page address s =
     (let page_table = dir_slot address in
      if phys s page_table AND 1 \<noteq> 0 then
        let page_table = phys s page_table AND 0xFFFFF000 in
        Ok page (poke (page_table + 4 * (drop_bit 12 address AND 0x3FF)) (page OR 7) s)
      else bind (get_free_page s) (\<lambda>tmp s.
        if tmp = 0 then Ok 0 s
        else
          let s = poke page_table (tmp OR 7) s in
          Ok page (poke (tmp + 4 * (drop_bit 12 address AND 0x3FF)) (page OR 7) s)))"

definition un_wp_page :: "u32 \<Rightarrow> 'a mm_scheme \<Rightarrow> (unit, 'a mm_scheme) res" where
  "un_wp_page table_entry s =
     (let old_page = phys s table_entry AND 0xFFFFF000 in
      bind (if LOW_MEM \<le> old_page
            then bind (aget (mem_map s) (MAP_NR old_page) s) (\<lambda>c s. Ok (c = 1) s)
            else Ok False s) (\<lambda>single s.
      if single then Ok () (poke table_entry (phys s table_entry OR 2) s)
      else bind (get_free_page s) (\<lambda>new_page s.
        if new_page = 0 then oom s
        else bind (if LOW_MEM \<le> old_page then dec_map old_page s else Ok () s) (\<lambda>_ s.
          let s = poke table_entry (new_page OR 7) s in
          Ok () (s\<lparr>phys := copy_page old_page new_page (phys s)\<rparr>)))))"

definition do_wp_page :: "u32 \<Rightarrow> 'a mm_scheme \<Rightarrow> (unit, 'a mm_scheme) res" where
  "do_wp_page address s =
     un_wp_page (pte_offset address + (phys s (dir_slot address) AND 0xFFFFF000)) s"

definition write_verify :: "u32 \<Rightarrow> 'a mm_scheme \<Rightarrow> (unit, 'a mm_scheme) res" where
  "write_verify address s =
     (let page = phys s (dir_slot address) in
      if page AND 1 = 0 then Ok () s
      else
        let page = (page AND 0xFFFFF000) + pte_offset address in
        if 3 AND phys s page = 1 then un_wp_page page s else Ok () s)"

definition get_empty_page :: "u32 \<Rightarrow> 'a mm_scheme \<Rightarrow> (unit, 'a mm_scheme) res" where
  "get_empty_page address s =
     bind (get_free_page s) (\<lambda>tmp s.
     if tmp = 0 then bind (free_page tmp s) (\<lambda>_ s. oom s)
     else bind (put_page tmp address s) (\<lambda>r s.
       if r = 0 then bind (free_page tmp s) (\<lambda>_ s. oom s) else Ok () s))"

text \<open>
  \<open>try_to_share(address, p)\<close>, with the \<open>start_code\<close> of \<open>p\<close> and of the current task as arguments.
\<close>

definition try_to_share :: "u32 \<Rightarrow> u32 \<Rightarrow> u32 \<Rightarrow> 'a mm_scheme \<Rightarrow> (int, 'a mm_scheme) res" where
  "try_to_share address p_start cur_start s =
     (let from_page = dir_slot address + dir_slot p_start;
          to_page = dir_slot address + dir_slot cur_start;
          src = phys s from_page in
      if src AND 1 = 0 then Ok 0 s
      else
        let from_page = (src AND 0xFFFFF000) + pte_offset address;
            phys_addr = phys s from_page in
        if phys_addr AND 0x41 \<noteq> 1 then Ok 0 s
        else
          let phys_addr = phys_addr AND 0xFFFFF000 in
          if HIGH_MEMORY s \<le> phys_addr \<or> phys_addr < LOW_MEM then Ok 0 s
          else
            let dst = phys s to_page in
            bind (if dst AND 1 = 0
                  then bind (get_free_page s) (\<lambda>dst s.
                         if dst \<noteq> 0 then Ok dst (poke to_page (dst OR 7) s) else oom s)
                  else Ok dst s) (\<lambda>dst s.
            let to_page = (dst AND 0xFFFFF000) + pte_offset address in
            if phys s to_page AND 1 \<noteq> 0 then Panic ''try_to_share: to_page already exists''
            else
              let s = poke from_page (phys s from_page AND NOT 2) s;
                  s = poke to_page (phys s from_page) s in
              bind (inc_map phys_addr s) (\<lambda>_ s. Ok 1 s)))"

subsection \<open>Initialisation and statistics\<close>

fun clear_map :: "nat \<Rightarrow> nat \<Rightarrow> 'a mm_scheme \<Rightarrow> (unit, 'a mm_scheme) res" where
  "clear_map 0 i s = Ok () s"
| "clear_map (Suc n) i s =
     bind (aget (mem_map s) i s) (\<lambda>_ s.
     clear_map n (Suc i) (s\<lparr>mem_map := (mem_map s)[i := 0]\<rparr>))"

definition mem_init :: "u32 \<Rightarrow> u32 \<Rightarrow> 'a mm_scheme \<Rightarrow> (unit, 'a mm_scheme) res" where
  "mem_init start_mem end_mem s =
     (let s = s\<lparr>HIGH_MEMORY := end_mem, mem_map := replicate PAGING_PAGES USED\<rparr> in
      clear_map (nat (sint (end_mem - start_mem) div 4096)) (MAP_NR start_mem) s)"

text \<open>The number \<open>calc_mem\<close> prints as free, and the pages it counts per directory entry.\<close>

definition calc_free :: "'a mm_scheme \<Rightarrow> nat" where
  "calc_free s = length (filter (\<lambda>c. c = 0) (take PAGING_PAGES (mem_map s)))"

definition calc_dir :: "'a mm_scheme \<Rightarrow> nat \<Rightarrow> nat option" where
  "calc_dir s i =
     (let e = phys s (4 * of_nat i) in
      if e AND 1 \<noteq> 0
      then Some (length (filter (\<lambda>j. phys s ((e AND 0xFFFFF000) + 4 * of_nat j) AND 1 \<noteq> 0)
             [0..<1024]))
      else None)"

definition calc_mem :: "'a mm_scheme \<Rightarrow> nat \<times> (nat \<times> nat) list" where
  "calc_mem s =
     (calc_free s, List.map_filter (\<lambda>i. map_option (Pair i) (calc_dir s i)) [2..<1024])"

subsection \<open>Page numbers and addresses\<close>

lemma unat_page_addr:
  assumes "n < PAGING_PAGES"
  shows "unat (page_addr n) = 4096 * n + 1048576"
proof -
  have n: "n < 3840" using assms by (simp add: PAGING_PAGES_def)
  have "push_bit 12 (of_nat n :: u32) = of_nat (4096 * n)"
    by (simp add: push_bit_eq_mult)
  then have "page_addr n = of_nat (4096 * n + 1048576)"
    by (simp add: page_addr_def LOW_MEM_def)
  then have "unat (page_addr n) = (4096 * n + 1048576) mod 2 ^ 32"
    by (simp only: unat_of_nat) simp
  then show ?thesis using n by simp
qed

lemma page_addr_ge: "n < PAGING_PAGES \<Longrightarrow> LOW_MEM \<le> page_addr n"
  by (simp add: word_le_nat_alt unat_page_addr LOW_MEM_def)

lemma page_addr_neq_0: "n < PAGING_PAGES \<Longrightarrow> page_addr n \<noteq> 0"
  by (metis unat_page_addr unat_0 add_is_0 zero_neq_numeral)

lemma page_addr_aligned: "n < PAGING_PAGES \<Longrightarrow> page_addr n AND 0xFFF = 0"
  unfolding off_mask and_mask_dvd_nat [symmetric] by (simp add: unat_page_addr)

lemma MAP_NR_page_addr: "n < PAGING_PAGES \<Longrightarrow> MAP_NR (page_addr n) = n"
proof -
  assume n: "n < PAGING_PAGES"
  have "unat (page_addr n - LOW_MEM) = 4096 * n"
    using page_addr_ge [OF n] unat_page_addr [OF n]
    by (simp add: unat_sub word_le_nat_alt LOW_MEM_def)
  then show ?thesis
    unfolding MAP_NR_def unat_drop_bit_eq by (simp add: drop_bit_eq_div)
qed

lemma page_addr_inj: "m < PAGING_PAGES \<Longrightarrow> n < PAGING_PAGES \<Longrightarrow> page_addr m = page_addr n \<Longrightarrow> m = n"
  by (metis MAP_NR_page_addr)

definition is_page :: "u32 \<Rightarrow> bool" where
  "is_page p \<longleftrightarrow> (LOW_MEM \<le> p \<and> p AND 0xFFF = 0 \<and> MAP_NR p < PAGING_PAGES)"

lemma is_page_addr: "n < PAGING_PAGES \<Longrightarrow> is_page (page_addr n)"
  by (simp add: is_page_def page_addr_ge page_addr_aligned MAP_NR_page_addr)

lemma page_addr_MAP_NR:
  assumes "is_page p"
  shows "page_addr (MAP_NR p) = p"
proof -
  have n: "MAP_NR p < PAGING_PAGES" and ge: "LOW_MEM \<le> p" and al: "4096 dvd unat p"
    using assms and_mask_dvd_nat [of 12 p] by (simp_all add: is_page_def off_mask)
  have "unat (p - LOW_MEM) = unat p - 1048576"
    using ge by (simp add: unat_sub word_le_nat_alt LOW_MEM_def)
  then have "MAP_NR p = (unat p - 1048576) div 4096"
    unfolding MAP_NR_def unat_drop_bit_eq by (simp add: drop_bit_eq_div)
  moreover have "1048576 \<le> unat p" using ge by (simp add: word_le_nat_alt LOW_MEM_def)
  ultimately have "4096 * MAP_NR p + 1048576 = unat p"
    using al by (auto elim!: dvdE)
  with unat_page_addr [OF n] have "unat (page_addr (MAP_NR p)) = unat p" by simp
  then show ?thesis by (simp add: word_unat_eq_iff)
qed

lemma is_page_neq_0: "is_page p \<Longrightarrow> p \<noteq> 0"
  using page_addr_neq_0 page_addr_MAP_NR is_page_def by metis

lemma MAP_NR_inj: "is_page p \<Longrightarrow> is_page q \<Longrightarrow> MAP_NR p = MAP_NR q \<Longrightarrow> p = q"
  by (metis page_addr_MAP_NR)

subsection \<open>The allocator meets its contract\<close>

text \<open>
  The invariant of the allocator: \<open>mem_map\<close> has its declared size, and a page at or above
  \<open>HIGH_MEMORY\<close> is never free.
\<close>

definition wf_mm :: "'a mm_scheme \<Rightarrow> bool" where
  "wf_mm s \<longleftrightarrow> length (mem_map s) = PAGING_PAGES \<and>
     (\<forall>n < PAGING_PAGES. mem_map s ! n = 0 \<longrightarrow> page_addr n < HIGH_MEMORY s)"

definition page_refs :: "'a mm_scheme \<Rightarrow> u32 \<Rightarrow> nat" where
  "page_refs s p = unat (mem_map s ! MAP_NR p)"

definition usable_page :: "'a mm_scheme \<Rightarrow> u32 \<Rightarrow> bool" where
  "usable_page s p \<longleftrightarrow> is_page p \<and> p < HIGH_MEMORY s"

lemma scan_down_None_iff: "scan_down mp n = None \<longleftrightarrow> (\<forall>k < n. mp ! k \<noteq> 0)"
  by (induction mp n rule: scan_down.induct) (auto simp: less_Suc_eq)

lemma scan_down_SomeD:
  "scan_down mp n = Some k \<Longrightarrow> k < n \<and> mp ! k = 0 \<and> (\<forall>j. k < j \<and> j < n \<longrightarrow> mp ! j \<noteq> 0)"
  by (induction mp n rule: scan_down.induct) (auto split: if_splits simp: less_Suc_eq)

lemma get_free_page_zero_iff:
  "get_free_page s = Ok 0 t \<longleftrightarrow> (\<forall>k < PAGING_PAGES. mem_map s ! k \<noteq> 0) \<and> t = s"
  using page_addr_neq_0 scan_down_None_iff [of "mem_map s" PAGING_PAGES]
  by (fastforce simp: get_free_page_def split: option.splits dest: scan_down_SomeD)

lemma get_free_page_SomeE:
  assumes "get_free_page s = Ok p t" and "p \<noteq> 0"
  obtains n where "n < PAGING_PAGES" "p = page_addr n" "mem_map s ! n = 0"
    "t = s\<lparr>mem_map := (mem_map s)[n := 1], phys := clear_page p (phys s)\<rparr>"
    "\<And>k. n < k \<Longrightarrow> k < PAGING_PAGES \<Longrightarrow> mem_map s ! k \<noteq> 0"
  using assms
  by (auto simp: get_free_page_def split: option.splits dest: scan_down_SomeD)

lemma get_free_page_returns: "\<exists>p t. get_free_page s = Ok p t"
  by (simp add: get_free_page_def split: option.splits)

lemma get_free_page_wf: "wf_mm s \<Longrightarrow> get_free_page s = Ok p t \<Longrightarrow> wf_mm t"
  by (auto simp: get_free_page_def wf_mm_def nth_list_update dest!: scan_down_SomeD
      split: option.splits if_splits)

lemma get_free_page_HIGH: "get_free_page s = Ok p t \<Longrightarrow> HIGH_MEMORY t = HIGH_MEMORY s"
  by (auto simp: get_free_page_def split: option.splits)

lemma page_refs_update:
  assumes "length (mem_map s) = PAGING_PAGES" "is_page p" "is_page q"
  shows "unat ((mem_map s)[MAP_NR p := c] ! MAP_NR q) = (if q = p then unat c else page_refs s q)"
  using assms MAP_NR_inj [of p q]
  by (auto simp: page_refs_def is_page_def nth_list_update)

lemma get_free_page_refs:
  assumes wf: "wf_mm s" and g: "get_free_page s = Ok p t" and p: "p \<noteq> 0"
  shows "usable_page s p \<and> page_refs s p = 0 \<and> page_refs t p = 1 \<and>
     (\<forall>q. is_page q \<longrightarrow> q \<noteq> p \<longrightarrow> page_refs t q = page_refs s q)"
proof -
  from get_free_page_SomeE [OF g p] obtain n where n: "n < PAGING_PAGES" "p = page_addr n"
    "mem_map s ! n = 0" "t = s\<lparr>mem_map := (mem_map s)[n := 1], phys := clear_page p (phys s)\<rparr>" .
  have p': "is_page p" "MAP_NR p = n" using n is_page_addr MAP_NR_page_addr by simp_all
  have len: "length (mem_map s) = PAGING_PAGES" using wf by (simp add: wf_mm_def)
  have refs: "page_refs t q = (if q = p then 1 else page_refs s q)" if "is_page q" for q
    using page_refs_update [OF len p'(1) that, of 1] n p' by (simp add: page_refs_def)
  show ?thesis
    using wf n p' refs by (simp add: usable_page_def wf_mm_def page_refs_def)
qed

lemma free_page_refs:
  assumes wf: "wf_mm s" and p: "usable_page s p" and r: "page_refs s p \<noteq> 0"
  shows "\<exists>t. free_page p s = Ok () t \<and> wf_mm t \<and> page_refs t p = page_refs s p - 1 \<and>
     HIGH_MEMORY t = HIGH_MEMORY s \<and> phys t = phys s \<and>
     (\<forall>q. is_page q \<longrightarrow> q \<noteq> p \<longrightarrow> page_refs t q = page_refs s q)"
proof -
  let ?c = "mem_map s ! MAP_NR p"
  let ?t = "s\<lparr>mem_map := (mem_map s)[MAP_NR p := ?c - 1]\<rparr>"
  have p': "is_page p" "p < HIGH_MEMORY s" "\<not> p < LOW_MEM" "MAP_NR p < PAGING_PAGES"
    using p by (auto simp: usable_page_def is_page_def)
  have len: "length (mem_map s) = PAGING_PAGES" using wf by (simp add: wf_mm_def)
  have c: "?c \<noteq> 0" using r by (auto simp: page_refs_def)
  then have "free_page p s = Ok () ?t"
    using p' len by (simp add: free_page_def)
  moreover have "wf_mm ?t"
    using wf p' page_addr_MAP_NR [OF p'(1)] by (auto simp: wf_mm_def nth_list_update)
  moreover have "page_refs ?t q = (if q = p then page_refs s p - 1 else page_refs s q)"
    if "is_page q" for q
    using page_refs_update [OF len p'(1) that, of "?c - 1"] unat_dec [OF c]
    by (simp add: page_refs_def)
  ultimately show ?thesis using p'(1) by (intro exI [of _ ?t]) simp
qed

text \<open>
  The contract is met on the pages below a given \<open>HIGH_MEMORY\<close>, which no operation changes.
\<close>

interpretation mm: page_alloc get_free_page free_page page_refs
  "\<lambda>p. is_page p \<and> p < h" "\<lambda>s. wf_mm s \<and> HIGH_MEMORY s = h" for h
proof (unfold_locales, goal_cases)
  case (1 s)
  then show ?case
    using get_free_page_returns [of s] get_free_page_wf get_free_page_HIGH by metis
next
  case (2 s t)
  then show ?case
    by (auto simp: get_free_page_zero_iff page_refs_def is_page_def unat_eq_zero)
next
  case (3 s p t)
  then show ?case using get_free_page_refs [of s p t] by (auto simp: usable_page_def)
next
  case (4 s p)
  then show ?case using free_page_refs [of s p] by (fastforce simp: usable_page_def)
next
  case (5 p)
  then show ?case using is_page_neq_0 by blast
qed

end
