(* ===== verification/Paging.thy ===== *)
theory Paging
  imports Mm
begin

text \<open>
  What the page-table code means: the translation of a linear address through the page directory
  at 0, the well-formedness of the page tables, and the effect of \<open>put_page\<close>,
  \<open>write_verify\<close>/\<open>un_wp_page\<close> (copy on write), \<open>try_to_share\<close> and \<open>copy_page_tables\<close> on it.
\<close>

definition dir_entry :: "'a mm_scheme \<Rightarrow> u32 \<Rightarrow> u32" where
  "dir_entry s a = phys s (dir_slot a)"

definition table_of :: "'a mm_scheme \<Rightarrow> u32 \<Rightarrow> u32" where
  "table_of s a = dir_entry s a AND 0xFFFFF000"

definition pte_addr :: "'a mm_scheme \<Rightarrow> u32 \<Rightarrow> u32" where
  "pte_addr s a = table_of s a + pte_offset a"

definition pte :: "'a mm_scheme \<Rightarrow> u32 \<Rightarrow> u32 option" where
  "pte s a = (if odd (dir_entry s a) \<and> odd (phys s (pte_addr s a))
              then Some (phys s (pte_addr s a)) else None)"

text \<open>
  Page tables are well formed when a present directory entry points to a page that is not the
  directory, that is in use if the allocator manages it, and that no other entry points to.
\<close>

definition wf_tables :: "'a mm_scheme \<Rightarrow> bool" where
  "wf_tables s \<longleftrightarrow>
     (\<forall>a. odd (dir_entry s a) \<longrightarrow> table_of s a \<noteq> 0 \<and>
        (is_page (table_of s a) \<longrightarrow> page_refs s (table_of s a) \<noteq> 0)) \<and>
     (\<forall>a b. odd (dir_entry s a) \<longrightarrow> odd (dir_entry s b) \<longrightarrow> table_of s a = table_of s b \<longrightarrow>
        dir_slot a = dir_slot b)"

lemma wf_tablesD:
  assumes "wf_tables s" and "odd (dir_entry s a)"
  shows "table_of s a \<noteq> 0"
    and "is_page (table_of s a) \<Longrightarrow> page_refs s (table_of s a) \<noteq> 0"
    and "odd (dir_entry s b) \<Longrightarrow> table_of s a = table_of s b \<Longrightarrow> dir_slot a = dir_slot b"
  using assms unfolding wf_tables_def by blast+

lemma table_of_aligned [page_simps]: "table_of s a AND 0xFFF = 0"
  by (simp add: table_of_def page_simps)

lemma pte_addr_frame [page_simps]: "pte_addr s a AND 0xFFFFF000 = table_of s a"
  by (simp add: pte_addr_def page_simps)

lemma pte_addr_not_dir:
  "table_of s a \<noteq> 0 \<Longrightarrow> pte_addr s a \<noteq> dir_slot b"
  by (metis pte_addr_frame dir_slot_frame)

lemma poke_simps [simp]:
  "phys (poke a v s) = (phys s)(a := v)" "mem_map (poke a v s) = mem_map s"
  "HIGH_MEMORY (poke a v s) = HIGH_MEMORY s"
  by (simp_all add: poke_def)

lemma wf_mm_poke [simp]: "wf_mm (poke a v s) = wf_mm s"
  by (simp add: wf_mm_def)

lemma page_refs_poke [simp]: "page_refs (poke a v s) p = page_refs s p"
  by (simp add: page_refs_def)

lemma pte_index': "t + 4 * (drop_bit 12 a AND 0x3FF) = t + pte_offset a"
  by (simp only: pte_index)

text \<open>Writing an entry of the table an address uses changes the mapping of that address only.\<close>

lemma poke_pte:
  assumes wf: "wf_tables s" and pres: "odd (dir_entry s a)"
  shows "dir_entry (poke (pte_addr s a) v s) b = dir_entry s b"
    and "pte (poke (pte_addr s a) v s) b =
      (if dir_slot b = dir_slot a \<and> pte_offset b = pte_offset a
       then (if odd v then Some v else None) else pte s b)"
    and "wf_tables (poke (pte_addr s a) v s)"
proof -
  let ?t = "poke (pte_addr s a) v s"
  have t0: "table_of s a \<noteq> 0" using wf pres by (rule wf_tablesD)
  have de: "dir_entry ?t b = dir_entry s b" for b
    using pte_addr_not_dir [OF t0, of b] by (simp add: dir_entry_def)
  have tb: "table_of ?t b = table_of s b" for b by (simp add: table_of_def de)
  have pa: "pte_addr ?t b = pte_addr s b" for b
    by (simp only: pte_addr_def [of ?t b] pte_addr_def [of s b] tb)
  have eq: "pte_addr s b = pte_addr s a \<longleftrightarrow> dir_slot b = dir_slot a \<and> pte_offset b = pte_offset a"
    if "odd (dir_entry s b)" for b
  proof -
    have "pte_addr s b = pte_addr s a \<longleftrightarrow> table_of s b = table_of s a \<and> pte_offset b = pte_offset a"
      by (simp add: pte_addr_def page_add_inj page_simps)
    moreover have "table_of s b = table_of s a \<longleftrightarrow> dir_slot b = dir_slot a"
      using wf_tablesD(3) [OF wf that pres] by (auto simp: table_of_def dir_entry_def)
    ultimately show ?thesis by simp
  qed
  show "dir_entry ?t b = dir_entry s b" by (rule de)
  have "dir_entry s b = dir_entry s a" if "dir_slot b = dir_slot a"
    using that by (simp add: dir_entry_def)
  then show "pte ?t b = (if dir_slot b = dir_slot a \<and> pte_offset b = pte_offset a
       then (if odd v then Some v else None) else pte s b)"
    using pres eq [of b] by (cases "odd (dir_entry s b)") (auto simp: pte_def de pa)
  show "wf_tables ?t" using wf unfolding wf_tables_def de tb page_refs_poke .
qed

text \<open>Installing a fresh zeroed page as a page table maps nothing new.\<close>

lemma new_table:
  assumes wf: "wf_mm s" "wf_tables s" and nopres: "even (dir_entry s a)"
    and g: "get_free_page s = Ok p t" and p: "p \<noteq> 0"
  defines "u \<equiv> poke (dir_slot a) (p OR 7) t"
  shows "wf_mm u" and "wf_tables u" and "odd (dir_entry u a)" and "pte u b = pte s b"
    and "table_of u a = p"
    and "dir_entry u b = (if dir_slot b = dir_slot a then p OR 7 else dir_entry s b)"
proof -
  from get_free_page_refs [OF wf(1) g p] have usable: "usable_page s p" and r0: "page_refs s p = 0"
    and r1: "page_refs t p = 1"
    and rq: "\<And>q. is_page q \<Longrightarrow> q \<noteq> p \<Longrightarrow> page_refs t q = page_refs s q" by auto
  have isp: "is_page p" and al: "p AND 0xFFF = 0" and p0: "p \<noteq> 0"
    using usable p by (auto simp: usable_page_def is_page_def)
  have ph: "phys t = clear_page p (phys s)"
    using g p by (auto elim: get_free_page_SomeE)
  have nottab: "table_of s b \<noteq> p" if "odd (dir_entry s b)" for b
    using wf_tablesD(2) [OF wf(2) that] isp r0 by auto
  have dt: "dir_entry t b = dir_entry s b" for b
    using p0 by (auto simp: dir_entry_def ph clear_page_def page_simps)
  have de: "dir_entry u b = (if dir_slot b = dir_slot a then p OR 7 else dir_entry s b)" for b
    using dt [of b] by (simp add: u_def dir_entry_def)
  have tb: "table_of u b = (if dir_slot b = dir_slot a then p else table_of s b)" for b
    by (simp add: table_of_def de frame_or7 [OF al])
  have odd7: "odd (p OR 7)" by (simp add: even_or_iff)
  show "wf_mm u" using get_free_page_wf [OF wf(1) g] by (simp add: u_def)
  show "odd (dir_entry u a)" using de odd7 by simp
  show "table_of u a = p" using tb by simp
  show "dir_entry u b = (if dir_slot b = dir_slot a then p OR 7 else dir_entry s b)" by (rule de)
  have noteven: "dir_slot b \<noteq> dir_slot a" if "odd (dir_entry s b)" for b
    using nopres that by (auto simp: dir_entry_def)
  have ru: "page_refs u q = (if q = p then 1 else page_refs s q)" if "is_page q" for q
    using rq [OF that] r1 by (simp add: u_def)
  show "wf_tables u"
    unfolding wf_tables_def
  proof (intro conjI allI impI)
    fix b assume "odd (dir_entry u b)"
    then show "table_of u b \<noteq> 0"
      using wf_tablesD(1) [OF wf(2)] p0 by (simp add: tb de split: if_splits)
  next
    fix b assume "odd (dir_entry u b)" "is_page (table_of u b)"
    then show "page_refs u (table_of u b) \<noteq> 0"
      using wf_tablesD(2) [OF wf(2)] by (simp add: tb de ru split: if_splits)
  next
    fix b c assume "odd (dir_entry u b)" "odd (dir_entry u c)" "table_of u b = table_of u c"
    then show "dir_slot b = dir_slot c"
      using wf_tablesD(3) [OF wf(2), of b c] nottab [of b] nottab [of c]
      by (simp add: tb de split: if_splits)
  qed
  have pz: "phys u (p + x) = 0" if "x AND 0xFFFFF000 = 0" for x
  proof -
    have "(p + x) AND 0xFFFFF000 = p" using al that by (simp add: frame_add)
    moreover have "p + x \<noteq> dir_slot a" using p0 calculation by (metis dir_slot_frame)
    ultimately show ?thesis by (simp add: u_def ph clear_page_def)
  qed
  have unch: "phys u c = phys s c" if "c AND 0xFFFFF000 \<noteq> p" "c AND 0xFFFFF000 \<noteq> 0" for c
    using that by (auto simp: u_def ph clear_page_def page_simps)
  show "pte u b = pte s b"
  proof (cases "dir_slot b = dir_slot a")
    case True
    then have "pte_addr u b = p + pte_offset b" by (simp add: pte_addr_def tb)
    then have "phys u (pte_addr u b) = 0" by (simp add: pz page_simps)
    moreover have "even (dir_entry s b)" using True nopres by (simp add: dir_entry_def)
    ultimately show ?thesis by (simp add: pte_def)
  next
    case False
    then have pa: "pte_addr u b = pte_addr s b" and "dir_entry u b = dir_entry s b"
      by (simp_all add: pte_addr_def tb de)
    moreover have "phys u (pte_addr s b) = phys s (pte_addr s b)" if "odd (dir_entry s b)"
      using unch [of "pte_addr s b"] nottab [OF that] wf_tablesD(1) [OF wf(2) that]
      by (simp add: page_simps)
    ultimately show ?thesis by (auto simp: pte_def)
  qed
qed

text \<open>\<open>same_pte a b\<close>: the two addresses are translated by the same page-table entry.\<close>

definition same_pte :: "u32 \<Rightarrow> u32 \<Rightarrow> bool" where
  "same_pte a b \<longleftrightarrow> dir_slot b = dir_slot a \<and> pte_offset b = pte_offset a"

lemma put_page_unfold:
  "put_page page a s =
     (if odd (dir_entry s a) then Ok page (poke (pte_addr s a) (page OR 7) s)
      else bind (get_free_page s) (\<lambda>tmp s.
        if tmp = 0 then Ok 0 s
        else Ok page (poke (tmp + pte_offset a) (page OR 7) (poke (dir_slot a) (tmp OR 7) s))))"
  unfolding put_page_def Let_def dir_entry_def pte_addr_def table_of_def pte_index' and_one_eq0
  by simp

lemma put_page_spec:
  assumes "wf_mm s" and "wf_tables s"
  shows "\<exists>r t. put_page page a s = Ok r t \<and>
     ((r = page \<and> wf_mm t \<and> wf_tables t \<and> pte t a = Some (page OR 7) \<and>
       (\<forall>b. \<not> same_pte a b \<longrightarrow> pte t b = pte s b)) \<or>
      (r = 0 \<and> t = s \<and> even (dir_entry s a) \<and> (\<forall>k < PAGING_PAGES. mem_map s ! k \<noteq> 0)))"
proof (cases "odd (dir_entry s a)")
  case True
  have "odd (page OR 7)" by (simp add: even_or_iff)
  with True assms poke_pte [OF assms(2) True, of "page OR 7"] show ?thesis
    by (auto simp: put_page_unfold same_pte_def)
next
  case False
  obtain p u where g: "get_free_page s = Ok p u" using get_free_page_returns by blast
  show ?thesis
  proof (cases "p = 0")
    case True
    with False g get_free_page_zero_iff [of s u] show ?thesis by (auto simp: put_page_unfold)
  next
    case p: False
    let ?v = "poke (dir_slot a) (p OR 7) u"
    have ev: "even (dir_entry s a)" using False by simp
    note n = new_table [OF assms ev g p]
    have pa: "pte_addr ?v a = p + pte_offset a" by (simp add: pte_addr_def n(5))
    have "odd (page OR 7)" by (simp add: even_or_iff)
    then show ?thesis
      using False g p n(1,4) poke_pte [OF n(2,3), of "page OR 7"]
      by (auto simp: put_page_unfold same_pte_def pa)
  qed
qed

text \<open>
  A memory for the witnesses: one page table, at 0x1000, for the addresses from 0x4000000, with one
  entry, a write-protected page at 0x200000 that is in use twice.
\<close>

definition demo_phys :: "u32 \<Rightarrow> u32" where
  "demo_phys = (\<lambda>_. 0)(0x40 := 0x1007, 0x1000 := 0x200005)"

definition demo_map :: "u8 list" where
  "demo_map = (replicate PAGING_PAGES 0)[256 := 2]"

definition demo_mm :: mm where
  "demo_mm = \<lparr>mem_map = demo_map, HIGH_MEMORY = 0x1000000, phys = demo_phys\<rparr>"

lemma demo_dir: "phys s = demo_phys \<Longrightarrow> dir_entry s a = (if dir_slot a = 0x40 then 0x1007 else 0)"
proof -
  assume p: "phys s = demo_phys"
  have "dir_slot a \<noteq> 0x1000"
  proof
    assume "dir_slot a = 0x1000"
    then have "dir_slot a AND 0xFFFFF000 = 0x1000 AND 0xFFFFF000" by simp
    then show False by (simp add: page_simps)
  qed
  then show ?thesis by (simp add: dir_entry_def p demo_phys_def)
qed

lemma wf_demo:
  assumes "phys s = demo_phys" and "mem_map s = demo_map" and "HIGH_MEMORY s = 0x1000000"
  shows "wf_mm s" and "wf_tables s"
proof -
  have "page_addr n < 0x1000000" if "n < PAGING_PAGES" for n
    using unat_page_addr [OF that] that by (simp add: word_less_nat_alt PAGING_PAGES_def)
  then have "\<forall>n < PAGING_PAGES. page_addr n < HIGH_MEMORY s" by (simp add: assms(3))
  then show "wf_mm s"
    unfolding wf_mm_def by (simp add: assms(2) demo_map_def)
  have tab: "table_of s a = 0x1000" if "odd (dir_entry s a)" for a
    using that demo_dir [OF assms(1), of a] by (auto simp: table_of_def split: if_splits)
  have np: "\<not> is_page 0x1000" by (simp add: is_page_def LOW_MEM_def)
  have slot: "dir_slot a = 0x40" if "odd (dir_entry s a)" for a
    using that demo_dir [OF assms(1), of a] by (auto split: if_splits)
  show "wf_tables s"
    unfolding wf_tables_def
  proof (intro conjI allI impI)
    fix a assume o: "odd (dir_entry s a)"
    show "table_of s a \<noteq> 0" unfolding tab [OF o] by simp
    assume "is_page (table_of s a)"
    then show "page_refs s (table_of s a) \<noteq> 0" using np unfolding tab [OF o] by contradiction
  next
    fix a b assume "odd (dir_entry s a)" "odd (dir_entry s b)"
    then show "dir_slot a = dir_slot b" using slot by metis
  qed
qed

text \<open>
  C24: \<open>put_page\<close> maps the page, present, writable and for the user, at the address asked for,
  changes the translation of no other address and keeps the page tables well formed; or it
  returns 0, with nothing changed, because the address has no page table and no page is free.
\<close>

theorem put_page_maps:
  assumes "wf_mm s" and "wf_tables s"
  shows "\<exists>r t. put_page page a s = Ok r t \<and>
     ((r = page \<and> wf_mm t \<and> wf_tables t \<and> pte t a = Some (page OR 7) \<and>
       (\<forall>b. \<not> same_pte a b \<longrightarrow> pte t b = pte s b)) \<or>
      (r = 0 \<and> t = s \<and> even (dir_entry s a) \<and> (\<forall>k < PAGING_PAGES. mem_map s ! k \<noteq> 0)))"
  using assms by (rule put_page_spec)

theorem put_page_maps_witness:
  "\<exists>t. put_page 0x300000 0x4001000 demo_mm = Ok 0x300000 t \<and> pte t 0x4001000 = Some 0x300007"
proof -
  have "odd (dir_entry demo_mm 0x4001000)"
    by (simp add: demo_dir demo_mm_def dir_slot_def)
  then show ?thesis
    using put_page_maps [OF wf_demo, of demo_mm, where page = "0x300000" and a = "0x4001000"] by (auto simp: demo_mm_def)
qed

subsection \<open>Copy on write\<close>

lemma write_verify_unfold:
  "write_verify a s =
     (if even (dir_entry s a) then Ok () s
      else if 3 AND phys s (pte_addr s a) = 1 then un_wp_page (pte_addr s a) s else Ok () s)"
  unfolding write_verify_def Let_def dir_entry_def pte_addr_def table_of_def and_one_eq0 by simp

lemma and_3_iff: "3 AND (x::u32) = 1 \<longleftrightarrow> odd x \<and> \<not> bit x 1"
proof -
  have m: "(3::u32) = mask 2" by (simp add: mask_eq_exp_minus_1)
  have "3 AND x = 1 \<longleftrightarrow> (\<forall>n < 32. (n < 2 \<and> bit x n) = (n = 0))"
    unfolding m bit_eq_iff [of "mask 2 AND x"]
    by (auto simp: bit_simps bit_1_iff dest: bit_imp_le_length)
  also have "\<dots> \<longleftrightarrow> bit x 0 \<and> \<not> bit x 1"
    by (auto simp: less_2_cases_iff dest: spec [of _ 0] spec [of _ "Suc 0"])
  finally show ?thesis by (simp add: bit_0)
qed

lemma or2_bits: "bit (x OR 2 :: u32) 1" "odd (x OR 2 :: u32) = odd x"
  "(x OR 2 :: u32) AND 0xFFFFF000 = x AND 0xFFFFF000"
proof -
  have m: "(2::u32) = push_bit 1 1" by simp
  show "bit (x OR 2) 1" unfolding m by (simp only: bit_simps) simp
  show "odd (x OR 2) = odd x" by (simp add: even_or_iff)
  show "(x OR 2) AND 0xFFFFF000 = x AND 0xFFFFF000"
    by (rule bit_word_eqI) (auto simp: bit_frame bit_or_iff bit_simps)
qed

lemma or7_bit: "bit (x OR 7 :: u32) 1"
proof -
  have m: "(7::u32) = mask 3" by (simp add: mask_eq_exp_minus_1)
  show ?thesis unfolding m by (simp add: bit_simps)
qed

text \<open>
  What a page's data is: the words at the 4096 offsets of its frame.
\<close>

definition same_data :: "'a mm_scheme \<Rightarrow> u32 \<Rightarrow> 'a mm_scheme \<Rightarrow> u32 \<Rightarrow> bool" where
  "same_data s p t q \<longleftrightarrow> (\<forall>x. x AND 0xFFFFF000 = 0 \<longrightarrow> phys t (q + x) = phys s (p + x))"

lemma same_data_refl [simp]: "same_data s p s p"
  by (simp add: same_data_def)

lemma same_data_poke:
  "a AND 0xFFFFF000 \<noteq> p AND 0xFFFFF000 \<Longrightarrow> p AND 0xFFF = 0 \<Longrightarrow> same_data s p (poke a v s) p"
  unfolding same_data_def by (auto simp: page_simps)

text \<open>The copying branch: the state it leaves, in terms of the page it obtained.\<close>

definition cow_state :: "u32 \<Rightarrow> u32 \<Rightarrow> u32 \<Rightarrow> 'a mm_scheme \<Rightarrow> 'a mm_scheme" where
  "cow_state entry old p u =
     u\<lparr>phys := copy_page old p ((phys u)(entry := p OR 7)),
       mem_map := (if LOW_MEM \<le> old then (mem_map u)[MAP_NR old := mem_map u ! MAP_NR old - 1]
                   else mem_map u)\<rparr>"

lemma un_wp_page_cases:
  assumes f: "f = phys s entry AND 0xFFFFF000"
    and idx: "LOW_MEM \<le> f \<Longrightarrow> MAP_NR f < length (mem_map s)"
    and g: "get_free_page s = Ok p u"
  shows "un_wp_page entry s =
     (if LOW_MEM \<le> f \<and> mem_map s ! MAP_NR f = 1 then Ok () (poke entry (phys s entry OR 2) s)
      else if p = 0 then Exits SIGSEGV s
      else Ok () (cow_state entry f p u))"
proof -
  have len: "length (mem_map u) = length (mem_map s)"
    using g by (auto simp: get_free_page_def split: option.splits)
  have z: "p = 0 \<Longrightarrow> u = s" using g get_free_page_zero_iff [of s u] by simp
  show ?thesis
    using idx len z g
    by (auto simp: un_wp_page_def Let_def f [symmetric] oom_def dec_map_def cow_state_def poke_def)
qed

text \<open>
  The hypotheses under which a data page \<open>f\<close> mapped by an entry is well behaved: it is not a page
  table or the directory, and if the allocator manages it, it is counted.
\<close>

definition data_page :: "'a mm_scheme \<Rightarrow> u32 \<Rightarrow> bool" where
  "data_page s f \<longleftrightarrow> (\<forall>b. odd (dir_entry s b) \<longrightarrow> table_of s b \<noteq> f) \<and> f \<noteq> 0 \<and>
     (LOW_MEM \<le> f \<longrightarrow> is_page f \<and> page_refs s f \<noteq> 0)"

lemma cow_state_spec:
  assumes wf: "wf_mm s" "wf_tables s" and pres: "odd (dir_entry s a)"
    and f: "f AND 0xFFF = 0" and data: "data_page s f" and one: "LOW_MEM \<le> f \<Longrightarrow> page_refs s f \<noteq> 1"
    and g: "get_free_page s = Ok p u" and p: "p \<noteq> 0"
  defines "t \<equiv> cow_state (pte_addr s a) f p u"
  shows "wf_mm t" and "wf_tables t" and "pte t a = Some (p OR 7)"
    and "\<And>b. \<not> same_pte a b \<Longrightarrow> pte t b = pte s b"
    and "same_data s f t p" and "is_page p" and "page_refs t p = 1"
    and "LOW_MEM \<le> f \<Longrightarrow> page_refs t f = page_refs s f - 1"
proof -
  from get_free_page_refs [OF wf(1) g p] have usable: "usable_page s p" and r0: "page_refs s p = 0"
    and r1: "page_refs u p = 1"
    and rq: "\<And>q. is_page q \<Longrightarrow> q \<noteq> p \<Longrightarrow> page_refs u q = page_refs s q" by auto
  show isp: "is_page p" using usable by (simp add: usable_page_def)
  then have al: "p AND 0xFFF = 0" by (simp add: is_page_def)
  have ph: "phys u = clear_page p (phys s)" using g p by (auto elim: get_free_page_SomeE)
  have nottab: "table_of s b \<noteq> p" if "odd (dir_entry s b)" for b
    using wf_tablesD(2) [OF wf(2) that] isp r0 by auto
  have fp: "f \<noteq> p" using data isp r0 by (auto simp: data_page_def is_page_def)
  have wfu: "wf_mm u" using get_free_page_wf [OF wf(1) g] .
  then have len: "length (mem_map u) = PAGING_PAGES" by (simp add: wf_mm_def)
  have other: "phys t c = ((phys s)(pte_addr s a := p OR 7)) c" if "c AND 0xFFFFF000 \<noteq> p" for c
    using that by (auto simp: t_def cow_state_def copy_page_def ph clear_page_def)
  have de: "dir_entry t b = dir_entry (poke (pte_addr s a) (p OR 7) s) b" for b
    using other [of "dir_slot b"] p by (simp add: dir_entry_def page_simps)
  then have de': "dir_entry t b = dir_entry s b" for b
    using poke_pte(1) [OF wf(2) pres] by simp
  have tb: "table_of t b = table_of s b" for b by (simp add: table_of_def de')
  have pa: "pte_addr t b = pte_addr s b" for b
    by (simp only: pte_addr_def [of t b] pte_addr_def [of s b] tb)
  have pte: "pte t b = pte (poke (pte_addr s a) (p OR 7) s) b" for b
  proof (cases "odd (dir_entry s b)")
    case True
    have "pte_addr (poke (pte_addr s a) (p OR 7) s) b = pte_addr s b"
      by (simp only: pte_addr_def [of "poke _ _ s" b] pte_addr_def [of s b] table_of_def
          poke_pte(1) [OF wf(2) pres])
    then show ?thesis
      using other [of "pte_addr s b"] nottab [OF True]
      by (simp add: pte_def de' pa poke_pte(1) [OF wf(2) pres] page_simps)
  next
    case False
    then show ?thesis by (simp add: pte_def de' poke_pte(1) [OF wf(2) pres])
  qed
  have "odd (p OR 7)" by (simp add: even_or_iff)
  then show "pte t a = Some (p OR 7)" by (simp add: pte poke_pte(2) [OF wf(2) pres])
  show "pte t b = pte s b" if "\<not> same_pte a b" for b
    using that by (auto simp: pte poke_pte(2) [OF wf(2) pres] same_pte_def)
  have refs: "page_refs t q = (if q = f \<and> LOW_MEM \<le> f then page_refs s f - 1 else page_refs u q)"
    if q: "is_page q" for q
  proof (cases "LOW_MEM \<le> f")
    case True
    then have isf: "is_page f" and nz: "page_refs s f \<noteq> 0" using data by (auto simp: data_page_def)
    have uf: "page_refs u f = page_refs s f" using rq [OF isf fp] .
    then have "mem_map u ! MAP_NR f \<noteq> 0" using nz by (auto simp: page_refs_def)
    from page_refs_update [OF len isf q, of "mem_map u ! MAP_NR f - 1"] unat_dec [OF this]
    have "unat ((mem_map u)[MAP_NR f := mem_map u ! MAP_NR f - 1] ! MAP_NR q) =
      (if q = f then page_refs s f - 1 else page_refs u q)"
      using uf by (simp add: page_refs_def)
    then show ?thesis using True by (auto simp: t_def cow_state_def page_refs_def)
  next
    case False
    then show ?thesis by (simp add: t_def cow_state_def page_refs_def)
  qed
  show "page_refs t p = 1" using refs [OF isp] fp r1 by simp
  show "page_refs t f = page_refs s f - 1" if "LOW_MEM \<le> f"
    using refs [of f] data that by (auto simp: data_page_def)
  show "wf_mm t"
    unfolding wf_mm_def
  proof (intro conjI allI impI)
    show "length (mem_map t) = PAGING_PAGES" using len by (simp add: t_def cow_state_def)
  next
    fix n assume n: "n < PAGING_PAGES" and z: "mem_map t ! n = 0"
    have q: "is_page (page_addr n)" "MAP_NR (page_addr n) = n"
      using n is_page_addr MAP_NR_page_addr by simp_all
    have "page_refs t (page_addr n) = 0" using z q by (simp add: page_refs_def)
    moreover have "page_refs s f - 1 \<noteq> 0" if "LOW_MEM \<le> f"
      using one [OF that] data that by (auto simp: data_page_def)
    ultimately have "page_refs u (page_addr n) = 0" using refs [OF q(1)] by (auto split: if_splits)
    then have "mem_map u ! n = 0" using q by (simp add: page_refs_def unat_eq_zero)
    then show "page_addr n < HIGH_MEMORY t"
      using wfu n by (simp add: wf_mm_def t_def cow_state_def)
  qed
  show "wf_tables t"
    unfolding wf_tables_def
  proof (intro conjI allI impI)
    fix b assume "odd (dir_entry t b)"
    then show "table_of t b \<noteq> 0" using wf_tablesD(1) [OF wf(2)] by (simp add: de' tb)
  next
    fix b assume b: "odd (dir_entry t b)" "is_page (table_of t b)"
    then have "table_of s b \<noteq> f" using data by (simp add: de' data_page_def)
    then show "page_refs t (table_of t b) \<noteq> 0"
      using wf_tablesD(2) [OF wf(2), of b] b nottab [of b] refs [of "table_of s b"]
        rq [of "table_of s b"] unfolding de' tb by simp
  next
    fix b c assume "odd (dir_entry t b)" "odd (dir_entry t c)" "table_of t b = table_of t c"
    then show "dir_slot b = dir_slot c"
      using wf_tablesD(3) [OF wf(2), of b c] unfolding de' tb by blast
  qed
  show "same_data s f t p"
    unfolding same_data_def
  proof (intro allI impI)
    fix x :: u32 assume x: "x AND 0xFFFFF000 = 0"
    have px: "(p + x) AND 0xFFFFF000 = p" "(p + x) AND 0xFFF = x"
      "(f + x) AND 0xFFFFF000 = f" using al f x by (simp_all add: page_simps)
    have "f + x \<noteq> pte_addr s a"
      using px(3) data pres by (metis data_page_def pte_addr_frame)
    then show "phys t (p + x) = phys s (f + x)"
      using px fp by (simp add: t_def cow_state_def copy_page_def ph clear_page_def)
  qed
qed

text \<open>
  C5: after \<open>write_verify\<close> on a present page the page is writable, its data are unchanged and no
  other translation has changed. The page behind a formerly write-protected entry is the task's
  own, wherever the old one lay: it is a page of the allocator that counts exactly one user, either
  the old page, when the allocator managed it and counted no other user, or a page that was free,
  and then a managed old page has one user less. The only other outcome is that the task ends with
  \<open>SIGSEGV\<close>, nothing changed, because no page is free. Assumed is \<open>data_page\<close>: the page is not
  address 0 nor used as a page table, and the allocator counts it if it manages it.
\<close>

theorem write_verify_private:
  assumes wf: "wf_mm s" "wf_tables s" and e: "pte s a = Some e"
    and data: "data_page s (e AND 0xFFFFF000)"
  shows "(\<exists>t e'. write_verify a s = Ok () t \<and> wf_mm t \<and> wf_tables t \<and>
       pte t a = Some e' \<and> bit e' 1 \<and>
       same_data s (e AND 0xFFFFF000) t (e' AND 0xFFFFF000) \<and>
       (\<not> bit e 1 \<longrightarrow> is_page (e' AND 0xFFFFF000) \<and> page_refs t (e' AND 0xFFFFF000) = 1 \<and>
          (if LOW_MEM \<le> e AND 0xFFFFF000 \<and> page_refs s (e AND 0xFFFFF000) = 1
           then e' AND 0xFFFFF000 = e AND 0xFFFFF000
           else page_refs s (e' AND 0xFFFFF000) = 0 \<and>
             (LOW_MEM \<le> e AND 0xFFFFF000 \<longrightarrow>
                page_refs t (e AND 0xFFFFF000) = page_refs s (e AND 0xFFFFF000) - 1))) \<and>
       (\<forall>b. \<not> same_pte a b \<longrightarrow> pte t b = pte s b)) \<or>
     (write_verify a s = Exits SIGSEGV s \<and> (\<forall>k < PAGING_PAGES. mem_map s ! k \<noteq> 0))"
proof -
  let ?f = "e AND 0xFFFFF000"
  from e have pres: "odd (dir_entry s a)" and ph: "phys s (pte_addr s a) = e" and odd: "odd e"
    by (auto simp: pte_def split: if_splits)
  have al: "?f AND 0xFFF = 0" by (simp add: page_simps)
  show ?thesis
  proof (cases "bit e 1")
    case True
    then have "write_verify a s = Ok () s"
      using pres ph by (simp add: write_verify_unfold and_3_iff)
    with True wf e show ?thesis by auto
  next
    case ro: False
    then have wv: "write_verify a s = un_wp_page (pte_addr s a) s"
      using pres ph odd by (simp add: write_verify_unfold and_3_iff)
    have idx: "MAP_NR ?f < length (mem_map s)" if "LOW_MEM \<le> ?f"
      using that data wf(1) by (simp add: data_page_def is_page_def wf_mm_def)
    obtain p u where g: "get_free_page s = Ok p u" using get_free_page_returns by blast
    note cases = un_wp_page_cases [OF ph [symmetric, THEN arg_cong [of _ _ "\<lambda>x. x AND 0xFFFFF000"]] idx g]
    consider (single) "LOW_MEM \<le> ?f" "mem_map s ! MAP_NR ?f = 1"
      | (none) "\<not> (LOW_MEM \<le> ?f \<and> mem_map s ! MAP_NR ?f = 1)" "p = 0"
      | (copy) "\<not> (LOW_MEM \<le> ?f \<and> mem_map s ! MAP_NR ?f = 1)" "p \<noteq> 0" by blast
    then show ?thesis
    proof cases
      case single
      let ?t = "poke (pte_addr s a) (e OR 2) s"
      have "write_verify a s = Ok () ?t" using wv cases single ph by simp
      moreover have "pte ?t a = Some (e OR 2)"
        using poke_pte(2) [OF wf(2) pres] odd or2_bits(2) by simp
      moreover have "table_of s a \<noteq> ?f" using data pres by (simp add: data_page_def)
      then have "same_data s ?f ?t ?f" by (intro same_data_poke) (simp_all add: page_simps)
      moreover have "page_refs ?t ?f = 1" "page_refs s ?f = 1" using single by (simp_all add: page_refs_def)
      moreover have "is_page ?f" using data single(1) by (simp add: data_page_def)
      ultimately show ?thesis
        using poke_pte(2,3) [OF wf(2) pres] wf(1) or2_bits [of e] single(1)
        by (auto simp: same_pte_def)
    next
      case none
      then show ?thesis using wv cases g get_free_page_zero_iff [of s u] by auto
    next
      case copy
      have one: "page_refs s ?f \<noteq> 1" if "LOW_MEM \<le> ?f"
        using copy(1) that by (metis page_refs_def unat_1 word_unat_eq_iff)
      note c = cow_state_spec [OF wf pres al data one g copy(2)]
      have fr: "(p OR 7) AND 0xFFFFF000 = p" using c(6) by (simp add: is_page_def frame_or7)
      have free: "page_refs s p = 0" using get_free_page_refs [OF wf(1) g copy(2)] by simp
      have wv': "write_verify a s = Ok () (cow_state (pte_addr s a) ?f p u)" using wv cases copy by auto
      have "\<not> (LOW_MEM \<le> ?f \<and> page_refs s ?f = 1)" using one by blast
      with wv' c fr free or7_bit [of p] show ?thesis
        by (intro disjI1 exI [of _ "cow_state (pte_addr s a) ?f p u"] exI [of _ "p OR 7"]) auto
    qed
  qed
qed

theorem write_verify_private_witness:
  "\<exists>t e'. write_verify 0x4000123 demo_mm = Ok () t \<and> pte t 0x4000123 = Some e' \<and> bit e' 1 \<and>
     page_refs t (e' AND 0xFFFFF000) = 1"
proof -
  let ?a = "0x4000123 :: u32"
  have d: "phys demo_mm = demo_phys" by (simp add: demo_mm_def)
  have wf: "wf_mm demo_mm" "wf_tables demo_mm" by (rule wf_demo; simp add: demo_mm_def)+
  have slot: "dir_slot ?a = 0x40" "pte_offset ?a = 0"
    by (simp_all add: dir_slot_def pte_offset_def)
  then have e: "pte demo_mm ?a = Some 0x200005"
    by (simp add: pte_def pte_addr_def table_of_def demo_dir [OF d] d demo_phys_def)
  have m: "MAP_NR 0x200000 = 256" by (simp add: MAP_NR_def LOW_MEM_def)
  have pg: "is_page 0x200000" by (simp add: is_page_def LOW_MEM_def m PAGING_PAGES_def)
  have refs: "page_refs demo_mm 0x200000 = 2"
    by (simp add: page_refs_def m demo_mm_def demo_map_def PAGING_PAGES_def)
  have "table_of demo_mm b \<noteq> 0x200000" if "odd (dir_entry demo_mm b)" for b
    using that demo_dir [OF d, of b] by (auto simp: table_of_def split: if_splits)
  then have data: "data_page demo_mm (0x200005 AND 0xFFFFF000)"
    using pg refs by (auto simp: data_page_def)
  have "mem_map demo_mm ! 0 = 0" by (simp add: demo_mm_def demo_map_def PAGING_PAGES_def)
  then have "\<not> (\<forall>k < PAGING_PAGES. mem_map demo_mm ! k \<noteq> 0)"
    by (intro notI) (simp add: PAGING_PAGES_def)
  with write_verify_private [OF wf e data] show ?thesis
    by (auto simp: bit_simps LOW_MEM_def)
qed

subsection \<open>Initialisation, and allocation undone\<close>

lemma clear_map_eq:
  "i + n \<le> length (mem_map s) \<Longrightarrow>
   \<exists>mp. clear_map n i s = Ok () (s\<lparr>mem_map := mp\<rparr>) \<and> length mp = length (mem_map s) \<and>
     (\<forall>k < length (mem_map s). mp ! k = (if i \<le> k \<and> k < i + n then 0 else mem_map s ! k))"
proof (induction n arbitrary: i s)
  case 0
  then show ?case by (intro exI [of _ "mem_map s"]) auto
next
  case (Suc n)
  let ?s = "s\<lparr>mem_map := (mem_map s)[i := 0]\<rparr>"
  from Suc.prems have "Suc i + n \<le> length (mem_map ?s)" by simp
  from Suc.IH [OF this] obtain mp where
    mp: "clear_map n (Suc i) ?s = Ok () (?s\<lparr>mem_map := mp\<rparr>)" "length mp = length (mem_map s)"
    "\<forall>k < length (mem_map s). mp ! k =
       (if Suc i \<le> k \<and> k < Suc i + n then 0 else (mem_map s)[i := 0] ! k)"
    by auto
  show ?case
    using Suc.prems mp by (intro exI [of _ mp]) (auto simp: nth_list_update)
qed

lemma mem_init_spec:
  assumes al: "start AND 0xFFF = 0" "end_mem AND 0xFFF = 0"
    and le: "LOW_MEM \<le> start" "start \<le> end_mem" "end_mem \<le> 0x1000000"
  shows "\<exists>mp. mem_init start end_mem s = Ok () (s\<lparr>HIGH_MEMORY := end_mem, mem_map := mp\<rparr>) \<and>
     wf_mm (s\<lparr>HIGH_MEMORY := end_mem, mem_map := mp\<rparr>) \<and>
     (\<forall>p. is_page p \<longrightarrow> page_refs (s\<lparr>HIGH_MEMORY := end_mem, mem_map := mp\<rparr>) p =
       (if start \<le> p \<and> p < end_mem then 0 else unat USED))"
proof -
  obtain a b where a: "unat start = 4096 * a" and b: "unat end_mem = 4096 * b"
    using al and_mask_dvd_nat [of 12 start] and_mask_dvd_nat [of 12 end_mem]
    by (auto simp: off_mask elim!: dvdE)
  have ab: "256 \<le> a" "a \<le> b" "b \<le> 4096"
    using le a b by (simp_all add: word_le_nat_alt LOW_MEM_def)
  have d: "unat (end_mem - start) = 4096 * (b - a)"
    using le a b by (simp add: unat_sub diff_mult_distrib2)
  have sgn: "sint (end_mem - start) = 4096 * int (b - a)"
  proof -
    have "uint (end_mem - start) = 4096 * int (b - a)" unfolding uint_nat d by simp
    moreover have "4096 * int (b - a) < 2 ^ 31" using ab by simp
    ultimately show ?thesis
      by (simp add: sint_uint signed_take_bit_int_eq_self)
  qed
  have n: "nat (sint (end_mem - start) div 4096) = b - a" by (simp add: sgn)
  have m: "MAP_NR start = a - 256"
  proof -
    have "unat (start - LOW_MEM) = 4096 * (a - 256)"
      using le a ab by (simp add: unat_sub LOW_MEM_def diff_mult_distrib2)
    then show ?thesis unfolding MAP_NR_def unat_drop_bit_eq by (simp add: drop_bit_eq_div)
  qed
  let ?s = "s\<lparr>HIGH_MEMORY := end_mem, mem_map := replicate PAGING_PAGES USED\<rparr>"
  have "a - 256 + (b - a) \<le> length (mem_map ?s)" using ab by (simp add: PAGING_PAGES_def)
  from clear_map_eq [OF this] obtain mp where
    mp: "clear_map (b - a) (a - 256) ?s = Ok () (?s\<lparr>mem_map := mp\<rparr>)" "length mp = PAGING_PAGES"
    "\<forall>k < PAGING_PAGES. mp ! k = (if a - 256 \<le> k \<and> k < b - 256 then 0 else USED)"
    using ab by (auto simp: nth_replicate)
  let ?t = "?s\<lparr>mem_map := mp\<rparr>"
  have range: "start \<le> page_addr k \<and> page_addr k < end_mem \<longleftrightarrow> a - 256 \<le> k \<and> k < b - 256"
    if "k < PAGING_PAGES" for k
    using unat_page_addr [OF that] a b ab by (auto simp: word_le_nat_alt word_less_nat_alt)
  have "mem_init start end_mem s = Ok () ?t"
    by (simp add: mem_init_def n m mp(1))
  moreover have "wf_mm ?t"
    unfolding wf_mm_def
  proof (intro conjI allI impI)
    fix k assume k: "k < PAGING_PAGES" and "mem_map ?t ! k = 0"
    then have "a - 256 \<le> k \<and> k < b - 256"
      using mp(3) by (auto simp: USED_def split: if_splits)
    then show "page_addr k < HIGH_MEMORY ?t" using range [OF k] by simp
  qed (simp add: mp)
  moreover have "page_refs ?t p = (if start \<le> p \<and> p < end_mem then 0 else unat USED)"
    if "is_page p" for p
    using that mp(3) range [of "MAP_NR p"] page_addr_MAP_NR [OF that]
    by (auto simp: page_refs_def is_page_def)
  ultimately show ?thesis by (intro exI [of _ mp]) simp
qed

text \<open>
  Started with a memory range between 1MB and 16MB that is a whole number of pages,
  \<open>mem_init\<close> makes exactly the pages of that range free and marks every other page as used, and
  the allocator's invariant holds from then on.
\<close>

theorem mem_init_frees:
  assumes al: "start AND 0xFFF = 0" "end_mem AND 0xFFF = 0"
    and le: "LOW_MEM \<le> start" "start \<le> end_mem" "end_mem \<le> 0x1000000"
  shows "\<exists>t. mem_init start end_mem s = Ok () t \<and> wf_mm t \<and> HIGH_MEMORY t = end_mem \<and>
     phys t = phys s \<and>
     (\<forall>p. is_page p \<longrightarrow> page_refs t p = (if start \<le> p \<and> p < end_mem then 0 else unat USED))"
  using mem_init_spec [OF assms] by fastforce

theorem mem_init_frees_witness:
  "\<exists>t. mem_init 0x400000 0x1000000 \<lparr>mem_map = [], HIGH_MEMORY = 0, phys = (\<lambda>_. 0)\<rparr> = Ok () t
     \<and> wf_mm t \<and> page_refs t 0x400000 = 0 \<and> page_refs t 0x3FF000 = 100"
proof -
  let ?s = "\<lparr>mem_map = [], HIGH_MEMORY = 0, phys = (\<lambda>_. 0)\<rparr> :: mm"
  have "is_page 0x400000" "is_page 0x3FF000"
    by (simp_all add: is_page_def LOW_MEM_def MAP_NR_def PAGING_PAGES_def)
  with mem_init_frees [where start = "0x400000" and end_mem = "0x1000000" and s = ?s] show ?thesis
    by (auto simp: LOW_MEM_def USED_def)
qed

text \<open>
  C4: a page obtained from \<open>get_free_page\<close> is a page below \<open>HIGH_MEMORY\<close> that nobody used; it
  comes back with one reference and all its words zero, no other page's data or count has
  changed, and releasing it with \<open>free_page\<close> gives back the allocation map of before. A result 0
  means that every page was in use, and changes nothing.
\<close>

theorem get_free_page_fresh:
  assumes "wf_mm s"
  shows "\<exists>p t. get_free_page s = Ok p t \<and> wf_mm t \<and>
     (if p = 0 then t = s \<and> (\<forall>q. is_page q \<longrightarrow> page_refs s q \<noteq> 0)
      else usable_page s p \<and> page_refs s p = 0 \<and> page_refs t p = 1 \<and>
        (\<forall>x. x AND 0xFFFFF000 = 0 \<longrightarrow> phys t (p + x) = 0) \<and>
        (\<forall>q. is_page q \<longrightarrow> q \<noteq> p \<longrightarrow> page_refs t q = page_refs s q \<and> same_data s q t q) \<and>
        (\<exists>u. free_page p t = Ok () u \<and> mem_map u = mem_map s))"
proof -
  obtain p t where g: "get_free_page s = Ok p t" using get_free_page_returns by blast
  show ?thesis
  proof (cases "p = 0")
    case True
    with g assms get_free_page_zero_iff [of s t] show ?thesis
      by (auto simp: page_refs_def is_page_def unat_eq_zero)
  next
    case p: False
    from get_free_page_SomeE [OF g p] obtain n where n: "n < PAGING_PAGES" "p = page_addr n"
      "mem_map s ! n = 0"
      "t = s\<lparr>mem_map := (mem_map s)[n := 1], phys := clear_page p (phys s)\<rparr>" .
    note r = get_free_page_refs [OF assms g p]
    have al: "p AND 0xFFF = 0" using r by (simp add: usable_page_def is_page_def)
    have z: "phys t (p + x) = 0" if "x AND 0xFFFFF000 = 0" for x
      using that al by (simp add: n(4) clear_page_def page_simps)
    have sd: "same_data s q t q" if "is_page q" "q \<noteq> p" for q
      unfolding same_data_def
      using that by (auto simp: n(4) clear_page_def is_page_def page_simps)
    have len: "length (mem_map s) = PAGING_PAGES" using assms by (simp add: wf_mm_def)
    let ?u = "t\<lparr>mem_map := (mem_map t)[n := 0]\<rparr>"
    have "free_page p t = Ok () ?u"
    proof -
      have "\<not> p < LOW_MEM" "\<not> HIGH_MEMORY t \<le> p" "MAP_NR p = n"
        using n(1) r by (auto simp: n(2) n(4) usable_page_def is_page_def MAP_NR_page_addr not_less)
      then show ?thesis
        using n(1) len by (simp add: free_page_def n(4) dec_map_def)
    qed
    moreover have "mem_map ?u = mem_map s" using n(3) by (simp add: n(4)) (metis list_update_id)
    ultimately show ?thesis
      using g p r z sd get_free_page_wf [OF assms g] by (intro exI [of _ p] exI [of _ t]) auto
  qed
qed

theorem get_free_page_fresh_witness:
  "\<exists>p t. get_free_page demo_mm = Ok p t \<and> p \<noteq> 0 \<and> page_refs demo_mm p = 0 \<and> page_refs t p = 1"
proof -
  have wf: "wf_mm demo_mm" by (rule wf_demo; simp add: demo_mm_def)
  have "MAP_NR 0x100000 = 0" "is_page 0x100000"
    by (simp_all add: MAP_NR_def LOW_MEM_def is_page_def PAGING_PAGES_def)
  then have "is_page 0x100000 \<and> page_refs demo_mm 0x100000 = 0"
    by (simp add: page_refs_def demo_mm_def demo_map_def PAGING_PAGES_def)
  with get_free_page_fresh [OF wf] show ?thesis by (metis (no_types, lifting))
qed

end
