(* ===== verification/Task.thy ===== *)
theory Task
  imports Mm
begin

text \<open>
  The process table of \<open>kernel/sched.c\<close> and \<open>include/linux/sched.h\<close>: \<open>struct task_struct\<close>, the
  array \<open>task\<close>, \<open>current\<close> and the clock, on top of the state of memory management.

  A task structure is named by its number in the table: \<open>ts s i\<close> is the contents of structure
  \<open>i\<close>, and \<open>live s i\<close> says that \<open>task[i]\<close> is not \<open>NULL\<close>; a released structure keeps its contents,
  as the freed page does. The LDT of a task is kept as the bases and limits that \<open>get_base\<close> and
  \<open>get_limit\<close> read. The TSS is not part of the model; the kernel stack
  of a task is in the page of its structure.
  Signed C integers are integers (where an operation can leave 32 bits it says so, with \<open>long\<close> or a
  test; times are assumed not to), bit masks and addresses are 32-bit words, and user and group
  ids 16-bit words.
\<close>

definition NR_TASKS :: nat where
  "NR_TASKS = 64"

definition NR_OPEN :: nat where
  "NR_OPEN = 20"

definition HZ :: int where
  "HZ = 100"

definition TASK_RUNNING :: int where "TASK_RUNNING = 0"
definition TASK_INTERRUPTIBLE :: int where "TASK_INTERRUPTIBLE = 1"
definition TASK_UNINTERRUPTIBLE :: int where "TASK_UNINTERRUPTIBLE = 2"
definition TASK_ZOMBIE :: int where "TASK_ZOMBIE = 3"
definition TASK_STOPPED :: int where "TASK_STOPPED = 4"

lemmas task_states =
  TASK_RUNNING_def TASK_INTERRUPTIBLE_def TASK_UNINTERRUPTIBLE_def TASK_ZOMBIE_def
  TASK_STOPPED_def

definition EPERM :: int where "EPERM = 1"
definition ENOENT :: int where "ENOENT = 2"
definition ESRCH :: int where "ESRCH = 3"
definition EINTR :: int where "EINTR = 4"
definition EIO :: int where "EIO = 5"
definition EBADF :: int where "EBADF = 9"
definition ECHILD :: int where "ECHILD = 10"
definition EAGAIN :: int where "EAGAIN = 11"
definition ENOMEM :: int where "ENOMEM = 12"
definition EACCES :: int where "EACCES = 13"
definition EBUSY :: int where "EBUSY = 16"
definition EEXIST :: int where "EEXIST = 17"
definition EXDEV :: int where "EXDEV = 18"
definition ENODEV :: int where "ENODEV = 19"
definition ENOTDIR :: int where "ENOTDIR = 20"
definition EISDIR :: int where "EISDIR = 21"
definition EINVAL :: int where "EINVAL = 22"
definition ENFILE :: int where "ENFILE = 23"
definition EMFILE :: int where "EMFILE = 24"
definition ENOTTY :: int where "ENOTTY = 25"
definition ENOSPC :: int where "ENOSPC = 28"
definition ESPIPE :: int where "ESPIPE = 29"
definition ENOSYS :: int where "ENOSYS = 38"
definition ENOTEMPTY :: int where "ENOTEMPTY = 39"
definition ENOTBLK :: int where "ENOTBLK = 15"
definition ERROR_code :: int where "ERROR_code = 99"

lemmas errno_defs =
  EPERM_def ENOENT_def ESRCH_def EINTR_def EIO_def EBADF_def ECHILD_def EAGAIN_def ENOMEM_def
  EACCES_def EBUSY_def EEXIST_def EXDEV_def ENODEV_def ENOTDIR_def EISDIR_def EINVAL_def
  ENFILE_def EMFILE_def ENOTTY_def ENOSPC_def ESPIPE_def ENOSYS_def ENOTEMPTY_def ERROR_code_def

text \<open>Flags of \<open>open\<close> and commands of \<open>fcntl\<close>, \<open>include/fcntl.h\<close>.\<close>

definition O_ACCMODE :: u32 where "O_ACCMODE = 3"
definition O_WRONLY :: u32 where "O_WRONLY = 1"
definition O_CREAT :: u32 where "O_CREAT = 0x40"
definition O_EXCL :: u32 where "O_EXCL = 0x80"
definition O_TRUNC :: u32 where "O_TRUNC = 0x200"
definition O_APPEND :: u32 where "O_APPEND = 0x400"
definition O_NONBLOCK :: u32 where "O_NONBLOCK = 0x800"
definition F_DUPFD :: u32 where "F_DUPFD = 0"
definition F_GETFD :: u32 where "F_GETFD = 1"
definition F_SETFD :: u32 where "F_SETFD = 2"
definition F_GETFL :: u32 where "F_GETFL = 3"
definition F_SETFL :: u32 where "F_SETFL = 4"
definition F_GETLK :: u32 where "F_GETLK = 5"
definition F_SETLK :: u32 where "F_SETLK = 6"
definition F_SETLKW :: u32 where "F_SETLKW = 7"

record sigact =
  sa_handler :: u32
  sa_mask :: u32
  sa_flags :: u32
  sa_restorer :: u32

record task_struct =
  state :: int
  counter :: int
  priority :: int
  signal :: u32
  sigaction :: "sigact list"
  blocked :: u32
  exit_code :: int
  start_code :: u32
  end_code :: u32
  end_data :: u32
  brk :: u32
  start_stack :: u32
  pid :: int
  father :: int
  pgrp :: int
  session :: int
  leader :: int
  uid :: u16
  euid :: u16
  suid :: u16
  gid :: u16
  egid :: u16
  sgid :: u16
  alarm :: int
  utime :: int
  stime :: int
  cutime :: int
  cstime :: int
  start_time :: int
  used_math :: bool
  tty :: int
  umask :: u16
  pwd :: "nat option"
  root :: "nat option"
  executable :: "nat option"
  close_on_exec :: u32
  filp :: "nat option list"
  code_base :: u32
  code_limit :: u32
  data_base :: u32
  data_limit :: u32
  task_page :: u32
  kernelstack :: u32

record kern = mm +
  live :: "nat \<Rightarrow> bool"
  ts :: "nat \<Rightarrow> task_struct"
  current :: nat
  jiffies :: int
  startup_time :: int
  last_pid :: int
  last_task_used_math :: "nat option"
  user :: "u32 \<Rightarrow> u8"

definition CURRENT_TIME :: "'a kern_scheme \<Rightarrow> int" where
  "CURRENT_TIME s = startup_time s + jiffies s sdiv HZ"

definition cur :: "'a kern_scheme \<Rightarrow> task_struct" where
  "cur s = ts s (current s)"

definition upd :: "nat \<Rightarrow> (task_struct \<Rightarrow> task_struct) \<Rightarrow> 'a kern_scheme \<Rightarrow> 'a kern_scheme" where
  "upd i f s = s\<lparr>ts := (ts s)(i := f (ts s i))\<rparr>"

definition upd_cur :: "(task_struct \<Rightarrow> task_struct) \<Rightarrow> 'a kern_scheme \<Rightarrow> 'a kern_scheme" where
  "upd_cur f s = upd (current s) f s"

definition suser :: "'a kern_scheme \<Rightarrow> bool" where
  "suser s \<longleftrightarrow> euid (cur s) = 0"

text \<open>\<open>_S(nr)\<close>: the bit of a signal in a mask.\<close>

definition sigbit :: "int \<Rightarrow> u32" where
  "sigbit n = push_bit (nat (n - 1)) 1"

definition SIGHUP :: int where "SIGHUP = 1"
definition SIGKILL :: int where "SIGKILL = 9"
definition SIGALRM :: int where "SIGALRM = 14"
definition SIGCHLD :: int where "SIGCHLD = 17"
definition SIGSTOP :: int where "SIGSTOP = 19"

lemmas sig_defs = SIGHUP_def SIGKILL_def SIGALRM_def SIGCHLD_def SIGSTOP_def SIGSEGV_def

lemma upd_simps [simp]:
  "ts (upd i f s) = (ts s)(i := f (ts s i))" "live (upd i f s) = live s"
  "current (upd i f s) = current s" "jiffies (upd i f s) = jiffies s"
  "startup_time (upd i f s) = startup_time s" "last_pid (upd i f s) = last_pid s"
  "last_task_used_math (upd i f s) = last_task_used_math s" "user (upd i f s) = user s"
  "mem_map (upd i f s) = mem_map s" "HIGH_MEMORY (upd i f s) = HIGH_MEMORY s"
  "phys (upd i f s) = phys s" "kern.more (upd i f s) = kern.more s"
  by (simp_all add: upd_def)

lemma upd_cur_simps [simp]:
  "ts (upd_cur f s) = (ts s)(current s := f (cur s))" "live (upd_cur f s) = live s"
  "current (upd_cur f s) = current s" "jiffies (upd_cur f s) = jiffies s"
  "startup_time (upd_cur f s) = startup_time s" "last_pid (upd_cur f s) = last_pid s"
  "last_task_used_math (upd_cur f s) = last_task_used_math s" "user (upd_cur f s) = user s"
  "mem_map (upd_cur f s) = mem_map s" "HIGH_MEMORY (upd_cur f s) = HIGH_MEMORY s"
  "phys (upd_cur f s) = phys s" "kern.more (upd_cur f s) = kern.more s"
  "cur (upd_cur f s) = f (cur s)"
  by (simp_all add: upd_cur_def cur_def)

lemma suser_upd_cur [simp]: "suser (upd_cur f s) = (euid (f (cur s)) = 0)"
  by (simp add: suser_def)

text \<open>\<open>INIT_TASK\<close>: task 0, with base 0 and a limit of 640kB; and the table that holds only it.\<close>

definition init_task :: task_struct where
  "init_task =
     \<lparr>state = 0, counter = 15, priority = 15, signal = 0,
      sigaction = replicate 32 \<lparr>sa_handler = 0, sa_mask = 0, sa_flags = 0, sa_restorer = 0\<rparr>,
      blocked = 0, exit_code = 0, start_code = 0, end_code = 0, end_data = 0, brk = 0,
      start_stack = 0, pid = 0, father = -1, pgrp = 0, session = 0, leader = 0,
      uid = 0, euid = 0, suid = 0, gid = 0, egid = 0, sgid = 0, alarm = 0,
      utime = 0, stime = 0, cutime = 0, cstime = 0, start_time = 0, used_math = False,
      tty = -1, umask = 18, pwd = None, root = None, executable = None, close_on_exec = 0,
      filp = replicate NR_OPEN None, code_base = 0, code_limit = 0xA0000, data_base = 0,
      data_limit = 0xA0000, task_page = 0, kernelstack = 0x1000\<rparr>"

definition boot_kern :: kern where
  "boot_kern =
     \<lparr>mem_map = replicate PAGING_PAGES 0, HIGH_MEMORY = 0x1000000, phys = (\<lambda>_. 0),
      live = (\<lambda>i. i = 0), ts = (\<lambda>_. init_task), current = 0, jiffies = 0, startup_time = 0,
      last_pid = 0, last_task_used_math = None, user = (\<lambda>_. 0)\<rparr>"

end
