(* ===== verification/Sched.thy ===== *)
theory Sched
  imports Task
begin

text \<open>
  The scheduler, \<open>kernel/sched.c\<close>. \<open>schedule\<close> delivers alarms, wakes interruptible tasks that
  have a signal, picks the next task and switches to it; the loop that picks it may run forever,
  so it takes fuel. A function that sleeps is cut at its call of \<open>schedule\<close>: what it does before
  and what it does when it runs again are separate definitions, and a call that blocks returns
  \<open>Sleeps\<close>. The floppy timers and the timer list extend the state.
\<close>

subsection \<open>Choosing the next task\<close>

definition BLOCKABLE :: u32 where
  "BLOCKABLE = NOT (sigbit SIGKILL OR sigbit SIGSTOP)"

definition check_signals :: "int \<Rightarrow> task_struct \<Rightarrow> task_struct" where
  "check_signals now p =
     (let p = (if alarm p \<noteq> 0 \<and> alarm p < now
               then p\<lparr>signal := signal p OR sigbit SIGALRM, alarm := 0\<rparr> else p) in
      if signal p AND NOT (BLOCKABLE AND blocked p) \<noteq> 0 \<and> state p = TASK_INTERRUPTIBLE
      then p\<lparr>state := TASK_RUNNING\<rparr> else p)"

text \<open>\<open>for(p = &LAST_TASK; p > &FIRST_TASK; --p)\<close>: the slots 63 down to 1.\<close>

fun for_tasks :: "nat \<Rightarrow> (task_struct \<Rightarrow> task_struct) \<Rightarrow> 'a kern_scheme \<Rightarrow> 'a kern_scheme" where
  "for_tasks 0 f s = s"
| "for_tasks (Suc n) f s = for_tasks n f (if live s (Suc n) then upd (Suc n) f s else s)"

text \<open>The scan of \<open>while (--i)\<close>: the highest counter among the runnable tasks so far, and its slot.\<close>

fun pick :: "nat \<Rightarrow> int \<Rightarrow> nat \<Rightarrow> 'a kern_scheme \<Rightarrow> int \<times> nat" where
  "pick 0 c next s = (c, next)"
| "pick (Suc n) c next s =
     (if live s (Suc n) \<and> state (ts s (Suc n)) = TASK_RUNNING \<and> c < counter (ts s (Suc n))
      then pick n (counter (ts s (Suc n))) (Suc n) s
      else pick n c next s)"

definition recharge :: "task_struct \<Rightarrow> task_struct" where
  "recharge p = p\<lparr>counter := long (counter p div 2 + priority p)\<rparr>"

fun sched_loop :: "nat \<Rightarrow> 'a kern_scheme \<Rightarrow> (unit, 'a kern_scheme) res" where
  "sched_loop 0 s = Hang"
| "sched_loop (Suc fuel) s =
     (case pick (NR_TASKS - 1) (-1) 0 s of (c, next) \<Rightarrow>
        if c \<noteq> 0 then Ok () (s\<lparr>current := next\<rparr>)
        else sched_loop fuel (for_tasks (NR_TASKS - 1) recharge s))"

definition SCHED_FUEL :: nat where
  "SCHED_FUEL = 2"

definition schedule :: "'a kern_scheme \<Rightarrow> (unit, 'a kern_scheme) res" where
  "schedule s =
     sched_loop SCHED_FUEL (for_tasks (NR_TASKS - 1) (check_signals (jiffies s)) s)"

definition sys_pause :: "'a kern_scheme \<Rightarrow> (unit, 'a kern_scheme) res" where
  "sys_pause s = schedule (upd_cur (\<lambda>p. p\<lparr>state := TASK_INTERRUPTIBLE\<rparr>) s)"

subsection \<open>Wait queues\<close>

text \<open>
  A wait queue is a variable \<open>struct task_struct *\<close>. \<open>sleep_on_enter\<close> is \<open>sleep_on\<close> up to and
  including \<open>schedule()\<close>, with the queue's head as argument and new head as result; the local
  \<open>tmp\<close> is the old head. \<open>sleep_on_resume\<close> is what follows.
\<close>

definition set_state :: "int \<Rightarrow> task_struct \<Rightarrow> task_struct" where
  "set_state v p = p\<lparr>state := v\<rparr>"

definition sleep_on_enter ::
    "nat option \<Rightarrow> 'a kern_scheme \<Rightarrow> (nat option, 'a kern_scheme) res" where
  "sleep_on_enter q s =
     (if current s = 0 then Panic ''task[0] trying to sleep''
      else bind (schedule (upd_cur (set_state TASK_UNINTERRUPTIBLE) s))
             (\<lambda>_ t. Ok (Some (current s)) t))"

definition sleep_on_resume :: "nat option \<Rightarrow> 'a kern_scheme \<Rightarrow> 'a kern_scheme" where
  "sleep_on_resume tmp s =
     (case tmp of None \<Rightarrow> s | Some i \<Rightarrow> upd i (set_state TASK_RUNNING) s)"

definition interruptible_sleep_on_enter ::
    "nat option \<Rightarrow> 'a kern_scheme \<Rightarrow> (nat option, 'a kern_scheme) res" where
  "interruptible_sleep_on_enter q s =
     (if current s = 0 then Panic ''task[0] trying to sleep''
      else bind (schedule (upd_cur (set_state TASK_INTERRUPTIBLE) s))
             (\<lambda>_ t. Ok (Some (current s)) t))"

text \<open>
  After \<open>schedule()\<close> in \<open>interruptible_sleep_on\<close>, for the queue head \<open>q\<close> found then: a newcomer
  is woken first and the task sleeps again (\<open>Inl\<close>), or the queue is emptied and the task that
  was waiting before is woken (\<open>Inr\<close>).
\<close>

definition interruptible_sleep_on_resume ::
    "nat option \<Rightarrow> nat option \<Rightarrow> 'a kern_scheme \<Rightarrow>
     (unit, 'a kern_scheme) res + nat option \<times> 'a kern_scheme" where
  "interruptible_sleep_on_resume tmp q s =
     (case q of
        Some j \<Rightarrow>
          if j \<noteq> current s
          then Inl (schedule (upd_cur (set_state TASK_INTERRUPTIBLE)
                 (upd j (set_state TASK_RUNNING) s)))
          else Inr (None, sleep_on_resume tmp s)
      | None \<Rightarrow> Inr (None, sleep_on_resume tmp s))"

definition wake_up :: "nat option \<Rightarrow> 'a kern_scheme \<Rightarrow> nat option \<times> 'a kern_scheme" where
  "wake_up q s =
     (case q of None \<Rightarrow> (None, s) | Some i \<Rightarrow> (None, upd i (set_state TASK_RUNNING) s))"

subsection \<open>Simple system calls\<close>

definition sys_alarm :: "int \<Rightarrow> 'a kern_scheme \<Rightarrow> int \<times> 'a kern_scheme" where
  "sys_alarm seconds s =
     (let old = alarm (cur s);
          old = (if old \<noteq> 0 then long (old - jiffies s) sdiv HZ else old) in
      (old, upd_cur (\<lambda>p. p\<lparr>alarm := if 0 < seconds then long (jiffies s + HZ * seconds) else 0\<rparr>) s))"

definition sys_getpid :: "'a kern_scheme \<Rightarrow> int" where "sys_getpid s = pid (cur s)"
definition sys_getppid :: "'a kern_scheme \<Rightarrow> int" where "sys_getppid s = father (cur s)"
definition sys_getuid :: "'a kern_scheme \<Rightarrow> int" where "sys_getuid s = uint (uid (cur s))"
definition sys_geteuid :: "'a kern_scheme \<Rightarrow> int" where "sys_geteuid s = uint (euid (cur s))"
definition sys_getgid :: "'a kern_scheme \<Rightarrow> int" where "sys_getgid s = uint (gid (cur s))"
definition sys_getegid :: "'a kern_scheme \<Rightarrow> int" where "sys_getegid s = uint (egid (cur s))"

definition sys_nice :: "int \<Rightarrow> 'a kern_scheme \<Rightarrow> int \<times> 'a kern_scheme" where
  "sys_nice increment s =
     (0, if 0 < long (priority (cur s) - increment)
         then upd_cur (\<lambda>p. p\<lparr>priority := long (priority p - increment)\<rparr>) s else s)"

text \<open>\<open>sched_init\<close>, as far as the process table goes: only task 0 is left.\<close>

definition sched_init :: "'a kern_scheme \<Rightarrow> 'a kern_scheme" where
  "sched_init s = s\<lparr>live := (\<lambda>i. if 1 \<le> i \<and> i < NR_TASKS then False else live s i)\<rparr>"

definition math_state_restore :: "'a kern_scheme \<Rightarrow> 'a kern_scheme" where
  "math_state_restore s =
     (if last_task_used_math s = Some (current s) then s
      else upd_cur (\<lambda>p. p\<lparr>used_math := True\<rparr>)
             (s\<lparr>last_task_used_math := Some (current s)\<rparr>))"

subsection \<open>What \<open>schedule\<close> chooses\<close>

definition slot :: "nat \<Rightarrow> bool" where
  "slot i \<longleftrightarrow> 1 \<le> i \<and> i < NR_TASKS"

definition runnable :: "'a kern_scheme \<Rightarrow> nat \<Rightarrow> bool" where
  "runnable s i \<longleftrightarrow> slot i \<and> live s i \<and> state (ts s i) = TASK_RUNNING"

text \<open>
  The invariant of the counters: \<open>sys_nice\<close> keeps priorities positive, \<open>do_timer\<close> counters
  non-negative. Priorities are at most \<open>MAX_PRIORITY\<close>, the largest with which the sum of
  \<open>recharge\<close> stays in the range of a \<open>long\<close> whatever the counter.
\<close>

definition MAX_PRIORITY :: int where
  "MAX_PRIORITY = 2 ^ 30"

definition wf_task :: "task_struct \<Rightarrow> bool" where
  "wf_task p \<longleftrightarrow> 0 < priority p \<and> priority p \<le> MAX_PRIORITY \<and> 0 \<le> counter p \<and> counter p < 2 ^ 31"

definition wf_sched :: "'a kern_scheme \<Rightarrow> bool" where
  "wf_sched s \<longleftrightarrow> (\<forall>i. slot i \<longrightarrow> live s i \<longrightarrow> wf_task (ts s i))"

text \<open>The sum of \<open>recharge\<close> does not wrap around, and is positive.\<close>

lemma recharge_counter:
  assumes "wf_task p"
  shows "counter (recharge p) = counter p div 2 + priority p" and "0 < counter (recharge p)"
    and "wf_task (recharge p)"
proof -
  have "long (counter p div 2 + priority p) = counter p div 2 + priority p"
    using assms by (intro long_id) (auto simp: wf_task_def MAX_PRIORITY_def)
  then show "counter (recharge p) = counter p div 2 + priority p" by (simp add: recharge_def)
  with assms show "0 < counter (recharge p)" "wf_task (recharge p)"
    by (auto simp: wf_task_def MAX_PRIORITY_def recharge_def)
qed

lemma for_tasks_eq:
  "for_tasks n f s =
     s\<lparr>ts := (\<lambda>i. if 1 \<le> i \<and> i \<le> n \<and> live s i then f (ts s i) else ts s i)\<rparr>"
proof (induction n arbitrary: s)
  case 0
  have "(\<lambda>i. if 1 \<le> i \<and> i \<le> 0 \<and> live s i then f (ts s i) else ts s i) = ts s"
    by (simp add: fun_eq_iff)
  then show ?case by simp
next
  case (Suc n)
  show ?case
    by (simp add: Suc.IH upd_def fun_eq_iff le_Suc_eq)
       (auto intro!: arg_cong [where f = "\<lambda>g. s\<lparr>ts := g\<rparr>"] simp: fun_eq_iff)
qed

lemma pick_result:
  assumes "pick n c next s = (c', nx)"
  shows "(c' = c \<and> nx = next \<and>
            (\<forall>i. 1 \<le> i \<and> i \<le> n \<and> live s i \<and> state (ts s i) = TASK_RUNNING \<longrightarrow>
               counter (ts s i) \<le> c)) \<or>
         (1 \<le> nx \<and> nx \<le> n \<and> live s nx \<and> state (ts s nx) = TASK_RUNNING \<and>
            c' = counter (ts s nx) \<and> c < c' \<and>
            (\<forall>i. 1 \<le> i \<and> i \<le> n \<and> live s i \<and> state (ts s i) = TASK_RUNNING \<longrightarrow>
               counter (ts s i) \<le> c' \<and> (nx < i \<longrightarrow> counter (ts s i) < c')))"
  using assms
proof (induction n arbitrary: c "next")
  case 0
  then show ?case by simp
next
  case (Suc n)
  show ?case
  proof (cases "live s (Suc n) \<and> state (ts s (Suc n)) = TASK_RUNNING \<and> c < counter (ts s (Suc n))")
    case True
    with Suc.prems have "pick n (counter (ts s (Suc n))) (Suc n) s = (c', nx)" by simp
    from Suc.IH [OF this] True show ?thesis by (fastforce simp: le_Suc_eq)
  next
    case False
    with Suc.prems have "pick n c next s = (c', nx)" by auto
    from Suc.IH [OF this] False show ?thesis by (fastforce simp: le_Suc_eq)
  qed
qed

lemma pick_runnable:
  assumes "pick (NR_TASKS - 1) (-1) 0 s = (c, nx)"
  shows "(c = -1 \<and> nx = 0 \<and> (\<forall>i. runnable s i \<longrightarrow> counter (ts s i) \<le> -1)) \<or>
         (runnable s nx \<and> c = counter (ts s nx) \<and> 0 \<le> c \<and>
            (\<forall>i. runnable s i \<longrightarrow> counter (ts s i) \<le> c \<and> (nx < i \<longrightarrow> counter (ts s i) < c)))"
  using pick_result [OF assms] unfolding runnable_def slot_def NR_TASKS_def by auto

lemma check_signals_simps [simp]:
  "priority (check_signals now p) = priority p" "counter (check_signals now p) = counter p"
  by (simp_all add: check_signals_def Let_def)

lemma wf_sched_for_tasks:
  assumes "wf_sched s"
    and "\<And>p. wf_task p \<Longrightarrow> wf_task (f p)"
  shows "wf_sched (for_tasks n f s)"
  using assms by (auto simp: wf_sched_def for_tasks_eq)

lemma sched_loop_picks:
  assumes wf: "wf_sched s"
  shows "\<exists>t. sched_loop (Suc (Suc fuel)) s = Ok () t \<and> wf_sched t \<and>
     (if \<forall>i. \<not> runnable s i then t = s\<lparr>current := 0\<rparr>
      else runnable s (current t) \<and> 0 < counter (ts t (current t)) \<and>
        (\<forall>i. runnable s i \<longrightarrow> counter (ts t i) \<le> counter (ts t (current t)) \<and>
           (current t < i \<longrightarrow> counter (ts t i) < counter (ts t (current t)))) \<and>
        t = (if \<exists>i. runnable s i \<and> counter (ts s i) \<noteq> 0 then s
             else for_tasks (NR_TASKS - 1) recharge s)\<lparr>current := current t\<rparr>)"
proof -
  obtain c nx where p: "pick (NR_TASKS - 1) (-1) 0 s = (c, nx)" by fastforce
  have nonneg: "0 \<le> counter (ts s i)" if "runnable s i" for i
    using wf that by (auto simp: wf_sched_def wf_task_def runnable_def)
  consider (idle) "c = -1" "nx = 0" "\<forall>i. \<not> runnable s i"
    | (now) "c > 0" "runnable s nx" "c = counter (ts s nx)"
        "\<forall>i. runnable s i \<longrightarrow> counter (ts s i) \<le> c \<and> (nx < i \<longrightarrow> counter (ts s i) < c)"
    | (zero) "c = 0" "runnable s nx" "\<forall>i. runnable s i \<longrightarrow> counter (ts s i) = 0"
  proof -
    note q = pick_runnable [OF p]
    show ?thesis
    proof (cases "c = -1")
      case True
      with q nonneg have "nx = 0" "\<forall>i. \<not> runnable s i" by force+
      with True show ?thesis by (rule idle)
    next
      case False
      with q have r: "runnable s nx" "c = counter (ts s nx)" "0 \<le> c"
        "\<forall>i. runnable s i \<longrightarrow> counter (ts s i) \<le> c \<and> (nx < i \<longrightarrow> counter (ts s i) < c)" by auto
      show ?thesis
      proof (cases "c = 0")
        case True
        then show ?thesis using r nonneg by (intro zero) (auto intro: antisym)
      next
        case False
        with r show ?thesis by (intro now) auto
      qed
    qed
  qed
  then show ?thesis
  proof cases
    case idle
    then have "sched_loop (Suc (Suc fuel)) s = Ok () (s\<lparr>current := 0\<rparr>)" using p by simp
    with idle wf show ?thesis by (intro exI [of _ "s\<lparr>current := 0\<rparr>"]) (simp add: wf_sched_def)
  next
    case now
    have ne: "\<not> (\<forall>i. \<not> runnable s i)" "\<exists>i. runnable s i \<and> counter (ts s i) \<noteq> 0"
      using now by auto
    have "sched_loop (Suc (Suc fuel)) s = Ok () (s\<lparr>current := nx\<rparr>)" using p now by simp
    with now ne wf show ?thesis
      by (intro exI [of _ "s\<lparr>current := nx\<rparr>"]) (auto simp: wf_sched_def)
  next
    case zero
    let ?r = "for_tasks (NR_TASKS - 1) recharge s"
    have wfr: "wf_sched ?r" using wf by (rule wf_sched_for_tasks) (rule recharge_counter)
    have run: "runnable ?r i = runnable s i" for i
      by (auto simp: runnable_def for_tasks_eq recharge_def)
    have pos: "0 < counter (ts ?r i)" if "runnable s i" for i
      using that wf recharge_counter(2)
      by (auto simp: runnable_def for_tasks_eq slot_def wf_sched_def)
    obtain c' nx' where p': "pick (NR_TASKS - 1) (-1) 0 ?r = (c', nx')" by fastforce
    have "\<not> counter (ts ?r nx) \<le> -1" using pos [OF zero(2)] by simp
    with pick_runnable [OF p'] zero(2) have r: "runnable s nx'" "c' = counter (ts ?r nx')"
      "\<forall>i. runnable s i \<longrightarrow> counter (ts ?r i) \<le> c' \<and> (nx' < i \<longrightarrow> counter (ts ?r i) < c')"
      unfolding run by auto
    have "c' \<noteq> 0" using pos [OF r(1)] r(2) by simp
    then have "sched_loop (Suc (Suc fuel)) s = Ok () (?r\<lparr>current := nx'\<rparr>)"
      using p p' zero(1) by simp
    moreover have "\<not> (\<forall>i. \<not> runnable s i)" "\<not> (\<exists>i. runnable s i \<and> counter (ts s i) \<noteq> 0)"
      using zero by auto
    ultimately show ?thesis
      using r pos [OF r(1)] wfr by (intro exI [of _ "?r\<lparr>current := nx'\<rparr>"]) (auto simp: wf_sched_def)
  qed
qed

lemma schedule_returns:
  assumes "wf_sched s"
  shows "\<exists>t. schedule s = Ok () t \<and> wf_sched t"
proof -
  have "wf_sched (for_tasks (NR_TASKS - 1) (check_signals (jiffies s)) s)"
    using assms by (rule wf_sched_for_tasks) (simp_all add: wf_task_def)
  from sched_loop_picks [OF this, of 0] show ?thesis
    by (auto simp: schedule_def SCHED_FUEL_def numeral_2_eq_2)
qed

text \<open>
  \<open>sys_nice\<close> keeps the invariant unless the priority is raised past \<open>MAX_PRIORITY\<close>, which the
  code does not prevent.
\<close>

lemma wf_sched_nice:
  assumes "wf_sched s" and "long (priority (cur s) - n) \<le> MAX_PRIORITY"
  shows "wf_sched (snd (sys_nice n s))"
  using assms by (auto simp: sys_nice_def wf_sched_def wf_task_def cur_def)

text \<open>
  A process that calls \<open>nice\<close> with \<open>-(2^31 - 16)\<close> gets the largest priority; asleep with two ticks
  left when the counters are recharged, it has a negative counter afterwards, and \<open>schedule\<close> no
  longer sees it.
\<close>

lemma recharge_wraps:
  defines "s \<equiv> snd (sys_nice (16 - 2 ^ 31) (boot_kern\<lparr>current := 1, live := (\<lambda>i. i \<le> 1)\<rparr>))"
  shows "priority (ts s 1) = 2 ^ 31 - 1"
    and "counter (recharge (ts s 1\<lparr>counter := 2\<rparr>)) = - (2 ^ 31)"
  by (simp_all add: s_def sys_nice_def long_def cur_def upd_cur_def upd_def boot_kern_def
      init_task_def recharge_def)

text \<open>
  C1: when every live task has a priority from 1 to \<open>MAX_PRIORITY\<close> and a counter that is not
  negative, \<open>schedule\<close> returns and leaves the table in such a state: after delivering alarms and
  signals, it switches to a runnable task with the largest counter (the one in the highest slot
  among equals), which is positive, or to task 0 when no other task can run. All counters are
  recharged, in 32 bits, exactly when every runnable task had used up its time. A task that
  \<open>nice\<close> has given a larger priority is not covered; its recharged counter can become negative.
\<close>

theorem schedule_selects:
  assumes wf: "wf_sched s"
  defines "u \<equiv> for_tasks (NR_TASKS - 1) (check_signals (jiffies s)) s"
  shows "\<exists>t. schedule s = Ok () t \<and> wf_sched t \<and>
     (if \<forall>i. \<not> runnable u i then t = u\<lparr>current := 0\<rparr>
      else runnable u (current t) \<and> 0 < counter (ts t (current t)) \<and>
        (\<forall>i. runnable u i \<longrightarrow> counter (ts t i) \<le> counter (ts t (current t)) \<and>
           (current t < i \<longrightarrow> counter (ts t i) < counter (ts t (current t)))) \<and>
        t = (if \<exists>i. runnable u i \<and> counter (ts u i) \<noteq> 0 then u
             else for_tasks (NR_TASKS - 1) recharge u)\<lparr>current := current t\<rparr>)"
proof -
  have "wf_sched u" unfolding u_def using wf by (rule wf_sched_for_tasks) (simp_all add: wf_task_def)
  from sched_loop_picks [OF this, of 0] show ?thesis
    by (simp add: schedule_def SCHED_FUEL_def u_def numeral_2_eq_2)
qed

theorem schedule_selects_witness:
  "\<exists>t. schedule (boot_kern\<lparr>live := (\<lambda>i. i \<le> 2), ts := (ts boot_kern)(2 := init_task\<lparr>counter := 20\<rparr>)\<rparr>)
     = Ok () t \<and> current t = 2"
proof -
  let ?s = "boot_kern\<lparr>live := (\<lambda>i. i \<le> 2), ts := (ts boot_kern)(2 := init_task\<lparr>counter := 20\<rparr>)\<rparr>"
  define u where "u = for_tasks (NR_TASKS - 1) (check_signals (jiffies ?s)) ?s"
  have wf: "wf_sched ?s" by (auto simp: wf_sched_def wf_task_def MAX_PRIORITY_def boot_kern_def init_task_def)
  have u: "live u i = (i \<le> 2)" "counter (ts u i) = (if i = 2 then 20 else 15)"
    "state (ts u i) = 0" for i
    by (simp_all add: u_def for_tasks_eq boot_kern_def init_task_def check_signals_def task_states)
  have run: "runnable u i \<longleftrightarrow> i = 1 \<or> i = 2" for i
    by (auto simp: runnable_def slot_def u task_states NR_TASKS_def)
  obtain t where t: "schedule ?s = Ok () t"
    "if \<forall>i. \<not> runnable u i then t = u\<lparr>current := 0\<rparr>
     else runnable u (current t) \<and> 0 < counter (ts t (current t)) \<and>
        (\<forall>i. runnable u i \<longrightarrow> counter (ts t i) \<le> counter (ts t (current t)) \<and>
           (current t < i \<longrightarrow> counter (ts t i) < counter (ts t (current t)))) \<and>
        t = (if \<exists>i. runnable u i \<and> counter (ts u i) \<noteq> 0 then u
             else for_tasks (NR_TASKS - 1) recharge u)\<lparr>current := current t\<rparr>"
    using schedule_selects [OF wf] unfolding u_def by blast
  have "\<not> (\<forall>i. \<not> runnable u i)" "\<exists>i. runnable u i \<and> counter (ts u i) \<noteq> 0"
    using run u(2) by auto
  note sel = t(2) [unfolded if_not_P [OF this(1)] if_P [OF this(2)]]
  have "runnable u 2" by (simp add: run)
  with sel have p: "runnable u (current t)" "counter (ts t 2) \<le> counter (ts t (current t))"
    "t = u\<lparr>current := current t\<rparr>" by blast+
  have "ts t = ts u" by (subst p(3)) simp
  then have c: "counter (ts u 2) \<le> counter (ts u (current t))" using p(2) by (simp only:)
  have "current t = 1 \<or> current t = 2" using p(1) by (simp only: run)
  with c have "current t = 2" unfolding u(2) by (auto split: if_splits)
  with t(1) show ?thesis by blast
qed

end
