(* ===== verification/UserMem.thy ===== *)
theory UserMem
  imports Sched
begin

text \<open>
  Access to the memory of the current task, \<open>include/asm/segment.h\<close>, and \<open>verify_area\<close> of
  \<open>kernel/fork.c\<close>. The bytes seen through the segment register \<open>fs\<close> are the component \<open>user\<close>
  of the state; words are little-endian.
\<close>

definition get_fs_byte :: "u32 \<Rightarrow> 'a kern_scheme \<Rightarrow> u8" where
  "get_fs_byte addr s = user s addr"

definition put_fs_byte :: "u8 \<Rightarrow> u32 \<Rightarrow> 'a kern_scheme \<Rightarrow> 'a kern_scheme" where
  "put_fs_byte v addr s = s\<lparr>user := (user s)(addr := v)\<rparr>"

fun put_fs_bytes :: "u8 list \<Rightarrow> u32 \<Rightarrow> 'a kern_scheme \<Rightarrow> 'a kern_scheme" where
  "put_fs_bytes [] addr s = s"
| "put_fs_bytes (b # bs) addr s = put_fs_bytes bs (addr + 1) (put_fs_byte b addr s)"

definition get_fs_bytes :: "u32 \<Rightarrow> nat \<Rightarrow> 'a kern_scheme \<Rightarrow> u8 list" where
  "get_fs_bytes buf n s = List.map (\<lambda>k. get_fs_byte (buf + of_nat k) s) [0..<n]"

definition get_fs_word :: "u32 \<Rightarrow> 'a kern_scheme \<Rightarrow> u16" where
  "get_fs_word addr s = ucast (user s addr) OR push_bit 8 (ucast (user s (addr + 1)))"

definition get_fs_long :: "u32 \<Rightarrow> 'a kern_scheme \<Rightarrow> u32" where
  "get_fs_long addr s =
     ucast (user s addr) OR push_bit 8 (ucast (user s (addr + 1))) OR
     push_bit 16 (ucast (user s (addr + 2))) OR push_bit 24 (ucast (user s (addr + 3)))"

definition put_fs_long :: "u32 \<Rightarrow> u32 \<Rightarrow> 'a kern_scheme \<Rightarrow> 'a kern_scheme" where
  "put_fs_long v addr s =
     s\<lparr>user := (user s)(addr := ucast v, addr + 1 := ucast (drop_bit 8 v),
        addr + 2 := ucast (drop_bit 16 v), addr + 3 := ucast (drop_bit 24 v))\<rparr>"

function verify_loop :: "int \<Rightarrow> u32 \<Rightarrow> 'a kern_scheme \<Rightarrow> (unit, 'a kern_scheme) res" where
  "verify_loop sz start s =
     (if 0 < sz
      then bind (write_verify start s) (\<lambda>_ s. verify_loop (sz - 4096) (start + 4096) s)
      else Ok () s)"
  by pat_completeness auto
termination
  by (relation "measure (\<lambda>(sz, start, s). nat sz)") auto

declare verify_loop.simps [simp del]

definition verify_area :: "u32 \<Rightarrow> int \<Rightarrow> 'a kern_scheme \<Rightarrow> (unit, 'a kern_scheme) res" where
  "verify_area addr sz s =
     verify_loop (sz + uint (addr AND 0xFFF)) ((addr AND 0xFFFFF000) + data_base (cur s)) s"

subsection \<open>Reading back what was written\<close>

lemma ucast_bytes:
  "(ucast (ucast v :: u8) OR push_bit 8 (ucast (ucast (drop_bit 8 v) :: u8)) OR
    push_bit 16 (ucast (ucast (drop_bit 16 v) :: u8)) OR
    push_bit 24 (ucast (ucast (drop_bit 24 v) :: u8))) = (v :: u32)"
proof (rule bit_word_eqI)
  fix n assume "n < LENGTH(32)"
  then consider "n < 8" | k where "n = 8 + k" "k < 8" | k where "n = 16 + k" "k < 8"
    | k where "n = 24 + k" "k < 8"
    by (cases "n < 8"; cases "n < 16"; cases "n < 24") (auto simp: not_less le_iff_add)
  then show "bit (ucast (ucast v :: u8) OR push_bit 8 (ucast (ucast (drop_bit 8 v) :: u8)) OR
    push_bit 16 (ucast (ucast (drop_bit 16 v) :: u8)) OR
    push_bit 24 (ucast (ucast (drop_bit 24 v) :: u8)) :: u32) n = bit v n"
    by cases (auto simp: bit_or_iff bit_push_bit_iff bit_ucast_iff bit_drop_bit_eq)
qed

lemma add_ne:
  fixes a :: u32
  shows "a + 1 \<noteq> a" "a + 2 \<noteq> a" "a + 3 \<noteq> a" "a + 2 \<noteq> a + 1" "a + 3 \<noteq> a + 1" "a + 3 \<noteq> a + 2"
    "a \<noteq> a + 1" "a \<noteq> a + 2" "a \<noteq> a + 3" "a + 1 \<noteq> a + 2" "a + 1 \<noteq> a + 3" "a + 2 \<noteq> a + 3"
  by simp_all

lemma get_put_long [simp]: "get_fs_long a (put_fs_long v a s) = v"
  by (simp add: get_fs_long_def put_fs_long_def add_ne ucast_bytes)

text \<open>Two words that lie apart: the distance is at least 4 in both directions.\<close>

definition apart :: "u32 \<Rightarrow> u32 \<Rightarrow> bool" where
  "apart a b \<longleftrightarrow> 4 \<le> a - b \<and> 4 \<le> b - a"

lemma apart_ne:
  assumes "apart a b" and "i < 4" and "j < 4"
  shows "a + i \<noteq> b + j"
proof
  assume "a + i = b + j"
  then have e: "a - b = j - i" "b - a = i - j" by (simp_all add: algebra_simps)
  then have "4 \<le> j - i" "4 \<le> i - j" using assms(1) by (simp_all add: apart_def)
  then show False
    using assms(2,3) by (cases "i \<le> j") (auto simp: word_le_nat_alt word_less_nat_alt unat_sub_if')
qed

lemma get_put_long_other:
  assumes "apart a b"
  shows "get_fs_long a (put_fs_long v b s) = get_fs_long a s"
proof -
  have "a + i \<noteq> b + j" if "i \<in> {0, 1, 2, 3}" "j \<in> {0, 1, 2, 3}" for i j
    using that by (intro apart_ne [OF assms]) auto
  from this [of 0 0] this [of 0 1] this [of 0 2] this [of 0 3] this [of 1 0] this [of 1 1] this [of 1
    2] this [of 1 3] this [of 2 0] this [of 2 1] this [of 2 2] this [of 2 3] this [of 3 0] this [of
    3 1] this [of 3 2] this [of 3 3] show ?thesis
    by (simp add: get_fs_long_def put_fs_long_def)
qed

lemma put_fs_long_simps [simp]:
  "ts (put_fs_long v a s) = ts s" "live (put_fs_long v a s) = live s"
  "current (put_fs_long v a s) = current s" "jiffies (put_fs_long v a s) = jiffies s"
  "cur (put_fs_long v a s) = cur s" "mem_map (put_fs_long v a s) = mem_map s"
  "HIGH_MEMORY (put_fs_long v a s) = HIGH_MEMORY s" "phys (put_fs_long v a s) = phys s"
  "kern.more (put_fs_long v a s) = kern.more s"
  by (simp_all add: put_fs_long_def cur_def)

text \<open>Memory management leaves the process table and the user's memory alone.\<close>

definition same_tasks :: "'a kern_scheme \<Rightarrow> 'a kern_scheme \<Rightarrow> bool" where
  "same_tasks s t \<longleftrightarrow>
     live t = live s \<and> ts t = ts s \<and> current t = current s \<and> jiffies t = jiffies s \<and>
     startup_time t = startup_time s \<and> last_pid t = last_pid s \<and>
     last_task_used_math t = last_task_used_math s \<and> user t = user s \<and>
     kern.more t = kern.more s"

lemma same_tasks_refl [simp]: "same_tasks s s"
  by (simp add: same_tasks_def)

lemma same_tasks_trans: "same_tasks s t \<Longrightarrow> same_tasks t u \<Longrightarrow> same_tasks s u"
  by (simp add: same_tasks_def)

lemma same_tasks_updates [simp]:
  "same_tasks s (t\<lparr>mem_map := m\<rparr>) = same_tasks s t" "same_tasks s (t\<lparr>phys := p\<rparr>) = same_tasks s t"
  "same_tasks s (poke a v t) = same_tasks s t"
  by (simp_all add: same_tasks_def poke_def)

lemma same_tasks_get_free_page:
  "get_free_page s = Ok p t \<Longrightarrow> same_tasks s t"
  by (auto simp: get_free_page_def split: option.splits)

lemma same_tasks_un_wp_page:
  assumes "un_wp_page e s = Ok v t"
  shows "same_tasks s t"
proof -
  have "same_tasks s t" if "dec_map a u = Ok () t" "same_tasks s u" for a u t
    using that by (auto simp: dec_map_def aget_def split: if_splits)
  then show ?thesis
    using assms
    by (auto simp: un_wp_page_def Let_def aget_def oom_def split: if_splits
        dest!: same_tasks_get_free_page)
qed

lemma same_tasks_write_verify: "write_verify a s = Ok v t \<Longrightarrow> same_tasks s t"
  by (auto simp: write_verify_def Let_def split: if_splits dest: same_tasks_un_wp_page)

lemma same_tasks_verify_loop: "verify_loop n a s = Ok v t \<Longrightarrow> same_tasks s t"
proof (induction n a s rule: verify_loop.induct)
  case (1 n a s)
  show ?case
    using 1(2) same_tasks_write_verify [of a s] 1(1) same_tasks_trans
    by (subst (asm) verify_loop.simps) (fastforce split: if_splits)
qed

lemma same_tasks_verify_area: "verify_area a n s = Ok v t \<Longrightarrow> same_tasks s t"
  by (auto simp: verify_area_def dest: same_tasks_verify_loop)

end
