(* ===== verification/Shm.thy ===== *)
theory Shm
  imports UserMem Paging
begin

text \<open>
  Shared memory, \<open>mm/shm.c\<close>: the table \<open>shmnum\<close> of 64 segments and the calls \<open>shmget\<close>, \<open>shmat\<close>
  and \<open>shmdt\<close>, on the process table and the pages of memory management. Keys, sizes and
  addresses are unsigned 32-bit words as in \<open>include/sys/ipc.h\<close>. The search for a free range of
  addresses may run forever and takes fuel.
\<close>

definition SHM_NUM :: nat where "SHM_NUM = 64"
definition PAGE_NUM :: nat where "PAGE_NUM = 64"
definition TASK_NUM :: nat where "TASK_NUM = NR_TASKS"
definition SHM_MAX_HEAP :: u32 where "SHM_MAX_HEAP = 0xA00000"
definition PAGE_SIZE :: u32 where "PAGE_SIZE = 4096"
definition IPC_PRIVATE :: u32 where "IPC_PRIVATE = 0"
definition IPC_CREAT :: u32 where "IPC_CREAT = 0x200"
definition IPC_EXCL :: u32 where "IPC_EXCL = 0x400"

record shmstruct =
  shm_key :: u32
  pageNum :: u32
  shmaddr :: "u32 list"
  spid :: "u32 list"
  vaddr :: "u32 list"
  shm_nattch :: int
  shm_atime :: int
  shm_dtime :: int

record shm = kern +
  shmnum :: "shmstruct list"

definition set_shm :: "nat \<Rightarrow> (shmstruct \<Rightarrow> shmstruct) \<Rightarrow> 'a shm_scheme \<Rightarrow> 'a shm_scheme" where
  "set_shm i f s = s\<lparr>shmnum := (shmnum s)[i := f (shmnum s ! i)]\<rparr>"

text \<open>\<open>memset(a, 0, n)\<close> on an array of words clears the first \<open>n div 4\<close> of them.\<close>

definition memset_words :: "nat \<Rightarrow> u32 list \<Rightarrow> u32 list" where
  "memset_words n xs = replicate (min (n div 4) (length xs)) 0 @ drop (n div 4) xs"

definition ini_shm :: "shmstruct \<Rightarrow> shmstruct" where
  "ini_shm e = e\<lparr>shm_key := -1, pageNum := 0, spid := memset_words TASK_NUM (spid e),
     vaddr := memset_words TASK_NUM (vaddr e), shmaddr := memset_words PAGE_NUM (shmaddr e),
     shm_nattch := 0, shm_atime := 0, shm_dtime := 0\<rparr>"

definition sys_inishm :: "'a shm_scheme \<Rightarrow> int \<times> 'a shm_scheme" where
  "sys_inishm s = (0, s\<lparr>shmnum := List.map ini_shm (shmnum s)\<rparr>)"

subsection \<open>A free range of addresses\<close>

text \<open>The page table for an address, allocated when there is none.\<close>

definition table_for :: "u32 \<Rightarrow> 'a mm_scheme \<Rightarrow> (u32 option, 'a mm_scheme) res" where
  "table_for db s =
     (if phys s (dir_slot db) AND 1 \<noteq> 0 then Ok (Some (phys s (dir_slot db) AND 0xFFFFF000)) s
      else bind (get_free_page s) (\<lambda>tmp s.
        if tmp = 0 then Ok None s else Ok (Some tmp) (poke (dir_slot db) (tmp OR 7) s)))"

text \<open>\<open>i\<close> pages below \<open>db\<close> have been found free; the search began at \<open>start\<close>.\<close>

fun find_empty ::
    "nat \<Rightarrow> u32 \<Rightarrow> u32 \<Rightarrow> u32 \<Rightarrow> u32 \<Rightarrow> 'a mm_scheme \<Rightarrow> (u32, 'a mm_scheme) res" where
  "find_empty 0 n start i db s = Hang"
| "find_empty (Suc fuel) n start i db s =
     (if i < n \<and> db < start + SHM_MAX_HEAP then
        bind (table_for db s) (\<lambda>page_table s.
        case page_table of
          None \<Rightarrow> Ok 0 s
        | Some tab \<Rightarrow>
            if phys s (tab + 4 * (drop_bit 12 db AND 0x3FF)) AND 1 \<noteq> 0
            then find_empty fuel n start 0 db s
            else if i + 1 = n then Ok (db + PAGE_SIZE - n * PAGE_SIZE) s
            else find_empty fuel n start (i + 1) (db + PAGE_SIZE) s)
      else Ok 0 s)"

definition findEmptyAdress :: "nat \<Rightarrow> u32 \<Rightarrow> 'a shm_scheme \<Rightarrow> (u32, 'a shm_scheme) res" where
  "findEmptyAdress fuel n s =
     (let data_base = (code_base (cur s) + brk (cur s) + 0xFFF) AND 0xFFFFF000 in
      find_empty fuel n data_base 0 data_base s)"

subsection \<open>Creating a segment\<close>

definition shm_hit :: "u32 \<Rightarrow> shmstruct \<Rightarrow> bool" where
  "shm_hit k e \<longleftrightarrow> shm_key e = k \<or> shm_key e = -1"

definition shm_alloc :: "nat \<Rightarrow> u32 \<Rightarrow> u32 \<Rightarrow> 'a shm_scheme \<Rightarrow> (int, 'a shm_scheme) res" where
  "shm_alloc i k n s =
     bind (alloc_pages get_free_page (unat n) s) (\<lambda>(ok, ps) s.
     if ok then
       Ok (int i) (set_shm i (\<lambda>e. e\<lparr>shmaddr := ps @ drop (length ps) (shmaddr e), pageNum := n,
         shm_key := k, shm_nattch := 0\<rparr>) s)
     else bind (free_list free_page (rev ps) s) (\<lambda>_ s.
       Ok (-1) (set_shm i (\<lambda>e. e\<lparr>shmaddr := replicate (Suc (length ps)) 0 @
         drop (Suc (length ps)) (shmaddr e), pageNum := 0, shm_key := -1\<rparr>) s)))"

definition sys_shmget :: "u32 \<Rightarrow> u32 \<Rightarrow> u32 \<Rightarrow> 'a shm_scheme \<Rightarrow> (int, 'a shm_scheme) res" where
  "sys_shmget k sz shmflg s =
     (if sz = 0 then Ok (-1) s
      else case find_idx (shm_hit k) (shmnum s) of
        None \<Rightarrow> Ok (-1) s
      | Some i \<Rightarrow>
          let shmKey = (shm_key (shmnum s ! i) = k); shmNull = (shm_key (shmnum s ! i) = -1);
              n = (sz + 0xFFF) div 4096 in
          if of_nat PAGE_NUM < n then Ok (-1) s
          else if k = IPC_PRIVATE \<or> (shmflg AND IPC_CREAT \<noteq> 0 \<and> \<not> shmKey) then
            if shmNull then shm_alloc i k n s else Fault ''null pointer''
          else if shmflg AND IPC_CREAT \<noteq> 0 \<and> shmflg AND IPC_EXCL = 0 \<and> shmKey
          then Ok (int i) s
          else Ok (-1) s)"

subsection \<open>Attaching and detaching\<close>

text \<open>The loops over the pages of a segment: at consecutive addresses, and at one address.\<close>

fun map_pages :: "u32 list \<Rightarrow> u32 \<Rightarrow> 'a mm_scheme \<Rightarrow> (unit, 'a mm_scheme) res" where
  "map_pages [] a s = Ok () s"
| "map_pages (p # ps) a s = bind (put_page p a s) (\<lambda>_ s. map_pages ps (a + PAGE_SIZE) s)"

fun map_pages_at :: "u32 list \<Rightarrow> u32 \<Rightarrow> 'a mm_scheme \<Rightarrow> (bool, 'a mm_scheme) res" where
  "map_pages_at [] a s = Ok True s"
| "map_pages_at (p # ps) a s =
     bind (put_page p a s) (\<lambda>r s. if r = 0 then Ok False s else map_pages_at ps a s)"

text \<open>The bookkeeping of an attachment; a task that finds no free entry is not recorded.\<close>

definition record_attach :: "nat \<Rightarrow> u32 \<Rightarrow> 'a shm_scheme \<Rightarrow> 'a shm_scheme" where
  "record_attach k address s =
     set_shm k (\<lambda>e.
       let e = e\<lparr>shm_atime := cutime (cur s), shm_nattch := shm_nattch e + 1\<rparr> in
       case find_idx (\<lambda>p. p = 0) (spid e) of
         None \<Rightarrow> e
       | Some i \<Rightarrow> e\<lparr>spid := (spid e)[i := of_int (pid (cur s))], vaddr := (vaddr e)[i := address]\<rparr>) s"

definition seg_pages :: "shmstruct \<Rightarrow> u32 list" where
  "seg_pages e = take (unat (pageNum e)) (shmaddr e)"

definition sys_shmat :: "nat \<Rightarrow> int \<Rightarrow> u32 \<Rightarrow> u32 \<Rightarrow> 'a shm_scheme \<Rightarrow> (u32, 'a shm_scheme) res" where
  "sys_shmat fuel shmid addr shmflg s =
     (if shmid < 0 \<or> int SHM_NUM \<le> shmid then Ok (-1) s
      else
        let k = nat shmid; base = code_base (cur s); e = shmnum s ! k in
        if addr = 0 then
          bind (findEmptyAdress fuel (pageNum e) s) (\<lambda>address s.
          if address = 0 then Ok (-1) s
          else bind (map_pages (seg_pages e) address s) (\<lambda>_ s.
            Ok (address - base) (record_attach k address s)))
        else
          bind (map_pages_at (seg_pages e) addr s) (\<lambda>ok s.
          if \<not> ok then Ok (-1) s else Ok (addr - base) (record_attach k addr s)))"

definition cancelAdress :: "u32 \<Rightarrow> 'a mm_scheme \<Rightarrow> 'a mm_scheme" where
  "cancelAdress addr s =
     (if phys s (dir_slot addr) AND 1 = 0 then s
      else
        let page_table = phys s (dir_slot addr) AND 0xFFFFF000 in
        if phys s page_table AND 1 = 0 then s
        else poke (page_table + 4 * (drop_bit 12 addr AND 0x3FF)) 0 s)"

fun cancel_pages :: "nat \<Rightarrow> u32 \<Rightarrow> 'a mm_scheme \<Rightarrow> 'a mm_scheme" where
  "cancel_pages 0 a s = s"
| "cancel_pages (Suc n) a s = cancel_pages n (a + PAGE_SIZE) (cancelAdress a s)"

text \<open>
  The attachment of the current task at an address: the first segment, in the order of the table,
  that has one, and its entry. The test \<open>key >= 0\<close> of the code holds of every unsigned key.
\<close>

definition attached :: "u32 \<Rightarrow> u32 \<Rightarrow> shmstruct \<Rightarrow> nat option" where
  "attached p a e = find_idx (\<lambda>(q, v). q = p \<and> v = a) (zip (spid e) (vaddr e))"

definition sys_shmdt :: "u32 \<Rightarrow> 'a shm_scheme \<Rightarrow> (int, 'a shm_scheme) res" where
  "sys_shmdt addr s =
     (if addr = 0 then Ok (-1) s
      else
        let a = addr + code_base (cur s); p = of_int (pid (cur s)) in
        case find_idx (\<lambda>e. attached p a e \<noteq> None) (shmnum s) of
          None \<Rightarrow> Ok (-1) s
        | Some i \<Rightarrow>
            let e = shmnum s ! i; j = the (attached p a e) in
            if \<not> 0 < shm_nattch e then Ok 0 s
            else
              let s = set_shm i (\<lambda>e. e\<lparr>shm_nattch := shm_nattch e - 1, spid := (spid e)[j := 0],
                        vaddr := (vaddr e)[j := 0]\<rparr>) s;
                  s = cancel_pages (unat (pageNum e)) (vaddr e ! j) s in
              if shm_nattch e - 1 = 0 then
                bind (free_list free_page (seg_pages e)
                       (set_shm i (\<lambda>e. e\<lparr>shm_key := -1\<rparr>) s)) (\<lambda>_ s.
                Ok 0 (set_shm i (\<lambda>e. e\<lparr>pageNum := 0\<rparr>) s))
              else Ok 0 s)"

subsection \<open>Addresses that are translated by the same entry\<close>

lemma unat_bound: "unat (x :: u32) < 2 ^ 32"
  using unsigned_less [of x] by simp

lemma same_pte_iff: "same_pte a b \<longleftrightarrow> a AND 0xFFFFF000 = b AND 0xFFFFF000"
proof -
  have ds: "bit (dir_slot x) n \<longleftrightarrow> 2 \<le> n \<and> n < 12 \<and> bit x (20 + n)" for x n
    unfolding dir_slot_def slot_mask by (auto simp: bit_simps dest: bit_imp_le_length)
  have po: "bit (pte_offset x) n \<longleftrightarrow> 2 \<le> n \<and> n < 12 \<and> bit x (10 + n)" for x n
    unfolding pte_offset_def slot_mask by (auto simp: bit_simps dest: bit_imp_le_length)
  have split: "12 \<le> n \<and> n < 32 \<longleftrightarrow> (\<exists>k. 2 \<le> k \<and> k < 12 \<and> (n = 20 + k \<or> n = 10 + k))" for n :: nat
    by presburger
  have "same_pte a b \<longleftrightarrow> (\<forall>k. 2 \<le> k \<and> k < 12 \<longrightarrow>
      (bit a (20 + k) = bit b (20 + k)) \<and> (bit a (10 + k) = bit b (10 + k)))"
  proof -
    have small: "n < 32" if "n < 12" for n :: nat using that by simp
    have "(\<forall>n<32. (2 \<le> n \<and> n < 12 \<and> P n) = (2 \<le> n \<and> n < 12 \<and> Q n)) \<longleftrightarrow>
        (\<forall>k. 2 \<le> k \<and> k < 12 \<longrightarrow> Q k = P k)" for P Q :: "nat \<Rightarrow> bool"
      using small by blast
    then show ?thesis
      unfolding same_pte_def bit_eq_iff [of "dir_slot b"] bit_eq_iff [of "pte_offset b"] ds po
        possible_bit_word by auto
  qed
  also have "\<dots> \<longleftrightarrow> (\<forall>n. 12 \<le> n \<and> n < 32 \<longrightarrow> bit a n = bit b n)"
    unfolding split by blast
  also have "\<dots> \<longleftrightarrow> a AND 0xFFFFF000 = b AND 0xFFFFF000"
    unfolding bit_eq_iff [of "a AND 0xFFFFF000"] bit_frame using bit_imp_le_length by fastforce
  finally show ?thesis .
qed

lemma page_multiple_aligned:
  "(a :: u32) AND 0xFFF = 0 \<Longrightarrow> (a + 4096 * of_nat k) AND 0xFFF = 0"
proof -
  assume "a AND 0xFFF = 0"
  then obtain m where m: "unat a = 4096 * m"
    using and_mask_dvd_nat [of 12 a] by (auto simp: off_mask elim!: dvdE)
  then have "a = of_nat (4096 * m)" by (metis of_nat_unat ucast_id)
  then have "a + 4096 * of_nat k = of_nat (4096 * (m + k))" by (simp add: distrib_left)
  also have "\<dots> = push_bit 12 (of_nat (m + k))" by (simp add: push_bit_eq_mult)
  finally show ?thesis by (simp add: off0_iff bit_simps)
qed

lemma same_pte_multiples:
  assumes a: "(a :: u32) AND 0xFFF = 0" and "i < 1000" "j < 1000"
  shows "same_pte (a + 4096 * of_nat i) (a + 4096 * of_nat j) \<longleftrightarrow> i = j"
proof -
  have "same_pte (a + 4096 * of_nat i) (a + 4096 * of_nat j) \<longleftrightarrow>
      (of_nat (4096 * i) :: u32) = of_nat (4096 * j)"
    by (simp add: same_pte_iff frame_aligned page_multiple_aligned a)
  also have "\<dots> \<longleftrightarrow> i = j"
  proof
    assume "(of_nat (4096 * i) :: u32) = of_nat (4096 * j)"
    then have "unat (of_nat (4096 * i) :: u32) = unat (of_nat (4096 * j) :: u32)" by (rule arg_cong)
    moreover have "unat (of_nat (4096 * k) :: u32) = 4096 * k" if "k < 1000" for k
      by (rule unat_of_nat_small) (use that in simp)
    ultimately have "4096 * i = 4096 * j" using assms(2,3) by (simp only:)
    then show "i = j" by simp
  qed simp
  finally show ?thesis .
qed

subsection \<open>What memory management leaves of the table\<close>

lemma same_tasks_shmnum: "same_tasks s t \<Longrightarrow> shmnum t = shmnum s"
  by (cases s; cases t) (simp add: same_tasks_def)

lemma same_tasks_put_page: "put_page p a s = Ok r t \<Longrightarrow> same_tasks s t"
  by (auto simp: put_page_def Let_def split: if_splits dest!: same_tasks_get_free_page)

lemma same_tasks_map_pages: "map_pages ps a s = Ok r t \<Longrightarrow> same_tasks s t"
  by (induction ps a s rule: map_pages.induct)
     (auto dest: same_tasks_put_page intro: same_tasks_trans)

lemma same_tasks_cur: "same_tasks s t \<Longrightarrow> cur t = cur s"
  by (simp add: same_tasks_def cur_def)

lemma same_tasks_table_for: "table_for a s = Ok r t \<Longrightarrow> same_tasks s t"
  by (auto simp: table_for_def split: if_splits dest!: same_tasks_get_free_page)

lemma same_tasks_find_empty: "find_empty fuel n start i db s = Ok r t \<Longrightarrow> same_tasks s t"
proof (induction fuel arbitrary: i db s)
  case (Suc fuel)
  have *: "same_tasks s t" if "find_empty fuel n start i' db' u = Ok r t" "same_tasks s u" for i' db' u
    using Suc.IH [OF that(1)] that(2) same_tasks_trans by blast
  from Suc.prems show ?case
    by (auto split: if_splits option.splits dest!: same_tasks_table_for intro: *)
qed simp

subsection \<open>What the search finds\<close>

definition wf_paging :: "'a mm_scheme \<Rightarrow> bool" where
  "wf_paging s \<longleftrightarrow> wf_mm s \<and> wf_tables s"

definition has_table :: "'a mm_scheme \<Rightarrow> u32 \<Rightarrow> bool" where
  "has_table s a \<longleftrightarrow> odd (dir_entry s a)"

lemma table_for_spec:
  assumes wf: "wf_paging s"
  obtains t where "table_for a s = Ok None t" "t = s" "\<not> has_table s a"
    | t where "table_for a s = Ok (Some (table_of t a)) t" "wf_paging t" "has_table t a"
      "\<And>b. pte t b = pte s b" "\<And>b. has_table s b \<Longrightarrow> has_table t b"
proof (cases "odd (dir_entry s a)")
  case True
  then have "table_for a s = Ok (Some (table_of s a)) s"
    by (simp add: table_for_def dir_entry_def table_of_def and_one_eq0)
  then show ?thesis using that(2) [of s] wf True by (auto simp: has_table_def)
next
  case False
  obtain p u where g: "get_free_page s = Ok p u" using get_free_page_returns by blast
  show ?thesis
  proof (cases "p = 0")
    case True
    with g get_free_page_zero_iff [of s u] False show ?thesis
      by (intro that(1)) (auto simp: table_for_def dir_entry_def and_one_eq0 has_table_def)
  next
    case p: False
    let ?v = "poke (dir_slot a) (p OR 7) u"
    have ev: "even (dir_entry s a)" using False by simp
    have wf': "wf_mm s" "wf_tables s" using wf by (simp_all add: wf_paging_def)
    note n = new_table [OF wf' ev g p]
    have "table_for a s = Ok (Some (table_of ?v a)) ?v"
      using False g p n(5) by (simp add: table_for_def dir_entry_def and_one_eq0)
    then show ?thesis
      using that(2) [of ?v] n(1-4,6) by (auto simp: wf_paging_def has_table_def even_or_iff)
  qed
qed

text \<open>A page of the range that is already mapped stops the search for ever.\<close>

lemma find_empty_stuck:
  assumes "wf_paging s" and "pte s db \<noteq> None" and "i < n" and "db < start + SHM_MAX_HEAP" and "0 < n"
  shows "find_empty fuel n start i db s = Hang"
  using assms
proof (induction fuel arbitrary: i)
  case (Suc fuel)
  from Suc.prems(2) have d: "odd (dir_entry s db)" "odd (phys s (pte_addr s db))"
    by (auto simp: pte_def split: if_splits)
  then have "table_for db s = Ok (Some (table_of s db)) s"
    by (simp add: table_for_def dir_entry_def table_of_def and_one_eq0)
  with Suc d show ?case
    by (simp add: pte_index pte_addr_def and_one_eq0)
qed simp

definition page_at :: "u32 \<Rightarrow> nat \<Rightarrow> u32" where
  "page_at a k = a + 4096 * of_nat k"

lemma page_at_Suc: "page_at a k + PAGE_SIZE = page_at a (Suc k)"
  by (simp add: page_at_def PAGE_SIZE_def algebra_simps)

lemma page_at_0 [simp]: "page_at a 0 = a"
  by (simp add: page_at_def)

lemma page_at_shift: "page_at (a + PAGE_SIZE) k = page_at a (Suc k)"
  by (simp add: page_at_def PAGE_SIZE_def algebra_simps)

lemma find_empty_found:
  assumes "wf_paging s" and "find_empty fuel n start (of_nat k) (page_at start k) s = Ok a t"
    and "a \<noteq> 0" and "k < unat n" and "\<forall>j < k. has_table s (page_at start j) \<and> pte s (page_at start j) = None"
  shows "a = start \<and> wf_paging t \<and> (\<forall>b. pte t b = pte s b) \<and>
     (\<forall>j < unat n. has_table t (page_at start j) \<and> pte t (page_at start j) = None)"
  using assms
proof (induction fuel arbitrary: k s)
  case (Suc fuel)
  let ?db = "page_at start k"
  have k: "unat (of_nat k :: u32) = k"
    by (rule unat_of_nat_small) (use Suc.prems(4) unat_bound [of n] in simp)
  then have "of_nat k < n" using Suc.prems(4) by (simp add: word_less_nat_alt)
  with Suc.prems(2,3) have small: "?db < start + SHM_MAX_HEAP" by (auto split: if_splits)
  have n0: "0 < n" using Suc.prems(4) by (simp add: word_less_nat_alt)
  from Suc.prems(1) show ?case
  proof (cases rule: table_for_spec [where a = ?db])
    case (1 u)
    with Suc.prems(2,3) show ?thesis by (auto split: if_splits)
  next
    case (2 u)
    have step: "find_empty (Suc fuel) n start (of_nat k) ?db s =
      (if odd (phys u (pte_addr u ?db)) then find_empty fuel n start 0 ?db u
       else if of_nat k + 1 = n then Ok (?db + PAGE_SIZE - n * PAGE_SIZE) u
       else find_empty fuel n start (of_nat k + 1) (?db + PAGE_SIZE) u)"
      using 2(1) \<open>of_nat k < n\<close> small by (simp add: pte_index pte_addr_def and_one_eq0)
    have free: "even (phys u (pte_addr u ?db))"
    proof (rule ccontr)
      assume o: "\<not> even (phys u (pte_addr u ?db))"
      with 2(3) have "pte u ?db \<noteq> None" by (simp add: pte_def has_table_def)
      from find_empty_stuck [OF 2(2) this n0 small n0, of fuel] o Suc.prems(2) show False
        unfolding step by simp
    qed
    then have none: "pte u ?db = None" by (simp add: pte_def)
    have all: "\<forall>j < Suc k. has_table u (page_at start j) \<and> pte u (page_at start j) = None"
      using Suc.prems(5) 2 none by (auto simp: less_Suc_eq)
    show ?thesis
    proof (cases "of_nat k + 1 = n")
      case True
      have "of_nat k \<noteq> (-1 :: u32)" using True n0 by auto
      with True have nk: "unat n = Suc k"
        using k \<open>of_nat k < n\<close> unat_inc [of "of_nat k :: u32"] by auto
      have "?db + PAGE_SIZE - n * PAGE_SIZE = start"
        unfolding True [symmetric] by (simp add: page_at_def PAGE_SIZE_def algebra_simps)
      then show ?thesis using Suc.prems(2) free True 2 all nk unfolding step by auto
    next
      case False
      have "Suc k \<noteq> unat n"
      proof
        assume "Suc k = unat n"
        then have "n = of_nat (Suc k)" by (metis of_nat_unat ucast_id)
        with False show False by (simp add: add.commute)
      qed
      then have "Suc k < unat n" using Suc.prems(4) by simp
      moreover have "find_empty fuel n start (of_nat (Suc k)) (page_at start (Suc k)) u = Ok a t"
        using Suc.prems(2) free False unfolding step by (simp add: add.commute flip: page_at_Suc)
      ultimately show ?thesis
        using Suc.IH [OF 2(2) _ Suc.prems(3) _ all] 2(4) by metis
    qed
  qed
qed simp

lemma map_pages_spec:
  assumes "wf_paging s" and "a AND 0xFFF = 0" and "length ps < 900"
    and "\<forall>j < length ps. has_table s (page_at a j)"
  shows "\<exists>t. map_pages ps a s = Ok () t \<and> wf_paging t \<and>
     (\<forall>j < length ps. pte t (page_at a j) = Some (ps ! j OR 7)) \<and>
     (\<forall>b. (\<forall>j < length ps. \<not> same_pte (page_at a j) b) \<longrightarrow> pte t b = pte s b)"
  using assms
proof (induction ps a s rule: map_pages.induct)
  case (1 a s)
  then show ?case by simp
next
  case (2 p ps a s)
  let ?u = "poke (pte_addr s a) (p OR 7) s"
  have pres: "odd (dir_entry s a)" using 2(5) by (auto simp: has_table_def dest: spec [of _ 0])
  have wf: "wf_tables s" using 2(2) by (simp add: wf_paging_def)
  have pp: "put_page p a s = Ok p ?u" using pres by (simp add: put_page_unfold)
  note u = poke_pte [OF wf pres, of "p OR 7"]
  have odd: "odd (p OR 7)" by (simp add: even_or_iff)
  have wfu: "wf_paging ?u" using 2(2) u(3) by (simp add: wf_paging_def)
  have al: "(a + PAGE_SIZE) AND 0xFFF = 0"
    using page_multiple_aligned [OF 2(3), of 1] by (simp add: PAGE_SIZE_def)
  have "\<forall>j < length ps. has_table ?u (page_at (a + PAGE_SIZE) j)"
    using 2(5) u(1) by (auto simp: has_table_def page_at_shift)
  with 2(1) [OF pp wfu al] 2(4) obtain t where
    t: "map_pages ps (a + PAGE_SIZE) ?u = Ok () t" "wf_paging t"
    "\<forall>j < length ps. pte t (page_at a (Suc j)) = Some (ps ! j OR 7)"
    "\<forall>b. (\<forall>j < length ps. \<not> same_pte (page_at a (Suc j)) b) \<longrightarrow> pte t b = pte ?u b"
    by (auto simp: page_at_shift)
  have "\<not> same_pte (page_at a (Suc j)) (page_at a 0)" if "j < length ps" for j
    using same_pte_multiples [OF 2(3), of "Suc j" 0] that 2(4) by (simp add: page_at_def)
  then have "pte t a = pte ?u a" using t(4) by simp
  then have "pte t a = Some (p OR 7)" using u(2) odd by simp
  then have "pte t (page_at a j) = Some ((p # ps) ! j OR 7)" if "j < length (p # ps)" for j
    using that t(3) by (cases j) auto
  moreover have "pte t b = pte s b" if "\<forall>j < length (p # ps). \<not> same_pte (page_at a j) b" for b
  proof -
    have "\<not> same_pte a b" using that by (auto dest: spec [of _ 0])
    moreover have "\<forall>j < length ps. \<not> same_pte (page_at a (Suc j)) b" using that by simp
    ultimately show ?thesis using t(4) u(2) by (auto simp: same_pte_def)
  qed
  ultimately show ?case using pp t(1,2) by auto
qed

subsection \<open>Properties of the calls\<close>

text \<open>Where \<open>shmat\<close> begins to look: the end of the heap, rounded up to a page.\<close>

definition heap_end :: "'a kern_scheme \<Rightarrow> u32" where
  "heap_end s = (code_base (cur s) + brk (cur s) + 0xFFF) AND 0xFFFFF000"

definition wf_seg :: "shmstruct \<Rightarrow> bool" where
  "wf_seg e \<longleftrightarrow> length (shmaddr e) = PAGE_NUM \<and> unat (pageNum e) \<le> PAGE_NUM \<and>
     length (spid e) = TASK_NUM \<and> length (vaddr e) = TASK_NUM"

lemma shmat_cases:
  assumes wf: "wf_paging s" and seg: "wf_seg (shmnum s ! k)" and k: "k < SHM_NUM"
    and n: "0 < pageNum (shmnum s ! k)"
    and at: "sys_shmat fuel (int k) 0 flg s = Ok r t" and r: "heap_end s \<noteq> 0" "r \<noteq> -1"
  shows "\<exists>u. r = heap_end s - code_base (cur s) \<and> t = record_attach k (heap_end s) u \<and>
     same_tasks s u \<and> wf_paging u \<and>
     (\<forall>j < unat (pageNum (shmnum s ! k)). pte s (page_at (heap_end s) j) = None \<and>
        pte u (page_at (heap_end s) j) = Some (shmaddr (shmnum s ! k) ! j OR 7)) \<and>
     (\<forall>b. (\<forall>j < unat (pageNum (shmnum s ! k)). \<not> same_pte (page_at (heap_end s) j) b) \<longrightarrow>
        pte u b = pte s b)"
proof -
  let ?e = "shmnum s ! k" and ?n = "unat (pageNum (shmnum s ! k))" and ?h = "heap_end s"
  have al: "?h AND 0xFFF = 0" by (simp add: heap_end_def page_simps)
  have n0: "0 < ?n" using n by (simp add: word_less_nat_alt)
  from at r(2) obtain a v u where f: "find_empty fuel (pageNum ?e) ?h 0 ?h s = Ok a v"
    and a: "a \<noteq> 0" and m: "map_pages (seg_pages ?e) a v = Ok () u"
    and t: "t = record_attach k a u" "r = a - code_base (cur s)"
    by (auto simp: sys_shmat_def findEmptyAdress_def Let_def heap_end_def split: if_splits)
  have "find_empty fuel (pageNum ?e) ?h (of_nat 0) (page_at ?h 0) s = Ok a v" using f by simp
  from find_empty_found [OF wf this a n0] have v: "a = ?h" "wf_paging v" "\<forall>b. pte v b = pte s b"
    "\<forall>j < ?n. has_table v (page_at ?h j) \<and> pte v (page_at ?h j) = None" by auto
  have lp: "length (seg_pages ?e) = ?n" using seg by (simp add: seg_pages_def wf_seg_def)
  have "?n < 900" using seg by (simp add: wf_seg_def PAGE_NUM_def)
  with map_pages_spec [OF v(2) al, of "seg_pages ?e"] v(4) lp m v(1) have u: "wf_paging u"
    "\<forall>j < ?n. pte u (page_at ?h j) = Some (seg_pages ?e ! j OR 7)"
    "\<forall>b. (\<forall>j < ?n. \<not> same_pte (page_at ?h j) b) \<longrightarrow> pte u b = pte v b" by auto
  have "seg_pages ?e ! j = shmaddr ?e ! j" if "j < ?n" for j
    using that by (simp add: seg_pages_def)
  moreover have "same_tasks s u"
    using same_tasks_find_empty [OF f] same_tasks_map_pages [OF m] same_tasks_trans by blast
  ultimately show ?thesis using t u v by auto
qed

lemma record_attach_simps [simp]:
  "wf_paging (record_attach k a s) = wf_paging s" "pte (record_attach k a s) b = pte s b"
  "cur (record_attach k a s) = cur s" "length (shmnum (record_attach k a s)) = length (shmnum s)"
  by (simp_all add: record_attach_def set_shm_def wf_paging_def wf_mm_def wf_tables_def pte_def
      dir_entry_def pte_addr_def table_of_def page_refs_def cur_def)

text \<open>
  C28: a successful \<open>shmat\<close> without an address maps the pages of the segment, in order, at
  consecutive pages from the end of the heap, all of which were free, and changes no other
  translation; it returns that address relative to the task's base and records the task and the
  address in the first free entry of the segment.
\<close>

theorem shmat_maps:
  assumes wf: "wf_paging s" and seg: "wf_seg (shmnum s ! k)" and k: "k < SHM_NUM" "length (shmnum s) = SHM_NUM"
    and n: "0 < pageNum (shmnum s ! k)"
    and at: "sys_shmat fuel (int k) 0 flg s = Ok r t" and r: "heap_end s \<noteq> 0" "r \<noteq> -1"
  shows "r = heap_end s - code_base (cur s) \<and> wf_paging t \<and>
     (\<forall>j < unat (pageNum (shmnum s ! k)). pte s (page_at (heap_end s) j) = None \<and>
        pte t (page_at (heap_end s) j) = Some (shmaddr (shmnum s ! k) ! j OR 7)) \<and>
     (\<forall>b. (\<forall>j < unat (pageNum (shmnum s ! k)). \<not> same_pte (page_at (heap_end s) j) b) \<longrightarrow>
        pte t b = pte s b) \<and>
     shm_nattch (shmnum t ! k) = shm_nattch (shmnum s ! k) + 1 \<and>
     (\<forall>i. find_idx (\<lambda>p. p = 0) (spid (shmnum s ! k)) = Some i \<longrightarrow>
        spid (shmnum t ! k) ! i = of_int (pid (cur s)) \<and> vaddr (shmnum t ! k) ! i = heap_end s)"
proof -
  from shmat_cases [OF wf seg k(1) n at r] obtain u where
    u: "r = heap_end s - code_base (cur s)" "t = record_attach k (heap_end s) u" "same_tasks s u"
    "wf_paging u"
    "\<forall>j < unat (pageNum (shmnum s ! k)). pte s (page_at (heap_end s) j) = None \<and>
        pte u (page_at (heap_end s) j) = Some (shmaddr (shmnum s ! k) ! j OR 7)"
    "\<forall>b. (\<forall>j < unat (pageNum (shmnum s ! k)). \<not> same_pte (page_at (heap_end s) j) b) \<longrightarrow>
        pte u b = pte s b" by blast
  have su: "shmnum u = shmnum s" "cur u = cur s"
    using u(3) same_tasks_shmnum same_tasks_cur by blast+
  have "i < TASK_NUM" if "find_idx (\<lambda>p. p = 0) (spid (shmnum s ! k)) = Some i" for i
    using find_idx_SomeD(1) [OF that] seg by (simp add: wf_seg_def)
  then have "shm_nattch (shmnum t ! k) = shm_nattch (shmnum s ! k) + 1 \<and>
     (\<forall>i. find_idx (\<lambda>p. p = 0) (spid (shmnum s ! k)) = Some i \<longrightarrow>
        spid (shmnum t ! k) ! i = of_int (pid (cur s)) \<and> vaddr (shmnum t ! k) ! i = heap_end s)"
    using su k seg
    by (auto simp: u(2) record_attach_def set_shm_def Let_def wf_seg_def split: option.split)
  then show ?thesis using u by simp
qed

text \<open>A state for the witnesses: segment 0 has one page, at 0x300000, and no attachment.\<close>

definition demo_seg :: shmstruct where
  "demo_seg = \<lparr>shm_key = -1, pageNum = 0, shmaddr = replicate 64 0, spid = replicate 64 0,
     vaddr = replicate 64 0, shm_nattch = 0, shm_atime = 0, shm_dtime = 0\<rparr>"

definition demo_shm :: shm where
  "demo_shm = kern.extend
     (boot_kern\<lparr>mem_map := demo_map, phys := demo_phys,
        ts := (\<lambda>_. init_task\<lparr>code_base := 0x4000000, brk := 0x1000, pid := 3\<rparr>)\<rparr>)
     (shm.fields ((replicate 64 demo_seg)
        [0 := demo_seg\<lparr>shm_key := 7, pageNum := 1, shmaddr := 0x300000 # replicate 63 0\<rparr>]))"

lemma demo_shm_simps [simp]:
  "mem_map demo_shm = demo_map" "phys demo_shm = demo_phys" "HIGH_MEMORY demo_shm = 0x1000000"
  "code_base (cur demo_shm) = 0x4000000" "brk (cur demo_shm) = 0x1000" "pid (cur demo_shm) = 3"
  "shmnum demo_shm = (replicate 64 demo_seg)
     [0 := demo_seg\<lparr>shm_key := 7, pageNum := 1, shmaddr := 0x300000 # replicate 63 0\<rparr>]"
  by (simp_all add: demo_shm_def kern.extend_def shm.fields_def boot_kern_def cur_def)

lemma demo_heap_end: "heap_end demo_shm = 0x4001000"
  by (simp add: heap_end_def)

lemma wf_paging_demo: "wf_paging demo_shm"
  by (simp add: wf_paging_def wf_demo)

lemma wf_seg_demo: "wf_seg (shmnum demo_shm ! 0)"
  by (simp add: wf_seg_def demo_seg_def PAGE_NUM_def TASK_NUM_def NR_TASKS_def)

lemma demo_shmat: "\<exists>t. sys_shmat 1 0 0 0 demo_shm = Ok 0x1000 t"
proof -
  have d: "phys demo_shm = demo_phys" by simp
  have slot: "dir_slot 0x4001000 = 0x40" "pte_offset 0x4001000 = 4"
    by (simp_all add: dir_slot_def pte_offset_def)
  then have h: "has_table demo_shm (page_at 0x4001000 0)"
    by (simp add: has_table_def demo_dir [OF d])
  have f: "findEmptyAdress 1 1 demo_shm = Ok 0x4001000 demo_shm"
    by (simp add: findEmptyAdress_def table_for_def slot demo_phys_def SHM_MAX_HEAP_def PAGE_SIZE_def
        pte_index One_nat_def)
  from map_pages_spec [OF wf_paging_demo, where a = "0x4001000" and ps = "[0x300000]"] h
  obtain t where "map_pages [0x300000] 0x4001000 demo_shm = Ok () t" by auto
  then show ?thesis
    using f by (simp add: sys_shmat_def SHM_NUM_def seg_pages_def Let_def)
qed

theorem shmat_maps_witness:
  "\<exists>t. sys_shmat 1 0 0 0 demo_shm = Ok 0x1000 t \<and> pte t 0x4001000 = Some (0x300000 OR 7) \<and>
     spid (shmnum t ! 0) ! 0 = 3"
proof -
  obtain t where t: "sys_shmat 1 (int 0) 0 0 demo_shm = Ok 0x1000 t" using demo_shmat by auto
  have i: "find_idx (\<lambda>p. p = 0) (spid (shmnum demo_shm ! 0)) = Some 0"
    by (simp add: find_idx_Some_iff demo_seg_def)
  from shmat_maps [OF wf_paging_demo wf_seg_demo _ _ _ t]
  have "pte t (page_at 0x4001000 0) = Some (shmaddr (shmnum demo_shm ! 0) ! 0 OR 7) \<and>
     spid (shmnum t ! 0) ! 0 = of_int (pid (cur demo_shm))"
    using i by (auto simp: demo_heap_end SHM_NUM_def)
  then show ?thesis using t by auto
qed

text \<open>
  After a successful \<open>shmat\<close> without an address the same task can attach no second segment
  that way: as long as its heap does not grow, the search finds the page at the end of the heap
  taken, goes back to it again and again, and never returns, whatever the fuel.
\<close>

theorem second_shmat_hangs:
  assumes wf: "wf_paging s" and seg: "wf_seg (shmnum s ! k)" and k: "k < SHM_NUM"
    and n: "0 < pageNum (shmnum s ! k)"
    and at: "sys_shmat fuel (int k) 0 flg s = Ok r t" and r: "heap_end s \<noteq> 0" "r \<noteq> -1"
    and space: "heap_end s < heap_end s + SHM_MAX_HEAP"
    and other: "m < SHM_NUM" "0 < pageNum (shmnum t ! m)"
  shows "sys_shmat fuel' (int m) 0 flg' t = Hang"
proof -
  from shmat_cases [OF wf seg k(1) n at r] obtain u where
    u: "t = record_attach k (heap_end s) u" "same_tasks s u" "wf_paging u"
    "\<forall>j < unat (pageNum (shmnum s ! k)).
        pte u (page_at (heap_end s) j) = Some (shmaddr (shmnum s ! k) ! j OR 7)" by blast
  have "0 < unat (pageNum (shmnum s ! k))" using n by (simp add: word_less_nat_alt)
  with u(4) have "pte u (heap_end s) \<noteq> None" by (auto dest: spec [of _ 0])
  then have p: "pte t (heap_end s) \<noteq> None" "wf_paging t" using u by simp_all
  have h: "heap_end t = heap_end s"
    using same_tasks_cur [OF u(2)] by (simp add: heap_end_def u(1))
  from find_empty_stuck [OF p(2) p(1) other(2) space other(2), of fuel'] show ?thesis
    using other(1) h by (simp add: sys_shmat_def findEmptyAdress_def Let_def heap_end_def)
qed

theorem second_shmat_hangs_witness:
  "\<exists>t. sys_shmat 1 0 0 0 demo_shm = Ok 0x1000 t \<and> sys_shmat 1000 0 0 0 t = Hang"
proof -
  obtain t where t: "sys_shmat 1 (int 0) 0 0 demo_shm = Ok 0x1000 t" using demo_shmat by auto
  have "pageNum (shmnum t ! 0) = 1"
  proof -
    from shmat_cases [OF wf_paging_demo wf_seg_demo _ _ t] obtain u where
      "t = record_attach 0 0x4001000 u" "same_tasks demo_shm u"
      by (auto simp: demo_heap_end SHM_NUM_def)
    then show ?thesis using same_tasks_shmnum [of demo_shm u]
      by (simp add: record_attach_def set_shm_def Let_def split: option.split)
  qed
  with second_shmat_hangs [OF wf_paging_demo wf_seg_demo _ _ t, of 0 1000 0] t show ?thesis
    by (auto simp: demo_heap_end SHM_NUM_def SHM_MAX_HEAP_def)
qed

subsection \<open>Creating segments\<close>

lemma set_shm_mm [simp]:
  "wf_mm (set_shm i f s) = wf_mm s" "page_refs (set_shm i f s) q = page_refs s q"
  "HIGH_MEMORY (set_shm i f s) = HIGH_MEMORY s" "pte (set_shm i f s) b = pte s b"
  "phys (set_shm i f s) = phys s" "table_of (set_shm i f s) b = table_of s b"
  "wf_tables (set_shm i f s) = wf_tables s" "has_table (set_shm i f s) b = has_table s b"
  "shmnum (set_shm i f s) = (shmnum s)[i := f (shmnum s ! i)]"
  "mem_map (set_shm i f s) = mem_map s"
  by (simp_all add: set_shm_def wf_mm_def page_refs_def pte_def dir_entry_def pte_addr_def
      table_of_def wf_tables_def has_table_def)

lemma same_tasks_free_page: "free_page p s = Ok v t \<Longrightarrow> same_tasks s t"
  by (auto simp: free_page_def aget_def split: if_splits)

lemma same_tasks_free_list: "free_list free_page ps s = Ok v t \<Longrightarrow> same_tasks s t"
  by (induction ps arbitrary: s) (auto dest: same_tasks_free_page intro: same_tasks_trans)

lemma same_tasks_alloc_pages: "alloc_pages get_free_page n s = Ok v t \<Longrightarrow> same_tasks s t"
proof (induction n arbitrary: s v)
  case (Suc n)
  have *: "same_tasks s t" if "alloc_pages get_free_page n u = Ok w t" "same_tasks s u" for u w
    using Suc.IH [OF that(1)] that(2) same_tasks_trans by blast
  from Suc.prems show ?case
    by (auto split: if_splits dest!: same_tasks_get_free_page intro: *)
qed simp

lemma shm_alloc_spec:
  assumes wf: "wf_mm s" and i: "i < length (shmnum s)" and seg: "wf_seg (shmnum s ! i)"
    and n: "unat n \<le> PAGE_NUM"
  shows "\<exists>r t. shm_alloc i k n s = Ok r t \<and> wf_mm t \<and>
     length (shmnum t) = length (shmnum s) \<and> (\<forall>j. j \<noteq> i \<longrightarrow> shmnum t ! j = shmnum s ! j) \<and>
     (r = int i \<and> shm_key (shmnum t ! i) = k \<and> pageNum (shmnum t ! i) = n \<and>
        wf_seg (shmnum t ! i) \<and> distinct (seg_pages (shmnum t ! i)) \<and>
        (\<forall>p \<in> set (seg_pages (shmnum t ! i)). usable_page s p \<and> page_refs s p = 0 \<and> page_refs t p = 1) \<and>
        (\<forall>q. usable_page s q \<longrightarrow> q \<notin> set (seg_pages (shmnum t ! i)) \<longrightarrow> page_refs t q = page_refs s q) \<or>
      r = -1 \<and> shm_key (shmnum t ! i) = -1 \<and> (\<forall>q. usable_page s q \<longrightarrow> page_refs t q = page_refs s q))"
proof -
  let ?h = "HIGH_MEMORY s"
  have inv: "wf_mm s \<and> HIGH_MEMORY s = ?h" using wf by simp
  obtain ok ps u where a: "alloc_pages get_free_page (unat n) s = Ok (ok, ps) u"
    and u: "wf_mm u" "HIGH_MEMORY u = ?h" and d: "distinct ps"
    and ps: "\<forall>p \<in> set ps. usable_page s p \<and> page_refs s p = 0 \<and> page_refs u p = 1"
    and fr: "\<forall>q. usable_page s q \<longrightarrow> q \<notin> set ps \<longrightarrow> page_refs u q = page_refs s q"
    and len: "length ps \<le> unat n" "ok \<longleftrightarrow> length ps = unat n"
    using mm.alloc_pages_spec [OF inv, of "unat n"] by (auto simp: usable_page_def)
  have su: "shmnum u = shmnum s" using same_tasks_alloc_pages [OF a] by (rule same_tasks_shmnum)
  show ?thesis
  proof (cases ok)
    case True
    let ?f = "\<lambda>e. e\<lparr>shmaddr := ps @ drop (length ps) (shmaddr e), pageNum := n, shm_key := k, shm_nattch := 0\<rparr>"
    have "shm_alloc i k n s = Ok (int i) (set_shm i ?f u)" using a True by (simp add: shm_alloc_def)
    moreover have "seg_pages (shmnum (set_shm i ?f u) ! i) = ps"
      using i len(2) True su by (simp add: seg_pages_def)
    moreover have "wf_seg (shmnum (set_shm i ?f u) ! i)"
      using i len su seg n True by (simp add: wf_seg_def)
    ultimately show ?thesis
      using u d ps fr i su by (intro exI [of _ "int i"] exI [of _ "set_shm i ?f u"])
        auto
  next
    case False
    let ?f = "\<lambda>e. e\<lparr>shmaddr := replicate (Suc (length ps)) 0 @ drop (Suc (length ps)) (shmaddr e),
      pageNum := 0, shm_key := -1\<rparr>"
    from mm.alloc_rollback [OF inv a] obtain v where v: "free_list free_page (rev ps) u = Ok () v"
      "wf_mm v" "\<forall>q. usable_page s q \<longrightarrow> page_refs v q = page_refs s q"
      by (auto simp: usable_page_def)
    have sv: "shmnum v = shmnum s" using same_tasks_shmnum [OF same_tasks_free_list [OF v(1)]] su by simp
    have "shm_alloc i k n s = Ok (-1) (set_shm i ?f v)" using a v(1) False by (simp add: shm_alloc_def)
    then show ?thesis
      using v i sv by (intro exI [of _ "-1"] exI [of _ "set_shm i ?f v"]) auto
  qed
qed

text \<open>
  When \<open>shmget\<close> may create a segment, it either gives back the first free slot, which now has
  the key and as many pages as the size needs, all different, unused before and now used once,
  while no other page's count and no other slot has changed; or, without enough memory, -1, with
  the slot free and every count as it was: the pages collected so far are released.
\<close>

theorem shmget_creates:
  assumes wf: "wf_mm s" and len: "length (shmnum s) = SHM_NUM" and seg: "wf_seg (shmnum s ! i)"
    and hit: "find_idx (shm_hit k) (shmnum s) = Some i" "shm_key (shmnum s ! i) = -1" "k \<noteq> -1"
    and sz: "sz \<noteq> 0" "(sz + 0xFFF) div 4096 \<le> of_nat PAGE_NUM"
    and create: "k = IPC_PRIVATE \<or> flg AND IPC_CREAT \<noteq> 0"
  shows "\<exists>r t. sys_shmget k sz flg s = Ok r t \<and> wf_mm t \<and>
     (\<forall>j. j \<noteq> i \<longrightarrow> shmnum t ! j = shmnum s ! j) \<and>
     (r = int i \<and> shm_key (shmnum t ! i) = k \<and> pageNum (shmnum t ! i) = (sz + 0xFFF) div 4096 \<and>
        distinct (seg_pages (shmnum t ! i)) \<and>
        (\<forall>p \<in> set (seg_pages (shmnum t ! i)). usable_page s p \<and> page_refs s p = 0 \<and> page_refs t p = 1) \<and>
        (\<forall>q. usable_page s q \<longrightarrow> q \<notin> set (seg_pages (shmnum t ! i)) \<longrightarrow> page_refs t q = page_refs s q) \<or>
      r = -1 \<and> shm_key (shmnum t ! i) = -1 \<and> (\<forall>q. usable_page s q \<longrightarrow> page_refs t q = page_refs s q))"
proof -
  let ?n = "(sz + 0xFFF) div 4096"
  have i: "i < length (shmnum s)" using find_idx_SomeD(1) [OF hit(1)] .
  have n: "unat ?n \<le> PAGE_NUM" using sz(2) by (simp add: word_le_nat_alt PAGE_NUM_def)
  have "sys_shmget k sz flg s = shm_alloc i k ?n s"
    using sz hit create by (auto simp: sys_shmget_def not_less Let_def)
  with shm_alloc_spec [OF wf i seg n, of k] show ?thesis by auto
qed

definition demo_shm2 :: shm where
  "demo_shm2 = set_shm 0 (\<lambda>e. demo_seg) (set_shm 1 (\<lambda>e. e\<lparr>shm_key := 7\<rparr>) demo_shm)"

lemma demo_shm2_simps [simp]:
  "wf_mm demo_shm2" "mem_map demo_shm2 = demo_map" "length (shmnum demo_shm2) = SHM_NUM"
  "shmnum demo_shm2 ! 0 = demo_seg" "shm_key (shmnum demo_shm2 ! Suc 0) = 7"
  "find_idx (shm_hit 7) (shmnum demo_shm2) = Some 0"
  using wf_paging_demo
  by (simp_all add: demo_shm2_def wf_paging_def SHM_NUM_def find_idx_Some_iff shm_hit_def demo_seg_def)

lemma wf_seg_demo2: "wf_seg (shmnum demo_shm2 ! 0)"
  by (simp add: wf_seg_def demo_seg_def PAGE_NUM_def TASK_NUM_def NR_TASKS_def)

theorem shmget_creates_witness:
  "\<exists>r t. sys_shmget 7 5000 IPC_CREAT demo_shm2 = Ok r t \<and> wf_mm t \<and>
     (r = 0 \<and> shm_key (shmnum t ! 0) = 7 \<and> pageNum (shmnum t ! 0) = 2 \<or> r = -1)"
proof -
  have "shm_key (shmnum demo_shm2 ! 0) = -1" by (simp add: demo_seg_def)
  from shmget_creates [OF _ _ wf_seg_demo2 _ this, of 7 5000 IPC_CREAT] show ?thesis
    by (fastforce simp: IPC_CREAT_def PAGE_NUM_def)
qed

text \<open>
  A free slot before a segment hides it: \<open>shmget\<close> with \<open>IPC_CREAT\<close>, even together with
  \<open>IPC_EXCL\<close>, does not find the existing segment of the key but makes a second one with the same
  key (or fails for lack of memory).
\<close>

theorem shmget_duplicates:
  assumes wf: "wf_mm s" and len: "length (shmnum s) = SHM_NUM" and seg: "wf_seg (shmnum s ! i)"
    and free: "find_idx (shm_hit k) (shmnum s) = Some i" "shm_key (shmnum s ! i) = -1" "k \<noteq> -1"
    and other: "i < j" "j < SHM_NUM" "shm_key (shmnum s ! j) = k"
    and sz: "sz \<noteq> 0" "(sz + 0xFFF) div 4096 \<le> of_nat PAGE_NUM"
  shows "\<exists>r t. sys_shmget k sz (IPC_CREAT OR IPC_EXCL) s = Ok r t \<and> shm_key (shmnum t ! j) = k \<and>
     (r = int i \<and> shm_key (shmnum t ! i) = k \<or> r = -1)"
proof -
  let ?n = "(sz + 0xFFF) div 4096"
  have i: "i < length (shmnum s)" using find_idx_SomeD(1) [OF free(1)] .
  have n: "unat ?n \<le> PAGE_NUM" using sz(2) by (simp add: word_le_nat_alt PAGE_NUM_def)
  have "(IPC_CREAT OR IPC_EXCL) AND IPC_CREAT \<noteq> 0" by (simp add: IPC_CREAT_def IPC_EXCL_def)
  then have "sys_shmget k sz (IPC_CREAT OR IPC_EXCL) s = shm_alloc i k ?n s"
    using sz free by (auto simp: sys_shmget_def not_less Let_def)
  with shm_alloc_spec [OF wf i seg n, of k] other show ?thesis by auto
qed

theorem shmget_duplicates_witness:
  "\<exists>r t. sys_shmget 7 5000 (IPC_CREAT OR IPC_EXCL) demo_shm2 = Ok r t \<and> shm_key (shmnum t ! 1) = 7 \<and>
     (r = 0 \<and> shm_key (shmnum t ! 0) = 7 \<or> r = -1)"
proof -
  have "shm_key (shmnum demo_shm2 ! 0) = -1" by (simp add: demo_seg_def)
  from shmget_duplicates [OF _ _ wf_seg_demo2 _ this, of 7 1 5000] show ?thesis
    by (simp add: PAGE_NUM_def SHM_NUM_def)
qed

subsection \<open>Detaching\<close>

text \<open>What \<open>cancelAdress\<close> tests before it clears an entry: the first entry of the table.\<close>

definition first_present :: "'a mm_scheme \<Rightarrow> u32 \<Rightarrow> bool" where
  "first_present s a \<longleftrightarrow> odd (phys s (table_of s a))"

lemma cancelAdress_spec:
  assumes wf: "wf_paging s" and t: "has_table s a" and off: "pte_offset a \<noteq> 0"
  shows "wf_paging (cancelAdress a s)"
    and "pte (cancelAdress a s) b = (if same_pte a b \<and> first_present s a then None else pte s b)"
    and "has_table (cancelAdress a s) b = has_table s b"
    and "has_table s b \<Longrightarrow> first_present (cancelAdress a s) b = first_present s b"
    and "page_refs (cancelAdress a s) q = page_refs s q"
    and "HIGH_MEMORY (cancelAdress a s) = HIGH_MEMORY s"
proof -
  have wf': "wf_mm s" "wf_tables s" using wf by (simp_all add: wf_paging_def)
  have o: "odd (dir_entry s a)" using t by (simp add: has_table_def)
  have eq: "cancelAdress a s = (if first_present s a then poke (pte_addr s a) 0 s else s)"
    using o by (simp add: cancelAdress_def first_present_def dir_entry_def table_of_def pte_addr_def
        pte_index and_one_eq0 Let_def)
  note p = poke_pte [OF wf'(2) o, of 0]
  show "wf_paging (cancelAdress a s)" using wf' p(3) by (simp add: eq wf_paging_def)
  show "pte (cancelAdress a s) b = (if same_pte a b \<and> first_present s a then None else pte s b)"
    using p(2) by (simp add: eq same_pte_def)
  show "has_table (cancelAdress a s) b = has_table s b"
    using p(1) by (simp add: eq has_table_def)
  have "pte_addr s a \<noteq> table_of s b" for b
  proof
    assume *: "pte_addr s a = table_of s b"
    then have "pte_addr s a = table_of s a"
      using pte_addr_frame [of s a] by (simp add: table_of_def page_simps)
    with off show False by (simp add: pte_addr_def)
  qed
  moreover have "table_of (poke (pte_addr s a) 0 s) b = table_of s b" for b
    by (simp only: table_of_def p(1))
  ultimately show "first_present (cancelAdress a s) b = first_present s b"
    by (simp add: eq first_present_def) metis
  show "page_refs (cancelAdress a s) q = page_refs s q" "HIGH_MEMORY (cancelAdress a s) = HIGH_MEMORY s"
    by (simp_all add: eq)
qed

lemma cancel_pages_spec:
  assumes "wf_paging s" and "\<forall>k < n. has_table s (page_at a k) \<and> pte_offset (page_at a k) \<noteq> 0"
  shows "wf_paging (cancel_pages n a s) \<and>
     (\<forall>b. pte (cancel_pages n a s) b =
       (if \<exists>k < n. same_pte (page_at a k) b \<and> first_present s (page_at a k) then None else pte s b)) \<and>
     (\<forall>q. page_refs (cancel_pages n a s) q = page_refs s q) \<and>
     HIGH_MEMORY (cancel_pages n a s) = HIGH_MEMORY s"
  using assms
proof (induction n arbitrary: a s)
  case (Suc n)
  let ?s = "cancelAdress a s"
  have t: "has_table s a" "pte_offset a \<noteq> 0" using Suc.prems(2) by (auto dest: spec [of _ 0])
  note c = cancelAdress_spec [OF Suc.prems(1) t]
  have later: "has_table s (page_at (a + PAGE_SIZE) k)" "pte_offset (page_at (a + PAGE_SIZE) k) \<noteq> 0"
    if "k < n" for k
    using Suc.prems(2) that by (auto simp: page_at_shift)
  then have "\<forall>k < n. has_table ?s (page_at (a + PAGE_SIZE) k) \<and> pte_offset (page_at (a + PAGE_SIZE) k) \<noteq> 0"
    by (simp add: c(3))
  note IH = Suc.IH [OF c(1) this]
  have fp: "first_present ?s (page_at (a + PAGE_SIZE) k) = first_present s (page_at a (Suc k))" if "k < n" for k
    using c(4) [OF later(1) [OF that]] by (simp add: page_at_shift)
  have ex: "(\<exists>k < Suc n. P k) \<longleftrightarrow> P 0 \<or> (\<exists>k < n. P (Suc k))" for P
    by (metis less_Suc_eq_0_disj)
  show ?case
    using IH fp c(2,5,6) by (auto simp: ex page_at_shift)
qed simp

lemma same_tasks_cancel: "same_tasks s u \<Longrightarrow> same_tasks s (cancel_pages n a u)"
proof (induction n arbitrary: a u)
  case (Suc n)
  have "same_tasks s (cancelAdress a u)" using Suc.prems by (simp add: cancelAdress_def Let_def)
  then show ?case using Suc.IH by simp
qed simp

lemma phys_free_list: "free_list free_page ps s = Ok v t \<Longrightarrow> phys t = phys s"
  by (induction ps arbitrary: s) (fastforce simp: free_page_def aget_def split: if_splits)+

text \<open>
  Detaching the last attachment of a segment gives its pages back to the allocator and frees
  its slot. Each page it had mapped is unmapped when the first entry of the page table is present,
  which is what the code tests; otherwise the page stays mapped, writable, in the task, although
  the allocator may hand it out again. No other translation changes. (No page of the segment is
  itself the first of a table.)
\<close>

theorem shmdt_last:
  assumes wf: "wf_paging s" and len: "length (shmnum s) = SHM_NUM" and seg: "wf_seg (shmnum s ! i)"
    and a0: "addr \<noteq> 0"
    and i: "find_idx (\<lambda>e. attached (of_int (pid (cur s))) (addr + code_base (cur s)) e \<noteq> None) (shmnum s) = Some i"
    and last: "shm_nattch (shmnum s ! i) = 1"
    and tabs: "\<forall>k < unat (pageNum (shmnum s ! i)). has_table s (page_at (addr + code_base (cur s)) k) \<and>
       pte_offset (page_at (addr + code_base (cur s)) k) \<noteq> 0"
    and pages: "distinct (seg_pages (shmnum s ! i))"
      "\<forall>p \<in> set (seg_pages (shmnum s ! i)). usable_page s p \<and> page_refs s p = 1"
  shows "\<exists>t. sys_shmdt addr s = Ok 0 t \<and> wf_mm t \<and> shm_key (shmnum t ! i) = -1 \<and>
     (\<forall>p \<in> set (seg_pages (shmnum s ! i)). page_refs t p = 0) \<and>
     (\<forall>q. usable_page s q \<longrightarrow> q \<notin> set (seg_pages (shmnum s ! i)) \<longrightarrow> page_refs t q = page_refs s q) \<and>
     (\<forall>b. pte t b = (if \<exists>k < unat (pageNum (shmnum s ! i)).
          same_pte (page_at (addr + code_base (cur s)) k) b \<and>
          first_present s (page_at (addr + code_base (cur s)) k) then None else pte s b))"
proof -
  let ?e = "shmnum s ! i" and ?a = "addr + code_base (cur s)" and ?p = "of_int (pid (cur s)) :: u32"
  let ?n = "unat (pageNum ?e)" and ?h = "HIGH_MEMORY s"
  have il: "i < length (shmnum s)" using find_idx_SomeD(1) [OF i] .
  obtain j where j: "attached ?p ?a ?e = Some j" using find_idx_SomeD(2) [OF i] by auto
  then have va: "vaddr ?e ! j = ?a"
    using find_idx_SomeD(1,2) [OF j [unfolded attached_def]] by auto
  let ?s1 = "set_shm i (\<lambda>e. e\<lparr>shm_nattch := shm_nattch e - 1, spid := (spid e)[j := 0],
     vaddr := (vaddr e)[j := 0]\<rparr>) s"
  let ?s2 = "cancel_pages ?n ?a ?s1"
  let ?s3 = "set_shm i (\<lambda>e. e\<lparr>shm_key := -1\<rparr>) ?s2"
  have fp: "first_present ?s1 b = first_present s b" for b by (simp add: first_present_def)
  have "wf_paging ?s1" using wf by (simp add: wf_paging_def)
  from cancel_pages_spec [OF this, of ?n ?a] tabs fp have c: "wf_paging ?s2"
    "\<forall>b. pte ?s2 b = (if \<exists>k < ?n. same_pte (page_at ?a k) b \<and> first_present s (page_at ?a k)
       then None else pte s b)" "\<forall>q. page_refs ?s2 q = page_refs s q" "HIGH_MEMORY ?s2 = ?h"
    by auto
  have inv: "wf_mm ?s3 \<and> HIGH_MEMORY ?s3 = ?h" using c by (simp add: wf_paging_def)
  from mm.free_list_spec [OF inv, of "seg_pages ?e"] pages c(3) obtain u where
    u: "free_list free_page (seg_pages ?e) ?s3 = Ok () u" "wf_mm u"
      "\<forall>p \<in> set (seg_pages ?e). page_refs u p = 0"
      "\<forall>q. usable_page s q \<longrightarrow> q \<notin> set (seg_pages ?e) \<longrightarrow> page_refs u q = page_refs s q"
    by (auto simp: usable_page_def)
  let ?t = "set_shm i (\<lambda>e. e\<lparr>pageNum := 0\<rparr>) u"
  have "shmnum u = shmnum ?s3" using same_tasks_shmnum [OF same_tasks_free_list [OF u(1)]] .
  moreover have "shmnum ?s2 = shmnum ?s1"
    using same_tasks_shmnum [OF same_tasks_cancel [OF same_tasks_refl]] .
  ultimately have shm_key: "shm_key (shmnum ?t ! i) = -1" using il by simp
  have ptu: "pte u b = pte ?s2 b" for b
    using phys_free_list [OF u(1)] by (simp add: pte_def dir_entry_def pte_addr_def table_of_def)
  have "sys_shmdt addr s = Ok 0 ?t"
    using a0 i j last u(1) va by (simp add: sys_shmdt_def Let_def)
  then show ?thesis
    using u shm_key ptu c(2) by (intro exI [of _ ?t]) simp
qed

definition demo_shm3 :: shm where
  "demo_shm3 = set_shm 0 (\<lambda>e. e\<lparr>spid := 3 # replicate 63 0, vaddr := 0x4001000 # replicate 63 0,
     shm_nattch := 1\<rparr>) (poke 0x1004 0x300007 (demo_shm\<lparr>mem_map := demo_map[512 := 1]\<rparr>))"

theorem shmdt_last_witness:
  "\<exists>t. sys_shmdt 0x1000 demo_shm3 = Ok 0 t \<and> pte demo_shm3 0x4001000 = Some 0x300007 \<and>
     pte t 0x4001000 = None \<and> page_refs t 0x300000 = 0"
proof -
  let ?m = "demo_shm\<lparr>mem_map := demo_map[512 := 1]\<rparr>"
  have slot: "dir_slot 0x4001000 = 0x40" "pte_offset 0x4001000 = 4"
    by (simp_all add: dir_slot_def pte_offset_def)
  have d: "phys ?m = demo_phys" by simp
  have pres: "odd (dir_entry ?m 0x4001000)" by (simp add: demo_dir [OF d] slot)
  have pa: "pte_addr ?m 0x4001000 = 0x1004"
    by (simp add: pte_addr_def table_of_def demo_dir [OF d] slot)
  have "wf_mm demo_shm" "wf_tables demo_shm" using wf_paging_demo by (simp_all add: wf_paging_def)
  then have m: "wf_mm ?m" by (auto simp: wf_mm_def nth_list_update demo_map_def PAGING_PAGES_def)
  have "wf_tables ?m"
    using \<open>wf_tables demo_shm\<close> demo_dir [OF d] by (auto simp: wf_tables_def table_of_def is_page_def
        LOW_MEM_def split: if_splits)
  note p = poke_pte [OF this pres, where v = "0x300007", unfolded pa]
  have dir3: "dir_entry demo_shm3 b = dir_entry ?m b" for b
    using p(1) by (simp add: demo_shm3_def set_shm_def dir_entry_def)
  have wf: "wf_paging demo_shm3" using p(3) m by (simp add: demo_shm3_def wf_paging_def)
  have e: "shmnum demo_shm3 ! 0 = demo_seg\<lparr>shm_key := 7, pageNum := 1, shmaddr := 0x300000 # replicate 63 0,
      spid := 3 # replicate 63 0, vaddr := 0x4001000 # replicate 63 0, shm_nattch := 1\<rparr>"
    "length (shmnum demo_shm3) = SHM_NUM"
    by (simp_all add: demo_shm3_def poke_def SHM_NUM_def)
  have c: "cur demo_shm3 = cur demo_shm"
    by (simp add: demo_shm3_def set_shm_def poke_def cur_def)
  have att: "attached 3 0x4001000 (shmnum demo_shm3 ! 0) = Some 0"
    by (simp add: attached_def find_idx_Some_iff e)
  have f: "find_idx (\<lambda>e. attached (of_int (pid (cur demo_shm3))) (0x1000 + code_base (cur demo_shm3)) e \<noteq> None)
     (shmnum demo_shm3) = Some 0"
    using att e(2) by (simp add: find_idx_Some_iff c SHM_NUM_def)
  have n: "MAP_NR 0x300000 = 512" by (simp add: MAP_NR_def LOW_MEM_def)
  have pg: "usable_page demo_shm3 0x300000 \<and> page_refs demo_shm3 0x300000 = 1"
    by (simp add: usable_page_def is_page_def page_refs_def n demo_shm3_def demo_map_def PAGING_PAGES_def LOW_MEM_def)
  have pt: "pte demo_shm3 0x4001000 = Some 0x300007"
    using p(2) by (simp add: demo_shm3_def)
  have fp: "first_present demo_shm3 0x4001000"
    by (simp add: first_present_def table_of_def dir3 demo_dir [OF d] slot)
       (simp add: demo_shm3_def demo_phys_def)
  have tab: "has_table demo_shm3 0x4001000" using pres by (simp add: has_table_def dir3)
  from shmdt_last [OF wf e(2) _ _ f] tab pg fp obtain t where
    "sys_shmdt 0x1000 demo_shm3 = Ok 0 t" "page_refs t 0x300000 = 0"
    "pte t 0x4001000 = None"
    by (auto simp: e c slot wf_seg_def demo_seg_def PAGE_NUM_def TASK_NUM_def NR_TASKS_def
        seg_pages_def same_pte_def)
  with pt show ?thesis by blast
qed

end
