(* ===== verification/Sem.thy ===== *)
theory Sem
  imports Shm
begin

text \<open>
  Named semaphores, \<open>kernel/sem.c\<close>, with the lock of \<open>include/linux/lamport.h\<close> executed by one
  task without interruption (theory \<open>Lamport\<close> has the interleavings); a waiting loop of the lock
  whose condition holds is then never left, which is \<open>Hang\<close>. A name is the list of its bytes before
  the terminating zero; a semaphore pointer is what it points to, or \<open>None\<close> for \<open>NULL\<close>. A call
  that has to sleep is cut there.
\<close>

definition SEM_NUM :: nat where "SEM_NUM = 64"

record structSem =
  sem_index :: u32
  sem_name :: "u8 list"
  semvalue :: u32
  sem_waiting :: "nat option"
  sem_count :: u32

record lamp =
  lpid :: int
  lchoosing :: bool
  lnum :: int

record semst = shm +
  semarray :: "structSem list"
  lamparray :: "lamp list"

definition set_sem :: "nat \<Rightarrow> (structSem \<Rightarrow> structSem) \<Rightarrow> 'a semst_scheme \<Rightarrow> 'a semst_scheme" where
  "set_sem i f s = s\<lparr>semarray := (semarray s)[i := f (semarray s ! i)]\<rparr>"

definition sys_inisem :: "'a semst_scheme \<Rightarrow> int \<times> 'a semst_scheme" where
  "sys_inisem s =
     (0, s\<lparr>semarray := List.map (\<lambda>e. e\<lparr>sem_name := [], sem_index := 0, semvalue := 0, sem_waiting := None, sem_count := 0\<rparr>)
            (semarray s)\<rparr>)"

text \<open>The bytes copied to \<open>kername\<close>: up to the first zero, and at most 19.\<close>

fun read_name :: "nat \<Rightarrow> u32 \<Rightarrow> 'a semst_scheme \<Rightarrow> u8 list" where
  "read_name 0 a s = []"
| "read_name (Suc n) a s =
     (if get_fs_byte a s = 0 then [] else get_fs_byte a s # read_name n (a + 1) s)"

definition kername :: "u32 \<Rightarrow> 'a semst_scheme \<Rightarrow> u8 list" where
  "kername a s = read_name 19 a s"

text \<open>\<open>sys_sem_open\<close> returns the slot whose \<open>sem\<close> the caller gets, or \<open>None\<close> for \<open>SEM_FAILED\<close>.\<close>

definition sys_sem_open ::
    "u32 \<Rightarrow> u32 \<Rightarrow> u32 \<Rightarrow> 'a semst_scheme \<Rightarrow> nat option \<times> 'a semst_scheme" where
  "sys_sem_open nm oflag val s =
     (if nm = 0 then (None, s)
      else
        let k = kername nm s in
        case find_idx (\<lambda>e. sem_name e = k) (semarray s) of
          None \<Rightarrow>
            if oflag AND O_CREAT \<noteq> 0 then
              case find_idx (\<lambda>e. sem_index e = 0) (semarray s) of
                None \<Rightarrow> (None, s)
              | Some i \<Rightarrow> (Some i, set_sem i (\<lambda>e. e\<lparr>sem_name := k, sem_index := of_nat i + 1, semvalue := val,
                    sem_waiting := None, sem_count := 1\<rparr>) s)
            else (None, s)
        | Some i \<Rightarrow>
            if oflag AND O_CREAT \<noteq> 0 \<and> oflag AND O_EXCL \<noteq> 0 then (None, s)
            else (Some i, set_sem i (\<lambda>e. e\<lparr>sem_count := sem_count e + 1\<rparr>) s))"

subsection \<open>The lock\<close>

text \<open>The slot of a process: its own, or the last free one, or 0 when there is none.\<close>

fun lamp_find :: "nat \<Rightarrow> nat \<Rightarrow> nat \<Rightarrow> int \<Rightarrow> lamp list \<Rightarrow> bool \<times> nat" where
  "lamp_find 0 i nulltask p l = (False, nulltask)"
| "lamp_find (Suc n) i nulltask p l =
     (if lpid (l ! i) = p then (True, i)
      else lamp_find n (Suc i) (if lpid (l ! i) = 0 then i else nulltask) p l)"

definition lamp_max :: "nat \<Rightarrow> lamp list \<Rightarrow> int" where
  "lamp_max k l = fold (\<lambda>j m. if j \<noteq> k \<and> m < lnum (l ! j) then lnum (l ! j) else m) [1..<NR_TASKS] 0"

definition lamp_blocks :: "lamp list \<Rightarrow> nat \<Rightarrow> nat \<Rightarrow> bool" where
  "lamp_blocks l k j \<longleftrightarrow> lchoosing (l ! j) \<or>
     lnum (l ! j) \<noteq> 0 \<and> (lnum (l ! j) < lnum (l ! k) \<or> lnum (l ! j) = lnum (l ! k) \<and> j < k)"

definition lamp_take :: "int \<Rightarrow> lamp list \<Rightarrow> nat \<times> lamp list" where
  "lamp_take p l =
     (case lamp_find (NR_TASKS - 1) 1 0 p l of (found, k) \<Rightarrow>
      let l = (if found then l else l[k := (l ! k)\<lparr>lpid := p\<rparr>]) in
      (k, l[k := (l ! k)\<lparr>lchoosing := False, lnum := lamp_max k l + 1\<rparr>]))"

definition lamportLock :: "int \<Rightarrow> 'a semst_scheme \<Rightarrow> (unit, 'a semst_scheme) res" where
  "lamportLock p s =
     (case lamp_take p (lamparray s) of (k, l) \<Rightarrow>
      if \<exists>j \<in> {0..<NR_TASKS}. lamp_blocks l k j then Hang else Ok () (s\<lparr>lamparray := l\<rparr>))"

definition lamportUnlock :: "int \<Rightarrow> 'a semst_scheme \<Rightarrow> 'a semst_scheme" where
  "lamportUnlock p s =
     (case lamp_find (NR_TASKS - 1) 1 0 p (lamparray s) of
        (True, i) \<Rightarrow> s\<lparr>lamparray := (lamparray s)[i := (lamparray s ! i)\<lparr>lnum := 0\<rparr>]\<rparr>
      | (False, _) \<Rightarrow> s)"

subsection \<open>Waiting and posting\<close>

text \<open>
  A round of the loop of \<open>sys_sem_wait\<close>, entered with the lock: either the value is taken, or the
  task unlocks and sleeps; when it runs again it locks and starts over.
\<close>

definition sem_round :: "nat \<Rightarrow> 'a semst_scheme \<Rightarrow> (int, 'a semst_scheme) res" where
  "sem_round i s =
     (if semvalue (semarray s ! i) = 0 then
        let s = lamportUnlock (pid (cur s)) s in
        bind (sleep_on_enter (sem_waiting (semarray s ! i)) s) (\<lambda>q t.
        Sleeps (set_sem i (\<lambda>e. e\<lparr>sem_waiting := q\<rparr>) t))
      else
        let s = set_sem i (\<lambda>e. e\<lparr>semvalue := semvalue e - 1\<rparr>) s in
        Ok 0 (lamportUnlock (pid (cur s)) s))"

definition sys_sem_wait :: "u32 option \<Rightarrow> 'a semst_scheme \<Rightarrow> (int, 'a semst_scheme) res" where
  "sys_sem_wait p s =
     (case p of None \<Rightarrow> Ok (-1) s | Some v \<Rightarrow>
      case find_idx (\<lambda>e. v = sem_index e) (semarray s) of None \<Rightarrow> Ok (-1) s | Some i \<Rightarrow>
      bind (lamportLock (pid (cur s)) s) (\<lambda>_ s. sem_round i s))"

definition sem_wait_resume :: "nat \<Rightarrow> nat option \<Rightarrow> 'a semst_scheme \<Rightarrow> (int, 'a semst_scheme) res" where
  "sem_wait_resume i tmp s =
     (let s = sleep_on_resume tmp s in
      bind (lamportLock (pid (cur s)) s) (\<lambda>_ s. sem_round i s))"

definition sys_sem_post :: "u32 option \<Rightarrow> 'a semst_scheme \<Rightarrow> (int, 'a semst_scheme) res" where
  "sys_sem_post p s =
     (case p of None \<Rightarrow> Ok (-1) s | Some v \<Rightarrow>
      case find_idx (\<lambda>e. v = sem_index e) (semarray s) of None \<Rightarrow> Ok (-1) s | Some i \<Rightarrow>
      bind (lamportLock (pid (cur s)) s) (\<lambda>_ s.
      let s = set_sem i (\<lambda>e. e\<lparr>semvalue := semvalue e + 1\<rparr>) s;
          s = lamportUnlock (pid (cur s)) s in
      case wake_up (sem_waiting (semarray s ! i)) s of (q, s) \<Rightarrow>
        Ok 0 (set_sem i (\<lambda>e. e\<lparr>sem_waiting := q\<rparr>) s)))"

definition sys_sem_unlink :: "u32 \<Rightarrow> 'a semst_scheme \<Rightarrow> int \<times> 'a semst_scheme" where
  "sys_sem_unlink nm s =
     (if nm = 0 then (-1, s)
      else
        let k = kername nm s in
        case find_idx (\<lambda>e. sem_name e = k) (semarray s) of
          None \<Rightarrow> (-1, s)
        | Some i \<Rightarrow>
            let s = set_sem i (\<lambda>e. e\<lparr>sem_count := sem_count e - 1\<rparr>) s in
            (0, if sem_count (semarray s ! i) = 0
                then set_sem i (\<lambda>e. e\<lparr>sem_name := [], sem_index := 0, semvalue := 0, sem_waiting := None\<rparr>) s
                else s))"

subsection \<open>The table\<close>

text \<open>A slot is free, or it has its own number, a name and users; no name is used twice.\<close>

definition wf_sem :: "'a semst_scheme \<Rightarrow> bool" where
  "wf_sem s \<longleftrightarrow> length (semarray s) = SEM_NUM \<and>
     (\<forall>i < SEM_NUM. let e = semarray s ! i in
        if sem_name e = [] then sem_index e = 0 else sem_index e = of_nat i + 1 \<and> sem_count e \<noteq> 0) \<and>
     (\<forall>i < SEM_NUM. \<forall>j < SEM_NUM. sem_name (semarray s ! i) \<noteq> [] \<longrightarrow>
        sem_name (semarray s ! i) = sem_name (semarray s ! j) \<longrightarrow> i = j)"

text \<open>The abstract table: which names are open, with their value and number of users.\<close>

definition sem_map :: "'a semst_scheme \<Rightarrow> u8 list \<Rightarrow> (u32 \<times> u32) option" where
  "sem_map s k =
     (if k = [] then None
      else map_option (\<lambda>i. (semvalue (semarray s ! i), sem_count (semarray s ! i)))
             (find_idx (\<lambda>e. sem_name e = k) (semarray s)))"

lemma sem_map_Nil: "sem_map s [] = None"
  by (simp add: sem_map_def)

lemma slot_number: "i < SEM_NUM \<Longrightarrow> (of_nat i + 1 :: u32) \<noteq> 0"
proof
  assume "i < SEM_NUM" "(of_nat i + 1 :: u32) = 0"
  then have "(of_nat (Suc i) :: u32) = 0" by (simp add: add.commute)
  moreover have "unat (of_nat (Suc i) :: u32) = Suc i"
    by (rule unat_of_nat_small) (use \<open>i < SEM_NUM\<close> in \<open>simp add: SEM_NUM_def\<close>)
  ultimately show False by simp
qed

lemma wf_semD:
  assumes "wf_sem s" and "i < SEM_NUM"
  shows "sem_name (semarray s ! i) = [] \<Longrightarrow> sem_index (semarray s ! i) = 0"
    and "sem_name (semarray s ! i) \<noteq> [] \<Longrightarrow> sem_index (semarray s ! i) = of_nat i + 1 \<and> sem_count (semarray s ! i) \<noteq> 0"
    and "sem_index (semarray s ! i) = 0 \<longleftrightarrow> sem_name (semarray s ! i) = []"
    and "sem_name (semarray s ! i) \<noteq> [] \<Longrightarrow> j < SEM_NUM \<Longrightarrow>
      sem_name (semarray s ! i) = sem_name (semarray s ! j) \<Longrightarrow> i = j"
  using assms slot_number [of i] unfolding wf_sem_def Let_def by (auto split: if_splits)

lemma find_name:
  assumes "wf_sem s" and "i < SEM_NUM" and "sem_name (semarray s ! i) = k" and "k \<noteq> []"
  shows "find_idx (\<lambda>e. sem_name e = k) (semarray s) = Some i"
  using assms wf_semD(4) [OF assms(1), of _ i] unfolding find_idx_Some_iff
  by (metis (no_types, lifting) less_trans nat_neq_iff wf_sem_def)

lemma sem_map_at:
  assumes "wf_sem s" and "i < SEM_NUM" and "sem_name (semarray s ! i) = k" and "k \<noteq> []"
  shows "sem_map s k = Some (semvalue (semarray s ! i), sem_count (semarray s ! i))"
  using find_name [OF assms] assms(4) by (simp add: sem_map_def)

lemma sem_map_none:
  assumes "wf_sem s" and "\<forall>i < SEM_NUM. sem_name (semarray s ! i) \<noteq> k"
  shows "sem_map s k = None"
proof -
  have "length (semarray s) = SEM_NUM" using assms(1) by (simp add: wf_sem_def)
  then have "find_idx (\<lambda>e. sem_name e = k) (semarray s) = None"
    using assms(2) by (auto simp: find_idx_None_iff in_set_conv_nth)
  then show ?thesis by (simp add: sem_map_def)
qed

lemma wf_sem_set:
  assumes wf: "wf_sem s" and i: "i < SEM_NUM"
    and ok: "if sem_name (f (semarray s ! i)) = [] then sem_index (f (semarray s ! i)) = 0
       else sem_index (f (semarray s ! i)) = of_nat i + 1 \<and> sem_count (f (semarray s ! i)) \<noteq> 0"
    and nm: "\<And>j. sem_name (f (semarray s ! i)) \<noteq> [] \<Longrightarrow> j < SEM_NUM \<Longrightarrow> j \<noteq> i \<Longrightarrow>
       sem_name (semarray s ! j) \<noteq> sem_name (f (semarray s ! i))"
  shows "wf_sem (set_sem i f s)"
proof -
  have len: "length (semarray s) = SEM_NUM" using wf by (simp add: wf_sem_def)
  have nth: "semarray (set_sem i f s) ! j = (if j = i then f (semarray s ! i) else semarray s ! j)"
    if "j < SEM_NUM" for j
    using that i len by (simp add: set_sem_def nth_list_update)
  show ?thesis
    unfolding wf_sem_def Let_def
  proof (intro conjI allI impI)
    show "length (semarray (set_sem i f s)) = SEM_NUM" using len by (simp add: set_sem_def)
  next
    fix j assume j: "j < SEM_NUM"
    show "if sem_name (semarray (set_sem i f s) ! j) = [] then sem_index (semarray (set_sem i f s) ! j) = 0
      else sem_index (semarray (set_sem i f s) ! j) = of_nat j + 1 \<and> sem_count (semarray (set_sem i f s) ! j) \<noteq> 0"
      unfolding nth [OF j] using ok wf_semD(1,2) [OF wf j] by (cases "j = i") auto
  next
    fix j k assume jk: "j < SEM_NUM" "k < SEM_NUM" "sem_name (semarray (set_sem i f s) ! j) \<noteq> []"
      "sem_name (semarray (set_sem i f s) ! j) = sem_name (semarray (set_sem i f s) ! k)"
    show "j = k"
    proof (rule ccontr)
      assume "j \<noteq> k"
      with jk nm [of j] nm [of k] wf_semD(4) [OF wf jk(1), of k] show False
        unfolding nth [OF jk(1)] nth [OF jk(2)] by (auto split: if_splits)
    qed
  qed
qed

lemma sem_map_set:
  assumes wf: "wf_sem s" and i: "i < SEM_NUM" and wf': "wf_sem (set_sem i f s)"
  shows "sem_map (set_sem i f s) k =
     (if k = [] then None
      else if sem_name (f (semarray s ! i)) = k
      then Some (semvalue (f (semarray s ! i)), sem_count (f (semarray s ! i)))
      else if sem_name (semarray s ! i) = k then None else sem_map s k)"
proof -
  have len: "length (semarray s) = SEM_NUM" using wf by (simp add: wf_sem_def)
  have nth: "semarray (set_sem i f s) ! j = (if j = i then f (semarray s ! i) else semarray s ! j)"
    if "j < SEM_NUM" for j
    using that i len by (simp add: set_sem_def nth_list_update)
  show ?thesis
  proof (cases "k \<noteq> [] \<and> (\<exists>j < SEM_NUM. sem_name (semarray (set_sem i f s) ! j) = k)")
    case True
    then obtain j where j: "k \<noteq> []" "j < SEM_NUM" "sem_name (semarray (set_sem i f s) ! j) = k" by blast
    from sem_map_at [OF wf' j(2,3,1)] have m: "sem_map (set_sem i f s) k =
      Some (semvalue (semarray (set_sem i f s) ! j), sem_count (semarray (set_sem i f s) ! j))" .
    show ?thesis
    proof (cases "j = i")
      case True
      then show ?thesis using m j nth [OF i] by simp
    next
      case False
      have nj: "sem_name (semarray s ! j) = k" using j(3) False unfolding nth [OF j(2)] by simp
      have "sem_name (f (semarray s ! i)) \<noteq> k"
        using wf_semD(4) [OF wf' j(2) _ i] j(1,3) False nth [OF i] by auto
      moreover have "sem_name (semarray s ! i) \<noteq> k"
        using wf_semD(4) [OF wf j(2) _ i] nj j(1) False by auto
      moreover have "sem_map s k = sem_map (set_sem i f s) k"
        unfolding m nth [OF j(2)] using sem_map_at [OF wf j(2) nj j(1)] False by simp
      ultimately show ?thesis using j(1) by simp
    qed
  next
    case False
    show ?thesis
    proof (cases "k = []")
      case True
      then show ?thesis by (simp add: sem_map_def)
    next
      case k: False
      with False have n: "\<forall>j < SEM_NUM. sem_name (semarray (set_sem i f s) ! j) \<noteq> k" by blast
      then have "sem_map (set_sem i f s) k = None" by (rule sem_map_none [OF wf'])
      moreover have "sem_name (f (semarray s ! i)) \<noteq> k" using n i nth [OF i] by metis
      moreover have "sem_map s k = None" if "sem_name (semarray s ! i) \<noteq> k"
      proof (rule sem_map_none [OF wf], intro allI impI)
        fix j assume j: "j < SEM_NUM"
        from n j have "sem_name (semarray (set_sem i f s) ! j) \<noteq> k" by blast
        with that show "sem_name (semarray s ! j) \<noteq> k" unfolding nth [OF j] by (cases "j = i") auto
      qed
      ultimately show ?thesis using k by simp
    qed
  qed
qed

text \<open>
  C9: on a well-formed table, opening a non-empty name does what the flags promise on the map from
  open names to values and user counts: an open name gains a user, or fails under
  \<open>O_CREAT | O_EXCL\<close>; a new name is created with its value and one user under \<open>O_CREAT\<close>, when a
  slot is free; every failure changes nothing. No other name is affected, the table stays
  well-formed and the handle returned is that of the name.
\<close>

theorem sem_open_refines:
  assumes wf: "wf_sem s" and nm: "nm \<noteq> 0" "kername nm s \<noteq> []"
    and cnt: "\<forall>v c. sem_map s (kername nm s) = Some (v, c) \<longrightarrow> c + 1 \<noteq> 0"
    and op: "sys_sem_open nm oflag val s = (r, t)"
  shows "wf_sem t \<and>
     (case sem_map s (kername nm s) of
        Some (v, c) \<Rightarrow>
          if oflag AND O_CREAT \<noteq> 0 \<and> oflag AND O_EXCL \<noteq> 0 then r = None \<and> t = s
          else r \<noteq> None \<and> sem_map t = (sem_map s)(kername nm s \<mapsto> (v, c + 1))
      | None \<Rightarrow>
          if oflag AND O_CREAT \<noteq> 0 \<and> (\<exists>i < SEM_NUM. sem_name (semarray s ! i) = [])
          then r \<noteq> None \<and> sem_map t = (sem_map s)(kername nm s \<mapsto> (val, 1))
          else r = None \<and> t = s) \<and>
     (\<forall>i. r = Some i \<longrightarrow> i < SEM_NUM \<and> sem_name (semarray t ! i) = kername nm s \<and>
        sem_index (semarray t ! i) = of_nat i + 1)"
proof -
  let ?k = "kername nm s"
  have len: "length (semarray s) = SEM_NUM" using wf by (simp add: wf_sem_def)
  show ?thesis
  proof (cases "find_idx (\<lambda>e. sem_name e = ?k) (semarray s)")
    case (Some i)
    note f = find_idx_SomeD [OF Some]
    have i: "i < SEM_NUM" using f(1) len by simp
    let ?e = "semarray s ! i"
    have m: "sem_map s ?k = Some (semvalue ?e, sem_count ?e)" by (rule sem_map_at [OF wf i f(2) nm(2)])
    show ?thesis
    proof (cases "oflag AND O_CREAT \<noteq> 0 \<and> oflag AND O_EXCL \<noteq> 0")
      case True
      then have "r = None" "t = s" using op nm Some by (auto simp: sys_sem_open_def Let_def)
      with True wf m show ?thesis by simp
    next
      case False
      let ?g = "\<lambda>e. e\<lparr>sem_count := sem_count e + 1\<rparr>"
      have rt: "r = Some i" "t = set_sem i ?g s" using op nm Some False
        by (auto simp: sys_sem_open_def Let_def)
      have wft: "wf_sem (set_sem i ?g s)"
        using wf_semD(2,4) [OF wf i] f(2) nm(2) cnt m by (intro wf_sem_set [OF wf i]) auto
      have "sem_map t = (sem_map s)(?k \<mapsto> (semvalue ?e, sem_count ?e + 1))"
        using f(2) nm(2) by (intro ext) (simp add: rt(2) sem_map_set [OF wf i wft] sem_map_Nil)
      moreover have "semarray t ! i = ?g ?e" using i len by (simp add: rt(2) set_sem_def)
      ultimately show ?thesis
        using False wft m rt f(2) i wf_semD(2) [OF wf i] nm(2) by auto
    qed
  next
    case None
    then have none: "sem_name (semarray s ! j) \<noteq> ?k" if "j < SEM_NUM" for j
      using that len by (auto simp: find_idx_None_iff)
    have m: "sem_map s ?k = None" using none by (intro sem_map_none [OF wf]) blast
    have free: "sem_index (semarray s ! j) = 0 \<longleftrightarrow> sem_name (semarray s ! j) = []" if "j < SEM_NUM" for j
      using wf_semD(3) [OF wf that] .
    show ?thesis
    proof (cases "oflag AND O_CREAT \<noteq> 0 \<and> (\<exists>i < SEM_NUM. sem_name (semarray s ! i) = [])")
      case False
      have "find_idx (\<lambda>e. sem_index e = 0) (semarray s) = None" if "oflag AND O_CREAT \<noteq> 0"
        using False that free len by (auto simp: find_idx_None_iff in_set_conv_nth)
      then have "r = None" "t = s" using op nm None
        by (auto simp: sys_sem_open_def Let_def split: if_splits)
      with False wf m show ?thesis by auto
    next
      case True
      then obtain i where i: "i < SEM_NUM" "sem_index (semarray s ! i) = 0" using free by blast
      then have "\<exists>e \<in> set (semarray s). sem_index e = 0" using len nth_mem by metis
      then obtain j where j: "find_idx (\<lambda>e. sem_index e = 0) (semarray s) = Some j"
        using find_idx_None_iff [of "\<lambda>e. sem_index e = 0" "semarray s"]
        by (cases "find_idx (\<lambda>e. sem_index e = 0) (semarray s)") auto
      have jn: "j < SEM_NUM" "sem_name (semarray s ! j) = []"
        using find_idx_SomeD(1,2) [OF j] len free by auto
      let ?g = "\<lambda>e. e\<lparr>sem_name := ?k, sem_index := of_nat j + 1, semvalue := val, sem_waiting := None, sem_count := 1\<rparr>"
      have rt: "r = Some j" "t = set_sem j ?g s" using op nm None True j
        by (auto simp: sys_sem_open_def Let_def)
      have wft: "wf_sem (set_sem j ?g s)"
        using none nm(2) by (intro wf_sem_set [OF wf jn(1)]) auto
      have "sem_map t = (sem_map s)(?k \<mapsto> (val, 1))"
        using jn nm(2) m by (intro ext) (simp add: rt(2) sem_map_set [OF wf jn(1) wft] sem_map_Nil)
      moreover have "semarray t ! j = ?g (semarray s ! j)" using jn len by (simp add: rt(2) set_sem_def)
      ultimately show ?thesis using True wft m rt jn by auto
    qed
  qed
qed

definition demo_sem :: "unit semst_scheme" where
  "demo_sem = shm.extend (kern.extend (boot_kern\<lparr>user := (\<lambda>_. 0)(0x1000 := 115)\<rparr>) (shm.fields []))
     (semst.fields
       (replicate SEM_NUM \<lparr>sem_index = 0, sem_name = [], semvalue = 0, sem_waiting = None, sem_count = 0\<rparr>)
       (replicate NR_TASKS \<lparr>lpid = 0, lchoosing = False, lnum = 0\<rparr>))"

lemma demo_sem_simps [simp]:
  "semarray demo_sem =
     replicate SEM_NUM \<lparr>sem_index = 0, sem_name = [], semvalue = 0, sem_waiting = None, sem_count = 0\<rparr>"
  "lamparray demo_sem = replicate NR_TASKS \<lparr>lpid = 0, lchoosing = False, lnum = 0\<rparr>"
  "user demo_sem = (\<lambda>_. 0)(0x1000 := 115)"
  by (simp_all add: demo_sem_def kern.extend_def shm.extend_def shm.fields_def semst.fields_def boot_kern_def)

lemma demo_sem_facts:
  "wf_sem demo_sem" "kername 0x1000 demo_sem = [115]" "sem_map demo_sem [115] = None"
proof -
  show "wf_sem demo_sem" by (simp add: wf_sem_def)
  show "kername 0x1000 demo_sem = [115]"
  proof -
    have e: "(19 :: nat) = Suc (Suc 17)" by simp
    show ?thesis unfolding kername_def e read_name.simps by (simp add: get_fs_byte_def)
  qed
  show "sem_map demo_sem [115] = None"
    by (simp add: sem_map_def find_idx_None_iff in_set_replicate)
qed

theorem sem_open_refines_witness:
  "\<exists>i t. sys_sem_open 0x1000 0x40 5 demo_sem = (Some i, t) \<and> wf_sem t \<and>
     sem_map t = (sem_map demo_sem)([115] \<mapsto> (5, 1))"
proof -
  obtain r t where rt: "sys_sem_open 0x1000 0x40 5 demo_sem = (r, t)" by fastforce
  have c: "\<forall>v c. sem_map demo_sem (kername 0x1000 demo_sem) = Some (v, c) \<longrightarrow> c + 1 \<noteq> 0"
    by (simp add: demo_sem_facts)
  have free: "\<exists>i < SEM_NUM. sem_name (semarray demo_sem ! i) = []"
    by (intro exI [of _ 0]) (simp add: SEM_NUM_def)
  have flag: "(0x40 :: u32) AND O_CREAT \<noteq> 0" by (simp add: O_CREAT_def)
  have "kername 0x1000 demo_sem \<noteq> []" "(0x1000 :: u32) \<noteq> 0" by (simp_all add: demo_sem_facts)
  note o = sem_open_refines [OF demo_sem_facts(1) this(2,1) c rt, unfolded demo_sem_facts option.case
    if_P [OF conjI [OF flag free]]]
  from o [THEN conjunct1] o [THEN conjunct2, THEN conjunct1] rt show ?thesis by blast
qed

subsection \<open>Slots of the lock are never given back\<close>

lemma lamp_find_own:
  assumes "lamp_find n i d p l = (True, k)"
  shows "i \<le> k \<and> k < i + n \<and> lpid (l ! k) = p"
  using assms by (induction n i d p l rule: lamp_find.induct) (force split: if_splits)+

lemma lamp_find_full:
  assumes "\<forall>j. i \<le> j \<and> j < i + n \<longrightarrow> lpid (l ! j) \<noteq> p \<and> lpid (l ! j) \<noteq> 0"
  shows "lamp_find n i d p l = (False, d)"
  using assms by (induction n i d p l rule: lamp_find.induct) auto

lemma lamp_max_zero: "(\<And>j. lnum (l ! j) \<le> 0 \<or> j \<notin> {1..<NR_TASKS}) \<Longrightarrow> lamp_max k l = 0"
proof -
  assume z: "\<And>j. lnum (l ! j) \<le> 0 \<or> j \<notin> {1..<NR_TASKS}"
  have "fold (\<lambda>j m. if j \<noteq> k \<and> m < lnum (l ! j) then lnum (l ! j) else m) js 0 = 0"
    if "set js \<subseteq> {1..<NR_TASKS}" for js
    using that
  proof (induction js)
    case (Cons j js)
    then show ?case using z [of j] by (auto simp: not_less)
  qed simp
  from this [of "[1..<NR_TASKS]"] show ?thesis by (simp add: lamp_max_def)
qed

lemma lamp_find_found:
  assumes "i \<le> k" and "k < i + n" and "lpid (l ! k) = p"
  shows "\<exists>j. lamp_find n i d p l = (True, j)"
  using assms
proof (induction n i d p l rule: lamp_find.induct)
  case (2 n i d p l)
  then show ?case by (cases "k = i") auto
qed simp

lemma lamp_take_full:
  assumes idle: "\<forall>e \<in> set l. \<not> lchoosing e \<and> lnum e = 0" and len: "length l = NR_TASKS"
    and full: "\<forall>j \<in> {1..<NR_TASKS}. lpid (l ! j) \<notin> {0, p}"
  shows "lamp_take p l = (0, l[0 := (l ! 0)\<lparr>lpid := p, lchoosing := False, lnum := 1\<rparr>])"
proof -
  have f: "lamp_find (NR_TASKS - 1) 1 0 p l = (False, 0)"
    using full by (intro lamp_find_full) (auto simp: NR_TASKS_def)
  have nz: "l[0 := e] ! 0 = e" for e using len by (simp add: NR_TASKS_def)
  have m: "lamp_max 0 (l[0 := (l ! 0)\<lparr>lpid := p\<rparr>]) = 0"
  proof (rule lamp_max_zero)
    fix j show "lnum (l[0 := (l ! 0)\<lparr>lpid := p\<rparr>] ! j) \<le> 0 \<or> j \<notin> {1..<NR_TASKS}"
      using idle len nth_mem [of j l] by (cases "j \<in> {1..<NR_TASKS}") auto
  qed
  show ?thesis unfolding lamp_take_def f Let_def by (simp add: m nz)
qed

text \<open>
  C39: the slots of the lock are never given back. When all 63 belong to processes that have gone,
  a new process takes slot 0, gets the lock, and \<open>lamportUnlock\<close> does not find its slot: the lock
  stays taken, and any process that has a slot waits for ever when it asks for the lock, although
  nobody holds it.
\<close>

theorem lamp_exhausted_hangs:
  assumes idle: "\<forall>e \<in> set (lamparray s). \<not> lchoosing e \<and> lnum e = 0"
    and len: "length (lamparray s) = NR_TASKS"
    and full: "\<forall>j \<in> {1..<NR_TASKS}. lpid (lamparray s ! j) \<notin> {0, p}"
    and k: "k \<in> {1..<NR_TASKS}" "lpid (lamparray s ! k) = q"
  shows "\<exists>t. lamportLock p s = Ok () t \<and> lamportUnlock p t = t \<and> lamportLock q t = Hang"
proof -
  let ?l = "lamparray s"
  let ?l' = "?l[0 := (?l ! 0)\<lparr>lpid := p, lchoosing := False, lnum := 1\<rparr>]"
  let ?t = "s\<lparr>lamparray := ?l'\<rparr>"
  have pos: "0 < length ?l" using len by (simp add: NR_TASKS_def)
  have other: "?l' ! j = ?l ! j" if "j \<noteq> 0" for j using that by simp
  have zero: "\<not> lchoosing (?l ! j) \<and> lnum (?l ! j) = 0" if "j < NR_TASKS" for j
    using idle len that nth_mem by metis
  have "\<not> lamp_blocks ?l' 0 j" if "j < NR_TASKS" for j
    using zero [OF that] pos by (cases "j = 0") (auto simp: lamp_blocks_def)
  then have lock: "lamportLock p s = Ok () ?t"
    unfolding lamportLock_def lamp_take_full [OF idle len full] by auto
  have nf: "lamp_find (NR_TASKS - 1) 1 0 p ?l' = (False, 0)"
    using full by (intro lamp_find_full) (auto simp: NR_TASKS_def)
  then have unlock: "lamportUnlock p ?t = ?t" unfolding lamportUnlock_def by simp
  obtain i where i: "lamp_find (NR_TASKS - 1) 1 0 q ?l' = (True, i)"
    using lamp_find_found [of 1 k "NR_TASKS - 1" ?l' q] k by (auto simp: NR_TASKS_def)
  have i1: "1 \<le> i" "i < NR_TASKS" using lamp_find_own [OF i] by (auto simp: NR_TASKS_def)
  have m: "lamp_max i ?l' = 0"
  proof (rule lamp_max_zero)
    fix j show "lnum (?l' ! j) \<le> 0 \<or> j \<notin> {1..<NR_TASKS}"
      using zero [of j] by (cases "j \<in> {1..<NR_TASKS}") auto
  qed
  have "lamp_blocks (?l'[i := (?l' ! i)\<lparr>lchoosing := False, lnum := 1\<rparr>]) i 0"
    using i1 len pos by (simp add: lamp_blocks_def)
  moreover have "lamp_take q ?l' = (i, ?l'[i := (?l' ! i)\<lparr>lchoosing := False, lnum := 1\<rparr>])"
    unfolding lamp_take_def i Let_def by (simp add: m)
  ultimately have "lamportLock q ?t = Hang"
    by (auto simp: lamportLock_def NR_TASKS_def)
  with lock unlock show ?thesis by blast
qed

theorem lamp_exhausted_hangs_witness:
  "\<exists>t. lamportLock 100 (demo_sem\<lparr>lamparray := replicate NR_TASKS
       \<lparr>lpid = 7, lchoosing = False, lnum = 0\<rparr>\<rparr>) = Ok () t \<and>
     lamportUnlock 100 t = t \<and> lamportLock 7 t = Hang"
  by (rule lamp_exhausted_hangs [where k = 3]) (simp_all add: NR_TASKS_def)

end
