(* ===== verification/Timers.thy ===== *)
theory Timers
  imports Sem
begin

text \<open>
  The clock interrupt of \<open>kernel/sched.c\<close>: the list of timers, the floppy motor timers and
  \<open>do_timer\<close>. The list is kept in its order from \<open>next_timer\<close>, each entry with the ticks it has
  to wait after the entry before it and the number of its function; a slot of \<open>timer_list\<close> is in
  use exactly when it is on the list. The functions themselves, which other drivers register, are
  the parameter \<open>call\<close>; \<open>selected\<close> belongs to the floppy driver. Port output has no effect here.
\<close>

definition TIME_REQUESTS :: nat where
  "TIME_REQUESTS = 64"

record timers = semst +
  next_timer :: "(int \<times> nat) list"
  mon_timer :: "int list"
  moff_timer :: "int list"
  wait_motor :: "nat option list"
  current_DOR :: u8
  beepcount :: int

subsection \<open>The timer list\<close>

text \<open>The loop that moves a new timer down the list by exchanging contents with the next entry.\<close>

fun timer_sift :: "int \<times> nat \<Rightarrow> (int \<times> nat) list \<Rightarrow> (int \<times> nat) list" where
  "timer_sift (j, f) [] = [(j, f)]"
| "timer_sift (j, f) ((k, g) # rest) =
     (if k < j then (k, g) # timer_sift (j - k, f) rest else (j, f) # (k, g) # rest)"

definition add_timer ::
    "(nat \<Rightarrow> 'a timers_scheme \<Rightarrow> 'a timers_scheme) \<Rightarrow> int \<Rightarrow> nat option \<Rightarrow> 'a timers_scheme \<Rightarrow>
     (unit, 'a timers_scheme) res" where
  "add_timer call j fn s =
     (case fn of
        None \<Rightarrow> Ok () s
      | Some f \<Rightarrow>
          if j \<le> 0 then Ok () (call f s)
          else if TIME_REQUESTS \<le> length (next_timer s) then Panic ''No more time requests free''
          else Ok () (s\<lparr>next_timer := timer_sift (j, f) (next_timer s)\<rparr>))"

fun run_timers ::
    "nat \<Rightarrow> (nat \<Rightarrow> 'a timers_scheme \<Rightarrow> 'a timers_scheme) \<Rightarrow> 'a timers_scheme \<Rightarrow>
     (unit, 'a timers_scheme) res" where
  "run_timers 0 call s = Hang"
| "run_timers (Suc fuel) call s =
     (case next_timer s of
        [] \<Rightarrow> Ok () s
      | (j, f) # rest \<Rightarrow>
          if j \<le> 0 then run_timers fuel call (call f (s\<lparr>next_timer := rest\<rparr>)) else Ok () s)"

definition tick_timers ::
    "nat \<Rightarrow> (nat \<Rightarrow> 'a timers_scheme \<Rightarrow> 'a timers_scheme) \<Rightarrow> 'a timers_scheme \<Rightarrow>
     (unit, 'a timers_scheme) res" where
  "tick_timers fuel call s =
     (case next_timer s of
        [] \<Rightarrow> Ok () s
      | (j, f) # rest \<Rightarrow> run_timers fuel call (s\<lparr>next_timer := (j - 1, f) # rest\<rparr>))"

subsection \<open>The floppy motor timers\<close>

definition ticks_to_floppy_on ::
    "bool \<Rightarrow> nat \<Rightarrow> 'a timers_scheme \<Rightarrow> (int, 'a timers_scheme) res" where
  "ticks_to_floppy_on selected nr s =
     (if 3 < nr then Panic ''floppy_on: nr>3''
      else
        let s = s\<lparr>moff_timer := (moff_timer s)[nr := 10000]\<rparr>;
            mask = push_bit nr 0x10 OR current_DOR s;
            mask = (if selected then mask else (mask AND 0xFC) OR of_nat nr);
            s = (if mask \<noteq> current_DOR s
                 then s\<lparr>mon_timer :=
                     (if (mask XOR current_DOR s) AND 0xF0 \<noteq> 0
                      then (mon_timer s)[nr := HZ div 2]
                      else if mon_timer s ! nr < 2 then (mon_timer s)[nr := 2]
                      else mon_timer s),
                   current_DOR := mask\<rparr>
                 else s) in
        Ok (mon_timer s ! nr) s)"

text \<open>\<open>floppy_on\<close> up to its first \<open>sleep_on\<close>, after which it asks again.\<close>

definition floppy_on :: "bool \<Rightarrow> nat \<Rightarrow> 'a timers_scheme \<Rightarrow> (unit, 'a timers_scheme) res" where
  "floppy_on selected nr s =
     bind (ticks_to_floppy_on selected nr s) (\<lambda>ticks s.
     if ticks = 0 then Ok () s
     else bind (sleep_on_enter (wait_motor s ! nr) s) (\<lambda>q t.
       Sleeps (t\<lparr>wait_motor := (wait_motor t)[nr := q]\<rparr>)))"

definition floppy_off :: "nat \<Rightarrow> 'a timers_scheme \<Rightarrow> 'a timers_scheme" where
  "floppy_off nr s = s\<lparr>moff_timer := (moff_timer s)[nr := 3 * HZ]\<rparr>"

definition floppy_tick :: "nat \<Rightarrow> 'a timers_scheme \<Rightarrow> 'a timers_scheme" where
  "floppy_tick i s =
     (let mask = push_bit i 0x10 :: u8 in
      if mask AND current_DOR s = 0 then s
      else if mon_timer s ! i \<noteq> 0 then
        let s = s\<lparr>mon_timer := (mon_timer s)[i := mon_timer s ! i - 1]\<rparr> in
        if mon_timer s ! i = 0
        then case wake_up (wait_motor s ! i) s of (q, s) \<Rightarrow>
               s\<lparr>wait_motor := (wait_motor s)[i := q]\<rparr>
        else s
      else if moff_timer s ! i = 0 then s\<lparr>current_DOR := current_DOR s AND NOT mask\<rparr>
      else s\<lparr>moff_timer := (moff_timer s)[i := moff_timer s ! i - 1]\<rparr>)"

definition do_floppy_timer :: "'a timers_scheme \<Rightarrow> 'a timers_scheme" where
  "do_floppy_timer s = fold floppy_tick [0, 1, 2, 3] s"

subsection \<open>The clock tick\<close>

definition account :: "int \<Rightarrow> 'a timers_scheme \<Rightarrow> 'a timers_scheme" where
  "account cpl s =
     (let s = (if beepcount s \<noteq> 0 then s\<lparr>beepcount := beepcount s - 1\<rparr> else s) in
      if cpl \<noteq> 0 then upd_cur (\<lambda>p. p\<lparr>utime := utime p + 1\<rparr>) s
      else upd_cur (\<lambda>p. p\<lparr>stime := stime p + 1\<rparr>) s)"

definition use_slice :: "int \<Rightarrow> 'a timers_scheme \<Rightarrow> (unit, 'a timers_scheme) res" where
  "use_slice cpl s =
     (let s = upd_cur (\<lambda>p. p\<lparr>counter := counter p - 1\<rparr>) s in
      if 0 < counter (cur s) then Ok () s
      else
        let s = upd_cur (\<lambda>p. p\<lparr>counter := 0\<rparr>) s in
        if cpl = 0 then Ok () s else schedule s)"

definition do_timer ::
    "nat \<Rightarrow> (nat \<Rightarrow> 'a timers_scheme \<Rightarrow> 'a timers_scheme) \<Rightarrow> int \<Rightarrow> 'a timers_scheme \<Rightarrow>
     (unit, 'a timers_scheme) res" where
  "do_timer fuel call cpl s =
     bind (tick_timers fuel call (account cpl s)) (\<lambda>_ s.
     use_slice cpl (if current_DOR s AND 0xF0 \<noteq> 0 then do_floppy_timer s else s))"

subsection \<open>Deadlines\<close>

text \<open>The times at which the timers of a list are due, seen from the time \<open>now\<close>.\<close>

fun deadlines :: "int \<Rightarrow> (int \<times> nat) list \<Rightarrow> (int \<times> nat) list" where
  "deadlines now [] = []"
| "deadlines now ((d, f) # rest) = (now + d, f) # deadlines (now + d) rest"

definition wf_timers :: "(int \<times> nat) list \<Rightarrow> bool" where
  "wf_timers l \<longleftrightarrow> (\<forall>(d, f) \<in> set l. 0 \<le> d)"

lemma wf_timers_Cons [simp]: "wf_timers ((d, f) # l) \<longleftrightarrow> 0 \<le> d \<and> wf_timers l"
  by (simp add: wf_timers_def)

lemma wf_timers_Nil [simp]: "wf_timers []"
  by (simp add: wf_timers_def)

lemma deadlines_mono:
  "wf_timers l \<Longrightarrow> (d, f) \<in> set (deadlines now l) \<Longrightarrow> now \<le> d"
proof (induction now l rule: deadlines.induct)
  case (2 now e g rest)
  then show ?case by (cases "(d, f) = (now + e, g)") fastforce+
qed simp

lemma deadlines_shift: "deadlines (now + k) l = map (\<lambda>(d, f). (d + k, f)) (deadlines now l)"
  by (induction now l arbitrary: k rule: deadlines.induct) (simp_all add: algebra_simps)

lemma sorted_deadlines: "wf_timers l \<Longrightarrow> sorted (map fst (deadlines now l))"
  by (induction now l rule: deadlines.induct) (auto dest: deadlines_mono)

lemma timer_sift_deadlines:
  assumes "wf_timers l"
  shows "\<exists>A B k. deadlines now l = A @ B \<and> (\<forall>x \<in> set A. fst x < now + j) \<and>
     (\<forall>x \<in> set B. now + j \<le> fst x) \<and>
     deadlines now (timer_sift (j, f) l) = A @ (now + j, f) # map (\<lambda>(d, g). (d + k, g)) B \<and>
     k = now + j - (if A = [] then now else fst (last A))"
  using assms
proof (induction "(j, f)" l arbitrary: j f now rule: timer_sift.induct)
  case (1 j f)
  show ?case by (intro exI [of _ "[]"]) simp
next
  case (2 j f k g rest)
  show ?case
  proof (cases "k < j")
    case True
    have jj: "now + k + (j - k) = now + j" by simp
    from 2(2) have "wf_timers rest" by simp
    from 2(1) [OF True this, of "now + k", unfolded jj] obtain A B m where
      "deadlines (now + k) rest = A @ B" "\<forall>x \<in> set A. fst x < now + j"
      "\<forall>x \<in> set B. now + j \<le> fst x"
      "deadlines (now + k) (timer_sift (j - k, f) rest) =
         A @ (now + j, f) # map (\<lambda>(d, g). (d + m, g)) B"
      "m = now + j - (if A = [] then now + k else fst (last A))" by blast
    with True show ?thesis
      by (intro exI [of _ "(now + k, g) # A"] exI [of _ B] exI [of _ m]) simp
  next
    case False
    with 2(2) have "\<forall>x \<in> set (deadlines (now + k) rest). now + j \<le> fst x"
      using deadlines_mono [of rest _ _ "now + k"] by force
    moreover have "now + j + k = now + k + j" by simp
    then have "deadlines (now + j + k) rest = map (\<lambda>(d, f). (d + j, f)) (deadlines (now + k) rest)"
      by (simp only: deadlines_shift)
    ultimately show ?thesis
      using False
      by (intro exI [of _ "[]"] exI [of _ "deadlines now ((k, g) # rest)"] exI [of _ j]) simp
  qed
qed

lemma wf_timer_sift: "wf_timers l \<Longrightarrow> 0 \<le> j \<Longrightarrow> wf_timers (timer_sift (j, f) l)"
  by (induction "(j, f)" l arbitrary: j rule: timer_sift.induct) auto

lemma length_timer_sift [simp]: "length (timer_sift x l) = Suc (length l)"
  by (induction x l rule: timer_sift.induct) auto

text \<open>
  A timer added for \<open>j\<close> ticks from now is due in \<open>j\<close> ticks and is put in its place in the order
  of the deadlines; the timers due before it keep theirs, and every timer due with it or later is
  postponed, by the time between the new timer's deadline and the deadline before it. (The code
  does not take the new timer's ticks off its successor.)
\<close>

theorem add_timer_deadlines:
  assumes "wf_timers (next_timer s)" and "0 < j" and "length (next_timer s) < TIME_REQUESTS"
  shows "\<exists>t A B k. add_timer call j (Some f) s = Ok () t \<and> wf_timers (next_timer t) \<and>
     deadlines now (next_timer s) = A @ B \<and>
     (\<forall>x \<in> set A. fst x < now + j) \<and> (\<forall>x \<in> set B. now + j \<le> fst x) \<and>
     deadlines now (next_timer t) = A @ (now + j, f) # map (\<lambda>(d, g). (d + k, g)) B \<and>
     k = now + j - (if A = [] then now else fst (last A)) \<and> 0 < k"
proof -
  let ?t = "s\<lparr>next_timer := timer_sift (j, f) (next_timer s)\<rparr>"
  have "add_timer call j (Some f) s = Ok () ?t" using assms by (simp add: add_timer_def)
  moreover obtain A B k where ABk: "deadlines now (next_timer s) = A @ B"
     "\<forall>x \<in> set A. fst x < now + j" "\<forall>x \<in> set B. now + j \<le> fst x"
     "deadlines now (next_timer ?t) = A @ (now + j, f) # map (\<lambda>(d, g). (d + k, g)) B"
     "k = now + j - (if A = [] then now else fst (last A))"
    using timer_sift_deadlines [OF assms(1), of now j f] by auto
  moreover have "0 < k" using ABk(2,5) assms(2) by auto
  moreover have "wf_timers (next_timer ?t)" using assms wf_timer_sift by simp
  ultimately show ?thesis by blast
qed

text \<open>The state of \<open>sched.c\<close> at boot.\<close>

definition boot_timers :: timers where
  "boot_timers = semst.extend (shm.extend (kern.extend boot_kern (shm.fields [])) (semst.fields [] []))
     (timers.fields [] [0, 0, 0, 0] [0, 0, 0, 0] [None, None, None, None] 0x0C 0)"

lemma next_timer_boot [simp]: "next_timer boot_timers = []"
  by (simp add: boot_timers_def semst.extend_def timers.fields_def)

theorem add_timer_deadlines_witness:
  "\<exists>t. add_timer (\<lambda>_ s. s) 5 (Some 9) (boot_timers\<lparr>next_timer := [(3, 7), (4, 8)]\<rparr>) = Ok () t \<and>
     deadlines 100 [(3, 7), (4, 8)] = [(103, 7), (107, 8)] \<and>
     deadlines 100 (next_timer t) = [(103, 7), (105, 9), (109, 8)]"
proof -
  let ?s = "boot_timers\<lparr>next_timer := [(3, 7), (4, 8)]\<rparr>"
  obtain t where t: "add_timer (\<lambda>_ s. s) 5 (Some 9) ?s = Ok () t"
    using add_timer_deadlines [of ?s 5 "\<lambda>_ s. s" 9 100]
    by (auto simp: TIME_REQUESTS_def)
  then have "next_timer t = [(3, 7), (2, 9), (4, 8)]"
    by (auto simp: add_timer_def TIME_REQUESTS_def)
  with t show ?thesis by simp
qed

subsection \<open>Expiry\<close>

lemma run_timers_fires:
  assumes call: "\<And>f (s :: 'a timers_scheme) l. call f (s\<lparr>next_timer := l\<rparr>) = (call f s)\<lparr>next_timer := l\<rparr>"
    and "length (next_timer s) < fuel"
  shows "run_timers fuel call s =
     Ok () ((fold call (map snd (takeWhile (\<lambda>x. fst x \<le> 0) (next_timer s))) s)
              \<lparr>next_timer := dropWhile (\<lambda>x. fst x \<le> 0) (next_timer s)\<rparr>)"
  using assms(2)
proof (induction fuel arbitrary: s)
  case (Suc fuel)
  show ?case
  proof (cases "next_timer s")
    case (Cons x rest)
    obtain j f where x: "x = (j, f)" by fastforce
    have fold: "fold call fs (u\<lparr>next_timer := l\<rparr>) = (fold call fs u)\<lparr>next_timer := l\<rparr>" for fs u l
      by (induction fs arbitrary: u) (simp_all add: call)
    show ?thesis
      using Suc.IH [of "call f (s\<lparr>next_timer := rest\<rparr>)"] Suc.prems Cons x
      by (simp add: call fold)
  qed simp
qed simp

lemma due_deadlines:
  "wf_timers l \<Longrightarrow> map snd (takeWhile (\<lambda>x. fst x \<le> 0) l) =
     map snd (filter (\<lambda>x. fst x \<le> now) (deadlines now l))"
  "wf_timers l \<Longrightarrow> deadlines now (dropWhile (\<lambda>x. fst x \<le> 0) l) =
     filter (\<lambda>x. now < fst x) (deadlines now l)"
proof (induction now l rule: deadlines.induct)
  case (2 now d f rest)
  have "now < fst x" if "0 < d" "x \<in> set (deadlines (now + d) rest)" "wf_timers rest" for x
    using that deadlines_mono [of rest "fst x" "snd x" "now + d"] by simp
  then have later: "filter (\<lambda>x. fst x \<le> now) (deadlines (now + d) rest) = []"
    "filter (\<lambda>x. now < fst x) (deadlines (now + d) rest) = deadlines (now + d) rest"
    if "0 < d" "wf_timers rest"
    using that by (simp_all add: filter_empty_conv filter_id_conv not_le)
  {
    case 1
    then show ?case using 2 later by (cases "d = 0") auto
  next
    case 2
    then show ?case using "2.IH" later by (cases "d = 0") auto
  }
qed simp_all

text \<open>The invariant of the list between two clock ticks: nothing on it is due yet.\<close>

definition wf_next :: "(int \<times> nat) list \<Rightarrow> bool" where
  "wf_next l \<longleftrightarrow> wf_timers l \<and> (\<forall>x \<in> set (take 1 l). 0 < fst x)"

text \<open>
  C33: at a clock tick the timers due at the new time, and only they, are called, each once and in
  the order of their deadlines; the others stay on the list with the deadlines they had. The loop
  ends: its fuel need only exceed the number of timers. (For functions that leave the list alone.)
\<close>

theorem tick_timers_fires:
  assumes wf: "wf_next (next_timer s)" and fuel: "length (next_timer s) < fuel"
    and call: "\<And>f (s :: 'a timers_scheme) l. call f (s\<lparr>next_timer := l\<rparr>) = (call f s)\<lparr>next_timer := l\<rparr>"
  shows "\<exists>l. wf_next l \<and>
     deadlines (now + 1) l = filter (\<lambda>x. now + 1 < fst x) (deadlines now (next_timer s)) \<and>
     tick_timers fuel call s = Ok ()
       ((fold call (map snd (filter (\<lambda>x. fst x \<le> now + 1) (deadlines now (next_timer s)))) s)
          \<lparr>next_timer := l\<rparr>)"
proof (cases "next_timer s")
  case Nil
  moreover have "s\<lparr>next_timer := []\<rparr> = s" using Nil by (metis timers.surjective timers.update_convs(1))
  ultimately show ?thesis by (intro exI [of _ "[]"]) (simp add: tick_timers_def wf_next_def)
next
  case (Cons x rest)
  obtain j f where x: "x = (j, f)" by fastforce
  let ?l = "(j - 1, f) # rest"
  let ?d = "dropWhile (\<lambda>x. fst x \<le> 0) ?l"
  have wfl: "wf_timers ?l" using wf Cons x by (simp add: wf_next_def)
  have dl: "deadlines (now + 1) ?l = deadlines now (next_timer s)"
    by (simp add: Cons x)
  have fold: "fold call fs (u\<lparr>next_timer := l\<rparr>) = (fold call fs u)\<lparr>next_timer := l\<rparr>" for fs u l
    by (induction fs arbitrary: u) (simp_all add: call)
  have "tick_timers fuel call s = run_timers fuel call (s\<lparr>next_timer := ?l\<rparr>)"
    by (simp add: tick_timers_def Cons x)
  also have "\<dots> = Ok () ((fold call (map snd (takeWhile (\<lambda>x. fst x \<le> 0) ?l)) s)\<lparr>next_timer := ?d\<rparr>)"
    using run_timers_fires [of call "s\<lparr>next_timer := ?l\<rparr>" fuel, OF call] fuel Cons
    by (simp add: fold)
  finally have "tick_timers fuel call s = \<dots>" .
  moreover have "wf_next ?d"
  proof -
    have "wf_timers ?d" using wfl by (auto simp: wf_timers_def dest: set_dropWhileD)
    moreover have "0 < fst x" if "x \<in> set (take 1 ?d)" for x
      using that hd_dropWhile [of "\<lambda>x. fst x \<le> 0" ?l] by (cases ?d) auto
    ultimately show ?thesis by (simp add: wf_next_def)
  qed
  ultimately show ?thesis
    unfolding due_deadlines(1) [OF wfl, of "now + 1"] dl
    using due_deadlines(2) [OF wfl, of "now + 1", unfolded dl] by blast
qed

theorem tick_timers_fires_witness:
  "\<exists>t. tick_timers 5 (\<lambda>f s. s\<lparr>beepcount := int f\<rparr>)
      (boot_timers\<lparr>next_timer := [(1, 7), (0, 8), (4, 9)]\<rparr>) = Ok () t \<and>
     beepcount t = 8 \<and> deadlines 101 (next_timer t) = [(105, 9)]"
proof -
  let ?s = "boot_timers\<lparr>next_timer := [(1, 7), (0, 8), (4, 9)]\<rparr>"
  let ?call = "\<lambda>f (s :: timers). s\<lparr>beepcount := int f\<rparr>"
  have "\<exists>l. wf_next l \<and>
     deadlines (100 + 1) l = filter (\<lambda>x. 100 + 1 < fst x) (deadlines 100 (next_timer ?s)) \<and>
     tick_timers 5 ?call ?s = Ok ()
       ((fold ?call (map snd (filter (\<lambda>x. fst x \<le> 100 + 1) (deadlines 100 (next_timer ?s)))) ?s)
          \<lparr>next_timer := l\<rparr>)"
    by (rule tick_timers_fires) (simp_all add: wf_next_def)
  then show ?thesis by fastforce
qed

subsection \<open>Time slices\<close>

text \<open>\<open>do_timer\<close> keeps the counters non-negative and takes one tick from the current task only.\<close>

lemma wf_sched_use_slice:
  assumes "wf_sched s" and "use_slice cpl s = Ok () t"
  shows "wf_sched t"
proof -
  have u: "wf_sched (upd_cur (\<lambda>p. p\<lparr>counter := c\<rparr>) s)" if "0 \<le> c" "c < 2 ^ 31" for c
    using assms(1) that by (auto simp: wf_sched_def wf_task_def cur_def)
  have d: "wf_sched (upd_cur (\<lambda>p. p\<lparr>counter := counter p - 1\<rparr>) s)" if "0 < counter (cur s) - 1"
    using assms(1) that by (auto simp: wf_sched_def wf_task_def cur_def upd_cur_def upd_def)
  let ?v = "upd_cur (\<lambda>p. p\<lparr>counter := 0\<rparr>) (upd_cur (\<lambda>p. p\<lparr>counter := counter p - 1\<rparr>) s)"
  have v: "?v = upd_cur (\<lambda>p. p\<lparr>counter := 0\<rparr>) s"
    by (simp add: upd_cur_def upd_def)
  from u [of 0] have wv: "wf_sched ?v" unfolding v by simp
  show ?thesis
    using assms(2) d wv schedule_returns [OF wv]
    by (auto simp: use_slice_def Let_def split: if_splits)
qed

end
