(* ===== verification/WaitQueue.thy ===== *)
theory WaitQueue
  imports Sched
begin

text \<open>
  The tasks of one wait queue as a transition system: the queue variable, the local \<open>tmp\<close> of
  every task that is inside \<open>sleep_on\<close>, and the kernel state. The steps are the pieces of
  \<open>sleep_on\<close> and \<open>wake_up\<close> of theory \<open>Sched\<close>, and task switches in between, in any order.
  The chain of sleepers exists only through the locals; the theorem is that nobody falls out of
  it.
\<close>

inductive wq_step ::
    "nat option \<times> (nat \<Rightarrow> nat option option) \<times> 'a kern_scheme \<Rightarrow>
     nat option \<times> (nat \<Rightarrow> nat option option) \<times> 'a kern_scheme \<Rightarrow> bool" where
  sleep: "\<lbrakk>m (current s) = None; sleep_on_enter q s = Ok q' t\<rbrakk> \<Longrightarrow>
     wq_step (q, m, s) (q', m(current s \<mapsto> q), t)"
| wake: "wake_up q s = (q', t) \<Longrightarrow> wq_step (q, m, s) (q', m, t)"
| resume: "\<lbrakk>m (current s) = Some tmp; state (cur s) = TASK_RUNNING\<rbrakk> \<Longrightarrow>
     wq_step (q, m, s) (q, m(current s := None), sleep_on_resume tmp s)"
| switch: "schedule s = Ok () t \<Longrightarrow> wq_step (q, m, s) (q, m, t)"

inductive_cases wq_stepE [consumes 1, case_names sleep wake resume switch]:
  "wq_step (q, m, s) (q', m', t)"

inductive wq_reachable ::
    "nat option \<times> (nat \<Rightarrow> nat option option) \<times> 'a kern_scheme \<Rightarrow> bool" where
  start: "wq_reachable (None, \<lambda>_. None, s)"
| step: "\<lbrakk>wq_reachable x; wq_step x y\<rbrakk> \<Longrightarrow> wq_reachable y"

text \<open>The tasks found by following the locals \<open>tmp\<close> from a pointer.\<close>

inductive chain :: "(nat \<Rightarrow> nat option option) \<Rightarrow> nat option \<Rightarrow> nat \<Rightarrow> bool"
  for m where
  here: "chain m (Some i) i"
| further: "\<lbrakk>m j = Some tmp; chain m tmp i\<rbrakk> \<Longrightarrow> chain m (Some j) i"

inductive_simps chain_None [simp]: "chain m None i"
inductive_simps chain_Some: "chain m (Some j) i"

definition asleep :: "'a kern_scheme \<Rightarrow> nat \<Rightarrow> bool" where
  "asleep s i \<longleftrightarrow> state (ts s i) \<noteq> TASK_RUNNING"

definition wq_inv ::
    "nat option \<times> (nat \<Rightarrow> nat option option) \<times> 'a kern_scheme \<Rightarrow> bool" where
  "wq_inv = (\<lambda>(q, m, s).
     (\<forall>h. q = Some h \<longrightarrow> m h \<noteq> None \<and> asleep s h) \<and>
     (\<forall>j k. m j = Some (Some k) \<longrightarrow> m k \<noteq> None \<and> asleep s k \<and> q \<noteq> Some k) \<and>
     (\<forall>j j' k. m j = Some (Some k) \<longrightarrow> m j' = Some (Some k) \<longrightarrow> j = j') \<and>
     (\<forall>i. m i \<noteq> None \<longrightarrow> asleep s i \<longrightarrow>
        state (ts s i) = TASK_UNINTERRUPTIBLE \<and>
        (chain m q i \<or> (\<exists>j tmp. m j = Some tmp \<and> \<not> asleep s j \<and> chain m tmp i))))"

subsection \<open>What the kernel routines do to the sleepers\<close>

lemma sched_loop_states:
  "sched_loop fuel s = Ok () t \<Longrightarrow> state (ts t i) = state (ts s i)"
proof (induction fuel arbitrary: s)
  case (Suc fuel)
  then show ?case
    by (auto split: prod.splits if_splits simp: for_tasks_eq recharge_def dest!: Suc.IH)
qed simp

lemma schedule_states:
  assumes "schedule s = Ok () t"
  shows "state (ts s i) \<noteq> TASK_INTERRUPTIBLE \<Longrightarrow> state (ts t i) = state (ts s i)"
  using sched_loop_states [OF assms [unfolded schedule_def], of i]
  by (auto simp: for_tasks_eq check_signals_def Let_def)

lemma chain_mono:
  assumes "chain m x i" and "\<And>j. m j \<noteq> None \<Longrightarrow> m' j = m j"
  shows "chain m' x i"
  using assms(1)
proof induction
  case (further j tmp i)
  then show ?case using assms(2) [of j] by (intro chain.further [of _ j tmp]) simp_all
qed (rule chain.here)

text \<open>A chain from a sleeper never goes through a task that is awake.\<close>

lemma queue_chain_remove:
  assumes "chain m x i" and "\<And>h. x = Some h \<Longrightarrow> asleep s h"
    and "\<And>j k. m j = Some (Some k) \<Longrightarrow> asleep s k" and "\<not> asleep s c"
  shows "chain (m(c := None)) x i"
  using assms(1,2)
proof induction
  case (further j tmp i)
  then have "j \<noteq> c" using assms(4) by auto
  moreover have "chain (m(c := None)) tmp i"
    using further assms(3) [of j] by blast
  moreover have "(m(c := None)) j = Some tmp" using \<open>j \<noteq> c\<close> further(1) by simp
  ultimately show ?case by (intro chain.further)
qed (rule chain.here)

lemma wq_inv_keep:
  assumes "wq_inv (q, m, s)" and "\<And>i. m i \<noteq> None \<Longrightarrow> state (ts t i) = state (ts s i)"
  shows "wq_inv (q, m, t)"
proof -
  have as: "asleep t i = asleep s i" if "m i \<noteq> None" for i
    using assms(2) [OF that] by (simp add: asleep_def)
  note I = assms(1) [unfolded wq_inv_def prod.case]
  show ?thesis
    unfolding wq_inv_def prod.case
  proof (intro conjI allI impI)
    fix i assume "m i \<noteq> None" "asleep t i"
    with as assms(2) I show "state (ts t i) = TASK_UNINTERRUPTIBLE"
      "chain m q i \<or> (\<exists>j tmp. m j = Some tmp \<and> \<not> asleep t j \<and> chain m tmp i)"
      by (metis option.distinct(1))+
  qed (use I as in blast)+
qed

lemma wq_inv_states:
  assumes "wq_inv (q, m, s)" and "m i \<noteq> None"
  shows "state (ts s i) \<noteq> TASK_INTERRUPTIBLE"
  using assms by (auto simp: wq_inv_def asleep_def task_states)

lemma wq_inv_sleep:
  assumes inv: "wq_inv (q, m, s)" and m: "m (current s) = None"
    and enter: "sleep_on_enter q s = Ok q' t"
  shows "wq_inv (q', m(current s \<mapsto> q), t)"
proof -
  let ?c = "current s"
  let ?m = "m(?c \<mapsto> q)"
  from enter have q': "q' = Some ?c"
    and sch: "schedule (upd_cur (set_state TASK_UNINTERRUPTIBLE) s) = Ok () t"
    by (auto simp: sleep_on_enter_def split: if_splits)
  have st: "state (ts t i) = (if i = ?c then TASK_UNINTERRUPTIBLE else state (ts s i))"
    if "?m i \<noteq> None" for i
    using schedule_states [OF sch, of i] wq_inv_states [OF inv, of i] that
    by (auto simp: set_state_def cur_def task_states split: if_splits)
  then have as: "asleep t i = (if i = ?c then True else asleep s i)" if "?m i \<noteq> None" for i
    using that by (auto simp: asleep_def task_states)
  have mono: "chain ?m x i" if "chain m x i" for x i
    by (rule chain_mono [OF that]) (use m in auto)
  have noin: "q \<noteq> Some ?c" "\<And>j. m j \<noteq> Some (Some ?c)"
    using inv [unfolded wq_inv_def prod.case] m by blast+
  show ?thesis
    unfolding wq_inv_def prod.case
  proof (intro conjI allI impI)
    fix h assume "q' = Some h"
    then show "?m h \<noteq> None" "asleep t h" using q' as by auto
  next
    fix j k assume j: "?m j = Some (Some k)"
    then have k: "m k \<noteq> None \<and> asleep s k" using inv by (auto simp: wq_inv_def split: if_splits)
    then show "?m k \<noteq> None" by simp
    show "asleep t k" using k as [of k] by auto
    show "q' \<noteq> Some k" using k m q' by auto
  next
    fix j j' k assume "?m j = Some (Some k)" "?m j' = Some (Some k)"
    then show "j = j'" using inv unfolding wq_inv_def prod.case
      by (metis fun_upd_apply option.inject)
  next
    fix i assume i: "?m i \<noteq> None" "asleep t i"
    show "state (ts t i) = TASK_UNINTERRUPTIBLE"
      using i st [OF i(1)] as [OF i(1)] inv by (auto simp: wq_inv_def split: if_splits)
    show "chain ?m q' i \<or> (\<exists>j tmp. ?m j = Some tmp \<and> \<not> asleep t j \<and> chain ?m tmp i)"
    proof (cases "i = ?c")
      case True
      then show ?thesis using q' by (simp add: chain.here)
    next
      case False
      with i as [OF i(1)] inv consider "chain m q i"
        | j tmp where "m j = Some tmp" "\<not> asleep s j" "chain m tmp i"
        by (auto simp: wq_inv_def)
      then show ?thesis
      proof cases
        case 1
        then show ?thesis using q' mono by (auto intro: chain.further)
      next
        case 2
        then have "?m j = Some tmp" "\<not> asleep t j" using m as [of j] by auto
        with 2 mono show ?thesis by blast
      qed
    qed
  qed
qed

lemma wq_inv_wake:
  assumes inv: "wq_inv (q, m, s)" and w: "wake_up q s = (q', t)"
  shows "wq_inv (q', m, t)"
proof (cases q)
  case None
  with assms show ?thesis by (simp add: wake_up_def)
next
  case (Some h)
  with w have t: "q' = None" "t = upd h (set_state TASK_RUNNING) s" by (simp_all add: wake_up_def)
  have as: "asleep t i = (i \<noteq> h \<and> asleep s i)" "i \<noteq> h \<Longrightarrow> state (ts t i) = state (ts s i)" for i
    by (simp_all add: asleep_def t set_state_def)
  note I = inv [unfolded wq_inv_def prod.case]
  have mh: "m h \<noteq> None" using I Some by blast
  show ?thesis
    unfolding wq_inv_def prod.case
  proof (intro conjI allI impI)
    fix i assume i: "m i \<noteq> None" "asleep t i"
    with as I show "state (ts t i) = TASK_UNINTERRUPTIBLE" by metis
    show "chain m q' i \<or> (\<exists>j tmp. m j = Some tmp \<and> \<not> asleep t j \<and> chain m tmp i)"
    proof (cases "chain m q i")
      case True
      with as(1) i(2) Some mh obtain tmp where "m h = Some tmp" "chain m tmp i"
        by (auto simp: chain_Some)
      with as(1) show ?thesis by blast
    next
      case False
      with i as(1) I show ?thesis by metis
    qed
  next
    fix j k assume "m j = Some (Some k)"
    with I as(1) Some t(1) show "m k \<noteq> None" "asleep t k" "q' \<noteq> Some k" by (blast, metis, simp)
  qed (use I t(1) in blast)+
qed

lemma wq_inv_resume:
  assumes inv: "wq_inv (q, m, s)" and m: "m (current s) = Some tmp"
    and run: "state (cur s) = TASK_RUNNING"
  shows "wq_inv (q, m(current s := None), sleep_on_resume tmp s)"
proof -
  let ?c = "current s"
  let ?m = "m(?c := None)"
  let ?t = "sleep_on_resume tmp s"
  note I = inv [unfolded wq_inv_def prod.case]
  have c: "\<not> asleep s ?c" using run by (simp add: asleep_def cur_def)
  have as: "asleep ?t i = (tmp \<noteq> Some i \<and> asleep s i)"
    "tmp \<noteq> Some i \<Longrightarrow> state (ts ?t i) = state (ts s i)" for i
    by (auto simp: asleep_def sleep_on_resume_def set_state_def split: option.split)
  have keep: "chain ?m x i" if "chain m x i" "\<And>h. x = Some h \<Longrightarrow> asleep s h" for x i
    using queue_chain_remove [OF that _ c] I by blast
  show ?thesis
    unfolding wq_inv_def prod.case
  proof (intro conjI allI impI)
    fix h assume h: "q = Some h"
    then have "h \<noteq> ?c" using I c by blast
    then show "?m h \<noteq> None" using I h by simp
    have "tmp \<noteq> Some h" using I m h by blast
    then show "asleep ?t h" using I h as(1) by blast
  next
    fix j k assume j: "?m j = Some (Some k)"
    then have jc: "j \<noteq> ?c" and mj: "m j = Some (Some k)" by (auto split: if_splits)
    then have "asleep s k" using I by blast
    then show "?m k \<noteq> None" using c I mj by (metis fun_upd_other)
    have "tmp \<noteq> Some k" using I mj m jc by blast
    then show "asleep ?t k" using as(1) \<open>asleep s k\<close> by blast
    show "q \<noteq> Some k" using I mj by blast
  next
    fix j j' k assume "?m j = Some (Some k)" "?m j' = Some (Some k)"
    then show "j = j'" using I by (metis fun_upd_apply option.distinct(1))
  next
    fix i assume i: "?m i \<noteq> None" "asleep ?t i"
    then have si: "asleep s i" "tmp \<noteq> Some i" "m i \<noteq> None" using as(1) by (auto split: if_splits)
    show "state (ts ?t i) = TASK_UNINTERRUPTIBLE" using si as(2) I by metis
    show "chain ?m q i \<or> (\<exists>j tmp'. ?m j = Some tmp' \<and> \<not> asleep ?t j \<and> chain ?m tmp' i)"
    proof -
      consider (head) "chain m q i"
        | (mine) "chain m tmp i"
        | (other) j tmp' where "j \<noteq> ?c" "m j = Some tmp'" "\<not> asleep s j" "chain m tmp' i"
        using I si m by (metis option.inject)
      then show ?thesis
      proof cases
        case head
        then show ?thesis using keep I by blast
      next
        case mine
        then obtain k where k: "tmp = Some k" by (cases tmp) auto
        with m have "m (current s) = Some (Some k)" by simp
        with I have ak: "asleep s k" "m k \<noteq> None" by blast+
        with k mine si(2) obtain tk where tk: "m k = Some tk" "chain m tk i"
          by (auto simp: chain_Some)
        have "k \<noteq> ?c" using ak c by blast
        moreover have "chain ?m tk i"
          using tk I by (intro keep) blast+
        moreover have "\<not> asleep ?t k" using as(1) k by blast
        ultimately show ?thesis using tk(1) by (metis fun_upd_other)
      next
        case other
        have "chain ?m tmp' i" using other I by (intro keep) blast+
        moreover have "\<not> asleep ?t j" using other as(1) by blast
        ultimately show ?thesis using other by (metis fun_upd_other)
      qed
    qed
  qed
qed

lemma wq_inv_reachable:
  "wq_reachable x \<Longrightarrow> wq_inv x"
proof (induction rule: wq_reachable.induct)
  case (start s)
  show ?case by (simp add: wq_inv_def)
next
  case (step x y)
  obtain q m s q' m' t where xy: "x = (q, m, s)" "y = (q', m', t)" by (metis prod.exhaust)
  with step have "wq_step (q, m, s) (q', m', t)" and inv: "wq_inv (q, m, s)" by simp_all
  then have "wq_inv (q', m', t)"
  proof (cases rule: wq_stepE)
    case sleep
    then show ?thesis using wq_inv_sleep inv by blast
  next
    case wake
    then show ?thesis using wq_inv_wake inv by blast
  next
    case (resume tmp)
    then show ?thesis using wq_inv_resume inv by blast
  next
    case switch
    then show ?thesis
      using wq_inv_keep [OF inv, of t] schedule_states wq_inv_states [OF inv] by blast
  qed
  then show ?case by (simp add: xy)
qed

text \<open>
  C7: however sleeping, waking and switching interleave, a task that sleeps on a queue is never
  lost: it is reached from the queue variable through the locals of the sleepers, or from a
  sleeper that has been woken and will wake its predecessor when it runs. In particular, once
  the queue is empty, a task that still sleeps has such a woken task before it.
\<close>

theorem no_sleeper_lost:
  assumes "wq_reachable (q, m, s)" and "m i \<noteq> None" and "state (ts s i) \<noteq> TASK_RUNNING"
  shows "chain m q i \<or>
     (\<exists>j tmp. m j = Some tmp \<and> state (ts s j) = TASK_RUNNING \<and> chain m tmp i)"
  using wq_inv_reachable [OF assms(1)] assms(2,3)
  by (auto simp: wq_inv_def asleep_def)

theorem no_sleeper_lost_witness:
  "\<exists>t. wq_reachable (Some 1, [1 \<mapsto> None], t :: kern) \<and> state (ts t 1) = TASK_UNINTERRUPTIBLE \<and>
     (chain [1 \<mapsto> None] (Some 1) 1 \<or> (\<exists>j tmp. [1 \<mapsto> None] j = Some tmp \<and>
        state (ts t j) = TASK_RUNNING \<and> chain [1 \<mapsto> None] tmp 1))"
proof -
  let ?s = "boot_kern\<lparr>live := (\<lambda>i. i \<le> 1), current := 1\<rparr>"
  let ?u = "upd_cur (set_state TASK_UNINTERRUPTIBLE) ?s"
  have "wf_sched ?u"
    by (auto simp: wf_sched_def wf_task_def MAX_PRIORITY_def boot_kern_def init_task_def set_state_def cur_def)
  then obtain t where t: "schedule ?u = Ok () t" using schedule_returns by blast
  then have "sleep_on_enter None ?s = Ok (Some 1) t" by (simp add: sleep_on_enter_def)
  then have "wq_step (None, \<lambda>_. None, ?s) (Some 1, [1 \<mapsto> None], t)"
    using wq_step.sleep [of "\<lambda>_. None" ?s None "Some 1" t] by simp
  then have r: "wq_reachable (Some 1, [1 \<mapsto> None], t)"
    by (rule wq_reachable.step [OF wq_reachable.start])
  have "state (ts t 1) = TASK_UNINTERRUPTIBLE"
    using schedule_states [OF t, of 1] by (simp add: set_state_def task_states)
  moreover from no_sleeper_lost [OF r, of 1] this
  have "chain [1 \<mapsto> None] (Some 1) 1 \<or> (\<exists>j tmp. [1 \<mapsto> None] j = Some tmp \<and>
     state (ts t j) = TASK_RUNNING \<and> chain [1 \<mapsto> None] tmp 1)"
    by (simp add: task_states)
  ultimately show ?thesis using r by blast
qed

end
