(* ===== verification/Signals.thy ===== *)
theory Signals
  imports UserMem
begin

text \<open>
  \<open>kernel/signal.c\<close>: masks, handlers, and \<open>do_signal\<close>, which builds the frame a handler returns
  through. \<open>do_signal\<close> takes the registers it needs and returns the instruction and stack
  pointers with which the task continues; \<open>do_exit\<close> is the outcome \<open>Exits\<close>.
\<close>

definition SA_NOMASK :: u32 where "SA_NOMASK = 0x40000000"
definition SA_ONESHOT :: u32 where "SA_ONESHOT = 0x80000000"

definition sys_sgetmask :: "'a kern_scheme \<Rightarrow> u32" where
  "sys_sgetmask s = blocked (cur s)"

definition sys_ssetmask :: "u32 \<Rightarrow> 'a kern_scheme \<Rightarrow> u32 \<times> 'a kern_scheme" where
  "sys_ssetmask newmask s =
     (blocked (cur s), upd_cur (\<lambda>p. p\<lparr>blocked := newmask AND NOT (sigbit SIGKILL)\<rparr>) s)"

definition save_old :: "sigact \<Rightarrow> u32 \<Rightarrow> 'a kern_scheme \<Rightarrow> (unit, 'a kern_scheme) res" where
  "save_old from to s =
     bind (verify_area to 16 s) (\<lambda>_ s.
       Ok () (put_fs_long (sa_restorer from) (to + 12) (put_fs_long (sa_flags from) (to + 8)
         (put_fs_long (sa_mask from) (to + 4) (put_fs_long (sa_handler from) to s)))))"

definition get_new :: "u32 \<Rightarrow> 'a kern_scheme \<Rightarrow> sigact" where
  "get_new from s =
     \<lparr>sa_handler = get_fs_long from s, sa_mask = get_fs_long (from + 4) s,
      sa_flags = get_fs_long (from + 8) s, sa_restorer = get_fs_long (from + 12) s\<rparr>"

definition set_action :: "int \<Rightarrow> sigact \<Rightarrow> 'a kern_scheme \<Rightarrow> 'a kern_scheme" where
  "set_action signum a s =
     upd_cur (\<lambda>p. p\<lparr>sigaction := (sigaction p)[nat (signum - 1) := a]\<rparr>) s"

definition action :: "int \<Rightarrow> 'a kern_scheme \<Rightarrow> sigact" where
  "action signum s = sigaction (cur s) ! nat (signum - 1)"

definition sys_signal :: "int \<Rightarrow> u32 \<Rightarrow> u32 \<Rightarrow> 'a kern_scheme \<Rightarrow> u32 \<times> 'a kern_scheme" where
  "sys_signal signum handler restorer s =
     (if signum < 1 \<or> 32 < signum \<or> signum = SIGKILL then (-1, s)
      else (sa_handler (action signum s),
            set_action signum \<lparr>sa_handler = handler, sa_mask = 0,
              sa_flags = SA_ONESHOT OR SA_NOMASK, sa_restorer = restorer\<rparr> s))"

definition sys_sigaction ::
    "int \<Rightarrow> u32 \<Rightarrow> u32 \<Rightarrow> 'a kern_scheme \<Rightarrow> (int, 'a kern_scheme) res" where
  "sys_sigaction signum new oldaction s =
     (if signum < 1 \<or> 32 < signum \<or> signum = SIGKILL then Ok (-1) s
      else
        let tmp = action signum s;
            s = set_action signum (get_new new s) s in
        bind (if oldaction \<noteq> 0 then save_old tmp oldaction s else Ok () s) (\<lambda>_ s.
        let a = action signum s in
        Ok 0 (set_action signum
          (if sa_flags a AND SA_NOMASK \<noteq> 0 then a\<lparr>sa_mask := 0\<rparr>
           else a\<lparr>sa_mask := sa_mask a OR sigbit signum\<rparr>) s)))"

fun put_fs_longs :: "u32 list \<Rightarrow> u32 \<Rightarrow> 'a kern_scheme \<Rightarrow> 'a kern_scheme" where
  "put_fs_longs [] addr s = s"
| "put_fs_longs (v # vs) addr s = put_fs_longs vs (addr + 4) (put_fs_long v addr s)"

definition do_signal ::
    "int \<Rightarrow> u32 \<Rightarrow> u32 \<Rightarrow> u32 \<Rightarrow> u32 \<Rightarrow> u32 \<Rightarrow> u32 \<Rightarrow> 'a kern_scheme \<Rightarrow>
     (u32 \<times> u32, 'a kern_scheme) res" where
  "do_signal signr eax ecx edx eip eflags esp s =
     (let sa = action signr s; handler = sa_handler sa in
      if handler = 1 then Ok (eip, esp) s
      else if handler = 0 then
        if signr = SIGCHLD then Ok (eip, esp) s else Exits (2 ^ nat (signr - 1)) s
      else
        let s = (if sa_flags sa AND SA_ONESHOT \<noteq> 0
                 then set_action signr (sa\<lparr>sa_handler := 0\<rparr>) s else s);
            longs = (if sa_flags sa AND SA_NOMASK \<noteq> 0 then 7 else 8);
            esp = esp - 4 * longs in
        bind (verify_area esp (4 * uint longs) s) (\<lambda>_ s.
        let s = put_fs_longs ([sa_restorer sa, of_int signr] @
                  (if sa_flags sa AND SA_NOMASK = 0 then [blocked (cur s)] else []) @
                  [eax, ecx, edx, eflags, eip]) esp s in
        Ok (handler, esp) (upd_cur (\<lambda>p. p\<lparr>blocked := blocked p OR sa_mask sa\<rparr>) s)))"

subsection \<open>The frame of a handler\<close>

lemma apart_step: "apart a (a + 4 + 4 * of_nat n)" if "n < 1000" for a :: u32
proof -
  define w :: u32 where "w = of_nat (4 + 4 * n)"
  have u: "unat w = 4 + 4 * n"
    unfolding w_def by (rule unat_of_nat_small) (use that in simp)
  then have "w \<noteq> 0" by auto
  then have "unat (- w) = 2 ^ 32 - unat w"
    using unat_sub_if' [of 0 w] by (auto simp: unat_eq_zero)
  then have "4 \<le> w" "4 \<le> - w" using u that by (simp_all add: word_le_nat_alt)
  moreover have "a + 4 + 4 * of_nat n = a + w" by (simp add: w_def)
  moreover have "a - (a + w) = - w" "a + w - a = w" by simp_all
  ultimately show ?thesis unfolding apart_def by (simp only:)
qed

lemma put_fs_longs_simps [simp]:
  "ts (put_fs_longs vs a s) = ts s" "live (put_fs_longs vs a s) = live s"
  "current (put_fs_longs vs a s) = current s" "cur (put_fs_longs vs a s) = cur s"
  "phys (put_fs_longs vs a s) = phys s" "mem_map (put_fs_longs vs a s) = mem_map s"
  by (induction vs a s rule: put_fs_longs.induct) simp_all

lemma get_put_longs_other:
  assumes "\<And>i. i < length vs \<Longrightarrow> apart b (a + 4 * of_nat i)"
  shows "get_fs_long b (put_fs_longs vs a s) = get_fs_long b s"
  using assms
proof (induction vs a s rule: put_fs_longs.induct)
  case (2 v vs a s)
  have "apart b (a + 4 + 4 * of_nat i)" if "i < length vs" for i
    using 2(2) [of "Suc i"] that by (simp add: algebra_simps)
  moreover have "apart b a" using 2(2) [of 0] by simp
  ultimately show ?case using 2(1) by (simp add: get_put_long_other)
qed simp

lemma get_put_longs:
  assumes "length vs < 1000" and "i < length vs"
  shows "get_fs_long (a + 4 * of_nat i) (put_fs_longs vs a s) = vs ! i"
  using assms
proof (induction vs a s arbitrary: i rule: put_fs_longs.induct)
  case (2 v vs a s)
  show ?case
  proof (cases i)
    case 0
    have "get_fs_long a (put_fs_longs vs (a + 4) (put_fs_long v a s)) = get_fs_long a (put_fs_long v a s)"
      using 2(2) by (intro get_put_longs_other apart_step) simp
    with 0 show ?thesis by simp
  next
    case (Suc k)
    with 2 have "get_fs_long (a + 4 + 4 * of_nat k) (put_fs_longs vs (a + 4) (put_fs_long v a s)) = vs ! k"
      by simp
    with Suc show ?thesis by (simp add: algebra_simps)
  qed
qed simp

lemma user_put_longs_outside:
  assumes "4 * length vs \<le> unat (x - a)"
  shows "user (put_fs_longs vs a s) x = user s x"
  using assms
proof (induction vs a s rule: put_fs_longs.induct)
  case (2 v vs a s)
  have far: "4 * length vs + 4 \<le> unat (x - a)" using 2(2) by simp
  have ne: "x \<noteq> a + of_nat k" if "k < 4" for k
  proof
    assume "x = a + of_nat k"
    then have "x - a = of_nat k" by simp
    moreover have "unat (of_nat k :: u32) = k" by (rule unat_of_nat_small) (use that in simp)
    ultimately show False using far that by simp
  qed
  have "unat (x - (a + 4)) = unat (x - a) - 4"
    using far by (simp add: diff_diff_eq [symmetric] unat_sub word_le_nat_alt)
  then have "user (put_fs_longs vs (a + 4) (put_fs_long v a s)) x = user (put_fs_long v a s) x"
    using far 2(1) by simp
  also have "\<dots> = user s x"
    using ne [of 0] ne [of 1] ne [of 2] ne [of 3] by (simp add: put_fs_long_def)
  finally show ?case by simp
qed simp

text \<open>
  C29: when a signal has a handler and the user stack can be written, \<open>do_signal\<close> sends the task
  to the handler with the stack lowered by exactly the frame, which holds, from the top, the
  restorer, the signal, the mask of blocked signals unless \<open>SA_NOMASK\<close>, the saved registers and
  the old instruction pointer; no other byte of the user's memory changes, the handler's mask is
  blocked, and a one-shot handler is reset.
\<close>

theorem do_signal_frame:
  fixes s :: "'a kern_scheme"
  assumes len: "length (sigaction (cur s)) = 32" and sig: "1 \<le> signr" "signr \<le> 32"
    and h: "sa_handler (action signr s) \<noteq> 0" "sa_handler (action signr s) \<noteq> 1"
    and nomask: "nomask = (sa_flags (action signr s) AND SA_NOMASK \<noteq> 0)"
    and frame: "frame = [sa_restorer (action signr s), of_int signr] @
       (if nomask then [] else [blocked (cur s)]) @ [eax, ecx, edx, eflags, eip]"
    and esp': "esp' = esp - 4 * of_nat (length frame)"
    and oneshot: "s1 = (if sa_flags (action signr s) AND SA_ONESHOT \<noteq> 0
       then set_action signr ((action signr s)\<lparr>sa_handler := 0\<rparr>) s else s)"
    and area: "verify_area esp' (4 * int (length frame)) s1 = Ok () u"
  shows "\<exists>t. do_signal signr eax ecx edx eip eflags esp s =
       Ok (sa_handler (action signr s), esp') t \<and>
     (\<forall>i < length frame. get_fs_long (esp' + 4 * of_nat i) t = frame ! i) \<and>
     (\<forall>x. 4 * length frame \<le> unat (x - esp') \<longrightarrow> user t x = user s x) \<and>
     blocked (cur t) = blocked (cur s) OR sa_mask (action signr s) \<and>
     sa_handler (action signr t) =
       (if sa_flags (action signr s) AND SA_ONESHOT \<noteq> 0 then 0 else sa_handler (action signr s))"
proof -
  let ?sa = "action signr s"
  have lf: "length frame = (if nomask then 7 else 8)" by (simp add: frame)
  have u: "user u = user s1" "cur u = cur s1" "current u = current s1"
    using same_tasks_verify_area [OF area] by (simp_all add: same_tasks_def cur_def)
  have s1: "user s1 = user s" "blocked (cur s1) = blocked (cur s)"
    by (simp_all add: oneshot set_action_def)
  have sa1: "sigaction (cur s1) ! nat (signr - 1) =
      (if sa_flags ?sa AND SA_ONESHOT \<noteq> 0 then ?sa\<lparr>sa_handler := 0\<rparr> else ?sa)"
    using len sig by (simp add: oneshot set_action_def action_def)
  let ?v = "put_fs_longs frame esp' u"
  let ?t = "upd_cur (\<lambda>p. p\<lparr>blocked := blocked p OR sa_mask ?sa\<rparr>) ?v"
  have uv: "user ?t = user ?v" by simp
  have "do_signal signr eax ecx edx eip eflags esp s = Ok (sa_handler ?sa, esp') ?t"
    using h area s1(2) u(2) nomask
    by (auto simp: do_signal_def Let_def oneshot [symmetric] esp' frame)
  moreover have "get_fs_long (esp' + 4 * of_nat i) ?t = frame ! i" if "i < length frame" for i
    using get_put_longs [of frame i esp' u] that lf
    by (simp add: get_fs_long_def split: if_splits)
  moreover have "user ?t x = user s x" if "4 * length frame \<le> unat (x - esp')" for x
    using user_put_longs_outside [OF that, of u] u s1 by simp
  ultimately show ?thesis
    using u(2) s1(2) sa1 by (intro exI [of _ ?t]) (simp add: action_def)
qed

theorem do_signal_frame_witness:
  "\<exists>t. do_signal 10 1 2 3 0x400 6 0x8000
      (set_action 10 \<lparr>sa_handler = 0x1000, sa_mask = 5, sa_flags = 0, sa_restorer = 0x2000\<rparr> boot_kern)
      = Ok (0x1000, 0x7FE0) t \<and> get_fs_long 0x7FE0 t = 0x2000 \<and> blocked (cur t) = 5"
proof -
  let ?a = "\<lparr>sa_handler = 0x1000, sa_mask = 5, sa_flags = 0, sa_restorer = 0x2000\<rparr>"
  let ?s = "set_action 10 ?a boot_kern"
  have a: "action 10 ?s = ?a"
    by (simp add: action_def set_action_def cur_def boot_kern_def init_task_def)
  have c: "length (sigaction (cur ?s)) = 32" "blocked (cur ?s) = 0"
    by (simp_all add: set_action_def cur_def boot_kern_def init_task_def)
  have wv: "write_verify x ?s = Ok () ?s" for x
    by (simp add: write_verify_def set_action_def boot_kern_def)
  have "verify_area 0x7FE0 32 ?s = Ok () ?s"
    by (simp add: verify_area_def) (simp add: verify_loop.simps wv)
  with do_signal_frame [OF c(1), where signr = 10 and nomask = False and eax = 1 and ecx = 2
      and edx = 3 and eflags = 6 and eip = "0x400" and esp = "0x8000" and esp' = "0x7FE0"
      and ?s1.0 = ?s and u = ?s and frame = "[0x2000, 10, 0, 1, 2, 3, 6, 0x400]"]
  obtain t where t:
    "do_signal 10 1 2 3 0x400 6 0x8000 ?s = Ok (0x1000, 0x7FE0) t"
    "\<forall>i < 8. get_fs_long (0x7FE0 + 4 * of_nat i) t = [0x2000, 10, 0, 1, 2, 3, 6, 0x400] ! i"
    "blocked (cur t) = 5"
    by (auto simp: a c)
  from t(2) have "get_fs_long 0x7FE0 t = 0x2000" by (auto dest: spec [of _ 0])
  with t show ?thesis by blast
qed

end
