(* ===== verification/Sys.thy ===== *)
theory Sys
  imports UserMem
begin

text \<open>
  \<open>kernel/sys.c\<close>: identities, times, \<open>brk\<close>, process groups and sessions. The ids arrive as
  signed integers and are stored as 16-bit words.
\<close>

text \<open>The calls that are not implemented (\<open>sys_ftime\<close>, \<open>sys_break\<close>, ..., \<open>sys_ulimit\<close>).\<close>

definition sys_ftime :: int where "sys_ftime = - ENOSYS"
definition sys_acct :: int where "sys_acct = - ENOSYS"

definition sys_setregid :: "int \<Rightarrow> int \<Rightarrow> 'a kern_scheme \<Rightarrow> int \<times> 'a kern_scheme" where
  "sys_setregid rgid new_egid s =
     (if 0 < rgid \<and> \<not> (uint (gid (cur s)) = rgid \<or> suser s) then (- EPERM, s)
      else
        let s = (if 0 < rgid then upd_cur (\<lambda>p. p\<lparr>gid := of_int rgid\<rparr>) s else s) in
        if 0 < new_egid then
          if uint (gid (cur s)) = new_egid \<or> uint (egid (cur s)) = new_egid \<or>
             uint (sgid (cur s)) = new_egid \<or> suser s
          then (0, upd_cur (\<lambda>p. p\<lparr>egid := of_int new_egid\<rparr>) s)
          else (- EPERM, s)
        else (0, s))"

definition sys_setgid :: "int \<Rightarrow> 'a kern_scheme \<Rightarrow> int \<times> 'a kern_scheme" where
  "sys_setgid new_gid s = sys_setregid new_gid new_gid s"

definition sys_time :: "u32 \<Rightarrow> 'a kern_scheme \<Rightarrow> (int, 'a kern_scheme) res" where
  "sys_time tloc s =
     (let i = CURRENT_TIME s in
      if tloc \<noteq> 0
      then bind (verify_area tloc 4 s) (\<lambda>_ s. Ok i (put_fs_long (of_int i) tloc s))
      else Ok i s)"

definition sys_setreuid :: "int \<Rightarrow> int \<Rightarrow> 'a kern_scheme \<Rightarrow> int \<times> 'a kern_scheme" where
  "sys_setreuid ruid new_euid s =
     (let old_ruid = uid (cur s) in
      if 0 < ruid \<and> \<not> (uint (euid (cur s)) = ruid \<or> uint old_ruid = ruid \<or> suser s)
      then (- EPERM, s)
      else
        let s = (if 0 < ruid then upd_cur (\<lambda>p. p\<lparr>uid := of_int ruid\<rparr>) s else s) in
        if 0 < new_euid then
          if uint old_ruid = new_euid \<or> uint (euid (cur s)) = new_euid \<or> suser s
          then (0, upd_cur (\<lambda>p. p\<lparr>euid := of_int new_euid\<rparr>) s)
          else (- EPERM, upd_cur (\<lambda>p. p\<lparr>uid := old_ruid\<rparr>) s)
        else (0, s))"

definition sys_setuid :: "int \<Rightarrow> 'a kern_scheme \<Rightarrow> int \<times> 'a kern_scheme" where
  "sys_setuid new_uid s = sys_setreuid new_uid new_uid s"

definition sys_stime :: "u32 \<Rightarrow> 'a kern_scheme \<Rightarrow> int \<times> 'a kern_scheme" where
  "sys_stime tptr s =
     (if \<not> suser s then (- EPERM, s)
      else (0, s\<lparr>startup_time := sint (get_fs_long tptr s) - jiffies s sdiv HZ\<rparr>))"

definition sys_times :: "u32 \<Rightarrow> 'a kern_scheme \<Rightarrow> (int, 'a kern_scheme) res" where
  "sys_times tbuf s =
     (if tbuf \<noteq> 0 then
        bind (verify_area tbuf 16 s) (\<lambda>_ s.
        let s = put_fs_long (of_int (utime (cur s))) tbuf s;
            s = put_fs_long (of_int (stime (cur s))) (tbuf + 4) s;
            s = put_fs_long (of_int (cutime (cur s))) (tbuf + 8) s;
            s = put_fs_long (of_int (cstime (cur s))) (tbuf + 12) s in
        Ok (jiffies s) s)
      else Ok (jiffies s) s)"

definition sys_brk :: "u32 \<Rightarrow> 'a kern_scheme \<Rightarrow> u32 \<times> 'a kern_scheme" where
  "sys_brk end_data_seg s =
     (let s = (if end_code (cur s) \<le> end_data_seg \<and> end_data_seg < start_stack (cur s) - 16384
               then upd_cur (\<lambda>p. p\<lparr>brk := end_data_seg\<rparr>) s else s) in
      (brk (cur s), s))"

fun find_task :: "(nat \<Rightarrow> bool) \<Rightarrow> nat \<Rightarrow> nat \<Rightarrow> nat option" where
  "find_task p i 0 = None"
| "find_task p i (Suc n) = (if p i then Some i else find_task p (Suc i) n)"

definition sys_setpgid :: "int \<Rightarrow> int \<Rightarrow> 'a kern_scheme \<Rightarrow> int \<times> 'a kern_scheme" where
  "sys_setpgid pid0 pgid0 s =
     (let p = (if pid0 = 0 then pid (cur s) else pid0);
          g = (if pgid0 = 0 then pid (cur s) else pgid0) in
      case find_task (\<lambda>i. live s i \<and> pid (ts s i) = p) 0 NR_TASKS of
        None \<Rightarrow> (- ESRCH, s)
      | Some i \<Rightarrow>
          if leader (ts s i) \<noteq> 0 then (- EPERM, s)
          else if session (ts s i) \<noteq> session (cur s) then (- EPERM, s)
          else (0, upd i (\<lambda>t. t\<lparr>pgrp := g\<rparr>) s))"

definition sys_getpgrp :: "'a kern_scheme \<Rightarrow> int" where
  "sys_getpgrp s = pgrp (cur s)"

definition sys_setsid :: "'a kern_scheme \<Rightarrow> int \<times> 'a kern_scheme" where
  "sys_setsid s =
     (if leader (cur s) \<noteq> 0 \<and> \<not> suser s then (- EPERM, s)
      else
        let s = upd_cur (\<lambda>p. p\<lparr>leader := 1, pgrp := pid p, session := pid p, tty := -1\<rparr>) s in
        (pgrp (cur s), s))"

text \<open>The 45 bytes of \<open>thisname\<close>: five fields of 9 characters.\<close>

definition utsname_field :: "string \<Rightarrow> u8 list" where
  "utsname_field x = take 9 (List.map of_char x @ replicate 9 0)"

definition thisname :: "u8 list" where
  "thisname = concat (List.map utsname_field
     [''linux .0'', ''nodename'', ''release '', ''version '', ''machine ''])"

definition sys_uname :: "u32 \<Rightarrow> 'a kern_scheme \<Rightarrow> (int, 'a kern_scheme) res" where
  "sys_uname name s =
     (if name = 0 then Ok (- ERROR_code) s
      else bind (verify_area name 45 s) (\<lambda>_ s. Ok 0 (put_fs_bytes thisname name s)))"

definition sys_umask :: "u16 \<Rightarrow> 'a kern_scheme \<Rightarrow> u16 \<times> 'a kern_scheme" where
  "sys_umask m s = (umask (cur s), upd_cur (\<lambda>p. p\<lparr>umask := m AND 0x1FF\<rparr>) s)"

subsection \<open>Privileges\<close>

lemma upd_cur_same: "(\<And>p. p = cur s \<Longrightarrow> f p = p) \<Longrightarrow> upd_cur f s = s"
  by (simp add: upd_cur_def upd_def cur_def)

lemma upd_cur_twice: "upd_cur f (upd_cur g s) = upd_cur (\<lambda>p. f (g p)) s"
  by (simp add: upd_cur_def upd_def cur_def)

lemma upd_cur_at: "f (cur s) = g (cur s) \<Longrightarrow> upd_cur f s = upd_cur g s"
  by (simp add: upd_cur_def upd_def cur_def)

lemma setreuid_confined:
  assumes "\<not> suser s" and "sys_setreuid ruid eu s = (r, t)"
  shows "r \<in> {0, - EPERM}" and "r = - EPERM \<Longrightarrow> t = s"
    and "uid (cur t) \<in> {uid (cur s), euid (cur s)}" and "euid (cur t) \<in> {uid (cur s), euid (cur s)}"
    and "r = 0 \<Longrightarrow> (if 0 < ruid then uint (uid (cur t)) = ruid else uid (cur t) = uid (cur s)) \<and>
      (if 0 < eu then uint (euid (cur t)) = eu else euid (cur t) = euid (cur s))"
    and "t = upd_cur (\<lambda>p. p\<lparr>uid := uid (cur t), euid := euid (cur t)\<rparr>) s"
proof -
  note d = sys_setreuid_def suser_def Let_def errno_defs
  have undo: "upd_cur (\<lambda>p. p\<lparr>uid := uid (cur s)\<rparr>) (upd_cur (\<lambda>p. p\<lparr>uid := x\<rparr>) s) = s" for x
    unfolding upd_cur_twice by (rule upd_cur_same) simp
  have same: "upd_cur (\<lambda>p. p\<lparr>uid := uid (cur s)\<rparr>) s = s" by (rule upd_cur_same) simp
  show "r \<in> {0, - EPERM}" "r = - EPERM \<Longrightarrow> t = s"
    "uid (cur t) \<in> {uid (cur s), euid (cur s)}" "euid (cur t) \<in> {uid (cur s), euid (cur s)}"
    using assms undo same by (auto simp: d split: if_splits)
  show "r = 0 \<Longrightarrow> (if 0 < ruid then uint (uid (cur t)) = ruid else uid (cur t) = uid (cur s)) \<and>
      (if 0 < eu then uint (euid (cur t)) = eu else euid (cur t) = euid (cur s))"
    using assms by (auto simp: d split: if_splits)
  have one: "upd_cur (\<lambda>p. p\<lparr>uid := x\<rparr>) s = upd_cur (\<lambda>p. p\<lparr>uid := x, euid := euid (cur s)\<rparr>) s"
    "upd_cur (\<lambda>p. p\<lparr>euid := y\<rparr>) s = upd_cur (\<lambda>p. p\<lparr>uid := uid (cur s), euid := y\<rparr>) s"
    "s = upd_cur (\<lambda>p. p\<lparr>uid := uid (cur s), euid := euid (cur s)\<rparr>) s"
    "upd_cur (\<lambda>p. p\<lparr>euid := y\<rparr>) (upd_cur (\<lambda>p. p\<lparr>uid := x\<rparr>) s) = upd_cur (\<lambda>p. p\<lparr>uid := x, euid := y\<rparr>) s"
    for x y
    by (rule upd_cur_at, simp, rule upd_cur_at, simp, rule upd_cur_same [symmetric], simp, simp add: upd_cur_twice)
  have "t = s \<or> (\<exists>x. t = upd_cur (\<lambda>p. p\<lparr>uid := x\<rparr>) s) \<or> (\<exists>y. t = upd_cur (\<lambda>p. p\<lparr>euid := y\<rparr>) s) \<or>
      (\<exists>x y. t = upd_cur (\<lambda>p. p\<lparr>euid := y\<rparr>) (upd_cur (\<lambda>p. p\<lparr>uid := x\<rparr>) s))"
    using assms(2) undo same by (auto simp: sys_setreuid_def Let_def split: if_splits)
  then obtain x y where t: "t = upd_cur (\<lambda>p. p\<lparr>uid := x, euid := y\<rparr>) s" using one by metis
  show "t = upd_cur (\<lambda>p. p\<lparr>uid := uid (cur t), euid := euid (cur t)\<rparr>) s"
    unfolding t by (rule upd_cur_at) simp
qed

text \<open>Without privileges the real group can only be set to what it is.\<close>

lemma setregid_unprivileged:
  assumes "\<not> suser s"
  shows "sys_setregid rgid eg s =
    (if 0 < rgid \<and> uint (gid (cur s)) \<noteq> rgid then (- EPERM, s)
     else if 0 < eg then
       if uint (gid (cur s)) = eg \<or> uint (egid (cur s)) = eg \<or> uint (sgid (cur s)) = eg
       then (0, upd_cur (\<lambda>p. p\<lparr>egid := of_int eg\<rparr>) s) else (- EPERM, s)
     else (0, s))"
proof (cases "0 < rgid \<and> uint (gid (cur s)) \<noteq> rgid")
  case True
  then have "0 < rgid \<and> \<not> (uint (gid (cur s)) = rgid \<or> suser s)" using assms by blast
  then show ?thesis unfolding sys_setregid_def if_P [OF True] by (rule if_P)
next
  case False
  then have no: "\<not> (0 < rgid \<and> \<not> (uint (gid (cur s)) = rgid \<or> suser s))" by blast
  have ns: "suser s = False" using assms by blast
  from False have "(if 0 < rgid then upd_cur (\<lambda>p. p\<lparr>gid := of_int rgid\<rparr>) s else s) = s"
    by (auto intro!: upd_cur_same)
  then show ?thesis
    unfolding sys_setregid_def if_not_P [OF False] if_not_P [OF no] by (simp only: Let_def ns simp_thms)
qed

lemma setregid_confined:
  assumes "\<not> suser s" and "sys_setregid rgid eg s = (q, u)"
  shows "q \<in> {0, - EPERM}" and "q = - EPERM \<Longrightarrow> u = s"
    and "egid (cur u) \<in> {gid (cur s), egid (cur s), sgid (cur s)}"
    and "q = 0 \<Longrightarrow> (if 0 < eg then uint (egid (cur u)) = eg else egid (cur u) = egid (cur s))"
    and "u = upd_cur (\<lambda>p. p\<lparr>egid := egid (cur u)\<rparr>) s"
proof -
  have e: "EPERM \<noteq> 0" by (simp add: errno_defs)
  have w: "of_int x = y" if "uint y = x" for x and y :: "'b::len word" using that by auto
  from assms(2) [unfolded setregid_unprivileged [OF assms(1)]]
  consider (no) "q = - EPERM" "u = s" | (same) "q = 0" "u = s" "\<not> 0 < eg"
    | (set) x where "q = 0" "u = upd_cur (\<lambda>p. p\<lparr>egid := x\<rparr>) s" "0 < eg" "uint x = eg"
        "x \<in> {gid (cur s), egid (cur s), sgid (cur s)}"
    using e by (auto split: if_splits)
  note c = this
  show "q \<in> {0, - EPERM}" "q = - EPERM \<Longrightarrow> u = s"
    "egid (cur u) \<in> {gid (cur s), egid (cur s), sgid (cur s)}"
    "q = 0 \<Longrightarrow> (if 0 < eg then uint (egid (cur u)) = eg else egid (cur u) = egid (cur s))"
    using c e by (cases; simp)+
  show "u = upd_cur (\<lambda>p. p\<lparr>egid := egid (cur u)\<rparr>) s"
    using c by cases (auto intro!: upd_cur_at upd_cur_same [symmetric])
qed

text \<open>
  C35: without the privileges of the superuser, \<open>setreuid\<close> and \<open>setregid\<close> only ever rearrange ids
  the task has: each real and effective user id afterwards is a real or effective one from before,
  the real group stays and the effective one is the real, effective or saved group from before.
  Each call returns 0, with the ids that were asked for in place, or \<open>-EPERM\<close>, with nothing
  changed; and nothing else changes, neither another field of the task nor another task nor the rest
  of the state.
\<close>

theorem set_ids_confined:
  assumes "\<not> suser s" and "sys_setreuid ruid eu s = (r, t)" and "sys_setregid rgid eg s = (q, u)"
  shows "uid (cur t) \<in> {uid (cur s), euid (cur s)} \<and> euid (cur t) \<in> {uid (cur s), euid (cur s)} \<and>
     r \<in> {0, - EPERM} \<and> (r = - EPERM \<longrightarrow> t = s) \<and>
     (r = 0 \<longrightarrow> (if 0 < ruid then uint (uid (cur t)) = ruid else uid (cur t) = uid (cur s)) \<and>
        (if 0 < eu then uint (euid (cur t)) = eu else euid (cur t) = euid (cur s))) \<and>
     t = upd_cur (\<lambda>p. p\<lparr>uid := uid (cur t), euid := euid (cur t)\<rparr>) s \<and>
     egid (cur u) \<in> {gid (cur s), egid (cur s), sgid (cur s)} \<and>
     q \<in> {0, - EPERM} \<and> (q = - EPERM \<longrightarrow> u = s) \<and>
     (q = 0 \<longrightarrow> (if 0 < eg then uint (egid (cur u)) = eg else egid (cur u) = egid (cur s))) \<and>
     u = upd_cur (\<lambda>p. p\<lparr>egid := egid (cur u)\<rparr>) s"
  using setreuid_confined [OF assms(1,2)] setregid_confined [OF assms(1,3)] by blast

theorem set_ids_confined_witness:
  "let s = upd_cur (\<lambda>p. p\<lparr>uid := 7, euid := 8, gid := 7, egid := 9, sgid := 9\<rparr>) boot_kern;
       (r, t) = sys_setreuid 8 7 s; (q, u) = sys_setregid 7 5 s in
   r = 0 \<and> uid (cur t) = 8 \<and> euid (cur t) = 7 \<and> q = - EPERM \<and>
   egid (cur u) \<in> {gid (cur s), egid (cur s), sgid (cur s)}"
proof -
  let ?s = "upd_cur (\<lambda>p. p\<lparr>uid := 7, euid := 8, gid := 7, egid := 9, sgid := 9\<rparr>) boot_kern"
  have ns: "\<not> suser ?s" by simp
  obtain r t q u where rt: "sys_setreuid 8 7 ?s = (r, t)" "sys_setregid 7 5 ?s = (q, u)" by fastforce
  from set_ids_confined [OF ns rt]
  have "egid (cur u) \<in> {gid (cur ?s), egid (cur ?s), sgid (cur ?s)}" by blast
  moreover have "r = 0 \<and> uid (cur t) = 8 \<and> euid (cur t) = 7" using rt(1) ns
    by (auto simp: sys_setreuid_def Let_def)
  moreover have "q = - EPERM" using rt(2) ns by (auto simp: sys_setregid_def Let_def)
  ultimately show ?thesis using rt by (simp add: Let_def)
qed

end
