(* ===== verification/Exit.thy ===== *)
theory Exit
  imports UserMem
begin

text \<open>
  \<open>kernel/exit.c\<close> but for \<open>do_exit\<close>, which needs the file system: releasing a task structure,
  sending signals, \<open>kill\<close> and \<open>waitpid\<close>. A call of \<open>schedule\<close> in the middle of a routine is
  \<open>yield\<close>: the task goes on later if it is still runnable, and \<open>Sleeps\<close> otherwise; the steps
  other tasks take in between are not shown.
\<close>

definition yield :: "'a kern_scheme \<Rightarrow> (unit, 'a kern_scheme) res" where
  "yield s =
     bind (schedule s) (\<lambda>_ t.
       if state (cur s) = TASK_RUNNING then Ok () (t\<lparr>current := current s\<rparr>) else Sleeps t)"

definition release :: "nat option \<Rightarrow> 'a kern_scheme \<Rightarrow> (unit, 'a kern_scheme) res" where
  "release p s =
     (case p of
        None \<Rightarrow> Ok () s
      | Some i \<Rightarrow>
          if slot i \<and> live s i
          then bind (free_page (task_page (ts s i)) (s\<lparr>live := (live s)(i := False)\<rparr>)) (\<lambda>_ s. yield s)
          else Panic ''trying to release non-existent task'')"

definition send_sig :: "int \<Rightarrow> nat option \<Rightarrow> bool \<Rightarrow> 'a kern_scheme \<Rightarrow> int \<times> 'a kern_scheme" where
  "send_sig sig p priv s =
     (case p of
        None \<Rightarrow> (- EINVAL, s)
      | Some i \<Rightarrow>
          if sig < 1 \<or> 32 < sig then (- EINVAL, s)
          else if priv \<or> euid (cur s) = euid (ts s i) \<or> suser s
          then (0, upd i (\<lambda>t. t\<lparr>signal := signal t OR sigbit sig\<rparr>) s)
          else (- EPERM, s))"

definition kill_session :: "'a kern_scheme \<Rightarrow> 'a kern_scheme" where
  "kill_session s =
     (let sess = session (cur s) in
      for_tasks (NR_TASKS - 1) (\<lambda>p. if session p = sess
        then p\<lparr>signal := signal p OR sigbit SIGHUP\<rparr> else p) s)"

text \<open>\<open>task[i]\<close> as the pointer it is.\<close>

definition task :: "'a kern_scheme \<Rightarrow> nat \<Rightarrow> nat option" where
  "task s i = (if live s i then Some i else None)"

fun kill_loop ::
    "nat \<Rightarrow> ('a kern_scheme \<Rightarrow> nat \<Rightarrow> bool) \<Rightarrow> bool \<Rightarrow> int \<Rightarrow> int \<Rightarrow> 'a kern_scheme \<Rightarrow> int \<times> 'a kern_scheme"
  where
  "kill_loop 0 sel priv sig retval s = (retval, s)"
| "kill_loop (Suc n) sel priv sig retval s =
     (if sel s (Suc n)
      then case send_sig sig (task s (Suc n)) priv s of (err, s) \<Rightarrow>
             kill_loop n sel priv sig (if err \<noteq> 0 then err else retval) s
      else kill_loop n sel priv sig retval s)"

definition sys_kill :: "int \<Rightarrow> int \<Rightarrow> 'a kern_scheme \<Rightarrow> int \<times> 'a kern_scheme" where
  "sys_kill p sig s =
     (if p = 0 then
        kill_loop (NR_TASKS - 1) (\<lambda>s i. live s i \<and> pgrp (ts s i) = pid (cur s)) True sig 0 s
      else if 0 < p then
        kill_loop (NR_TASKS - 1) (\<lambda>s i. live s i \<and> pid (ts s i) = p) False sig 0 s
      else if p = -1 then
        kill_loop (NR_TASKS - 1) (\<lambda>s i. True) False sig 0 s
      else
        kill_loop (NR_TASKS - 1) (\<lambda>s i. live s i \<and> pgrp (ts s i) = - p) False sig 0 s)"

fun father_scan :: "nat \<Rightarrow> nat \<Rightarrow> int \<Rightarrow> 'a kern_scheme \<Rightarrow> nat option" where
  "father_scan 0 i p s = None"
| "father_scan (Suc n) i p s =
     (if live s i \<and> pid (ts s i) = p then Some i else father_scan n (Suc i) p s)"

definition tell_father :: "int \<Rightarrow> 'a kern_scheme \<Rightarrow> (unit, 'a kern_scheme) res" where
  "tell_father p s =
     (case (if p \<noteq> 0 then father_scan NR_TASKS 0 p s else None) of
        Some i \<Rightarrow> Ok () (upd i (\<lambda>t. t\<lparr>signal := signal t OR sigbit SIGCHLD\<rparr>) s)
      | None \<Rightarrow> release (Some (current s)) s)"

subsection \<open>Waiting for children\<close>

definition WNOHANG :: int where "WNOHANG = 1"
definition WUNTRACED :: int where "WUNTRACED = 2"

datatype wait_res = Stopped nat | Zombie nat | Nothing bool

text \<open>Is \<open>i\<close> a child that \<open>waitpid(pid)\<close> asks for?\<close>

definition wait_match :: "int \<Rightarrow> 'a kern_scheme \<Rightarrow> nat \<Rightarrow> bool" where
  "wait_match p s i \<longleftrightarrow>
     live s i \<and> i \<noteq> current s \<and> father (ts s i) = pid (cur s) \<and>
     (if 0 < p then pid (ts s i) = p
      else if p = 0 then pgrp (ts s i) = pgrp (cur s)
      else p = -1 \<or> pgrp (ts s i) = - p)"

fun wait_scan :: "nat \<Rightarrow> int \<Rightarrow> int \<Rightarrow> bool \<Rightarrow> 'a kern_scheme \<Rightarrow> wait_res" where
  "wait_scan 0 p options flag s = Nothing flag"
| "wait_scan (Suc n) p options flag s =
     (if \<not> wait_match p s (Suc n) then wait_scan n p options flag s
      else if state (ts s (Suc n)) = TASK_STOPPED then
        if options AND WUNTRACED = 0 then wait_scan n p options flag s else Stopped (Suc n)
      else if state (ts s (Suc n)) = TASK_ZOMBIE then Zombie (Suc n)
      else wait_scan n p options True s)"

text \<open>
  \<open>sys_waitpid\<close> up to the call of \<open>schedule()\<close> with which it waits. When it runs again,
  \<open>waitpid_resume\<close> says whether it repeats (\<open>None\<close>) or returns an error.
\<close>

definition sys_waitpid :: "int \<Rightarrow> u32 \<Rightarrow> int \<Rightarrow> 'a kern_scheme \<Rightarrow> (int, 'a kern_scheme) res" where
  "sys_waitpid p stat_addr options s =
     bind (verify_area stat_addr 4 s) (\<lambda>_ s.
     case wait_scan (NR_TASKS - 1) p options False s of
       Stopped i \<Rightarrow> Ok (pid (ts s i)) (put_fs_long 0x7F stat_addr s)
     | Zombie i \<Rightarrow>
         let s = upd_cur (\<lambda>c. c\<lparr>cutime := cutime c + utime (ts s i),
                   cstime := cstime c + stime (ts s i)\<rparr>) s;
             code = exit_code (ts s i) in
         bind (release (Some i) s) (\<lambda>_ t.
         Ok (pid (ts s i)) (put_fs_long (of_int code) stat_addr t))
     | Nothing flag \<Rightarrow>
         if flag then
           if options AND WNOHANG \<noteq> 0 then Ok 0 s
           else bind (schedule (upd_cur (set_state TASK_INTERRUPTIBLE) s)) (\<lambda>_ t. Sleeps t)
         else Ok (- ECHILD) s)"

definition waitpid_resume :: "'a kern_scheme \<Rightarrow> int option \<times> 'a kern_scheme" where
  "waitpid_resume s =
     (let s = upd_cur (\<lambda>p. p\<lparr>signal := signal p AND NOT (sigbit SIGCHLD)\<rparr>) s in
      (if signal (cur s) = 0 then None else Some (- EINTR), s))"

subsection \<open>Who gets a signal\<close>

text \<open>What a task sees of a round of \<open>kill_loop\<close>.\<close>

definition sig_result :: "bool \<Rightarrow> int \<Rightarrow> 'a kern_scheme \<Rightarrow> nat \<Rightarrow> int" where
  "sig_result priv sig s i =
     (if \<not> live s i \<or> sig < 1 \<or> 32 < sig then - EINVAL
      else if priv \<or> euid (cur s) = euid (ts s i) \<or> suser s then 0 else - EPERM)"

definition signalled :: "int \<Rightarrow> (nat \<Rightarrow> bool) \<Rightarrow> 'a kern_scheme \<Rightarrow> 'a kern_scheme" where
  "signalled sig A s =
     s\<lparr>ts := (\<lambda>i. if A i then (ts s i)\<lparr>signal := signal (ts s i) OR sigbit sig\<rparr> else ts s i)\<rparr>"

lemma signalled_simps [simp]:
  "live (signalled sig A s) = live s" "current (signalled sig A s) = current s"
  "euid (ts (signalled sig A s) i) = euid (ts s i)" "pid (ts (signalled sig A s) i) = pid (ts s i)"
  "pgrp (ts (signalled sig A s) i) = pgrp (ts s i)" "suser (signalled sig A s) = suser s"
  "euid (cur (signalled sig A s)) = euid (cur s)" "pid (cur (signalled sig A s)) = pid (cur s)"
  by (simp_all add: signalled_def cur_def suser_def)

lemma sig_result_signalled [simp]: "sig_result priv sig (signalled sig' A s) i = sig_result priv sig s i"
  by (simp add: sig_result_def)

lemma send_sig_result:
  "send_sig sig (task s i) priv s =
     (sig_result priv sig s i,
      if sig_result priv sig s i = 0 then signalled sig (\<lambda>j. j = i) s else s)"
  by (auto simp: send_sig_def task_def sig_result_def signalled_def upd_def errno_defs fun_eq_iff
      intro!: arg_cong [where f = "\<lambda>f. ts_update (\<lambda>_. f) s"])

lemma signalled_signalled:
  "signalled sig A (signalled sig B s) = signalled sig (\<lambda>i. A i \<or> B i) s"
  by (auto simp: signalled_def fun_eq_iff intro!: arg_cong [where f = "\<lambda>f. ts_update (\<lambda>_. f) s"])

lemma signalled_none: "(\<And>i. \<not> A i) \<Longrightarrow> signalled sig A s = s"
  by (simp add: signalled_def)

lemma kill_loop_spec:
  assumes sel: "\<And>A s i. sel (signalled sig A s) i = sel s i"
    and "kill_loop n sel priv sig retval s = (r, t)"
  shows "t = signalled sig (\<lambda>i. 1 \<le> i \<and> i \<le> n \<and> sel s i \<and> sig_result priv sig s i = 0) s"
    and "(\<forall>i. 1 \<le> i \<and> i \<le> n \<and> sel s i \<longrightarrow> sig_result priv sig s i = 0) \<and> r = retval \<or>
      (\<exists>i. 1 \<le> i \<and> i \<le> n \<and> sel s i \<and> r = sig_result priv sig s i \<and> r \<noteq> 0)"
proof -
  have "t = signalled sig (\<lambda>i. 1 \<le> i \<and> i \<le> n \<and> sel s i \<and> sig_result priv sig s i = 0) s \<and>
     ((\<forall>i. 1 \<le> i \<and> i \<le> n \<and> sel s i \<longrightarrow> sig_result priv sig s i = 0) \<and> r = retval \<or>
      (\<exists>i. 1 \<le> i \<and> i \<le> n \<and> sel s i \<and> r = sig_result priv sig s i \<and> r \<noteq> 0))"
    using assms(2)
  proof (induction n arbitrary: retval s)
    case 0
    then show ?case by (auto simp: signalled_none)
  next
    case (Suc n)
    define res where "res = sig_result priv sig s (Suc n)"
    show ?case
    proof (cases "sel s (Suc n)")
      case False
      then have "kill_loop n sel priv sig retval s = (r, t)" using Suc.prems by simp
      note IH = Suc.IH [OF this]
      have "(\<lambda>i. 1 \<le> i \<and> i \<le> Suc n \<and> sel s i \<and> sig_result priv sig s i = 0) =
        (\<lambda>i. 1 \<le> i \<and> i \<le> n \<and> sel s i \<and> sig_result priv sig s i = 0)"
        using False by (auto simp: fun_eq_iff le_Suc_eq)
      then show ?thesis using IH False by (auto simp: le_Suc_eq)
    next
      case True
      let ?u = "if res = 0 then signalled sig (\<lambda>j. j = Suc n) s else s"
      have "kill_loop n sel priv sig (if res \<noteq> 0 then res else retval) ?u = (r, t)"
        using Suc.prems True by (simp add: send_sig_result res_def split: if_splits)
      note IH = Suc.IH [OF this]
      have u: "sel ?u i = sel s i" "sig_result priv sig ?u i = sig_result priv sig s i" for i
        by (simp_all add: sel)
      have "t = signalled sig (\<lambda>i. 1 \<le> i \<and> i \<le> Suc n \<and> sel s i \<and> sig_result priv sig s i = 0) s"
      proof (cases "res = 0")
        case True
        with IH u have "t = signalled sig (\<lambda>i. (1 \<le> i \<and> i \<le> n \<and> sel s i \<and>
          sig_result priv sig s i = 0) \<or> i = Suc n) s"
          by (simp add: signalled_signalled)
        moreover have "(\<lambda>i. (1 \<le> i \<and> i \<le> n \<and> sel s i \<and> sig_result priv sig s i = 0) \<or> i = Suc n) =
          (\<lambda>i. 1 \<le> i \<and> i \<le> Suc n \<and> sel s i \<and> sig_result priv sig s i = 0)"
          using True \<open>sel s (Suc n)\<close> by (auto simp: fun_eq_iff le_Suc_eq res_def)
        ultimately show ?thesis by simp
      next
        case False
        have "(\<lambda>i. 1 \<le> i \<and> i \<le> Suc n \<and> sel s i \<and> sig_result priv sig s i = 0) =
          (\<lambda>i. 1 \<le> i \<and> i \<le> n \<and> sel s i \<and> sig_result priv sig s i = 0)"
          using False by (auto simp: fun_eq_iff le_Suc_eq res_def)
        then show ?thesis using IH False by simp
      qed
      then show ?thesis
        using IH True unfolding u by (auto simp: le_Suc_eq res_def split: if_splits)
    qed
  qed
  then show "t = signalled sig (\<lambda>i. 1 \<le> i \<and> i \<le> n \<and> sel s i \<and> sig_result priv sig s i = 0) s"
    and "(\<forall>i. 1 \<le> i \<and> i \<le> n \<and> sel s i \<longrightarrow> sig_result priv sig s i = 0) \<and> r = retval \<or>
      (\<exists>i. 1 \<le> i \<and> i \<le> n \<and> sel s i \<and> r = sig_result priv sig s i \<and> r \<noteq> 0)"
    by blast+
qed

text \<open>The slots \<open>kill\<close> goes through for its argument; for -1, those of no task as well.\<close>

definition kill_sel :: "int \<Rightarrow> 'a kern_scheme \<Rightarrow> nat \<Rightarrow> bool" where
  "kill_sel p s i \<longleftrightarrow> slot i \<and>
     (if p = 0 then live s i \<and> pgrp (ts s i) = pid (cur s)
      else if 0 < p then live s i \<and> pid (ts s i) = p
      else p = -1 \<or> live s i \<and> pgrp (ts s i) = - p)"

text \<open>
  C34: \<open>kill\<close> sets the signal's bit in exactly the tasks its argument selects and that the caller
  may signal (same effective user, or superuser; no check for process group 0), and changes
  nothing else; it returns 0 exactly when no selected slot failed. For -1 an empty slot counts
  as a failure.
\<close>

theorem sys_kill_signals:
  assumes "sys_kill p sig s = (r, t)"
  shows "t = signalled sig (\<lambda>i. kill_sel p s i \<and> sig_result (p = 0) sig s i = 0) s \<and>
     (r = 0 \<longleftrightarrow> (\<forall>i. kill_sel p s i \<longrightarrow> sig_result (p = 0) sig s i = 0)) \<and>
     (r \<noteq> 0 \<longrightarrow> (\<exists>i. kill_sel p s i \<and> r = sig_result (p = 0) sig s i))"
proof -
  let ?sel = "\<lambda>(s :: 'a kern_scheme) i.
     if p = 0 then live s i \<and> pgrp (ts s i) = pid (cur s)
     else if 0 < p then live s i \<and> pid (ts s i) = p
     else p = -1 \<or> live s i \<and> pgrp (ts s i) = - p"
  have k: "kill_loop (NR_TASKS - 1) ?sel (p = 0) sig 0 s = (r, t)"
    using assms by (auto simp: sys_kill_def split: if_splits cong: if_cong)
  have range: "1 \<le> i \<and> i \<le> NR_TASKS - 1 \<and> ?sel s i \<longleftrightarrow> kill_sel p s i" for i
    by (auto simp: kill_sel_def slot_def NR_TASKS_def)
  have inv: "?sel (signalled sig A s) i = ?sel s i" for A i and s :: "'a kern_scheme" by simp
  note spec = kill_loop_spec [of ?sel, OF inv k]
  have "(\<lambda>i. 1 \<le> i \<and> i \<le> NR_TASKS - 1 \<and> ?sel s i \<and> sig_result (p = 0) sig s i = 0) =
      (\<lambda>i. kill_sel p s i \<and> sig_result (p = 0) sig s i = 0)"
    using range by blast
  with spec(1) have "t = signalled sig (\<lambda>i. kill_sel p s i \<and> sig_result (p = 0) sig s i = 0) s"
    by simp
  moreover have "(\<forall>i. kill_sel p s i \<longrightarrow> sig_result (p = 0) sig s i = 0) \<and> r = 0 \<or>
      (\<exists>i. kill_sel p s i \<and> r = sig_result (p = 0) sig s i \<and> r \<noteq> 0)"
    using spec(2) range by blast
  ultimately show ?thesis by blast
qed

theorem sys_kill_signals_witness:
  "let s = boot_kern\<lparr>live := (\<lambda>i. i \<le> 2), ts := (ts boot_kern)(1 := init_task\<lparr>pid := 5\<rparr>)\<rparr>;
       (r, t) = sys_kill 5 9 s in
   r = 0 \<and> signal (ts t 1) = 0x100 \<and> signal (ts t 2) = 0"
proof -
  let ?s = "boot_kern\<lparr>live := (\<lambda>i. i \<le> 2), ts := (ts boot_kern)(1 := init_task\<lparr>pid := 5\<rparr>)\<rparr>"
  obtain r t where rt: "sys_kill 5 9 ?s = (r, t)" by fastforce
  have sel: "kill_sel 5 ?s i \<longleftrightarrow> i = 1" for i
    by (auto simp: kill_sel_def slot_def NR_TASKS_def boot_kern_def init_task_def)
  have res: "sig_result False 9 ?s 1 = 0"
    by (simp add: sig_result_def cur_def boot_kern_def init_task_def suser_def)
  from sys_kill_signals [OF rt] sel res have "t = signalled 9 (\<lambda>i. i = 1) ?s" "r = 0"
    by (auto simp: fun_eq_iff cong: conj_cong)
  then show ?thesis
    using rt by (simp add: signalled_def sigbit_def boot_kern_def init_task_def)
qed

end
