(* ===== verification/Mktime.thy ===== *)
theory Mktime
  imports Prelude
begin

text \<open>
  \<open>kernel/mktime.c\<close>: the seconds since 1970 of a broken-down time. The reference is the
  Gregorian calendar; the code's leap-year arithmetic agrees with it from 1970 to 2099.
\<close>

definition MINUTE :: int where "MINUTE = 60"
definition HOUR :: int where "HOUR = 60 * MINUTE"
definition DAY :: int where "DAY = 24 * HOUR"
definition YEAR :: int where "YEAR = 365 * DAY"

record tm =
  tm_sec :: int
  tm_min :: int
  tm_hour :: int
  tm_mday :: int
  tm_mon :: int
  tm_year :: int

definition month :: "int list" where
  "month = [0, DAY * 31, DAY * (31 + 29), DAY * (31 + 29 + 31), DAY * (31 + 29 + 31 + 30),
     DAY * (31 + 29 + 31 + 30 + 31), DAY * (31 + 29 + 31 + 30 + 31 + 30),
     DAY * (31 + 29 + 31 + 30 + 31 + 30 + 31), DAY * (31 + 29 + 31 + 30 + 31 + 30 + 31 + 31),
     DAY * (31 + 29 + 31 + 30 + 31 + 30 + 31 + 31 + 30),
     DAY * (31 + 29 + 31 + 30 + 31 + 30 + 31 + 31 + 30 + 31),
     DAY * (31 + 29 + 31 + 30 + 31 + 30 + 31 + 31 + 30 + 31 + 30)]"

text \<open>A month outside the table reads outside an array.\<close>

definition kernel_mktime :: "tm \<Rightarrow> int option" where
  "kernel_mktime t =
     (if tm_mon t < 0 \<or> 11 < tm_mon t then None
      else
        let year = tm_year t - 70;
            res = YEAR * year + DAY * ((year + 1) sdiv 4);
            res = res + month ! nat (tm_mon t);
            res = (if 1 < tm_mon t \<and> (year + 2) smod 4 \<noteq> 0 then res - DAY else res);
            res = res + DAY * (tm_mday t - 1);
            res = res + HOUR * tm_hour t;
            res = res + MINUTE * tm_min t in
        Some (long (res + tm_sec t)))"

subsection \<open>The calendar\<close>

definition leap :: "int \<Rightarrow> bool" where
  "leap y \<longleftrightarrow> 4 dvd y \<and> (\<not> 100 dvd y \<or> 400 dvd y)"

definition month_days :: "int \<Rightarrow> int list" where
  "month_days y = [31, if leap y then 29 else 28, 31, 30, 31, 30, 31, 31, 30, 31, 30, 31]"

text \<open>Days from the start of 1970 to the start of the year \<open>1970 + n\<close>, and to a date in it.\<close>

fun days_before_year :: "nat \<Rightarrow> int" where
  "days_before_year 0 = 0"
| "days_before_year (Suc n) = days_before_year n + (if leap (1970 + int n) then 366 else 365)"

definition days_before_month :: "int \<Rightarrow> nat \<Rightarrow> int" where
  "days_before_month y m = sum_list (take m (month_days y))"

definition epoch_seconds :: "tm \<Rightarrow> int" where
  "epoch_seconds t =
     86400 * (days_before_year (nat (tm_year t - 70)) +
       days_before_month (1900 + tm_year t) (nat (tm_mon t)) + (tm_mday t - 1)) +
     3600 * tm_hour t + 60 * tm_min t + tm_sec t"

lemma leap_period:
  assumes "0 \<le> n" "n < 130"
  shows "leap (1970 + n) \<longleftrightarrow> (n + 2) mod 4 = 0"
proof -
  have "4 dvd (1970 + n) \<longleftrightarrow> (n + 2) mod 4 = 0" by presburger
  moreover have "n = 30" if d: "100 dvd (1970 + n)"
  proof -
    from d obtain k where k: "1970 + n = 100 * k" by (rule dvdE)
    then have "19 < k" "k < 21" using assms by simp_all
    then show ?thesis using k by simp
  qed
  ultimately show ?thesis unfolding leap_def by fastforce
qed

lemma days_before_year_closed:
  "n < 131 \<Longrightarrow> days_before_year n = 365 * int n + (int n + 1) div 4"
proof (induction n)
  case (Suc n)
  then show ?case using leap_period [of "int n"] by simp presburger
qed simp

lemma month_table:
  assumes "m < 12"
  shows "month ! m = DAY * (days_before_month y m + (if 1 < m \<and> \<not> leap y then 1 else 0))"
proof -
  have "m \<in> {0, 1, 2, 3, 4, 5, 6, 7, 8, 9, 10, 11}" using assms by (simp, arith)
  then show ?thesis
    by (auto simp: month_def days_before_month_def month_days_def)
qed

lemma days_before_month_bounds: "m < 12 \<Longrightarrow> 0 \<le> days_before_month y m \<and> days_before_month y m \<le> 335"
proof -
  assume "m < 12"
  then have "m \<in> {0, 1, 2, 3, 4, 5, 6, 7, 8, 9, 10, 11}" by (simp, arith)
  then show ?thesis by (auto simp: days_before_month_def month_days_def)
qed

text \<open>Up to the end of 2037 the seconds fit.\<close>

lemma epoch_seconds_fits:
  assumes "70 \<le> tm_year t" "tm_year t < 138" and "0 \<le> tm_mon t" "tm_mon t < 12"
    and "0 \<le> tm_mday t" "tm_mday t \<le> 31" "0 \<le> tm_hour t" "tm_hour t < 24" "0 \<le> tm_min t" "tm_min t < 60"
      "0 \<le> tm_sec t" "tm_sec t < 60"
  shows "long (epoch_seconds t) = epoch_seconds t"
proof -
  have n: "nat (tm_year t - 70) < 131" "int (nat (tm_year t - 70)) = tm_year t - 70" using assms by auto
  have m: "0 \<le> days_before_month (1900 + tm_year t) (nat (tm_mon t))" "days_before_month (1900 + tm_year t) (nat (tm_mon t)) \<le> 335"
    using days_before_month_bounds [of "nat (tm_mon t)"] assms by auto
  have "0 \<le> days_before_year (nat (tm_year t - 70))" "days_before_year (nat (tm_year t - 70)) \<le> 24472"
    unfolding days_before_year_closed [OF n(1)] n(2) using assms by simp_all
  with m assms show ?thesis by (intro long_id) (simp_all add: epoch_seconds_def)
qed

lemma kernel_mktime_epoch:
  assumes "70 \<le> tm_year t" "tm_year t < 200" and "0 \<le> tm_mon t" "tm_mon t < 12"
  shows "kernel_mktime t = Some (long (epoch_seconds t))"
proof -
  define n where "n = nat (tm_year t - 70)"
  define m where "m = nat (tm_mon t)"
  have y: "tm_year t = int n + 70" "n < 130" and mon: "tm_mon t = int m" "m < 12"
    using assms by (auto simp: n_def m_def)
  have sd: "(1 + int n) sdiv 4 = (int n + 1) div 4" "(int n + 2) smod 4 = (int n + 2) mod 4"
    by (simp_all add: signed_divide_int_def signed_modulo_int_def add.commute)
  have lp: "leap (1970 + int n) \<longleftrightarrow> (int n + 2) mod 4 = 0" using leap_period [of "int n"] y by simp
  have d: "days_before_year n = 365 * int n + (int n + 1) div 4"
    using days_before_year_closed y by simp
  have yr: "1900 + tm_year t = 1970 + int n" using y by simp
  have sec: "DAY = 86400" "HOUR = 3600" "MINUTE = 60" "YEAR = 365 * 86400"
    by (simp_all add: DAY_def HOUR_def MINUTE_def YEAR_def)
  show ?thesis
    using mon(2) lp
    by (simp add: kernel_mktime_def epoch_seconds_def yr Let_def month_table [of m "1970 + int n"] sd d
        y(1) mon(1) sec algebra_simps)
qed

text \<open>
  C37: for every month and every year from 1970 to 2099, \<open>kernel_mktime\<close> is the number of seconds
  of the Gregorian calendar since the start of 1970, in 32 bits, although it tests leap years with two sums
  and a table that assumes them. (From 2038 on it wraps around.)
\<close>

theorem kernel_mktime_calendar:
  assumes "70 \<le> tm_year t" "tm_year t < 200" and "0 \<le> tm_mon t" "tm_mon t < 12"
  shows "kernel_mktime t = Some (long (epoch_seconds t))"
  using assms by (rule kernel_mktime_epoch)

theorem kernel_mktime_calendar_witness:
  "kernel_mktime \<lparr>tm_sec = 1, tm_min = 2, tm_hour = 3, tm_mday = 29, tm_mon = 1, tm_year = 100\<rparr>
     = Some 951793321"
proof -
  let ?t = "\<lparr>tm_sec = 1, tm_min = 2, tm_hour = 3, tm_mday = 29, tm_mon = 1, tm_year = 100\<rparr>"
  have "days_before_year 30 = 10957" by (subst days_before_year_closed) simp_all
  then have "epoch_seconds ?t = 951793321"
    by (simp add: epoch_seconds_def days_before_month_def month_days_def)
  with kernel_mktime_calendar [of ?t] show ?thesis by (simp add: long_id)
qed

end
