(* ===== verification/Vsprintf.thy ===== *)
theory Vsprintf
  imports Prelude
begin

text \<open>
  \<open>kernel/vsprintf.c\<close>: printing of numbers and the format interpreter behind \<open>printk\<close>. Characters
  are HOL characters, the output is the list of characters written. An argument is a machine
  word or a string; a conversion applied to the wrong kind of argument, or to none, has no
  defined meaning in C and is the outcome \<open>None\<close>.
\<close>

record flags =
  zeropad :: bool
  sign :: bool
  plus :: bool
  space :: bool
  left :: bool
  special :: bool
  small :: bool

definition is_digit :: "char \<Rightarrow> bool" where
  "is_digit c \<longleftrightarrow> (48 :: nat) \<le> of_char c \<and> of_char c \<le> (57 :: nat)"

fun skip_atoi_from :: "int \<Rightarrow> string \<Rightarrow> int \<times> string" where
  "skip_atoi_from i [] = (i, [])"
| "skip_atoi_from i (c # s) =
     (if is_digit c then skip_atoi_from (i * 10 + of_char c - of_char CHR ''0'') s else (i, c # s))"

definition skip_atoi :: "string \<Rightarrow> int \<times> string" where
  "skip_atoi s = skip_atoi_from 0 s"

definition digits :: "bool \<Rightarrow> string" where
  "digits sm = (if sm then ''0123456789abcdefghijklmnopqrstuvwxyz''
                else ''0123456789ABCDEFGHIJKLMNOPQRSTUVWXYZ'')"

text \<open>\<open>while (num != 0) tmp[i++] = digits[do_div(num, base)]\<close>: least significant digit first.\<close>

fun gen_digits :: "bool \<Rightarrow> nat \<Rightarrow> nat \<Rightarrow> string" where
  "gen_digits sm base n =
     (if n = 0 \<or> base < 2 then [] else digits sm ! (n mod base) # gen_digits sm base (n div base))"

declare gen_digits.simps [simp del]

definition pad :: "int \<Rightarrow> char \<Rightarrow> string" where
  "pad n c = replicate (nat n) c"

text \<open>The output loops, for the digits \<open>tmp\<close>, least significant first.\<close>

definition layout :: "int \<Rightarrow> int \<Rightarrow> bool \<Rightarrow> bool \<Rightarrow> string \<Rightarrow> string \<Rightarrow> string \<Rightarrow> string" where
  "layout sz precision zp lft sg prefix tmp =
     (let c = (if zp then CHR ''0'' else CHR '' '');
          i = int (length tmp);
          precision = (if precision < i then i else precision);
          sz = sz - precision;
          front = (if \<not> zp \<and> \<not> lft then pad sz CHR '' '' else []);
          sz = (if \<not> zp \<and> \<not> lft then min sz 0 - 1 else sz);
          fill = (if \<not> lft then pad sz c else []);
          sz = (if \<not> lft then min sz 0 - 1 else sz) in
      front @ sg @ prefix @ fill @ pad (precision - i) CHR ''0'' @ rev tmp @ pad sz CHR '' '')"

definition number :: "u32 \<Rightarrow> int \<Rightarrow> int \<Rightarrow> int \<Rightarrow> flags \<Rightarrow> string option" where
  "number num base sz precision type =
     (let zp = (zeropad type \<and> \<not> left type) in
      if base < 2 \<or> 36 < base then None
      else
        let neg = (sign type \<and> num <s 0);
            sg = (if neg then ''-'' else if plus type then ''+'' else if space type then '' '' else []);
            num = (if neg then - num else num);
            sz = (if sg \<noteq> [] then sz - 1 else sz);
            sz = (if special type then if base = 16 then sz - 2 else if base = 8 then sz - 1 else sz
                  else sz);
            tmp = (if num = 0 then ''0'' else gen_digits (small type) (nat base) (unat num));
            prefix = (if special type then
                        if base = 8 then ''0''
                        else if base = 16 then [CHR ''0'', digits (small type) ! 33] else []
                      else []) in
        Some (layout sz precision zp (left type) sg prefix tmp))"

subsection \<open>The format interpreter\<close>

datatype varg = VInt u32 | VStr string

definition no_flags :: flags where
  "no_flags = \<lparr>zeropad = False, sign = False, plus = False, space = False, left = False,
     special = False, small = False\<rparr>"

fun parse_flags :: "string \<Rightarrow> flags \<Rightarrow> flags \<times> string" where
  "parse_flags [] f = (f, [])"
| "parse_flags (c # s) f =
     (if c = CHR ''-'' then parse_flags s (f\<lparr>left := True\<rparr>)
      else if c = CHR ''+'' then parse_flags s (f\<lparr>plus := True\<rparr>)
      else if c = CHR '' '' then parse_flags s (f\<lparr>space := True\<rparr>)
      else if c = CHR ''#'' then parse_flags s (f\<lparr>special := True\<rparr>)
      else if c = CHR ''0'' then parse_flags s (f\<lparr>zeropad := True\<rparr>)
      else (f, c # s))"

fun next_int :: "varg list \<Rightarrow> (u32 \<times> varg list) option" where
  "next_int (VInt v # args) = Some (v, args)"
| "next_int _ = None"

fun next_str :: "varg list \<Rightarrow> (string \<times> varg list) option" where
  "next_str (VStr v # args) = Some (v, args)"
| "next_str _ = None"

definition parse_width ::
    "string \<Rightarrow> flags \<Rightarrow> varg list \<Rightarrow> (int \<times> flags \<times> string \<times> varg list) option" where
  "parse_width s f args =
     (case s of
        [] \<Rightarrow> Some (-1, f, s, args)
      | c # r \<Rightarrow>
          if is_digit c then (case skip_atoi s of (w, r) \<Rightarrow> Some (w, f, r, args))
          else if c = CHR ''*'' then
            (case next_int args of
               None \<Rightarrow> None
             | Some (v, args) \<Rightarrow>
                 if sint v < 0 then Some (- sint v, f\<lparr>left := True\<rparr>, s, args)
                 else Some (sint v, f, s, args))
          else Some (-1, f, s, args))"

definition parse_precision :: "string \<Rightarrow> varg list \<Rightarrow> (int \<times> string \<times> varg list) option" where
  "parse_precision s args =
     (case s of
        c # r \<Rightarrow>
          if c = CHR ''.'' then
            (case r of
               [] \<Rightarrow> Some (0, r, args)
             | d # r' \<Rightarrow>
                 if is_digit d then (case skip_atoi r of (p, r) \<Rightarrow> Some (max 0 p, r, args))
                 else if d = CHR ''*'' then
                   (case next_int args of
                      None \<Rightarrow> None
                    | Some (v, args) \<Rightarrow> Some (max 0 (sint v), r, args))
                 else Some (0, r, args))
          else Some (-1, s, args)
      | [] \<Rightarrow> Some (-1, s, args))"

definition parse_qualifier :: "string \<Rightarrow> string" where
  "parse_qualifier s =
     (case s of [] \<Rightarrow> [] | c # r \<Rightarrow>
        if c = CHR ''h'' \<or> c = CHR ''l'' \<or> c = CHR ''L'' then r else s)"

definition put_string :: "string \<Rightarrow> int \<Rightarrow> int \<Rightarrow> bool \<Rightarrow> string" where
  "put_string s width precision lft =
     (let len = (if 0 \<le> precision \<and> precision < int (length s) then precision else int (length s)) in
      if lft then take (nat len) s @ pad (width - len) CHR '' ''
      else pad (width - len) CHR '' '' @ take (nat len) s)"

definition put_char :: "char \<Rightarrow> int \<Rightarrow> bool \<Rightarrow> string" where
  "put_char c width lft =
     (if lft then c # pad (width - 1) CHR '' '' else pad (width - 1) CHR '' '' @ [c])"

text \<open>
  One conversion: the text it writes and the arguments left. \<open>%n\<close> stores the count through a
  pointer, which is the second component of the result.
\<close>

definition convert ::
    "char \<Rightarrow> nat \<Rightarrow> int \<Rightarrow> int \<Rightarrow> flags \<Rightarrow> varg list \<Rightarrow>
     (string \<times> (u32 \<times> nat) list \<times> varg list) option" where
  "convert c len width precision f args =
     (let num = (\<lambda>base width f. case next_int args of None \<Rightarrow> None | Some (v, args) \<Rightarrow>
                   map_option (\<lambda>t. (t, [], args)) (number v base width precision f)) in
      if c = CHR ''c'' then
        (case next_int args of None \<Rightarrow> None | Some (v, args) \<Rightarrow>
           Some (put_char (char_of (unat v)) width (left f), [], args))
      else if c = CHR ''s'' then
        (case next_str args of None \<Rightarrow> None | Some (v, args) \<Rightarrow>
           Some (put_string v width precision (left f), [], args))
      else if c = CHR ''o'' then num 8 width f
      else if c = CHR ''p'' then
        (if width = -1 then num 16 8 (f\<lparr>zeropad := True\<rparr>) else num 16 width f)
      else if c = CHR ''x'' then num 16 width (f\<lparr>small := True\<rparr>)
      else if c = CHR ''X'' then num 16 width f
      else if c = CHR ''d'' \<or> c = CHR ''i'' then num 10 width (f\<lparr>sign := True\<rparr>)
      else if c = CHR ''u'' then num 10 width f
      else if c = CHR ''n'' then
        (case next_int args of None \<Rightarrow> None | Some (v, args) \<Rightarrow> Some ([], [(v, len)], args))
      else Some (if c = CHR ''%'' then [c] else [CHR ''%'', c], [], args))"

text \<open>A directive after its \<open>%\<close>: the conversion it ends in (none at the end of the format).\<close>

definition directive ::
    "string \<Rightarrow> nat \<Rightarrow> varg list \<Rightarrow> (string \<times> (u32 \<times> nat) list \<times> string \<times> varg list) option" where
  "directive s len args =
     (case parse_flags s no_flags of (f, s) \<Rightarrow>
      case parse_width s f args of None \<Rightarrow> None | Some (width, f, s, args) \<Rightarrow>
      case parse_precision s args of None \<Rightarrow> None | Some (precision, s, args) \<Rightarrow>
      case parse_qualifier s of
        [] \<Rightarrow> Some (''%'', [], [], args)
      | c # r \<Rightarrow>
          map_option (\<lambda>(out, st, args). (out, st, r, args)) (convert c len width precision f args))"

lemma length_skip_atoi: "skip_atoi_from i s = (n, r) \<Longrightarrow> length r \<le> length s"
  by (induction i s rule: skip_atoi_from.induct) (auto split: if_splits)

lemma length_parse_flags: "length (snd (parse_flags s f)) \<le> length s"
  by (induction s f rule: parse_flags.induct) auto

lemma length_parse_width:
  "parse_width s f args = Some (w, g, r, a) \<Longrightarrow> length r \<le> length s"
  by (cases s) (auto simp: parse_width_def skip_atoi_def split: if_splits option.splits prod.splits
      dest!: length_skip_atoi)

lemma length_parse_precision:
  assumes "parse_precision s args = Some (p, r, a)"
  shows "length r \<le> length s"
proof (cases s)
  case (Cons c t)
  show ?thesis
    using assms Cons
    by (cases t) (auto simp: parse_precision_def skip_atoi_def split: if_splits option.splits
        prod.splits dest!: length_skip_atoi)
qed (use assms in \<open>simp add: parse_precision_def\<close>)

lemma length_parse_qualifier: "length (parse_qualifier s) \<le> length s"
  by (cases s) (auto simp: parse_qualifier_def)

lemma length_directive:
  assumes "directive s len args = Some (out, st, r, a)"
  shows "length r \<le> length s"
proof -
  obtain f s1 where f: "parse_flags s no_flags = (f, s1)" by fastforce
  with assms obtain w g s2 a2 where w: "parse_width s1 f args = Some (w, g, s2, a2)"
    by (auto simp: directive_def split: option.splits)
  with assms f obtain p s3 a3 where p: "parse_precision s2 a2 = Some (p, s3, a3)"
    by (auto simp: directive_def split: option.splits)
  have "length r \<le> length (parse_qualifier s3)"
    using assms f w p by (auto simp: directive_def split: list.splits)
  with length_parse_flags [of s no_flags] f length_parse_width [OF w] length_parse_precision [OF p]
    length_parse_qualifier [of s3] show ?thesis by simp
qed

text \<open>The loop over the format; \<open>out\<close> is what has been written so far.\<close>

function vsprintf_from ::
    "string \<Rightarrow> string \<Rightarrow> (u32 \<times> nat) list \<Rightarrow> varg list \<Rightarrow> (string \<times> (u32 \<times> nat) list) option" where
  "vsprintf_from [] out st args = Some (out, st)"
| "vsprintf_from (c # s) out st args =
     (if c \<noteq> CHR ''%'' then vsprintf_from s (out @ [c]) st args
      else case directive s (length out) args of
             None \<Rightarrow> None
           | Some (t, st', r, args) \<Rightarrow> vsprintf_from r (out @ t) (st @ st') args)"
  by pat_completeness auto
termination
  by (relation "measure (\<lambda>(s, out, st, args). length s)") (auto dest!: length_directive)

text \<open>The string written and the return value, with the stores of \<open>%n\<close>.\<close>

definition vsprintf :: "string \<Rightarrow> varg list \<Rightarrow> (string \<times> int \<times> (u32 \<times> nat) list) option" where
  "vsprintf fmt args = map_option (\<lambda>(out, st). (out, int (length out), st)) (vsprintf_from fmt [] [] args)"

subsection \<open>What \<open>number\<close> prints\<close>

text \<open>The value of a digit, and of a string of digits, most significant first.\<close>

definition digit_value :: "bool \<Rightarrow> char \<Rightarrow> nat" where
  "digit_value sm c = (case find_idx (\<lambda>d. d = c) (digits sm) of Some i \<Rightarrow> i | None \<Rightarrow> 0)"

definition value_of :: "bool \<Rightarrow> nat \<Rightarrow> string \<Rightarrow> nat" where
  "value_of sm base ds = foldl (\<lambda>v c. v * base + digit_value sm c) 0 ds"

lemma digits_distinct: "distinct (digits sm)"
  by (cases sm) (simp_all add: digits_def)

lemma length_digits: "length (digits sm) = 36"
  by (cases sm) (simp_all add: digits_def)

lemma digit_value_nth: "i < 36 \<Longrightarrow> digit_value sm (digits sm ! i) = i"
proof -
  assume i: "i < 36"
  have "find_idx (\<lambda>d. d = digits sm ! i) (digits sm) = Some i"
    unfolding find_idx_Some_iff
    using i digits_distinct [of sm] by (simp add: length_digits nth_eq_iff_index_eq)
  then show ?thesis by (simp add: digit_value_def)
qed

lemma value_of_gen_digits:
  assumes "2 \<le> base" "base \<le> 36"
  shows "value_of sm base (rev (gen_digits sm base n)) = n"
proof (induction n rule: less_induct)
  case (less n)
  show ?case
  proof (cases "n = 0")
    case True
    then show ?thesis by (simp add: gen_digits.simps value_of_def)
  next
    case False
    then have "gen_digits sm base n = digits sm ! (n mod base) # gen_digits sm base (n div base)"
      using assms by (subst gen_digits.simps) simp
    moreover have "n div base < n" using False assms by (simp add: div_less_dividend)
    moreover have "n mod base < 36" using assms mod_less_divisor [of base n] by linarith
    ultimately show ?thesis
      using less by (simp add: value_of_def digit_value_nth)
  qed
qed

lemma length_pad [simp]: "int (length (pad n c)) = max 0 n"
  by (simp add: pad_def)

lemma set_pad: "set (pad n c) \<subseteq> {c}"
  by (auto simp: pad_def)

text \<open>The number whose digits are printed, and the characters printed besides digits and padding.\<close>

definition magnitude :: "u32 \<Rightarrow> flags \<Rightarrow> nat" where
  "magnitude num t = (if sign t \<and> num <s 0 then nat (- sint num) else unat num)"

definition sign_chars :: "u32 \<Rightarrow> flags \<Rightarrow> string" where
  "sign_chars num t =
     (if sign t \<and> num <s 0 then ''-'' else if plus t then ''+'' else if space t then '' '' else [])"

definition prefix_chars :: "int \<Rightarrow> flags \<Rightarrow> string" where
  "prefix_chars base t =
     (if special t then if base = 8 then ''0''
        else if base = 16 then (if small t then ''0x'' else ''0X'') else []
      else [])"

lemma unat_neg: "num <s 0 \<Longrightarrow> unat (- num) = nat (- sint num)" for num :: u32
proof -
  assume n: "num <s 0"
  then have neg: "sint num < 0" by (simp add: word_sless_alt)
  have "- sint num \<le> 2 ^ 31" using sint_ge [of num] by simp
  moreover have "- num = word_of_int (- sint num)" by simp
  then have "uint (- num) = uint (word_of_int (- sint num) :: u32)" by (rule arg_cong)
  then have "uint (- num) = take_bit 32 (- sint num)" unfolding uint_word_of_int_eq by simp
  ultimately show ?thesis using neg by (simp add: unat_eq_nat_uint take_bit_eq_mod mod_pos_pos_trivial)
qed

text \<open>The digits: none is 0 at the front but for the number 0 itself, and all are below the base.\<close>

definition numeral_of :: "bool \<Rightarrow> nat \<Rightarrow> nat \<Rightarrow> string \<Rightarrow> bool" where
  "numeral_of sm base n body \<longleftrightarrow>
     value_of sm base body = n \<and> (\<forall>c \<in> set body. c \<in> set (take base (digits sm))) \<and>
     body \<noteq> [] \<and> (hd body = CHR ''0'' \<longrightarrow> body = ''0'')"

lemma gen_digits_numeral:
  assumes base: "2 \<le> base" "base \<le> 36"
  shows "0 < n \<Longrightarrow> gen_digits sm base n \<noteq> [] \<and> last (gen_digits sm base n) \<noteq> CHR ''0'' \<and>
    set (gen_digits sm base n) \<subseteq> set (take base (digits sm))"
proof (induction n rule: less_induct)
  case (less n)
  have step: "gen_digits sm base n = digits sm ! (n mod base) # gen_digits sm base (n div base)"
    using less.prems base by (subst gen_digits.simps) simp
  have m: "n mod base < base" using base by simp
  then have "take base (digits sm) ! (n mod base) = digits sm ! (n mod base)" by simp
  with m base have mem: "digits sm ! (n mod base) \<in> set (take base (digits sm))"
    by (metis length_digits length_take min.absorb2 nth_mem)
  have zero: "digits sm ! 0 = CHR ''0''" by (simp add: digits_def)
  show ?case
  proof (cases "n div base = 0")
    case True
    then have "n mod base \<noteq> 0" using less.prems by (metis div_mult_mod_eq add_0 mult_0 less_irrefl)
    moreover have "n mod base < 36" using m base by linarith
    ultimately have "digits sm ! (n mod base) \<noteq> CHR ''0''"
      using digits_distinct [of sm] by (metis zero length_digits nth_eq_iff_index_eq zero_less_numeral)
    moreover have "gen_digits sm base (n div base) = []" using True by (simp add: gen_digits.simps)
    ultimately show ?thesis using mem by (simp add: step)
  next
    case False
    moreover have "n div base < n" using less.prems base by (simp add: div_less_dividend)
    ultimately show ?thesis using less.IH [of "n div base"] mem by (simp add: step)
  qed
qed

lemma number_digits:
  assumes "2 \<le> base" and "base \<le> 36"
  shows "numeral_of sm base n (rev (if n = 0 then ''0'' else gen_digits sm base n))"
proof (cases "n = 0")
  case True
  have "CHR ''0'' \<in> set (take base (digits sm))"
    using assms(1) by (cases base) (auto simp: digits_def)
  moreover have "digit_value sm CHR ''0'' = 0"
    using digit_value_nth [of 0 sm] by (cases sm) (simp_all add: digits_def)
  ultimately show ?thesis using True by (simp add: numeral_of_def value_of_def)
next
  case False
  then show ?thesis
    using value_of_gen_digits [OF assms, of sm n] gen_digits_numeral [OF assms, of n sm]
    by (auto simp: numeral_of_def hd_rev)
qed

text \<open>The three output loops, written as one line: blanks or zeros fill the gap of the field.\<close>

lemma layout_eq:
  defines "blanks \<equiv> \<lambda>n. replicate (nat n) CHR '' ''" and "zeros \<equiv> \<lambda>n. replicate (nat n) CHR ''0''"
  shows "layout sz precision zp lft sg prefix tmp =
    (let gap = sz - max precision (int (length tmp)) in
      (if zp \<or> lft then [] else blanks gap) @ sg @ prefix @ (if zp \<and> \<not> lft then zeros gap else []) @
      zeros (precision - int (length tmp)) @ rev tmp @ (if lft then blanks gap else []))"
proof -
  have mx: "(if p < i then i else p) = max p i" for p i :: int by simp
  have prec: "nat (max p i - i) = nat (p - i)" for p i :: int by (simp add: max_def)
  show ?thesis
    unfolding layout_def Let_def mx blanks_def zeros_def pad_def
    by (cases zp; cases lft) (simp_all add: prec)
qed

text \<open>
  C36: \<open>number\<close> prints, in every base from 2 to 36 and under all flags, exactly this: blanks that
  fill the field on the left unless it is left-justified or filled with zeros; a minus for a
  negative signed number, else a plus or a blank where asked; 0 before an octal and 0x or 0X before
  a hexadecimal number where asked; zeros that fill the field where asked; zeros up to the precision;
  the numeral of the number's magnitude, without leading zeros; and blanks that fill a left-justified
  field. The field is as wide as asked, or as the text needs.
\<close>

theorem number_prints:
  assumes b: "2 \<le> base" "base \<le> 36" and n: "number num base sz precision t = Some out"
  defines "blanks \<equiv> \<lambda>n. replicate (nat n) CHR '' ''" and "zeros \<equiv> \<lambda>n. replicate (nat n) CHR ''0''"
  shows "\<exists>body gap. numeral_of (small t) (nat base) (magnitude num t) body \<and>
     gap = sz - (int (length (sign_chars num t @ prefix_chars base t)) + max precision (int (length body))) \<and>
     out = (if zeropad t \<or> left t then [] else blanks gap) @ sign_chars num t @ prefix_chars base t @
       (if zeropad t \<and> \<not> left t then zeros gap else []) @ zeros (precision - int (length body)) @ body @
       (if left t then blanks gap else []) \<and>
     int (length out) = max sz (int (length (sign_chars num t @ prefix_chars base t)) +
       max precision (int (length body)))"
proof -
  let ?neg = "sign t \<and> num <s 0"
  let ?tmp = "if magnitude num t = 0 then ''0'' else gen_digits (small t) (nat base) (magnitude num t)"
  let ?sz = "sz - int (length (sign_chars num t)) - int (length (prefix_chars base t))"
  define num' where "num' = (if ?neg then - num else num)"
  have mag: "unat num' = magnitude num t"
    using unat_neg by (simp add: magnitude_def num'_def)
  then have zero: "num' = 0 \<longleftrightarrow> magnitude num t = 0"
    by (metis unat_0 unat_eq_zero)
  have x: "(if special t then if base = 8 then ''0''
        else if base = 16 then [CHR ''0'', digits (small t) ! 33] else [] else []) = prefix_chars base t"
    by (simp add: prefix_chars_def digits_def)
  have sz: "(if special t then if base = 16 then x - 2 else if base = 8 then x - 1 else x else x) =
      x - int (length (prefix_chars base t))" for x
    by (simp add: prefix_chars_def)
  have sg: "(if sign_chars num t \<noteq> [] then sz - 1 else sz) = sz - int (length (sign_chars num t))"
    by (simp add: sign_chars_def)
  have "number num base sz precision t =
     Some (layout ?sz precision (zeropad t \<and> \<not> left t) (left t) (sign_chars num t)
      (prefix_chars base t) (if num' = 0 then ''0'' else gen_digits (small t) (nat base) (unat num')))"
    unfolding number_def Let_def num'_def [symmetric] sign_chars_def [symmetric] x sg sz using b by simp
  then have out: "out = layout ?sz precision (zeropad t \<and> \<not> left t) (left t) (sign_chars num t)
      (prefix_chars base t) ?tmp"
    using n unfolding zero mag by simp
  define body where "body = rev ?tmp"
  have len: "length ?tmp = length body" by (simp add: body_def)
  have num: "numeral_of (small t) (nat base) (magnitude num t) body"
    unfolding body_def using b by (intro number_digits) auto
  define gap where "gap = sz - (int (length (sign_chars num t @ prefix_chars base t)) + max precision (int (length body)))"
  have gap: "?sz - max precision (int (length ?tmp)) = gap" unfolding gap_def len by simp
  have eq: "out = (if zeropad t \<or> left t then [] else blanks gap) @ sign_chars num t @ prefix_chars base t @
       (if zeropad t \<and> \<not> left t then zeros gap else []) @ zeros (precision - int (length body)) @ body @
       (if left t then blanks gap else [])"
    unfolding out layout_eq Let_def gap blanks_def zeros_def body_def [symmetric] unfolding len by auto
  moreover have "int (length out) = max sz (int (length (sign_chars num t @ prefix_chars base t)) +
       max precision (int (length body)))"
    unfolding eq by (simp add: blanks_def zeros_def gap_def)
  ultimately show ?thesis using num gap_def by blast
qed

theorem number_prints_witness:
  "number (- 255) 16 8 (-1) (no_flags\<lparr>special := True, sign := True\<rparr>) = Some ''   -0XFF'' \<and>
   (\<exists>body. ''   -0XFF'' = ''   '' @ ''-'' @ ''0X'' @ body \<and> numeral_of False 16 255 body)"
proof -
  let ?t = "no_flags\<lparr>special := True, sign := True\<rparr>"
  have "gen_digits False 16 255 = ''FF''"
    by (simp add: gen_digits.simps digits_def)
  then have n: "number (- 255) 16 8 (-1) ?t = Some ''   -0XFF''"
    by (simp add: number_def Let_def layout_def pad_def no_flags_def digits_def word_sless_alt
        numeral_3_eq_3)
  have f: "zeropad ?t = False" "left ?t = False" "small ?t = False" "sign_chars (- 255) ?t = ''-''"
    "prefix_chars 16 ?t = ''0X''" "magnitude (- 255) ?t = 255"
    by (simp_all add: no_flags_def sign_chars_def prefix_chars_def magnitude_def word_sless_alt)
  have b: "(2 :: int) \<le> 16" "(16 :: int) \<le> 36" by simp_all
  from number_prints [OF b n] obtain body gap where
    p: "numeral_of False (nat 16) 255 body"
      "''   -0XFF'' = replicate (nat gap) CHR '' '' @ ''-'' @ ''0X'' @ replicate (nat (- 1 - int (length body))) CHR ''0'' @ body"
    unfolding f by auto
  have z: "nat (- 1 - int (length body)) = 0" by simp
  have "replicate (nat gap) CHR '' '' = takeWhile (\<lambda>c. c = CHR '' '') ''   -0XFF''"
    unfolding p(2) by (simp add: takeWhile_append)
  also have "\<dots> = ''   ''" by simp
  finally have "replicate (nat gap) CHR '' '' = ''   ''" .
  then have "''   -0XFF'' = ''   '' @ ''-'' @ ''0X'' @ body" using p(2) unfolding z by simp
  with n p(1) show ?thesis by auto
qed

text \<open>
  A width or precision given as \<open>*\<close> takes its argument, but the star itself is not skipped:
  the directive ends there and prints a percent sign and the star, and the rest of the directive
  is copied as ordinary text.
\<close>

theorem star_not_skipped:
  "directive (CHR ''*'' # r) len (VInt w # args) = Some (''%*'', [], r, args)"
  by (simp add: directive_def parse_width_def parse_precision_def parse_qualifier_def convert_def
      is_digit_def Let_def)

end
