(* ===== verification/Lamport.thy ===== *)
theory Lamport
  imports Prelude
begin

text \<open>
  The lock of \<open>include/linux/lamport.h\<close> under interleaving, in two layers. The first is the algorithm
  itself: a process is its slot of \<open>lamparray\<close>, from 1 to 63, the numbers are natural numbers, and
  its program counter says which statement comes next; one statement, with all it reads, is one step (the
  one that takes the maximum names a cell twice, which is taken to be one read), and the two
  waiting loops are steps that are only possible when their condition has become false. The second is the code:
  processes are their pids, they look for their slot and claim one, the numbers are of 32 bits, and
  \<open>lamportUnlock\<close> looks for the slot again. The second is shown to do what the first does, as long
  as no two processes claim their first slot at the same time and no number reaches the end of its range.
\<close>

definition LSLOTS :: nat where
  "LSLOTS = 64"

datatype phase =
    Idle            \<comment> \<open>not in the lock\<close>
  | Enter           \<comment> \<open>\<open>choosing = TRUE\<close> done, \<open>num = 0\<close> next\<close>
  | Scan nat        \<comment> \<open>the next index of the loop that takes the maximum\<close>
  | Chosen          \<comment> \<open>\<open>num = num + 1\<close> done, \<open>choosing = FALSE\<close> next\<close>
  | WaitC nat       \<comment> \<open>\<open>while (choosing)\<close> for this index\<close>
  | WaitN nat       \<comment> \<open>\<open>while (num != 0 ...)\<close> for this index\<close>
  | CS              \<comment> \<open>the lock is held\<close>

record lstate =
  choosing :: "nat \<Rightarrow> bool"
  num :: "nat \<Rightarrow> nat"
  pc :: "nat \<Rightarrow> phase"

definition lslot :: "nat \<Rightarrow> bool" where
  "lslot i \<longleftrightarrow> 1 \<le> i \<and> i < LSLOTS"

text \<open>The condition of the second waiting loop: \<open>j\<close> goes before \<open>i\<close>.\<close>

definition before :: "lstate \<Rightarrow> nat \<Rightarrow> nat \<Rightarrow> bool" where
  "before s j i \<longleftrightarrow> num s j \<noteq> 0 \<and> (num s j < num s i \<or> num s j = num s i \<and> j < i)"

inductive lstep :: "nat \<Rightarrow> lstate \<Rightarrow> lstate \<Rightarrow> bool" for i where
  lock: "\<lbrakk>lslot i; pc s i = Idle\<rbrakk> \<Longrightarrow>
     lstep i s (s\<lparr>choosing := (choosing s)(i := True), pc := (pc s)(i := Enter)\<rparr>)"
| zero: "\<lbrakk>lslot i; pc s i = Enter\<rbrakk> \<Longrightarrow>
     lstep i s (s\<lparr>num := (num s)(i := 0), pc := (pc s)(i := Scan 1)\<rparr>)"
| scan: "\<lbrakk>lslot i; pc s i = Scan m; m < LSLOTS\<rbrakk> \<Longrightarrow>
     lstep i s (s\<lparr>num := (num s)(i := if m \<noteq> i \<and> num s i < num s m then num s m else num s i),
       pc := (pc s)(i := Scan (Suc m))\<rparr>)"
| choose: "\<lbrakk>lslot i; pc s i = Scan LSLOTS\<rbrakk> \<Longrightarrow>
     lstep i s (s\<lparr>num := (num s)(i := Suc (num s i)), pc := (pc s)(i := Chosen)\<rparr>)"
| chosen: "\<lbrakk>lslot i; pc s i = Chosen\<rbrakk> \<Longrightarrow>
     lstep i s (s\<lparr>choosing := (choosing s)(i := False), pc := (pc s)(i := WaitC 0)\<rparr>)"
| waitc: "\<lbrakk>lslot i; pc s i = WaitC k; k < LSLOTS; \<not> choosing s k\<rbrakk> \<Longrightarrow>
     lstep i s (s\<lparr>pc := (pc s)(i := WaitN k)\<rparr>)"
| waitn: "\<lbrakk>lslot i; pc s i = WaitN k; \<not> before s k i\<rbrakk> \<Longrightarrow>
     lstep i s (s\<lparr>pc := (pc s)(i := WaitC (Suc k))\<rparr>)"
| enter: "\<lbrakk>lslot i; pc s i = WaitC LSLOTS\<rbrakk> \<Longrightarrow>
     lstep i s (s\<lparr>pc := (pc s)(i := CS)\<rparr>)"
| unlock: "\<lbrakk>lslot i; pc s i = CS\<rbrakk> \<Longrightarrow>
     lstep i s (s\<lparr>num := (num s)(i := 0), pc := (pc s)(i := Idle)\<rparr>)"

inductive lreachable :: "lstate \<Rightarrow> bool" where
  init: "lreachable \<lparr>choosing = (\<lambda>_. False), num = (\<lambda>_. 0), pc = (\<lambda>_. Idle)\<rparr>"
| step: "\<lbrakk>lreachable s; lstep i s t\<rbrakk> \<Longrightarrow> lreachable t"

subsection \<open>The invariant\<close>

fun waiting :: "phase \<Rightarrow> bool" where
  "waiting (WaitC k) = True"
| "waiting (WaitN k) = True"
| "waiting CS = True"
| "waiting _ = False"

fun choosing_phase :: "phase \<Rightarrow> bool" where
  "choosing_phase Enter = True"
| "choosing_phase (Scan m) = True"
| "choosing_phase Chosen = True"
| "choosing_phase _ = False"

text \<open>Has the process passed the first, or both, waiting loops for \<open>j\<close>?\<close>

fun passed_c :: "phase \<Rightarrow> nat \<Rightarrow> bool" where
  "passed_c (WaitC k) j = (j < k)"
| "passed_c (WaitN k) j = (j \<le> k)"
| "passed_c CS j = True"
| "passed_c _ j = False"

fun passed_n :: "phase \<Rightarrow> nat \<Rightarrow> bool" where
  "passed_n (WaitC k) j = (j < k)"
| "passed_n (WaitN k) j = (j < k)"
| "passed_n CS j = True"
| "passed_n _ j = False"

text \<open>What \<open>j\<close>, in its doorway, has seen of \<open>i\<close>.\<close>

fun seen :: "lstate \<Rightarrow> nat \<Rightarrow> nat \<Rightarrow> phase \<Rightarrow> bool" where
  "seen s i j (Scan m) = (i < m \<longrightarrow> num s i \<le> num s j)"
| "seen s i j Chosen = (num s i < num s j)"
| "seen s i j _ = True"

definition linv :: "lstate \<Rightarrow> bool" where
  "linv s \<longleftrightarrow>
     (\<forall>i. choosing s i = choosing_phase (pc s i)) \<and>
     (\<forall>i. waiting (pc s i) \<or> pc s i = Chosen \<longrightarrow> num s i \<noteq> 0) \<and>
     (\<forall>i m. pc s i = Scan m \<longrightarrow> m \<le> LSLOTS) \<and>
     (\<forall>i. \<not> lslot i \<longrightarrow> pc s i = Idle) \<and>
     (\<forall>i j. i \<noteq> j \<longrightarrow> passed_c (pc s i) j \<longrightarrow> seen s i j (pc s j)) \<and>
     (\<forall>i j. i \<noteq> j \<longrightarrow> passed_n (pc s i) j \<longrightarrow> waiting (pc s j) \<longrightarrow>
        num s i < num s j \<or> num s i = num s j \<and> i < j)"

lemma passed_n_c: "passed_n p j \<Longrightarrow> passed_c p j"
  by (cases "(p, j)" rule: passed_n.cases) auto

lemma passed_c_waiting: "passed_c p j \<Longrightarrow> waiting p"
  by (cases "(p, j)" rule: passed_c.cases) auto

lemma seen_cong:
  "num s i = num t i \<Longrightarrow> num s j = num t j \<Longrightarrow> seen s i j p = seen t i j p"
  by (cases p) auto

text \<open>A step changes one process; only what concerns it has to be checked.\<close>

lemma linv_update:
  assumes inv: "linv s" and i: "lslot i"
    and same: "\<And>j. j \<noteq> i \<Longrightarrow> choosing t j = choosing s j \<and> num t j = num s j \<and> pc t j = pc s j"
    and own: "choosing t i = choosing_phase (pc t i)"
      "waiting (pc t i) \<or> pc t i = Chosen \<Longrightarrow> num t i \<noteq> 0" "\<And>m. pc t i = Scan m \<Longrightarrow> m \<le> LSLOTS"
    and c: "\<And>j. j \<noteq> i \<Longrightarrow> passed_c (pc t i) j \<Longrightarrow> seen t i j (pc s j)"
      "\<And>j. j \<noteq> i \<Longrightarrow> passed_c (pc s j) i \<Longrightarrow> seen t j i (pc t i)"
    and n: "\<And>j. j \<noteq> i \<Longrightarrow> passed_n (pc t i) j \<Longrightarrow> waiting (pc s j) \<Longrightarrow>
        num t i < num s j \<or> num t i = num s j \<and> i < j"
      "\<And>j. j \<noteq> i \<Longrightarrow> passed_n (pc s j) i \<Longrightarrow> waiting (pc t i) \<Longrightarrow>
        num s j < num t i \<or> num s j = num t i \<and> j < i"
  shows "linv t"
  unfolding linv_def
proof (intro conjI allI impI)
  note I = inv [unfolded linv_def]
  show "choosing t j = choosing_phase (pc t j)" for j
    using I same own by (cases "j = i") auto
  show "num t j \<noteq> 0" if "waiting (pc t j) \<or> pc t j = Chosen" for j
    using I same own that by (cases "j = i") auto
  show "m \<le> LSLOTS" if "pc t j = Scan m" for j m
    using I same own that by (cases "j = i") auto
  show "pc t j = Idle" if "\<not> lslot j" for j
    using I same i that by (cases "j = i") auto
  show "seen t a b (pc t b)" if "a \<noteq> b" "passed_c (pc t a) b" for a b
  proof -
    consider "a = i" | "b = i" | "a \<noteq> i" "b \<noteq> i" by blast
    then show ?thesis
    proof cases
      case 1
      then show ?thesis using that c(1) same by simp
    next
      case 2
      then show ?thesis using that c(2) same by simp
    next
      case 3
      then have "seen s a b (pc s b)" using I that same by simp
      then show ?thesis using 3 same seen_cong [of s a t b] by simp
    qed
  qed
  show "num t a < num t b \<or> num t a = num t b \<and> a < b"
    if "a \<noteq> b" "passed_n (pc t a) b" "waiting (pc t b)" for a b
  proof -
    consider "a = i" | "b = i" | "a \<noteq> i" "b \<noteq> i" by blast
    then show ?thesis
    proof cases
      case 1
      then show ?thesis using that n(1) same by simp
    next
      case 2
      then show ?thesis using that n(2) same by simp
    next
      case 3
      then show ?thesis using I that same by simp
    qed
  qed
qed

lemma linvD:
  assumes "linv s"
  shows "choosing s i = choosing_phase (pc s i)"
    and "waiting (pc s i) \<Longrightarrow> num s i \<noteq> 0" "pc s i = Chosen \<Longrightarrow> num s i \<noteq> 0"
    and "i \<noteq> j \<Longrightarrow> passed_c (pc s i) j \<Longrightarrow> seen s i j (pc s j)"
    and "i \<noteq> j \<Longrightarrow> passed_n (pc s i) j \<Longrightarrow> waiting (pc s j) \<Longrightarrow>
      num s i < num s j \<or> num s i = num s j \<and> i < j"
    and "\<not> lslot i \<Longrightarrow> pc s i = Idle"
  using assms unfolding linv_def by blast+

lemma linv_step:
  assumes inv: "linv s" and st: "lstep i s t"
  shows "linv t"
  using st
proof cases
  case lock
  then show ?thesis
    by (intro linv_update [OF inv]) auto
next
  case zero
  then show ?thesis
    using linvD(1) [OF inv, of i]
    using linvD(6) [OF inv, of 0]
    by (intro linv_update [OF inv]) (auto simp: LSLOTS_def lslot_def dest!: passed_c_waiting)
next
  case (scan m)
  have ch: "choosing s i" using linvD(1) [OF inv, of i] scan by simp
  have seen: "seen s j i (Scan m)" if "j \<noteq> i" "passed_c (pc s j) i" for j
    using linvD(4) [OF inv that] scan by simp
  show ?thesis
    unfolding scan(1)
  proof (rule linv_update [OF inv scan(2)])
    fix j assume j: "j \<noteq> i" "passed_c (pc s j) i"
    have "j < Suc m \<longrightarrow> num s j \<le> (if m \<noteq> i \<and> num s i < num s m then num s m else num s i)"
      using seen [OF j] j(1) by (auto simp: less_Suc_eq)
    then show "seen (s\<lparr>num := (num s)(i := if m \<noteq> i \<and> num s i < num s m then num s m else num s i),
        pc := (pc s)(i := Scan (Suc m))\<rparr>) j i
        (pc (s\<lparr>num := (num s)(i := if m \<noteq> i \<and> num s i < num s m then num s m else num s i),
        pc := (pc s)(i := Scan (Suc m))\<rparr>) i)"
      using j(1) by simp
  qed (use scan ch in auto)
next
  case choose
  have ch: "choosing s i" using linvD(1) [OF inv, of i] choose by simp
  have seen: "num s j \<le> num s i" if "j \<noteq> i" "passed_c (pc s j) i" for j
  proof -
    have "waiting (pc s j)" using that(2) by (rule passed_c_waiting)
    then have "lslot j" using linvD(6) [OF inv, of j] by (cases "lslot j") auto
    then show ?thesis using linvD(4) [OF inv that] choose by (simp add: lslot_def)
  qed
  show ?thesis
    unfolding choose(1)
    by (rule linv_update [OF inv choose(2)]) (use choose ch seen in \<open>auto simp: less_Suc_eq_le\<close>)
next
  case chosen
  have nz: "num s i \<noteq> 0" using linvD(3) [OF inv chosen(3)] .
  have "num s j < num s i" if "j \<noteq> i" "passed_n (pc s j) i" for j
    using linvD(4) [OF inv that(1) passed_n_c [OF that(2)]] chosen by simp
  then show ?thesis
    unfolding chosen(1)
    by (intro linv_update [OF inv chosen(2)]) (use chosen nz in auto)
next
  case (waitc k)
  have w: "waiting (pc s i)" using waitc by simp
  have nch: "\<not> choosing_phase (pc s k)" using linvD(1) [OF inv, of k] waitc by simp
  have sk: "seen u i k (pc s k)" for u using nch by (cases "pc s k") auto
  have old: "seen s i j (pc s j)" if "i \<noteq> j" "j < k" for j
    using linvD(4) [OF inv that(1)] that(2) waitc by simp
  show ?thesis
    unfolding waitc(1)
  proof (rule linv_update [OF inv waitc(2)])
    fix j assume j: "j \<noteq> i" "passed_c (pc (s\<lparr>pc := (pc s)(i := WaitN k)\<rparr>) i) j"
    then have "j < k \<or> j = k" by auto
    then have "seen s i j (pc s j)" using j(1) sk [of s] old [of j] by auto
    then show "seen (s\<lparr>pc := (pc s)(i := WaitN k)\<rparr>) i j (pc s j)"
      using seen_cong [of s i "s\<lparr>pc := (pc s)(i := WaitN k)\<rparr>" j "pc s j"] by simp
  next
    show "choosing (s\<lparr>pc := (pc s)(i := WaitN k)\<rparr>) i =
      choosing_phase (pc (s\<lparr>pc := (pc s)(i := WaitN k)\<rparr>) i)"
      using linvD(1) [OF inv, of i] waitc by simp
  next
    fix j assume "j \<noteq> i" "passed_n (pc (s\<lparr>pc := (pc s)(i := WaitN k)\<rparr>) i) j" "waiting (pc s j)"
    then show "num (s\<lparr>pc := (pc s)(i := WaitN k)\<rparr>) i < num s j \<or>
       num (s\<lparr>pc := (pc s)(i := WaitN k)\<rparr>) i = num s j \<and> i < j"
      using linvD(5) [OF inv, of i j] waitc by auto
  next
    fix j assume "j \<noteq> i" "passed_n (pc s j) i"
    then show "num s j < num (s\<lparr>pc := (pc s)(i := WaitN k)\<rparr>) i \<or>
       num s j = num (s\<lparr>pc := (pc s)(i := WaitN k)\<rparr>) i \<and> j < i"
      using linvD(5) [OF inv, of j i] w by auto
  qed (use linvD(2) [OF inv w] in auto)
next
  case (waitn k)
  have w: "waiting (pc s i)" using waitn by simp
  show ?thesis
    unfolding waitn(1)
  proof (rule linv_update [OF inv waitn(2)])
    fix j assume j: "j \<noteq> i" "passed_c (pc (s\<lparr>pc := (pc s)(i := WaitC (Suc k))\<rparr>) i) j"
    then have "passed_c (pc s i) j" using waitn by auto
    with linvD(4) [OF inv, of i j] j(1) show "seen (s\<lparr>pc := (pc s)(i := WaitC (Suc k))\<rparr>) i j (pc s j)"
      using seen_cong [of s i "s\<lparr>pc := (pc s)(i := WaitC (Suc k))\<rparr>" j] by auto
  next
    show "choosing (s\<lparr>pc := (pc s)(i := WaitC (Suc k))\<rparr>) i =
      choosing_phase (pc (s\<lparr>pc := (pc s)(i := WaitC (Suc k))\<rparr>) i)"
      using linvD(1) [OF inv, of i] waitn by simp
  next
    fix j assume j: "j \<noteq> i" "passed_n (pc (s\<lparr>pc := (pc s)(i := WaitC (Suc k))\<rparr>) i) j" "waiting (pc s j)"
    then have "j < k \<or> j = k" by auto
    moreover have "num s i < num s k \<or> num s i = num s k \<and> i < k" if "j = k"
      using waitn(4) that j linvD(2) [OF inv, of k] by (auto simp: before_def)
    ultimately show "num (s\<lparr>pc := (pc s)(i := WaitC (Suc k))\<rparr>) i < num s j \<or>
       num (s\<lparr>pc := (pc s)(i := WaitC (Suc k))\<rparr>) i = num s j \<and> i < j"
      using linvD(5) [OF inv, of i j] waitn j by auto
  next
    fix j assume "j \<noteq> i" "passed_n (pc s j) i"
    then show "num s j < num (s\<lparr>pc := (pc s)(i := WaitC (Suc k))\<rparr>) i \<or>
       num s j = num (s\<lparr>pc := (pc s)(i := WaitC (Suc k))\<rparr>) i \<and> j < i"
      using linvD(5) [OF inv, of j i] w by auto
  qed (use linvD(2) [OF inv w] in auto)
next
  case enter
  have w: "waiting (pc s i)" using enter by simp
  have small: "j < LSLOTS" if "waiting (pc s j)" for j
    using linvD(6) [OF inv, of j] that by (cases "lslot j") (auto simp: lslot_def)
  have sn: "seen s i j (pc s j)" if "j \<noteq> i" for j
  proof (cases "lslot j")
    case True
    then show ?thesis using linvD(4) [OF inv, of i j] that enter by (simp add: lslot_def)
  next
    case False
    then show ?thesis using linvD(6) [OF inv] by simp
  qed
  show ?thesis
    unfolding enter(1)
  proof (rule linv_update [OF inv enter(2)])
    fix j assume j: "j \<noteq> i"
    then show "seen (s\<lparr>pc := (pc s)(i := CS)\<rparr>) i j (pc s j)"
      using sn seen_cong [of s i "s\<lparr>pc := (pc s)(i := CS)\<rparr>" j] by auto
    assume "waiting (pc s j)"
    then show "num (s\<lparr>pc := (pc s)(i := CS)\<rparr>) i < num s j \<or>
       num (s\<lparr>pc := (pc s)(i := CS)\<rparr>) i = num s j \<and> i < j"
      using linvD(5) [OF inv, of i j] small [of j] j enter by auto
  next
    show "choosing (s\<lparr>pc := (pc s)(i := CS)\<rparr>) i = choosing_phase (pc (s\<lparr>pc := (pc s)(i := CS)\<rparr>) i)"
      using linvD(1) [OF inv, of i] enter by simp
  next
    fix j assume "j \<noteq> i" "passed_n (pc s j) i"
    then show "num s j < num (s\<lparr>pc := (pc s)(i := CS)\<rparr>) i \<or>
       num s j = num (s\<lparr>pc := (pc s)(i := CS)\<rparr>) i \<and> j < i"
      using linvD(5) [OF inv, of j i] w by auto
  qed (use linvD(2) [OF inv w] in auto)
next
  case unlock
  then show ?thesis
    using linvD(1) [OF inv, of i] by (intro linv_update [OF inv]) auto
qed

lemma linv_reachable: "lreachable s \<Longrightarrow> linv s"
proof (induction rule: lreachable.induct)
  case init
  show ?case by (simp add: linv_def)
next
  case (step s i t)
  then show ?case using linv_step by blast
qed

text \<open>
  Two slots are never in the critical section at the same time, and who is in it goes before all that wait.
\<close>

lemma slots_exclude:
  assumes "lreachable s" and "pc s i = CS"
  shows "(pc s j = CS \<longrightarrow> j = i) \<and> (j \<noteq> i \<and> waiting (pc s j) \<longrightarrow> before s i j)"
proof -
  have inv: "linv s" using assms(1) by (rule linv_reachable)
  have "before s i j" if "j \<noteq> i" "waiting (pc s j)"
    using linvD(5) [OF inv, of i j] linvD(2) [OF inv, of i] that assms(2) by (simp add: before_def)
  moreover have "j = i" if "pc s j = CS"
  proof (rule ccontr)
    assume "j \<noteq> i"
    with linvD(5) [OF inv, of i j] linvD(5) [OF inv, of j i] that assms(2) show False by auto
  qed
  ultimately show ?thesis by blast
qed

subsection \<open>A process that is alone gets the lock\<close>

lemma idle_num: "lreachable s \<Longrightarrow> pc s j = Idle \<Longrightarrow> num s j = 0"
proof (induction rule: lreachable.induct)
  case (step s i t)
  from step(2) show ?case
    using step.IH step.prems by cases (auto split: if_splits)
qed simp

definition alone :: "nat \<Rightarrow> lstate \<Rightarrow> bool" where
  "alone i s \<longleftrightarrow> lreachable s \<and> (\<forall>j. j \<noteq> i \<longrightarrow> pc s j = Idle)"

lemma alone_step: "alone i s \<Longrightarrow> lstep i s t \<Longrightarrow> (\<And>j. j \<noteq> i \<Longrightarrow> pc t j = pc s j) \<Longrightarrow> alone i t"
  unfolding alone_def using lreachable.step by metis

lemma alone_others:
  "alone i s \<Longrightarrow> j \<noteq> i \<Longrightarrow> num s j = 0 \<and> \<not> choosing s j"
  using linvD(1) [OF linv_reachable, of s j] idle_num [of s j] by (auto simp: alone_def)

lemma alone_scan:
  assumes "lslot i" and "alone i s" and "pc s i = Scan 1" and "1 \<le> m" and "m \<le> LSLOTS"
  shows "\<exists>t. alone i t \<and> pc t i = Scan m"
  using assms(4,5)
proof (induction m rule: nat_induct_at_least)
  case base
  then show ?case using assms by auto
next
  case (Suc m)
  then obtain t where t: "alone i t" "pc t i = Scan m" by auto
  from lstep.scan [OF assms(1) t(2)] Suc.prems show ?case
    using alone_step [OF t(1)] by fastforce
qed

lemma alone_wait:
  assumes "lslot i" and "alone i s" and "pc s i = WaitC 0" and "k \<le> LSLOTS"
  shows "\<exists>t. alone i t \<and> pc t i = WaitC k"
  using assms(4)
proof (induction k)
  case 0
  then show ?case using assms by auto
next
  case (Suc k)
  then obtain t where t: "alone i t" "pc t i = WaitC k" by auto
  have "\<not> choosing t k"
  proof (cases "k = i")
    case True
    then show ?thesis using linvD(1) [OF linv_reachable, of t i] t by (simp add: alone_def)
  qed (use alone_others [OF t(1)] in blast)
  from lstep.waitc [OF assms(1) t(2) _ this] Suc.prems obtain u where
    u: "alone i u" "pc u i = WaitN k" using alone_step [OF t(1)] by fastforce
  have "\<not> before u k i"
    using alone_others [OF u(1), of k] by (cases "k = i") (auto simp: before_def)
  from lstep.waitn [OF assms(1) u(2) this] show ?case
    using alone_step [OF u(1)] by fastforce
qed

lemma lamport_gets:
  assumes "lreachable s" and "lslot i" and "\<forall>j. pc s j = Idle"
  shows "\<exists>t. lreachable t \<and> pc t i = CS \<and> (\<forall>j. j \<noteq> i \<longrightarrow> pc t j = Idle)"
proof -
  have a: "alone i s" using assms by (simp add: alone_def)
  from lstep.lock [OF assms(2), of s] assms(3) obtain s1 where s1: "alone i s1" "pc s1 i = Enter"
    using alone_step [OF a] by fastforce
  from lstep.zero [OF assms(2) s1(2)] obtain s2 where s2: "alone i s2" "pc s2 i = Scan 1"
    using alone_step [OF s1(1)] by fastforce
  from alone_scan [OF assms(2) s2, of LSLOTS] obtain s3 where s3: "alone i s3" "pc s3 i = Scan LSLOTS"
    by (auto simp: LSLOTS_def)
  from lstep.choose [OF assms(2) s3(2)] obtain s4 where s4: "alone i s4" "pc s4 i = Chosen"
    using alone_step [OF s3(1)] by fastforce
  from lstep.chosen [OF assms(2) s4(2)] obtain s5 where s5: "alone i s5" "pc s5 i = WaitC 0"
    using alone_step [OF s4(1)] by fastforce
  from alone_wait [OF assms(2) s5, of LSLOTS] obtain s6 where s6: "alone i s6" "pc s6 i = WaitC LSLOTS"
    by auto
  from lstep.enter [OF assms(2) s6(2)] obtain t where "alone i t" "pc t i = CS"
    using alone_step [OF s6(1)] by fastforce
  then show ?thesis by (auto simp: alone_def)
qed

text \<open>
  A process that calls \<open>lamportLock\<close> while no other process is in the lock comes to hold it.
\<close>

theorem lamport_uncontended:
  assumes "lreachable s" and "lslot i" and "\<forall>j. pc s j = Idle"
  shows "\<exists>t. lreachable t \<and> pc t i = CS \<and> (\<forall>j. j \<noteq> i \<longrightarrow> pc t j = Idle)"
  using assms by (rule lamport_gets)

theorem lamport_uncontended_witness:
  "\<exists>t. lreachable t \<and> pc t 5 = CS \<and> (\<forall>j. j \<noteq> 5 \<longrightarrow> pc t j = Idle)"
  by (rule lamport_uncontended [OF lreachable.init]) (simp_all add: lslot_def LSLOTS_def)

subsection \<open>Processes, their slots and the numbers of the machine\<close>

text \<open>
  Where a process is: outside; in the first loop of \<open>lamportLock\<close>, with \<open>i\<close> and \<open>nulltask\<close>; about
  to write its pid into a slot; at a statement of the rest of \<open>lamportLock\<close>, with its slot; in the
  loop of \<open>lamportUnlock\<close>; about to clear its number. The array is \<open>cpid\<close>, \<open>cchoosing\<close> and \<open>cnum\<close>.
\<close>

datatype place =
    Out
  | Search nat nat
  | Mark nat
  | At nat phase
  | Find nat
  | Free nat

record lsys =
  cpid :: "nat \<Rightarrow> int"
  cchoosing :: "nat \<Rightarrow> bool"
  cnum :: "nat \<Rightarrow> int"
  place :: "int \<Rightarrow> place"

definition goto :: "int \<Rightarrow> place \<Rightarrow> lsys \<Rightarrow> lsys" where
  "goto p x s = s\<lparr>place := (place s)(p := x)\<rparr>"

definition goes_before :: "lsys \<Rightarrow> nat \<Rightarrow> nat \<Rightarrow> bool" where
  "goes_before s j k \<longleftrightarrow> cnum s j \<noteq> 0 \<and> (cnum s j < cnum s k \<or> cnum s j = cnum s k \<and> j < k)"

text \<open>One statement of process \<open>p\<close>: the call and the search, the lock, the call and the search of the unlock.\<close>

inductive pstep :: "int \<Rightarrow> lsys \<Rightarrow> lsys \<Rightarrow> bool" for p where
  p_call: "0 < p \<Longrightarrow> place s p = Out \<Longrightarrow> pstep p s (goto p (Search 1 0) s)"
| p_found: "place s p = Search i n \<Longrightarrow> i < LSLOTS \<Longrightarrow> cpid s i = p \<Longrightarrow> pstep p s (goto p (At i Idle) s)"
| p_look: "place s p = Search i n \<Longrightarrow> i < LSLOTS \<Longrightarrow> cpid s i \<noteq> p \<Longrightarrow>
     pstep p s (goto p (Search (Suc i) (if cpid s i = 0 then i else n)) s)"
| p_full: "place s p = Search LSLOTS n \<Longrightarrow> pstep p s (goto p (Mark n) s)"
| p_mark: "place s p = Mark n \<Longrightarrow> pstep p s (goto p (At n Idle) (s\<lparr>cpid := (cpid s)(n := p)\<rparr>))"
| p_lock: "place s p = At k Idle \<Longrightarrow> pstep p s (goto p (At k Enter) (s\<lparr>cchoosing := (cchoosing s)(k := True)\<rparr>))"
| p_zero: "place s p = At k Enter \<Longrightarrow> pstep p s (goto p (At k (Scan 1)) (s\<lparr>cnum := (cnum s)(k := 0)\<rparr>))"
| p_scan: "place s p = At k (Scan m) \<Longrightarrow> m < LSLOTS \<Longrightarrow>
     pstep p s (goto p (At k (Scan (Suc m)))
       (s\<lparr>cnum := (cnum s)(k := if m \<noteq> k \<and> cnum s k < cnum s m then cnum s m else cnum s k)\<rparr>))"
| p_choose: "place s p = At k (Scan LSLOTS) \<Longrightarrow>
     pstep p s (goto p (At k Chosen) (s\<lparr>cnum := (cnum s)(k := long (cnum s k + 1))\<rparr>))"
| p_chosen: "place s p = At k Chosen \<Longrightarrow>
     pstep p s (goto p (At k (WaitC 0)) (s\<lparr>cchoosing := (cchoosing s)(k := False)\<rparr>))"
| p_waitc: "place s p = At k (WaitC j) \<Longrightarrow> j < LSLOTS \<Longrightarrow> \<not> cchoosing s j \<Longrightarrow>
     pstep p s (goto p (At k (WaitN j)) s)"
| p_waitn: "place s p = At k (WaitN j) \<Longrightarrow> \<not> goes_before s j k \<Longrightarrow>
     pstep p s (goto p (At k (WaitC (Suc j))) s)"
| p_enter: "place s p = At k (WaitC LSLOTS) \<Longrightarrow> pstep p s (goto p (At k CS) s)"
| p_leave: "place s p = At k CS \<Longrightarrow> pstep p s (goto p (Find 1) s)"
| p_miss: "place s p = Find i \<Longrightarrow> i < LSLOTS \<Longrightarrow> cpid s i \<noteq> p \<Longrightarrow> pstep p s (goto p (Find (Suc i)) s)"
| p_hit: "place s p = Find i \<Longrightarrow> i < LSLOTS \<Longrightarrow> cpid s i = p \<Longrightarrow> pstep p s (goto p (Free i) s)"
| p_none: "place s p = Find LSLOTS \<Longrightarrow> pstep p s (goto p Out s)"
| p_free: "place s p = Free i \<Longrightarrow> pstep p s (goto p Out (s\<lparr>cnum := (cnum s)(i := 0)\<rparr>))"

text \<open>What processes of the set \<open>P\<close> can reach through states that satisfy \<open>G\<close>.\<close>

definition lempty :: lsys where
  "lempty = \<lparr>cpid = (\<lambda>_. 0), cchoosing = (\<lambda>_. False), cnum = (\<lambda>_. 0), place = (\<lambda>_. Out)\<rparr>"

inductive reached :: "(lsys \<Rightarrow> bool) \<Rightarrow> int set \<Rightarrow> lsys \<Rightarrow> bool" for G P where
  start: "reached G P lempty"
| run: "\<lbrakk>reached G P s; p \<in> P; pstep p s t; G t\<rbrakk> \<Longrightarrow> reached G P t"

text \<open>
  A process that has no slot yet and is looking for one, and the two conditions under which the lock works:
  no two such processes at the same time, and room in the numbers.
\<close>

definition registering :: "lsys \<Rightarrow> int \<Rightarrow> bool" where
  "registering s p \<longleftrightarrow> (\<forall>k. cpid s k \<noteq> p) \<and> (case place s p of Search i n \<Rightarrow> True | Mark n \<Rightarrow> True | _ \<Rightarrow> False)"

definition orderly :: "lsys \<Rightarrow> bool" where
  "orderly s \<longleftrightarrow> (\<forall>p q. registering s p \<longrightarrow> registering s q \<longrightarrow> p = q) \<and> (\<forall>k. cnum s k < 2 ^ 31 - 1)"

text \<open>A process holds the lock from its last waiting loop until its number is cleared.\<close>

fun holding :: "place \<Rightarrow> bool" where
  "holding (At k CS) = True"
| "holding (Find i) = True"
| "holding (Free i) = True"
| "holding _ = False"

subsection \<open>Every process has its own slot\<close>

text \<open>What holds of one process: \<open>c\<close> is the array of pids.\<close>

fun wf_place :: "(nat \<Rightarrow> int) \<Rightarrow> int \<Rightarrow> place \<Rightarrow> bool" where
  "wf_place c p Out = True"
| "wf_place c p (Search i n) =
     (1 \<le> i \<and> i \<le> LSLOTS \<and> (\<forall>j. 1 \<le> j \<and> j < i \<longrightarrow> c j \<noteq> p) \<and>
      (if n = 0 then \<forall>j. 1 \<le> j \<and> j < i \<longrightarrow> c j \<noteq> 0
       else n < i \<and> ((\<forall>k. c k \<noteq> p) \<longrightarrow> c n = 0)))"
| "wf_place c p (Mark n) = ((\<forall>k. c k \<noteq> p) \<and> lslot n \<and> c n = 0)"
| "wf_place c p (At k ph) = (c k = p)"
| "wf_place c p (Find i) = (\<exists>k. c k = p \<and> i \<le> k)"
| "wf_place c p (Free k) = (c k = p)"

definition pinv :: "int set \<Rightarrow> lsys \<Rightarrow> bool" where
  "pinv P s \<longleftrightarrow>
     (\<forall>i j. cpid s i \<noteq> 0 \<longrightarrow> cpid s i = cpid s j \<longrightarrow> i = j) \<and>
     (\<forall>i. cpid s i \<noteq> 0 \<longrightarrow> lslot i \<and> cpid s i \<in> P) \<and>
     (\<forall>p. place s p \<noteq> Out \<longrightarrow> 0 < p \<and> p \<in> P) \<and>
     (\<forall>p. wf_place (cpid s) p (place s p)) \<and> (\<forall>k. 0 \<le> cnum s k)"

lemma pinvD:
  assumes "pinv P s"
  shows "cpid s i \<noteq> 0 \<Longrightarrow> cpid s i = cpid s j \<Longrightarrow> i = j" and "cpid s i \<noteq> 0 \<Longrightarrow> lslot i \<and> cpid s i \<in> P"
    and "place s p \<noteq> Out \<Longrightarrow> 0 < p \<and> p \<in> P" and "wf_place (cpid s) p (place s p)" and "0 \<le> cnum s k"
  using assms unfolding pinv_def by blast+

text \<open>A step that leaves the array of pids alone concerns only the place of its process.\<close>

lemma pinv_goto:
  assumes inv: "pinv P s" and same: "cpid t = cpid s" "place t = (place s)(p := x)"
    and wf: "wf_place (cpid s) p x" and num: "\<And>k. 0 \<le> cnum t k" and p: "x \<noteq> Out \<Longrightarrow> 0 < p \<and> p \<in> P"
  shows "pinv P t"
  unfolding pinv_def same
proof (intro conjI allI impI)
  fix q assume "((place s)(p := x)) q \<noteq> Out"
  then show "0 < q" "q \<in> P" using pinvD(3) [OF inv, of q] p by (auto split: if_splits)
next
  fix q show "wf_place (cpid s) q (((place s)(p := x)) q)" using wf pinvD(4) [OF inv, of q] by simp
qed (use pinvD(1,2) [OF inv] num in blast)+

text \<open>A full search has found an empty slot: there are not more processes than slots.\<close>

lemma full_search:
  assumes inv: "pinv P s" and P: "finite P" "card P \<le> 63" and p: "place s p = Search LSLOTS n"
  shows "wf_place (cpid s) p (Mark n)"
proof -
  let ?c = "cpid s"
  have pp: "0 < p" "p \<in> P" using pinvD(3) [OF inv, of p] p by auto
  have w: "\<forall>j. 1 \<le> j \<and> j < LSLOTS \<longrightarrow> ?c j \<noteq> p" "if n = 0 then \<forall>j. 1 \<le> j \<and> j < LSLOTS \<longrightarrow> ?c j \<noteq> 0
       else n < LSLOTS \<and> ((\<forall>k. ?c k \<noteq> p) \<longrightarrow> ?c n = 0)"
    using pinvD(4) [OF inv, of p] p by auto
  have un: "?c k \<noteq> p" for k using w(1) pinvD(2) [OF inv, of k] pp(1) by (cases "?c k = 0") (auto simp: lslot_def)
  have "n \<noteq> 0"
  proof
    assume "n = 0"
    then have nz: "?c j \<noteq> 0" if "j \<in> {1..<64}" for j using w(2) that by (simp add: LSLOTS_def)
    have "inj_on ?c {1..<64}" using pinvD(1) [OF inv] nz by (meson inj_onI)
    moreover have "?c ` {1..<64} \<subseteq> P - {p}" using nz un pinvD(2) [OF inv] by auto
    ultimately have "card {1..<64 :: nat} \<le> card (P - {p})" using P(1) by (intro card_inj_on_le) auto
    moreover have "card (P - {p}) < card P" using P(1) pp(2) by (rule card_Diff1_less)
    ultimately show False using P(2) by simp
  qed
  then show ?thesis using w(2) un by (auto simp: lslot_def)
qed

lemma pinv_mark:
  assumes inv: "pinv P s" and o: "orderly s" and p: "place s p = Mark n"
  shows "pinv P (goto p (At n Idle) (s\<lparr>cpid := (cpid s)(n := p)\<rparr>))"
proof -
  let ?c = "cpid s" and ?d = "(cpid s)(n := p)"
  have pp: "0 < p" "p \<in> P" and w: "\<And>k. ?c k \<noteq> p" "lslot n" "?c n = 0"
    using pinvD(3,4) [OF inv, of p] p by auto
  have reg: "q = p" if "\<forall>k. ?c k \<noteq> q" "place s q = Search i m \<or> place s q = Mark m" for q i m
    using o that w(1) p unfolding orderly_def registering_def by fastforce
  have other: "wf_place ?d q (place s q)" if "q \<noteq> p" for q
  proof -
    have old: "wf_place ?c q (place s q)" using pinvD(4) [OF inv] .
    have q0: "0 < q" if "place s q \<noteq> Out" using pinvD(3) [OF inv that] by simp
    show ?thesis
    proof (cases "place s q")
      case (Search i m)
      then obtain k where k: "?c k = q" using reg [of q i m] \<open>q \<noteq> p\<close> by blast
      then have "k \<noteq> n" using w(3) q0 Search by auto
      with k have "\<exists>k. ?d k = q" by (metis fun_upd_other)
      with old Search pp \<open>q \<noteq> p\<close> show ?thesis by (auto simp del: fun_upd_apply split: if_splits) (auto split: if_splits)
    next
      case (Mark m)
      then show ?thesis using reg [of q _ m] old \<open>q \<noteq> p\<close> by auto
    next
      case (Find i)
      with old obtain k where k: "?c k = q" "i \<le> k" by auto
      have "k \<noteq> n" using k(1) w(3) q0 Find by auto
      with k show ?thesis using Find by auto
    qed (use old w(3) q0 in auto)
  qed
  show ?thesis
    unfolding pinv_def
  proof (intro conjI allI impI)
    fix q assume "place (goto p (At n Idle) (s\<lparr>cpid := ?d\<rparr>)) q \<noteq> Out"
    then show "0 < q" "q \<in> P" using pinvD(3) [OF inv, of q] pp by (auto simp: goto_def split: if_splits)
  next
    fix q show "wf_place (cpid (goto p (At n Idle) (s\<lparr>cpid := ?d\<rparr>))) q (place (goto p (At n Idle) (s\<lparr>cpid := ?d\<rparr>)) q)"
      using other [of q] by (simp add: goto_def)
  next
    fix i j assume "cpid (goto p (At n Idle) (s\<lparr>cpid := ?d\<rparr>)) i \<noteq> 0"
      "cpid (goto p (At n Idle) (s\<lparr>cpid := ?d\<rparr>)) i = cpid (goto p (At n Idle) (s\<lparr>cpid := ?d\<rparr>)) j"
    then show "i = j" using pinvD(1) [OF inv, of i j] w(1) by (auto simp: goto_def split: if_splits)
  qed (use pinvD(2,5) [OF inv] w pp in \<open>auto simp: goto_def split: if_splits\<close>)
qed

lemma long_inc: "0 \<le> n \<Longrightarrow> n < 2 ^ 31 - 1 \<Longrightarrow> long (n + 1) = n + 1"
  by (rule long_id) simp_all

lemma pinv_step:
  assumes inv: "pinv P s" and st: "pstep p s t" and P: "finite P" "card P \<le> 63" "p \<in> P" and o: "orderly s"
  shows "pinv P t"
proof -
  have w: "wf_place (cpid s) p (place s p)" using pinvD(4) [OF inv] .
  have pp: "0 < p" if "place s p \<noteq> Out" using pinvD(3) [OF inv that] by simp
  have nn: "0 \<le> cnum s k" "cnum s k < 2 ^ 31 - 1" for k using pinvD(5) [OF inv] o by (auto simp: orderly_def)
  from st show ?thesis
  proof cases
    case (p_full n)
    show ?thesis unfolding p_full(1)
      by (rule pinv_goto [OF inv]) (use full_search [OF inv P(1,2) p_full(2)] pp nn p_full P in \<open>auto simp: goto_def\<close>)
  next
    case (p_mark n)
    then show ?thesis using pinv_mark [OF inv o] by simp
  next
    case (p_leave k)
    then have "cpid s k = p" "cpid s k \<noteq> 0" using w pp by auto
    then have "1 \<le> k" using pinvD(2) [OF inv, of k] by (simp add: lslot_def)
    with p_leave \<open>cpid s k = p\<close> show ?thesis
      by (intro pinv_goto [OF inv, of t p "Find 1"]) (use pp nn P in \<open>auto simp: goto_def\<close>)
  next
    case (p_miss i)
    with w obtain k where k: "cpid s k = p" "i \<le> k" by auto
    with p_miss have "Suc i \<le> k" by (metis le_antisym not_less_eq_eq)
    with p_miss k show ?thesis
      by (intro pinv_goto [OF inv, of t p "Find (Suc i)"]) (use pp nn P in \<open>auto simp: goto_def\<close>)
  next
    case (p_look i n)
    then show ?thesis
      by (intro pinv_goto [OF inv, of t p "Search (Suc i) (if cpid s i = 0 then i else n)"])
        (use w pp nn P in \<open>auto simp: goto_def less_Suc_eq\<close>)
  next
    case (p_choose k)
    then show ?thesis
      by (intro pinv_goto [OF inv, of t p "At k Chosen"]) (use w pp nn P in \<open>auto simp: goto_def long_inc\<close>)
  qed (rule pinv_goto [OF inv], use w pp nn P in \<open>auto simp: goto_def LSLOTS_def\<close>)+
qed

subsection \<open>What the slots do\<close>

text \<open>The state of the algorithm: a slot does what its process does.\<close>

fun phase_at :: "place \<Rightarrow> phase" where
  "phase_at (At k ph) = ph"
| "phase_at (Find i) = CS"
| "phase_at (Free i) = CS"
| "phase_at _ = Idle"

definition slots :: "lsys \<Rightarrow> lstate" where
  "slots s = \<lparr>choosing = cchoosing s, num = (\<lambda>k. nat (cnum s k)),
     pc = (\<lambda>k. if cpid s k = 0 then Idle else phase_at (place s (cpid s k)))\<rparr>"

lemma slots_sel [simp]:
  "choosing (slots s) = cchoosing s" "num (slots s) k = nat (cnum s k)"
  "pc (slots s) k = (if cpid s k = 0 then Idle else phase_at (place s (cpid s k)))"
  by (simp_all add: slots_def)

lemma slots_same:
  "phase_at x = phase_at (place s p) \<Longrightarrow> slots (goto p x s) = slots s"
  by (auto simp: slots_def goto_def)

text \<open>A process that has a slot is the only one that moves it.\<close>

lemma slots_goto:
  assumes inv: "pinv P s" and k: "cpid s k = p" "p \<noteq> 0"
  shows "slots (goto p x s) = (slots s)\<lparr>pc := (pc (slots s))(k := phase_at x)\<rparr>"
    and "slots (goto p x (s\<lparr>cchoosing := c\<rparr>)) = (slots s)\<lparr>choosing := c, pc := (pc (slots s))(k := phase_at x)\<rparr>"
    and "slots (goto p x (s\<lparr>cnum := (cnum s)(k := v)\<rparr>)) =
      (slots s)\<lparr>num := (num (slots s))(k := nat v), pc := (pc (slots s))(k := phase_at x)\<rparr>"
proof -
  have pc: "pc (slots (goto p x u)) = (pc (slots s))(k := phase_at x)"
    if "cpid u = cpid s" "place u = place s" for u
  proof
    fix j
    show "pc (slots (goto p x u)) j = ((pc (slots s))(k := phase_at x)) j"
    proof (cases "j = k")
      case True
      then show ?thesis using k that by (simp add: goto_def)
    next
      case False
      then have "cpid s j \<noteq> p" using k pinvD(1) [OF inv, of k j] by metis
      with False that show ?thesis by (simp add: goto_def)
    qed
  qed
  have eq: "slots (goto p x u) = (slots s)\<lparr>choosing := cchoosing u, num := (\<lambda>j. nat (cnum u j)),
      pc := (pc (slots s))(k := phase_at x)\<rparr>" if "cpid u = cpid s" "place u = place s" for u
    unfolding pc [OF that, symmetric] by (simp add: slots_def goto_def)
  show "slots (goto p x s) = (slots s)\<lparr>pc := (pc (slots s))(k := phase_at x)\<rparr>"
    "slots (goto p x (s\<lparr>cchoosing := c\<rparr>)) = (slots s)\<lparr>choosing := c, pc := (pc (slots s))(k := phase_at x)\<rparr>"
    by (subst eq, simp, simp, simp add: slots_def)+
  have "(\<lambda>j. nat (((cnum s)(k := v)) j)) = (num (slots s))(k := nat v)" by (simp add: fun_eq_iff)
  then show "slots (goto p x (s\<lparr>cnum := (cnum s)(k := v)\<rparr>)) =
      (slots s)\<lparr>num := (num (slots s))(k := nat v), pc := (pc (slots s))(k := phase_at x)\<rparr>"
    by (subst eq, simp, simp) (simp add: slots_def)
qed

lemma owner:
  assumes inv: "pinv P s" and p: "place s p = At k ph \<or> place s p = Free k"
  shows "cpid s k = p" "p \<noteq> 0" "lslot k" "1 \<le> k" "pc (slots s) k = phase_at (place s p)"
proof -
  show c: "cpid s k = p" using pinvD(4) [OF inv, of p] p by auto
  show p0: "p \<noteq> 0" using pinvD(3) [OF inv, of p] p by auto
  show "lslot k" using pinvD(2) [OF inv, of k] c p0 by simp
  then show "1 \<le> k" by (simp add: lslot_def)
  show "pc (slots s) k = phase_at (place s p)" using c p0 by simp
qed

lemma slots_before:
  assumes "pinv P s"
  shows "before (slots s) j k = goes_before s j k"
  using pinvD(5) [OF assms, of j] pinvD(5) [OF assms, of k] by (auto simp: before_def goes_before_def)

lemma slots_mark:
  assumes inv: "pinv P s" and p: "place s p = Mark n"
  shows "slots (goto p (At n Idle) (s\<lparr>cpid := (cpid s)(n := p)\<rparr>)) = slots s"
proof -
  have w: "\<And>k. cpid s k \<noteq> p" "cpid s n = 0" using pinvD(4) [OF inv, of p] p by auto
  have "pc (slots (goto p (At n Idle) (s\<lparr>cpid := (cpid s)(n := p)\<rparr>))) j = pc (slots s) j" for j
    using w by (cases "j = n") (simp_all add: goto_def)
  then have "pc (slots (goto p (At n Idle) (s\<lparr>cpid := (cpid s)(n := p)\<rparr>))) = pc (slots s)" by (rule ext)
  then show ?thesis by (simp add: slots_def goto_def)
qed

text \<open>The statements at a slot are the steps of the algorithm.\<close>

lemma slots_at:
  assumes inv: "pinv P s" and o: "orderly s" and at: "place s p = At k ph" and st: "pstep p s t"
  shows "slots t = slots s \<or> lstep k (slots s) (slots t)"
proof -
  note own = owner [OF inv disjI1 [OF at]]
  have pc: "pc (slots s) k = ph" using own(5) at by simp
  have nn: "0 \<le> cnum s j" "cnum s j < 2 ^ 31 - 1" for j using pinvD(5) [OF inv] o by (auto simp: orderly_def)
  note g = slots_goto [OF inv own(1,2)]
  from st show ?thesis
  proof cases
    case p_lock
    then show ?thesis using g(2) lstep.lock [OF own(3), of "slots s"] pc at by simp
  next
    case p_zero
    then show ?thesis using g(3) lstep.zero [OF own(3), of "slots s"] pc at by simp
  next
    case (p_scan l m)
    then have m: "m < LSLOTS" "ph = Scan m" "l = k" using at by auto
    have v: "nat (if m \<noteq> k \<and> cnum s k < cnum s m then cnum s m else cnum s k) =
        (if m \<noteq> k \<and> num (slots s) k < num (slots s) m then num (slots s) m else num (slots s) k)"
      using nn(1) [of k] nn(1) [of m] by simp
    from lstep.scan [OF own(3) pc [unfolded m(2)] m(1)] show ?thesis
      unfolding p_scan(1) m(3) g(3) v by simp
  next
    case (p_choose l)
    then have m: "ph = Scan LSLOTS" "l = k" using at by auto
    have v: "nat (long (cnum s k + 1)) = Suc (num (slots s) k)" using nn [of k] by (simp add: long_inc)
    from lstep.choose [OF own(3) pc [unfolded m(1)]] show ?thesis
      unfolding p_choose(1) m(2) g(3) v by simp
  next
    case p_chosen
    then show ?thesis using g(2) lstep.chosen [OF own(3), of "slots s"] pc at by simp
  next
    case (p_waitc l j)
    then have m: "ph = WaitC j" "l = k" using at by auto
    from lstep.waitc [OF own(3) pc [unfolded m(1)]] show ?thesis using g(1) p_waitc m by simp
  next
    case (p_waitn l j)
    then have m: "ph = WaitN j" "l = k" using at by auto
    from lstep.waitn [OF own(3) pc [unfolded m(1)]] show ?thesis
      using g(1) p_waitn m by (simp add: slots_before [OF inv])
  next
    case p_enter
    then show ?thesis using g(1) lstep.enter [OF own(3), of "slots s"] pc at by simp
  next
    case p_leave
    then show ?thesis using slots_same [of "Find 1" s p] at by simp
  qed (use at in simp_all)
qed

lemma slots_step:
  assumes inv: "pinv P s" and o: "orderly s" and st: "pstep p s t"
  shows "slots t = slots s \<or> (\<exists>k. lstep k (slots s) (slots t))"
proof (cases "place s p")
  case (At k ph)
  then show ?thesis using slots_at [OF inv o At st] by blast
next
  case (Mark n)
  with st have "t = goto p (At n Idle) (s\<lparr>cpid := (cpid s)(n := p)\<rparr>)" by cases auto
  with slots_mark [OF inv Mark] show ?thesis by simp
next
  case (Free k)
  note own = owner [OF inv disjI2 [OF Free]]
  from st Free have t: "t = goto p Out (s\<lparr>cnum := (cnum s)(k := 0)\<rparr>)" by cases auto
  have "lstep k (slots s) (slots t)"
    using slots_goto(3) [OF inv own(1,2), of Out 0] lstep.unlock [OF own(3), of "slots s"] own(5) Free t by simp
  then show ?thesis by blast
next
  case (Find i)
  obtain k where "cpid s k = p" "i \<le> k" using pinvD(4) [OF inv, of p] Find by auto
  moreover have "p \<noteq> 0" using pinvD(3) [OF inv, of p] Find by auto
  ultimately have "i < LSLOTS" using pinvD(2) [OF inv, of k] by (auto simp: lslot_def)
  with st Find show ?thesis using slots_same [of _ s p] by cases auto
next
  case Out
  with st show ?thesis using slots_same [of _ s p] by cases auto
next
  case (Search i n)
  with st show ?thesis using slots_same [of _ s p] by cases auto
qed

lemma reached_slots:
  assumes "reached orderly P s" and P: "finite P" "card P \<le> 63"
  shows "pinv P s \<and> orderly s \<and> lreachable (slots s)"
  using assms(1)
proof (induction rule: reached.induct)
  case start
  have "slots lempty = \<lparr>choosing = (\<lambda>_. False), num = (\<lambda>_. 0), pc = (\<lambda>_. Idle)\<rparr>"
    by (simp add: slots_def lempty_def)
  then show ?case
    using lreachable.init by (simp add: pinv_def orderly_def lempty_def registering_def)
next
  case (run s p t)
  then show ?case
    using pinv_step [OF _ run.hyps(3) P run.hyps(2)] slots_step [of P s p t] lreachable.step by metis
qed

lemma holding_slot:
  assumes inv: "pinv P s" and h: "holding (place s p)"
  obtains k where "cpid s k = p" "p \<noteq> 0" "pc (slots s) k = CS"
proof -
  have p0: "p \<noteq> 0" using pinvD(3) [OF inv, of p] h by (cases "place s p") auto
  moreover obtain k where "cpid s k = p"
    using pinvD(4) [OF inv, of p] h by (cases "place s p") (auto elim: holding.elims)
  moreover have "phase_at (place s p) = CS" using h by (cases "place s p" rule: holding.cases) auto
  ultimately show thesis using that [of k] by simp
qed

text \<open>C8: however the statements of up to 63 processes interleave, no two of them hold the lock at the same
  time, from the end of \<open>lamportLock\<close> until \<open>lamportUnlock\<close> has cleared the number; each process works on a
  slot that is its own, and while one holds the lock, every process that has finished choosing a number comes
  after it in the order of numbers and slots. This includes the search for the slot and its claim. Assumed is
  \<open>orderly\<close>, in every state on the way: no two processes that have no slot yet are in the search for one at
  the same time (without this it is false, see \<open>lamport_slot_race\<close>; the kernel, which does not preempt itself,
  keeps to it), and no number reaches the largest \<open>int\<close>. A statement, with all the cells it reads, is one step.\<close>

theorem lamport_mutual_exclusion:
  assumes "reached orderly P s" and "finite P" and "card P \<le> 63" and "holding (place s p)"
  shows "(holding (place s q) \<longrightarrow> q = p) \<and>
    (\<exists>k. cpid s k = p \<and>
      (\<forall>l ph. place s q = At l ph \<longrightarrow> cpid s l = q \<and> (q \<noteq> p \<and> waiting ph \<longrightarrow> goes_before s k l)))"
proof -
  from reached_slots [OF assms(1-3)] have inv: "pinv P s" and r: "lreachable (slots s)" by auto
  from holding_slot [OF inv assms(4)] obtain k where k: "cpid s k = p" "p \<noteq> 0" "pc (slots s) k = CS" .
  have "q = p" if h: "holding (place s q)"
  proof -
    from holding_slot [OF inv h] obtain l where l: "cpid s l = q" "pc (slots s) l = CS" .
    then have "l = k" using slots_exclude [OF r k(3), of l] by blast
    then show ?thesis using k(1) l(1) by simp
  qed
  moreover have "cpid s l = q \<and> (q \<noteq> p \<and> waiting ph \<longrightarrow> goes_before s k l)" if at: "place s q = At l ph" for l ph
  proof -
    note own = owner [OF inv disjI1 [OF at]]
    have "goes_before s k l" if "q \<noteq> p" "waiting ph"
      using slots_exclude [OF r k(3), of l] own(1,5) at that k(1) by (auto simp: slots_before [OF inv])
    then show ?thesis using own(1) by blast
  qed
  ultimately show ?thesis using k(1) by blast
qed

subsection \<open>A process that runs alone\<close>

text \<open>The search of an empty table: it ends with the last slot.\<close>

lemma search_alone:
  assumes r: "reached G P s" and p: "p \<in> P" "0 < p" "place s p = Out" and empty: "\<forall>i. cpid s i = 0"
    and G: "\<And>x. G (goto p x s)"
  shows "reached G P (goto p (Mark 63) s)"
proof -
  have two: "goto p x (goto p y s) = goto p x s" for x y by (simp add: goto_def)
  have next1: "reached G P (goto p y s)" if "reached G P (goto p x s)" "pstep p (goto p x s) (goto p y s)" for x y
    using reached.run [OF that(1) p(1) that(2) G] .
  have pl: "place (goto p x s) p = x" "cpid (goto p x s) i = 0" for x i using empty by (simp_all add: goto_def)
  have "m \<le> 63 \<Longrightarrow> reached G P (goto p (Search (Suc m) m) s)" for m
  proof (induction m)
    case 0
    have "pstep p s (goto p (Search 1 0) s)" using p(2,3) by (rule pstep.p_call)
    then show ?case using reached.run [OF r p(1) _ G] by simp
  next
    case (Suc m)
    have "pstep p (goto p (Search (Suc m) m) s) (goto p (Search (Suc (Suc m)) (Suc m)) (goto p (Search (Suc m) m) s))"
      using pstep.p_look [OF pl(1)] pl(2) Suc.prems p(2) by (simp add: LSLOTS_def)
    with Suc show ?case using next1 unfolding two by simp
  qed
  from this [of 63] have "reached G P (goto p (Search LSLOTS 63) s)" by (simp add: LSLOTS_def)
  from next1 [OF this] show ?thesis using pstep.p_full [OF pl(1), of 63] unfolding two by simp
qed

text \<open>The lock, when nobody else is in it.\<close>

definition in_lock :: "int \<Rightarrow> nat \<Rightarrow> bool \<Rightarrow> int \<Rightarrow> phase \<Rightarrow> lsys \<Rightarrow> lsys" where
  "in_lock p k c n ph s = goto p (At k ph) (s\<lparr>cchoosing := (cchoosing s)(k := c), cnum := (cnum s)(k := n)\<rparr>)"

lemma in_lock_sel [simp]:
  "place (in_lock p k c n ph s) = (place s)(p := At k ph)" "cpid (in_lock p k c n ph s) = cpid s"
  "cchoosing (in_lock p k c n ph s) = (cchoosing s)(k := c)" "cnum (in_lock p k c n ph s) = (cnum s)(k := n)"
  by (simp_all add: in_lock_def goto_def)

lemma in_lock_step:
  "goto p (At k x) (in_lock p k c n ph s) = in_lock p k c n x s"
  "goto p (At k x) ((in_lock p k c n ph s)\<lparr>cchoosing := (cchoosing (in_lock p k c n ph s))(k := d)\<rparr>) = in_lock p k d n x s"
  "goto p (At k x) ((in_lock p k c n ph s)\<lparr>cnum := (cnum (in_lock p k c n ph s))(k := m)\<rparr>) = in_lock p k c m x s"
  by (simp_all add: in_lock_def goto_def)

lemma lock_alone:
  assumes r: "reached G P s" and p: "p \<in> P" "place s p = At k Idle"
    and others: "\<forall>j. j \<noteq> k \<longrightarrow> cnum s j = 0 \<and> \<not> cchoosing s j"
    and G: "\<And>c n x. n \<in> {0, 1, cnum s k} \<Longrightarrow> G (in_lock p k c n x s)"
  shows "reached G P (in_lock p k False 1 CS s)"
proof -
  let ?n = "cnum s k"
  have R: "reached G P (in_lock p k c n x s)"
    if "reached G P u" "pstep p u (in_lock p k c n x s)" "n \<in> {0, 1, ?n}" for u c n x
    using reached.run [OF that(1) p(1) that(2) G [OF that(3)]] .
  have at: "place (in_lock p k c n ph s) p = At k ph" for c n ph by simp
  have a: "reached G P (in_lock p k True ?n Enter s)"
    using R [OF r, of True ?n Enter] pstep.p_lock [OF p(2)] by (simp add: in_lock_def)
  have b: "reached G P (in_lock p k True 0 (Scan 1) s)"
    using R [OF a] pstep.p_zero [OF at, of True ?n] unfolding in_lock_step by blast
  have "m \<le> 63 \<Longrightarrow> reached G P (in_lock p k True 0 (Scan (Suc m)) s)" for m
  proof (induction m)
    case 0
    then show ?case using b by simp
  next
    case (Suc m)
    have "(if Suc m \<noteq> k \<and> cnum (in_lock p k True 0 (Scan (Suc m)) s) k < cnum (in_lock p k True 0 (Scan (Suc m)) s) (Suc m)
       then cnum (in_lock p k True 0 (Scan (Suc m)) s) (Suc m) else cnum (in_lock p k True 0 (Scan (Suc m)) s) k) = 0"
      using others by simp
    then have "pstep p (in_lock p k True 0 (Scan (Suc m)) s) (in_lock p k True 0 (Scan (Suc (Suc m))) s)"
      using pstep.p_scan [OF at, of "Suc m" True 0] Suc.prems unfolding in_lock_step by (simp add: LSLOTS_def)
    then show ?case using R [OF Suc.IH] Suc.prems by simp
  qed
  from this [of 63] have c: "reached G P (in_lock p k True 0 (Scan LSLOTS) s)" by (simp add: LSLOTS_def)
  have "long (cnum (in_lock p k True 0 (Scan LSLOTS) s) k + 1) = 1" by (simp add: long_def)
  then have d: "reached G P (in_lock p k True 1 Chosen s)"
    using R [OF c] pstep.p_choose [OF at, of True 0] unfolding in_lock_step by simp
  have e: "reached G P (in_lock p k False 1 (WaitC 0) s)"
    using R [OF d] pstep.p_chosen [OF at, of True 1] unfolding in_lock_step by simp
  have "m \<le> 64 \<Longrightarrow> reached G P (in_lock p k False 1 (WaitC m) s)" for m
  proof (induction m)
    case 0
    show ?case by (rule e)
  next
    case (Suc m)
    have "\<not> cchoosing (in_lock p k False 1 (WaitC m) s) m" using others by simp
    then have f: "reached G P (in_lock p k False 1 (WaitN m) s)"
      using R [OF Suc.IH] pstep.p_waitc [OF at, of m False 1] Suc.prems unfolding in_lock_step by (simp add: LSLOTS_def)
    have "\<not> goes_before (in_lock p k False 1 (WaitN m) s) m k" using others by (simp add: goes_before_def)
    then show ?case using R [OF f] pstep.p_waitn [of "in_lock p k False 1 (WaitN m) s" p k m]
      unfolding in_lock_step by simp
  qed
  from this [of 64] have f: "reached G P (in_lock p k False 1 (WaitC LSLOTS) s)" by (simp add: LSLOTS_def)
  show ?thesis using R [OF f] pstep.p_enter [OF at, of False 1] unfolding in_lock_step by simp
qed

text \<open>The first process that calls \<open>lamportLock\<close> gets the last slot and the lock.\<close>

lemma first_process_gets:
  "reached orderly {5} (in_lock 5 63 False 1 CS (lempty\<lparr>cpid := (cpid lempty)(63 := 5), place := (place lempty)(5 := At 63 Idle)\<rparr>))"
proof -
  let ?m = "goto 5 (Mark 63) lempty"
  let ?t = "lempty\<lparr>cpid := (cpid lempty)(63 := 5), place := (place lempty)(5 := At 63 Idle)\<rparr>"
  have "orderly (goto 5 x lempty)" for x
    by (auto simp: orderly_def registering_def goto_def lempty_def split: if_splits)
  then have m: "reached orderly {5} ?m"
    by (intro search_alone reached.start) (simp_all add: lempty_def)
  have at: "place ?m 5 = Mark 63" by (simp add: goto_def)
  have o: "orderly (u\<lparr>place := (place lempty)(5 := At 63 ph)\<rparr>)" if "\<forall>k. cnum u k < 2 ^ 31 - 1" for u ph
    using that by (auto simp: orderly_def registering_def lempty_def)
  have "goto 5 (At 63 Idle) (?m\<lparr>cpid := (cpid ?m)(63 := 5)\<rparr>) = ?t" by (simp add: goto_def)
  then have t: "reached orderly {5} ?t"
    using reached.run [OF m _ pstep.p_mark [OF at]] o [of "?t" Idle] by (simp add: lempty_def)
  show ?thesis
  proof (rule lock_alone [OF t])
    fix c n x assume "n \<in> {0, 1, cnum ?t 63}"
    then show "orderly (in_lock 5 63 c n x ?t)"
      using o [of "in_lock 5 63 c n x ?t" x] by (auto simp: in_lock_def goto_def lempty_def)
  qed (simp_all add: lempty_def)
qed

theorem lamport_mutual_exclusion_witness:
  "\<exists>s. reached orderly {5} s \<and> holding (place s 5) \<and> \<not> holding (place s 6)"
proof -
  let ?s = "in_lock 5 63 False 1 CS (lempty\<lparr>cpid := (cpid lempty)(63 := 5), place := (place lempty)(5 := At 63 Idle)\<rparr>)"
  have h: "holding (place ?s 5)" by simp
  from lamport_mutual_exclusion [OF first_process_gets _ _ h, of 6] have "\<not> holding (place ?s 6)" by auto
  with first_process_gets h show ?thesis by blast
qed

text \<open>
  Without the condition two processes share a slot and the lock: both search the empty table and find slot 63,
  the first claims it and gets the lock, and the second claims the same slot and gets the lock too, since its
  number is the only one.
\<close>

theorem lamport_slot_race:
  "\<exists>s. reached (\<lambda>_. True) {1, 2} s \<and> place s 1 = At 63 CS \<and> place s 2 = At 63 CS"
proof -
  let ?G = "\<lambda>_ :: lsys. True" and ?P = "{1, 2} :: int set"
  let ?a = "goto 1 (Mark 63) lempty"
  have "reached ?G ?P ?a" by (intro search_alone reached.start) (simp_all add: lempty_def)
  then have b: "reached ?G ?P (goto 2 (Mark 63) ?a)" by (rule search_alone) (simp_all add: lempty_def goto_def)
  let ?b = "goto 2 (Mark 63) ?a"
  let ?c = "goto 1 (At 63 Idle) (?b\<lparr>cpid := (cpid ?b)(63 := 1)\<rparr>)"
  have "pstep 1 ?b ?c" by (rule pstep.p_mark) (simp add: goto_def)
  then have c: "reached ?G ?P ?c" by (rule reached.run [OF b, rotated]) simp_all
  let ?d = "in_lock 1 63 False 1 CS ?c"
  have d: "reached ?G ?P ?d" by (rule lock_alone [OF c]) (simp_all add: goto_def lempty_def)
  let ?e = "goto 2 (At 63 Idle) (?d\<lparr>cpid := (cpid ?d)(63 := 2)\<rparr>)"
  have "pstep 2 ?d ?e" by (rule pstep.p_mark) (simp add: goto_def)
  then have e: "reached ?G ?P ?e" by (rule reached.run [OF d, rotated]) simp_all
  have "reached ?G ?P (in_lock 2 63 False 1 CS ?e)" by (rule lock_alone [OF e]) (simp_all add: goto_def lempty_def)
  then show ?thesis by (intro exI [of _ "in_lock 2 63 False 1 CS ?e"]) (simp add: goto_def)
qed

end
