(* ===== verification/FsTypes.thy ===== *)
theory FsTypes
  imports UserMem Timers
begin

text \<open>
  The data of the file system, \<open>include/linux/fs.h\<close> and \<open>kernel/blk_drv/blk.h\<close>, on top of the
  state of the kernel. A pointer into one of the static tables (buffers, inodes, files, super
  blocks, requests) is its index there, or \<open>None\<close> for \<open>NULL\<close>; the integers that are stored keep
  their width. A buffer carries the 1024 bytes its \<open>b_data\<close> points to. The inode in memory extends
  the inode on disk, and the super block in memory the one on disk, as the C structures do. The \<open>buffer\<close> of a request is its
  offset in the data of the buffer \<open>bh\<close>.
\<close>

definition READ :: int where "READ = 0"
definition WRITE :: int where "WRITE = 1"
definition READA :: int where "READA = 2"
definition WRITEA :: int where "WRITEA = 3"

lemmas rw_defs = READ_def WRITE_def READA_def WRITEA_def

definition MAJOR :: "u16 \<Rightarrow> nat" where "MAJOR a = unat (drop_bit 8 a)"
definition MINOR :: "u16 \<Rightarrow> nat" where "MINOR a = unat (a AND 0xFF)"

definition NAME_LEN :: nat where "NAME_LEN = 14"
definition ROOT_INO :: u16 where "ROOT_INO = 1"
definition I_MAP_SLOTS :: nat where "I_MAP_SLOTS = 8"
definition Z_MAP_SLOTS :: nat where "Z_MAP_SLOTS = 8"
definition SUPER_MAGIC :: u16 where "SUPER_MAGIC = 0x137F"
definition NR_INODE :: nat where "NR_INODE = 32"
definition NR_FILE :: nat where "NR_FILE = 64"
definition NR_SUPER :: nat where "NR_SUPER = 8"
definition NR_HASH :: nat where "NR_HASH = 307"
definition BLOCK_SIZE :: nat where "BLOCK_SIZE = 1024"
definition INODES_PER_BLOCK :: nat where "INODES_PER_BLOCK = 32"
definition DIR_ENTRIES_PER_BLOCK :: nat where "DIR_ENTRIES_PER_BLOCK = 64"
definition NR_BLK_DEV :: nat where "NR_BLK_DEV = 7"
definition NR_REQUEST :: nat where "NR_REQUEST = 32"

record buffer_head =
  b_data :: "u8 list"
  b_blocknr :: u32
  b_dev :: u16
  b_uptodate :: bool
  b_dirt :: bool
  b_count :: u8
  b_lock :: bool
  b_wait :: "nat option"
  b_prev :: "nat option"
  b_next :: "nat option"
  b_prev_free :: "nat option"
  b_next_free :: "nat option"

record d_inode =
  i_mode :: u16
  i_uid :: u16
  i_size :: u32
  i_mtime :: u32
  i_gid :: u8
  i_nlinks :: u8
  i_zone :: "u16 list"

record m_inode = d_inode +
  i_wait :: "nat option"
  i_atime :: u32
  i_ctime :: u32
  i_dev :: u16
  i_num :: u16
  i_count :: u16
  i_lock :: bool
  i_dirt :: bool
  i_pipe :: bool
  i_mount :: bool
  i_seek :: bool
  i_update :: bool

record file_s =
  f_mode :: u16
  f_flags :: u16
  f_count :: u16
  f_inode :: "nat option"
  f_pos :: u32

record d_super_block =
  s_ninodes :: u16
  s_nzones :: u16
  s_imap_blocks :: u16
  s_zmap_blocks :: u16
  s_firstdatazone :: u16
  s_log_zone_size :: u16
  s_max_size :: u32
  s_magic :: u16

record super_block = d_super_block +
  s_imap :: "nat option list"
  s_zmap :: "nat option list"
  s_dev :: u16
  s_isup :: "nat option"
  s_imount :: "nat option"
  s_time :: u32
  s_wait :: "nat option"
  s_lock :: bool
  s_rd_only :: bool
  s_dirt :: bool

record request =
  rq_dev :: int
  rq_cmd :: int
  rq_errors :: int
  rq_sector :: u32
  rq_nr_sectors :: u32
  rq_buffer :: nat
  rq_waiting :: "nat option"
  rq_bh :: "nat option"
  rq_next :: "nat option"

text \<open>
  The state. \<open>request_fn\<close> says which major numbers have a driver. The memory of the RAM disk is
  \<open>rdmem\<close>; the contents of the other disks, \<open>disk\<close>, belong to the environment: \<open>None\<close> is a block
  that cannot be transferred; so is \<open>floppy_change\<close>, whether a floppy has been changed. \<open>start_buffer\<close> is the address of the first buffer head.
\<close>

record fs = timers +
  buffers :: "buffer_head list"
  hash_table :: "nat option list"
  free_head :: nat
  buffer_wait :: "nat option"
  start_buffer :: u32
  requests :: "request list"
  current_request :: "nat option list"
  request_fn :: "nat \<Rightarrow> bool"
  wait_for_request :: "nat option"
  rd_start :: u32
  rd_length :: u32
  rdmem :: "u32 \<Rightarrow> u8"
  disk :: "u16 \<Rightarrow> u32 \<Rightarrow> u8 list option"
  floppy_change :: "nat \<Rightarrow> bool"
  ROOT_DEV :: u16
  inode_table :: "m_inode list"
  last_inode :: nat
  file_table :: "file_s list"
  super_blocks :: "super_block list"

definition bf :: "'a fs_scheme \<Rightarrow> nat \<Rightarrow> buffer_head" where
  "bf s i = buffers s ! i"

definition set_bf :: "nat \<Rightarrow> (buffer_head \<Rightarrow> buffer_head) \<Rightarrow> 'a fs_scheme \<Rightarrow> 'a fs_scheme" where
  "set_bf i f s = s\<lparr>buffers := (buffers s)[i := f (buffers s ! i)]\<rparr>"

definition ino :: "'a fs_scheme \<Rightarrow> nat \<Rightarrow> m_inode" where
  "ino s i = inode_table s ! i"

definition set_ino :: "nat \<Rightarrow> (m_inode \<Rightarrow> m_inode) \<Rightarrow> 'a fs_scheme \<Rightarrow> 'a fs_scheme" where
  "set_ino i f s = s\<lparr>inode_table := (inode_table s)[i := f (inode_table s ! i)]\<rparr>"

definition fil :: "'a fs_scheme \<Rightarrow> nat \<Rightarrow> file_s" where
  "fil s i = file_table s ! i"

definition set_fil :: "nat \<Rightarrow> (file_s \<Rightarrow> file_s) \<Rightarrow> 'a fs_scheme \<Rightarrow> 'a fs_scheme" where
  "set_fil i f s = s\<lparr>file_table := (file_table s)[i := f (file_table s ! i)]\<rparr>"

definition sbl :: "'a fs_scheme \<Rightarrow> nat \<Rightarrow> super_block" where
  "sbl s i = super_blocks s ! i"

definition set_sb :: "nat \<Rightarrow> (super_block \<Rightarrow> super_block) \<Rightarrow> 'a fs_scheme \<Rightarrow> 'a fs_scheme" where
  "set_sb i f s = s\<lparr>super_blocks := (super_blocks s)[i := f (super_blocks s ! i)]\<rparr>"

definition rq :: "'a fs_scheme \<Rightarrow> nat \<Rightarrow> request" where
  "rq s i = requests s ! i"

definition set_rq :: "nat \<Rightarrow> (request \<Rightarrow> request) \<Rightarrow> 'a fs_scheme \<Rightarrow> 'a fs_scheme" where
  "set_rq i f s = s\<lparr>requests := (requests s)[i := f (requests s ! i)]\<rparr>"

text \<open>The current time, as it is stored in an inode.\<close>

definition now :: "'a fs_scheme \<Rightarrow> u32" where
  "now s = of_int (CURRENT_TIME s)"

text \<open>Putting the current task to sleep on a queue that lives in the state; the call is cut there.\<close>

definition sleep_in ::
    "nat option \<Rightarrow> (nat option \<Rightarrow> 'a fs_scheme \<Rightarrow> 'a fs_scheme) \<Rightarrow> 'a fs_scheme \<Rightarrow>
     ('b, 'a fs_scheme) res" where
  "sleep_in q set_q s = bind (sleep_on_enter q s) (\<lambda>q t. Sleeps (set_q q t))"

lemma sleep_in_not_Ok [simp]: "sleep_in q f s \<noteq> Ok v t"
  by (simp add: sleep_in_def bind_eq_Ok)

subsection \<open>Updates of the tables\<close>

lemma set_bf_simps [simp]:
  "buffers (set_bf i f s) = (buffers s)[i := f (buffers s ! i)]"
  "mem_map (set_bf i f s) = mem_map s" "HIGH_MEMORY (set_bf i f s) = HIGH_MEMORY s"
  "phys (set_bf i f s) = phys s" "live (set_bf i f s) = live s" "ts (set_bf i f s) = ts s"
  "current (set_bf i f s) = current s" "jiffies (set_bf i f s) = jiffies s"
  "startup_time (set_bf i f s) = startup_time s" "last_pid (set_bf i f s) = last_pid s"
  "last_task_used_math (set_bf i f s) = last_task_used_math s" "user (set_bf i f s) = user s"
  "hash_table (set_bf i f s) = hash_table s" "free_head (set_bf i f s) = free_head s"
  "buffer_wait (set_bf i f s) = buffer_wait s" "start_buffer (set_bf i f s) = start_buffer s"
  "requests (set_bf i f s) = requests s" "current_request (set_bf i f s) = current_request s"
  "request_fn (set_bf i f s) = request_fn s" "wait_for_request (set_bf i f s) = wait_for_request s"
  "rd_start (set_bf i f s) = rd_start s" "rd_length (set_bf i f s) = rd_length s"
  "rdmem (set_bf i f s) = rdmem s" "disk (set_bf i f s) = disk s"
  "floppy_change (set_bf i f s) = floppy_change s"
  "ROOT_DEV (set_bf i f s) = ROOT_DEV s" "inode_table (set_bf i f s) = inode_table s"
  "last_inode (set_bf i f s) = last_inode s" "file_table (set_bf i f s) = file_table s"
  "super_blocks (set_bf i f s) = super_blocks s" "cur (set_bf i f s) = cur s"
  "fs.more (set_bf i f s) = fs.more s" "ino (set_bf i f s) = ino s" "fil (set_bf i f s) = fil s"
  "sbl (set_bf i f s) = sbl s" "rq (set_bf i f s) = rq s"
  by (simp_all add: set_bf_def cur_def bf_def ino_def fil_def sbl_def rq_def fun_eq_iff)

lemma bf_set_bf:
  "bf (set_bf i f s) j = (if j = i \<and> i < length (buffers s) then f (bf s i) else bf s j)"
  by (cases "i < length (buffers s)") (simp_all add: bf_def list_update_beyond)

lemma bf_set_bf_same [simp]: "i < length (buffers s) \<Longrightarrow> bf (set_bf i f s) i = f (bf s i)"
  by (simp add: bf_set_bf)

lemma bf_set_bf_other [simp]: "j \<noteq> i \<Longrightarrow> bf (set_bf i f s) j = bf s j"
  by (simp add: bf_set_bf)

lemma set_ino_simps [simp]:
  "inode_table (set_ino i f s) = (inode_table s)[i := f (inode_table s ! i)]"
  "mem_map (set_ino i f s) = mem_map s" "HIGH_MEMORY (set_ino i f s) = HIGH_MEMORY s"
  "phys (set_ino i f s) = phys s" "live (set_ino i f s) = live s" "ts (set_ino i f s) = ts s"
  "current (set_ino i f s) = current s" "jiffies (set_ino i f s) = jiffies s"
  "startup_time (set_ino i f s) = startup_time s" "last_pid (set_ino i f s) = last_pid s"
  "last_task_used_math (set_ino i f s) = last_task_used_math s" "user (set_ino i f s) = user s"
  "buffers (set_ino i f s) = buffers s" "hash_table (set_ino i f s) = hash_table s"
  "free_head (set_ino i f s) = free_head s" "buffer_wait (set_ino i f s) = buffer_wait s"
  "start_buffer (set_ino i f s) = start_buffer s" "requests (set_ino i f s) = requests s"
  "current_request (set_ino i f s) = current_request s" "request_fn (set_ino i f s) = request_fn s"
  "wait_for_request (set_ino i f s) = wait_for_request s" "rd_start (set_ino i f s) = rd_start s"
  "rd_length (set_ino i f s) = rd_length s" "rdmem (set_ino i f s) = rdmem s"
  "disk (set_ino i f s) = disk s"
  "floppy_change (set_ino i f s) = floppy_change s" "ROOT_DEV (set_ino i f s) = ROOT_DEV s"
  "last_inode (set_ino i f s) = last_inode s" "file_table (set_ino i f s) = file_table s"
  "super_blocks (set_ino i f s) = super_blocks s" "cur (set_ino i f s) = cur s"
  "fs.more (set_ino i f s) = fs.more s" "bf (set_ino i f s) = bf s" "fil (set_ino i f s) = fil s"
  "sbl (set_ino i f s) = sbl s" "rq (set_ino i f s) = rq s"
  by (simp_all add: set_ino_def cur_def bf_def ino_def fil_def sbl_def rq_def fun_eq_iff)

lemma ino_set_ino:
  "ino (set_ino i f s) j = (if j = i \<and> i < length (inode_table s) then f (ino s i) else ino s j)"
  by (cases "i < length (inode_table s)") (simp_all add: ino_def list_update_beyond)

lemma ino_set_ino_same [simp]: "i < length (inode_table s) \<Longrightarrow> ino (set_ino i f s) i = f (ino s i)"
  by (simp add: ino_set_ino)

lemma ino_set_ino_other [simp]: "j \<noteq> i \<Longrightarrow> ino (set_ino i f s) j = ino s j"
  by (simp add: ino_set_ino)

lemma set_fil_simps [simp]:
  "file_table (set_fil i f s) = (file_table s)[i := f (file_table s ! i)]"
  "mem_map (set_fil i f s) = mem_map s" "HIGH_MEMORY (set_fil i f s) = HIGH_MEMORY s"
  "phys (set_fil i f s) = phys s" "live (set_fil i f s) = live s" "ts (set_fil i f s) = ts s"
  "current (set_fil i f s) = current s" "jiffies (set_fil i f s) = jiffies s"
  "startup_time (set_fil i f s) = startup_time s" "last_pid (set_fil i f s) = last_pid s"
  "last_task_used_math (set_fil i f s) = last_task_used_math s" "user (set_fil i f s) = user s"
  "buffers (set_fil i f s) = buffers s" "hash_table (set_fil i f s) = hash_table s"
  "free_head (set_fil i f s) = free_head s" "buffer_wait (set_fil i f s) = buffer_wait s"
  "start_buffer (set_fil i f s) = start_buffer s" "requests (set_fil i f s) = requests s"
  "current_request (set_fil i f s) = current_request s" "request_fn (set_fil i f s) = request_fn s"
  "wait_for_request (set_fil i f s) = wait_for_request s" "rd_start (set_fil i f s) = rd_start s"
  "rd_length (set_fil i f s) = rd_length s" "rdmem (set_fil i f s) = rdmem s"
  "disk (set_fil i f s) = disk s"
  "floppy_change (set_fil i f s) = floppy_change s" "ROOT_DEV (set_fil i f s) = ROOT_DEV s"
  "inode_table (set_fil i f s) = inode_table s" "last_inode (set_fil i f s) = last_inode s"
  "super_blocks (set_fil i f s) = super_blocks s" "cur (set_fil i f s) = cur s"
  "fs.more (set_fil i f s) = fs.more s" "bf (set_fil i f s) = bf s" "ino (set_fil i f s) = ino s"
  "sbl (set_fil i f s) = sbl s" "rq (set_fil i f s) = rq s"
  by (simp_all add: set_fil_def cur_def bf_def ino_def fil_def sbl_def rq_def fun_eq_iff)

lemma fil_set_fil:
  "fil (set_fil i f s) j = (if j = i \<and> i < length (file_table s) then f (fil s i) else fil s j)"
  by (cases "i < length (file_table s)") (simp_all add: fil_def list_update_beyond)

lemma fil_set_fil_same [simp]: "i < length (file_table s) \<Longrightarrow> fil (set_fil i f s) i = f (fil s i)"
  by (simp add: fil_set_fil)

lemma fil_set_fil_other [simp]: "j \<noteq> i \<Longrightarrow> fil (set_fil i f s) j = fil s j"
  by (simp add: fil_set_fil)

lemma set_sb_simps [simp]:
  "super_blocks (set_sb i f s) = (super_blocks s)[i := f (super_blocks s ! i)]"
  "mem_map (set_sb i f s) = mem_map s" "HIGH_MEMORY (set_sb i f s) = HIGH_MEMORY s"
  "phys (set_sb i f s) = phys s" "live (set_sb i f s) = live s" "ts (set_sb i f s) = ts s"
  "current (set_sb i f s) = current s" "jiffies (set_sb i f s) = jiffies s"
  "startup_time (set_sb i f s) = startup_time s" "last_pid (set_sb i f s) = last_pid s"
  "last_task_used_math (set_sb i f s) = last_task_used_math s" "user (set_sb i f s) = user s"
  "buffers (set_sb i f s) = buffers s" "hash_table (set_sb i f s) = hash_table s"
  "free_head (set_sb i f s) = free_head s" "buffer_wait (set_sb i f s) = buffer_wait s"
  "start_buffer (set_sb i f s) = start_buffer s" "requests (set_sb i f s) = requests s"
  "current_request (set_sb i f s) = current_request s" "request_fn (set_sb i f s) = request_fn s"
  "wait_for_request (set_sb i f s) = wait_for_request s" "rd_start (set_sb i f s) = rd_start s"
  "rd_length (set_sb i f s) = rd_length s" "rdmem (set_sb i f s) = rdmem s"
  "disk (set_sb i f s) = disk s"
  "floppy_change (set_sb i f s) = floppy_change s" "ROOT_DEV (set_sb i f s) = ROOT_DEV s"
  "inode_table (set_sb i f s) = inode_table s" "last_inode (set_sb i f s) = last_inode s"
  "file_table (set_sb i f s) = file_table s" "cur (set_sb i f s) = cur s"
  "fs.more (set_sb i f s) = fs.more s" "bf (set_sb i f s) = bf s" "ino (set_sb i f s) = ino s"
  "fil (set_sb i f s) = fil s" "rq (set_sb i f s) = rq s"
  by (simp_all add: set_sb_def cur_def bf_def ino_def fil_def sbl_def rq_def fun_eq_iff)

lemma sbl_set_sb:
  "sbl (set_sb i f s) j = (if j = i \<and> i < length (super_blocks s) then f (sbl s i) else sbl s j)"
  by (cases "i < length (super_blocks s)") (simp_all add: sbl_def list_update_beyond)

lemma sbl_set_sb_same [simp]: "i < length (super_blocks s) \<Longrightarrow> sbl (set_sb i f s) i = f (sbl s i)"
  by (simp add: sbl_set_sb)

lemma sbl_set_sb_other [simp]: "j \<noteq> i \<Longrightarrow> sbl (set_sb i f s) j = sbl s j"
  by (simp add: sbl_set_sb)

lemma set_rq_simps [simp]:
  "requests (set_rq i f s) = (requests s)[i := f (requests s ! i)]"
  "mem_map (set_rq i f s) = mem_map s" "HIGH_MEMORY (set_rq i f s) = HIGH_MEMORY s"
  "phys (set_rq i f s) = phys s" "live (set_rq i f s) = live s" "ts (set_rq i f s) = ts s"
  "current (set_rq i f s) = current s" "jiffies (set_rq i f s) = jiffies s"
  "startup_time (set_rq i f s) = startup_time s" "last_pid (set_rq i f s) = last_pid s"
  "last_task_used_math (set_rq i f s) = last_task_used_math s" "user (set_rq i f s) = user s"
  "buffers (set_rq i f s) = buffers s" "hash_table (set_rq i f s) = hash_table s"
  "free_head (set_rq i f s) = free_head s" "buffer_wait (set_rq i f s) = buffer_wait s"
  "start_buffer (set_rq i f s) = start_buffer s"
  "current_request (set_rq i f s) = current_request s" "request_fn (set_rq i f s) = request_fn s"
  "wait_for_request (set_rq i f s) = wait_for_request s" "rd_start (set_rq i f s) = rd_start s"
  "rd_length (set_rq i f s) = rd_length s" "rdmem (set_rq i f s) = rdmem s"
  "disk (set_rq i f s) = disk s"
  "floppy_change (set_rq i f s) = floppy_change s" "ROOT_DEV (set_rq i f s) = ROOT_DEV s"
  "inode_table (set_rq i f s) = inode_table s" "last_inode (set_rq i f s) = last_inode s"
  "file_table (set_rq i f s) = file_table s" "super_blocks (set_rq i f s) = super_blocks s"
  "cur (set_rq i f s) = cur s" "fs.more (set_rq i f s) = fs.more s" "bf (set_rq i f s) = bf s"
  "ino (set_rq i f s) = ino s" "fil (set_rq i f s) = fil s" "sbl (set_rq i f s) = sbl s"
  by (simp_all add: set_rq_def cur_def bf_def ino_def fil_def sbl_def rq_def fun_eq_iff)

lemma rq_set_rq:
  "rq (set_rq i f s) j = (if j = i \<and> i < length (requests s) then f (rq s i) else rq s j)"
  by (cases "i < length (requests s)") (simp_all add: rq_def list_update_beyond)

lemma rq_set_rq_same [simp]: "i < length (requests s) \<Longrightarrow> rq (set_rq i f s) i = f (rq s i)"
  by (simp add: rq_set_rq)

lemma rq_set_rq_other [simp]: "j \<noteq> i \<Longrightarrow> rq (set_rq i f s) j = rq s j"
  by (simp add: rq_set_rq)

end
