(* ===== verification/Blk.thy ===== *)
theory Blk
  imports FsTypes
begin

text \<open>
  Requests to the block devices: \<open>kernel/blk_drv/ll_rw_blk.c\<close>, \<open>blk.h\<close> and \<open>ramdisk.c\<close>. The queue of
  a device is the chain of \<open>next\<close> pointers from its \<open>current_request\<close>. The RAM disk serves its queue
  inside \<open>add_request\<close>, as the code does. The drivers of the other disks (ports and interrupts) are
  replaced by a stand-in, \<open>disk_transfer\<close>: the requests are served in order and each one ends with
  \<open>end_request\<close>, which here happens before \<open>add_request\<close> returns. What the drivers themselves do is in
  the theories \<open>Hd\<close> and \<open>Floppy\<close>, where a read, and for the hard disk a write, is shown to end as
  the stand-in says.
\<close>

definition lock_buffer :: "nat \<Rightarrow> 'a fs_scheme \<Rightarrow> (unit, 'a fs_scheme) res" where
  "lock_buffer bh s =
     (if b_lock (bf s bh) then sleep_in (b_wait (bf s bh)) (\<lambda>q. set_bf bh (\<lambda>b. b\<lparr>b_wait := q\<rparr>)) s
      else Ok () (set_bf bh (\<lambda>b. b\<lparr>b_lock := True\<rparr>) s))"

definition unlock_buffer :: "nat \<Rightarrow> 'a fs_scheme \<Rightarrow> 'a fs_scheme" where
  "unlock_buffer bh s =
     (let s = set_bf bh (\<lambda>b. b\<lparr>b_lock := False\<rparr>) s in
      case wake_up (b_wait (bf s bh)) s of (q, s) \<Rightarrow> set_bf bh (\<lambda>b. b\<lparr>b_wait := q\<rparr>) s)"

subsection \<open>Drivers\<close>

definition end_request :: "nat \<Rightarrow> nat \<Rightarrow> bool \<Rightarrow> 'a fs_scheme \<Rightarrow> 'a fs_scheme" where
  "end_request major r uptodate s =
     (let s = (case rq_bh (rq s r) of None \<Rightarrow> s
               | Some b \<Rightarrow> unlock_buffer b (set_bf b (\<lambda>x. x\<lparr>b_uptodate := uptodate\<rparr>) s)) in
      case wake_up (rq_waiting (rq s r)) s of (q, s) \<Rightarrow>
      let s = set_rq r (\<lambda>x. x\<lparr>rq_waiting := q\<rparr>) s in
      case wake_up (wait_for_request s) s of (q, s) \<Rightarrow>
      let s = set_rq r (\<lambda>x. x\<lparr>rq_dev := -1\<rparr>) (s\<lparr>wait_for_request := q\<rparr>) in
      s\<lparr>current_request := (current_request s)[major := rq_next (rq s r)]\<rparr>)"

definition read_bytes :: "(u32 \<Rightarrow> u8) \<Rightarrow> u32 \<Rightarrow> nat \<Rightarrow> u8 list" where
  "read_bytes m a n = List.map (\<lambda>i. m (a + of_nat i)) [0..<n]"

fun write_bytes :: "u8 list \<Rightarrow> u32 \<Rightarrow> (u32 \<Rightarrow> u8) \<Rightarrow> u32 \<Rightarrow> u8" where
  "write_bytes [] a m = m"
| "write_bytes (x # xs) a m = write_bytes xs (a + 1) (m(a := x))"

text \<open>The transfer of one request by the RAM disk; the result says whether it succeeded.\<close>

definition rd_transfer :: "nat \<Rightarrow> nat \<Rightarrow> 'a fs_scheme \<Rightarrow> (bool, 'a fs_scheme) res" where
  "rd_transfer r b s =
     (let q = rq s r; addr = rd_start s + push_bit 9 (rq_sector q); len = push_bit 9 (rq_nr_sectors q) in
      if MINOR (of_int (rq_dev q)) \<noteq> 1 \<or> rd_start s + rd_length s < addr + len then Ok False s
      else if rq_cmd q = WRITE
      then Ok True (s\<lparr>rdmem := write_bytes (take (unat len) (b_data (bf s b))) addr (rdmem s)\<rparr>)
      else if rq_cmd q = READ
      then Ok True (set_bf b (\<lambda>x. x\<lparr>b_data := read_bytes (rdmem s) addr (unat len)\<rparr>) s)
      else Panic ''unknown ramdisk-command'')"

text \<open>
  The stand-in for the transfer of one request by the other drivers, which work by interrupts: a block is
  transferred at once, or the request fails. Theories \<open>Hd\<close> and \<open>Floppy\<close> have the drivers, and relate
  them to it. No code has this definition.
\<close>

definition disk_transfer :: "nat \<Rightarrow> nat \<Rightarrow> 'a fs_scheme \<Rightarrow> (bool, 'a fs_scheme) res" where
  "disk_transfer r b s =
     (let q = rq s r; dev = of_int (rq_dev q); blk = drop_bit 1 (rq_sector q) in
      case disk s dev blk of
        None \<Rightarrow> Ok False s
      | Some d \<Rightarrow>
          if rq_cmd q = WRITE
          then Ok True (s\<lparr>disk := (disk s)(dev := (disk s dev)(blk \<mapsto> b_data (bf s b)))\<rparr>)
          else Ok True (set_bf b (\<lambda>x. x\<lparr>b_data := d\<rparr>) s))"

text \<open>
  \<open>do_request\<close> of a device: \<open>INIT_REQUEST\<close>, the transfer and \<open>end_request\<close>, until the queue is
  empty.
\<close>

fun do_requests :: "nat \<Rightarrow> nat \<Rightarrow> 'a fs_scheme \<Rightarrow> (unit, 'a fs_scheme) res" where
  "do_requests 0 major s = Hang"
| "do_requests (Suc fuel) major s =
     (case current_request s ! major of
        None \<Rightarrow> Ok () s
      | Some r \<Rightarrow>
          if MAJOR (of_int (rq_dev (rq s r))) \<noteq> major then Panic '': request list destroyed''
          else
            case rq_bh (rq s r) of
              None \<Rightarrow> Fault ''request without buffer''
            | Some b \<Rightarrow>
                if \<not> b_lock (bf s b) then Panic '': block not locked''
                else
                  bind (if major = 1 then rd_transfer r b s else disk_transfer r b s) (\<lambda>ok s.
                  do_requests fuel major (end_request major r ok s)))"

subsection \<open>The request queue\<close>

definition IN_ORDER :: "request \<Rightarrow> request \<Rightarrow> bool" where
  "IN_ORDER a b \<longleftrightarrow>
     rq_cmd a < rq_cmd b \<or> rq_cmd a = rq_cmd b \<and>
       (rq_dev a < rq_dev b \<or> rq_dev a = rq_dev b \<and> rq_sector a < rq_sector b)"

text \<open>The request after which the elevator puts a new one, walking from \<open>tmp\<close>.\<close>

fun elevator :: "nat \<Rightarrow> nat \<Rightarrow> nat \<Rightarrow> 'a fs_scheme \<Rightarrow> (nat, 'a fs_scheme) res" where
  "elevator 0 tmp req s = Hang"
| "elevator (Suc fuel) tmp req s =
     (case rq_next (rq s tmp) of
        None \<Rightarrow> Ok tmp s
      | Some nxt \<Rightarrow>
          if (IN_ORDER (rq s tmp) (rq s req) \<or> \<not> IN_ORDER (rq s tmp) (rq s nxt)) \<and>
             IN_ORDER (rq s req) (rq s nxt)
          then Ok tmp s
          else elevator fuel nxt req s)"

definition add_request :: "nat \<Rightarrow> nat \<Rightarrow> 'a fs_scheme \<Rightarrow> (unit, 'a fs_scheme) res" where
  "add_request dev req s =
     (let s = set_rq req (\<lambda>x. x\<lparr>rq_next := None\<rparr>) s;
          s = (case rq_bh (rq s req) of None \<Rightarrow> s | Some b \<Rightarrow> set_bf b (\<lambda>x. x\<lparr>b_dirt := False\<rparr>) s) in
      case current_request s ! dev of
        None \<Rightarrow>
          do_requests (Suc NR_REQUEST) dev
            (s\<lparr>current_request := (current_request s)[dev := Some req]\<rparr>)
      | Some tmp \<Rightarrow>
          bind (elevator NR_REQUEST tmp req s) (\<lambda>tmp s.
          let s = set_rq req (\<lambda>x. x\<lparr>rq_next := rq_next (rq s tmp)\<rparr>) s in
          Ok () (set_rq tmp (\<lambda>x. x\<lparr>rq_next := Some req\<rparr>) s)))"

text \<open>\<open>while (--req >= request)\<close>: the free request with the highest number below the bound.\<close>

fun free_request :: "nat \<Rightarrow> 'a fs_scheme \<Rightarrow> nat option" where
  "free_request 0 s = None"
| "free_request (Suc n) s = (if rq_dev (rq s n) < 0 then Some n else free_request n s)"

definition make_request :: "nat \<Rightarrow> int \<Rightarrow> nat \<Rightarrow> 'a fs_scheme \<Rightarrow> (unit, 'a fs_scheme) res" where
  "make_request major rw bh s =
     (let rw_ahead = (rw = READA \<or> rw = WRITEA);
          rw' = (if rw = READA then READ else if rw = WRITEA then WRITE else rw) in
      if rw_ahead \<and> b_lock (bf s bh) then Ok () s
      else if rw' \<noteq> READ \<and> rw' \<noteq> WRITE then Panic ''Bad block dev command, must be R/W/RA/WA''
      else
        bind (lock_buffer bh s) (\<lambda>_ s.
        if rw' = WRITE \<and> \<not> b_dirt (bf s bh) \<or> rw' = READ \<and> b_uptodate (bf s bh)
        then Ok () (unlock_buffer bh s)
        else
          case free_request (if rw' = READ then NR_REQUEST else NR_REQUEST * 2 div 3) s of
            None \<Rightarrow>
              if rw_ahead then Ok () (unlock_buffer bh s)
              else sleep_in (wait_for_request s) (\<lambda>q s. s\<lparr>wait_for_request := q\<rparr>) s
          | Some r \<Rightarrow>
              add_request major r
                (set_rq r (\<lambda>x. \<lparr>rq_dev = uint (b_dev (bf s bh)), rq_cmd = rw', rq_errors = 0,
                   rq_sector = push_bit 1 (b_blocknr (bf s bh)), rq_nr_sectors = 2, rq_buffer = 0,
                   rq_waiting = None, rq_bh = Some bh, rq_next = None\<rparr>) s)))"

definition ll_rw_block :: "int \<Rightarrow> nat \<Rightarrow> 'a fs_scheme \<Rightarrow> (unit, 'a fs_scheme) res" where
  "ll_rw_block rw bh s =
     (let major = MAJOR (b_dev (bf s bh)) in
      if NR_BLK_DEV \<le> major \<or> \<not> request_fn s major then Ok () s
      else make_request major rw bh s)"

definition blk_dev_init :: "'a fs_scheme \<Rightarrow> 'a fs_scheme" where
  "blk_dev_init s =
     s\<lparr>requests := List.map (\<lambda>x. x\<lparr>rq_dev := -1, rq_next := None\<rparr>) (requests s)\<rparr>"

definition rd_init :: "u32 \<Rightarrow> u32 \<Rightarrow> 'a fs_scheme \<Rightarrow> u32 \<times> 'a fs_scheme" where
  "rd_init mem_start len s =
     (len, s\<lparr>request_fn := (request_fn s)(1 := True), rd_start := mem_start, rd_length := len,
       rdmem := write_bytes (replicate (unat len) 0) mem_start (rdmem s)\<rparr>)"

subsection \<open>What a transfer does\<close>

text \<open>The block a device holds, if it can be transferred.\<close>

definition dev_read :: "'a fs_scheme \<Rightarrow> u16 \<Rightarrow> u32 \<Rightarrow> u8 list option" where
  "dev_read s dev blk =
     (if MAJOR dev = 1 then
        let addr = rd_start s + push_bit 10 blk in
        if MINOR dev \<noteq> 1 \<or> rd_start s + rd_length s < addr + 0x400 then None
        else Some (read_bytes (rdmem s) addr BLOCK_SIZE)
      else disk s dev blk)"

definition has_driver :: "'a fs_scheme \<Rightarrow> u16 \<Rightarrow> bool" where
  "has_driver s dev \<longleftrightarrow> MAJOR dev \<in> {1, 2, 3} \<and> request_fn s (MAJOR dev)"

text \<open>No request is queued and nobody waits for a buffer or a request.\<close>

definition quiet :: "'a fs_scheme \<Rightarrow> bool" where
  "quiet s \<longleftrightarrow>
     length (requests s) = NR_REQUEST \<and> (\<forall>r < NR_REQUEST. rq_dev (rq s r) < 0) \<and>
     length (current_request s) = NR_BLK_DEV \<and> (\<forall>m < NR_BLK_DEV. current_request s ! m = None) \<and>
     wait_for_request s = None \<and> (\<forall>b \<in> set (buffers s). \<not> b_lock b \<and> b_wait b = None)"

lemma quiet_bf: "quiet s \<Longrightarrow> i < length (buffers s) \<Longrightarrow> \<not> b_lock (bf s i) \<and> b_wait (bf s i) = None"
  by (simp add: quiet_def bf_def)

lemma quiet_set_bf:
  assumes "quiet s"
    and "i < length (buffers s) \<Longrightarrow> \<not> b_lock (f (bf s i)) \<and> b_wait (f (bf s i)) = None"
  shows "quiet (set_bf i f s)"
proof -
  have "\<not> b_lock b \<and> b_wait b = None" if "b \<in> set ((buffers s)[i := f (buffers s ! i)])" for b
  proof (cases "i < length (buffers s)")
    case True
    then show ?thesis
      using that assms set_update_subset_insert [of "buffers s" i "f (buffers s ! i)"]
      by (auto simp: quiet_def bf_def)
  next
    case False
    then show ?thesis using that assms(1) by (auto simp: quiet_def list_update_beyond)
  qed
  then show ?thesis using assms(1) by (simp add: quiet_def)
qed

lemma free_request_all:
  assumes "\<And>r. r < n \<Longrightarrow> rq_dev (rq s r) < 0" and "0 < n"
  shows "free_request n s = Some (n - 1)"
  using assms by (cases n) auto

definition rd_request :: "nat \<Rightarrow> u16 \<Rightarrow> u32 \<Rightarrow> int \<Rightarrow> request" where
  "rd_request bh dev blk rw =
     \<lparr>rq_dev = uint dev, rq_cmd = rw, rq_errors = 0, rq_sector = push_bit 1 blk, rq_nr_sectors = 2, rq_buffer = 0,
      rq_waiting = None, rq_bh = Some bh, rq_next = None\<rparr>"

lemma rd_request_sel [simp]:
  "rq_dev (rd_request b d k w) = uint d" "rq_cmd (rd_request b d k w) = w"
  "rq_sector (rd_request b d k w) = k * 2" "rq_nr_sectors (rd_request b d k w) = 2"
  "rq_waiting (rd_request b d k w) = None" "rq_bh (rd_request b d k w) = Some b"
  "rq_next (rd_request b d k w) = None"
  by (simp_all add: rd_request_def)

text \<open>The state after one block has been transferred, with request structure \<open>r\<close>.\<close>

definition served :: "nat \<Rightarrow> int \<Rightarrow> nat \<Rightarrow> 'a fs_scheme \<Rightarrow> 'a fs_scheme" where
  "served r rw bh s =
     (let dev = b_dev (bf s bh); blk = b_blocknr (bf s bh); ok = (dev_read s dev blk \<noteq> None);
          fin = set_rq r (\<lambda>_. (rd_request bh dev blk rw)\<lparr>rq_dev := -1\<rparr>);
          s' = fin (set_bf bh (\<lambda>b. b\<lparr>b_dirt := False, b_uptodate := ok\<rparr>) s) in
      if \<not> ok then s'
      else if rw = READ
      then fin (set_bf bh (\<lambda>b. b\<lparr>b_dirt := False, b_data := the (dev_read s dev blk), b_uptodate := True\<rparr>) s)
      else if MAJOR dev = 1
      then s'\<lparr>rdmem := write_bytes (take BLOCK_SIZE (b_data (bf s bh))) (rd_start s + push_bit 10 blk) (rdmem s)\<rparr>
      else s'\<lparr>disk := (disk s)(dev := (disk s dev)(blk \<mapsto> b_data (bf s bh)))\<rparr>)"

lemma push_bit_sector [simp]: "push_bit 9 (push_bit 1 x) = push_bit 10 (x :: u32)"
  "push_bit 9 (x * 2) = push_bit 10 (x :: u32)" "push_bit 9 (2 :: u32) = 0x400"
  by (simp_all add: push_bit_eq_mult)

lemma b_wait_id [simp]: "b_wait b = None \<Longrightarrow> b\<lparr>b_wait := None\<rparr> = b"
  by (cases b) simp

lemma b_lock_id [simp]: "\<not> b_lock b \<Longrightarrow> b\<lparr>b_lock := False\<rparr> = b"
  by (cases b) simp

lemma wait_for_request_id [simp]: "wait_for_request s = None \<Longrightarrow> s\<lparr>wait_for_request := None\<rparr> = s"
  by (cases s) simp

lemma rq_waiting_id [simp]: "rq_waiting b = None \<Longrightarrow> b\<lparr>rq_waiting := None\<rparr> = b"
  by (cases b) simp

lemma add_request_served:
  assumes q: "quiet s" and bh: "bh < length (buffers s)" and r: "r < NR_REQUEST"
    and drv: "has_driver s (b_dev (bf s bh))" and rw: "rw = READ \<or> rw = WRITE"
    and blk: "MAJOR (b_dev (bf s bh)) \<noteq> 1 \<longrightarrow> drop_bit 1 (push_bit 1 (b_blocknr (bf s bh))) = b_blocknr (bf s bh)"
  shows "add_request (MAJOR (b_dev (bf s bh))) r
           (set_rq r (\<lambda>_. rd_request bh (b_dev (bf s bh)) (b_blocknr (bf s bh)) rw)
             (set_bf bh (\<lambda>b. b\<lparr>b_lock := True\<rparr>) s)) = Ok () (served r rw bh s)"
proof -
  let ?dev = "b_dev (bf s bh)" and ?blk = "b_blocknr (bf s bh)"
  let ?m = "MAJOR ?dev"
  have m: "?m < NR_BLK_DEV" using drv by (auto simp: has_driver_def NR_BLK_DEV_def)
  have cr: "current_request s ! ?m = None" "length (current_request s) = NR_BLK_DEV"
    using q m by (auto simp: quiet_def)
  have len: "length (requests s) = NR_REQUEST" "wait_for_request s = None" using q by (auto simp: quiet_def)
  note b = quiet_bf [OF q bh]
  have crid: "(current_request s)[?m := None] = current_request s" using cr m by (simp add: list_update_same_conv)
  let ?R = "rd_request bh ?dev ?blk rw"
  define s1 where "s1 = (set_bf bh (\<lambda>b. b\<lparr>b_lock := True, b_dirt := False\<rparr>) (set_rq r (\<lambda>_. ?R) s))
    \<lparr>current_request := (current_request s)[?m := Some r]\<rparr>"
  have s1: "current_request s1 ! ?m = Some r" "rq s1 r = ?R"
    "bf s1 bh = (bf s bh)\<lparr>b_lock := True, b_dirt := False\<rparr>"
    using cr m r len bh by (simp_all add: s1_def rq_set_rq rq_def bf_set_bf bf_def)
  have one: "add_request ?m r (set_rq r (\<lambda>_. ?R) (set_bf bh (\<lambda>b. b\<lparr>b_lock := True\<rparr>) s)) =
      do_requests (Suc NR_REQUEST) ?m s1"
    using cr r len bh
    by (simp add: add_request_def Let_def s1_def rd_request_def rq_def set_bf_def set_rq_def)
  have rest: "do_requests NR_REQUEST ?m u = Ok () u" if "current_request u ! ?m = None" for u :: "'a fs_scheme"
    using that by (simp add: NR_REQUEST_def numeral_eq_Suc)
  have fin: "end_request ?m r ok u = set_rq r (\<lambda>x. x\<lparr>rq_dev := -1\<rparr>)
      (set_bf bh (\<lambda>b. b\<lparr>b_uptodate := ok, b_lock := False\<rparr>) u)\<lparr>current_request := (current_request s)\<rparr>"
    if "rq u r = ?R" "b_wait (bf u bh) = None" "wait_for_request u = None" "bh < length (buffers u)"
      "length (requests u) = NR_REQUEST" "current_request u = (current_request s)[?m := Some r]"
    for ok and u :: "'a fs_scheme"
    using that r cr m crid
    by (simp add: end_request_def unlock_buffer_def wake_up_def Let_def rd_request_def rq_def bf_def
      set_bf_def set_rq_def list_update_same_conv)
  have fr: "rd_start s1 = rd_start s" "rd_length s1 = rd_length s" "rdmem s1 = rdmem s" "disk s1 = disk s"
    by (simp_all add: s1_def)
  have io: "(if ?m = 1 then rd_transfer r bh s1 else disk_transfer r bh s1) =
     (case dev_read s ?dev ?blk of
        None \<Rightarrow> Ok False s1
      | Some d \<Rightarrow>
          Ok True (if rw = READ then set_bf bh (\<lambda>x. x\<lparr>b_data := d\<rparr>) s1
            else if ?m = 1
            then s1\<lparr>rdmem := write_bytes (take BLOCK_SIZE (b_data (bf s bh))) (rd_start s + push_bit 10 ?blk) (rdmem s)\<rparr>
            else s1\<lparr>disk := (disk s)(?dev := (disk s ?dev)(?blk \<mapsto> b_data (bf s bh)))\<rparr>))"
  proof (cases "?m = 1")
    case True
    have "rw = WRITE \<or> rw \<noteq> WRITE \<and> rw = READ" using rw by blast
    then show ?thesis
      using True
      by (elim disjE) (simp_all add: rd_transfer_def Let_def s1(2,3) fr dev_read_def BLOCK_SIZE_def WRITE_def READ_def)
  next
    case False
    have "drop_bit 1 (rq_sector ?R) = ?blk" using blk False by simp
    with False show ?thesis
      using rw by (cases "disk s ?dev ?blk")
        (auto simp: disk_transfer_def Let_def s1(2,3) fr dev_read_def WRITE_def READ_def)
  qed
  have step: "do_requests (Suc NR_REQUEST) ?m s1 =
      bind (if ?m = 1 then rd_transfer r bh s1 else disk_transfer r bh s1)
        (\<lambda>ok u. do_requests NR_REQUEST ?m (end_request ?m r ok u))"
    unfolding do_requests.simps(2) using s1 by simp
  have s1': "b_wait (bf s1 bh) = None" "wait_for_request s1 = None" "bh < length (buffers s1)"
    "length (requests s1) = NR_REQUEST" "current_request s1 = (current_request s)[?m := Some r]"
    using b bh len s1 by (simp_all add: s1_def)
  have "do_requests (Suc NR_REQUEST) ?m s1 = Ok () (served r rw bh s)"
  proof (cases "dev_read s ?dev ?blk")
    case None
    have "do_requests (Suc NR_REQUEST) ?m s1 = Ok () (end_request ?m r False s1)"
      unfolding step io None using rest cr fin [OF s1(2) s1', of False] by simp
    also have "end_request ?m r False s1 = served r rw bh s"
      using fin [OF s1(2) s1', of False] bh r len b [unfolded bf_def]
      unfolding served_def Let_def None
      by (simp add: s1_def set_bf_def set_rq_def bf_def)
    finally show ?thesis .
  next
    case (Some d)
    define u where "u = (if rw = READ then set_bf bh (\<lambda>x. x\<lparr>b_data := d\<rparr>) s1
            else if ?m = 1
            then s1\<lparr>rdmem := write_bytes (take BLOCK_SIZE (b_data (bf s bh))) (rd_start s + push_bit 10 ?blk) (rdmem s)\<rparr>
            else s1\<lparr>disk := (disk s)(?dev := (disk s ?dev)(?blk \<mapsto> b_data (bf s bh)))\<rparr>)"
    have ur: "rq u r = ?R" using s1(2) by (simp add: u_def rq_def)
    have u': "b_wait (bf u bh) = None" "wait_for_request u = None" "bh < length (buffers u)"
      "length (requests u) = NR_REQUEST" "current_request u = (current_request s)[?m := Some r]"
      using s1' by (simp_all add: u_def bf_def)
    have "do_requests (Suc NR_REQUEST) ?m s1 = Ok () (end_request ?m r True u)"
      unfolding step io Some using rest cr fin [OF ur u', of True] by (simp add: u_def)
    also have "end_request ?m r True u = served r rw bh s"
      using fin [OF ur u', of True] bh r len b [unfolded bf_def]
      unfolding served_def Let_def Some
      by (simp add: s1_def u_def set_bf_def set_rq_def bf_def)
    finally show ?thesis .
  qed
  then show ?thesis using one by simp
qed

lemma set_bf_same: "f (bf s i) = bf s i \<Longrightarrow> set_bf i f s = s"
  by (simp add: set_bf_def bf_def)

lemma set_bf_set_bf: "set_bf i f (set_bf i g s) = set_bf i (\<lambda>b. f (g b)) s"
  by (cases "i < length (buffers s)") (simp_all add: set_bf_def list_update_beyond)

lemma lock_unlock:
  assumes "quiet s" and "bh < length (buffers s)"
  shows "unlock_buffer bh (set_bf bh (\<lambda>b. b\<lparr>b_lock := True\<rparr>) s) = s"
proof -
  note b = quiet_bf [OF assms]
  have w: "b_wait (bf (set_bf bh (\<lambda>b. b\<lparr>b_lock := False\<rparr>) (set_bf bh (\<lambda>b. b\<lparr>b_lock := True\<rparr>) s)) bh) = None"
    using b assms(2) by simp
  show ?thesis
    unfolding unlock_buffer_def Let_def w
    using b assms(2) by (simp add: wake_up_def set_bf_set_bf set_bf_same)
qed

lemma ll_rw_nothing:
  assumes "quiet s" and "bh < length (buffers s)"
    and "rw = WRITE \<and> \<not> b_dirt (bf s bh) \<or> rw = READ \<and> b_uptodate (bf s bh) \<or>
      MAJOR (b_dev (bf s bh)) \<ge> NR_BLK_DEV \<or> \<not> request_fn s (MAJOR (b_dev (bf s bh)))"
  shows "ll_rw_block rw bh s = Ok () s"
proof (cases "NR_BLK_DEV \<le> MAJOR (b_dev (bf s bh)) \<or> \<not> request_fn s (MAJOR (b_dev (bf s bh)))")
  case True
  then show ?thesis by (auto simp: ll_rw_block_def Let_def)
next
  case False
  then have "rw = WRITE \<and> \<not> b_dirt (bf s bh) \<or> rw = READ \<and> b_uptodate (bf s bh)" using assms(3) by auto
  then show ?thesis
    using False assms(2) quiet_bf [OF assms(1,2)] lock_unlock [OF assms(1,2)]
    by (auto simp: ll_rw_block_def make_request_def lock_buffer_def Let_def rw_defs)
qed

definition blk_fits :: "'a fs_scheme \<Rightarrow> nat \<Rightarrow> bool" where
  "blk_fits s bh \<longleftrightarrow> has_driver s (b_dev (bf s bh)) \<and> b_blocknr (bf s bh) < 0x400000"

lemma blk_fits_shift: "blk < 0x400000 \<Longrightarrow> drop_bit 1 (push_bit 1 blk) = (blk :: u32)"
  by (simp add: word_unat_eq_iff unat_drop_bit_eq drop_bit_eq_div word_less_nat_alt unat_word_ariths)

lemma ll_rw_served:
  assumes q: "quiet s" and bh: "bh < length (buffers s)" and drv: "blk_fits s bh"
    and rw: "rw = READ \<and> \<not> b_uptodate (bf s bh) \<or> rw = WRITE \<and> b_dirt (bf s bh)"
  shows "ll_rw_block rw bh s = Ok () (served (if rw = READ then 31 else 20) rw bh s)"
proof -
  let ?s = "set_bf bh (\<lambda>b. b\<lparr>b_lock := True\<rparr>) s"
  have d: "has_driver s (b_dev (bf s bh))" and sh: "drop_bit 1 (push_bit 1 (b_blocknr (bf s bh))) = b_blocknr (bf s bh)"
    using drv blk_fits_shift by (auto simp: blk_fits_def)
  have neg: "rq_dev (rq ?s r) < 0" if "r < NR_REQUEST" for r using q that by (simp add: quiet_def)
  have fr: "free_request NR_REQUEST ?s = Some 31" "free_request (NR_REQUEST * 2 div 3) ?s = Some 20"
    using free_request_all [of NR_REQUEST ?s] free_request_all [of "NR_REQUEST * 2 div 3" ?s] neg
    by (auto simp: NR_REQUEST_def)
  have m: "\<not> NR_BLK_DEV \<le> MAJOR (b_dev (bf s bh))" "request_fn s (MAJOR (b_dev (bf s bh)))"
    using d by (auto simp: has_driver_def NR_BLK_DEV_def)
  have "(if rw = READ then 31 else 20 :: nat) < NR_REQUEST" by (simp add: NR_REQUEST_def)
  from add_request_served [OF q bh this d _ ] rw sh
  have "add_request (MAJOR (b_dev (bf s bh))) (if rw = READ then 31 else 20)
      (set_rq (if rw = READ then 31 else 20) (\<lambda>_. rd_request bh (b_dev (bf s bh)) (b_blocknr (bf s bh)) rw) ?s)
      = Ok () (served (if rw = READ then 31 else 20) rw bh s)" by blast
  then show ?thesis
    using rw bh m fr quiet_bf [OF q bh]
    by (auto simp: ll_rw_block_def make_request_def lock_buffer_def Let_def rw_defs rd_request_def)
qed

subsection \<open>What is written is read back\<close>

lemma write_bytes_at:
  assumes "length xs \<le> 2 ^ 32"
  shows "write_bytes xs a m c = (if unat (c - a) < length xs then xs ! unat (c - a) else m c)"
  using assms
proof (induction xs arbitrary: a m)
  case (Cons x xs)
  have IH: "write_bytes xs (a + 1) (m(a := x)) c =
     (if unat (c - (a + 1)) < length xs then xs ! unat (c - (a + 1)) else (m(a := x)) c)"
    using Cons by simp
  show ?case
  proof (cases "c = a")
    case True
    have "c - (a + 1) = - 1" using True by simp
    moreover have "unat (- 1 :: u32) = 4294967295"
      by (simp add: unsigned_minus_1_eq_mask mask_eq_exp_minus_1)
    ultimately have "\<not> unat (c - (a + 1)) < length xs" using Cons.prems by simp
    then show ?thesis using IH True by simp
  next
    case False
    then have ne: "c - a \<noteq> 0" by simp
    have "unat (c - (a + 1)) = unat ((c - a) - 1)" by (simp add: algebra_simps)
    also have "\<dots> = unat (c - a) - 1" using ne by (rule unat_dec)
    finally have u: "unat (c - a) = Suc (unat (c - (a + 1)))"
      using ne by (simp add: unat_gt_0)
    show ?thesis using IH False by (simp add: u)
  qed
qed simp

lemma read_write_bytes:
  assumes "length xs = n" and "n \<le> 2 ^ 32"
  shows "read_bytes (write_bytes xs a m) a n = xs"
proof (rule nth_equalityI)
  fix i assume "i < length (read_bytes (write_bytes xs a m) a n)"
  then have i: "i < n" by (simp add: read_bytes_def)
  have "unat (of_nat i :: u32) = i" using i assms(2) by (intro unat_of_nat_small) simp
  then show "read_bytes (write_bytes xs a m) a n ! i = xs ! i"
    using i assms by (simp add: read_bytes_def write_bytes_at)
qed (use assms in \<open>simp add: read_bytes_def\<close>)

lemma read_write_bytes_other:
  assumes "length xs \<le> 2 ^ 32" and "\<And>i. i < n \<Longrightarrow> length xs \<le> unat (b + of_nat i - a)"
  shows "read_bytes (write_bytes xs a m) b n = read_bytes m b n"
proof -
  have "write_bytes xs a m (b + of_nat i) = m (b + of_nat i)" if "i < n" for i
    using assms(2) [OF that] assms(1) by (simp add: write_bytes_at)
  then show ?thesis by (simp add: read_bytes_def)
qed

text \<open>Two blocks of the RAM disk do not overlap.\<close>

lemma rd_blocks_apart:
  fixes b b' r :: u32
  assumes "b < 0x400000" and "b' < 0x400000" and "b \<noteq> b'" and "i < 0x400"
  shows "0x400 \<le> unat (r + push_bit 10 b' + of_nat i - (r + push_bit 10 b))"
proof -
  define x where "x = int (unat b)"
  define y where "y = int (unat b')"
  define d where "d = (y - x) * 1024 + int i"
  have e: "r + push_bit 10 b' + of_nat i - (r + push_bit 10 b) = of_int d"
    by (simp add: d_def x_def y_def push_bit_eq_mult algebra_simps)
  have bb: "0 \<le> x" "0 \<le> y" "x < 0x400000" "y < 0x400000" "x \<noteq> y"
    using assms by (simp_all add: x_def y_def word_less_def word_uint_eq_iff)
  have "uint (of_int d :: u32) = d mod 2 ^ 32" by (simp add: uint_word_of_int_eq take_bit_eq_mod)
  moreover have "0x400 \<le> d mod 2 ^ 32"
  proof (cases "x < y")
    case True
    then have "1024 \<le> d" "d < 2 ^ 32" using bb assms(4) unfolding d_def by auto
    then show ?thesis by simp
  next
    case False
    then have "d < 0" "- (2 ^ 32) + 1024 \<le> d" using bb assms(4) unfolding d_def by auto
    then have "(d + 2 ^ 32) mod 2 ^ 32 = d + 2 ^ 32" by (intro mod_pos_pos_trivial) auto
    moreover have "(d + 2 ^ 32) mod 2 ^ 32 = d mod 2 ^ 32" by (rule mod_add_self2)
    ultimately have "d mod 2 ^ 32 = d + 2 ^ 32" by simp
    then show ?thesis using \<open>- (2 ^ 32) + 1024 \<le> d\<close> by linarith
  qed
  ultimately have "0x400 \<le> uint (of_int d :: u32)" by simp
  then show ?thesis unfolding e uint_nat by linarith
qed

lemma quiet_served:
  assumes "quiet s" and "bh < length (buffers s)" and "r < NR_REQUEST"
  shows "quiet (served r rw bh s)"
proof -
  have rq: "quiet (set_rq r (\<lambda>_. R\<lparr>rq_dev := -1\<rparr>) u)" if "quiet u" for R and u :: "'a fs_scheme"
    using that assms(3) by (auto simp: quiet_def rq_set_rq)
  have bf: "quiet (set_bf bh f s)" if "\<And>b. b_lock (f b) = b_lock b \<and> b_wait (f b) = b_wait b" for f
    using assms(1,2) that quiet_bf [OF assms(1,2)] by (intro quiet_set_bf) auto
  have ext: "quiet (u\<lparr>rdmem := m\<rparr>) = quiet u" "quiet (u\<lparr>disk := d\<rparr>) = quiet u"
    for m d and u :: "'a fs_scheme" by (simp_all add: quiet_def rq_def)
  show ?thesis by (simp add: served_def Let_def rq bf ext)
qed

lemma served_bf:
  assumes "bh < length (buffers s)" and "rw = READ \<or> rw = WRITE"
  shows "bf (served r rw bh s) i =
     (if i = bh
      then (bf s bh)\<lparr>b_dirt := False,
             b_data := (if rw = READ then case dev_read s (b_dev (bf s bh)) (b_blocknr (bf s bh)) of
                 Some d \<Rightarrow> d | None \<Rightarrow> b_data (bf s bh) else b_data (bf s bh)),
             b_uptodate := dev_read s (b_dev (bf s bh)) (b_blocknr (bf s bh)) \<noteq> None\<rparr>
      else bf s i)"
proof -
  have id: "b\<lparr>b_data := b_data b\<rparr> = b" for b :: buffer_head by (cases b) simp
  have rd: "bf (u\<lparr>rdmem := m\<rparr>) = bf u" "bf (u\<lparr>disk := d\<rparr>) = bf u" for m d and u :: "'a fs_scheme"
    by (simp_all add: bf_def fun_eq_iff)
  show ?thesis
    using assms id [of "(bf s bh)\<lparr>b_dirt := False\<rparr>"]
    by (auto simp: served_def Let_def bf_set_bf rd split: option.splits)
qed

lemma dev_eq: "MAJOR a = MAJOR b \<Longrightarrow> MINOR a = MINOR b \<Longrightarrow> a = b"
proof -
  assume e: "MAJOR a = MAJOR b" "MINOR a = MINOR b"
  have t: "take_bit 8 c = c AND 0xFF" for c :: u16 by (simp add: take_bit_eq_mask mask_eq_exp_minus_1)
  have h: "drop_bit 8 a = drop_bit 8 b"
    by (rule word_unat_eq_iff [THEN iffD2]) (rule e(1) [unfolded MAJOR_def])
  have l: "take_bit 8 a = take_bit 8 b"
    unfolding t by (rule word_unat_eq_iff [THEN iffD2]) (rule e(2) [unfolded MINOR_def])
  have "a = push_bit 8 (drop_bit 8 a) + take_bit 8 a" by (rule bits_ident [symmetric])
  also have "\<dots> = push_bit 8 (drop_bit 8 b) + take_bit 8 b" unfolding h l ..
  also have "\<dots> = b" by (rule bits_ident)
  finally show "a = b" .
qed

lemma dev_read_more [simp]:
  "dev_read (set_bf i f s) = dev_read s" "dev_read (set_rq i g s) = dev_read s"
  by (simp_all add: fun_eq_iff dev_read_def Let_def)

lemma dev_read_served_read: "dev_read (served r READ bh s) = dev_read s"
  by (simp add: served_def Let_def)

lemma dev_read_served_write:
  assumes fits: "blk_fits s bh" and len: "length (b_data (bf s bh)) = BLOCK_SIZE"
    and ok: "dev_read s (b_dev (bf s bh)) (b_blocknr (bf s bh)) \<noteq> None" and blk: "blk < 0x400000"
  shows "dev_read (served r WRITE bh s) dev blk =
     (if dev = b_dev (bf s bh) \<and> blk = b_blocknr (bf s bh) then Some (b_data (bf s bh))
      else dev_read s dev blk)"
proof -
  let ?d = "b_dev (bf s bh)" and ?b = "b_blocknr (bf s bh)" and ?x = "b_data (bf s bh)"
  have b: "?b < 0x400000" using fits by (simp add: blk_fits_def)
  obtain y where y: "dev_read s ?d ?b = Some y" using ok by blast
  have ne: "WRITE \<noteq> READ" by (simp add: rw_defs)
  have up: "dev_read (u\<lparr>disk := d\<rparr>) dev blk = (if MAJOR dev = 1 then dev_read u dev blk else d dev blk)"
    "dev_read (u\<lparr>rdmem := m\<rparr>) dev blk =
       (if MAJOR dev = 1 \<and> dev_read u dev blk \<noteq> None
        then Some (read_bytes m (rd_start u + push_bit 10 blk) BLOCK_SIZE) else dev_read u dev blk)"
    for d m and u :: "'a fs_scheme" by (auto simp: dev_read_def Let_def)
  show ?thesis
  proof (cases "MAJOR ?d = 1")
    case False
    then show ?thesis using ok ne by (auto simp: served_def Let_def up dev_read_def)
  next
    case True
    let ?m = "write_bytes ?x (rd_start s + push_bit 10 ?b) (rdmem s)"
    have sv: "dev_read (served r WRITE bh s) dev blk =
       (if MAJOR dev = 1 \<and> dev_read s dev blk \<noteq> None
        then Some (read_bytes ?m (rd_start s + push_bit 10 blk) BLOCK_SIZE) else dev_read s dev blk)"
      using True y ne len by (simp add: served_def Let_def up)
    have one: "MINOR ?d = 1" using ok True by (auto simp: dev_read_def Let_def split: if_splits)
    show ?thesis
    proof (cases "MAJOR dev = 1 \<and> dev_read s dev blk \<noteq> None")
      case False
      then show ?thesis using sv True ok by auto
    next
      case m: True
      then have "MINOR dev = 1" by (auto simp: dev_read_def Let_def split: if_splits)
      then have dd: "dev = ?d" using dev_eq [of dev ?d] m True one by simp
      show ?thesis
      proof (cases "blk = ?b")
        case True
        then show ?thesis using sv m dd len by (simp add: read_write_bytes BLOCK_SIZE_def)
      next
        case False
        have "read_bytes ?m (rd_start s + push_bit 10 blk) BLOCK_SIZE =
            read_bytes (rdmem s) (rd_start s + push_bit 10 blk) BLOCK_SIZE"
          using rd_blocks_apart [OF b blk False [symmetric]] len
          by (intro read_write_bytes_other) (simp_all add: BLOCK_SIZE_def)
        then show ?thesis using sv m dd False by (simp add: dev_read_def Let_def split: if_splits)
      qed
    qed
  qed
qed

subsection \<open>The contract of the block layer\<close>

text \<open>
  What the buffer cache relies on: a transfer moves the data of one buffer to or from its block,
  and touches no other buffer and no other block.
\<close>

locale block_device =
  fixes transfer :: "int \<Rightarrow> nat \<Rightarrow> 's \<Rightarrow> (unit, 's) res"
    and buffer :: "'s \<Rightarrow> nat \<Rightarrow> buffer_head"
    and stored :: "'s \<Rightarrow> u16 \<Rightarrow> u32 \<Rightarrow> u8 list option"
    and ready :: "'s \<Rightarrow> nat \<Rightarrow> bool"
  assumes write_block: "\<lbrakk>ready s b; b_dirt (buffer s b);
        stored s (b_dev (buffer s b)) (b_blocknr (buffer s b)) \<noteq> None\<rbrakk> \<Longrightarrow>
      \<exists>t. transfer WRITE b s = Ok () t \<and>
        stored t (b_dev (buffer s b)) (b_blocknr (buffer s b)) = Some (b_data (buffer s b)) \<and>
        (\<forall>d k. k < 0x400000 \<longrightarrow> (d, k) \<noteq> (b_dev (buffer s b), b_blocknr (buffer s b)) \<longrightarrow>
           stored t d k = stored s d k) \<and>
        buffer t b = (buffer s b)\<lparr>b_dirt := False, b_uptodate := True\<rparr> \<and>
        (\<forall>i. i \<noteq> b \<longrightarrow> buffer t i = buffer s i) \<and> (\<forall>i. ready s i \<longrightarrow> ready t i)"
    and read_block: "\<lbrakk>ready s b; \<not> b_uptodate (buffer s b);
        stored s (b_dev (buffer s b)) (b_blocknr (buffer s b)) = Some x\<rbrakk> \<Longrightarrow>
      \<exists>t. transfer READ b s = Ok () t \<and> stored t = stored s \<and>
        buffer t b = (buffer s b)\<lparr>b_dirt := False, b_data := x, b_uptodate := True\<rparr> \<and>
        (\<forall>i. i \<noteq> b \<longrightarrow> buffer t i = buffer s i)"
begin

lemma write_then_read:
  assumes "ready s a" and "ready s b" and "a \<noteq> b" and "b_dirt (buffer s a)"
    and "\<not> b_uptodate (buffer s b)"
    and "b_dev (buffer s a) = b_dev (buffer s b)" and "b_blocknr (buffer s a) = b_blocknr (buffer s b)"
    and "stored s (b_dev (buffer s a)) (b_blocknr (buffer s a)) \<noteq> None"
  shows "\<exists>t. bind (transfer WRITE a s) (\<lambda>_. transfer READ b) = Ok () t \<and>
     buffer t a = (buffer s a)\<lparr>b_dirt := False, b_uptodate := True\<rparr> \<and>
     buffer t b = (buffer s b)\<lparr>b_dirt := False, b_data := b_data (buffer s a), b_uptodate := True\<rparr> \<and>
     (\<forall>i. i \<noteq> a \<and> i \<noteq> b \<longrightarrow> buffer t i = buffer s i) \<and>
     (\<forall>d k. k < 0x400000 \<longrightarrow> (d, k) \<noteq> (b_dev (buffer s a), b_blocknr (buffer s a)) \<longrightarrow>
        stored t d k = stored s d k)"
proof -
  from write_block [OF assms(1,4,8)] obtain u where u: "transfer WRITE a s = Ok () u"
    "stored u (b_dev (buffer s a)) (b_blocknr (buffer s a)) = Some (b_data (buffer s a))"
    "\<forall>d k. k < 0x400000 \<longrightarrow> (d, k) \<noteq> (b_dev (buffer s a), b_blocknr (buffer s a)) \<longrightarrow>
       stored u d k = stored s d k"
    "buffer u a = (buffer s a)\<lparr>b_dirt := False, b_uptodate := True\<rparr>"
    "\<forall>i. i \<noteq> a \<longrightarrow> buffer u i = buffer s i" "ready u b"
    using assms(2) by blast
  have ub: "buffer u b = buffer s b" using u(5) assms(3) by simp
  have "\<exists>t. transfer READ b u = Ok () t \<and> stored t = stored u \<and>
        buffer t b = (buffer u b)\<lparr>b_dirt := False, b_data := b_data (buffer s a), b_uptodate := True\<rparr> \<and>
        (\<forall>i. i \<noteq> b \<longrightarrow> buffer t i = buffer u i)"
    using u(2,6) ub assms(5,6,7) by (intro read_block) simp_all
  then obtain t where "transfer READ b u = Ok () t" "stored t = stored u"
    "buffer t b = (buffer s b)\<lparr>b_dirt := False, b_data := b_data (buffer s a), b_uptodate := True\<rparr>"
    "\<forall>i. i \<noteq> b \<longrightarrow> buffer t i = buffer u i" unfolding ub by blast
  then show ?thesis using u assms(3) by (intro exI [of _ t]) auto
qed

end

definition blk_ready :: "'a fs_scheme \<Rightarrow> nat \<Rightarrow> bool" where
  "blk_ready s b \<longleftrightarrow> quiet s \<and> b < length (buffers s) \<and> blk_fits s b \<and>
     length (b_data (bf s b)) = BLOCK_SIZE"

lemma served_more [simp]:
  "request_fn (served r rw bh s) = request_fn s"
  "length (buffers (served r rw bh s)) = length (buffers s)"
  by (simp_all add: served_def Let_def)

interpretation bd: block_device ll_rw_block bf dev_read blk_ready
proof
  fix s :: "'a fs_scheme" and b
  assume r: "blk_ready s b" and d: "b_dirt (bf s b)"
    and ok: "dev_read s (b_dev (bf s b)) (b_blocknr (bf s b)) \<noteq> None"
  let ?t = "served 20 WRITE b s"
  have q: "quiet s" "b < length (buffers s)" "blk_fits s b" "length (b_data (bf s b)) = BLOCK_SIZE"
    using r by (simp_all add: blk_ready_def)
  have "ll_rw_block WRITE b s = Ok () ?t"
    using ll_rw_served [OF q(1,2,3), of WRITE] d by (simp add: rw_defs)
  moreover have sv: "bf ?t i = (if i = b then (bf s b)\<lparr>b_dirt := False, b_uptodate := True\<rparr> else bf s i)" for i
    using served_bf [OF q(2), of WRITE 20 i] ok by (cases "bf s b") (auto simp: rw_defs)
  moreover have "blk_ready ?t i" if "blk_ready s i" for i
    using that quiet_served [OF q(1,2), of 20 WRITE] sv
    by (auto simp: blk_ready_def NR_REQUEST_def blk_fits_def has_driver_def)
  moreover note dev_read_served_write [OF q(3,4) ok, of _ 20]
  ultimately show "\<exists>t. ll_rw_block WRITE b s = Ok () t \<and>
        dev_read t (b_dev (bf s b)) (b_blocknr (bf s b)) = Some (b_data (bf s b)) \<and>
        (\<forall>d k. k < 0x400000 \<longrightarrow> (d, k) \<noteq> (b_dev (bf s b), b_blocknr (bf s b)) \<longrightarrow>
           dev_read t d k = dev_read s d k) \<and>
        bf t b = (bf s b)\<lparr>b_dirt := False, b_uptodate := True\<rparr> \<and>
        (\<forall>i. i \<noteq> b \<longrightarrow> bf t i = bf s i) \<and> (\<forall>i. blk_ready s i \<longrightarrow> blk_ready t i)"
    using q(3) by (intro exI [of _ ?t]) (auto simp: blk_fits_def)
next
  fix s :: "'a fs_scheme" and b x
  assume r: "blk_ready s b" and d: "\<not> b_uptodate (bf s b)"
    and ok: "dev_read s (b_dev (bf s b)) (b_blocknr (bf s b)) = Some x"
  let ?t = "served 31 READ b s"
  have q: "quiet s" "b < length (buffers s)" "blk_fits s b" using r by (simp_all add: blk_ready_def)
  have "ll_rw_block READ b s = Ok () ?t"
    using ll_rw_served [OF q, of READ] d by simp
  moreover have "bf ?t i = (if i = b then (bf s b)\<lparr>b_dirt := False, b_data := x, b_uptodate := True\<rparr> else bf s i)" for i
    using served_bf [OF q(2), of READ 31 i] ok by simp
  ultimately show "\<exists>t. ll_rw_block READ b s = Ok () t \<and> dev_read t = dev_read s \<and>
        bf t b = (bf s b)\<lparr>b_dirt := False, b_data := x, b_uptodate := True\<rparr> \<and>
        (\<forall>i. i \<noteq> b \<longrightarrow> bf t i = bf s i)"
    using dev_read_served_read by (intro exI [of _ ?t]) auto
qed

text \<open>A buffer for a block of the RAM disk is ready for the block layer when nothing is in its way.\<close>

lemma ready_ramdisk:
  assumes "quiet s" and "request_fn s 1" and "b < length (buffers s)" and "length (b_data (bf s b)) = BLOCK_SIZE"
    and "b_dev (bf s b) = 0x0101" and "b_blocknr (bf s b) < 0x400000"
  shows "blk_ready s b"
  using assms by (simp add: blk_ready_def blk_fits_def has_driver_def MAJOR_def)

lemma read_ramdisk:
  "rd_start s + push_bit 10 k + 0x400 \<le> rd_start s + rd_length s \<Longrightarrow> dev_read s 0x0101 k \<noteq> None"
  by (simp add: dev_read_def MAJOR_def MINOR_def Let_def not_less)

text \<open>The memory of the RAM disk after a write and a read.\<close>

lemma write_read_memory:
  assumes ra: "blk_ready s a" and rb: "blk_ready s b" and ab: "a \<noteq> b"
    and flags: "b_dirt (bf s a)" "\<not> b_uptodate (bf s b)"
    and ok: "dev_read s (b_dev (bf s a)) (b_blocknr (bf s a)) \<noteq> None"
    and t: "bind (ll_rw_block WRITE a s) (\<lambda>_. ll_rw_block READ b) = Ok () t"
  shows "quiet t" and "MAJOR (b_dev (bf s a)) = 1 \<Longrightarrow>
    rdmem t = write_bytes (b_data (bf s a)) (rd_start s + push_bit 10 (b_blocknr (bf s a))) (rdmem s)"
proof -
  let ?u = "served 20 WRITE a s"
  note A = ra [unfolded blk_ready_def] and B = rb [unfolded blk_ready_def]
  have w: "ll_rw_block WRITE a s = Ok () ?u"
    using ll_rw_served [of s a WRITE] A flags by (simp add: rw_defs)
  have u: "bf ?u b = bf s b" using served_bf [of a s WRITE 20 b] A ab by (simp add: rw_defs)
  have qu: "quiet ?u" using quiet_served [of s a 20] A by (simp add: NR_REQUEST_def)
  have fb: "blk_fits ?u b" using B u by (simp add: blk_fits_def has_driver_def)
  have "ll_rw_block READ b ?u = Ok () (served 31 READ b ?u)"
    using ll_rw_served [OF qu _ fb, of READ] B flags(2) u by simp
  with t w have te: "t = served 31 READ b ?u" by simp
  show "quiet t" using quiet_served [OF qu, of b 31] B by (simp add: te NR_REQUEST_def)
  obtain y where "dev_read s (b_dev (bf s a)) (b_blocknr (bf s a)) = Some y" using ok by blast
  then show "rdmem t = write_bytes (b_data (bf s a)) (rd_start s + push_bit 10 (b_blocknr (bf s a))) (rdmem s)"
    if "MAJOR (b_dev (bf s a)) = 1"
    using that A by (simp add: te served_def Let_def rw_defs)
qed

text \<open>
  C12: what is written to a block of the RAM disk through one buffer is what a later read of that
  block through another buffer delivers. The write puts the bytes of the buffer at the place of the block
  in memory and changes no other byte, no other block of a device and no other buffer; the first
  buffer is then clean and up to date with its data unchanged, the second one up to date. Both calls
  return without sleeping. Assumed is that the queues are empty and nobody waits for a buffer or a
  request (\<open>quiet\<close>, which holds again at the end), as is always so between two requests
  when only the RAM disk is used, since it serves a request before \<open>add_request\<close> returns; and that the block lies
  within the RAM disk. For the disks with interrupts see \<open>hd_read_refines\<close>, \<open>hd_write_refines\<close> and
  \<open>floppy_reads_block\<close>.
\<close>

theorem block_write_read:
  assumes q: "quiet s" "request_fn s 1" and ab: "a < length (buffers s)" "b < length (buffers s)" "a \<noteq> b"
    and len: "length (b_data (bf s a)) = BLOCK_SIZE" "length (b_data (bf s b)) = BLOCK_SIZE"
    and dev: "b_dev (bf s a) = 0x0101" "b_dev (bf s b) = 0x0101"
    and blk: "b_blocknr (bf s a) = k" "b_blocknr (bf s b) = k" "k < 0x400000"
    and flags: "b_dirt (bf s a)" "\<not> b_uptodate (bf s b)"
    and fits: "rd_start s + push_bit 10 k + 0x400 \<le> rd_start s + rd_length s"
  shows "\<exists>t. bind (ll_rw_block WRITE a s) (\<lambda>_. ll_rw_block READ b) = Ok () t \<and>
     bf t a = (bf s a)\<lparr>b_dirt := False, b_uptodate := True\<rparr> \<and>
     bf t b = (bf s b)\<lparr>b_dirt := False, b_data := b_data (bf s a), b_uptodate := True\<rparr> \<and>
     (\<forall>i. i \<noteq> a \<and> i \<noteq> b \<longrightarrow> bf t i = bf s i) \<and>
     rdmem t = write_bytes (b_data (bf s a)) (rd_start s + push_bit 10 k) (rdmem s) \<and>
     (\<forall>d j. j < 0x400000 \<longrightarrow> (d, j) \<noteq> (0x0101, k) \<longrightarrow> dev_read t d j = dev_read s d j) \<and> quiet t"
proof -
  have ra: "blk_ready s a" and rb: "blk_ready s b" using assms by (simp_all add: ready_ramdisk)
  have ok: "dev_read s (b_dev (bf s a)) (b_blocknr (bf s a)) \<noteq> None"
    using read_ramdisk [OF fits] by (simp add: dev blk)
  have same: "b_dev (bf s a) = b_dev (bf s b)" "b_blocknr (bf s a) = b_blocknr (bf s b)" by (simp_all add: dev blk)
  from bd.write_then_read [OF ra rb ab(3) flags same ok] obtain t where
    t: "bind (ll_rw_block WRITE a s) (\<lambda>_. ll_rw_block READ b) = Ok () t"
    "bf t a = (bf s a)\<lparr>b_dirt := False, b_uptodate := True\<rparr>"
    "bf t b = (bf s b)\<lparr>b_dirt := False, b_data := b_data (bf s a), b_uptodate := True\<rparr>"
    "\<forall>i. i \<noteq> a \<and> i \<noteq> b \<longrightarrow> bf t i = bf s i"
    "\<forall>d j. j < 0x400000 \<longrightarrow> (d, j) \<noteq> (0x0101, k) \<longrightarrow> dev_read t d j = dev_read s d j"
    unfolding dev blk by (elim exE conjE) (rule that)
  from write_read_memory [OF ra rb ab(3) flags ok t(1)] have
    "rdmem t = write_bytes (b_data (bf s a)) (rd_start s + push_bit 10 k) (rdmem s)" "quiet t"
    by (simp_all add: dev blk MAJOR_def)
  with t show ?thesis by (intro exI [of _ t] conjI)
qed

text \<open>A state with two buffers for block 3 of the RAM disk.\<close>

definition demo_buf :: buffer_head where
  "demo_buf =
     \<lparr>b_data = replicate BLOCK_SIZE 7, b_blocknr = 3, b_dev = 0x0101, b_uptodate = False, b_dirt = False,
      b_count = 0, b_lock = False, b_wait = None, b_prev = None, b_next = None,
      b_prev_free = None, b_next_free = None\<rparr>"

definition demo_fs :: fs where
  "demo_fs = timers.extend boot_timers
     (fs.fields [demo_buf\<lparr>b_dirt := True\<rparr>, demo_buf\<lparr>b_data := replicate BLOCK_SIZE 0\<rparr>]
        (replicate NR_HASH None) 0 None 0x20000
        (replicate NR_REQUEST \<lparr>rq_dev = -1, rq_cmd = 0, rq_errors = 0, rq_sector = 0, rq_nr_sectors = 0, rq_buffer = 0,
           rq_waiting = None, rq_bh = None, rq_next = None\<rparr>)
        (replicate NR_BLK_DEV None) (\<lambda>m. m = 1) None 0x400000 0x100000 (\<lambda>_. 0) (\<lambda>_ _. None) (\<lambda>_. False) 0x0101
        [] 0 [] [])"

lemma demo_fs_simps [simp]:
  "buffers demo_fs = [demo_buf\<lparr>b_dirt := True\<rparr>, demo_buf\<lparr>b_data := replicate BLOCK_SIZE 0\<rparr>]"
  "requests demo_fs = replicate NR_REQUEST \<lparr>rq_dev = -1, rq_cmd = 0, rq_errors = 0, rq_sector = 0, rq_nr_sectors = 0, rq_buffer = 0,
           rq_waiting = None, rq_bh = None, rq_next = None\<rparr>"
  "current_request demo_fs = replicate NR_BLK_DEV None" "request_fn demo_fs = (\<lambda>m. m = 1)"
  "wait_for_request demo_fs = None" "rd_start demo_fs = 0x400000" "rd_length demo_fs = 0x100000"
  "rdmem demo_fs = (\<lambda>_. 0)"
  by (simp_all add: demo_fs_def timers.extend_def fs.fields_def)

lemma blk_ready_demo: "blk_ready demo_fs 0" "blk_ready demo_fs 1"
  by (simp_all add: blk_ready_def quiet_def blk_fits_def has_driver_def bf_def rq_def demo_buf_def
      MAJOR_def BLOCK_SIZE_def)

theorem block_write_read_witness:
  "\<exists>t. bind (ll_rw_block WRITE 0 demo_fs) (\<lambda>_. ll_rw_block READ 1) = Ok () t \<and>
     b_data (bf t 1) = replicate BLOCK_SIZE 7 \<and> rdmem t 0x400C00 = 7 \<and> rdmem t 0x400BFF = 0"
proof -
  have q: "quiet demo_fs" using blk_ready_demo(1) by (simp add: blk_ready_def)
  have h: "request_fn demo_fs 1" "0 < length (buffers demo_fs)" "1 < length (buffers demo_fs)" "(0 :: nat) \<noteq> 1"
    "length (b_data (bf demo_fs 0)) = BLOCK_SIZE" "length (b_data (bf demo_fs 1)) = BLOCK_SIZE"
    "b_dev (bf demo_fs 0) = 0x0101" "b_dev (bf demo_fs 1) = 0x0101" "b_blocknr (bf demo_fs 0) = 3"
    "b_blocknr (bf demo_fs 1) = 3" "(3 :: u32) < 0x400000" "b_dirt (bf demo_fs 0)" "\<not> b_uptodate (bf demo_fs 1)"
    "rd_start demo_fs + push_bit 10 3 + 0x400 \<le> rd_start demo_fs + rd_length demo_fs"
    by (simp_all add: bf_def demo_buf_def)
  from block_write_read [OF q h] obtain t where
    t: "bind (ll_rw_block WRITE 0 demo_fs) (\<lambda>_. ll_rw_block READ 1) = Ok () t"
      "bf t 1 = (bf demo_fs 1)\<lparr>b_dirt := False, b_data := b_data (bf demo_fs 0), b_uptodate := True\<rparr>"
      "rdmem t = write_bytes (b_data (bf demo_fs 0)) (rd_start demo_fs + push_bit 10 3) (rdmem demo_fs)"
    by (elim exE conjE) (rule that)
  have d: "b_data (bf demo_fs 0) = replicate BLOCK_SIZE 7" by (simp add: bf_def demo_buf_def)
  have fill: "write_bytes (replicate BLOCK_SIZE 7) x m c = (if unat (c - x) < BLOCK_SIZE then 7 else m c)"
    for x c :: u32 and m :: "u32 \<Rightarrow> u8"
  proof -
    have "length (replicate BLOCK_SIZE (7 :: u8)) \<le> 2 ^ 32" by (simp only: length_replicate) (simp add: BLOCK_SIZE_def)
    from write_bytes_at [OF this] show ?thesis by simp
  qed
  have m: "rdmem t 0x400C00 = 7" "rdmem t 0x400BFF = 0"
    unfolding t(3) d fill by (simp_all add: BLOCK_SIZE_def unsigned_minus_1_eq_mask mask_eq_exp_minus_1)
  have "b_data (bf t 1) = replicate BLOCK_SIZE 7" unfolding t(2) by (simp add: d)
  with t(1) m show ?thesis by (intro exI [of _ t] conjI)
qed

end
