(* ===== verification/Buffer.thy ===== *)
theory Buffer
  imports Blk
begin

text \<open>
  The buffer cache, \<open>fs/buffer.c\<close>, with its pointers: every buffer is on the circular free list
  (\<open>b_prev_free\<close>, \<open>b_next_free\<close>) and, when it holds a block, on the hash queue of the block (\<open>b_prev\<close>,
  \<open>b_next\<close>). \<open>getblk\<close> may have to write out a device, which writes inodes into buffers, which calls
  \<open>getblk\<close> again; \<open>get_super\<close>, \<open>write_inode\<close> and \<open>sync_inodes\<close> of \<open>fs/super.c\<close> and \<open>fs/inode.c\<close> are
  therefore here. The recursion is cut by fuel: the routines take the \<open>getblk\<close> they call as an
  argument, and \<open>getblk_n\<close> ties the knot.
\<close>

subsection \<open>Waiting\<close>

definition wait_on_buffer :: "nat \<Rightarrow> 'a fs_scheme \<Rightarrow> (unit, 'a fs_scheme) res" where
  "wait_on_buffer bh s =
     (if b_lock (bf s bh) then sleep_in (b_wait (bf s bh)) (\<lambda>q. set_bf bh (\<lambda>b. b\<lparr>b_wait := q\<rparr>)) s
      else Ok () s)"

definition wait_on_inode :: "nat \<Rightarrow> 'a fs_scheme \<Rightarrow> (unit, 'a fs_scheme) res" where
  "wait_on_inode i s =
     (if i_lock (ino s i) then sleep_in (i_wait (ino s i)) (\<lambda>q. set_ino i (\<lambda>x. x\<lparr>i_wait := q\<rparr>)) s
      else Ok () s)"

definition lock_inode :: "nat \<Rightarrow> 'a fs_scheme \<Rightarrow> (unit, 'a fs_scheme) res" where
  "lock_inode i s = bind (wait_on_inode i s) (\<lambda>_ s. Ok () (set_ino i (\<lambda>x. x\<lparr>i_lock := True\<rparr>) s))"

definition unlock_inode :: "nat \<Rightarrow> 'a fs_scheme \<Rightarrow> 'a fs_scheme" where
  "unlock_inode i s =
     (let s = set_ino i (\<lambda>x. x\<lparr>i_lock := False\<rparr>) s in
      case wake_up (i_wait (ino s i)) s of (q, s) \<Rightarrow> set_ino i (\<lambda>x. x\<lparr>i_wait := q\<rparr>) s)"

definition wait_on_super :: "nat \<Rightarrow> 'a fs_scheme \<Rightarrow> (unit, 'a fs_scheme) res" where
  "wait_on_super i s =
     (if s_lock (sbl s i) then sleep_in (s_wait (sbl s i)) (\<lambda>q. set_sb i (\<lambda>x. x\<lparr>s_wait := q\<rparr>)) s
      else Ok () s)"

definition get_super :: "u16 \<Rightarrow> 'a fs_scheme \<Rightarrow> (nat option, 'a fs_scheme) res" where
  "get_super dev s =
     (if dev = 0 then Ok None s
      else
        case find_idx (\<lambda>x. s_dev x = dev) (super_blocks s) of
          None \<Rightarrow> Ok None s
        | Some i \<Rightarrow> bind (wait_on_super i s) (\<lambda>_ s. Ok (Some i) s))"

subsection \<open>The queues\<close>

definition hashfn :: "u16 \<Rightarrow> u32 \<Rightarrow> nat" where
  "hashfn dev block = unat (ucast dev XOR block) mod NR_HASH"

definition bf_hash :: "'a fs_scheme \<Rightarrow> nat \<Rightarrow> nat" where
  "bf_hash s bh = hashfn (b_dev (bf s bh)) (b_blocknr (bf s bh))"

definition set_hash :: "nat \<Rightarrow> nat option \<Rightarrow> 'a fs_scheme \<Rightarrow> 'a fs_scheme" where
  "set_hash h p s = s\<lparr>hash_table := (hash_table s)[h := p]\<rparr>"

text \<open>An assignment through a pointer that the code has checked.\<close>

definition at_opt :: "nat option \<Rightarrow> (buffer_head \<Rightarrow> buffer_head) \<Rightarrow> 'a fs_scheme \<Rightarrow> 'a fs_scheme" where
  "at_opt p f s = (case p of None \<Rightarrow> s | Some i \<Rightarrow> set_bf i f s)"

definition remove_from_queues :: "nat \<Rightarrow> 'a fs_scheme \<Rightarrow> (unit, 'a fs_scheme) res" where
  "remove_from_queues bh s =
     (let s = at_opt (b_next (bf s bh)) (\<lambda>x. x\<lparr>b_prev := b_prev (bf s bh)\<rparr>) s;
          s = at_opt (b_prev (bf s bh)) (\<lambda>x. x\<lparr>b_next := b_next (bf s bh)\<rparr>) s;
          s = (if hash_table s ! bf_hash s bh = Some bh then set_hash (bf_hash s bh) (b_next (bf s bh)) s
               else s) in
      case (b_prev_free (bf s bh), b_next_free (bf s bh)) of
        (Some p, Some n) \<Rightarrow>
          let s = set_bf p (\<lambda>x. x\<lparr>b_next_free := Some n\<rparr>) s;
              s = set_bf n (\<lambda>x. x\<lparr>b_prev_free := Some p\<rparr>) s in
          Ok () (if free_head s = bh then s\<lparr>free_head := n\<rparr> else s)
      | _ \<Rightarrow> Panic ''Free block list corrupted'')"

text \<open>
  The address of a buffer head, whose size is 36 bytes. \<open>bh->b_next->b_prev = bh\<close> is executed when
  \<open>b_next\<close> is \<open>NULL\<close> too; in the kernel, address 0 is the page directory, and \<open>b_prev\<close> is at offset 20.
\<close>

definition buf_addr :: "nat \<Rightarrow> 'a fs_scheme \<Rightarrow> u32" where
  "buf_addr bh s = start_buffer s + 36 * of_nat bh"

definition insert_into_queues :: "nat \<Rightarrow> 'a fs_scheme \<Rightarrow> (unit, 'a fs_scheme) res" where
  "insert_into_queues bh s =
     (let head = free_head s;
          s = set_bf bh (\<lambda>x. x\<lparr>b_next_free := Some head\<rparr>) s;
          s = set_bf bh (\<lambda>x. x\<lparr>b_prev_free := b_prev_free (bf s head)\<rparr>) s in
      case b_prev_free (bf s head) of
        None \<Rightarrow> Fault ''free list''
      | Some l \<Rightarrow>
          let s = set_bf l (\<lambda>x. x\<lparr>b_next_free := Some bh\<rparr>) s;
              s = set_bf head (\<lambda>x. x\<lparr>b_prev_free := Some bh\<rparr>) s;
              s = set_bf bh (\<lambda>x. x\<lparr>b_prev := None, b_next := None\<rparr>) s in
          if b_dev (bf s bh) = 0 then Ok () s
          else
            let h = bf_hash s bh;
                s = set_bf bh (\<lambda>x. x\<lparr>b_next := hash_table s ! h\<rparr>) s;
                s = set_hash h (Some bh) s in
            Ok () (case b_next (bf s bh) of
                     None \<Rightarrow> poke 20 (buf_addr bh s) s
                   | Some n \<Rightarrow> set_bf n (\<lambda>x. x\<lparr>b_prev := Some bh\<rparr>) s))"

fun find_from :: "nat \<Rightarrow> nat option \<Rightarrow> u16 \<Rightarrow> u32 \<Rightarrow> 'a fs_scheme \<Rightarrow> (nat option, 'a fs_scheme) res" where
  "find_from 0 tmp dev block s = Hang"
| "find_from (Suc fuel) tmp dev block s =
     (case tmp of
        None \<Rightarrow> Ok None s
      | Some i \<Rightarrow>
          if b_dev (bf s i) = dev \<and> b_blocknr (bf s i) = block then Ok (Some i) s
          else find_from fuel (b_next (bf s i)) dev block s)"

text \<open>A hash queue is no longer than the number of buffers.\<close>

definition find_buffer :: "u16 \<Rightarrow> u32 \<Rightarrow> 'a fs_scheme \<Rightarrow> (nat option, 'a fs_scheme) res" where
  "find_buffer dev block s =
     find_from (Suc (length (buffers s))) (hash_table s ! hashfn dev block) dev block s"

text \<open>
  The loop of \<open>get_hash_table\<close> comes round only when the buffer has changed during a sleep, where
  the model stops.
\<close>

definition get_hash_table :: "u16 \<Rightarrow> u32 \<Rightarrow> 'a fs_scheme \<Rightarrow> (nat option, 'a fs_scheme) res" where
  "get_hash_table dev block s =
     bind (find_buffer dev block s) (\<lambda>p s.
     case p of
       None \<Rightarrow> Ok None s
     | Some bh \<Rightarrow>
         let s = set_bf bh (\<lambda>b. b\<lparr>b_count := b_count b + 1\<rparr>) s in
         bind (wait_on_buffer bh s) (\<lambda>_ s. Ok (Some bh) s))"

definition BADNESS :: "buffer_head \<Rightarrow> nat" where
  "BADNESS b = 2 * of_bool (b_dirt b) + of_bool (b_lock b)"

text \<open>The search of \<open>getblk\<close>: once round the free list, for an unused buffer of least badness.\<close>

fun scan_free :: "nat \<Rightarrow> nat \<Rightarrow> nat option \<Rightarrow> 'a fs_scheme \<Rightarrow> (nat option, 'a fs_scheme) res" where
  "scan_free 0 tmp bh s = Hang"
| "scan_free (Suc fuel) tmp bh s =
     (let better = b_count (bf s tmp) = 0 \<and>
            (case bh of None \<Rightarrow> True | Some b \<Rightarrow> BADNESS (bf s tmp) < BADNESS (bf s b));
          bh = (if better then Some tmp else bh) in
      if better \<and> BADNESS (bf s tmp) = 0 then Ok bh s
      else
        case b_next_free (bf s tmp) of
          None \<Rightarrow> Fault ''free list''
        | Some n \<Rightarrow> if n = free_head s then Ok bh s else scan_free fuel n bh s)"

definition brelse :: "nat option \<Rightarrow> 'a fs_scheme \<Rightarrow> (unit, 'a fs_scheme) res" where
  "brelse buf s =
     (case buf of
        None \<Rightarrow> Ok () s
      | Some bh \<Rightarrow>
          bind (wait_on_buffer bh s) (\<lambda>_ s.
          if b_count (bf s bh) = 0 then Panic ''Trying to free free buffer''
          else
            let s = set_bf bh (\<lambda>b. b\<lparr>b_count := b_count b - 1\<rparr>) s in
            case wake_up (buffer_wait s) s of (q, s) \<Rightarrow> Ok () (s\<lparr>buffer_wait := q\<rparr>)))"

subsection \<open>Reading and writing back, over a given \<open>getblk\<close>\<close>

type_synonym 'a getblk = "u16 \<Rightarrow> u32 \<Rightarrow> 'a fs_scheme \<Rightarrow> (nat, 'a fs_scheme) res"

definition bread_with :: "'a getblk \<Rightarrow> u16 \<Rightarrow> u32 \<Rightarrow> 'a fs_scheme \<Rightarrow> (nat option, 'a fs_scheme) res" where
  "bread_with gb dev block s =
     bind (gb dev block s) (\<lambda>bh s.
     if b_uptodate (bf s bh) then Ok (Some bh) s
     else
       bind (ll_rw_block READ bh s) (\<lambda>_ s.
       bind (wait_on_buffer bh s) (\<lambda>_ s.
       if b_uptodate (bf s bh) then Ok (Some bh) s
       else bind (brelse (Some bh) s) (\<lambda>_ s. Ok None s))))"

text \<open>The 32 bytes of an inode on disk, and the block it is in.\<close>

definition put16 :: "u16 \<Rightarrow> u8 list" where
  "put16 w = [ucast w, ucast (drop_bit 8 w)]"

definition put32 :: "u32 \<Rightarrow> u8 list" where
  "put32 w = [ucast w, ucast (drop_bit 8 w), ucast (drop_bit 16 w), ucast (drop_bit 24 w)]"

definition get16 :: "u8 list \<Rightarrow> nat \<Rightarrow> u16" where
  "get16 d i = ucast (d ! i) OR push_bit 8 (ucast (d ! (i + 1)))"

definition get32 :: "u8 list \<Rightarrow> nat \<Rightarrow> u32" where
  "get32 d i = ucast (d ! i) OR push_bit 8 (ucast (d ! (i + 1))) OR
     push_bit 16 (ucast (d ! (i + 2))) OR push_bit 24 (ucast (d ! (i + 3)))"

definition d_inode_bytes :: "d_inode \<Rightarrow> u8 list" where
  "d_inode_bytes x =
     put16 (i_mode x) @ put16 (i_uid x) @ put32 (i_size x) @ put32 (i_mtime x) @
     [i_gid x, i_nlinks x] @ concat (List.map put16 (i_zone x))"

definition bytes_d_inode :: "u8 list \<Rightarrow> d_inode" where
  "bytes_d_inode d =
     \<lparr>i_mode = get16 d 0, i_uid = get16 d 2, i_size = get32 d 4, i_mtime = get32 d 8,
      i_gid = d ! 12, i_nlinks = d ! 13, i_zone = List.map (\<lambda>k. get16 d (14 + 2 * k)) [0..<9]\<rparr>"

definition splice :: "'b list \<Rightarrow> nat \<Rightarrow> 'b list \<Rightarrow> 'b list" where
  "splice d i x = take i d @ x @ drop (i + length x) d"

definition inode_block :: "super_block \<Rightarrow> u16 \<Rightarrow> u32" where
  "inode_block sb n =
     2 + ucast (s_imap_blocks sb) + ucast (s_zmap_blocks sb) + of_int ((uint n - 1) sdiv 32)"

definition inode_offset :: "u16 \<Rightarrow> nat" where
  "inode_offset n = 32 * nat ((uint n - 1) mod 32)"

definition write_inode_with :: "'a getblk \<Rightarrow> nat \<Rightarrow> 'a fs_scheme \<Rightarrow> (unit, 'a fs_scheme) res" where
  "write_inode_with gb i s =
     bind (lock_inode i s) (\<lambda>_ s.
     if \<not> i_dirt (ino s i) \<or> i_dev (ino s i) = 0 then Ok () (unlock_inode i s)
     else
       bind (get_super (i_dev (ino s i)) s) (\<lambda>sb s.
       case sb of
         None \<Rightarrow> Panic ''trying to write inode without device''
       | Some sb \<Rightarrow>
           bind (bread_with gb (i_dev (ino s i)) (inode_block (sbl s sb) (i_num (ino s i))) s) (\<lambda>bh s.
           case bh of
             None \<Rightarrow> Panic ''unable to read i-node block''
           | Some bh \<Rightarrow>
               let s = set_bf bh (\<lambda>b. b\<lparr>b_data := splice (b_data b) (inode_offset (i_num (ino s i)))
                     (d_inode_bytes (d_inode.truncate (ino s i))), b_dirt := True\<rparr>) s;
                   s = set_ino i (\<lambda>x. x\<lparr>i_dirt := False\<rparr>) s in
               bind (brelse (Some bh) s) (\<lambda>_ s. Ok () (unlock_inode i s)))))"

text \<open>\<open>for(i=0 ; i<NR_INODE ; i++)\<close>, from \<open>i\<close>, \<open>n\<close> inodes.\<close>

fun sync_inodes_with :: "'a getblk \<Rightarrow> nat \<Rightarrow> nat \<Rightarrow> 'a fs_scheme \<Rightarrow> (unit, 'a fs_scheme) res" where
  "sync_inodes_with gb 0 i s = Ok () s"
| "sync_inodes_with gb (Suc n) i s =
     bind (wait_on_inode i s) (\<lambda>_ s.
     bind (if i_dirt (ino s i) \<and> \<not> i_pipe (ino s i) then write_inode_with gb i s else Ok () s) (\<lambda>_ s.
     sync_inodes_with gb n (Suc i) s))"

fun write_buffers :: "u16 option \<Rightarrow> nat \<Rightarrow> nat \<Rightarrow> 'a fs_scheme \<Rightarrow> (unit, 'a fs_scheme) res" where
  "write_buffers dev 0 i s = Ok () s"
| "write_buffers dev (Suc n) i s =
     (if dev \<noteq> None \<and> dev \<noteq> Some (b_dev (bf s i)) then write_buffers dev n (Suc i) s
      else
        bind (wait_on_buffer i s) (\<lambda>_ s.
        bind (if (dev = None \<or> dev = Some (b_dev (bf s i))) \<and> b_dirt (bf s i)
              then ll_rw_block WRITE i s else Ok () s) (\<lambda>_ s.
        write_buffers dev n (Suc i) s)))"

definition sync_dev_with :: "'a getblk \<Rightarrow> u16 \<Rightarrow> 'a fs_scheme \<Rightarrow> (int, 'a fs_scheme) res" where
  "sync_dev_with gb dev s =
     bind (write_buffers (Some dev) (length (buffers s)) 0 s) (\<lambda>_ s.
     bind (sync_inodes_with gb NR_INODE 0 s) (\<lambda>_ s.
     bind (write_buffers (Some dev) (length (buffers s)) 0 s) (\<lambda>_ s. Ok 0 s)))"

text \<open>\<open>while (bh->b_dirt)\<close>; the result says whether the buffer is still unused.\<close>

fun clean_buffer :: "nat \<Rightarrow> 'a getblk \<Rightarrow> nat \<Rightarrow> 'a fs_scheme \<Rightarrow> (bool, 'a fs_scheme) res" where
  "clean_buffer 0 gb bh s = Hang"
| "clean_buffer (Suc fuel) gb bh s =
     (if \<not> b_dirt (bf s bh) then Ok True s
      else
        bind (sync_dev_with gb (b_dev (bf s bh)) s) (\<lambda>_ s.
        bind (wait_on_buffer bh s) (\<lambda>_ s.
        if b_count (bf s bh) \<noteq> 0 then Ok False s else clean_buffer fuel gb bh s)))"

fun getblk_n :: "nat \<Rightarrow> 'a getblk" where
  "getblk_n 0 dev block s = Hang"
| "getblk_n (Suc fuel) dev block s =
     bind (get_hash_table dev block s) (\<lambda>p s.
     case p of
       Some bh \<Rightarrow> Ok bh s
     | None \<Rightarrow>
         bind (scan_free (length (buffers s)) (free_head s) None s) (\<lambda>p s.
         case p of
           None \<Rightarrow> sleep_in (buffer_wait s) (\<lambda>q s. s\<lparr>buffer_wait := q\<rparr>) s
         | Some bh \<Rightarrow>
             bind (wait_on_buffer bh s) (\<lambda>_ s.
             if b_count (bf s bh) \<noteq> 0 then getblk_n fuel dev block s
             else
               bind (clean_buffer fuel (getblk_n fuel) bh s) (\<lambda>unused s.
               if \<not> unused then getblk_n fuel dev block s
               else
                 bind (find_buffer dev block s) (\<lambda>p s.
                 if p \<noteq> None then getblk_n fuel dev block s
                 else
                   let s = set_bf bh (\<lambda>b. b\<lparr>b_count := 1, b_dirt := False, b_uptodate := False\<rparr>) s in
                   bind (remove_from_queues bh s) (\<lambda>_ s.
                   let s = set_bf bh (\<lambda>b. b\<lparr>b_dev := dev, b_blocknr := block\<rparr>) s in
                   bind (insert_into_queues bh s) (\<lambda>_ s. Ok bh s)))))))"

definition BUF_FUEL :: nat where "BUF_FUEL = 1000"

definition getblk :: "'a getblk" where "getblk = getblk_n BUF_FUEL"

definition bread :: "u16 \<Rightarrow> u32 \<Rightarrow> 'a fs_scheme \<Rightarrow> (nat option, 'a fs_scheme) res" where
  "bread = bread_with getblk"

definition write_inode :: "nat \<Rightarrow> 'a fs_scheme \<Rightarrow> (unit, 'a fs_scheme) res" where
  "write_inode = write_inode_with getblk"

definition sync_inodes :: "'a fs_scheme \<Rightarrow> (unit, 'a fs_scheme) res" where
  "sync_inodes = sync_inodes_with getblk NR_INODE 0"

definition sync_dev :: "u16 \<Rightarrow> 'a fs_scheme \<Rightarrow> (int, 'a fs_scheme) res" where
  "sync_dev = sync_dev_with getblk"

definition sys_sync :: "'a fs_scheme \<Rightarrow> (int, 'a fs_scheme) res" where
  "sys_sync s =
     bind (sync_inodes s) (\<lambda>_ s.
     bind (write_buffers None (length (buffers s)) 0 s) (\<lambda>_ s. Ok 0 s))"

subsection \<open>The other operations\<close>

text \<open>\<open>COPYBLK\<close> to a physical address, word by word.\<close>

fun copy_words :: "nat \<Rightarrow> nat \<Rightarrow> u32 \<Rightarrow> u8 list \<Rightarrow> 'a fs_scheme \<Rightarrow> 'a fs_scheme" where
  "copy_words 0 k a d s = s"
| "copy_words (Suc n) k a d s = copy_words n (Suc k) (a + 4) d (poke a (get32 d (4 * k)) s)"

fun bread_page_get :: "u16 \<Rightarrow> u32 list \<Rightarrow> 'a fs_scheme \<Rightarrow> (nat option list, 'a fs_scheme) res" where
  "bread_page_get dev [] s = Ok [] s"
| "bread_page_get dev (b # bs) s =
     (if b = 0 then bind (bread_page_get dev bs s) (\<lambda>ps s. Ok (None # ps) s)
      else
        bind (getblk dev b s) (\<lambda>bh s.
        bind (if b_uptodate (bf s bh) then Ok () s else ll_rw_block READ bh s) (\<lambda>_ s.
        bind (bread_page_get dev bs s) (\<lambda>ps s. Ok (Some bh # ps) s))))"

fun bread_page_copy :: "u32 \<Rightarrow> nat option list \<Rightarrow> 'a fs_scheme \<Rightarrow> (unit, 'a fs_scheme) res" where
  "bread_page_copy a [] s = Ok () s"
| "bread_page_copy a (None # ps) s = bread_page_copy (a + 0x400) ps s"
| "bread_page_copy a (Some bh # ps) s =
     bind (wait_on_buffer bh s) (\<lambda>_ s.
     let s = (if b_uptodate (bf s bh) then copy_words 256 0 a (b_data (bf s bh)) s else s) in
     bind (brelse (Some bh) s) (\<lambda>_ s. bread_page_copy (a + 0x400) ps s))"

definition bread_page :: "u32 \<Rightarrow> u16 \<Rightarrow> u32 list \<Rightarrow> 'a fs_scheme \<Rightarrow> (unit, 'a fs_scheme) res" where
  "bread_page address dev b s =
     bind (bread_page_get dev b s) (\<lambda>bh s. bread_page_copy address bh s)"

text \<open>
  The read-ahead of \<open>breada\<close>, as written: when a further block is not up to date, it is the first
  one that is passed to \<open>ll_rw_block\<close> again.
\<close>

fun read_ahead :: "nat \<Rightarrow> u16 \<Rightarrow> u32 list \<Rightarrow> 'a fs_scheme \<Rightarrow> (unit, 'a fs_scheme) res" where
  "read_ahead bh dev [] s = Ok () s"
| "read_ahead bh dev (b # bs) s =
     (if sint b < 0 then Ok () s
      else
        bind (getblk dev b s) (\<lambda>tmp s.
        bind (if b_uptodate (bf s tmp) then Ok () s else ll_rw_block READA bh s) (\<lambda>_ s.
        read_ahead bh dev bs (set_bf tmp (\<lambda>x. x\<lparr>b_count := b_count x - 1\<rparr>) s))))"

definition breada :: "u16 \<Rightarrow> u32 \<Rightarrow> u32 list \<Rightarrow> 'a fs_scheme \<Rightarrow> (nat option, 'a fs_scheme) res" where
  "breada dev first rest s =
     bind (getblk dev first s) (\<lambda>bh s.
     bind (if b_uptodate (bf s bh) then Ok () s else ll_rw_block READ bh s) (\<lambda>_ s.
     bind (read_ahead bh dev rest s) (\<lambda>_ s.
     bind (wait_on_buffer bh s) (\<lambda>_ s.
     if b_uptodate (bf s bh) then Ok (Some bh) s
     else bind (brelse (Some bh) s) (\<lambda>_ s. Ok None s)))))"

fun invalidate_buffers :: "u16 \<Rightarrow> nat \<Rightarrow> nat \<Rightarrow> 'a fs_scheme \<Rightarrow> (unit, 'a fs_scheme) res" where
  "invalidate_buffers dev 0 i s = Ok () s"
| "invalidate_buffers dev (Suc n) i s =
     (if b_dev (bf s i) \<noteq> dev then invalidate_buffers dev n (Suc i) s
      else
        bind (wait_on_buffer i s) (\<lambda>_ s.
        invalidate_buffers dev n (Suc i)
          (if b_dev (bf s i) = dev
           then set_bf i (\<lambda>b. b\<lparr>b_uptodate := False, b_dirt := False\<rparr>) s else s)))"

text \<open>
  The addresses of the data blocks that \<open>buffer_init\<close> hands out, from the end of memory down to
  the growing array of buffer heads, leaving out the range from 640kB to 1MB. \<open>buffer_init\<close> does
  not set the block number of a buffer; it is 0 here.
\<close>

function data_blocks :: "int \<Rightarrow> int \<Rightarrow> int list" where
  "data_blocks h b =
     (let b = b - 1024 in
      if 0 \<le> h \<and> h + 36 \<le> b
      then b # data_blocks (h + 36) (if b = 0x100000 then 0xA0000 else b)
      else [])"
  by pat_completeness auto
termination
  by (relation "measure (\<lambda>(h, b). nat b)") auto

declare data_blocks.simps [simp del]

definition mem_block :: "int \<Rightarrow> 'a fs_scheme \<Rightarrow> u8 list" where
  "mem_block a s = concat (List.map (\<lambda>k. put32 (phys s (of_int a + 4 * of_nat k))) [0..<256])"

definition buffer_init :: "int \<Rightarrow> 'a fs_scheme \<Rightarrow> 'a fs_scheme" where
  "buffer_init buffer_end s =
     (let ds = data_blocks (uint (start_buffer s))
                 (if buffer_end = 0x100000 then 640 * 1024 else buffer_end);
          n = length ds in
      s\<lparr>buffers := List.map (\<lambda>i. \<lparr>b_data = mem_block (ds ! i) s, b_blocknr = 0, b_dev = 0,
            b_uptodate = False, b_dirt = False, b_count = 0, b_lock = False, b_wait = None,
            b_prev = None, b_next = None,
            b_prev_free = Some (if i = 0 then n - 1 else i - 1),
            b_next_free = Some (if i = n - 1 then 0 else i + 1)\<rparr>) [0..<n],
        free_head := 0, hash_table := replicate NR_HASH None\<rparr>)"

end
