(* ===== verification/Pointer_Lists.thy ===== *)
theory Pointer_Lists
  imports Prelude
begin

text \<open>
  Doubly linked lists, for the queues of the buffer cache: \<open>f\<close> and \<open>g\<close> are the next and previous
  pointers, a list names the elements in order. \<open>ring\<close> is a circular list, \<open>chain\<close> one that ends in
  \<open>NULL\<close>; the lemmas say what the pointer assignments of insertion and removal do to the list.
\<close>

fun links :: "(nat \<Rightarrow> nat option) \<Rightarrow> (nat \<Rightarrow> nat option) \<Rightarrow> nat list \<Rightarrow> bool" where
  "links f g (x # y # zs) \<longleftrightarrow> f x = Some y \<and> g y = Some x \<and> links f g (y # zs)"
| "links f g _ \<longleftrightarrow> True"

lemma links_append: "links f g (xs @ y # zs) \<longleftrightarrow> links f g (xs @ [y]) \<and> links f g (y # zs)"
proof (induction xs)
  case (Cons a xs)
  then show ?case by (cases xs) auto
qed simp

lemma links_snoc:
  "xs \<noteq> [] \<Longrightarrow> links f g (xs @ [z]) \<longleftrightarrow>
     links f g xs \<and> f (last xs) = Some z \<and> g z = Some (last xs)"
  using links_append [of f g "butlast xs" "last xs" "[z]"] by (cases xs rule: rev_cases) auto

lemma links_cong:
  assumes "links f g xs" and "\<And>x. x \<in> set (butlast xs) \<Longrightarrow> f' x = f x" and "\<And>x. x \<in> set (tl xs) \<Longrightarrow> g' x = g x"
  shows "links f' g' xs"
  using assms
proof (induction f g xs rule: links.induct)
  case (1 f g x y zs)
  then show ?case by (cases zs) auto
qed auto

text \<open>A ring, named from one of its elements.\<close>

definition ring :: "(nat \<Rightarrow> nat option) \<Rightarrow> (nat \<Rightarrow> nat option) \<Rightarrow> nat list \<Rightarrow> bool" where
  "ring f g xs \<longleftrightarrow> xs \<noteq> [] \<and> distinct xs \<and> links f g (xs @ [hd xs])"

lemma ring_rotate:
  assumes "ring f g (xs @ ys)" and "xs \<noteq> []" and "ys \<noteq> []"
  shows "ring f g (ys @ xs)"
proof -
  obtain x xs' y ys' where xy: "xs = x # xs'" "ys = y # ys'" using assms(2,3) by (meson neq_Nil_conv)
  have "links f g (xs @ y # (ys' @ [x]))" using assms(1) by (simp add: ring_def xy)
  then have 1: "links f g (xs @ [y])" and "links f g ((y # ys') @ [x])"
    using links_append [of f g xs y "ys' @ [x]"] by auto
  then have "links f g ((y # ys') @ x # (xs' @ [y]))"
    using links_append [of f g "y # ys'" x "xs' @ [y]"] by (simp add: xy)
  then show ?thesis using assms(1) by (auto simp: ring_def xy)
qed

lemma ring_next:
  assumes "ring f g (x # y # zs)"
  shows "f x = Some y" and "g x = Some (last (y # zs))" and "f (last (y # zs)) = Some x" and "g y = Some x"
proof -
  have l: "links f g ((x # y # zs) @ [x])" using assms by (simp add: ring_def)
  then show "f x = Some y" "g y = Some x" by simp_all
  show "g x = Some (last (y # zs))" "f (last (y # zs)) = Some x"
    using l links_snoc [of "x # y # zs" f g x] by auto
qed

lemma in_set_tlD: "x \<in> set (tl xs) \<Longrightarrow> x \<in> set xs"
  by (cases xs) auto

lemma butlast_neq_last: "distinct xs \<Longrightarrow> a \<in> set (butlast xs) \<Longrightarrow> a \<noteq> last xs"
  by (cases xs rule: rev_cases) auto

text \<open>Taking the first element out of a ring, and putting an element in before the first.\<close>

lemma ring_remove:
  assumes "ring f g (x # y # zs)"
  shows "ring (f(last (y # zs) := Some y)) (g(y := Some (last (y # zs)))) (y # zs)"
proof -
  let ?l = "last (y # zs)"
  let ?f = "f(?l := Some y)" and ?g = "g(y := Some ?l)"
  have d: "distinct (y # zs)" and l: "links f g ((y # zs) @ [x])" using assms by (auto simp: ring_def)
  have "links f g (y # zs)" using l links_snoc [of "y # zs" f g x] by simp
  then have "links ?f ?g (y # zs)"
    by (rule links_cong) (use d butlast_neq_last [OF d] in auto)
  then show ?thesis using d links_snoc [of "y # zs" ?f ?g y] by (simp add: ring_def)
qed

lemma ring_insert:
  assumes "ring f g (y # zs)" and "x \<notin> set (y # zs)"
  shows "ring (f(x := Some y, last (y # zs) := Some x)) (g(x := Some (last (y # zs)), y := Some x)) (y # zs @ [x])"
proof -
  let ?l = "last (y # zs)"
  let ?f = "f(x := Some y, ?l := Some x)" and ?g = "g(x := Some ?l, y := Some x)"
  have d: "distinct (y # zs)" and l: "links f g ((y # zs) @ [y])" using assms by (auto simp: ring_def)
  have lx: "?l \<noteq> x" using assms(2) last_in_set [of "y # zs"] by auto
  have nl: "a \<noteq> ?l \<and> a \<noteq> x" if "a \<in> set (butlast (y # zs))" for a
    using butlast_neq_last [OF d that] in_set_butlastD [OF that] assms(2) by auto
  have "links f g (y # zs)" using l links_snoc [of "y # zs" f g y] by simp
  then have "links ?f ?g (y # zs)"
    by (rule links_cong) (use d nl assms(2) in auto)
  then have "links ?f ?g ((y # zs) @ [x])"
    using links_snoc [of "y # zs" ?f ?g x] assms(2) by auto
  then have "links ?f ?g (((y # zs) @ [x]) @ [y])"
    using links_snoc [of "(y # zs) @ [x]" ?f ?g y] lx assms(2) by auto
  then show ?thesis using d assms(2) by (auto simp: ring_def)
qed

text \<open>A chain that ends in \<open>NULL\<close> on both sides, and the pointer to its first element.\<close>

definition chain :: "(nat \<Rightarrow> nat option) \<Rightarrow> (nat \<Rightarrow> nat option) \<Rightarrow> nat option \<Rightarrow> nat list \<Rightarrow> bool" where
  "chain f g p xs \<longleftrightarrow> distinct xs \<and> links f g xs \<and>
     (if xs = [] then p = None else p = Some (hd xs) \<and> g (hd xs) = None \<and> f (last xs) = None)"

lemma chain_Nil [simp]: "chain f g p [] \<longleftrightarrow> p = None"
  by (simp add: chain_def)

lemma chain_cong:
  assumes c: "chain f g p xs" and "\<And>x. x \<in> set xs \<Longrightarrow> f' x = f x" and "\<And>x. x \<in> set xs \<Longrightarrow> g' x = g x"
  shows "chain f' g' p xs"
proof (cases xs)
  case (Cons y ys)
  have "links f g (y # ys)" using c Cons by (simp add: chain_def)
  then have "links f' g' (y # ys)"
  proof (rule links_cong)
    fix x assume "x \<in> set (butlast (y # ys))"
    then show "f' x = f x" using assms(2) Cons by (blast dest: in_set_butlastD)
  qed (use assms(3) Cons in simp)
  moreover have "last (y # ys) \<in> set xs" "y \<in> set xs" using Cons by simp_all
  ultimately show ?thesis using c Cons assms(2,3) by (simp add: chain_def)
qed (use c in simp)

lemma chain_insert:
  assumes "chain f g p xs" and "x \<notin> set xs"
  shows "chain (f(x := p)) (case p of None \<Rightarrow> g(x := None) | Some n \<Rightarrow> g(x := None, n := Some x)) (Some x) (x # xs)"
proof (cases xs)
  case Nil
  then show ?thesis using assms by (simp add: chain_def)
next
  case (Cons y ys)
  have p: "p = Some y" using assms Cons by (simp add: chain_def)
  have "links f g (y # ys)" using assms Cons by (simp add: chain_def)
  then have "links (f(x := p)) (g(x := None, y := Some x)) (y # ys)"
  proof (rule links_cong)
    fix a assume "a \<in> set (butlast (y # ys))"
    then have "a \<in> set xs" using Cons by (blast dest: in_set_butlastD)
    then show "(f(x := p)) a = f a" using assms(2) by auto
  qed (use assms Cons in \<open>auto simp: chain_def\<close>)
  then show ?thesis using assms Cons p by (auto simp: chain_def)
qed

lemma chain_remove:
  assumes "chain f g p (xs @ x # ys)"
  shows "chain (case g x of None \<Rightarrow> f | Some q \<Rightarrow> f(q := f x)) (case f x of None \<Rightarrow> g | Some n \<Rightarrow> g(n := g x))
     (if p = Some x then f x else p) (xs @ ys)"
proof -
  have d: "distinct (xs @ x # ys)" and l: "links f g (xs @ [x])" "links f g (x # ys)"
    and p: "p = Some (hd (xs @ [x]))" "g (hd (xs @ [x])) = None" "f (last (x # ys)) = None"
    using assms links_append [of f g xs x ys] by (cases xs, auto simp: chain_def)+
  have fx: "f x = (case ys of [] \<Rightarrow> None | y # _ \<Rightarrow> Some y)" using l(2) p(3) by (cases ys) auto
  have gx: "g x = (if xs = [] then None else Some (last xs))"
    using l(1) p(2) links_snoc [of xs f g x] by auto
  let ?f = "case g x of None \<Rightarrow> f | Some q \<Rightarrow> f(q := f x)"
  let ?g = "case f x of None \<Rightarrow> g | Some n \<Rightarrow> g(n := g x)"
  show ?thesis
  proof (cases xs rule: rev_cases)
    case Nil
    then show ?thesis using d l(2) p fx gx by (cases ys) (auto simp: chain_def intro: links_cong)
  next
    case xs: (snoc zs z)
    have lx: "links f g (zs @ [z])" using l(1) links_snoc [of xs f g x] xs by simp
    have ly: "links f g ys" using l(2) by (cases ys) auto
    have fz: "f z = Some x" "g x = Some z" using l(1) links_snoc [of xs f g x] xs by auto
    show ?thesis
    proof (cases ys)
      case Nil
      have "links (f(z := f x)) g (zs @ [z])"
        using lx by (rule links_cong) (use d xs in auto)
      then show ?thesis using d p xs Nil fz fx by (auto simp: chain_def hd_append)
    next
      case (Cons y vs)
      let ?f = "f(z := Some y)" and ?g = "g(y := Some z)"
      have "links ?f ?g (zs @ [z])"
        using lx by (rule links_cong) (use d xs Cons in \<open>auto dest: in_set_butlastD in_set_tlD\<close>)
      moreover have "links ?f ?g (y # vs)"
        using ly unfolding Cons
        by (rule links_cong) (use d xs Cons in \<open>auto dest: in_set_butlastD split: if_splits\<close>)
      ultimately have "links ?f ?g ((zs @ [z]) @ y # vs)"
        using links_append [of ?f ?g "zs @ [z]" y vs] links_snoc [of "zs @ [z]" ?f ?g y] by simp
      moreover have "hd (zs @ [z]) \<noteq> y" "last (y # vs) \<noteq> z"
        using d xs Cons hd_in_set [of "zs @ [z]"] last_in_set [of "y # vs"] by auto
      ultimately show ?thesis using d p xs Cons fz fx by (auto simp: chain_def hd_append)
    qed
  qed
qed

lemma chain_in:
  assumes "chain f g p xs" and "x \<in> set xs"
  shows "f x = Some i \<Longrightarrow> i \<in> set xs \<and> i \<noteq> x" and "g x = Some j \<Longrightarrow> j \<in> set xs \<and> j \<noteq> x"
proof -
  obtain as bs where xs: "xs = as @ x # bs" using assms(2) by (meson split_list)
  have d: "distinct (as @ x # bs)" and l: "links f g (as @ [x])" "links f g (x # bs)"
    and e: "g (hd (as @ [x])) = None" "f (last (x # bs)) = None"
    using assms(1) links_append [of f g as x bs] unfolding xs by (cases as, auto simp: chain_def)+
  show "i \<in> set xs \<and> i \<noteq> x" if "f x = Some i"
    using that l(2) e(2) d xs by (cases bs) auto
  show "j \<in> set xs \<and> j \<noteq> x" if "g x = Some j"
  proof -
    have "as \<noteq> []" using that e(1) by auto
    then have "j = last as" "last as \<in> set as" using links_snoc [of as f g x] l(1) that by auto
    then show ?thesis using xs d by auto
  qed
qed

lemma filter_neq: "x \<notin> set xs \<Longrightarrow> List.filter (\<lambda>i. i \<noteq> x) xs = xs"
  by (induction xs) auto

end
