(* ===== verification/Cache.thy ===== *)
theory Cache
  imports Buffer Pointer_Lists
begin

text \<open>
  The invariant of the buffer cache and \<open>getblk\<close>. The free list is a ring of all buffers and every
  hash queue a chain of exactly the buffers of its blocks; both are described by the list of the
  buffers on them, so that the pointer surgery of \<open>remove_from_queues\<close> and \<open>insert_into_queues\<close>
  refines removing a buffer from a list and adding it again.
\<close>

subsection \<open>The pointers of the buffers\<close>

definition nx :: "'a fs_scheme \<Rightarrow> nat \<Rightarrow> nat option" where "nx s i = b_next (bf s i)"
definition pv :: "'a fs_scheme \<Rightarrow> nat \<Rightarrow> nat option" where "pv s i = b_prev (bf s i)"
definition nf :: "'a fs_scheme \<Rightarrow> nat \<Rightarrow> nat option" where "nf s i = b_next_free (bf s i)"
definition pf :: "'a fs_scheme \<Rightarrow> nat \<Rightarrow> nat option" where "pf s i = b_prev_free (bf s i)"

lemma set_b_next [simp]:
  "i < length (buffers s) \<Longrightarrow> nx (set_bf i (\<lambda>b. b\<lparr>b_next := v\<rparr>) s) = (nx s)(i := v)"
  "i < length (buffers s) \<Longrightarrow> pv (set_bf i (\<lambda>b. b\<lparr>b_next := v\<rparr>) s) = pv s"
  "i < length (buffers s) \<Longrightarrow> nf (set_bf i (\<lambda>b. b\<lparr>b_next := v\<rparr>) s) = nf s"
  "i < length (buffers s) \<Longrightarrow> pf (set_bf i (\<lambda>b. b\<lparr>b_next := v\<rparr>) s) = pf s"
  by (auto simp: nx_def pv_def nf_def pf_def bf_set_bf)

lemma set_b_prev [simp]:
  "i < length (buffers s) \<Longrightarrow> nx (set_bf i (\<lambda>b. b\<lparr>b_prev := v\<rparr>) s) = nx s"
  "i < length (buffers s) \<Longrightarrow> pv (set_bf i (\<lambda>b. b\<lparr>b_prev := v\<rparr>) s) = (pv s)(i := v)"
  "i < length (buffers s) \<Longrightarrow> nf (set_bf i (\<lambda>b. b\<lparr>b_prev := v\<rparr>) s) = nf s"
  "i < length (buffers s) \<Longrightarrow> pf (set_bf i (\<lambda>b. b\<lparr>b_prev := v\<rparr>) s) = pf s"
  by (auto simp: nx_def pv_def nf_def pf_def bf_set_bf)

lemma set_b_next_free [simp]:
  "i < length (buffers s) \<Longrightarrow> nx (set_bf i (\<lambda>b. b\<lparr>b_next_free := v\<rparr>) s) = nx s"
  "i < length (buffers s) \<Longrightarrow> pv (set_bf i (\<lambda>b. b\<lparr>b_next_free := v\<rparr>) s) = pv s"
  "i < length (buffers s) \<Longrightarrow> nf (set_bf i (\<lambda>b. b\<lparr>b_next_free := v\<rparr>) s) = (nf s)(i := v)"
  "i < length (buffers s) \<Longrightarrow> pf (set_bf i (\<lambda>b. b\<lparr>b_next_free := v\<rparr>) s) = pf s"
  by (auto simp: nx_def pv_def nf_def pf_def bf_set_bf)

lemma set_b_prev_free [simp]:
  "i < length (buffers s) \<Longrightarrow> nx (set_bf i (\<lambda>b. b\<lparr>b_prev_free := v\<rparr>) s) = nx s"
  "i < length (buffers s) \<Longrightarrow> pv (set_bf i (\<lambda>b. b\<lparr>b_prev_free := v\<rparr>) s) = pv s"
  "i < length (buffers s) \<Longrightarrow> nf (set_bf i (\<lambda>b. b\<lparr>b_prev_free := v\<rparr>) s) = nf s"
  "i < length (buffers s) \<Longrightarrow> pf (set_bf i (\<lambda>b. b\<lparr>b_prev_free := v\<rparr>) s) = (pf s)(i := v)"
  by (auto simp: nx_def pv_def nf_def pf_def bf_set_bf)

text \<open>A buffer without its pointers, and a state without what the queues consist of.\<close>

definition core :: "buffer_head \<Rightarrow> buffer_head" where
  "core b = b\<lparr>b_prev := None, b_next := None, b_prev_free := None, b_next_free := None\<rparr>"

definition rest :: "'a fs_scheme \<Rightarrow> 'a fs_scheme" where
  "rest s = s\<lparr>buffers := [], hash_table := [], free_head := 0, phys := (\<lambda>_. 0)\<rparr>"

lemma core_set [simp]:
  "core (b\<lparr>b_prev := v\<rparr>) = core b" "core (b\<lparr>b_next := v\<rparr>) = core b"
  "core (b\<lparr>b_prev_free := v\<rparr>) = core b" "core (b\<lparr>b_next_free := v\<rparr>) = core b"
  by (simp_all add: core_def)

lemma core_upd:
  "core (b\<lparr>b_dev := d, b_blocknr := k\<rparr>) = (core b)\<lparr>b_dev := d, b_blocknr := k\<rparr>"
  "core (b\<lparr>b_count := c\<rparr>) = (core b)\<lparr>b_count := c\<rparr>"
  "core (b\<lparr>b_count := c, b_dirt := e, b_uptodate := e'\<rparr>) = (core b)\<lparr>b_count := c, b_dirt := e, b_uptodate := e'\<rparr>"
  by (cases b, simp add: core_def)+

lemma core_set_bf [simp]:
  "(\<And>b. core (f b) = core b) \<Longrightarrow> core (bf (set_bf i f s) j) = core (bf s j)"
  by (simp add: bf_set_bf)

lemma rest_set [simp]:
  "rest (set_bf i f s) = rest s" "rest (set_hash h p s) = rest s" "rest (s\<lparr>free_head := n\<rparr>) = rest s"
  "rest (poke a w s) = rest s"
  by (simp_all add: rest_def set_bf_def set_hash_def poke_def)

lemma queue_frame [simp]:
  "bf (set_hash h p s) = bf s" "bf (s\<lparr>free_head := n\<rparr>) = bf s" "bf (poke a w s) = bf s"
  "buffers (set_hash h p s) = buffers s" "buffers (poke a w s) = buffers s"
  "free_head (set_hash h p s) = free_head s" "free_head (poke a w s) = free_head s"
  "hash_table (set_hash h p s) = (hash_table s)[h := p]" "hash_table (poke a w s) = hash_table s"
  by (simp_all add: set_hash_def poke_def bf_def fun_eq_iff)

lemma ptr_frame [simp]:
  "nx (set_hash h p s) = nx s" "pv (set_hash h p s) = pv s" "nf (set_hash h p s) = nf s"
  "pf (set_hash h p s) = pf s" "nx (poke a w s) = nx s" "pv (poke a w s) = pv s"
  "nf (poke a w s) = nf s" "pf (poke a w s) = pf s" "nx (s\<lparr>free_head := n\<rparr>) = nx s"
  "pv (s\<lparr>free_head := n\<rparr>) = pv s" "nf (s\<lparr>free_head := n\<rparr>) = nf s" "pf (s\<lparr>free_head := n\<rparr>) = pf s"
  by (simp_all add: nx_def pv_def nf_def pf_def fun_eq_iff)

lemma core_fields:
  assumes "core b = core c"
  shows "b_dev b = b_dev c" "b_blocknr b = b_blocknr c" "b_count b = b_count c" "b_data b = b_data c"
    "b_dirt b = b_dirt c" "b_uptodate b = b_uptodate c" "b_lock b = b_lock c" "b_wait b = b_wait c"
  using assms by (cases b, cases c, simp add: core_def)+

lemma bf_hash_core: "core (bf t i) = core (bf s i) \<Longrightarrow> bf_hash t i = bf_hash s i"
  using core_fields [of "bf t i" "bf s i"] by (simp add: bf_hash_def)

lemma remove_eq:
  "remove_from_queues x s =
     (let s1 = at_opt (nx s x) (\<lambda>b. b\<lparr>b_prev := pv s x\<rparr>) s;
          s2 = at_opt (pv s1 x) (\<lambda>b. b\<lparr>b_next := nx s1 x\<rparr>) s1;
          s3 = (if hash_table s2 ! bf_hash s2 x = Some x then set_hash (bf_hash s2 x) (nx s2 x) s2 else s2) in
      case (pf s3 x, nf s3 x) of
        (Some p, Some n) \<Rightarrow>
          let s4 = set_bf n (\<lambda>b. b\<lparr>b_prev_free := Some p\<rparr>) (set_bf p (\<lambda>b. b\<lparr>b_next_free := Some n\<rparr>) s3) in
          Ok () (if free_head s4 = x then s4\<lparr>free_head := n\<rparr> else s4)
      | _ \<Rightarrow> Panic ''Free block list corrupted'')"
  by (simp only: remove_from_queues_def nx_def pv_def nf_def pf_def Let_def)

lemma remove_spec:
  assumes x: "x < length (buffers s)"
    and free: "pf s x = Some p" "nf s x = Some n" "p < length (buffers s)" "n < length (buffers s)"
      "p \<noteq> x" "n \<noteq> x"
    and hash: "\<And>i. nx s x = Some i \<Longrightarrow> i < length (buffers s) \<and> i \<noteq> x"
      "\<And>i. pv s x = Some i \<Longrightarrow> i < length (buffers s) \<and> i \<noteq> x"
  shows "\<exists>t. remove_from_queues x s = Ok () t \<and>
     nf t = (nf s)(p := Some n) \<and> pf t = (pf s)(n := Some p) \<and>
     nx t = (case pv s x of None \<Rightarrow> nx s | Some q \<Rightarrow> (nx s)(q := nx s x)) \<and>
     pv t = (case nx s x of None \<Rightarrow> pv s | Some q \<Rightarrow> (pv s)(q := pv s x)) \<and>
     free_head t = (if free_head s = x then n else free_head s) \<and>
     hash_table t = (if hash_table s ! bf_hash s x = Some x
       then (hash_table s)[bf_hash s x := nx s x] else hash_table s) \<and>
     (\<forall>i. core (bf t i) = core (bf s i)) \<and> rest t = rest s \<and>
     length (buffers t) = length (buffers s)"
proof -
  define s1 where "s1 = at_opt (nx s x) (\<lambda>b. b\<lparr>b_prev := pv s x\<rparr>) s"
  have s1: "nf s1 = nf s" "pf s1 = pf s" "nx s1 = nx s" "buffers s1 = buffers s1"
    "length (buffers s1) = length (buffers s)" "\<And>i. core (bf s1 i) = core (bf s i)"
    "pv s1 = (case nx s x of None \<Rightarrow> pv s | Some q \<Rightarrow> (pv s)(q := pv s x))"
    "hash_table s1 = hash_table s" "free_head s1 = free_head s" "rest s1 = rest s"
    using hash(1) by (auto simp: s1_def at_opt_def split: option.split)
  have pv1: "pv s1 x = pv s x" using s1(7) hash(1) by (auto split: option.split)
  define s2 where "s2 = at_opt (pv s1 x) (\<lambda>b. b\<lparr>b_next := nx s1 x\<rparr>) s1"
  have s2: "nf s2 = nf s" "pf s2 = pf s" "pv s2 = pv s1" "length (buffers s2) = length (buffers s)"
    "\<And>i. core (bf s2 i) = core (bf s i)" "hash_table s2 = hash_table s" "free_head s2 = free_head s"
    "nx s2 = (case pv s x of None \<Rightarrow> nx s | Some q \<Rightarrow> (nx s)(q := nx s x))" "rest s2 = rest s"
    using hash(2) s1 pv1 by (auto simp: s2_def at_opt_def split: option.split)
  have nx2: "nx s2 x = nx s x" using s2(8) hash(2) by (auto split: option.split)
  have h2: "bf_hash s2 x = bf_hash s x" using s2(5) by (rule bf_hash_core)
  define s3 where "s3 = (if hash_table s2 ! bf_hash s2 x = Some x then set_hash (bf_hash s2 x) (nx s2 x) s2 else s2)"
  have s3: "nf s3 = nf s" "pf s3 = pf s" "pv s3 = pv s1" "nx s3 = nx s2"
    "length (buffers s3) = length (buffers s)" "\<And>i. core (bf s3 i) = core (bf s i)"
    "free_head s3 = free_head s" "rest s3 = rest s"
    "hash_table s3 = (if hash_table s ! bf_hash s x = Some x
       then (hash_table s)[bf_hash s x := nx s x] else hash_table s)"
    using s2 nx2 h2 by (auto simp: s3_def)
  define s4 where "s4 = set_bf n (\<lambda>b. b\<lparr>b_prev_free := Some p\<rparr>) (set_bf p (\<lambda>b. b\<lparr>b_next_free := Some n\<rparr>) s3)"
  have "remove_from_queues x s = Ok () (if free_head s4 = x then s4\<lparr>free_head := n\<rparr> else s4)"
    unfolding remove_eq Let_def s1_def [symmetric] s2_def [symmetric] s3_def [symmetric]
    using free(1,2) s3(1,2) by (simp add: s4_def)
  moreover have "nf s4 = (nf s)(p := Some n)" "pf s4 = (pf s)(n := Some p)" "nx s4 = nx s2" "pv s4 = pv s1"
    "free_head s4 = free_head s" "hash_table s4 = hash_table s3" "\<And>i. core (bf s4 i) = core (bf s i)"
    "rest s4 = rest s" "length (buffers s4) = length (buffers s)"
    using free s3 by (simp_all add: s4_def)
  ultimately show ?thesis using s3(9) s2(8) s1(7) by auto
qed

lemma insert_eq:
  "insert_into_queues x s =
     (let s1 = set_bf x (\<lambda>b. b\<lparr>b_next_free := Some (free_head s)\<rparr>) s;
          s2 = set_bf x (\<lambda>b. b\<lparr>b_prev_free := pf s1 (free_head s)\<rparr>) s1 in
      case pf s2 (free_head s) of
        None \<Rightarrow> Fault ''free list''
      | Some l \<Rightarrow>
          let s3 = set_bf l (\<lambda>b. b\<lparr>b_next_free := Some x\<rparr>) s2;
              s4 = set_bf (free_head s) (\<lambda>b. b\<lparr>b_prev_free := Some x\<rparr>) s3;
              s5 = set_bf x (\<lambda>b. b\<lparr>b_prev := None, b_next := None\<rparr>) s4 in
          if b_dev (bf s5 x) = 0 then Ok () s5
          else
            let s6 = set_bf x (\<lambda>b. b\<lparr>b_next := hash_table s5 ! bf_hash s5 x\<rparr>) s5;
                s7 = set_hash (bf_hash s5 x) (Some x) s6 in
            Ok () (case nx s7 x of
                     None \<Rightarrow> poke 20 (buf_addr x s7) s7
                   | Some n \<Rightarrow> set_bf n (\<lambda>b. b\<lparr>b_prev := Some x\<rparr>) s7))"
  by (simp only: insert_into_queues_def nx_def pv_def nf_def pf_def Let_def)

lemma set_prev_next [simp]:
  "x < length (buffers s) \<Longrightarrow> nx (set_bf x (\<lambda>b. b\<lparr>b_prev := u, b_next := v\<rparr>) s) = (nx s)(x := v)"
  "x < length (buffers s) \<Longrightarrow> pv (set_bf x (\<lambda>b. b\<lparr>b_prev := u, b_next := v\<rparr>) s) = (pv s)(x := u)"
  "nf (set_bf x (\<lambda>b. b\<lparr>b_prev := u, b_next := v\<rparr>) s) = nf s"
  "pf (set_bf x (\<lambda>b. b\<lparr>b_prev := u, b_next := v\<rparr>) s) = pf s"
  by (auto simp: nx_def pv_def nf_def pf_def bf_set_bf)

lemma insert_spec:
  assumes x: "x < length (buffers s)" and dev: "b_dev (bf s x) \<noteq> 0"
    and free: "free_head s < length (buffers s)" "free_head s \<noteq> x"
      "pf s (free_head s) = Some l" "l < length (buffers s)" "l \<noteq> x"
    and hash: "bf_hash s x < length (hash_table s)"
      "\<forall>i. hash_table s ! bf_hash s x = Some i \<longrightarrow> i < length (buffers s) \<and> i \<noteq> x"
  shows "\<exists>t. insert_into_queues x s = Ok () t \<and>
     nf t = (nf s)(x := Some (free_head s), l := Some x) \<and>
     pf t = (pf s)(x := Some l, free_head s := Some x) \<and>
     nx t = (nx s)(x := hash_table s ! bf_hash s x) \<and>
     pv t = (case hash_table s ! bf_hash s x of
        None \<Rightarrow> (pv s)(x := None) | Some i \<Rightarrow> (pv s)(x := None, i := Some x)) \<and>
     free_head t = free_head s \<and> hash_table t = (hash_table s)[bf_hash s x := Some x] \<and>
     (\<forall>i. core (bf t i) = core (bf s i)) \<and> rest t = rest s \<and>
     length (buffers t) = length (buffers s)"
proof -
  let ?h = "free_head s"
  define s1 where "s1 = set_bf x (\<lambda>b. b\<lparr>b_next_free := Some ?h\<rparr>) s"
  define s2 where "s2 = set_bf x (\<lambda>b. b\<lparr>b_prev_free := pf s1 ?h\<rparr>) s1"
  have s1p: "pf s1 ?h = Some l" using x free by (simp add: s1_def)
  have s2: "nf s2 = (nf s)(x := Some ?h)" "pf s2 = (pf s)(x := Some l)" "nx s2 = nx s" "pv s2 = pv s"
    "hash_table s2 = hash_table s" "length (buffers s2) = length (buffers s)" "rest s2 = rest s"
    "\<And>i. core (bf s2 i) = core (bf s i)" "free_head s2 = ?h"
    using x by (simp_all add: s2_def s1p) (simp_all add: s1_def)
  have p2: "pf s2 ?h = Some l" using s2(2) free by simp
  define s5 where "s5 = set_bf x (\<lambda>b. b\<lparr>b_prev := None, b_next := None\<rparr>)
     (set_bf ?h (\<lambda>b. b\<lparr>b_prev_free := Some x\<rparr>) (set_bf l (\<lambda>b. b\<lparr>b_next_free := Some x\<rparr>) s2))"
  have s5: "nf s5 = (nf s)(x := Some ?h, l := Some x)" "pf s5 = (pf s)(x := Some l, ?h := Some x)"
    "nx s5 = (nx s)(x := None)" "pv s5 = (pv s)(x := None)" "hash_table s5 = hash_table s"
    "length (buffers s5) = length (buffers s)" "rest s5 = rest s" "\<And>i. core (bf s5 i) = core (bf s i)"
    "free_head s5 = ?h"
    using x free s2 by (simp_all add: s5_def)
  have h5: "bf_hash s5 x = bf_hash s x" "b_dev (bf s5 x) \<noteq> 0"
    using bf_hash_core [OF s5(8)] core_fields(1) [OF s5(8)] dev by auto
  define s7 where "s7 = set_hash (bf_hash s5 x) (Some x) (set_bf x (\<lambda>b. b\<lparr>b_next := hash_table s5 ! bf_hash s5 x\<rparr>) s5)"
  have s7: "nf s7 = nf s5" "pf s7 = pf s5" "nx s7 = (nx s)(x := hash_table s ! bf_hash s x)"
    "pv s7 = (pv s)(x := None)" "hash_table s7 = (hash_table s)[bf_hash s x := Some x]"
    "length (buffers s7) = length (buffers s)" "rest s7 = rest s" "\<And>i. core (bf s7 i) = core (bf s i)"
    "free_head s7 = ?h"
    using x s5 h5 by (simp_all add: s7_def)
  define t where "t = (case nx s7 x of None \<Rightarrow> poke 20 (buf_addr x s7) s7
      | Some n \<Rightarrow> set_bf n (\<lambda>b. b\<lparr>b_prev := Some x\<rparr>) s7)"
  have "insert_into_queues x s = Ok () t"
    unfolding insert_eq Let_def s1_def [symmetric] s2_def [symmetric] p2 option.case
    unfolding s5_def [symmetric] s7_def [symmetric] t_def [symmetric] using h5 by simp
  moreover have "nf t = nf s5" "pf t = pf s5" "nx t = nx s7" "free_head t = ?h" "hash_table t = hash_table s7"
    "\<And>i. core (bf t i) = core (bf s i)" "rest t = rest s" "length (buffers t) = length (buffers s)"
    "pv t = (case hash_table s ! bf_hash s x of
        None \<Rightarrow> (pv s)(x := None) | Some i \<Rightarrow> (pv s)(x := None, i := Some x))"
    using s7 hash(2) by (auto simp: t_def split: option.split)
  ultimately show ?thesis using s7 s5 by auto
qed

subsection \<open>The invariant\<close>

text \<open>\<open>F\<close> is the free list from its head, \<open>H h\<close> the hash queue \<open>h\<close>.\<close>

definition wf_cache :: "'a fs_scheme \<Rightarrow> nat list \<Rightarrow> (nat \<Rightarrow> nat list) \<Rightarrow> bool" where
  "wf_cache s F H \<longleftrightarrow>
     ring (nf s) (pf s) F \<and> hd F = free_head s \<and> set F = {..<length (buffers s)} \<and>
     length (hash_table s) = NR_HASH \<and>
     (\<forall>h < NR_HASH. chain (nx s) (pv s) (hash_table s ! h) (H h) \<and>
        set (H h) = {i. i < length (buffers s) \<and> b_dev (bf s i) \<noteq> 0 \<and> bf_hash s i = h}) \<and>
     (\<forall>i < length (buffers s). b_dev (bf s i) = 0 \<longrightarrow> nx s i = None \<and> pv s i = None) \<and>
     (\<forall>i < length (buffers s). \<forall>j < length (buffers s). b_dev (bf s i) \<noteq> 0 \<longrightarrow>
        b_dev (bf s i) = b_dev (bf s j) \<longrightarrow> b_blocknr (bf s i) = b_blocknr (bf s j) \<longrightarrow> i = j)"

definition cache_ok :: "'a fs_scheme \<Rightarrow> bool" where
  "cache_ok s \<longleftrightarrow> (\<exists>F H. wf_cache s F H)"

lemma wf_cacheD:
  assumes "wf_cache s F H"
  shows "ring (nf s) (pf s) F" "hd F = free_head s" "set F = {..<length (buffers s)}"
    "length (hash_table s) = NR_HASH"
    "\<And>h. h < NR_HASH \<Longrightarrow> chain (nx s) (pv s) (hash_table s ! h) (H h)"
    "\<And>h. h < NR_HASH \<Longrightarrow> set (H h) = {i. i < length (buffers s) \<and> b_dev (bf s i) \<noteq> 0 \<and> bf_hash s i = h}"
    "\<And>i. i < length (buffers s) \<Longrightarrow> b_dev (bf s i) = 0 \<Longrightarrow> nx s i = None \<and> pv s i = None"
    "\<And>i j. i < length (buffers s) \<Longrightarrow> j < length (buffers s) \<Longrightarrow> b_dev (bf s i) \<noteq> 0 \<Longrightarrow>
        b_dev (bf s i) = b_dev (bf s j) \<Longrightarrow> b_blocknr (bf s i) = b_blocknr (bf s j) \<Longrightarrow> i = j"
  using assms unfolding wf_cache_def by blast+

lemma bf_hash_less: "bf_hash s i < NR_HASH" "hashfn d b < NR_HASH"
  by (simp_all add: bf_hash_def hashfn_def NR_HASH_def)

text \<open>The same with one buffer taken off all queues.\<close>

definition wf_without :: "nat \<Rightarrow> 'a fs_scheme \<Rightarrow> nat list \<Rightarrow> (nat \<Rightarrow> nat list) \<Rightarrow> bool" where
  "wf_without x s F H \<longleftrightarrow>
     ring (nf s) (pf s) F \<and> hd F = free_head s \<and> set F = {..<length (buffers s)} - {x} \<and>
     length (hash_table s) = NR_HASH \<and>
     (\<forall>h < NR_HASH. chain (nx s) (pv s) (hash_table s ! h) (H h) \<and>
        set (H h) = {i. i < length (buffers s) \<and> i \<noteq> x \<and> b_dev (bf s i) \<noteq> 0 \<and> bf_hash s i = h}) \<and>
     (\<forall>i < length (buffers s). i \<noteq> x \<longrightarrow> b_dev (bf s i) = 0 \<longrightarrow> nx s i = None \<and> pv s i = None)"

lemma remove_wf:
  assumes wf: "wf_cache s F H" and x: "x < length (buffers s)" and n: "2 \<le> length (buffers s)"
  shows "\<exists>t. remove_from_queues x s = Ok () t \<and>
     wf_without x t (List.filter (\<lambda>i. i \<noteq> x) F) (\<lambda>h. List.filter (\<lambda>i. i \<noteq> x) (H h)) \<and>
     (\<forall>i. core (bf t i) = core (bf s i)) \<and> rest t = rest s \<and> length (buffers t) = length (buffers s)"
proof -
  note W = wf_cacheD [OF wf]
  let ?h = "bf_hash s x"
  obtain A B where F: "F = A @ x # B" using x W(3) by (metis lessThan_iff split_list)
  have dF: "distinct F" using W(1) by (simp add: ring_def)
  have "card (set F) = length F" using dF by (rule distinct_card)
  then have lF: "length F = length (buffers s)" using W(3) by simp
  then obtain y zs where yz: "B @ A = y # zs" using n F by (cases "B @ A") auto
  have rx: "ring (nf s) (pf s) (x # y # zs)"
  proof (cases "A = []")
    case True
    then show ?thesis using W(1) F yz by simp
  next
    case False
    then show ?thesis using ring_rotate [of "nf s" "pf s" A "x # B"] W(1) F yz by simp
  qed
  note nb = ring_next [OF rx]
  have yx: "set (y # zs) = {..<length (buffers s)} - {x}" "x \<notin> set (y # zs)"
    using W(3) dF F yz [symmetric] by auto
  have ly: "last (y # zs) \<in> set (y # zs)" by (rule last_in_set) simp
  have hq: "i < length (buffers s) \<and> i \<noteq> x \<and> b_dev (bf s i) \<noteq> 0 \<and> bf_hash s i = ?h"
    if "nx s x = Some i \<or> pv s x = Some i" for i
  proof -
    have "b_dev (bf s x) \<noteq> 0" using W(7) [OF x] that by auto
    then have "x \<in> set (H ?h)" using W(6) [OF bf_hash_less(1) [of s x]] x by simp
    from chain_in [OF W(5) [OF bf_hash_less(1)] this] that have "i \<in> set (H ?h) \<and> i \<noteq> x" by blast
    then show ?thesis using W(6) [OF bf_hash_less(1) [of s x]] by simp
  qed
  have "last (y # zs) < length (buffers s)" "y < length (buffers s)" "last (y # zs) \<noteq> x" "y \<noteq> x"
    using yx ly by auto
  from remove_spec [OF x nb(2,1) this] hq obtain t where
    t: "remove_from_queues x s = Ok () t" "nf t = (nf s)(last (y # zs) := Some y)"
      "pf t = (pf s)(y := Some (last (y # zs)))"
      "nx t = (case pv s x of None \<Rightarrow> nx s | Some q \<Rightarrow> (nx s)(q := nx s x))"
      "pv t = (case nx s x of None \<Rightarrow> pv s | Some q \<Rightarrow> (pv s)(q := pv s x))"
      "free_head t = (if free_head s = x then y else free_head s)"
      "hash_table t = (if hash_table s ! ?h = Some x then (hash_table s)[?h := nx s x] else hash_table s)"
      "\<forall>i. core (bf t i) = core (bf s i)" "rest t = rest s" "length (buffers t) = length (buffers s)"
    by blast
  have F': "List.filter (\<lambda>i. i \<noteq> x) F = A @ B" using F dF by (simp add: filter_neq)
  have "ring (nf t) (pf t) (y # zs)" using ring_remove [OF rx] t(2,3) by simp
  then have rt: "ring (nf t) (pf t) (A @ B)" using ring_rotate [of "nf t" "pf t" B A] yz
    by (cases "A = []"; cases "B = []") auto
  have hd: "hd (A @ B) = free_head t"
    using t(6) W(2) F yz yx dF by (cases A) auto
  have cd: "b_dev (bf t i) = b_dev (bf s i)" "bf_hash t i = bf_hash s i" for i
    using t(8) core_fields(1) [of "bf t i" "bf s i"] bf_hash_core [of t i s] by auto
  have ch: "chain (nx t) (pv t) (hash_table t ! h) (List.filter (\<lambda>i. i \<noteq> x) (H h))" if h: "h < NR_HASH" for h
  proof (cases "x \<in> set (H h)")
    case True
    then have hh: "h = ?h" using W(6) [OF h] by simp
    obtain P Q where PQ: "H h = P @ x # Q" using True by (meson split_list)
    have "distinct (P @ x # Q)" using W(5) [OF h] PQ by (simp add: chain_def)
    then have "List.filter (\<lambda>i. i \<noteq> x) (H h) = P @ Q" using PQ by (simp add: filter_neq)
    moreover have "hash_table t ! h = (if hash_table s ! h = Some x then nx s x else hash_table s ! h)"
      using t(7) hh W(4) h by simp
    ultimately show ?thesis
      using chain_remove [of "nx s" "pv s" "hash_table s ! h" P x Q] W(5) [OF h] PQ t(4,5) by simp
  next
    case False
    have f: "List.filter (\<lambda>i. i \<noteq> x) (H h) = H h" using False by (rule filter_neq)
    have nb: "i \<notin> set (H h)" if "nx s x = Some i \<or> pv s x = Some i" for i
    proof
      assume "i \<in> set (H h)"
      then have "h = ?h" using hq [OF that] W(6) [OF h] by simp
      moreover have "b_dev (bf s x) \<noteq> 0" using W(7) [OF x] that by auto
      ultimately have "x \<in> set (H h)" using W(6) [OF h] x by simp
      then show False using False by contradiction
    qed
    have "hash_table s ! ?h \<noteq> Some x" if "h = ?h"
      using W(5) [OF h] False that by (auto simp: chain_def split: if_splits dest: hd_in_set)
    then have "hash_table t ! h = hash_table s ! h" using t(7) by (cases "h = ?h") auto
    moreover have "chain (nx t) (pv t) (hash_table s ! h) (H h)"
    proof (rule chain_cong [OF W(5) [OF h]])
      fix i assume "i \<in> set (H h)"
      then show "nx t i = nx s i" "pv t i = pv s i"
        using nb by (auto simp: t(4,5) split: option.split)
    qed
    ultimately show ?thesis using f by simp
  qed
  have none: "nx t i = None \<and> pv t i = None" if "i < length (buffers s)" "b_dev (bf s i) = 0" for i
  proof -
    have "nx t i = nx s i" "pv t i = pv s i"
      using hq [of i] that(2) by (auto simp: t(4,5) split: option.split)
    then show ?thesis using W(7) [OF that] by simp
  qed
  have "wf_without x t (List.filter (\<lambda>i. i \<noteq> x) F) (\<lambda>h. List.filter (\<lambda>i. i \<noteq> x) (H h))"
    unfolding wf_without_def
  proof (intro conjI allI impI)
    show "ring (nf t) (pf t) (List.filter (\<lambda>i. i \<noteq> x) F)" "hd (List.filter (\<lambda>i. i \<noteq> x) F) = free_head t"
      using rt hd F' by simp_all
    show "set (List.filter (\<lambda>i. i \<noteq> x) F) = {..<length (buffers t)} - {x}" using W(3) t(10) by auto
    show "length (hash_table t) = NR_HASH" using t(7) W(4) by simp
    show "chain (nx t) (pv t) (hash_table t ! h) (List.filter (\<lambda>i. i \<noteq> x) (H h))" if "h < NR_HASH" for h
      using ch that .
    show "set (List.filter (\<lambda>i. i \<noteq> x) (H h)) =
      {i. i < length (buffers t) \<and> i \<noteq> x \<and> b_dev (bf t i) \<noteq> 0 \<and> bf_hash t i = h}" if "h < NR_HASH" for h
      using W(6) [OF that] t(10) cd by auto
    show "nx t i = None" "pv t i = None"
      if "i < length (buffers t)" "b_dev (bf t i) = 0" for i
      using none [of i] that t(10) cd by simp_all
  qed
  with t(1,8,9,10) show ?thesis by blast
qed

definition distinct_blocks :: "'a fs_scheme \<Rightarrow> bool" where
  "distinct_blocks s \<longleftrightarrow>
     (\<forall>i < length (buffers s). \<forall>j < length (buffers s). b_dev (bf s i) \<noteq> 0 \<longrightarrow>
        b_dev (bf s i) = b_dev (bf s j) \<longrightarrow> b_blocknr (bf s i) = b_blocknr (bf s j) \<longrightarrow> i = j)"

lemma insert_wf:
  assumes wf: "wf_without x s F H" and x: "x < length (buffers s)" and dev: "b_dev (bf s x) \<noteq> 0"
    and dist: "distinct_blocks s"
  shows "\<exists>t. insert_into_queues x s = Ok () t \<and>
     wf_cache t (F @ [x]) (\<lambda>h. if h = bf_hash s x then x # H h else H h) \<and>
     (\<forall>i. core (bf t i) = core (bf s i)) \<and> rest t = rest s \<and> length (buffers t) = length (buffers s)"
proof -
  let ?h = "bf_hash s x"
  have W: "ring (nf s) (pf s) F" "hd F = free_head s" "set F = {..<length (buffers s)} - {x}"
    "length (hash_table s) = NR_HASH"
    "\<And>h. h < NR_HASH \<Longrightarrow> chain (nx s) (pv s) (hash_table s ! h) (H h)"
    "\<And>h. h < NR_HASH \<Longrightarrow> set (H h) = {i. i < length (buffers s) \<and> i \<noteq> x \<and> b_dev (bf s i) \<noteq> 0 \<and> bf_hash s i = h}"
    "\<And>i. i < length (buffers s) \<Longrightarrow> i \<noteq> x \<Longrightarrow> b_dev (bf s i) = 0 \<Longrightarrow> nx s i = None \<and> pv s i = None"
    using wf unfolding wf_without_def by blast+
  obtain y zs where F: "F = y # zs" using W(1) by (cases F) (auto simp: ring_def)
  have y: "free_head s = y" using W(2) F by simp
  have "links (nf s) (pf s) (F @ [y])" using W(1) F by (simp add: ring_def)
  then have pl: "pf s y = Some (last F)" using links_snoc [of F] F by simp
  have lF: "last F \<in> set F" "y \<in> set F" "x \<notin> set F" by (use F in simp, use F in simp, use W(3) in blast)
  have lx: "last F < length (buffers s)" "last F \<noteq> x" "y < length (buffers s)" "y \<noteq> x"
    using lF(1,2) unfolding W(3) by simp_all
  have hh: "?h < NR_HASH" by (rule bf_hash_less)
  have head: "i < length (buffers s) \<and> i \<noteq> x \<and> i \<in> set (H ?h)" if "hash_table s ! ?h = Some i" for i
  proof -
    have "i \<in> set (H ?h)" using W(5) [OF hh] that by (auto simp: chain_def split: if_splits intro: hd_in_set)
    then show ?thesis using W(6) [OF hh] by simp
  qed
  have hl: "?h < length (hash_table s)" using W(4) hh by simp
  have hd: "\<forall>i. hash_table s ! ?h = Some i \<longrightarrow> i < length (buffers s) \<and> i \<noteq> x"
    using head by blast
  from insert_spec [OF x dev, of "last F", unfolded y, OF lx(3,4) pl lx(1,2) hl hd] obtain t where
    t: "insert_into_queues x s = Ok () t" "nf t = (nf s)(x := Some y, last F := Some x)"
      "pf t = (pf s)(x := Some (last F), y := Some x)" "nx t = (nx s)(x := hash_table s ! ?h)"
      "pv t = (case hash_table s ! ?h of None \<Rightarrow> (pv s)(x := None) | Some i \<Rightarrow> (pv s)(x := None, i := Some x))"
      "free_head t = y" "hash_table t = (hash_table s)[?h := Some x]"
      "\<forall>i. core (bf t i) = core (bf s i)" "rest t = rest s" "length (buffers t) = length (buffers s)"
    by (elim exE conjE) (rule that)
  have cd: "b_dev (bf t i) = b_dev (bf s i)" "bf_hash t i = bf_hash s i"
    "b_blocknr (bf t i) = b_blocknr (bf s i)" for i
    using t(8) core_fields [of "bf t i" "bf s i"] bf_hash_core [of t i s] by auto
  have ch: "chain (nx t) (pv t) (hash_table t ! h) (if h = ?h then x # H h else H h)" if h: "h < NR_HASH" for h
  proof (cases "h = ?h")
    case True
    have "x \<notin> set (H ?h)" using W(6) [OF hh] by simp
    with chain_insert [OF W(5) [OF hh]] show ?thesis using True t(4,5,7) W(4) hh by simp
  next
    case False
    have "chain (nx t) (pv t) (hash_table s ! h) (H h)"
    proof (rule chain_cong [OF W(5) [OF h]])
      fix i assume i: "i \<in> set (H h)"
      then have "i \<noteq> x" "i \<notin> set (H ?h)" using W(6) [OF h] W(6) [OF hh] False by auto
      then show "nx t i = nx s i" "pv t i = pv s i" using head by (auto simp: t(4,5) split: option.split)
    qed
    then show ?thesis using False t(7) by simp
  qed
  have "wf_cache t (F @ [x]) (\<lambda>h. if h = ?h then x # H h else H h)"
    unfolding wf_cache_def
  proof (intro conjI allI impI)
    show "ring (nf t) (pf t) (F @ [x])"
      using ring_insert [of "nf s" "pf s" y zs x] W(1) F lF(3) t(2,3) by simp
    show "hd (F @ [x]) = free_head t" using F t(6) by simp
    show "set (F @ [x]) = {..<length (buffers t)}" using W(3) x t(10) by auto
    show "length (hash_table t) = NR_HASH" using t(7) W(4) by simp
    show "chain (nx t) (pv t) (hash_table t ! h) (if h = ?h then x # H h else H h)" if "h < NR_HASH" for h
      using ch that .
    show "set (if h = ?h then x # H h else H h) =
      {i. i < length (buffers t) \<and> b_dev (bf t i) \<noteq> 0 \<and> bf_hash t i = h}" if "h < NR_HASH" for h
      using W(6) [OF that] x dev t(10) by (auto simp: cd)
    show "nx t i = None" "pv t i = None" if i: "i < length (buffers t)" "b_dev (bf t i) = 0" for i
    proof -
      have ix: "i \<noteq> x" "i \<notin> set (H ?h)" using i dev W(6) [OF hh] by (auto simp: cd)
      then have "nx t i = nx s i" "pv t i = pv s i" using head by (auto simp: t(4,5) split: option.split)
      then show "nx t i = None" "pv t i = None" using W(7) [of i] i ix t(10) by (simp_all add: cd)
    qed
    show "i = j" if "i < length (buffers t)" "j < length (buffers t)" "b_dev (bf t i) \<noteq> 0"
      "b_dev (bf t i) = b_dev (bf t j)" "b_blocknr (bf t i) = b_blocknr (bf t j)" for i j
      using dist that t(10) by (simp add: distinct_blocks_def cd)
  qed
  with t(1,8,9,10) show ?thesis by blast
qed

lemma wf_without_core:
  assumes "wf_without x s F H" and "x < length (buffers s)"
    and "\<And>b. b_prev (f b) = b_prev b \<and> b_next (f b) = b_next b \<and> b_prev_free (f b) = b_prev_free b \<and>
      b_next_free (f b) = b_next_free b"
  shows "wf_without x (set_bf x f s) F H"
proof -
  have p: "nx (set_bf x f s) = nx s" "pv (set_bf x f s) = pv s" "nf (set_bf x f s) = nf s" "pf (set_bf x f s) = pf s"
    using assms(3) by (auto simp: nx_def pv_def nf_def pf_def bf_set_bf)
  have h: "bf_hash (set_bf x f s) i = bf_hash s i" if "i \<noteq> x" for i
    using that by (simp add: bf_hash_def)
  have b: "(i < length (buffers s) \<and> i \<noteq> x \<and> b_dev (bf (set_bf x f s) i) \<noteq> 0 \<and> bf_hash (set_bf x f s) i = k) =
     (i < length (buffers s) \<and> i \<noteq> x \<and> b_dev (bf s i) \<noteq> 0 \<and> bf_hash s i = k)" for i k
    using h [of i] by auto
  show ?thesis using assms(1) unfolding wf_without_def by (simp add: p b)
qed

text \<open>Giving a buffer to another block: the two pieces of pointer surgery of \<open>getblk\<close>.\<close>

lemma recycle:
  assumes wf: "wf_cache s F H" and x: "x < length (buffers s)" and n: "2 \<le> length (buffers s)"
    and dev: "dev \<noteq> 0"
    and new: "\<And>i. i < length (buffers s) \<Longrightarrow> b_dev (bf s i) = dev \<Longrightarrow> b_blocknr (bf s i) \<noteq> blk"
  shows "\<exists>u t H'. remove_from_queues x s = Ok () u \<and>
     insert_into_queues x (set_bf x (\<lambda>b. b\<lparr>b_dev := dev, b_blocknr := blk\<rparr>) u) = Ok () t \<and>
     wf_cache t (List.filter (\<lambda>i. i \<noteq> x) F @ [x]) H' \<and> rest t = rest s \<and>
     length (buffers t) = length (buffers s) \<and>
     (\<forall>i. core (bf t i) = (if i = x then (core (bf s x))\<lparr>b_dev := dev, b_blocknr := blk\<rparr> else core (bf s i)))"
proof -
  from remove_wf [OF wf x n] obtain u where
    u: "remove_from_queues x s = Ok () u"
      "wf_without x u (List.filter (\<lambda>i. i \<noteq> x) F) (\<lambda>h. List.filter (\<lambda>i. i \<noteq> x) (H h))"
      "\<And>i. core (bf u i) = core (bf s i)" "rest u = rest s" "length (buffers u) = length (buffers s)"
    by blast
  let ?v = "set_bf x (\<lambda>b. b\<lparr>b_dev := dev, b_blocknr := blk\<rparr>) u"
  have xu: "x < length (buffers u)" using x u(5) by simp
  have v: "wf_without x ?v (List.filter (\<lambda>i. i \<noteq> x) F) (\<lambda>h. List.filter (\<lambda>i. i \<noteq> x) (H h))"
    using u(2) xu by (rule wf_without_core) simp
  note cf = core_fields(1,2) [OF u(3)]
  have "distinct_blocks ?v"
    unfolding distinct_blocks_def
  proof (intro allI impI)
    fix i j assume ij: "i < length (buffers ?v)" "j < length (buffers ?v)" "b_dev (bf ?v i) \<noteq> 0"
      "b_dev (bf ?v i) = b_dev (bf ?v j)" "b_blocknr (bf ?v i) = b_blocknr (bf ?v j)"
    then show "i = j"
      using wf_cacheD(8) [OF wf, of i j] new [of i] new [of j] u(5) xu cf
      by (auto simp: bf_set_bf split: if_splits)
  qed
  from insert_wf [OF v _ _ this] xu dev obtain t where
    t: "insert_into_queues x ?v = Ok () t"
      "wf_cache t (List.filter (\<lambda>i. i \<noteq> x) F @ [x])
         (\<lambda>h. if h = bf_hash ?v x then x # List.filter (\<lambda>i. i \<noteq> x) (H h) else List.filter (\<lambda>i. i \<noteq> x) (H h))"
      "\<And>i. core (bf t i) = core (bf ?v i)" "rest t = rest ?v" "length (buffers t) = length (buffers ?v)"
    by auto
  have "core (bf t i) = (if i = x then (core (bf s x))\<lparr>b_dev := dev, b_blocknr := blk\<rparr> else core (bf s i))" for i
    using t(3) [of i] u(3) [of i] u(3) [of x] xu by (simp add: bf_set_bf core_upd)
  with u(1,4,5) t show ?thesis by auto
qed

subsection \<open>Searching\<close>

definition holds :: "'a fs_scheme \<Rightarrow> u16 \<Rightarrow> u32 \<Rightarrow> nat \<Rightarrow> bool" where
  "holds s dev blk i \<longleftrightarrow> b_dev (bf s i) = dev \<and> b_blocknr (bf s i) = blk"

lemma find_from_links:
  assumes "links (nx s) g xs" and "xs \<noteq> [] \<longrightarrow> nx s (last xs) = None" and "length xs < fuel"
  shows "find_from fuel (if xs = [] then None else Some (hd xs)) dev blk s =
     Ok (List.find (holds s dev blk) xs) s"
  using assms
proof (induction xs arbitrary: fuel)
  case Nil
  then show ?case by (cases fuel) auto
next
  case (Cons x xs)
  then obtain m where m: "fuel = Suc m" by (cases fuel) auto
  have l: "links (nx s) g xs" using Cons.prems(1) by (cases xs) auto
  have n: "b_next (bf s x) = (if xs = [] then None else Some (hd xs))"
    using Cons.prems(1,2) by (cases xs) (auto simp: nx_def)
  have e: "xs \<noteq> [] \<longrightarrow> nx s (last xs) = None" using Cons.prems(2) by auto
  have "find_from m (b_next (bf s x)) dev blk s = Ok (List.find (holds s dev blk) xs) s"
    unfolding n using Cons.IH [OF l e] Cons.prems(3) m by simp
  then show ?case using m by (simp add: holds_def [of s dev blk x])
qed

lemma find_buffer_spec:
  assumes wf: "wf_cache s F H" and dev: "dev \<noteq> 0"
  shows "\<exists>r. find_buffer dev blk s = Ok r s \<and>
     (case r of None \<Rightarrow> \<forall>i < length (buffers s). \<not> holds s dev blk i
      | Some i \<Rightarrow> i < length (buffers s) \<and> holds s dev blk i)"
proof -
  note W = wf_cacheD [OF wf]
  let ?h = "hashfn dev blk"
  have h: "?h < NR_HASH" by (rule bf_hash_less)
  have c: "chain (nx s) (pv s) (hash_table s ! ?h) (H ?h)" using W(5) [OF h] .
  have "card (set (H ?h)) \<le> card {..<length (buffers s)}"
    using W(6) [OF h] by (intro card_mono) auto
  then have len: "length (H ?h) < Suc (length (buffers s))"
    using c distinct_card [of "H ?h"] by (simp add: chain_def)
  have hd: "hash_table s ! ?h = (if H ?h = [] then None else Some (hd (H ?h)))"
    using c by (auto simp: chain_def)
  have f: "find_buffer dev blk s = Ok (List.find (holds s dev blk) (H ?h)) s"
    unfolding find_buffer_def hd
    by (rule find_from_links [OF _ _ len]) (use c in \<open>auto simp: chain_def\<close>)
  have "i \<in> set (H ?h)" if "i < length (buffers s)" "holds s dev blk i" for i
    using that W(6) [OF h] dev by (simp add: holds_def bf_hash_def)
  moreover have "i < length (buffers s)" if "i \<in> set (H ?h)" for i using that W(6) [OF h] by simp
  ultimately show ?thesis
    using f by (cases "List.find (holds s dev blk) (H ?h)")
      (auto simp: find_None_iff find_Some_iff intro: nth_mem)
qed

lemma BADNESS_zero: "BADNESS b = 0 \<longleftrightarrow> \<not> b_dirt b \<and> \<not> b_lock b"
  by (simp add: BADNESS_def)

lemma scan_free_spec:
  assumes "ring (nf s) (pf s) (pre @ tmp # suf)" and "hd (pre @ tmp # suf) = free_head s"
    and "length suf < fuel" and "\<forall>b. bh = Some b \<longrightarrow> BADNESS (bf s b) \<noteq> 0"
    and "\<exists>i \<in> set (tmp # suf). b_count (bf s i) = 0 \<and> BADNESS (bf s i) = 0"
  shows "\<exists>i. scan_free fuel tmp bh s = Ok (Some i) s \<and> i \<in> set (tmp # suf) \<and>
     b_count (bf s i) = 0 \<and> BADNESS (bf s i) = 0"
  using assms
proof (induction suf arbitrary: pre tmp fuel bh)
  case Nil
  then obtain m where "fuel = Suc m" by (cases fuel) auto
  then show ?case using Nil.prems(4,5) by (cases bh) (auto simp: Let_def)
next
  case (Cons n suf)
  obtain m where m: "fuel = Suc m" using Cons.prems(3) by (cases fuel) auto
  show ?case
  proof (cases "b_count (bf s tmp) = 0 \<and> BADNESS (bf s tmp) = 0")
    case True
    then show ?thesis using m Cons.prems(4) by (cases bh) (auto simp: Let_def)
  next
    case False
    have d: "distinct (pre @ tmp # n # suf)" using Cons.prems(1) by (simp add: ring_def)
    have "links (nf s) (pf s) (pre @ tmp # (n # suf @ [hd (pre @ tmp # n # suf)]))"
      using Cons.prems(1) by (simp add: ring_def)
    then have "links (nf s) (pf s) (tmp # n # suf @ [hd (pre @ tmp # n # suf)])"
      using links_append by blast
    then have nx: "b_next_free (bf s tmp) = Some n" by (simp add: nf_def)
    have "n \<noteq> free_head s" using Cons.prems(2) d by (cases pre) auto
    moreover define bh' where "bh' = (if b_count (bf s tmp) = 0 \<and>
        (case bh of None \<Rightarrow> True | Some b \<Rightarrow> BADNESS (bf s tmp) < BADNESS (bf s b)) then Some tmp else bh)"
    moreover have "\<forall>b. bh' = Some b \<longrightarrow> BADNESS (bf s b) \<noteq> 0"
      using Cons.prems(4) False by (auto simp: bh'_def)
    moreover have "\<exists>i \<in> set (n # suf). b_count (bf s i) = 0 \<and> BADNESS (bf s i) = 0"
      using Cons.prems(5) False by auto
    ultimately show ?thesis
      using Cons.IH [of "pre @ [tmp]" n m bh'] Cons.prems(1,2,3) m nx False
      by (auto simp: Let_def hd_append split: if_splits)
  qed
qed

lemma wf_cache_core:
  assumes "wf_cache s F H"
    and "\<And>b. b_prev (f b) = b_prev b \<and> b_next (f b) = b_next b \<and> b_prev_free (f b) = b_prev_free b \<and>
      b_next_free (f b) = b_next_free b \<and> b_dev (f b) = b_dev b \<and> b_blocknr (f b) = b_blocknr b"
  shows "wf_cache (set_bf x f s) F H"
proof -
  have p: "nx (set_bf x f s) = nx s" "pv (set_bf x f s) = pv s" "nf (set_bf x f s) = nf s" "pf (set_bf x f s) = pf s"
    using assms(2) by (auto simp: nx_def pv_def nf_def pf_def bf_set_bf)
  have d: "b_dev (bf (set_bf x f s) i) = b_dev (bf s i)" "b_blocknr (bf (set_bf x f s) i) = b_blocknr (bf s i)"
    "bf_hash (set_bf x f s) i = bf_hash s i" for i
    using assms(2) by (auto simp: bf_set_bf bf_hash_def)
  show ?thesis using assms(1) unfolding wf_cache_def by (simp add: p d)
qed

subsection \<open>\<open>getblk\<close>\<close>

lemma getblk_miss:
  assumes wf: "wf_cache s F H" and q: "quiet s" and n: "2 \<le> length (buffers s)" and dev: "dev \<noteq> 0"
    and clean: "\<exists>i < length (buffers s). b_count (bf s i) = 0 \<and> \<not> b_dirt (bf s i)"
    and new: "\<forall>i < length (buffers s). \<not> holds s dev blk i"
  shows "\<exists>bh t. getblk dev blk s = Ok bh t \<and> cache_ok t \<and> bh < length (buffers s) \<and>
     b_count (bf s bh) = 0 \<and> \<not> b_dirt (bf s bh) \<and> length (buffers t) = length (buffers s) \<and>
     rest t = rest s \<and>
     (\<forall>i. core (bf t i) = (if i = bh then (core (bf s bh))\<lparr>b_count := 1, b_dirt := False,
        b_uptodate := False, b_dev := dev, b_blocknr := blk\<rparr> else core (bf s i)))"
proof -
  note W = wf_cacheD [OF wf]
  obtain y zs where F: "F = y # zs" using W(1) by (cases F) (auto simp: ring_def)
  have lF: "length F = length (buffers s)"
    using W(1,3) distinct_card [of F] by (simp add: ring_def)
  have "\<exists>i \<in> set F. b_count (bf s i) = 0 \<and> BADNESS (bf s i) = 0"
    using clean W(3) quiet_bf [OF q] by (auto simp: BADNESS_zero)
  then obtain bh where bh: "scan_free (length (buffers s)) (free_head s) None s = Ok (Some bh) s"
    "bh \<in> set F" "b_count (bf s bh) = 0" "\<not> b_dirt (bf s bh)"
    using scan_free_spec [of s "[]" y zs "length (buffers s)" None] W(1,2) F lF
    by (auto simp: BADNESS_zero)
  have b: "bh < length (buffers s)" using bh(2) W(3) by simp
  let ?s = "set_bf bh (\<lambda>b. b\<lparr>b_count := 1, b_dirt := False, b_uptodate := False\<rparr>) s"
  have wf': "wf_cache ?s F H" using wf by (rule wf_cache_core) simp
  have "\<exists>u t H'. remove_from_queues bh ?s = Ok () u \<and>
     insert_into_queues bh (set_bf bh (\<lambda>b. b\<lparr>b_dev := dev, b_blocknr := blk\<rparr>) u) = Ok () t \<and>
     wf_cache t (List.filter (\<lambda>i. i \<noteq> bh) F @ [bh]) H' \<and> rest t = rest ?s \<and>
     length (buffers t) = length (buffers ?s) \<and>
     (\<forall>i. core (bf t i) = (if i = bh then (core (bf ?s bh))\<lparr>b_dev := dev, b_blocknr := blk\<rparr> else core (bf ?s i)))"
    using new b n dev by (intro recycle [OF wf']) (auto simp: holds_def bf_set_bf split: if_splits)
  then obtain u t H' where t: "remove_from_queues bh ?s = Ok () u"
     "insert_into_queues bh (set_bf bh (\<lambda>b. b\<lparr>b_dev := dev, b_blocknr := blk\<rparr>) u) = Ok () t"
     "wf_cache t (List.filter (\<lambda>i. i \<noteq> bh) F @ [bh]) H'" "rest t = rest ?s"
     "length (buffers t) = length (buffers ?s)"
     "\<forall>i. core (bf t i) = (if i = bh then (core (bf ?s bh))\<lparr>b_dev := dev, b_blocknr := blk\<rparr> else core (bf ?s i))"
    by (elim exE conjE) (rule that)
  from find_buffer_spec [OF wf dev, of blk] new obtain r where "find_buffer dev blk s = Ok r s" "r = None"
    by (auto split: option.splits)
  then have fb: "find_buffer dev blk s = Ok None s" by simp
  obtain k where fuel: "BUF_FUEL = Suc (Suc k)"
    by (rule that [of 998]) (simp add: BUF_FUEL_def)
  have "getblk dev blk s = Ok bh t"
    unfolding getblk_def fuel getblk_n.simps(2) [of "Suc k"]
    using bh b fb t(1,2) quiet_bf [OF q b]
    by (simp add: get_hash_table_def wait_on_buffer_def)
  moreover have "core (bf t i) = (if i = bh then (core (bf s bh))\<lparr>b_count := 1, b_dirt := False,
        b_uptodate := False, b_dev := dev, b_blocknr := blk\<rparr> else core (bf s i))" for i
    using t(6) b by (simp add: core_upd)
  ultimately show ?thesis using b bh(3,4) t(3,4,5) unfolding cache_ok_def by auto
qed

lemma getblk_hit:
  assumes wf: "wf_cache s F H" and q: "quiet s" and dev: "dev \<noteq> 0"
    and hit: "bh < length (buffers s)" "holds s dev blk bh"
  shows "getblk dev blk s = Ok bh (set_bf bh (\<lambda>b. b\<lparr>b_count := b_count b + 1\<rparr>) s)"
proof -
  from find_buffer_spec [OF wf dev, of blk] hit obtain i where i: "find_buffer dev blk s = Ok (Some i) s"
    "i < length (buffers s)" "holds s dev blk i" by (auto split: option.splits)
  have "i = bh" using wf_cacheD(8) [OF wf i(2) hit(1)] i(3) hit(2) dev by (simp add: holds_def)
  then have f: "find_buffer dev blk s = Ok (Some bh) s" using i(1) by simp
  obtain k where fuel: "BUF_FUEL = Suc k" by (rule that [of 999]) (simp add: BUF_FUEL_def)
  show ?thesis
    unfolding getblk_def fuel getblk_n.simps(2)
    using f hit(1) quiet_bf [OF q hit(1)] by (simp add: get_hash_table_def wait_on_buffer_def)
qed

text \<open>
  C13: while no buffer is locked and an unused clean buffer exists, \<open>getblk\<close> returns, without
  sleeping or writing anything out, the buffer of the block. If the block was in the cache it is
  that buffer, with one more user; otherwise it is a buffer that was unused and clean, now for
  this block, with one user and not up to date. No other buffer changes, every pointer of the
  queues is right again (all buffers on the ring, each on the hash queue of its block), and the
  cache still holds no block twice.
\<close>

theorem getblk_block:
  assumes "cache_ok s" and "quiet s" and "2 \<le> length (buffers s)" and "dev \<noteq> 0"
    and "\<exists>i < length (buffers s). b_count (bf s i) = 0 \<and> \<not> b_dirt (bf s i)"
  shows "\<exists>bh t. getblk dev blk s = Ok bh t \<and> cache_ok t \<and> bh < length (buffers t) \<and>
     holds t dev blk bh \<and> length (buffers t) = length (buffers s) \<and>
     (\<forall>i. i \<noteq> bh \<longrightarrow> core (bf t i) = core (bf s i)) \<and>
     (if holds s dev blk bh
      then core (bf t bh) = (core (bf s bh))\<lparr>b_count := b_count (bf s bh) + 1\<rparr>
      else (\<forall>i < length (buffers s). \<not> holds s dev blk i) \<and>
        b_count (bf s bh) = 0 \<and> \<not> b_dirt (bf s bh) \<and>
        b_count (bf t bh) = 1 \<and> \<not> b_uptodate (bf t bh) \<and> \<not> b_dirt (bf t bh))"
proof -
  obtain F H where wf: "wf_cache s F H" using assms(1) by (auto simp: cache_ok_def)
  show ?thesis
  proof (cases "\<exists>i < length (buffers s). holds s dev blk i")
    case True
    then obtain i where i: "i < length (buffers s)" "holds s dev blk i" by blast
    let ?t = "set_bf i (\<lambda>b. b\<lparr>b_count := b_count b + 1\<rparr>) s"
    have "wf_cache ?t F H" using wf by (rule wf_cache_core) simp
    then have "cache_ok ?t" by (auto simp: cache_ok_def)
    then show ?thesis
      using getblk_hit [OF wf assms(2,4) i] i
      by (intro exI [of _ i] exI [of _ ?t]) (simp add: holds_def core_upd)
  next
    case False
    then have new: "\<forall>i < length (buffers s). \<not> holds s dev blk i" by blast
    from getblk_miss [OF wf assms(2-5) new] obtain bh t where
      t: "getblk dev blk s = Ok bh t" "cache_ok t" "bh < length (buffers s)" "b_count (bf s bh) = 0"
        "\<not> b_dirt (bf s bh)" "length (buffers t) = length (buffers s)"
        "\<forall>i. core (bf t i) = (if i = bh then (core (bf s bh))\<lparr>b_count := 1, b_dirt := False,
           b_uptodate := False, b_dev := dev, b_blocknr := blk\<rparr> else core (bf s i))"
      by (elim exE conjE) (rule that)
    have c: "core (bf t bh) = core ((bf s bh)\<lparr>b_count := 1, b_dirt := False,
        b_uptodate := False, b_dev := dev, b_blocknr := blk\<rparr>)"
      using t(7) by (cases "bf s bh") (simp add: core_def)
    have "\<not> holds s dev blk bh" using new t(3) by blast
    moreover have "holds t dev blk bh" using core_fields [OF c] by (simp add: holds_def)
    ultimately show ?thesis
      using t new core_fields [OF c] by (intro exI [of _ bh] exI [of _ t]) simp
  qed
qed

subsection \<open>\<open>buffer_init\<close>\<close>

lemma links_upt:
  assumes "\<And>i. a \<le> i \<Longrightarrow> i < b \<Longrightarrow> f i = Some (Suc i) \<and> g (Suc i) = Some i"
  shows "links f g [a..<Suc b]"
proof (cases "a \<le> b")
  case True
  then show ?thesis using assms
  proof (induction b rule: nat_induct_at_least)
    case (Suc b)
    have "links f g ([a..<Suc b] @ [Suc b])"
      using Suc.IH Suc.prems Suc.hyps links_snoc [of "[a..<Suc b]" f g "Suc b"] by auto
    then show ?case using Suc.hyps by simp
  qed simp
qed simp

lemma buffer_init_wf:
  assumes "buffers (buffer_init e s) \<noteq> []"
  shows "wf_cache (buffer_init e s) [0..<length (buffers (buffer_init e s))] (\<lambda>_. [])"
proof -
  let ?t = "buffer_init e s"
  let ?n = "length (buffers ?t)"
  have n: "0 < ?n" using assms by simp
  have bf: "nf ?t i = Some (if i = ?n - 1 then 0 else i + 1)" "pf ?t i = Some (if i = 0 then ?n - 1 else i - 1)"
    "nx ?t i = None" "pv ?t i = None" "b_dev (bf ?t i) = 0" if "i < ?n" for i
    using that by (simp_all add: buffer_init_def Let_def nf_def pf_def nx_def pv_def bf_def)
  obtain m where m: "?n = Suc m" using n by (cases ?n) auto
  have "links (nf ?t) (pf ?t) [0..<Suc m]"
    by (rule links_upt) (simp add: bf m)
  then have "links (nf ?t) (pf ?t) ([0..<?n] @ [0])"
    using links_snoc [of "[0..<?n]" "nf ?t" "pf ?t" 0] bf [of m] bf [of 0] m by simp
  moreover have "hd [0..<?n] = 0" using m by (simp add: upt_rec)
  ultimately have "ring (nf ?t) (pf ?t) [0..<?n]" using n by (simp add: ring_def)
  moreover have "free_head ?t = 0" "hash_table ?t = replicate NR_HASH None"
    by (simp_all add: buffer_init_def Let_def)
  ultimately show ?thesis
    using bf \<open>hd [0..<?n] = 0\<close> unfolding wf_cache_def by (auto simp: atLeast0LessThan)
qed

text \<open>
  \<open>buffer_init\<close> sets up a cache that satisfies the invariant: all buffers on the free list, in
  order, and every hash queue empty.
\<close>

theorem buffer_init_ok:
  assumes "buffers (buffer_init e s) \<noteq> []"
  shows "wf_cache (buffer_init e s) [0..<length (buffers (buffer_init e s))] (\<lambda>_. [])"
  using assms by (rule buffer_init_wf)

text \<open>
  When the hash queue of its block is empty, entering a buffer into the queues also writes the
  address of the buffer head to physical address 20, which is in the page directory.
\<close>

theorem insert_overwrites_directory:
  assumes "x < length (buffers s)" and "b_dev (bf s x) \<noteq> 0" and "hash_table s ! bf_hash s x = None"
    and "free_head s < length (buffers s)" and "free_head s \<noteq> x" and "pf s (free_head s) = Some l"
    and "l < length (buffers s)"
  shows "\<exists>t. insert_into_queues x s = Ok () t \<and> phys t = (phys s)(20 := buf_addr x s)"
proof -
  let ?s1 = "set_bf x (\<lambda>b. b\<lparr>b_next_free := Some (free_head s)\<rparr>) s"
  have 1: "pf ?s1 (free_head s) = Some l" using assms by simp
  let ?s2 = "set_bf x (\<lambda>b. b\<lparr>b_prev_free := Some l\<rparr>) ?s1"
  have 2: "pf ?s2 (free_head s) = Some l" using assms by simp
  let ?s5 = "set_bf x (\<lambda>b. b\<lparr>b_prev := None, b_next := None\<rparr>) (set_bf (free_head s) (\<lambda>b. b\<lparr>b_prev_free := Some x\<rparr>)
     (set_bf l (\<lambda>b. b\<lparr>b_next_free := Some x\<rparr>) ?s2))"
  have c: "core (bf ?s5 x) = core (bf s x)" by simp
  have 5: "b_dev (bf ?s5 x) \<noteq> 0" "hash_table ?s5 ! bf_hash ?s5 x = None"
    using core_fields(1) [OF c] bf_hash_core [OF c] assms(2,3) by simp_all
  let ?s7 = "set_hash (bf_hash ?s5 x) (Some x) (set_bf x (\<lambda>b. b\<lparr>b_next := None\<rparr>) ?s5)"
  have 7: "nx ?s7 x = None" using assms(1) by simp
  have a: "phys ?s7 = phys s" "buf_addr x ?s7 = buf_addr x s"
    by (simp_all add: set_hash_def buf_addr_def)
  have "insert_into_queues x s = Ok () (poke 20 (buf_addr x ?s7) ?s7)"
    unfolding insert_eq Let_def 1 2 option.case using 5 7 by simp
  then show ?thesis using a by (auto simp: poke_def)
qed

subsection \<open>The cache is transparent\<close>

text \<open>
  What a block contains: the data of its buffer when that is up to date or has been written to, and
  otherwise what the device holds.
\<close>

definition logical :: "'a fs_scheme \<Rightarrow> u16 \<Rightarrow> u32 \<Rightarrow> u8 list option" where
  "logical s dev blk =
     (case find_idx (\<lambda>b. b_dev b = dev \<and> b_blocknr b = blk \<and> (b_uptodate b \<or> b_dirt b)) (buffers s) of
        Some i \<Rightarrow> Some (b_data (bf s i))
      | None \<Rightarrow> dev_read s dev blk)"

text \<open>
  A clean buffer that is up to date has the data of the device, and a buffer that has been written to is up to
  date. The second is what \<open>block_write\<close> breaks when it writes a whole block: it takes the buffer
  from \<open>getblk\<close> and sets only \<open>b_dirt\<close>.
\<close>

definition coherent :: "'a fs_scheme \<Rightarrow> bool" where
  "coherent s \<longleftrightarrow> (\<forall>i < length (buffers s). b_dev (bf s i) \<noteq> 0 \<longrightarrow>
     (b_uptodate (bf s i) \<longrightarrow> \<not> b_dirt (bf s i) \<longrightarrow>
        dev_read s (b_dev (bf s i)) (b_blocknr (bf s i)) = Some (b_data (bf s i))) \<and>
     (b_dirt (bf s i) \<longrightarrow> b_uptodate (bf s i)))"

text \<open>In a coherent cache only the buffers that are up to date matter.\<close>

definition cached :: "'a fs_scheme \<Rightarrow> u16 \<Rightarrow> u32 \<Rightarrow> u8 list option" where
  "cached s dev blk =
     (case find_idx (\<lambda>b. b_dev b = dev \<and> b_blocknr b = blk \<and> b_uptodate b) (buffers s) of
        Some i \<Rightarrow> Some (b_data (bf s i))
      | None \<Rightarrow> dev_read s dev blk)"

lemma logical_cached:
  assumes "coherent s" and "dev \<noteq> 0"
  shows "logical s dev blk = cached s dev blk"
proof -
  have "b_uptodate b" if "b \<in> set (buffers s)" "b_dev b \<noteq> 0" "b_dirt b" for b
    using assms(1) that by (auto simp: coherent_def bf_def in_set_conv_nth)
  then have "find_idx (\<lambda>b. b_dev b = dev \<and> b_blocknr b = blk \<and> (b_uptodate b \<or> b_dirt b)) (buffers s) =
    find_idx (\<lambda>b. b_dev b = dev \<and> b_blocknr b = blk \<and> b_uptodate b) (buffers s)"
    using assms(2) by (intro find_idx_cong) auto
  then show ?thesis by (simp add: logical_def cached_def)
qed

lemma cached_held:
  assumes ok: "cache_ok s" and i: "i < length (buffers s)" "holds s dev blk i" and dev: "dev \<noteq> 0"
  shows "cached s dev blk = (if b_uptodate (bf s i) then Some (b_data (bf s i)) else dev_read s dev blk)"
proof (cases "find_idx (\<lambda>b. b_dev b = dev \<and> b_blocknr b = blk \<and> b_uptodate b) (buffers s)")
  case None
  then have "\<not> b_uptodate (bf s i)" using i by (auto simp: find_idx_None_iff bf_def holds_def)
  then show ?thesis using None by (simp add: cached_def)
next
  case (Some j)
  note f = find_idx_SomeD [OF Some]
  obtain F H where wf: "wf_cache s F H" using ok by (auto simp: cache_ok_def)
  have "j = i" using wf_cacheD(8) [OF wf f(1) i(1)] f(2) i(2) dev by (simp add: bf_def holds_def)
  then show ?thesis using Some f(2) by (simp add: cached_def bf_def)
qed

lemma cached_free:
  assumes "\<forall>i < length (buffers s). \<not> holds s dev blk i"
  shows "cached s dev blk = dev_read s dev blk"
proof -
  have "find_idx (\<lambda>b. b_dev b = dev \<and> b_blocknr b = blk \<and> b_uptodate b) (buffers s) = None"
    using assms by (auto simp: find_idx_None_iff bf_def holds_def in_set_conv_nth)
  then show ?thesis by (simp add: cached_def)
qed

text \<open>Two caches that agree on every buffer that holds a block have the same contents.\<close>

lemma cached_cong:
  assumes "cache_ok s" and "cache_ok t" and "length (buffers t) = length (buffers s)" and "dev \<noteq> 0"
    and "dev_read t dev blk = dev_read s dev blk"
    and "\<And>i. i < length (buffers s) \<Longrightarrow> holds s dev blk i \<Longrightarrow>
       holds t dev blk i \<and> b_uptodate (bf t i) = b_uptodate (bf s i) \<and> b_data (bf t i) = b_data (bf s i)"
    and "\<And>i. i < length (buffers s) \<Longrightarrow> holds t dev blk i \<Longrightarrow> holds s dev blk i"
  shows "cached t dev blk = cached s dev blk"
proof (cases "\<exists>i < length (buffers s). holds s dev blk i")
  case True
  then obtain i where i: "i < length (buffers s)" "holds s dev blk i" by blast
  then show ?thesis
    using cached_held [OF assms(1) i assms(4)] cached_held [OF assms(2) _ _ assms(4), of i blk]
      assms(3,5) assms(6) [OF i] by simp
next
  case False
  then have "\<forall>i < length (buffers t). \<not> holds t dev blk i" using assms(3,7) by auto
  then show ?thesis using False cached_free [of s dev blk] cached_free [of t dev blk] assms(5) by simp
qed

lemma dev_read_rest: "rest t = rest s \<Longrightarrow> dev_read t = dev_read s"
proof -
  assume r: "rest t = rest s"
  have "dev_read (rest u) = dev_read u" for u :: "'a fs_scheme"
    by (simp add: rest_def dev_read_def fun_eq_iff Let_def)
  then show ?thesis using r by metis
qed

lemma quiet_rest:
  assumes "quiet s" and "rest t = rest s" and "length (buffers t) = length (buffers s)"
    and "\<And>i. i < length (buffers s) \<Longrightarrow> b_lock (bf t i) = b_lock (bf s i) \<and> b_wait (bf t i) = b_wait (bf s i)"
  shows "quiet t"
proof -
  have r: "requests (rest u) = requests u" "current_request (rest u) = current_request u"
    "wait_for_request (rest u) = wait_for_request u" for u :: "'a fs_scheme" by (simp_all add: rest_def)
  have e: "requests t = requests s" "current_request t = current_request s"
    "wait_for_request t = wait_for_request s"
    using r [of t] r [of s] assms(2) by simp_all
  have "\<not> b_lock b \<and> b_wait b = None" if "b \<in> set (buffers t)" for b
  proof -
    obtain i where "i < length (buffers t)" "b = bf t i" using \<open>b \<in> _\<close> by (auto simp: in_set_conv_nth bf_def)
    then show ?thesis using assms(3,4) quiet_bf [OF assms(1)] by auto
  qed
  then show ?thesis using assms(1) e by (simp add: quiet_def rq_def)
qed

lemma wf_cache_set_rq [simp]: "wf_cache (set_rq r g s) F H \<longleftrightarrow> wf_cache s F H"
proof -
  have "nx (set_rq r g s) = nx s" "pv (set_rq r g s) = pv s" "nf (set_rq r g s) = nf s"
    "pf (set_rq r g s) = pf s" "bf_hash (set_rq r g s) = bf_hash s"
    by (auto simp: nx_def pv_def nf_def pf_def bf_hash_def)
  then show ?thesis by (simp add: wf_cache_def)
qed

lemma request_fn_rest: "rest t = rest s \<Longrightarrow> request_fn t = request_fn s"
proof -
  assume r: "rest t = rest s"
  have "request_fn (rest u) = request_fn u" for u :: "'a fs_scheme" by (simp add: rest_def)
  then show ?thesis using r by metis
qed

lemma getblk_keeps:
  assumes ok: "cache_ok s" and q: "quiet s" and co: "coherent s" and n: "2 \<le> length (buffers s)"
    and dev: "dev \<noteq> 0" and clean: "\<exists>i < length (buffers s). b_count (bf s i) = 0 \<and> \<not> b_dirt (bf s i)"
  shows "\<exists>bh t. getblk dev blk s = Ok bh t \<and> cache_ok t \<and> quiet t \<and> coherent t \<and>
     bh < length (buffers t) \<and> holds t dev blk bh \<and> length (buffers t) = length (buffers s) \<and>
     (\<forall>d k. d \<noteq> 0 \<longrightarrow> cached t d k = cached s d k) \<and> dev_read t = dev_read s \<and>
     request_fn t = request_fn s \<and> b_count (bf t bh) = b_count (bf s bh) + 1 \<and>
     (\<forall>i. i \<noteq> bh \<longrightarrow> b_count (bf t i) = b_count (bf s i))"
proof -
  obtain F H where wf: "wf_cache s F H" using ok by (auto simp: cache_ok_def)
  show ?thesis
  proof (cases "\<exists>i < length (buffers s). holds s dev blk i")
    case True
    then obtain i where i: "i < length (buffers s)" "holds s dev blk i" by blast
    let ?t = "set_bf i (\<lambda>b. b\<lparr>b_count := b_count b + 1\<rparr>) s"
    have "wf_cache ?t F H" using wf by (rule wf_cache_core) simp
    then have ok': "cache_ok ?t" by (auto simp: cache_ok_def)
    have e: "b_dev (bf ?t j) = b_dev (bf s j)" "b_blocknr (bf ?t j) = b_blocknr (bf s j)"
      "b_uptodate (bf ?t j) = b_uptodate (bf s j)" "b_data (bf ?t j) = b_data (bf s j)"
      "b_dirt (bf ?t j) = b_dirt (bf s j)" for j by (simp_all add: bf_set_bf)
    have "quiet ?t" using q quiet_bf [OF q i(1)] by (intro quiet_set_bf) auto
    moreover have "coherent ?t" using co by (simp add: coherent_def e)
    moreover have "cached ?t d k = cached s d k" if "d \<noteq> 0" for d k
      using that by (intro cached_cong [OF ok ok']) (simp_all add: holds_def e)
    ultimately show ?thesis
      using getblk_hit [OF wf q dev i] i ok'
      by (intro exI [of _ i] exI [of _ ?t]) (simp add: holds_def e bf_set_bf)
  next
    case False
    then have new: "\<forall>i < length (buffers s). \<not> holds s dev blk i" by blast
    from getblk_miss [OF wf q n dev clean new] obtain bh t where
      t: "getblk dev blk s = Ok bh t" "cache_ok t" "bh < length (buffers s)" "b_count (bf s bh) = 0"
        "\<not> b_dirt (bf s bh)" "length (buffers t) = length (buffers s)" "rest t = rest s"
        "\<forall>i. core (bf t i) = (if i = bh then (core (bf s bh))\<lparr>b_count := 1, b_dirt := False,
           b_uptodate := False, b_dev := dev, b_blocknr := blk\<rparr> else core (bf s i))"
      by (elim exE conjE) (rule that)
    have c: "core (bf t bh) = core ((bf s bh)\<lparr>b_count := 1, b_dirt := False,
        b_uptodate := False, b_dev := dev, b_blocknr := blk\<rparr>)"
      using t(8) by (cases "bf s bh") (simp add: core_def)
    have o: "core (bf t i) = core (bf s i)" if "i \<noteq> bh" for i using t(8) that by simp
    note cb = core_fields [OF c]
    note co' = core_fields [OF o]
    have dr: "dev_read t = dev_read s" using t(7) by (rule dev_read_rest)
    have lw: "b_lock (bf t i) = b_lock (bf s i) \<and> b_wait (bf t i) = b_wait (bf s i)" for i
      using cb co' by (cases "i = bh") auto
    have "quiet t" using q t(7,6) lw by (rule quiet_rest)
    moreover have "coherent t"
      unfolding coherent_def
    proof (intro allI impI conjI)
      fix i assume i: "i < length (buffers t)" "b_dev (bf t i) \<noteq> 0"
      show "dev_read t (b_dev (bf t i)) (b_blocknr (bf t i)) = Some (b_data (bf t i))"
        if "b_uptodate (bf t i)" "\<not> b_dirt (bf t i)"
        using that co i t(6) cb co' [of i] by (cases "i = bh") (auto simp: coherent_def dr)
      show "b_uptodate (bf t i)" if "b_dirt (bf t i)"
        using that co i t(6) cb co' [of i] by (cases "i = bh") (auto simp: coherent_def)
    qed
    moreover have "cached t d k = cached s d k" if d: "d \<noteq> 0" for d k
    proof (cases "holds s d k bh \<or> d = dev \<and> k = blk")
      case True
      have "cached s d k = dev_read s d k"
      proof (cases "d = dev \<and> k = blk")
        case True
        then show ?thesis using new cached_free by blast
      next
        case False
        then have h: "holds s d k bh" using True by blast
        then show ?thesis
          using cached_held [OF ok t(3) h d] co t(3,5) d by (auto simp: coherent_def holds_def)
      qed
      moreover have "cached t d k = dev_read t d k"
      proof (cases "d = dev \<and> k = blk")
        case True
        then show ?thesis using cached_held [OF t(2) _ _ d, of bh k] t(3,6) cb by (simp add: holds_def)
      next
        case False
        then have h: "holds s d k bh" using True by blast
        have "\<not> holds t d k i" if "i < length (buffers t)" for i
        proof (cases "i = bh")
          case True
          then show ?thesis using False cb by (auto simp: holds_def)
        next
          case ne: False
          then have "holds t d k i \<longleftrightarrow> holds s d k i" using co' by (simp add: holds_def)
          then show ?thesis using wf_cacheD(8) [OF wf _ t(3), of i] that t(6) h ne d by (auto simp: holds_def)
        qed
        then show ?thesis using cached_free by blast
      qed
      ultimately show ?thesis using dr by simp
    next
      case False
      then have nb: "\<not> holds s d k bh" "\<not> holds t d k bh" using cb by (auto simp: holds_def)
      have eq: "holds t d k i = holds s d k i" if "i \<noteq> bh" for i using co' [OF that] by (simp add: holds_def)
      show ?thesis
      proof (rule cached_cong [OF ok t(2,6) d])
        show "dev_read t d k = dev_read s d k" by (simp add: dr)
        fix i assume "holds s d k i"
        then have "i \<noteq> bh" using nb by blast
        then show "holds t d k i \<and> b_uptodate (bf t i) = b_uptodate (bf s i) \<and> b_data (bf t i) = b_data (bf s i)"
          using \<open>holds s d k i\<close> eq co' by simp
      next
        fix i assume "holds t d k i"
        then show "holds s d k i" using nb eq by metis
      qed
    qed
    moreover have "\<not> holds s dev blk bh" "holds t dev blk bh" using new t(3) cb by (auto simp: holds_def)
    ultimately show ?thesis
      using t(1,2,3,4,6) cb co' dr request_fn_rest [OF t(7)]
      by (intro exI [of _ bh] exI [of _ t]) simp
  qed
qed

lemma served_read:
  "served 31 READ bh s = set_rq 31 (\<lambda>_. (rd_request bh (b_dev (bf s bh)) (b_blocknr (bf s bh)) READ)\<lparr>rq_dev := -1\<rparr>)
     (set_bf bh (\<lambda>b. case dev_read s (b_dev (bf s bh)) (b_blocknr (bf s bh)) of
        None \<Rightarrow> b\<lparr>b_dirt := False, b_uptodate := False\<rparr>
      | Some d \<Rightarrow> b\<lparr>b_dirt := False, b_data := d, b_uptodate := True\<rparr>) s)"
  by (auto simp: served_def Let_def split: option.split)

lemma read_keeps:
  assumes ok: "cache_ok s" and q: "quiet s" and co: "coherent s" and bh: "bh < length (buffers s)"
    and nu: "\<not> b_uptodate (bf s bh)" and dev: "b_dev (bf s bh) \<noteq> 0"
  shows "cache_ok (served 31 READ bh s) \<and> quiet (served 31 READ bh s) \<and> coherent (served 31 READ bh s) \<and>
     (\<forall>d k. d \<noteq> 0 \<longrightarrow> cached (served 31 READ bh s) d k = cached s d k)"
proof -
  let ?t = "served 31 READ bh s"
  obtain F H where wf: "wf_cache s F H" using ok by (auto simp: cache_ok_def)
  have "wf_cache ?t F H"
    unfolding served_read wf_cache_set_rq using wf by (rule wf_cache_core) (simp split: option.split)
  then have ok': "cache_ok ?t" by (auto simp: cache_ok_def)
  have qt: "quiet ?t" using q bh by (rule quiet_served) (simp add: NR_REQUEST_def)
  have dr: "dev_read ?t = dev_read s" by (rule dev_read_served_read)
  note sb = served_bf [OF bh, of READ 31]
  have e: "b_dev (bf ?t i) = b_dev (bf s i)" "b_blocknr (bf ?t i) = b_blocknr (bf s i)" for i
    using sb by simp_all
  have ct: "coherent ?t"
    using co sb unfolding coherent_def dr by (auto split: option.splits)
  have "cached ?t d k = cached s d k" if d: "d \<noteq> 0" for d k
  proof (cases "holds s d k bh")
    case True
    then have "holds ?t d k bh" by (simp add: holds_def e)
    then show ?thesis
      using cached_held [OF ok bh True d] cached_held [OF ok' _ _ d, of bh k] nu True sb [of bh] bh dr
      by (auto simp: holds_def split: option.splits)
  next
    case False
    show ?thesis
    proof (rule cached_cong [OF ok ok' _ d])
      fix i assume "holds s d k i"
      then have "i \<noteq> bh" using False by blast
      then show "holds ?t d k i \<and> b_uptodate (bf ?t i) = b_uptodate (bf s i) \<and> b_data (bf ?t i) = b_data (bf s i)"
        using \<open>holds s d k i\<close> sb by (simp add: holds_def)
    qed (simp_all add: dr holds_def e)
  qed
  then show ?thesis using ok' qt ct by blast
qed

text \<open>Giving a buffer back changes its count and may wake a task.\<close>

lemma dev_read_ts: "dev_read (upd i f s) = dev_read s" "dev_read (s\<lparr>buffer_wait := q\<rparr>) = dev_read s"
  by (simp_all add: fun_eq_iff dev_read_def Let_def upd_def)

lemma brelse_keeps:
  assumes ok: "cache_ok s" and q: "quiet s" and co: "coherent s" and bh: "bh < length (buffers s)"
    and cnt: "b_count (bf s bh) \<noteq> 0"
  shows "\<exists>t. brelse (Some bh) s = Ok () t \<and> cache_ok t \<and> quiet t \<and> coherent t \<and>
     (\<forall>d k. d \<noteq> 0 \<longrightarrow> logical t d k = logical s d k) \<and> dev_read t = dev_read s \<and>
     length (buffers t) = length (buffers s) \<and>
     (\<forall>i. b_count (bf t i) = (if i = bh then b_count (bf s i) - 1 else b_count (bf s i)))"
proof -
  let ?u = "set_bf bh (\<lambda>b. b\<lparr>b_count := b_count b - 1\<rparr>) s"
  obtain x v where v: "wake_up (buffer_wait ?u) ?u = (x, v)" by fastforce
  let ?t = "v\<lparr>buffer_wait := x\<rparr>"
  have "wait_on_buffer bh s = Ok () s" using quiet_bf [OF q bh] by (simp add: wait_on_buffer_def)
  then have run: "brelse (Some bh) s = Ok () ?t" using cnt v by (simp add: brelse_def)
  have same: "buffers ?t = buffers ?u" "hash_table ?t = hash_table ?u" "free_head ?t = free_head ?u"
    "requests ?t = requests ?u" "current_request ?t = current_request ?u" "wait_for_request ?t = wait_for_request ?u"
    using v by (auto simp: wake_up_def upd_def split: option.splits)
  have dru: "dev_read ?t = dev_read ?u" using v by (auto simp: wake_up_def dev_read_ts split: option.splits)
  from same(1) have bf: "bf ?t = bf ?u" by (simp add: bf_def fun_eq_iff)
  have e: "b_dev (bf ?t j) = b_dev (bf s j)" "b_blocknr (bf ?t j) = b_blocknr (bf s j)"
    "b_uptodate (bf ?t j) = b_uptodate (bf s j)" "b_data (bf ?t j) = b_data (bf s j)"
    "b_dirt (bf ?t j) = b_dirt (bf s j)"
    "b_count (bf ?t j) = (if j = bh then b_count (bf s j) - 1 else b_count (bf s j))" for j
    unfolding bf using bh by (simp_all add: bf_set_bf)
  obtain F H where "wf_cache s F H" using ok by (auto simp: cache_ok_def)
  then have "wf_cache ?u F H" by (rule wf_cache_core) simp
  then have "wf_cache ?t F H"
    by (simp add: wf_cache_def nx_def [abs_def] pv_def [abs_def] nf_def [abs_def] pf_def [abs_def] bf_hash_def
        bf same(1-3))
  then have ok': "cache_ok ?t" by (auto simp: cache_ok_def)
  have "quiet ?u" using q quiet_bf [OF q bh] by (intro quiet_set_bf) auto
  then have q': "quiet ?t" by (simp add: quiet_def rq_def same)
  have dr: "dev_read ?t = dev_read s" unfolding dru by simp
  have len: "length (buffers ?t) = length (buffers s)" unfolding same(1) by simp
  have co': "coherent ?t" using co unfolding coherent_def e dr len .
  have "cached ?t d k = cached s d k" if "d \<noteq> 0" for d k
    using that len by (intro cached_cong [OF ok ok']) (simp_all add: holds_def e dr)
  then have "logical ?t d k = logical s d k" if "d \<noteq> 0" for d k
    using that co co' by (simp add: logical_cached)
  with run ok' q' co' dr len e(6) show ?thesis by (intro exI [of _ ?t]) blast
qed

text \<open>
  C14: the cache is transparent to readers. When no buffer is locked, no request queued and nobody waiting
  (\<open>quiet\<close>), the cache is coherent (a clean buffer has the data of the device, and no buffer is dirty without
  being up to date) and a clean unused buffer exists, \<open>bread\<close> of a block on a working device
  returns a buffer with exactly what the block contains, the cached data where they are newer than the device's,
  with one more reference than before, or \<open>NULL\<close> when the device cannot read the block, with no
  reference kept. In both cases the contents of no block change, neither on a device nor through the cache, whatever
  buffer had to be given up, and all invariants of the cache hold afterwards, coherence included.
\<close>

theorem bread_transparent:
  assumes "cache_ok s" and "quiet s" and "coherent s" and "2 \<le> length (buffers s)"
    and "has_driver s dev" and "blk < 0x400000"
    and "\<exists>i < length (buffers s). b_count (bf s i) = 0 \<and> \<not> b_dirt (bf s i)"
    and "\<forall>i < length (buffers s). b_count (bf s i) \<noteq> - 1"
  shows "\<exists>r t. bread dev blk s = Ok r t \<and> cache_ok t \<and> quiet t \<and> coherent t \<and>
     (\<forall>d k. d \<noteq> 0 \<longrightarrow> logical t d k = logical s d k) \<and> dev_read t = dev_read s \<and>
     (\<forall>i. b_count (bf t i) = (if r = Some i then b_count (bf s i) + 1 else b_count (bf s i))) \<and>
     (case logical s dev blk of
        None \<Rightarrow> r = None
      | Some d \<Rightarrow> \<exists>bh. r = Some bh \<and> bh < length (buffers t) \<and> holds t dev blk bh \<and> b_data (bf t bh) = d \<and>
          b_uptodate (bf t bh) \<and> b_count (bf t bh) \<noteq> 0)"
proof -
  have dev: "dev \<noteq> 0" using assms(5) by (auto simp: has_driver_def MAJOR_def)
  from getblk_keeps [OF assms(1-4) dev assms(7), of blk] obtain bh u where
    u: "getblk dev blk s = Ok bh u" "cache_ok u" "quiet u" "coherent u" "bh < length (buffers u)"
      "holds u dev blk bh" "length (buffers u) = length (buffers s)"
      "\<forall>d k. d \<noteq> 0 \<longrightarrow> cached u d k = cached s d k" "dev_read u = dev_read s" "request_fn u = request_fn s"
      "b_count (bf u bh) = b_count (bf s bh) + 1" "\<forall>i. i \<noteq> bh \<longrightarrow> b_count (bf u i) = b_count (bf s i)"
    by (elim exE conjE) (rule that)
  have lu: "logical u d k = logical s d k" if "d \<noteq> 0" for d k
    using u(8) that assms(3) u(4) by (simp add: logical_cached)
  have "b_count (bf s bh) \<noteq> - 1" using assms(8) u(5,7) by simp
  then have cnt: "b_count (bf u bh) \<noteq> 0" using u(11) by (simp add: add_eq_0_iff2)
  have hd: "b_dev (bf u bh) = dev" "b_blocknr (bf u bh) = blk" using u(6) by (simp_all add: holds_def)
  have lg: "logical s dev blk = (if b_uptodate (bf u bh) then Some (b_data (bf u bh)) else dev_read u dev blk)"
    using cached_held [OF u(2,5,6) dev] lu [OF dev, of blk] logical_cached [OF u(4) dev] by simp
  show ?thesis
  proof (cases "b_uptodate (bf u bh)")
    case True
    then have "bread dev blk s = Ok (Some bh) u" using u(1) by (simp add: bread_def bread_with_def)
    with True lg u(2-6,9,11,12) lu cnt show ?thesis by (intro exI [of _ "Some bh"] exI [of _ u]) auto
  next
    case False
    let ?t = "served 31 READ bh u"
    have fits: "blk_fits u bh" using assms(5,6) u(10) hd by (simp add: blk_fits_def has_driver_def)
    have ll: "ll_rw_block READ bh u = Ok () ?t" using ll_rw_served [OF u(3,5) fits, of READ] False by simp
    have k: "cache_ok ?t" "quiet ?t" "coherent ?t" "\<forall>d k. d \<noteq> 0 \<longrightarrow> cached ?t d k = cached u d k"
      using read_keeps [OF u(2,3,4,5) False] dev hd by auto
    have lt: "logical ?t d k = logical s d k" if "d \<noteq> 0" for d k
      using k(3,4) lu that u(4) by (simp add: logical_cached)
    have wait: "wait_on_buffer bh ?t = Ok () ?t"
      using quiet_bf [OF k(2), of bh] u(5) by (simp add: wait_on_buffer_def)
    note sb = served_bf [OF u(5), of READ 31]
    have ct: "b_count (bf ?t i) = b_count (bf u i)" for i using sb by simp
    have dr: "dev_read ?t = dev_read s" unfolding dev_read_served_read by (rule u(9))
    show ?thesis
    proof (cases "dev_read u dev blk")
      case (Some d)
      then have b: "bf ?t bh = (bf u bh)\<lparr>b_dirt := False, b_data := d, b_uptodate := True\<rparr>"
        using sb [of bh] hd by simp
      then have "bread dev blk s = Ok (Some bh) ?t"
        using u(1) False ll wait by (simp add: bread_def bread_with_def)
      then show ?thesis
        using False lg Some b k(1-3) lt dr ct u(5,11,12) cnt hd
        by (intro exI [of _ "Some bh"] exI [of _ ?t]) (auto simp: holds_def)
    next
      case None
      then have b: "\<not> b_uptodate (bf ?t bh)" "b_count (bf ?t bh) \<noteq> 0" using sb [of bh] hd cnt by simp_all
      from brelse_keeps [OF k(1-3) _ b(2)] u(5) obtain v where
        v: "brelse (Some bh) ?t = Ok () v" "cache_ok v" "quiet v" "coherent v"
          "\<forall>d k. d \<noteq> 0 \<longrightarrow> logical v d k = logical ?t d k" "dev_read v = dev_read ?t"
          "\<forall>i. b_count (bf v i) = (if i = bh then b_count (bf ?t i) - 1 else b_count (bf ?t i))" by auto
      have "bread dev blk s = Ok None v"
        using u(1) False ll wait b v(1) by (simp add: bread_def bread_with_def)
      then show ?thesis
        using lg None False v(2-7) lt dr ct u(11,12) by (intro exI [of _ None] exI [of _ v]) auto
    qed
  qed
qed

text \<open>
  What happens without coherence: a block that \<open>block_write\<close> has written as a whole is in a buffer that is dirty
  and not up to date; \<open>bread\<close> reads the device's block over it, and what was written is lost.
\<close>

lemma bread_discards_whole_block:
  assumes ok: "cache_ok s" and q: "quiet s" and drv: "has_driver s dev" "blk < 0x400000"
    and bh: "bh < length (buffers s)" "holds s dev blk bh" "b_dirt (bf s bh)" "\<not> b_uptodate (bf s bh)"
    and d: "dev_read s dev blk = Some d"
  shows "logical s dev blk = Some (b_data (bf s bh))"
    and "\<exists>t. bread dev blk s = Ok (Some bh) t \<and> b_data (bf t bh) = d \<and> \<not> b_dirt (bf t bh) \<and> logical t dev blk = Some d"
proof -
  have dev: "dev \<noteq> 0" using drv(1) by (auto simp: has_driver_def MAJOR_def)
  obtain F H where wf: "wf_cache s F H" using ok by (auto simp: cache_ok_def)
  have at: "logical u dev blk = Some (b_data (bf u bh))"
    if "cache_ok u" "bh < length (buffers u)" "holds u dev blk bh" "b_uptodate (bf u bh) \<or> b_dirt (bf u bh)"
    for u :: "'a fs_scheme"
  proof -
    from that(1) obtain F H where wf: "wf_cache u F H" by (auto simp: cache_ok_def)
    let ?P = "\<lambda>b. b_dev b = dev \<and> b_blocknr b = blk \<and> (b_uptodate b \<or> b_dirt b)"
    have "bf u bh \<in> set (buffers u)" "?P (bf u bh)" using that by (auto simp: bf_def holds_def)
    then obtain i where i: "find_idx ?P (buffers u) = Some i"
      by (cases "find_idx ?P (buffers u)") (auto simp: find_idx_None_iff)
    note f = find_idx_SomeD [OF i]
    have "i = bh" using wf_cacheD(8) [OF wf f(1) that(2)] f(2) that(3) dev by (simp add: bf_def holds_def)
    then show ?thesis using i by (simp add: logical_def)
  qed
  show "logical s dev blk = Some (b_data (bf s bh))" using ok bh by (intro at) auto
  let ?u = "set_bf bh (\<lambda>b. b\<lparr>b_count := b_count b + 1\<rparr>) s" and ?t = "served 31 READ bh (set_bf bh (\<lambda>b. b\<lparr>b_count := b_count b + 1\<rparr>) s)"
  have hit: "getblk dev blk s = Ok bh ?u" by (rule getblk_hit [OF wf q dev bh(1,2)])
  have u: "quiet ?u" "bh < length (buffers ?u)" "wf_cache ?u F H"
    using q quiet_bf [OF q bh(1)] bh(1) wf_cache_core [OF wf] by (auto intro!: quiet_set_bf)
  have f: "b_dev (bf ?u bh) = dev" "b_blocknr (bf ?u bh) = blk" "\<not> b_uptodate (bf ?u bh)"
    using bh by (simp_all add: holds_def)
  then have fits: "blk_fits ?u bh" using drv by (simp add: blk_fits_def has_driver_def)
  have ll: "ll_rw_block READ bh ?u = Ok () ?t" using ll_rw_served [OF u(1,2) fits, of READ] f(3) by simp
  have b: "bf ?t bh = (bf ?u bh)\<lparr>b_dirt := False, b_data := d, b_uptodate := True\<rparr>"
    using served_bf [OF u(2), of READ 31 bh] f d by simp
  have "wf_cache ?t F H"
    unfolding served_read wf_cache_set_rq using u(3) by (rule wf_cache_core) (simp split: option.split)
  then have ct: "cache_ok ?t" by (auto simp: cache_ok_def)
  have "quiet ?t" using u(1,2) by (rule quiet_served) (simp add: NR_REQUEST_def)
  then have "wait_on_buffer bh ?t = Ok () ?t"
    using quiet_bf [of ?t bh] u(2) by (simp add: wait_on_buffer_def)
  then have run: "bread dev blk s = Ok (Some bh) ?t"
    using hit ll f(3) b by (simp add: bread_def bread_with_def)
  have "logical ?t dev blk = Some d" using at [OF ct] u(2) b f by (simp add: holds_def)
  with run b show "\<exists>t. bread dev blk s = Ok (Some bh) t \<and> b_data (bf t bh) = d \<and> \<not> b_dirt (bf t bh) \<and> logical t dev blk = Some d"
    by (intro exI [of _ ?t]) simp
qed

subsection \<open>A small cache\<close>

text \<open>Three buffers below 640kB, on the state of theory \<open>Blk\<close>.\<close>

definition demo_cache :: fs where
  "demo_cache = buffer_init 0x100000 (demo_fs\<lparr>start_buffer := 0x9F000\<rparr>)"

lemma demo_blocks: "data_blocks 0x9F000 0xA0000 = [0x9FC00, 0x9F800, 0x9F400]"
  by (simp add: data_blocks.simps)

lemma demo_cache_facts:
  "length (buffers demo_cache) = 3" "cache_ok demo_cache" "quiet demo_cache" "coherent demo_cache"
  "has_driver demo_cache 0x0101"
  "i < 3 \<Longrightarrow> b_count (bf demo_cache i) = 0 \<and> \<not> b_dirt (bf demo_cache i) \<and> \<not> b_uptodate (bf demo_cache i)"
proof -
  show n: "length (buffers demo_cache) = 3"
    by (simp add: demo_cache_def buffer_init_def Let_def demo_blocks)
  then have "buffers demo_cache \<noteq> []" by auto
  have "\<not> b_lock b \<and> b_wait b = None \<and> \<not> b_uptodate b \<and> b_count b = 0 \<and> \<not> b_dirt b"
    if "b \<in> set (buffers demo_cache)" for b
    using that by (auto simp: demo_cache_def buffer_init_def Let_def)
  note bs = this
  have fr: "requests demo_cache = requests demo_fs" "current_request demo_cache = current_request demo_fs"
    "wait_for_request demo_cache = None" "request_fn demo_cache = request_fn demo_fs"
    by (simp_all add: demo_cache_def buffer_init_def Let_def)
  show "quiet demo_cache" using bs fr blk_ready_demo(1) by (simp add: quiet_def blk_ready_def rq_def)
  show "has_driver demo_cache 0x0101" by (simp add: has_driver_def fr MAJOR_def)
  show f: "b_count (bf demo_cache i) = 0 \<and> \<not> b_dirt (bf demo_cache i) \<and> \<not> b_uptodate (bf demo_cache i)" if "i < 3" for i
    using bs [of "bf demo_cache i"] that n by (simp add: bf_def)
  then show "coherent demo_cache" using n by (simp add: coherent_def)
  show "cache_ok demo_cache" unfolding cache_ok_def demo_cache_def
    by (intro exI, rule buffer_init_wf) (simp add: buffer_init_def Let_def demo_blocks)
qed

lemma demo_cache_ptrs:
  "free_head demo_cache = 0" "pf demo_cache 0 = Some 2" "hash_table demo_cache = replicate NR_HASH None"
  "dev_read demo_cache 0x0101 5 = Some (replicate BLOCK_SIZE 0)" "start_buffer demo_cache = 0x9F000"
proof -
  have "rd_start demo_cache = 0x400000" "rd_length demo_cache = 0x100000" "rdmem demo_cache = (\<lambda>_. 0)"
    by (simp_all add: demo_cache_def buffer_init_def Let_def)
  then show "dev_read demo_cache 0x0101 5 = Some (replicate BLOCK_SIZE 0)"
    by (simp add: dev_read_def MAJOR_def MINOR_def Let_def read_bytes_def map_replicate_const)
qed (simp_all add: demo_cache_def buffer_init_def Let_def demo_blocks pf_def bf_def)

theorem buffer_init_ok_witness:
  "wf_cache demo_cache [0..<3] (\<lambda>_. [])"
proof -
  have "buffers (buffer_init 0x100000 (demo_fs\<lparr>start_buffer := 0x9F000\<rparr>)) \<noteq> []"
    using demo_cache_facts(1) by (auto simp: demo_cache_def)
  from buffer_init_ok [OF this] show ?thesis
    using demo_cache_facts(1) unfolding demo_cache_def by simp
qed

theorem insert_overwrites_directory_witness:
  "\<exists>t. insert_into_queues 1 (set_bf 1 (\<lambda>b. b\<lparr>b_dev := 0x0101, b_blocknr := 5\<rparr>) demo_cache) = Ok () t \<and>
     phys t 20 = 0x9F024"
proof -
  let ?s = "set_bf 1 (\<lambda>b. b\<lparr>b_dev := 0x0101, b_blocknr := 5\<rparr>) demo_cache"
  have "pf ?s 0 = Some 2" using demo_cache_ptrs(2) by (simp add: pf_def)
  moreover have "hash_table ?s ! bf_hash ?s 1 = None"
    using bf_hash_less(1) [of ?s 1] demo_cache_ptrs(3) by simp
  ultimately show ?thesis
    using insert_overwrites_directory [of 1 ?s 2] demo_cache_facts(1) demo_cache_ptrs
    by (auto simp: buf_addr_def)
qed

theorem getblk_block_witness:
  "\<exists>bh t. getblk 0x0101 5 demo_cache = Ok bh t \<and> cache_ok t \<and> holds t 0x0101 5 bh"
proof -
  have "\<exists>i < length (buffers demo_cache). b_count (bf demo_cache i) = 0 \<and> \<not> b_dirt (bf demo_cache i)"
    using demo_cache_facts(1,6) by (intro exI [of _ 0]) simp
  then show ?thesis
    using getblk_block [of demo_cache "0x0101" 5] demo_cache_facts(1-3) by auto
qed

theorem bread_transparent_witness:
  "\<exists>bh t. bread 0x0101 5 demo_cache = Ok (Some bh) t \<and> b_data (bf t bh) = replicate BLOCK_SIZE 0"
proof -
  have c: "\<exists>i < length (buffers demo_cache). b_count (bf demo_cache i) = 0 \<and> \<not> b_dirt (bf demo_cache i)"
    using demo_cache_facts(1,6) by (intro exI [of _ 0]) simp
  have u: "\<forall>i < length (buffers demo_cache). b_count (bf demo_cache i) \<noteq> - 1"
    using demo_cache_facts(1,6) by simp
  have "cached demo_cache 0x0101 5 = dev_read demo_cache 0x0101 5"
  proof (rule cached_free, intro allI impI)
    fix i assume "i < length (buffers demo_cache)"
    then have "b_dev (bf demo_cache i) = 0"
      by (simp add: demo_cache_def buffer_init_def Let_def bf_def)
    then show "\<not> holds demo_cache 0x0101 5 i" by (simp add: holds_def)
  qed
  then have "logical demo_cache 0x0101 5 = Some (replicate BLOCK_SIZE 0)"
    using logical_cached [OF demo_cache_facts(4), of "0x0101" 5] demo_cache_ptrs(4) by simp
  then show ?thesis
    using bread_transparent [OF demo_cache_facts(2-4) _ demo_cache_facts(5) _ c u, where blk = 5]
      demo_cache_facts(1) by auto
qed

end
