(* ===== verification/Bitmap.thy ===== *)
theory Bitmap
  imports Buffer
begin

text \<open>
  The maps of inodes and zones, \<open>fs/bitmap.c\<close>. A map block is 8192 bits; bit \<open>n\<close> is bit \<open>n mod 8\<close>
  of byte \<open>n div 8\<close>, which is what the bit instructions of the code address. \<open>printk\<close> is left out.
\<close>

definition map_bit :: "u8 list \<Rightarrow> nat \<Rightarrow> bool" where
  "map_bit d n = bit (d ! (n div 8)) (n mod 8)"

definition clear_block :: "nat \<Rightarrow> 'a fs_scheme \<Rightarrow> 'a fs_scheme" where
  "clear_block bh s = set_bf bh (\<lambda>b. b\<lparr>b_data := replicate BLOCK_SIZE 0\<rparr>) s"

text \<open>The instructions return the old bit (\<open>set_bit\<close>), or its negation (\<open>clear_bit\<close>).\<close>

definition put_bit :: "nat \<Rightarrow> bool \<Rightarrow> u8 list \<Rightarrow> u8 list" where
  "put_bit n v d = d[n div 8 := (if v then Bit_Operations.set_bit (n mod 8) (d ! (n div 8))
     else unset_bit (n mod 8) (d ! (n div 8)))]"

definition set_bit :: "nat \<Rightarrow> u8 list \<Rightarrow> bool \<times> u8 list" where
  "set_bit n d = (map_bit d n, put_bit n True d)"

definition clear_bit :: "nat \<Rightarrow> u8 list \<Rightarrow> bool \<times> u8 list" where
  "clear_bit n d = (\<not> map_bit d n, put_bit n False d)"

definition find_first_zero :: "u8 list \<Rightarrow> nat" where
  "find_first_zero d = (case find_idx (\<lambda>n. \<not> map_bit d n) [0..<8192] of Some n \<Rightarrow> n | None \<Rightarrow> 8192)"

definition free_block :: "u16 \<Rightarrow> u16 \<Rightarrow> 'a fs_scheme \<Rightarrow> (unit, 'a fs_scheme) res" where
  "free_block dev block s =
     bind (get_super dev s) (\<lambda>sb s.
     case sb of
       None \<Rightarrow> Panic ''trying to free block on nonexistent device''
     | Some sb \<Rightarrow>
         let first = s_firstdatazone (sbl s sb) in
         if block < first \<or> s_nzones (sbl s sb) \<le> block then Panic ''trying to free block not in datazone''
         else
           let clear = (\<lambda>s.
             let k = nat (uint block - (uint first - 1)) in
             case s_zmap (sbl s sb) ! (k div 8192) of
               None \<Rightarrow> Fault ''zone map''
             | Some z \<Rightarrow>
                 case clear_bit (k mod 8192) (b_data (bf s z)) of (was_clear, d) \<Rightarrow>
                 if was_clear then Panic ''free_block: bit already cleared''
                 else Ok () (set_bf z (\<lambda>b. b\<lparr>b_data := d, b_dirt := True\<rparr>) s)) in
           bind (get_hash_table dev (ucast block) s) (\<lambda>bh s.
           case bh of
             None \<Rightarrow> clear s
           | Some bh \<Rightarrow>
               if b_count (bf s bh) \<noteq> 1 then Ok () s
               else bind (brelse (Some bh) (set_bf bh (\<lambda>b. b\<lparr>b_dirt := False, b_uptodate := False\<rparr>) s))
                      (\<lambda>_ s. clear s)))"

text \<open>The first of the map blocks that has a clear bit.\<close>

definition map_with_zero :: "nat option list \<Rightarrow> 'a fs_scheme \<Rightarrow> nat option" where
  "map_with_zero maps s =
     find_idx (\<lambda>p. case p of None \<Rightarrow> False | Some b \<Rightarrow> find_first_zero (b_data (bf s b)) < 8192) maps"

definition new_block :: "u16 \<Rightarrow> 'a fs_scheme \<Rightarrow> (u16, 'a fs_scheme) res" where
  "new_block dev s =
     bind (get_super dev s) (\<lambda>sb s.
     case sb of
       None \<Rightarrow> Panic ''trying to get new block from nonexistant device''
     | Some sb \<Rightarrow>
         case map_with_zero (s_zmap (sbl s sb)) s of
           None \<Rightarrow> Ok 0 s
         | Some i \<Rightarrow>
             let z = the (s_zmap (sbl s sb) ! i);
                 j = find_first_zero (b_data (bf s z)) in
             case set_bit j (b_data (bf s z)) of (was_set, d) \<Rightarrow>
             if was_set then Panic ''new_block: bit already set''
             else
               let s = set_bf z (\<lambda>b. b\<lparr>b_data := d, b_dirt := True\<rparr>) s;
                   j = int j + int i * 8192 + uint (s_firstdatazone (sbl s sb)) - 1 in
               if uint (s_nzones (sbl s sb)) \<le> j then Ok 0 s
               else
                 bind (getblk dev (of_int j) s) (\<lambda>bh s.
                 if b_count (bf s bh) \<noteq> 1 then Panic ''new block: count is != 1''
                 else
                   let s = set_bf bh (\<lambda>b. b\<lparr>b_uptodate := True, b_dirt := True\<rparr>) (clear_block bh s) in
                   bind (brelse (Some bh) s) (\<lambda>_ s. Ok (of_int j) s)))"

text \<open>\<open>memset(inode,0,sizeof(*inode))\<close>.\<close>

definition zero_inode :: m_inode where
  "zero_inode =
     \<lparr>i_mode = 0, i_uid = 0, i_size = 0, i_mtime = 0, i_gid = 0, i_nlinks = 0, i_zone = replicate 9 0,
      i_wait = None, i_atime = 0, i_ctime = 0, i_dev = 0, i_num = 0, i_count = 0, i_lock = False,
      i_dirt = False, i_pipe = False, i_mount = False, i_seek = False, i_update = False\<rparr>"

definition free_inode :: "nat option \<Rightarrow> 'a fs_scheme \<Rightarrow> (unit, 'a fs_scheme) res" where
  "free_inode p s =
     (case p of
        None \<Rightarrow> Ok () s
      | Some i \<Rightarrow>
          if i_dev (ino s i) = 0 then Ok () (set_ino i (\<lambda>_. zero_inode) s)
          else if 1 < i_count (ino s i) then Panic ''free_inode''
          else if i_nlinks (ino s i) \<noteq> 0 then Panic ''trying to free inode with links''
          else
            bind (get_super (i_dev (ino s i)) s) (\<lambda>sb s.
            case sb of
              None \<Rightarrow> Panic ''trying to free inode on nonexistent device''
            | Some sb \<Rightarrow>
                let n = i_num (ino s i) in
                if n < 1 \<or> s_ninodes (sbl s sb) < n then Panic ''trying to free inode 0 or nonexistant inode''
                else
                  case s_imap (sbl s sb) ! (unat n div 8192) of
                    None \<Rightarrow> Panic ''nonexistent imap in superblock''
                  | Some bh \<Rightarrow>
                      let s = set_bf bh (\<lambda>b. b\<lparr>b_data := snd (clear_bit (unat n mod 8192) (b_data b)), b_dirt := True\<rparr>) s in
                      Ok () (set_ino i (\<lambda>_. zero_inode) s)))"

subsection \<open>Bits\<close>

lemma put_bit_length [simp]: "length (put_bit n v d) = length d"
  by (simp add: put_bit_def)

lemma map_bit_put_bit:
  assumes "n div 8 < length d"
  shows "map_bit (put_bit n v d) m = (if m = n then v else map_bit d m)"
proof (cases "m div 8 = n div 8")
  case False
  then show ?thesis by (auto simp: map_bit_def put_bit_def)
next
  case True
  have "m = n \<longleftrightarrow> m mod 8 = n mod 8" using True by (metis div_mult_mod_eq)
  then show ?thesis
    using True assms by (auto simp: map_bit_def put_bit_def bit_set_bit_iff bit_unset_bit_iff)
qed

lemma find_first_zero_spec:
  "find_first_zero d = n \<Longrightarrow> n < 8192 \<Longrightarrow> \<not> map_bit d n \<and> (\<forall>m < n. map_bit d m)"
  by (auto simp: find_first_zero_def find_idx_Some_iff split: option.splits)

lemma find_first_zero_none: "find_first_zero d \<ge> 8192 \<longleftrightarrow> (\<forall>m < 8192. map_bit d m)"
  by (auto simp: find_first_zero_def find_idx_None_iff find_idx_Some_iff split: option.splits)

end
