(* ===== verification/Inode.thy ===== *)
theory Inode
  imports Bitmap
begin

text \<open>
  Inodes in memory, \<open>fs/inode.c\<close>, and \<open>fs/truncate.c\<close>: the map from file blocks to zones, taking and
  giving back inodes, and \<open>new_inode\<close> of \<open>fs/bitmap.c\<close>.
\<close>

definition S_IFMT :: u16 where "S_IFMT = 0xF000"
definition S_IFREG :: u16 where "S_IFREG = 0x8000"
definition S_IFBLK :: u16 where "S_IFBLK = 0x6000"
definition S_IFDIR :: u16 where "S_IFDIR = 0x4000"
definition S_IFCHR :: u16 where "S_IFCHR = 0x2000"
definition S_ISVTX :: u16 where "S_ISVTX = 0x200"
definition S_ISPRO :: u16 where "S_ISPRO = 0x3000"

definition S_ISREG :: "u16 \<Rightarrow> bool" where "S_ISREG m \<longleftrightarrow> m AND S_IFMT = S_IFREG"
definition S_ISDIR :: "u16 \<Rightarrow> bool" where "S_ISDIR m \<longleftrightarrow> m AND S_IFMT = S_IFDIR"
definition S_ISCHR :: "u16 \<Rightarrow> bool" where "S_ISCHR m \<longleftrightarrow> m AND S_IFMT = S_IFCHR"
definition S_ISBLK :: "u16 \<Rightarrow> bool" where "S_ISBLK m \<longleftrightarrow> m AND S_IFMT = S_IFBLK"
definition S_ISPROC :: "u16 \<Rightarrow> bool" where "S_ISPROC m \<longleftrightarrow> m AND S_IFMT = S_ISPRO"

lemmas S_IS_defs = S_ISREG_def S_ISDIR_def S_ISCHR_def S_ISBLK_def S_ISPROC_def S_IFMT_def
  S_IFREG_def S_IFBLK_def S_IFDIR_def S_IFCHR_def S_ISVTX_def S_ISPRO_def

fun invalidate_inodes :: "u16 \<Rightarrow> nat \<Rightarrow> nat \<Rightarrow> 'a fs_scheme \<Rightarrow> (unit, 'a fs_scheme) res" where
  "invalidate_inodes dev 0 i s = Ok () s"
| "invalidate_inodes dev (Suc n) i s =
     bind (wait_on_inode i s) (\<lambda>_ s.
     invalidate_inodes dev n (Suc i)
       (if i_dev (ino s i) = dev then set_ino i (\<lambda>x. x\<lparr>i_dev := 0, i_dirt := False\<rparr>) s else s))"

subsection \<open>\<open>_bmap\<close>\<close>

text \<open>A zone number kept in the inode.\<close>

definition bmap_zone :: "nat \<Rightarrow> nat \<Rightarrow> bool \<Rightarrow> 'a fs_scheme \<Rightarrow> (u16, 'a fs_scheme) res" where
  "bmap_zone i k create s =
     (if create \<and> i_zone (ino s i) ! k = 0 then
        bind (new_block (i_dev (ino s i)) s) (\<lambda>z s.
        let s = set_ino i (\<lambda>x. x\<lparr>i_zone := (i_zone x)[k := z]\<rparr>) s in
        Ok z (if z \<noteq> 0 then set_ino i (\<lambda>x. x\<lparr>i_ctime := now s, i_dirt := True\<rparr>) s else s))
      else Ok (i_zone (ino s i) ! k) s)"

text \<open>A zone number kept in an indirect block, at index \<open>k\<close>.\<close>

definition bmap_indirect :: "u16 \<Rightarrow> u16 \<Rightarrow> nat \<Rightarrow> bool \<Rightarrow> 'a fs_scheme \<Rightarrow> (u16, 'a fs_scheme) res" where
  "bmap_indirect dev block k create s =
     bind (bread dev (ucast block) s) (\<lambda>bh s.
     case bh of
       None \<Rightarrow> Ok 0 s
     | Some bh \<Rightarrow>
         let i = get16 (b_data (bf s bh)) (2 * k) in
         bind (if create \<and> i = 0 then
                 bind (new_block dev s) (\<lambda>i s.
                 Ok i (if i \<noteq> 0 then set_bf bh (\<lambda>b. b\<lparr>b_data := splice (b_data b) (2 * k) (put16 i), b_dirt := True\<rparr>) s
                       else s))
               else Ok i s) (\<lambda>i s.
         bind (brelse (Some bh) s) (\<lambda>_ s. Ok i s)))"

definition bmap_gen :: "nat \<Rightarrow> int \<Rightarrow> bool \<Rightarrow> 'a fs_scheme \<Rightarrow> (u16, 'a fs_scheme) res" where
  "bmap_gen i block create s =
     (if block < 0 then Panic ''_bmap: block<0''
      else if 7 + 512 + 512 * 512 \<le> block then Panic ''_bmap: block>big''
      else if block < 7 then bmap_zone i (nat block) create s
      else
        let block = block - 7 in
        if block < 512 then
          bind (bmap_zone i 7 create s) (\<lambda>z s.
          if z = 0 then Ok 0 s else bmap_indirect (i_dev (ino s i)) z (nat block) create s)
        else
          let block = block - 512 in
          bind (bmap_zone i 8 create s) (\<lambda>z s.
          if z = 0 then Ok 0 s
          else
            bind (bmap_indirect (i_dev (ino s i)) z (nat (block div 512)) create s) (\<lambda>z s.
            if z = 0 then Ok 0 s
            else bmap_indirect (i_dev (ino s i)) z (nat (block mod 512)) create s)))"

definition bmap :: "nat \<Rightarrow> int \<Rightarrow> 'a fs_scheme \<Rightarrow> (u16, 'a fs_scheme) res" where
  "bmap i block = bmap_gen i block False"

definition create_block :: "nat \<Rightarrow> int \<Rightarrow> 'a fs_scheme \<Rightarrow> (u16, 'a fs_scheme) res" where
  "create_block i block = bmap_gen i block True"

subsection \<open>Truncation\<close>

text \<open>The loop over the 512 entries of an indirect block that is held in buffer \<open>bh\<close>.\<close>

fun free_entries ::
    "(u16 \<Rightarrow> 'a fs_scheme \<Rightarrow> (unit, 'a fs_scheme) res) \<Rightarrow> nat \<Rightarrow> nat \<Rightarrow> nat \<Rightarrow> 'a fs_scheme \<Rightarrow>
     (unit, 'a fs_scheme) res" where
  "free_entries free 0 k bh s = Ok () s"
| "free_entries free (Suc n) k bh s =
     (let z = get16 (b_data (bf s bh)) (2 * k) in
      bind (if z \<noteq> 0 then free z s else Ok () s) (\<lambda>_ s. free_entries free n (Suc k) bh s))"

definition free_ind_gen ::
    "(u16 \<Rightarrow> 'a fs_scheme \<Rightarrow> (unit, 'a fs_scheme) res) \<Rightarrow> u16 \<Rightarrow> u16 \<Rightarrow> 'a fs_scheme \<Rightarrow>
     (unit, 'a fs_scheme) res" where
  "free_ind_gen free dev block s =
     (if block = 0 then Ok () s
      else
        bind (bread dev (ucast block) s) (\<lambda>bh s.
        bind (case bh of
                None \<Rightarrow> Ok () s
              | Some bh \<Rightarrow> bind (free_entries free 512 0 bh s) (\<lambda>_ s. brelse (Some bh) s)) (\<lambda>_ s.
        free_block dev block s)))"

definition free_ind :: "u16 \<Rightarrow> u16 \<Rightarrow> 'a fs_scheme \<Rightarrow> (unit, 'a fs_scheme) res" where
  "free_ind dev = free_ind_gen (free_block dev) dev"

definition free_dind :: "u16 \<Rightarrow> u16 \<Rightarrow> 'a fs_scheme \<Rightarrow> (unit, 'a fs_scheme) res" where
  "free_dind dev = free_ind_gen (free_ind dev) dev"

fun free_direct :: "nat \<Rightarrow> nat \<Rightarrow> nat \<Rightarrow> 'a fs_scheme \<Rightarrow> (unit, 'a fs_scheme) res" where
  "free_direct 0 k i s = Ok () s"
| "free_direct (Suc n) k i s =
     bind (if i_zone (ino s i) ! k \<noteq> 0
           then bind (free_block (i_dev (ino s i)) (i_zone (ino s i) ! k) s) (\<lambda>_ s.
             Ok () (set_ino i (\<lambda>x. x\<lparr>i_zone := (i_zone x)[k := 0]\<rparr>) s))
           else Ok () s) (\<lambda>_ s. free_direct n (Suc k) i s)"

definition truncate :: "nat \<Rightarrow> 'a fs_scheme \<Rightarrow> (unit, 'a fs_scheme) res" where
  "truncate i s =
     (if \<not> (S_ISREG (i_mode (ino s i)) \<or> S_ISDIR (i_mode (ino s i))) then Ok () s
      else
        bind (free_direct 7 0 i s) (\<lambda>_ s.
        bind (free_ind (i_dev (ino s i)) (i_zone (ino s i) ! 7) s) (\<lambda>_ s.
        bind (free_dind (i_dev (ino s i)) (i_zone (ino s i) ! 8) s) (\<lambda>_ s.
        Ok () (set_ino i (\<lambda>x. x\<lparr>i_zone := (i_zone x)[7 := 0, 8 := 0], i_size := 0, i_dirt := True,
          i_mtime := now s, i_ctime := now s\<rparr>) s)))))"

subsection \<open>Giving an inode back and taking one\<close>

text \<open>From the label \<open>repeat\<close> of \<open>iput\<close>; after \<open>write_inode\<close> the inode is clean.\<close>

fun iput_last :: "nat \<Rightarrow> nat \<Rightarrow> 'a fs_scheme \<Rightarrow> (unit, 'a fs_scheme) res" where
  "iput_last 0 i s = Hang"
| "iput_last (Suc fuel) i s =
     (if 1 < i_count (ino s i) then Ok () (set_ino i (\<lambda>x. x\<lparr>i_count := i_count x - 1\<rparr>) s)
      else if i_nlinks (ino s i) = 0 then bind (truncate i s) (\<lambda>_ s. free_inode (Some i) s)
      else if i_dirt (ino s i) then
        bind (write_inode i s) (\<lambda>_ s. bind (wait_on_inode i s) (\<lambda>_ s. iput_last fuel i s))
      else Ok () (set_ino i (\<lambda>x. x\<lparr>i_count := i_count x - 1\<rparr>) s))"

definition iput :: "nat option \<Rightarrow> 'a fs_scheme \<Rightarrow> (unit, 'a fs_scheme) res" where
  "iput p s =
     (case p of
        None \<Rightarrow> Ok () s
      | Some i \<Rightarrow>
          bind (wait_on_inode i s) (\<lambda>_ s.
          if i_count (ino s i) = 0 then Panic ''iput: trying to free free inode''
          else if i_pipe (ino s i) then
            case wake_up (i_wait (ino s i)) s of (q, s) \<Rightarrow>
            let s = set_ino i (\<lambda>x. x\<lparr>i_wait := q, i_count := i_count x - 1\<rparr>) s in
            if i_count (ino s i) \<noteq> 0 then Ok () s
            else bind (free_page (i_size (ino s i)) s) (\<lambda>_ s.
              Ok () (set_ino i (\<lambda>x. x\<lparr>i_count := 0, i_dirt := False, i_pipe := False\<rparr>) s))
          else if i_dev (ino s i) = 0 then Ok () (set_ino i (\<lambda>x. x\<lparr>i_count := i_count x - 1\<rparr>) s)
          else
            bind (if S_ISBLK (i_mode (ino s i))
                  then bind (sync_dev (i_zone (ino s i) ! 0) s) (\<lambda>_ s. wait_on_inode i s)
                  else Ok () s) (\<lambda>_ s.
            iput_last 2 i s)))"

text \<open>One round of the search of \<open>get_empty_inode\<close>, from the inode after \<open>last\<close>.\<close>

fun empty_scan :: "nat \<Rightarrow> nat \<Rightarrow> nat option \<Rightarrow> 'a fs_scheme \<Rightarrow> nat option \<times> nat" where
  "empty_scan 0 l best s = (best, l)"
| "empty_scan (Suc n) l best s =
     (let l = (if NR_INODE \<le> Suc l then 0 else Suc l) in
      if i_count (ino s l) = 0 then
        if \<not> i_dirt (ino s l) \<and> \<not> i_lock (ino s l) then (Some l, l)
        else empty_scan n l (Some l) s
      else empty_scan n l best s)"

fun clean_inode :: "nat \<Rightarrow> nat \<Rightarrow> 'a fs_scheme \<Rightarrow> (unit, 'a fs_scheme) res" where
  "clean_inode 0 i s = Hang"
| "clean_inode (Suc fuel) i s =
     (if i_dirt (ino s i)
      then bind (write_inode i s) (\<lambda>_ s. bind (wait_on_inode i s) (\<lambda>_ s. clean_inode fuel i s))
      else Ok () s)"

fun get_empty_loop :: "nat \<Rightarrow> 'a fs_scheme \<Rightarrow> (nat, 'a fs_scheme) res" where
  "get_empty_loop 0 s = Hang"
| "get_empty_loop (Suc fuel) s =
     (case empty_scan NR_INODE (last_inode s) None s of (p, l) \<Rightarrow>
      let s = s\<lparr>last_inode := l\<rparr> in
      case p of
        None \<Rightarrow> Panic ''No free inodes in mem''
      | Some i \<Rightarrow>
          bind (wait_on_inode i s) (\<lambda>_ s.
          bind (clean_inode fuel i s) (\<lambda>_ s.
          if i_count (ino s i) \<noteq> 0 then get_empty_loop fuel s
          else Ok i (set_ino i (\<lambda>_. zero_inode\<lparr>i_count := 1\<rparr>) s))))"

definition get_empty_inode :: "'a fs_scheme \<Rightarrow> (nat, 'a fs_scheme) res" where
  "get_empty_inode = get_empty_loop BUF_FUEL"

definition get_pipe_inode :: "'a fs_scheme \<Rightarrow> (nat option, 'a fs_scheme) res" where
  "get_pipe_inode s =
     bind (get_empty_inode s) (\<lambda>i s.
     bind (get_free_page s) (\<lambda>p s.
     let s = set_ino i (\<lambda>x. x\<lparr>i_size := p\<rparr>) s in
     if p = 0 then Ok None (set_ino i (\<lambda>x. x\<lparr>i_count := 0\<rparr>) s)
     else Ok (Some i) (set_ino i (\<lambda>x. x\<lparr>i_count := 2, i_zone := (i_zone x)[0 := 0, 1 := 0], i_pipe := True\<rparr>) s)))"

definition read_inode :: "nat \<Rightarrow> 'a fs_scheme \<Rightarrow> (unit, 'a fs_scheme) res" where
  "read_inode i s =
     bind (lock_inode i s) (\<lambda>_ s.
     bind (get_super (i_dev (ino s i)) s) (\<lambda>sb s.
     case sb of
       None \<Rightarrow> Panic ''trying to read inode without dev''
     | Some sb \<Rightarrow>
         bind (bread (i_dev (ino s i)) (inode_block (sbl s sb) (i_num (ino s i))) s) (\<lambda>bh s.
         case bh of
           None \<Rightarrow> Panic ''unable to read i-node block''
         | Some bh \<Rightarrow>
             let d = bytes_d_inode (take 32 (drop (inode_offset (i_num (ino s i))) (b_data (bf s bh))));
                 s = set_ino i (\<lambda>x. d_inode.extend d (d_inode.more x)) s in
             bind (brelse (Some bh) s) (\<lambda>_ s. Ok () (unlock_inode i s)))))"

text \<open>The search of \<open>iget\<close> goes round again, for the root of the mounted device, at a mount point.\<close>

fun iget_loop :: "nat \<Rightarrow> u16 \<Rightarrow> u16 \<Rightarrow> nat \<Rightarrow> 'a fs_scheme \<Rightarrow> (nat, 'a fs_scheme) res" where
  "iget_loop 0 dev nr emp s = Hang"
| "iget_loop (Suc fuel) dev nr emp s =
     (case find_idx (\<lambda>x. i_dev x = dev \<and> i_num x = nr) (inode_table s) of
        None \<Rightarrow>
          bind (read_inode emp (set_ino emp (\<lambda>x. x\<lparr>i_dev := dev, i_num := nr\<rparr>) s)) (\<lambda>_ s. Ok emp s)
      | Some i \<Rightarrow>
          bind (wait_on_inode i s) (\<lambda>_ s.
          let s = set_ino i (\<lambda>x. x\<lparr>i_count := i_count x + 1\<rparr>) s in
          if i_mount (ino s i) then
            case find_idx (\<lambda>x. s_imount x = Some i) (super_blocks s) of
              None \<Rightarrow> bind (iput (Some emp) s) (\<lambda>_ s. Ok i s)
            | Some k \<Rightarrow>
                bind (iput (Some i) s) (\<lambda>_ s. iget_loop fuel (s_dev (sbl s k)) ROOT_INO emp s)
          else bind (iput (Some emp) s) (\<lambda>_ s. Ok i s)))"

text \<open>Mounts can be stacked at most once per super block.\<close>

definition iget :: "u16 \<Rightarrow> u16 \<Rightarrow> 'a fs_scheme \<Rightarrow> (nat, 'a fs_scheme) res" where
  "iget dev nr s =
     (if dev = 0 then Panic ''iget with dev==0''
      else bind (get_empty_inode s) (\<lambda>emp s. iget_loop (NR_SUPER + 2) dev nr emp s))"

definition new_inode :: "u16 \<Rightarrow> 'a fs_scheme \<Rightarrow> (nat option, 'a fs_scheme) res" where
  "new_inode dev s =
     bind (get_empty_inode s) (\<lambda>inode s.
     bind (get_super dev s) (\<lambda>sb s.
     case sb of
       None \<Rightarrow> Panic ''new_inode with unknown device''
     | Some sb \<Rightarrow>
         let full = (\<lambda>s. bind (iput (Some inode) s) (\<lambda>_ s. Ok None s)) in
         case map_with_zero (s_imap (sbl s sb)) s of
           None \<Rightarrow> full s
         | Some i \<Rightarrow>
             let bh = the (s_imap (sbl s sb) ! i); j = find_first_zero (b_data (bf s bh)) in
             if unat (s_ninodes (sbl s sb)) < j + i * 8192 then full s
             else
               case set_bit j (b_data (bf s bh)) of (was_set, d) \<Rightarrow>
               if was_set then Panic ''new_inode: bit already set''
               else
                 let s = set_bf bh (\<lambda>b. b\<lparr>b_data := d, b_dirt := True\<rparr>) s in
                 Ok (Some inode) (set_ino inode (\<lambda>x. x\<lparr>i_count := 1, i_nlinks := 1, i_dev := dev,
                     i_uid := euid (cur s), i_gid := ucast (egid (cur s)), i_dirt := True,
                     i_num := of_nat (j + i * 8192), i_mtime := now s, i_atime := now s, i_ctime := now s\<rparr>) s)))"

end
