(* ===== verification/Super.thy ===== *)
theory Super
  imports Inode
begin

text \<open>
  Super blocks, \<open>fs/super.c\<close>, and \<open>check_disk_change\<close> of \<open>fs/buffer.c\<close>. The system calls \<open>mount\<close>
  and \<open>umount\<close> and \<open>mount_root\<close> are in the theory of mounting, as they need path names and the
  console.
\<close>

definition lock_super :: "nat \<Rightarrow> 'a fs_scheme \<Rightarrow> (unit, 'a fs_scheme) res" where
  "lock_super i s = bind (wait_on_super i s) (\<lambda>_ s. Ok () (set_sb i (\<lambda>x. x\<lparr>s_lock := True\<rparr>) s))"

definition free_super :: "nat \<Rightarrow> 'a fs_scheme \<Rightarrow> 'a fs_scheme" where
  "free_super i s =
     (let s = set_sb i (\<lambda>x. x\<lparr>s_lock := False\<rparr>) s in
      case wake_up (s_wait (sbl s i)) s of (q, s) \<Rightarrow> set_sb i (\<lambda>x. x\<lparr>s_wait := q\<rparr>) s)"

text \<open>The loops that release the map blocks; \<open>maps\<close> reads the array of the super block.\<close>

fun brelse_maps ::
    "nat \<Rightarrow> nat \<Rightarrow> (super_block \<Rightarrow> nat option list) \<Rightarrow> nat \<Rightarrow> 'a fs_scheme \<Rightarrow> (unit, 'a fs_scheme) res" where
  "brelse_maps 0 k maps i s = Ok () s"
| "brelse_maps (Suc n) k maps i s =
     bind (brelse (maps (sbl s i) ! k) s) (\<lambda>_ s. brelse_maps n (Suc k) maps i s)"

definition put_super :: "u16 \<Rightarrow> 'a fs_scheme \<Rightarrow> (unit, 'a fs_scheme) res" where
  "put_super dev s =
     (if dev = ROOT_DEV s then Ok () s
      else
        bind (get_super dev s) (\<lambda>sb s.
        case sb of
          None \<Rightarrow> Ok () s
        | Some i \<Rightarrow>
            if s_imount (sbl s i) \<noteq> None then Ok () s
            else
              bind (lock_super i s) (\<lambda>_ s.
              let s = set_sb i (\<lambda>x. x\<lparr>s_dev := 0\<rparr>) s in
              bind (brelse_maps I_MAP_SLOTS 0 s_imap i s) (\<lambda>_ s.
              bind (brelse_maps Z_MAP_SLOTS 0 s_zmap i s) (\<lambda>_ s.
              Ok () (free_super i s))))))"

fun put_supers :: "u16 \<Rightarrow> nat \<Rightarrow> nat \<Rightarrow> 'a fs_scheme \<Rightarrow> (unit, 'a fs_scheme) res" where
  "put_supers dev 0 i s = Ok () s"
| "put_supers dev (Suc n) i s =
     bind (if s_dev (sbl s i) = dev then put_super (s_dev (sbl s i)) s else Ok () s)
       (\<lambda>_ s. put_supers dev n (Suc i) s)"

definition check_disk_change :: "u16 \<Rightarrow> 'a fs_scheme \<Rightarrow> (unit, 'a fs_scheme) res" where
  "check_disk_change dev s =
     (if MAJOR dev \<noteq> 2 then Ok () s
      else if \<not> floppy_change s (unat (dev AND 3)) then Ok () s
      else
        bind (put_supers dev NR_SUPER 0 s) (\<lambda>_ s.
        bind (invalidate_inodes dev NR_INODE 0 s) (\<lambda>_ s.
        invalidate_buffers dev (length (buffers s)) 0 s)))"

text \<open>The super block on disk, 20 bytes, at the start of block 1.\<close>

definition bytes_d_super :: "u8 list \<Rightarrow> d_super_block" where
  "bytes_d_super d =
     \<lparr>s_ninodes = get16 d 0, s_nzones = get16 d 2, s_imap_blocks = get16 d 4, s_zmap_blocks = get16 d 6,
      s_firstdatazone = get16 d 8, s_log_zone_size = get16 d 10, s_max_size = get32 d 12,
      s_magic = get16 d 16\<rparr>"

text \<open>
  Reading \<open>n\<close> map blocks into an array of the super block through \<open>put\<close>; the code does not compare
  the number of map blocks with the eight slots.
\<close>

fun read_maps ::
    "nat \<Rightarrow> nat \<Rightarrow> (nat \<Rightarrow> nat option \<Rightarrow> super_block \<Rightarrow> super_block) \<Rightarrow> nat \<Rightarrow> u16 \<Rightarrow> u32 \<Rightarrow> 'a fs_scheme \<Rightarrow>
     (u32, 'a fs_scheme) res" where
  "read_maps 0 k put i dev block s = Ok block s"
| "read_maps (Suc n) k put i dev block s =
     bind (bread dev block s) (\<lambda>bh s.
     if 8 \<le> k then Fault ''map slots''
     else
       let s = set_sb i (put k bh) s in
       case bh of
         None \<Rightarrow> Ok block s
       | Some _ \<Rightarrow> read_maps n (Suc k) put i dev (block + 1) s)"

definition put_imap :: "nat \<Rightarrow> nat option \<Rightarrow> super_block \<Rightarrow> super_block" where
  "put_imap k p x = x\<lparr>s_imap := (s_imap x)[k := p]\<rparr>"

definition put_zmap :: "nat \<Rightarrow> nat option \<Rightarrow> super_block \<Rightarrow> super_block" where
  "put_zmap k p x = x\<lparr>s_zmap := (s_zmap x)[k := p]\<rparr>"

text \<open>\<open>b_data[0] |= 1\<close> through a map pointer.\<close>

definition mark_first :: "nat option \<Rightarrow> 'a fs_scheme \<Rightarrow> (unit, 'a fs_scheme) res" where
  "mark_first p s =
     (case p of
        None \<Rightarrow> Fault ''null map''
      | Some b \<Rightarrow> Ok () (set_bf b (\<lambda>x. x\<lparr>b_data := (b_data x)[0 := b_data x ! 0 OR 1]\<rparr>) s))"

text \<open>The device number of a super block that could not be read is cleared again.\<close>

definition drop_super :: "nat \<Rightarrow> 'a fs_scheme \<Rightarrow> (nat option, 'a fs_scheme) res" where
  "drop_super i s = Ok None (free_super i (set_sb i (\<lambda>x. x\<lparr>s_dev := 0\<rparr>) s))"

definition fill_super :: "nat \<Rightarrow> u16 \<Rightarrow> nat \<Rightarrow> 'a fs_scheme \<Rightarrow> (nat option, 'a fs_scheme) res" where
  "fill_super i dev bh s =
     (let s = set_sb i (\<lambda>x. d_super_block.extend (bytes_d_super (b_data (bf s bh))) (d_super_block.more x)) s in
      bind (brelse (Some bh) s) (\<lambda>_ s.
      if s_magic (sbl s i) \<noteq> SUPER_MAGIC then drop_super i s
      else
        let s = set_sb i (\<lambda>x. x\<lparr>s_imap := replicate 8 None, s_zmap := replicate 8 None\<rparr>) s;
            ni = unat (s_imap_blocks (sbl s i)); nz = unat (s_zmap_blocks (sbl s i)) in
        bind (read_maps ni 0 put_imap i dev 2 s) (\<lambda>block s.
        bind (read_maps nz 0 put_zmap i dev block s) (\<lambda>block s.
        if unat block \<noteq> 2 + ni + nz then
          bind (brelse_maps I_MAP_SLOTS 0 s_imap i s) (\<lambda>_ s.
          bind (brelse_maps Z_MAP_SLOTS 0 s_zmap i s) (\<lambda>_ s.
          drop_super i s))
        else
          bind (mark_first (s_imap (sbl s i) ! 0) s) (\<lambda>_ s.
          bind (mark_first (s_zmap (sbl s i) ! 0) s) (\<lambda>_ s.
          Ok (Some i) (free_super i s)))))))"

definition read_super :: "u16 \<Rightarrow> 'a fs_scheme \<Rightarrow> (nat option, 'a fs_scheme) res" where
  "read_super dev s =
     (if dev = 0 then Ok None s
      else
        bind (check_disk_change dev s) (\<lambda>_ s.
        bind (get_super dev s) (\<lambda>sb s.
        case sb of
          Some i \<Rightarrow> Ok (Some i) s
        | None \<Rightarrow>
            case find_idx (\<lambda>x. s_dev x = 0) (super_blocks s) of
              None \<Rightarrow> Ok None s
            | Some i \<Rightarrow>
                let s = set_sb i (\<lambda>x. x\<lparr>s_dev := dev, s_isup := None, s_imount := None, s_time := 0,
                          s_rd_only := False, s_dirt := False\<rparr>) s in
                bind (lock_super i s) (\<lambda>_ s.
                bind (bread dev 1 s) (\<lambda>bh s.
                case bh of
                  None \<Rightarrow> drop_super i s
                | Some bh \<Rightarrow> fill_super i dev bh s)))))"

end
