(* ===== verification/Console.thy ===== *)
theory Console
  imports Super
begin

text \<open>
  The console, \<open>kernel/chr_drv/console.c\<close>. Its static variables, the video memory and the bytes sent
  to the ports are the record \<open>con\<close>. The video memory is an array of 16-bit cells at even addresses;
  \<open>port_in\<close> is what a read of a port gives, and \<open>port_out\<close> lists the port writes, the last one first.
  Interrupt gates are left out.
\<close>

record con =
  video_type :: u8
  video_num_columns :: u32
  video_size_row :: u32
  video_num_lines :: u32
  video_page :: u8
  video_mem_start :: u32
  video_mem_end :: u32
  video_port_reg :: u16
  video_port_val :: u16
  video_erase_char :: u16
  origin :: u32
  scr_end :: u32
  cpos :: u32
  cx :: u32
  cy :: u32
  c_top :: u32
  c_bottom :: u32
  c_state :: nat
  npar :: nat
  par :: "u32 list"
  ques :: bool
  c_attr :: u8
  saved_x :: u32
  saved_y :: u32
  beepcount :: int
  vram :: "u32 \<Rightarrow> u16"
  port_in :: "u16 \<Rightarrow> u8"
  port_out :: "(u8 \<times> u16) list"

definition VIDEO_TYPE_MDA :: u8 where "VIDEO_TYPE_MDA = 0x10"
definition VIDEO_TYPE_CGA :: u8 where "VIDEO_TYPE_CGA = 0x11"
definition VIDEO_TYPE_EGAM :: u8 where "VIDEO_TYPE_EGAM = 0x20"
definition VIDEO_TYPE_EGAC :: u8 where "VIDEO_TYPE_EGAC = 0x21"
definition NPAR :: nat where "NPAR = 16"

definition outb :: "u8 \<Rightarrow> u16 \<Rightarrow> con \<Rightarrow> con" where
  "outb v p c = c\<lparr>port_out := (v, p) # port_out c\<rparr>"

subsection \<open>The string instructions on cells\<close>

fun stosw :: "nat \<Rightarrow> u32 \<Rightarrow> u16 \<Rightarrow> (u32 \<Rightarrow> u16) \<Rightarrow> (u32 \<Rightarrow> u16)" where
  "stosw 0 d v m = m"
| "stosw (Suc n) d v m = stosw n (d + 2) v (m(d := v))"

fun stosw_down :: "nat \<Rightarrow> u32 \<Rightarrow> u16 \<Rightarrow> (u32 \<Rightarrow> u16) \<Rightarrow> (u32 \<Rightarrow> u16)" where
  "stosw_down 0 d v m = m"
| "stosw_down (Suc n) d v m = stosw_down n (d - 2) v (m(d := v))"

fun movsl :: "nat \<Rightarrow> u32 \<Rightarrow> u32 \<Rightarrow> (u32 \<Rightarrow> u16) \<Rightarrow> (u32 \<Rightarrow> u16)" where
  "movsl 0 src d m = m"
| "movsl (Suc n) src d m = movsl n (src + 4) (d + 4) (m(d := m src, d + 2 := m (src + 2)))"

fun movsl_down :: "nat \<Rightarrow> u32 \<Rightarrow> u32 \<Rightarrow> (u32 \<Rightarrow> u16) \<Rightarrow> (u32 \<Rightarrow> u16)" where
  "movsl_down 0 src d m = m"
| "movsl_down (Suc n) src d m = movsl_down n (src - 4) (d - 4) (m(d := m src, d + 2 := m (src + 2)))"

subsection \<open>Cursor and scrolling\<close>

definition gotoxy :: "u32 \<Rightarrow> u32 \<Rightarrow> con \<Rightarrow> con" where
  "gotoxy new_x new_y c =
     (if video_num_columns c < new_x \<or> video_num_lines c \<le> new_y then c
      else c\<lparr>cx := new_x, cy := new_y, cpos := origin c + new_y * video_size_row c + push_bit 1 new_x\<rparr>)"

definition set_reg :: "u8 \<Rightarrow> u32 \<Rightarrow> con \<Rightarrow> con" where
  "set_reg r a c =
     outb (ucast (drop_bit 1 (a - video_mem_start c))) (video_port_val c)
       (outb (r + 1) (video_port_reg c)
         (outb (ucast (drop_bit 9 (a - video_mem_start c))) (video_port_val c)
           (outb r (video_port_reg c) c)))"

definition set_origin :: "con \<Rightarrow> con" where
  "set_origin c = set_reg 12 (origin c) c"

definition set_cursor :: "con \<Rightarrow> con" where
  "set_cursor c = set_reg 14 (cpos c) c"

definition ega :: "con \<Rightarrow> bool" where
  "ega c \<longleftrightarrow> video_type c = VIDEO_TYPE_EGAC \<or> video_type c = VIDEO_TYPE_EGAM"

text \<open>Moving the lines of the scroll region up or down by one and erasing the one that is left.\<close>

definition region_count :: "con \<Rightarrow> nat" where
  "region_count c = unat (drop_bit 1 ((c_bottom c - c_top c - 1) * video_num_columns c))"

definition move_up :: "con \<Rightarrow> con" where
  "move_up c =
     (let d = origin c + video_size_row c * c_top c;
          src = origin c + video_size_row c * (c_top c + 1); n = region_count c in
      c\<lparr>vram := stosw (unat (video_num_columns c)) (d + 4 * of_nat n) (video_erase_char c)
          (movsl n src d (vram c))\<rparr>)"

definition move_down :: "con \<Rightarrow> con" where
  "move_down c =
     (let d = origin c + video_size_row c * c_bottom c - 4;
          src = origin c + video_size_row c * (c_bottom c - 1) - 4; n = region_count c in
      c\<lparr>vram := stosw_down (unat (video_num_columns c)) (d - 4 * of_nat n + 2) (video_erase_char c)
          (movsl_down n src d (vram c))\<rparr>)"

definition scrup :: "con \<Rightarrow> con" where
  "scrup c =
     (if ega c then
        if c_top c = 0 \<and> c_bottom c = video_num_lines c then
          let c = c\<lparr>origin := origin c + video_size_row c, cpos := cpos c + video_size_row c,
                scr_end := scr_end c + video_size_row c\<rparr> in
          if video_mem_end c < scr_end c then
            let n = unat (drop_bit 1 ((video_num_lines c - 1) * video_num_columns c));
                c = c\<lparr>vram := stosw (unat (video_num_columns c)) (video_mem_start c + 4 * of_nat n)
                      (video_erase_char c) (movsl n (origin c) (video_mem_start c) (vram c))\<rparr>;
                k = origin c - video_mem_start c in
            set_origin (c\<lparr>scr_end := scr_end c - k, cpos := cpos c - k, origin := video_mem_start c\<rparr>)
          else
            set_origin (c\<lparr>vram := stosw (unat (video_num_columns c)) (scr_end c - video_size_row c)
              (video_erase_char c) (vram c)\<rparr>)
        else move_up c
      else move_up c)"

definition scrdown :: "con \<Rightarrow> con" where
  "scrdown c = (if ega c then move_down c else move_down c)"

definition lf :: "con \<Rightarrow> con" where
  "lf c = (if cy c + 1 < c_bottom c then c\<lparr>cy := cy c + 1, cpos := cpos c + video_size_row c\<rparr>
           else scrup c)"

definition ri :: "con \<Rightarrow> con" where
  "ri c = (if c_top c < cy c then c\<lparr>cy := cy c - 1, cpos := cpos c - video_size_row c\<rparr> else scrdown c)"

definition cr :: "con \<Rightarrow> con" where
  "cr c = c\<lparr>cpos := cpos c - push_bit 1 (cx c), cx := 0\<rparr>"

definition del :: "con \<Rightarrow> con" where
  "del c =
     (if cx c \<noteq> 0
      then c\<lparr>cpos := cpos c - 2, cx := cx c - 1, vram := (vram c)(cpos c - 2 := video_erase_char c)\<rparr>
      else c)"

subsection \<open>The control sequences\<close>

definition csi_J :: "u32 \<Rightarrow> con \<Rightarrow> con" where
  "csi_J p c =
     (let erase = (\<lambda>count start. c\<lparr>vram := stosw (unat count) start (video_erase_char c) (vram c)\<rparr>) in
      if p = 0 then erase (drop_bit 1 (scr_end c - cpos c)) (cpos c)
      else if p = 1 then erase (drop_bit 1 (cpos c - origin c)) (origin c)
      else if p = 2 then erase (video_num_columns c * video_num_lines c) (origin c)
      else c)"

definition csi_K :: "u32 \<Rightarrow> con \<Rightarrow> con" where
  "csi_K p c =
     (let erase = (\<lambda>count start. c\<lparr>vram := stosw (unat count) start (video_erase_char c) (vram c)\<rparr>) in
      if p = 0 then
        if video_num_columns c \<le> cx c then c else erase (video_num_columns c - cx c) (cpos c)
      else if p = 1 then
        erase (if cx c < video_num_columns c then cx c else video_num_columns c) (cpos c - push_bit 1 (cx c))
      else if p = 2 then erase (video_num_columns c) (cpos c - push_bit 1 (cx c))
      else c)"

definition attr_of :: "u32 \<Rightarrow> u8 \<Rightarrow> u8" where
  "attr_of p a =
     (if p = 0 then 0x07 else if p = 1 then 0x0F else if p = 4 then 0x0F
      else if p = 7 then 0x70 else if p = 27 then 0x07 else a)"

definition csi_m :: "con \<Rightarrow> con" where
  "csi_m c = c\<lparr>c_attr := fold attr_of (take (Suc (npar c)) (par c)) (c_attr c)\<rparr>"

fun shift_right :: "nat \<Rightarrow> u32 \<Rightarrow> u16 \<Rightarrow> (u32 \<Rightarrow> u16) \<Rightarrow> (u32 \<Rightarrow> u16)" where
  "shift_right 0 p old m = m"
| "shift_right (Suc n) p old m = shift_right n (p + 2) (m p) (m(p := old))"

text \<open>\<open>int i = x; while (i++ < video_num_columns)\<close>, where the comparison is unsigned.\<close>

definition insert_char :: "con \<Rightarrow> con" where
  "insert_char c =
     c\<lparr>vram := shift_right (unat (video_num_columns c) - unat (cx c)) (cpos c) (video_erase_char c) (vram c)\<rparr>"

fun shift_left :: "nat \<Rightarrow> u32 \<Rightarrow> (u32 \<Rightarrow> u16) \<Rightarrow> (u32 \<Rightarrow> u16)" where
  "shift_left 0 p m = m"
| "shift_left (Suc n) p m = shift_left n (p + 2) (m(p := m (p + 2)))"

definition delete_char :: "con \<Rightarrow> con" where
  "delete_char c =
     (if video_num_columns c \<le> cx c then c
      else
        let n = unat (video_num_columns c) - unat (cx c) - 1 in
        c\<lparr>vram := (shift_left n (cpos c) (vram c))(cpos c + 2 * of_nat n := video_erase_char c)\<rparr>)"

definition insert_line :: "con \<Rightarrow> con" where
  "insert_line c =
     (scrdown (c\<lparr>c_top := cy c, c_bottom := video_num_lines c\<rparr>))\<lparr>c_top := c_top c, c_bottom := c_bottom c\<rparr>"

definition delete_line :: "con \<Rightarrow> con" where
  "delete_line c =
     (scrup (c\<lparr>c_top := cy c, c_bottom := video_num_lines c\<rparr>))\<lparr>c_top := c_top c, c_bottom := c_bottom c\<rparr>"

definition clamp :: "u32 \<Rightarrow> u32 \<Rightarrow> nat" where
  "clamp nr m = (if m < nr then unat m else if nr = 0 then 1 else unat nr)"

definition csi_at :: "u32 \<Rightarrow> con \<Rightarrow> con" where
  "csi_at nr c = (insert_char ^^ clamp nr (video_num_columns c)) c"

definition csi_L :: "u32 \<Rightarrow> con \<Rightarrow> con" where
  "csi_L nr c = (insert_line ^^ clamp nr (video_num_lines c)) c"

definition csi_P :: "u32 \<Rightarrow> con \<Rightarrow> con" where
  "csi_P nr c = (delete_char ^^ clamp nr (video_num_columns c)) c"

definition csi_M :: "u32 \<Rightarrow> con \<Rightarrow> con" where
  "csi_M nr c = (delete_line ^^ clamp nr (video_num_lines c)) c"

definition save_cur :: "con \<Rightarrow> con" where
  "save_cur c = c\<lparr>saved_x := cx c, saved_y := cy c\<rparr>"

definition restore_cur :: "con \<Rightarrow> con" where
  "restore_cur c = gotoxy (saved_x c) (saved_y c) c"

definition sysbeep :: "con \<Rightarrow> con" where
  "sysbeep c =
     (outb 0x06 0x42 (outb 0x37 0x42 (outb 0xB6 0x43 (outb (port_in c 0x61 OR 3) 0x61 c))))
       \<lparr>beepcount := HZ div 8\<rparr>"

definition sysbeepstop :: "con \<Rightarrow> con" where
  "sysbeepstop c = outb (port_in c 0x61 AND 0xFC) 0x61 c"

subsection \<open>One character\<close>

text \<open>
  The four states of \<open>con_write\<close>. The result says whether the terminal has to respond. In state 1 the
  code compares \<open>x\<close>, the column, with the characters 7 and 8.
\<close>

definition show_char :: "u8 \<Rightarrow> con \<Rightarrow> con" where
  "show_char ch c =
     (let c = (if video_num_columns c \<le> cx c
               then lf (c\<lparr>cx := cx c - video_num_columns c, cpos := cpos c - video_size_row c\<rparr>) else c) in
      c\<lparr>vram := (vram c)(cpos c := push_bit 8 (ucast (c_attr c)) OR ucast ch), cpos := cpos c + 2,
        cx := cx c + 1\<rparr>)"

definition tab :: "con \<Rightarrow> con" where
  "tab c =
     (let k = 8 - (cx c AND 7); c = c\<lparr>cx := cx c + k, cpos := cpos c + push_bit 1 k\<rparr> in
      if video_num_columns c < cx c
      then lf (c\<lparr>cx := cx c - video_num_columns c, cpos := cpos c - video_size_row c\<rparr>) else c)"

definition con_plain :: "u8 \<Rightarrow> u8 \<Rightarrow> con \<Rightarrow> con" where
  "con_plain erase ch c =
     (if 31 < sint ch \<and> sint ch < 127 then show_char ch c
      else if ch = 27 then c\<lparr>c_state := 1\<rparr>
      else if ch = 10 \<or> ch = 11 \<or> ch = 12 then lf c
      else if ch = 13 then cr c
      else if sint ch = uint erase then del c
      else if ch = 8 then (if cx c \<noteq> 0 then c\<lparr>cx := cx c - 1, cpos := cpos c - 2\<rparr> else c)
      else if ch = 9 then tab c
      else if ch = 7 then sysbeep c
      else c)"

definition con_esc :: "u8 \<Rightarrow> con \<Rightarrow> con \<times> bool" where
  "con_esc ch c =
     (let c = c\<lparr>c_state := 0\<rparr> in
      if ch = 0x5B then (c\<lparr>c_state := 2\<rparr>, False)
      else if ch = 0x45 then (gotoxy 0 (cy c + 1) c, False)
      else if ch = 0x4D then (ri c, False)
      else if ch = 0x44 then (lf c, False)
      else if ch = 0x5A then (c, True)
      else if cx c = 0x37 then (save_cur c, False)
      else if cx c = 0x38 then (restore_cur c, False)
      else (c, False))"

definition set_par :: "nat \<Rightarrow> (u32 \<Rightarrow> u32) \<Rightarrow> con \<Rightarrow> con" where
  "set_par k f c = c\<lparr>par := (par c)[k := f (par c ! k)]\<rparr>"

definition dec_par :: "nat \<Rightarrow> con \<Rightarrow> con" where
  "dec_par k = set_par k (\<lambda>p. if p \<noteq> 0 then p - 1 else p)"

definition one_par :: "nat \<Rightarrow> con \<Rightarrow> con" where
  "one_par k = set_par k (\<lambda>p. if p = 0 then p + 1 else p)"

definition set_region :: "con \<Rightarrow> con" where
  "set_region c =
     (let c = dec_par 0 c;
          c = set_par 1 (\<lambda>p. if p = 0 then video_num_lines c else p) c in
      if par c ! 0 < par c ! 1 \<and> par c ! 1 \<le> video_num_lines c
      then c\<lparr>c_top := par c ! 0, c_bottom := par c ! 1\<rparr> else c)"

definition con_final :: "u8 \<Rightarrow> con \<Rightarrow> con" where
  "con_final ch c =
     (if ch = 0x47 \<or> ch = 0x60 then (let c = dec_par 0 c in gotoxy (par c ! 0) (cy c) c)
      else if ch = 0x41 then (let c = one_par 0 c in gotoxy (cx c) (cy c - par c ! 0) c)
      else if ch = 0x42 \<or> ch = 0x65 then (let c = one_par 0 c in gotoxy (cx c) (cy c + par c ! 0) c)
      else if ch = 0x43 \<or> ch = 0x61 then (let c = one_par 0 c in gotoxy (cx c + par c ! 0) (cy c) c)
      else if ch = 0x44 then (let c = one_par 0 c in gotoxy (cx c - par c ! 0) (cy c) c)
      else if ch = 0x45 then (let c = one_par 0 c in gotoxy 0 (cy c + par c ! 0) c)
      else if ch = 0x46 then (let c = one_par 0 c in gotoxy 0 (cy c - par c ! 0) c)
      else if ch = 0x64 then (let c = dec_par 0 c in gotoxy (cx c) (par c ! 0) c)
      else if ch = 0x48 \<or> ch = 0x66 then
        (let c = dec_par 1 (dec_par 0 c) in gotoxy (par c ! 1) (par c ! 0) c)
      else if ch = 0x4A then csi_J (par c ! 0) c
      else if ch = 0x4B then csi_K (par c ! 0) c
      else if ch = 0x4C then csi_L (par c ! 0) c
      else if ch = 0x4D then csi_M (par c ! 0) c
      else if ch = 0x50 then csi_P (par c ! 0) c
      else if ch = 0x40 then csi_at (par c ! 0) c
      else if ch = 0x6D then csi_m c
      else if ch = 0x72 then set_region c
      else if ch = 0x73 then save_cur c
      else if ch = 0x75 then restore_cur c
      else c)"

definition con_par :: "u8 \<Rightarrow> con \<Rightarrow> con" where
  "con_par ch c =
     (if ch = 0x3B \<and> npar c < NPAR - 1 then c\<lparr>npar := npar c + 1\<rparr>
      else if 0x30 \<le> sint ch \<and> sint ch \<le> 0x39 then
        set_par (npar c) (\<lambda>p. 10 * p + ucast ch - 0x30) c
      else con_final ch (c\<lparr>c_state := 0\<rparr>))"

definition con_char :: "u8 \<Rightarrow> u8 \<Rightarrow> con \<Rightarrow> con \<times> bool" where
  "con_char erase ch c =
     (if c_state c = 0 then (con_plain erase ch c, False)
      else if c_state c = 1 then con_esc ch c
      else if c_state c = 2 then
        let c = c\<lparr>par := replicate NPAR 0, npar := 0, c_state := 3, ques := (ch = 0x3F)\<rparr> in
        (if ques c then c else con_par ch c, False)
      else if c_state c = 3 then (con_par ch c, False)
      else (con_final ch (c\<lparr>c_state := 0\<rparr>), False))"

subsection \<open>Initialisation\<close>

text \<open>What \<open>setup.s\<close> has left in memory at \<open>0x90000\<close>.\<close>

record setup_info =
  ORIG_X :: u8
  ORIG_Y :: u8
  ORIG_VIDEO_PAGE :: u16
  ORIG_VIDEO_MODE_COLS :: u16
  ORIG_VIDEO_EGA_BX :: u16

definition con_init :: "setup_info \<Rightarrow> con \<Rightarrow> con" where
  "con_init b c =
     (let cols = ucast (drop_bit 8 (ORIG_VIDEO_MODE_COLS b AND 0xFF00)) :: u32;
          mono = (ORIG_VIDEO_MODE_COLS b AND 0xFF = 7);
          is_ega = (ORIG_VIDEO_EGA_BX b AND 0xFF \<noteq> 0x10);
          start = (if mono then 0xB0000 else 0xB8000);
          desc = (if mono then if is_ega then [0x45, 0x47, 0x41, 0x6D] else [0x2A, 0x4D, 0x44, 0x41]
                  else if is_ega then [0x45, 0x47, 0x41, 0x63] else [0x2A, 0x43, 0x47, 0x41]);
          c = c\<lparr>video_num_columns := cols, video_size_row := cols * 2, video_num_lines := 25,
            video_page := ucast (ORIG_VIDEO_PAGE b), video_erase_char := 0x0720,
            video_mem_start := start,
            video_port_reg := (if mono then 0x3B4 else 0x3D4),
            video_port_val := (if mono then 0x3B5 else 0x3D5),
            video_type := (if mono then if is_ega then VIDEO_TYPE_EGAM else VIDEO_TYPE_MDA
                           else if is_ega then VIDEO_TYPE_EGAC else VIDEO_TYPE_CGA),
            video_mem_end := (if mono then if is_ega then 0xB8000 else 0xB2000
                              else if is_ega then 0xBC000 else 0xBA000)\<rparr>;
          c = c\<lparr>vram := fold (\<lambda>k m. m(start + cols * 2 - 8 + 2 * of_nat k :=
                   (m (start + cols * 2 - 8 + 2 * of_nat k) AND 0xFF00) OR desc ! k)) [0..<4] (vram c)\<rparr>;
          c = c\<lparr>origin := start, scr_end := start + video_num_lines c * video_size_row c, c_top := 0,
            c_bottom := video_num_lines c\<rparr>;
          c = gotoxy (ucast (ORIG_X b)) (ucast (ORIG_Y b)) c;
          c = outb (port_in c 0x21 AND 0xFD) 0x21 c;
          a = port_in c 0x61 in
      outb a 0x61 (outb (a OR 0x80) 0x61 c))"

end
