(* ===== verification/Ring.thy ===== *)
theory Ring
  imports Prelude
begin

text \<open>
  Ring buffers: \<open>ring_list c n t k\<close> is the list of the \<open>k\<close> entries from position \<open>t\<close> of a buffer of \<open>n\<close>
  cells. Pipes and terminal queues are such buffers. The locale \<open>bounded_fifo\<close> is the contract by
  which they are used: what is put in comes out in order as long as it fits.
\<close>

definition ring_list :: "(nat \<Rightarrow> 'a) \<Rightarrow> nat \<Rightarrow> nat \<Rightarrow> nat \<Rightarrow> 'a list" where
  "ring_list c n t k = List.map (\<lambda>j. c ((t + j) mod n)) [0..<k]"

named_theorems ring_simps "facts on the contents of ring buffers"

lemma length_ring_list [simp, ring_simps]: "length (ring_list c n t k) = k"
  by (simp add: ring_list_def)

lemma nth_ring_list [simp]: "j < k \<Longrightarrow> ring_list c n t k ! j = c ((t + j) mod n)"
  by (simp add: ring_list_def)

lemma ring_list_0 [simp, ring_simps]: "ring_list c n t 0 = []"
  by (simp add: ring_list_def)

lemma ring_list_add: "ring_list c n t (a + b) = ring_list c n t a @ ring_list c n ((t + a) mod n) b"
proof (rule nth_equalityI)
  fix i assume i: "i < length (ring_list c n t (a + b))"
  have "(t + (a + m)) mod n = ((t + a) mod n + m) mod n" for m
    by (simp add: mod_add_left_eq add.assoc)
  from this [of "i - a"] have "ring_list c n ((t + a) mod n) b ! (i - a) = c ((t + i) mod n)" if "a \<le> i"
    using that i by simp
  with i show "ring_list c n t (a + b) ! i = (ring_list c n t a @ ring_list c n ((t + a) mod n) b) ! i"
    by (cases "i < a") (simp_all add: nth_append)
qed simp

lemma take_ring_list [ring_simps]: "a \<le> k \<Longrightarrow> take a (ring_list c n t k) = ring_list c n t a"
  by (rule nth_equalityI) auto

lemma drop_ring_list [ring_simps]:
  "a \<le> k \<Longrightarrow> drop a (ring_list c n t k) = ring_list c n ((t + a) mod n) (k - a)"
  by (rule nth_equalityI) (simp_all add: mod_add_left_eq add.assoc)

lemma ring_list_cong:
  assumes "\<And>j. j < k \<Longrightarrow> c ((t + j) mod n) = d ((t + j) mod n)"
  shows "ring_list c n t k = ring_list d n t k"
  using assms by (simp add: ring_list_def)

lemma ring_position_inj:
  fixes i j n t :: nat
  assumes "(t + i) mod n = (t + j) mod n" and "i < n" and "j < n"
  shows "i = j"
proof -
  have e: "int n dvd int i - int j"
    using assms(1) by (metis add_diff_cancel_left mod_eq_dvd_iff of_nat_add of_nat_mod)
  have "\<bar>int i - int j\<bar> < int n" using assms(2,3) by simp
  with e have "int i - int j = 0" using zdvd_imp_le by (metis abs_dvd_iff dvd_abs_iff linorder_not_le zero_less_abs_iff)
  then show ?thesis by simp
qed

text \<open>Writing behind the last entry appends, if the new entries fit.\<close>

lemma ring_list_append:
  assumes new: "\<And>j. j < length xs \<Longrightarrow> d ((t + k + j) mod n) = xs ! j"
    and old: "\<And>p. p < n \<Longrightarrow> (\<forall>j < length xs. p \<noteq> (t + k + j) mod n) \<Longrightarrow> d p = c p"
    and fits: "k + length xs \<le> n" and n: "0 < n"
  shows "ring_list d n t (k + length xs) = ring_list c n t k @ xs"
proof -
  have "ring_list d n t k = ring_list c n t k"
  proof (rule ring_list_cong)
    fix j assume j: "j < k"
    have "(t + j) mod n \<noteq> (t + k + l) mod n" if "l < length xs" for l
      using ring_position_inj [of t j n "k + l"] that j fits by (auto simp: add.assoc)
    then show "d ((t + j) mod n) = c ((t + j) mod n)" by (intro old) (use n in auto)
  qed
  moreover have "ring_list d n ((t + k) mod n) (length xs) = xs"
    by (rule nth_equalityI) (auto simp: new mod_simps)
  ultimately show ?thesis by (simp add: ring_list_add)
qed

text \<open>
  The contract of a bounded queue: its contents as a list, and when it is in order, at most \<open>room\<close>
  entries.
\<close>

locale bounded_fifo =
  fixes contents :: "'q \<Rightarrow> 'a list"
    and ok :: "'q \<Rightarrow> bool"
    and cap :: nat
    and enq :: "'a \<Rightarrow> 'q \<Rightarrow> 'q"
    and deq :: "'q \<Rightarrow> 'a \<times> 'q"
  assumes enq_contents: "ok q \<Longrightarrow> length (contents q) < cap \<Longrightarrow> contents (enq x q) = contents q @ [x]"
    and enq_ok: "ok q \<Longrightarrow> length (contents q) < cap \<Longrightarrow> ok (enq x q)"
    and deq_contents: "ok q \<Longrightarrow> contents q \<noteq> [] \<Longrightarrow>
      fst (deq q) = hd (contents q) \<and> contents (snd (deq q)) = tl (contents q)"
    and deq_ok: "ok q \<Longrightarrow> contents q \<noteq> [] \<Longrightarrow> ok (snd (deq q))"
begin

primrec deq_many :: "nat \<Rightarrow> 'q \<Rightarrow> 'a list \<times> 'q" where
  "deq_many 0 q = ([], q)"
| "deq_many (Suc n) q = (case deq_many n (snd (deq q)) of (xs, r) \<Rightarrow> (fst (deq q) # xs, r))"

lemma enq_many:
  assumes "ok q" and "length (contents q) + length xs \<le> cap"
  shows "ok (fold enq xs q) \<and> contents (fold enq xs q) = contents q @ xs"
  using assms
proof (induction xs arbitrary: q)
  case (Cons x xs)
  then have r: "length (contents q) < cap" by simp
  then show ?case
    using Cons.IH [of "enq x q"] Cons.prems enq_contents [OF Cons.prems(1) r] enq_ok [OF Cons.prems(1) r]
    by simp
qed simp

lemma deq_many_take:
  assumes "ok q" and "n \<le> length (contents q)"
  shows "fst (deq_many n q) = take n (contents q) \<and> contents (snd (deq_many n q)) = drop n (contents q) \<and>
    ok (snd (deq_many n q))"
  using assms
proof (induction n arbitrary: q)
  case (Suc n)
  then have ne: "contents q \<noteq> []" by auto
  note d = deq_contents [OF Suc.prems(1) ne] deq_ok [OF Suc.prems(1) ne]
  show ?case
    using Suc.IH [of "snd (deq q)"] Suc.prems d ne
    by (cases "contents q") (auto split: prod.splits)
qed simp

lemma in_order:
  assumes "ok q" and "contents q = []" and "length xs \<le> cap"
  shows "fst (deq_many (length xs) (fold enq xs q)) = xs"
  using enq_many [OF assms(1), of xs] deq_many_take [of "fold enq xs q" "length xs"] assms by simp

end

end
