(* ===== verification/TtyQueue.thy ===== *)
theory TtyQueue
  imports Ring Task
begin

text \<open>
  The queues of a terminal, \<open>include/linux/tty.h\<close>: rings of 1024 characters with 32-bit indices. The
  macros are definitions here; \<open>GETCH\<close> and \<open>PUTCH\<close> provide the bounded queue of theory \<open>Ring\<close>.
\<close>

definition TTY_BUF_SIZE :: nat where "TTY_BUF_SIZE = 1024"

record tty_queue =
  q_data :: u32
  q_head :: u32
  q_tail :: u32
  proc_list :: "nat option"
  q_buf :: "u8 list"

definition INC :: "u32 \<Rightarrow> u32" where "INC a = (a + 1) AND 0x3FF"
definition DEC :: "u32 \<Rightarrow> u32" where "DEC a = (a - 1) AND 0x3FF"
definition EMPTY :: "tty_queue \<Rightarrow> bool" where "EMPTY a \<longleftrightarrow> q_head a = q_tail a"
definition LEFT :: "tty_queue \<Rightarrow> u32" where "LEFT a = (q_tail a - q_head a - 1) AND 0x3FF"
definition LAST :: "tty_queue \<Rightarrow> u8" where "LAST a = q_buf a ! unat (0x3FF AND (q_head a - 1))"
definition FULL :: "tty_queue \<Rightarrow> bool" where "FULL a \<longleftrightarrow> LEFT a = 0"
definition CHARS :: "tty_queue \<Rightarrow> u32" where "CHARS a = (q_head a - q_tail a) AND 0x3FF"

definition GETCH :: "tty_queue \<Rightarrow> u8 \<times> tty_queue" where
  "GETCH q = (q_buf q ! unat (q_tail q), q\<lparr>q_tail := INC (q_tail q)\<rparr>)"

definition PUTCH :: "u8 \<Rightarrow> tty_queue \<Rightarrow> tty_queue" where
  "PUTCH c q = q\<lparr>q_buf := (q_buf q)[unat (q_head q) := c], q_head := INC (q_head q)\<rparr>"


text \<open>
  A queue as the list of its characters, oldest first. At most 1023 fit, as a full ring and an empty one
  could not be told apart; \<open>PUTCH\<close> does not check this.
\<close>

definition queue_chars :: "tty_queue \<Rightarrow> u8 list" where
  "queue_chars q = ring_list (\<lambda>p. q_buf q ! p) 1024 (unat (q_tail q)) (unat (CHARS q))"

definition queue_ok :: "tty_queue \<Rightarrow> bool" where
  "queue_ok q \<longleftrightarrow> length (q_buf q) = 1024 \<and> unat (q_head q) < 1024 \<and> unat (q_tail q) < 1024"

lemma length_queue_chars [simp]: "length (queue_chars q) = unat (CHARS q)"
  by (simp add: queue_chars_def)

lemma unat_and_1023: "unat (x AND 0x3FF :: u32) = unat x mod 1024"
proof -
  have "x AND 0x3FF = take_bit 10 x" by (simp add: take_bit_eq_mask mask_eq_exp_minus_1)
  then show ?thesis by (simp add: take_bit_eq_mod unat_mod_distrib)
qed

lemma unat_INC: "unat a < 1024 \<Longrightarrow> unat (INC a) = (unat a + 1) mod 1024"
  by (simp add: INC_def unat_and_1023 unat_word_ariths)

lemma uint_and_1023: "uint (x AND 0x3FF :: u32) = uint x mod 1024"
  using unat_and_1023 [of x] by (metis int_nat_eq of_nat_mod of_nat_numeral uint_nat)

lemma uint_CHARS: "uint (CHARS q) = (uint (q_head q) - uint (q_tail q)) mod 1024"
  by (simp add: CHARS_def uint_and_1023 uint_word_ariths mod_mod_cancel)

lemma uint_LEFT: "uint (LEFT q) = 1023 - uint (CHARS q)"
proof -
  have "uint (LEFT q) = (uint (q_tail q) - uint (q_head q) - 1) mod 1024"
    by (simp add: LEFT_def uint_and_1023 uint_word_ariths mod_mod_cancel mod_diff_left_eq)
  also have "\<dots> = (1023 - (uint (q_head q) - uint (q_tail q)) mod 1024) mod 1024"
    by (simp add: mod_diff_right_eq) (simp add: mod_eq_dvd_iff)
  also have "\<dots> = 1023 - (uint (q_head q) - uint (q_tail q)) mod 1024"
    by (intro mod_pos_pos_trivial) (auto simp: pos_mod_bound [of 1024, simplified] intro: order.strict_trans1 [OF _ pos_mod_bound])
  finally show ?thesis by (simp add: uint_CHARS)
qed

lemma uint_less_1024: "uint x < 1024 \<longleftrightarrow> unat x < 1024"
  by (simp only: uint_nat of_nat_less_numeral_iff)

lemma CHARS_less: "unat (CHARS q) < 1024"
  by (simp add: CHARS_def unat_and_1023)

lemma head_position:
  assumes "queue_ok q"
  shows "unat (q_head q) = (unat (q_tail q) + unat (CHARS q)) mod 1024"
proof -
  have "(uint (q_tail q) + uint (CHARS q)) mod 1024 = uint (q_head q) mod 1024"
    by (simp add: uint_CHARS mod_add_right_eq)
  also have "\<dots> = uint (q_head q)"
    using assms by (intro mod_pos_pos_trivial) (simp_all add: queue_ok_def uint_less_1024)
  finally have "int ((unat (q_tail q) + unat (CHARS q)) mod 1024) = int (unat (q_head q))"
    by (simp add: zmod_int)
  then show ?thesis by (simp only: of_nat_eq_iff)
qed

lemma queue_ok_PUTCH: "queue_ok q \<Longrightarrow> queue_ok (PUTCH c q)"
  by (simp add: queue_ok_def PUTCH_def unat_INC)

lemma queue_ok_GETCH: "queue_ok q \<Longrightarrow> queue_ok (snd (GETCH q))"
  by (simp add: queue_ok_def GETCH_def unat_INC)

lemma uint_INC: "unat a < 1024 \<Longrightarrow> uint (INC a) = (uint a + 1) mod 1024"
  using arg_cong [OF unat_INC [of a], of int] by (simp add: zmod_int add.commute)

lemma CHARS_PUTCH:
  assumes "queue_ok q"
  shows "uint (CHARS (PUTCH c q)) = (uint (CHARS q) + 1) mod 1024"
proof -
  have "uint (CHARS (PUTCH c q)) = ((uint (q_head q) + 1) mod 1024 - uint (q_tail q)) mod 1024"
    using assms by (simp add: uint_CHARS PUTCH_def uint_INC queue_ok_def)
  also have "\<dots> = ((uint (q_head q) - uint (q_tail q)) + 1) mod 1024"
    by (simp add: mod_diff_left_eq algebra_simps)
  finally show ?thesis by (simp add: uint_CHARS mod_add_left_eq)
qed

lemma CHARS_GETCH:
  assumes "queue_ok q"
  shows "uint (CHARS (snd (GETCH q))) = (uint (CHARS q) - 1) mod 1024"
proof -
  have "uint (CHARS (snd (GETCH q))) = (uint (q_head q) - (uint (q_tail q) + 1) mod 1024) mod 1024"
    using assms by (simp add: uint_CHARS GETCH_def uint_INC queue_ok_def)
  also have "\<dots> = ((uint (q_head q) - uint (q_tail q)) - 1) mod 1024"
    by (simp add: mod_diff_right_eq algebra_simps)
  finally show ?thesis by (simp add: uint_CHARS mod_diff_left_eq)
qed

lemma PUTCH_appends:
  assumes q: "queue_ok q" and room: "length (queue_chars q) < 1023"
  shows "queue_chars (PUTCH c q) = queue_chars q @ [c]"
proof -
  have u: "unat (CHARS (PUTCH c q)) = unat (CHARS q) + length [c]"
  proof -
    have "(uint (CHARS q) + 1) mod 1024 = uint (CHARS q) + 1"
      using room by (intro mod_pos_pos_trivial) (simp_all add: uint_nat del: of_nat_unat)
    then have "int (unat (CHARS (PUTCH c q))) = int (unat (CHARS q) + length [c])"
      using CHARS_PUTCH [OF q, of c] by simp
    then show ?thesis by (simp only: of_nat_eq_iff)
  qed
  have t: "q_tail (PUTCH c q) = q_tail q" by (simp add: PUTCH_def)
  have b: "length (q_buf q) = 1024" "unat (q_head q) < 1024" using q by (simp_all add: queue_ok_def)
  show ?thesis
    unfolding queue_chars_def u t
  proof (rule ring_list_append)
    fix j assume "j < length [c]"
    then show "q_buf (PUTCH c q) ! ((unat (q_tail q) + unat (CHARS q) + j) mod 1024) = [c] ! j"
      using b by (simp add: head_position [OF q, symmetric] PUTCH_def)
  next
    fix p assume "p < (1024 :: nat)" "\<forall>j < length [c]. p \<noteq> (unat (q_tail q) + unat (CHARS q) + j) mod 1024"
    then show "q_buf (PUTCH c q) ! p = q_buf q ! p"
      by (simp add: head_position [OF q, symmetric] PUTCH_def)
  qed (use room in simp_all)
qed

lemma GETCH_takes:
  assumes q: "queue_ok q" and ne: "queue_chars q \<noteq> []"
  shows "fst (GETCH q) = hd (queue_chars q) \<and> queue_chars (snd (GETCH q)) = tl (queue_chars q)"
proof -
  have n: "0 < unat (CHARS q)" using ne length_queue_chars [of q] by (metis length_greater_0_conv)
  have "(uint (CHARS q) - 1) mod 1024 = uint (CHARS q) - 1"
    using n CHARS_less [of q] by (intro mod_pos_pos_trivial) (simp_all add: uint_nat del: of_nat_unat)
  then have "int (unat (CHARS (snd (GETCH q)))) = int (unat (CHARS q) - 1)"
    using CHARS_GETCH [OF q] n by (simp add: of_nat_diff)
  then have u: "unat (CHARS (snd (GETCH q))) = unat (CHARS q) - 1" by (simp only: of_nat_eq_iff)
  have t: "unat (q_tail (snd (GETCH q))) = (unat (q_tail q) + 1) mod 1024" "q_buf (snd (GETCH q)) = q_buf q"
    "unat (q_tail q) < 1024"
    using q by (simp_all add: GETCH_def queue_ok_def unat_INC)
  have "queue_chars (snd (GETCH q)) = drop 1 (queue_chars q)"
    unfolding queue_chars_def u t using n by (subst drop_ring_list) auto
  moreover have "hd (queue_chars q) = q_buf q ! unat (q_tail q)"
    using n ne t(3) by (simp add: hd_conv_nth) (simp add: queue_chars_def)
  ultimately show ?thesis by (simp add: GETCH_def drop_Suc)
qed

interpretation tq: bounded_fifo queue_chars queue_ok 1023 PUTCH GETCH
  by unfold_locales (simp_all add: PUTCH_appends queue_ok_PUTCH GETCH_takes queue_ok_GETCH)

text \<open>A number of reads one after the other.\<close>

primrec get_chars :: "nat \<Rightarrow> tty_queue \<Rightarrow> u8 list \<times> tty_queue" where
  "get_chars 0 q = ([], q)"
| "get_chars (Suc n) q = (case get_chars n (snd (GETCH q)) of (cs, r) \<Rightarrow> (fst (GETCH q) # cs, r))"

lemma get_chars_eq: "get_chars n q = tq.deq_many n q"
  by (induction n arbitrary: q) simp_all

lemma EMPTY_iff:
  assumes "queue_ok q"
  shows "EMPTY q \<longleftrightarrow> queue_chars q = []"
proof
  assume "EMPTY q"
  then show "queue_chars q = []" by (simp add: EMPTY_def CHARS_def flip: length_0_conv)
next
  assume "queue_chars q = []"
  then have "unat (CHARS q) = 0" by (simp flip: length_0_conv)
  then have "unat (q_head q) = unat (q_tail q)"
    using head_position [OF assms] assms by (simp add: queue_ok_def)
  then show "EMPTY q" by (simp add: EMPTY_def word_unat_eq_iff)
qed

text \<open>
  C27: A terminal queue delivers the characters put into it in order: after any characters, up to its
  capacity of 1023, are put into an empty queue, as many reads return exactly them, and \<open>CHARS\<close> and \<open>LEFT\<close>
  tell how many are in it and how many more fit.
\<close>

theorem tty_queue_in_order:
  assumes "queue_ok q" and "EMPTY q" and "length cs \<le> 1023"
  shows "fst (get_chars (length cs) (fold PUTCH cs q)) = cs \<and>
    uint (CHARS (fold PUTCH cs q)) = int (length cs) \<and> uint (LEFT (fold PUTCH cs q)) = 1023 - int (length cs)"
proof -
  have e: "queue_chars q = []" using assms by (simp add: EMPTY_iff)
  have r: "fst (get_chars (length cs) (fold PUTCH cs q)) = cs"
    unfolding get_chars_eq by (rule tq.in_order [OF assms(1) e assms(3)])
  have "queue_chars (fold PUTCH cs q) = cs" using tq.enq_many [OF assms(1), of cs] e assms(3) by simp
  then have "int (unat (CHARS (fold PUTCH cs q))) = int (length cs)" by (simp flip: length_queue_chars)
  then have "uint (CHARS (fold PUTCH cs q)) = int (length cs)" by simp
  then show ?thesis using r by (simp add: uint_LEFT)
qed

text \<open>
  \<open>PUTCH\<close> does not look whether there is room: one character too many makes a full queue empty, and all
  its 1023 characters are lost.
\<close>

theorem full_queue_lost:
  assumes "queue_ok q" and "FULL q"
  shows "length (queue_chars q) = 1023 \<and> EMPTY (PUTCH c q)"
proof -
  have u: "uint (CHARS q) = 1023" using assms(2) uint_LEFT [of q] by (simp add: FULL_def)
  then have "unat (CHARS q) = 1023" by (simp add: uint_nat del: of_nat_unat)
  moreover have "int (unat (CHARS (PUTCH c q))) = int 0" using CHARS_PUTCH [OF assms(1), of c] u by simp
  then have "unat (CHARS (PUTCH c q)) = 0" by (simp only: of_nat_eq_iff)
  ultimately show ?thesis
    using EMPTY_iff [OF queue_ok_PUTCH [OF assms(1)], of c] by (simp flip: length_0_conv)
qed

text \<open>The console's write queue before anything was written, and when it is full.\<close>

definition demo_queue :: tty_queue where
  "demo_queue = \<lparr>q_data = 0, q_head = 1020, q_tail = 1020, proc_list = None, q_buf = replicate 1024 0\<rparr>"

theorem tty_queue_in_order_witness:
  "fst (get_chars 6 (fold PUTCH [104, 101, 108, 108, 111, 10] demo_queue)) = [104, 101, 108, 108, 111, 10]"
proof -
  have "queue_ok demo_queue" "EMPTY demo_queue" by (simp_all add: queue_ok_def EMPTY_def demo_queue_def)
  from tty_queue_in_order [OF this, of "[104, 101, 108, 108, 111, 10]"] show ?thesis
    by (simp add: eval_nat_numeral del: get_chars.simps)
qed

theorem full_queue_lost_witness:
  "EMPTY (PUTCH 7 (demo_queue\<lparr>q_head := 1019\<rparr>)) \<and> length (queue_chars (demo_queue\<lparr>q_head := 1019\<rparr>)) = 1023"
  using full_queue_lost [of "demo_queue\<lparr>q_head := 1019\<rparr>" 7]
  by (simp add: queue_ok_def FULL_def LEFT_def demo_queue_def)

end
