(* ===== verification/Tty.thy ===== *)
theory Tty
  imports Console Exit TtyQueue
begin

text \<open>
  Terminals on the queues of theory \<open>TtyQueue\<close>: the structures of \<open>include/linux/tty.h\<close>, \<open>kernel/chr_drv/tty_io.c\<close>, the part of
  \<open>console.c\<close> that reads and fills queues, \<open>rs_write\<close> of \<open>serial.c\<close>, and \<open>lib/ctype.c\<close>.
  Terminal 0 is the console, 1 and 2 are serial lines. \<open>con_write\<close> answers a query by feeding the
  answer to \<open>copy_to_cooked\<close>, which echoes it through \<open>con_write\<close>; the recursion is cut by fuel.
\<close>

subsection \<open>Characters\<close>

definition C_U :: u8 where "C_U = 0x01"
definition C_L :: u8 where "C_L = 0x02"
definition C_D :: u8 where "C_D = 0x04"
definition C_C :: u8 where "C_C = 0x08"
definition C_P :: u8 where "C_P = 0x10"
definition C_S :: u8 where "C_S = 0x20"
definition C_X :: u8 where "C_X = 0x40"
definition C_SP :: u8 where "C_SP = 0x80"

definition ctype_table :: "u8 list" where
  "ctype_table =
     [0] @ replicate 9 C_C @ replicate 5 (C_C OR C_S) @ replicate 18 C_C @
     [C_S OR C_SP] @ replicate 15 C_P @ replicate 10 C_D @ replicate 7 C_P @
     replicate 6 (C_U OR C_X) @ replicate 20 C_U @ replicate 6 C_P @
     replicate 6 (C_L OR C_X) @ replicate 20 C_L @ replicate 4 C_P @ [C_C] @ replicate 128 0"

text \<open>\<open>(_ctype + 1)[c]\<close> for an \<open>int\<close>; outside the table there is nothing to read.\<close>

definition ctype_of :: "int \<Rightarrow> u8 option" where
  "ctype_of c = (if -1 \<le> c \<and> c < 256 then Some (ctype_table ! nat (c + 1)) else None)"

definition is_class :: "u8 \<Rightarrow> int \<Rightarrow> bool option" where
  "is_class k c = map_option (\<lambda>t. t AND k \<noteq> 0) (ctype_of c)"

definition isalnum :: "int \<Rightarrow> bool option" where "isalnum = is_class (C_U OR C_L OR C_D)"
definition isalpha :: "int \<Rightarrow> bool option" where "isalpha = is_class (C_U OR C_L)"
definition iscntrl :: "int \<Rightarrow> bool option" where "iscntrl = is_class C_C"
definition isdigit :: "int \<Rightarrow> bool option" where "isdigit = is_class C_D"
definition isgraph :: "int \<Rightarrow> bool option" where "isgraph = is_class (C_P OR C_U OR C_L OR C_D)"
definition islower :: "int \<Rightarrow> bool option" where "islower = is_class C_L"
definition isprint :: "int \<Rightarrow> bool option" where "isprint = is_class (C_P OR C_U OR C_L OR C_D OR C_SP)"
definition ispunct :: "int \<Rightarrow> bool option" where "ispunct = is_class C_P"
definition isspace :: "int \<Rightarrow> bool option" where "isspace = is_class C_S"
definition isupper :: "int \<Rightarrow> bool option" where "isupper = is_class C_U"
definition isxdigit :: "int \<Rightarrow> bool option" where "isxdigit = is_class (C_D OR C_X)"

text \<open>\<open>_ctmp\<close> is a signed character.\<close>

definition tolower :: "u8 \<Rightarrow> u8 option" where
  "tolower c = map_option (\<lambda>b. if b then c - 0x41 + 0x61 else c) (isupper (sint c))"

definition toupper :: "u8 \<Rightarrow> u8 option" where
  "toupper c = map_option (\<lambda>b. if b then c - (0x61 - 0x41) else c) (islower (sint c))"

subsection \<open>The terminals\<close>

record termios =
  c_iflag :: u32
  c_oflag :: u32
  c_cflag :: u32
  c_lflag :: u32
  c_line :: u8
  c_cc :: "u8 list"

record tty_struct =
  termios :: termios
  t_pgrp :: int
  stopped :: bool
  read_q :: tty_queue
  write_q :: tty_queue
  secondary :: tty_queue

record ttys = fs +
  tty_table :: "tty_struct list"
  cr_flag :: bool
  con :: con

definition tt :: "'a ttys_scheme \<Rightarrow> nat \<Rightarrow> tty_struct" where
  "tt s t = tty_table s ! t"

definition set_tt :: "nat \<Rightarrow> (tty_struct \<Rightarrow> tty_struct) \<Rightarrow> 'a ttys_scheme \<Rightarrow> 'a ttys_scheme" where
  "set_tt t f s = s\<lparr>tty_table := (tty_table s)[t := f (tty_table s ! t)]\<rparr>"

definition putw :: "u8 \<Rightarrow> nat \<Rightarrow> 'a ttys_scheme \<Rightarrow> 'a ttys_scheme" where
  "putw c t = set_tt t (\<lambda>x. x\<lparr>write_q := PUTCH c (write_q x)\<rparr>)"

definition cc :: "nat \<Rightarrow> tty_struct \<Rightarrow> u8" where "cc k x = c_cc (termios x) ! k"

definition VINTR :: nat where "VINTR = 0"
definition VQUIT :: nat where "VQUIT = 1"
definition VERASE :: nat where "VERASE = 2"
definition VKILL :: nat where "VKILL = 3"
definition VEOF :: nat where "VEOF = 4"
definition VTIME :: nat where "VTIME = 5"
definition VMIN :: nat where "VMIN = 6"
definition VSTART :: nat where "VSTART = 8"
definition VSTOP :: nat where "VSTOP = 9"

definition INLCR :: u32 where "INLCR = 0x40"
definition IGNCR :: u32 where "IGNCR = 0x80"
definition ICRNL :: u32 where "ICRNL = 0x100"
definition IUCLC :: u32 where "IUCLC = 0x200"
definition OPOST :: u32 where "OPOST = 0x1"
definition OLCUC :: u32 where "OLCUC = 0x2"
definition ONLCR :: u32 where "ONLCR = 0x4"
definition OCRNL :: u32 where "OCRNL = 0x8"
definition ONLRET :: u32 where "ONLRET = 0x20"
definition ISIG :: u32 where "ISIG = 0x1"
definition ICANON :: u32 where "ICANON = 0x2"
definition ECHO :: u32 where "ECHO = 0x8"
definition ECHOCTL :: u32 where "ECHOCTL = 0x200"
definition ECHOKE :: u32 where "ECHOKE = 0x800"

definition L_FLAG :: "tty_struct \<Rightarrow> u32 \<Rightarrow> bool" where "L_FLAG x f \<longleftrightarrow> c_lflag (termios x) AND f \<noteq> 0"
definition I_FLAG :: "tty_struct \<Rightarrow> u32 \<Rightarrow> bool" where "I_FLAG x f \<longleftrightarrow> c_iflag (termios x) AND f \<noteq> 0"
definition O_FLAG :: "tty_struct \<Rightarrow> u32 \<Rightarrow> bool" where "O_FLAG x f \<longleftrightarrow> c_oflag (termios x) AND f \<noteq> 0"

text \<open>A signed character compared with a control character, which is unsigned.\<close>

definition is_cc :: "u8 \<Rightarrow> nat \<Rightarrow> tty_struct \<Rightarrow> bool" where
  "is_cc c k x \<longleftrightarrow> sint c = uint (cc k x)"

subsection \<open>Signals and waiting\<close>

definition SIGINT :: int where "SIGINT = 2"
definition SIGQUIT :: int where "SIGQUIT = 3"

definition tty_intr :: "nat \<Rightarrow> u32 \<Rightarrow> 'a ttys_scheme \<Rightarrow> 'a ttys_scheme" where
  "tty_intr t msk s =
     (if t_pgrp (tt s t) \<le> 0 then s
      else fold (\<lambda>i s. if live s i \<and> pgrp (ts s i) = t_pgrp (tt s t)
                       then upd i (\<lambda>p. p\<lparr>signal := signal p OR msk\<rparr>) s else s) [0..<NR_TASKS] s)"

definition sleep_on_secondary :: "nat \<Rightarrow> 'a ttys_scheme \<Rightarrow> ('b, 'a ttys_scheme) res" where
  "sleep_on_secondary t s =
     bind (interruptible_sleep_on_enter (proc_list (secondary (tt s t))) s) (\<lambda>q s.
     Sleeps (set_tt t (\<lambda>x. x\<lparr>secondary := (secondary x)\<lparr>proc_list := q\<rparr>\<rparr>) s))"

definition sleep_if_empty :: "nat \<Rightarrow> 'a ttys_scheme \<Rightarrow> (unit, 'a ttys_scheme) res" where
  "sleep_if_empty t s =
     (if signal (cur s) = 0 \<and> EMPTY (secondary (tt s t)) then sleep_on_secondary t s else Ok () s)"

definition sleep_if_full :: "nat \<Rightarrow> 'a ttys_scheme \<Rightarrow> (unit, 'a ttys_scheme) res" where
  "sleep_if_full t s =
     (if \<not> FULL (write_q (tt s t)) then Ok () s
      else if signal (cur s) = 0 \<and> LEFT (write_q (tt s t)) < 128 then
        bind (interruptible_sleep_on_enter (proc_list (write_q (tt s t))) s) (\<lambda>q s.
        Sleeps (set_tt t (\<lambda>x. x\<lparr>write_q := (write_q x)\<lparr>proc_list := q\<rparr>\<rparr>) s))
      else Ok () s)"

definition wait_for_keypress :: "'a ttys_scheme \<Rightarrow> (unit, 'a ttys_scheme) res" where
  "wait_for_keypress = sleep_if_empty 0"

subsection \<open>The write routines\<close>

type_synonym 'a cook = "nat \<Rightarrow> 'a ttys_scheme \<Rightarrow> (unit, 'a ttys_scheme) res"

definition RESPONSE :: "u8 list" where
  "RESPONSE = [0x1B, 0x5B, 0x3F, 0x31, 0x3B, 0x32, 0x63]"

definition respond_with :: "'a cook \<Rightarrow> nat \<Rightarrow> 'a ttys_scheme \<Rightarrow> (unit, 'a ttys_scheme) res" where
  "respond_with cook t s = cook t (set_tt t (\<lambda>x. x\<lparr>read_q := fold PUTCH RESPONSE (read_q x)\<rparr>) s)"

fun con_write_loop :: "'a cook \<Rightarrow> nat \<Rightarrow> nat \<Rightarrow> 'a ttys_scheme \<Rightarrow> (unit, 'a ttys_scheme) res" where
  "con_write_loop cook 0 t s = Ok () s"
| "con_write_loop cook (Suc nr) t s =
     (case GETCH (write_q (tt s t)) of (c, q) \<Rightarrow>
      let s = set_tt t (\<lambda>x. x\<lparr>write_q := q\<rparr>) s in
      case con_char (cc VERASE (tt s t)) c (con s) of (d, answer) \<Rightarrow>
      let s = s\<lparr>con := d\<rparr> in
      bind (if answer then respond_with cook t s else Ok () s) (\<lambda>_ s. con_write_loop cook nr t s))"

definition con_write_with :: "'a cook \<Rightarrow> nat \<Rightarrow> 'a ttys_scheme \<Rightarrow> (unit, 'a ttys_scheme) res" where
  "con_write_with cook t s =
     bind (con_write_loop cook (unat (CHARS (write_q (tt s t)))) t s) (\<lambda>_ s.
     Ok () (s\<lparr>con := set_cursor (con s)\<rparr>))"

definition rs_write :: "nat \<Rightarrow> 'a ttys_scheme \<Rightarrow> 'a ttys_scheme" where
  "rs_write t s =
     (let port = ucast (q_data (write_q (tt s t)) + 1) :: u16 in
      if \<not> EMPTY (write_q (tt s t)) then s\<lparr>con := outb (port_in (con s) port OR 2) port (con s)\<rparr> else s)"

definition tty_wr :: "'a cook \<Rightarrow> nat \<Rightarrow> 'a ttys_scheme \<Rightarrow> (unit, 'a ttys_scheme) res" where
  "tty_wr cook t s = (if t = 0 then con_write_with cook t s else Ok () (rs_write t s))"

subsection \<open>Cooked mode\<close>

text \<open>The echo of an erased character.\<close>

definition echo_erase :: "'a cook \<Rightarrow> nat \<Rightarrow> u8 \<Rightarrow> 'a ttys_scheme \<Rightarrow> (unit, 'a ttys_scheme) res" where
  "echo_erase cook t c s =
     (if L_FLAG (tt s t) ECHO then
        tty_wr cook t (putw 127 t (if sint c < 32 then putw 127 t s else s))
      else Ok () s)"

definition dec_secondary :: "nat \<Rightarrow> 'a ttys_scheme \<Rightarrow> 'a ttys_scheme" where
  "dec_secondary t = set_tt t (\<lambda>x. x\<lparr>secondary := (secondary x)\<lparr>q_head := DEC (q_head (secondary x))\<rparr>\<rparr>)"

text \<open>Does an erase have to stop at the last character of the secondary queue?\<close>

definition erase_stops :: "tty_struct \<Rightarrow> bool" where
  "erase_stops x \<longleftrightarrow> EMPTY (secondary x) \<or> LAST (secondary x) = 10 \<or> is_cc (LAST (secondary x)) VEOF x"

fun kill_line :: "'a cook \<Rightarrow> nat \<Rightarrow> nat \<Rightarrow> 'a ttys_scheme \<Rightarrow> (unit, 'a ttys_scheme) res" where
  "kill_line cook 0 t s = Hang"
| "kill_line cook (Suc fuel) t s =
     (if erase_stops (tt s t) then Ok () s
      else
        bind (echo_erase cook t (LAST (secondary (tt s t))) s) (\<lambda>_ s.
        kill_line cook fuel t (dec_secondary t s)))"

text \<open>What becomes of a character that is not dropped and not a line-editing or flow character.\<close>

definition cook_plain :: "'a cook \<Rightarrow> nat \<Rightarrow> u8 \<Rightarrow> 'a ttys_scheme \<Rightarrow> (unit, 'a ttys_scheme) res" where
  "cook_plain cook t c s =
     (if L_FLAG (tt s t) ISIG \<and> is_cc c VINTR (tt s t) then Ok () (tty_intr t (sigbit SIGINT) s)
      else if L_FLAG (tt s t) ISIG \<and> is_cc c VQUIT (tt s t) then Ok () (tty_intr t (sigbit SIGQUIT) s)
      else
        let s = (if c = 10 \<or> is_cc c VEOF (tt s t)
                 then set_tt t (\<lambda>x. x\<lparr>secondary := (secondary x)\<lparr>q_data := q_data (secondary x) + 1\<rparr>\<rparr>) s
                 else s) in
        bind (if L_FLAG (tt s t) ECHO then
                tty_wr cook t
                  (if c = 10 then putw 13 t (putw 10 t s)
                   else if sint c < 32 then
                     (if L_FLAG (tt s t) ECHOCTL then putw (c + 64) t (putw 0x5E t s) else s)
                   else putw c t s)
              else Ok () s) (\<lambda>_ s.
        Ok () (set_tt t (\<lambda>x. x\<lparr>secondary := PUTCH c (secondary x)\<rparr>) s)))"

definition cook_char :: "'a cook \<Rightarrow> nat \<Rightarrow> u8 \<Rightarrow> 'a ttys_scheme \<Rightarrow> (unit, 'a ttys_scheme) res" where
  "cook_char cook t c s =
     (if L_FLAG (tt s t) ICANON \<and> is_cc c VKILL (tt s t) then kill_line cook (Suc TTY_BUF_SIZE) t s
      else if L_FLAG (tt s t) ICANON \<and> is_cc c VERASE (tt s t) then
        if erase_stops (tt s t) then Ok () s
        else bind (echo_erase cook t (LAST (secondary (tt s t))) s) (\<lambda>_ s. Ok () (dec_secondary t s))
      else if L_FLAG (tt s t) ICANON \<and> is_cc c VSTOP (tt s t)
      then Ok () (set_tt t (\<lambda>x. x\<lparr>stopped := True\<rparr>) s)
      else if L_FLAG (tt s t) ICANON \<and> is_cc c VSTART (tt s t)
      then Ok () (set_tt t (\<lambda>x. x\<lparr>stopped := False\<rparr>) s)
      else cook_plain cook t c s)"

text \<open>The translations of input; \<open>None\<close> is a carriage return that is dropped.\<close>

definition input_char :: "u8 \<Rightarrow> nat \<Rightarrow> 'a ttys_scheme \<Rightarrow> (u8 option, 'a ttys_scheme) res" where
  "input_char c t s =
     (let x = tt s t;
          c = (if c = 13 then
                 if I_FLAG x ICRNL then Some 10 else if I_FLAG x IGNCR then None else Some c
               else if c = 10 \<and> I_FLAG x INLCR then Some 13 else Some c) in
      case c of
        None \<Rightarrow> Ok None s
      | Some c \<Rightarrow>
          if I_FLAG x IUCLC then
            case tolower c of None \<Rightarrow> Fault ''ctype'' | Some c \<Rightarrow> Ok (Some c) s
          else Ok (Some c) s)"

fun cook_loop :: "'a cook \<Rightarrow> nat \<Rightarrow> nat \<Rightarrow> 'a ttys_scheme \<Rightarrow> (unit, 'a ttys_scheme) res" where
  "cook_loop cook 0 t s = Hang"
| "cook_loop cook (Suc fuel) t s =
     (if EMPTY (read_q (tt s t)) \<or> FULL (secondary (tt s t)) then Ok () s
      else
        case GETCH (read_q (tt s t)) of (c, q) \<Rightarrow>
        bind (input_char c t (set_tt t (\<lambda>x. x\<lparr>read_q := q\<rparr>) s)) (\<lambda>c s.
        bind (case c of None \<Rightarrow> Ok () s | Some c \<Rightarrow> cook_char cook t c s) (\<lambda>_ s.
        cook_loop cook fuel t s)))"

definition COOK_FUEL :: nat where "COOK_FUEL = 4096"

definition copy_to_cooked_with :: "'a cook \<Rightarrow> nat \<Rightarrow> 'a ttys_scheme \<Rightarrow> (unit, 'a ttys_scheme) res" where
  "copy_to_cooked_with cook t s =
     bind (cook_loop cook COOK_FUEL t s) (\<lambda>_ s.
     case wake_up (proc_list (secondary (tt s t))) s of (q, s) \<Rightarrow>
     Ok () (set_tt t (\<lambda>x. x\<lparr>secondary := (secondary x)\<lparr>proc_list := q\<rparr>\<rparr>) s))"

fun cook_n :: "nat \<Rightarrow> 'a cook" where
  "cook_n 0 t s = Hang"
| "cook_n (Suc n) t s = copy_to_cooked_with (cook_n n) t s"

definition TTY_FUEL :: nat where "TTY_FUEL = 64"

definition copy_to_cooked :: "'a cook" where "copy_to_cooked = cook_n TTY_FUEL"

definition con_write :: "nat \<Rightarrow> 'a ttys_scheme \<Rightarrow> (unit, 'a ttys_scheme) res" where
  "con_write = con_write_with copy_to_cooked"

definition tty_output :: "nat \<Rightarrow> 'a ttys_scheme \<Rightarrow> (unit, 'a ttys_scheme) res" where
  "tty_output = tty_wr copy_to_cooked"

definition do_tty_interrupt :: "nat \<Rightarrow> 'a ttys_scheme \<Rightarrow> (unit, 'a ttys_scheme) res" where
  "do_tty_interrupt = copy_to_cooked"

subsection \<open>Reading and writing\<close>

definition ALRMMASK :: u32 where "ALRMMASK = sigbit SIGALRM"

text \<open>The inner loop of \<open>tty_read\<close>; the result says whether an end of file ends the read.\<close>

fun read_chars :: "nat \<Rightarrow> nat \<Rightarrow> u32 \<Rightarrow> nat \<Rightarrow> 'a ttys_scheme \<Rightarrow> (bool \<times> nat, 'a ttys_scheme) res" where
  "read_chars 0 t b n s = Ok (False, n) s"
| "read_chars (Suc nr) t b n s =
     (case GETCH (secondary (tt s t)) of (c, q) \<Rightarrow>
      let eof = is_cc c VEOF (tt s t);
          q = (if eof \<or> c = 10 then q\<lparr>q_data := q_data q - 1\<rparr> else q);
          s = set_tt t (\<lambda>x. x\<lparr>secondary := q\<rparr>) s in
      if eof \<and> L_FLAG (tt s t) ICANON then Ok (True, n) s
      else
        let s = put_fs_byte c (b + of_nat n) s in
        if EMPTY (secondary (tt s t)) then Ok (False, Suc n) s else read_chars nr t b (Suc n) s)"

text \<open>
  The outer loop, after \<open>n\<close> of \<open>len\<close> bytes. \<open>flag\<close>, \<open>time\<close>, \<open>minimum\<close> and \<open>oldalarm\<close> are the variables of the
  code. The result says whether the code has returned out of the loop, without restoring the alarm.
\<close>

fun tty_read_loop ::
    "nat \<Rightarrow> nat \<Rightarrow> u32 \<Rightarrow> nat \<Rightarrow> bool \<Rightarrow> int \<Rightarrow> nat \<Rightarrow> int \<Rightarrow> nat \<Rightarrow> 'a ttys_scheme \<Rightarrow>
     (bool \<times> nat, 'a ttys_scheme) res" where
  "tty_read_loop 0 t b len flag time minimum oldalarm n s = Hang"
| "tty_read_loop (Suc fuel) t b len flag time minimum oldalarm n s =
     (if len \<le> n then Ok (False, n) s
      else if flag \<and> signal (cur s) AND ALRMMASK \<noteq> 0 then
        Ok (False, n) (upd_cur (\<lambda>p. p\<lparr>signal := signal p AND NOT ALRMMASK\<rparr>) s)
      else if signal (cur s) \<noteq> 0 then Ok (False, n) s
      else if EMPTY (secondary (tt s t)) \<or>
              (L_FLAG (tt s t) ICANON \<and> q_data (secondary (tt s t)) = 0 \<and> 20 < LEFT (secondary (tt s t)))
      then
        bind (sleep_if_empty t s) (\<lambda>_ s. tty_read_loop fuel t b len flag time minimum oldalarm n s)
      else
        bind (read_chars (len - n) t b n s) (\<lambda>(eof, n) s.
        if eof then Ok (True, n) s
        else
          let canon = L_FLAG (tt s t) ICANON;
              flag' = (if time \<noteq> 0 \<and> \<not> canon then oldalarm = 0 \<or> time + jiffies s < oldalarm else flag);
              s = (if time \<noteq> 0 \<and> \<not> canon
                   then upd_cur (\<lambda>p. p\<lparr>alarm := (if flag' then time + jiffies s else oldalarm)\<rparr>) s else s) in
          if (if canon then n \<noteq> 0 else minimum \<le> n) then Ok (False, n) s
          else tty_read_loop fuel t b len flag' time minimum oldalarm n s))"

definition tty_read :: "nat \<Rightarrow> u32 \<Rightarrow> int \<Rightarrow> 'a ttys_scheme \<Rightarrow> (int, 'a ttys_scheme) res" where
  "tty_read channel buf nr s =
     (if 2 < channel \<or> nr < 0 then Ok (-1) s
      else
        let oldalarm = alarm (cur s);
            time = 10 * uint (cc VTIME (tt s channel));
            minimum = unat (cc VMIN (tt s channel));
            timed = time \<noteq> 0 \<and> minimum = 0;
            minimum = (if timed then 1 else minimum);
            flag = timed \<and> (oldalarm = 0 \<or> time + jiffies s < oldalarm);
            s = (if flag then upd_cur (\<lambda>p. p\<lparr>alarm := time + jiffies s\<rparr>) s else s);
            minimum = min minimum (nat nr) in
        bind (tty_read_loop (nat nr + 2) channel buf (nat nr) flag time minimum oldalarm 0 s)
          (\<lambda>(returned, n) s.
        if returned then Ok (int n) s
        else
          let s = upd_cur (\<lambda>p. p\<lparr>alarm := oldalarm\<rparr>) s in
          Ok (if signal (cur s) \<noteq> 0 \<and> n = 0 then - EINTR else int n) s))"

text \<open>
  The inner loop of \<open>tty_write\<close>: fill the write queue from position \<open>n\<close> of \<open>len\<close>. A newline that
  needs a carriage return before it takes two rounds.
\<close>

fun write_chars :: "nat \<Rightarrow> nat \<Rightarrow> u32 \<Rightarrow> nat \<Rightarrow> nat \<Rightarrow> 'a ttys_scheme \<Rightarrow> (nat, 'a ttys_scheme) res" where
  "write_chars 0 t b len n s = Hang"
| "write_chars (Suc fuel) t b len n s =
     (if len \<le> n \<or> FULL (write_q (tt s t)) then Ok n s
      else
        let x = tt s t; c = get_fs_byte (b + of_nat n) s;
            post = O_FLAG x OPOST;
            c = (if post then
                   if c = 13 \<and> O_FLAG x OCRNL then 10 else if c = 10 \<and> O_FLAG x ONLRET then 13 else c
                 else c) in
        if post \<and> c = 10 \<and> \<not> cr_flag s \<and> O_FLAG x ONLCR then
          write_chars fuel t b len n (putw 13 t (s\<lparr>cr_flag := True\<rparr>))
        else
          case (if post \<and> O_FLAG x OLCUC then toupper c else Some c) of
            None \<Rightarrow> Fault ''ctype''
          | Some c \<Rightarrow> write_chars fuel t b len (Suc n) (putw c t (s\<lparr>cr_flag := False\<rparr>)))"

fun tty_write_loop :: "nat \<Rightarrow> nat \<Rightarrow> u32 \<Rightarrow> nat \<Rightarrow> nat \<Rightarrow> 'a ttys_scheme \<Rightarrow> (nat, 'a ttys_scheme) res" where
  "tty_write_loop 0 t b len n s = Hang"
| "tty_write_loop (Suc fuel) t b len n s =
     (if len \<le> n then Ok n s
      else
        bind (sleep_if_full t s) (\<lambda>_ s.
        if signal (cur s) \<noteq> 0 then Ok n s
        else
          bind (write_chars (2 * len + 2) t b len n s) (\<lambda>n s.
          bind (tty_output t s) (\<lambda>_ s.
          bind (if n < len then yield s else Ok () s) (\<lambda>_ s.
          tty_write_loop fuel t b len n s)))))"

definition tty_write :: "nat \<Rightarrow> u32 \<Rightarrow> int \<Rightarrow> 'a ttys_scheme \<Rightarrow> (int, 'a ttys_scheme) res" where
  "tty_write channel buf nr s =
     (if 2 < channel \<or> nr < 0 then Ok (-1) s
      else bind (tty_write_loop (2 * nat nr + 2) channel buf (nat nr) 0 s) (\<lambda>n s. Ok (int n) s))"

end
