(* ===== verification/TtyIoctl.thy ===== *)
theory TtyIoctl
  imports Tty
begin

text \<open>
  \<open>kernel/chr_drv/tty_ioctl.c\<close>. The structures are copied to and from the user byte by byte, so their
  layout is written out: \<open>struct termios\<close> has 34 bytes and 2 of padding, \<open>struct termio\<close> 17 and 1. The
  padding of the static \<open>termios\<close> is the component \<open>t_pad\<close> here; that of the local \<open>termio\<close>, which the
  code never sets, is the parameter \<open>junk\<close>. \<open>wait_until_sent\<close> and \<open>send_break\<close> do nothing.
\<close>

record ttyc = ttys +
  t_pad :: "nat \<Rightarrow> u8 list"

definition quotient :: "u16 list" where
  "quotient = [0, 2304, 1536, 1047, 857, 768, 576, 384, 192, 96, 64, 48, 24, 12, 6, 3]"

definition CBAUD :: u32 where "CBAUD = 0xF"

definition change_speed :: "nat \<Rightarrow> 'a ttys_scheme \<Rightarrow> 'a ttys_scheme" where
  "change_speed t s =
     (let port = ucast (q_data (read_q (tt s t))) :: u16;
          quot = quotient ! unat (c_cflag (termios (tt s t)) AND CBAUD) in
      if port = 0 then s
      else s\<lparr>con := outb 0x03 (port + 3) (outb (ucast (drop_bit 8 quot)) (port + 1)
             (outb (ucast (quot AND 0xFF)) port (outb 0x80 (port + 3) (con s))))\<rparr>)"

definition flush :: "tty_queue \<Rightarrow> tty_queue" where
  "flush q = q\<lparr>q_head := q_tail q\<rparr>"

definition flush_read :: "nat \<Rightarrow> 'a ttys_scheme \<Rightarrow> 'a ttys_scheme" where
  "flush_read t = set_tt t (\<lambda>x. x\<lparr>read_q := flush (read_q x)\<rparr>)"

definition flush_write :: "nat \<Rightarrow> 'a ttys_scheme \<Rightarrow> 'a ttys_scheme" where
  "flush_write t = set_tt t (\<lambda>x. x\<lparr>write_q := flush (write_q x)\<rparr>)"

definition termios_bytes :: "termios \<Rightarrow> u8 list" where
  "termios_bytes x =
     put32 (c_iflag x) @ put32 (c_oflag x) @ put32 (c_cflag x) @ put32 (c_lflag x) @ [c_line x] @ c_cc x"

definition bytes_termios :: "u8 list \<Rightarrow> termios" where
  "bytes_termios d =
     \<lparr>c_iflag = get32 d 0, c_oflag = get32 d 4, c_cflag = get32 d 8, c_lflag = get32 d 12,
      c_line = d ! 16, c_cc = take 17 (drop 17 d)\<rparr>"

definition get_termios :: "nat \<Rightarrow> u32 \<Rightarrow> 'a ttyc_scheme \<Rightarrow> (int, 'a ttyc_scheme) res" where
  "get_termios t a s =
     bind (verify_area a 36 s) (\<lambda>_ s.
     Ok 0 (put_fs_bytes (termios_bytes (termios (tt s t)) @ t_pad s t) a s))"

definition set_termios :: "nat \<Rightarrow> u32 \<Rightarrow> 'a ttyc_scheme \<Rightarrow> (int, 'a ttyc_scheme) res" where
  "set_termios t a s =
     (let d = get_fs_bytes a 36 s;
          s = (set_tt t (\<lambda>x. x\<lparr>termios := bytes_termios d\<rparr>) s)\<lparr>t_pad := (t_pad s)(t := drop 34 d)\<rparr> in
      Ok 0 (change_speed t s))"

definition termio_bytes :: "termios \<Rightarrow> u8 list" where
  "termio_bytes x =
     put16 (ucast (c_iflag x)) @ put16 (ucast (c_oflag x)) @ put16 (ucast (c_cflag x)) @
     put16 (ucast (c_lflag x)) @ [c_line x] @ take 8 (c_cc x)"

definition get_termio :: "u8 \<Rightarrow> nat \<Rightarrow> u32 \<Rightarrow> 'a ttyc_scheme \<Rightarrow> (int, 'a ttyc_scheme) res" where
  "get_termio junk t a s =
     bind (verify_area a 18 s) (\<lambda>_ s.
     Ok 0 (put_fs_bytes (termio_bytes (termios (tt s t)) @ [junk]) a s))"

definition low_half :: "u32 \<Rightarrow> u16 \<Rightarrow> u32" where
  "low_half w v = (w AND 0xFFFF0000) OR ucast v"

definition set_termio :: "nat \<Rightarrow> u32 \<Rightarrow> 'a ttyc_scheme \<Rightarrow> (int, 'a ttyc_scheme) res" where
  "set_termio t a s =
     (let d = get_fs_bytes a 18 s;
          f = (\<lambda>x. x\<lparr>c_iflag := low_half (c_iflag x) (get16 d 0), c_oflag := low_half (c_oflag x) (get16 d 2),
                c_cflag := low_half (c_cflag x) (get16 d 4), c_lflag := low_half (c_lflag x) (get16 d 6),
                c_line := d ! 8, c_cc := take 8 (drop 9 d) @ drop 8 (c_cc x)\<rparr>) in
      Ok 0 (change_speed t (set_tt t (\<lambda>x. x\<lparr>termios := f (termios x)\<rparr>) s)))"

definition TCGETS :: u32 where "TCGETS = 0x5401"
definition TCSETS :: u32 where "TCSETS = 0x5402"
definition TCSETSW :: u32 where "TCSETSW = 0x5403"
definition TCSETSF :: u32 where "TCSETSF = 0x5404"
definition TCGETA :: u32 where "TCGETA = 0x5405"
definition TCSETA :: u32 where "TCSETA = 0x5406"
definition TCSETAW :: u32 where "TCSETAW = 0x5407"
definition TCSETAF :: u32 where "TCSETAF = 0x5408"
definition TCSBRK :: u32 where "TCSBRK = 0x5409"
definition TCFLSH :: u32 where "TCFLSH = 0x540B"
definition TIOCGPGRP :: u32 where "TIOCGPGRP = 0x540F"
definition TIOCSPGRP :: u32 where "TIOCSPGRP = 0x5410"
definition TIOCOUTQ :: u32 where "TIOCOUTQ = 0x5411"
definition TIOCINQ :: u32 where "TIOCINQ = 0x541B"

definition put_long_result :: "u32 \<Rightarrow> u32 \<Rightarrow> 'a kern_scheme \<Rightarrow> (int, 'a kern_scheme) res" where
  "put_long_result v a s = bind (verify_area a 4 s) (\<lambda>_ s. Ok 0 (put_fs_long v a s))"

text \<open>
  The terminal is \<open>dev + tty_table\<close>, whatever the minor number; there are only three. All the commands
  that are not listed return \<open>-EINVAL\<close>.
\<close>

definition tty_ioctl :: "u8 \<Rightarrow> u16 \<Rightarrow> u32 \<Rightarrow> u32 \<Rightarrow> 'a ttyc_scheme \<Rightarrow> (int, 'a ttyc_scheme) res" where
  "tty_ioctl junk dev cmd arg s =
     (if MAJOR dev = 5 \<and> tty (cur s) < 0 then Panic ''tty_ioctl: dev<0''
      else
        let t = (if MAJOR dev = 5 then nat (tty (cur s)) else MINOR dev) in
        if 3 \<le> t then Fault ''tty_table''
        else if cmd = TCGETS then get_termios t arg s
        else if cmd = TCSETSF then set_termios t arg (flush_read t s)
        else if cmd = TCSETSW \<or> cmd = TCSETS then set_termios t arg s
        else if cmd = TCGETA then get_termio junk t arg s
        else if cmd = TCSETAF then set_termio t arg (flush_read t s)
        else if cmd = TCSETAW \<or> cmd = TCSETA then set_termio t arg s
        else if cmd = TCSBRK then Ok 0 s
        else if cmd = TCFLSH then
          if arg = 0 then Ok 0 (flush_read t s)
          else if arg = 1 then Ok 0 (flush_write t s)
          else if arg = 2 then Ok 0 (flush_write t (flush_read t s))
          else Ok (- EINVAL) s
        else if cmd = TIOCGPGRP then put_long_result (of_int (t_pgrp (tt s t))) arg s
        else if cmd = TIOCSPGRP then Ok 0 (set_tt t (\<lambda>x. x\<lparr>t_pgrp := sint (get_fs_long arg s)\<rparr>) s)
        else if cmd = TIOCOUTQ then put_long_result (CHARS (write_q (tt s t))) arg s
        else if cmd = TIOCINQ then put_long_result (CHARS (secondary (tt s t))) arg s
        else Ok (- EINVAL) s)"

end
