(* ===== verification/FileIO.thy ===== *)
theory FileIO
  imports Super
begin

text \<open>
  Reading and writing: regular files (\<open>fs/file_dev.c\<close>), block devices (\<open>fs/block_dev.c\<close>) and pipes
  (\<open>fs/pipe.c\<close>, without \<open>sys_pipe\<close>). Every round of the loops moves at least one byte, so the count
  is fuel enough. The page of a pipe is physical memory, read and written by bytes.
\<close>

subsection \<open>Regular files\<close>

definition read_part :: "nat option \<Rightarrow> nat \<Rightarrow> u32 \<Rightarrow> int \<Rightarrow> 'a fs_scheme \<Rightarrow> (int, 'a fs_scheme) res" where
  "read_part bh f buf left s =
     (let nr = sint (f_pos (fil s f)) smod 1024;
          chars = min (1024 - nr) left;
          s = set_fil f (\<lambda>x. x\<lparr>f_pos := f_pos x + of_int chars\<rparr>) s;
          s = put_fs_bytes
                (case bh of
                   None \<Rightarrow> replicate (nat chars) 0
                 | Some b \<Rightarrow> take (nat chars) (drop (nat nr) (b_data (bf s b)))) buf s in
      bind (brelse bh s) (\<lambda>_ s. Ok chars s))"

text \<open>The block a part is read from: \<open>None\<close> is a read error, \<open>Some None\<close> a hole in the file.\<close>

definition read_source :: "nat \<Rightarrow> nat \<Rightarrow> 'a fs_scheme \<Rightarrow> (nat option option, 'a fs_scheme) res" where
  "read_source i f s =
     bind (bmap i (sint (f_pos (fil s f)) sdiv 1024) s) (\<lambda>nr s.
     if nr = 0 then Ok (Some None) s
     else
       bind (bread (i_dev (ino s i)) (ucast nr) s) (\<lambda>bh s.
       Ok (case bh of None \<Rightarrow> None | Some b \<Rightarrow> Some (Some b)) s))"

fun file_read_loop :: "nat \<Rightarrow> nat \<Rightarrow> nat \<Rightarrow> u32 \<Rightarrow> int \<Rightarrow> 'a fs_scheme \<Rightarrow> (int, 'a fs_scheme) res" where
  "file_read_loop 0 i f buf left s = Hang"
| "file_read_loop (Suc fuel) i f buf left s =
     (if left = 0 then Ok left s
      else
        bind (read_source i f s) (\<lambda>src s.
        case src of
          None \<Rightarrow> Ok left s
        | Some bh \<Rightarrow>
            bind (read_part bh f buf left s) (\<lambda>chars s.
            file_read_loop fuel i f (buf + of_int chars) (left - chars) s)))"

definition file_read :: "nat \<Rightarrow> nat \<Rightarrow> u32 \<Rightarrow> int \<Rightarrow> 'a fs_scheme \<Rightarrow> (int, 'a fs_scheme) res" where
  "file_read i f buf count s =
     (if count \<le> 0 then Ok 0 s
      else
        bind (file_read_loop (Suc (nat count)) i f buf count s) (\<lambda>left s.
        let s = set_ino i (\<lambda>x. x\<lparr>i_atime := now s\<rparr>) s in
        Ok (if count - left \<noteq> 0 then count - left else - ERROR_code) s))"

text \<open>The position is compared with the size as unsigned numbers, and divided as a signed one.\<close>

definition write_part ::
    "nat \<Rightarrow> nat \<Rightarrow> u32 \<Rightarrow> int \<Rightarrow> u32 \<Rightarrow> 'a fs_scheme \<Rightarrow> (int \<times> u32, 'a fs_scheme) res" where
  "write_part b i buf left pos s =
     (let off = sint pos smod 1024;
          s = set_bf b (\<lambda>x. x\<lparr>b_dirt := True\<rparr>) s;
          c = min (1024 - off) left;
          pos = pos + of_int c;
          s = (if i_size (ino s i) < pos
               then set_ino i (\<lambda>x. x\<lparr>i_size := pos, i_dirt := True\<rparr>) s else s);
          s = set_bf b (\<lambda>x. x\<lparr>b_data := splice (b_data x) (nat off) (get_fs_bytes buf (nat c) s)\<rparr>) s in
      bind (brelse (Some b) s) (\<lambda>_ s. Ok (c, pos) s))"

fun file_write_loop ::
    "nat \<Rightarrow> nat \<Rightarrow> u32 \<Rightarrow> int \<Rightarrow> u32 \<Rightarrow> int \<Rightarrow> 'a fs_scheme \<Rightarrow> (u32 \<times> int, 'a fs_scheme) res" where
  "file_write_loop 0 i buf count pos n s = Hang"
| "file_write_loop (Suc fuel) i buf count pos n s =
     (if count \<le> n then Ok (pos, n) s
      else
        bind (create_block i (sint pos sdiv 1024) s) (\<lambda>block s.
        if block = 0 then Ok (pos, n) s
        else
          bind (bread (i_dev (ino s i)) (ucast block) s) (\<lambda>bh s.
          case bh of
            None \<Rightarrow> Ok (pos, n) s
          | Some b \<Rightarrow>
              bind (write_part b i buf (count - n) pos s) (\<lambda>(c, pos) s.
              file_write_loop fuel i (buf + of_int c) count pos (n + c) s))))"

definition file_write :: "nat \<Rightarrow> nat \<Rightarrow> u32 \<Rightarrow> int \<Rightarrow> 'a fs_scheme \<Rightarrow> (int, 'a fs_scheme) res" where
  "file_write i f buf count s =
     (let append = ucast (f_flags (fil s f)) AND O_APPEND \<noteq> 0;
          pos = (if append then i_size (ino s i) else f_pos (fil s f)) in
      bind (file_write_loop (Suc (nat count)) i buf count pos 0 s) (\<lambda>(pos, n) s.
      let s = set_ino i (\<lambda>x. x\<lparr>i_mtime := now s\<rparr>) s;
          s = (if ucast (f_flags (fil s f)) AND O_APPEND = 0
               then set_ino i (\<lambda>x. x\<lparr>i_ctime := now s\<rparr>) (set_fil f (\<lambda>x. x\<lparr>f_pos := pos\<rparr>) s)
               else s) in
      Ok (if n \<noteq> 0 then n else -1) s))"

subsection \<open>Block devices\<close>

definition block_put :: "nat \<Rightarrow> nat \<Rightarrow> u32 \<Rightarrow> nat \<Rightarrow> nat \<Rightarrow> 'a fs_scheme \<Rightarrow> (unit, 'a fs_scheme) res" where
  "block_put b f buf off chars s =
     (let s = set_fil f (\<lambda>x. x\<lparr>f_pos := f_pos x + of_nat chars\<rparr>) s;
          s = set_bf b (\<lambda>x. x\<lparr>b_data := splice (b_data x) off (get_fs_bytes buf chars s), b_dirt := True\<rparr>) s in
      brelse (Some b) s)"

definition block_get :: "nat \<Rightarrow> nat \<Rightarrow> u32 \<Rightarrow> nat \<Rightarrow> nat \<Rightarrow> 'a fs_scheme \<Rightarrow> (unit, 'a fs_scheme) res" where
  "block_get b f buf off chars s =
     (let s = set_fil f (\<lambda>x. x\<lparr>f_pos := f_pos x + of_nat chars\<rparr>) s;
          s = put_fs_bytes (take chars (drop off (b_data (bf s b)))) buf s in
      brelse (Some b) s)"

text \<open>The part of \<open>count\<close> bytes that is in one block, from offset \<open>off\<close>.\<close>

definition block_part :: "nat \<Rightarrow> int \<Rightarrow> nat" where
  "block_part off count = min (1024 - off) (nat count)"

definition block_for_write :: "u16 \<Rightarrow> u32 \<Rightarrow> nat \<Rightarrow> 'a fs_scheme \<Rightarrow> (nat option, 'a fs_scheme) res" where
  "block_for_write dev block chars s =
     (if chars = 1024 then bind (getblk dev block s) (\<lambda>bh s. Ok (Some bh) s)
      else breada dev block [block + 1, block + 2] s)"

fun block_write_loop ::
    "nat \<Rightarrow> u16 \<Rightarrow> nat \<Rightarrow> u32 \<Rightarrow> int \<Rightarrow> u32 \<Rightarrow> nat \<Rightarrow> int \<Rightarrow> 'a fs_scheme \<Rightarrow> (int, 'a fs_scheme) res" where
  "block_write_loop 0 dev f buf count block off written s = Hang"
| "block_write_loop (Suc fuel) dev f buf count block off written s =
     (if count \<le> 0 then Ok written s
      else
        bind (block_for_write dev block (block_part off count) s) (\<lambda>bh s.
        case bh of
          None \<Rightarrow> Ok (if written \<noteq> 0 then written else - EIO) s
        | Some b \<Rightarrow>
            bind (block_put b f buf off (block_part off count) s) (\<lambda>_ s.
            block_write_loop fuel dev f (buf + of_nat (block_part off count)) (count - int (block_part off count))
              (block + 1) 0 (written + int (block_part off count)) s)))"

definition block_write :: "u16 \<Rightarrow> nat \<Rightarrow> u32 \<Rightarrow> int \<Rightarrow> 'a fs_scheme \<Rightarrow> (int, 'a fs_scheme) res" where
  "block_write dev f buf count s =
     block_write_loop (Suc (nat count)) dev f buf count (signed_drop_bit 10 (f_pos (fil s f)))
       (unat (f_pos (fil s f) AND 0x3FF)) 0 s"

fun block_read_loop ::
    "nat \<Rightarrow> u16 \<Rightarrow> nat \<Rightarrow> u32 \<Rightarrow> int \<Rightarrow> u32 \<Rightarrow> nat \<Rightarrow> int \<Rightarrow> 'a fs_scheme \<Rightarrow> (int, 'a fs_scheme) res" where
  "block_read_loop 0 dev f buf count block off n s = Hang"
| "block_read_loop (Suc fuel) dev f buf count block off n s =
     (if count \<le> 0 then Ok n s
      else
        bind (breada dev block [block + 1, block + 2] s) (\<lambda>bh s.
        case bh of
          None \<Rightarrow> Ok (if n \<noteq> 0 then n else - EIO) s
        | Some b \<Rightarrow>
            bind (block_get b f buf off (block_part off count) s) (\<lambda>_ s.
            block_read_loop fuel dev f (buf + of_nat (block_part off count)) (count - int (block_part off count))
              (block + 1) 0 (n + int (block_part off count)) s)))"

definition block_read :: "u16 \<Rightarrow> nat \<Rightarrow> u32 \<Rightarrow> int \<Rightarrow> 'a fs_scheme \<Rightarrow> (int, 'a fs_scheme) res" where
  "block_read dev f buf count s =
     block_read_loop (Suc (nat count)) dev f buf count (drop_bit 10 (f_pos (fil s f)))
       (unat (f_pos (fil s f) AND 0x3FF)) 0 s"

subsection \<open>Pipes\<close>

text \<open>A byte of physical memory, whose words are little-endian.\<close>

definition phys_byte :: "u32 \<Rightarrow> 'a mm_scheme \<Rightarrow> u8" where
  "phys_byte a s = ucast (drop_bit (8 * unat (a AND 3)) (phys s (a AND NOT 3)))"

definition set_phys_byte :: "u32 \<Rightarrow> u8 \<Rightarrow> 'a mm_scheme \<Rightarrow> 'a mm_scheme" where
  "set_phys_byte a v s =
     (let k = 8 * unat (a AND 3); w = phys s (a AND NOT 3) in
      poke (a AND NOT 3) ((w AND NOT (push_bit k 0xFF)) OR push_bit k (ucast v)) s)"

definition PIPE_HEAD :: "m_inode \<Rightarrow> u16" where "PIPE_HEAD x = i_zone x ! 0"
definition PIPE_TAIL :: "m_inode \<Rightarrow> u16" where "PIPE_TAIL x = i_zone x ! 1"
definition PIPE_SIZE :: "m_inode \<Rightarrow> nat" where
  "PIPE_SIZE x = unat ((PIPE_HEAD x - PIPE_TAIL x) AND 0xFFF)"

text \<open>\<open>wake_up(&inode->i_wait)\<close>.\<close>

definition wake_inode :: "nat \<Rightarrow> 'a fs_scheme \<Rightarrow> 'a fs_scheme" where
  "wake_inode i s =
     (case wake_up (i_wait (ino s i)) s of (q, s) \<Rightarrow> set_ino i (\<lambda>x. x\<lparr>i_wait := q\<rparr>) s)"

definition sleep_inode :: "nat \<Rightarrow> 'a fs_scheme \<Rightarrow> ('b, 'a fs_scheme) res" where
  "sleep_inode i s = sleep_in (i_wait (ino s i)) (\<lambda>q. set_ino i (\<lambda>x. x\<lparr>i_wait := q\<rparr>)) s"

definition copy_from_page :: "u32 \<Rightarrow> nat \<Rightarrow> nat \<Rightarrow> u32 \<Rightarrow> 'a fs_scheme \<Rightarrow> 'a fs_scheme" where
  "copy_from_page page off n buf s =
     put_fs_bytes (List.map (\<lambda>k. phys_byte (page + of_nat (off + k)) s) [0..<n]) buf s"

definition copy_to_page :: "u32 \<Rightarrow> nat \<Rightarrow> nat \<Rightarrow> u32 \<Rightarrow> 'a fs_scheme \<Rightarrow> 'a fs_scheme" where
  "copy_to_page page off n buf s =
     fold (\<lambda>k s. set_phys_byte (page + of_nat (off + k)) (get_fs_byte (buf + of_nat k) s) s) [0..<n] s"

text \<open>One round of the loops: the number of bytes, and the transfer.\<close>

definition pipe_take_size :: "nat \<Rightarrow> int \<Rightarrow> 'a fs_scheme \<Rightarrow> nat" where
  "pipe_take_size i count s =
     min (min (4096 - unat (PIPE_TAIL (ino s i))) (nat count)) (PIPE_SIZE (ino s i))"

definition pipe_take :: "nat \<Rightarrow> u32 \<Rightarrow> nat \<Rightarrow> 'a fs_scheme \<Rightarrow> 'a fs_scheme" where
  "pipe_take i buf chars s =
     (let tail = PIPE_TAIL (ino s i);
          s = set_ino i (\<lambda>x. x\<lparr>i_zone := (i_zone x)[1 := (tail + of_nat chars) AND 0xFFF]\<rparr>) s in
      copy_from_page (i_size (ino s i)) (unat tail) chars buf s)"

fun read_pipe_loop :: "nat \<Rightarrow> nat \<Rightarrow> u32 \<Rightarrow> int \<Rightarrow> int \<Rightarrow> 'a fs_scheme \<Rightarrow> (int, 'a fs_scheme) res" where
  "read_pipe_loop 0 i buf count n s = Hang"
| "read_pipe_loop (Suc fuel) i buf count n s =
     (if count \<le> 0 then Ok n (wake_inode i s)
      else if PIPE_SIZE (ino s i) = 0 then
        if i_count (ino s i) \<noteq> 2 then Ok n (wake_inode i s) else sleep_inode i (wake_inode i s)
      else
        read_pipe_loop fuel i (buf + of_nat (pipe_take_size i count s)) (count - int (pipe_take_size i count s))
          (n + int (pipe_take_size i count s)) (pipe_take i buf (pipe_take_size i count s) s))"

definition read_pipe :: "nat \<Rightarrow> u32 \<Rightarrow> int \<Rightarrow> 'a fs_scheme \<Rightarrow> (int, 'a fs_scheme) res" where
  "read_pipe i buf count = read_pipe_loop (Suc (nat count)) i buf count 0"

definition SIGPIPE :: int where "SIGPIPE = 13"

definition pipe_put_size :: "nat \<Rightarrow> int \<Rightarrow> 'a fs_scheme \<Rightarrow> nat" where
  "pipe_put_size i count s =
     min (min (4096 - unat (PIPE_HEAD (ino s i))) (nat count)) (4095 - PIPE_SIZE (ino s i))"

definition pipe_put :: "nat \<Rightarrow> u32 \<Rightarrow> nat \<Rightarrow> 'a fs_scheme \<Rightarrow> 'a fs_scheme" where
  "pipe_put i buf chars s =
     (let head = PIPE_HEAD (ino s i);
          s = set_ino i (\<lambda>x. x\<lparr>i_zone := (i_zone x)[0 := (head + of_nat chars) AND 0xFFF]\<rparr>) s in
      copy_to_page (i_size (ino s i)) (unat head) chars buf s)"

definition broken_pipe :: "int \<Rightarrow> 'a fs_scheme \<Rightarrow> (int, 'a fs_scheme) res" where
  "broken_pipe n s =
     Ok (if n \<noteq> 0 then n else -1) (upd_cur (\<lambda>p. p\<lparr>signal := signal p OR sigbit SIGPIPE\<rparr>) s)"

fun write_pipe_loop :: "nat \<Rightarrow> nat \<Rightarrow> u32 \<Rightarrow> int \<Rightarrow> int \<Rightarrow> 'a fs_scheme \<Rightarrow> (int, 'a fs_scheme) res" where
  "write_pipe_loop 0 i buf count n s = Hang"
| "write_pipe_loop (Suc fuel) i buf count n s =
     (if count \<le> 0 then Ok n (wake_inode i s)
      else if PIPE_SIZE (ino s i) = 4095 then
        if i_count (ino s i) \<noteq> 2 then broken_pipe n (wake_inode i s) else sleep_inode i (wake_inode i s)
      else
        write_pipe_loop fuel i (buf + of_nat (pipe_put_size i count s)) (count - int (pipe_put_size i count s))
          (n + int (pipe_put_size i count s)) (pipe_put i buf (pipe_put_size i count s) s))"

definition write_pipe :: "nat \<Rightarrow> u32 \<Rightarrow> int \<Rightarrow> 'a fs_scheme \<Rightarrow> (int, 'a fs_scheme) res" where
  "write_pipe i buf count = write_pipe_loop (Suc (nat count)) i buf count 0"

end
