(* ===== verification/ReadWrite.thy ===== *)
theory ReadWrite
  imports TtyIoctl FileIO Vsprintf
begin

text \<open>
  \<open>fs/read_write.c\<close> with what it calls: character devices (\<open>fs/char_dev.c\<close>) and the files of \<open>/proc\<close>
  (\<open>fs/proc.c\<close>). The static variables \<open>p\<close> of \<open>pro_ps\<close> and \<open>pro_hd\<close> are components of the state. Their
  buffer \<open>tmpbuf\<close> is on the stack and keeps what was there: the parameter \<open>stack\<close>.
\<close>

record kst = ttyc +
  ps_p :: int
  hd_p :: int

subsection \<open>Character devices\<close>

fun rw_port_loop :: "nat \<Rightarrow> bool \<Rightarrow> int \<Rightarrow> u32 \<Rightarrow> 'a ttys_scheme \<Rightarrow> int \<times> 'a ttys_scheme" where
  "rw_port_loop 0 rd i buf s = (i, s)"
| "rw_port_loop (Suc n) rd i buf s =
     (if 65536 \<le> i then (i, s)
      else rw_port_loop n rd (i + 1) (buf + 1)
        (if rd then put_fs_byte (port_in (con s) (of_int i)) buf s
         else s\<lparr>con := outb (get_fs_byte buf s) (of_int i) (con s)\<rparr>))"

definition rw_port :: "bool \<Rightarrow> u32 \<Rightarrow> int \<Rightarrow> nat \<Rightarrow> 'a ttys_scheme \<Rightarrow> (int, 'a ttys_scheme) res" where
  "rw_port rd buf count f s =
     (let pos = sint (f_pos (fil s f)) in
      case rw_port_loop (nat count) rd pos buf s of (i, s) \<Rightarrow>
      Ok (i - pos) (set_fil f (\<lambda>x. x\<lparr>f_pos := f_pos x + of_int (i - pos)\<rparr>) s))"

definition rw_memory :: "bool \<Rightarrow> nat \<Rightarrow> u32 \<Rightarrow> int \<Rightarrow> nat \<Rightarrow> 'a ttys_scheme \<Rightarrow> (int, 'a ttys_scheme) res" where
  "rw_memory rd minor buf count f s =
     (if minor = 3 then Ok (if rd then 0 else count) s
      else if minor = 4 then rw_port rd buf count f s
      else Ok (- EIO) s)"

definition rw_ttyx :: "bool \<Rightarrow> nat \<Rightarrow> u32 \<Rightarrow> int \<Rightarrow> 'a ttys_scheme \<Rightarrow> (int, 'a ttys_scheme) res" where
  "rw_ttyx rd minor buf count s = (if rd then tty_read minor buf count s else tty_write minor buf count s)"

definition rw_tty :: "bool \<Rightarrow> u32 \<Rightarrow> int \<Rightarrow> 'a ttys_scheme \<Rightarrow> (int, 'a ttys_scheme) res" where
  "rw_tty rd buf count s =
     (if tty (cur s) < 0 then Ok (- EPERM) s else rw_ttyx rd (nat (tty (cur s))) buf count s)"

text \<open>The device table has entries for the majors 1, 4 and 5 only.\<close>

definition rw_char :: "bool \<Rightarrow> u16 \<Rightarrow> u32 \<Rightarrow> int \<Rightarrow> nat \<Rightarrow> 'a ttys_scheme \<Rightarrow> (int, 'a ttys_scheme) res" where
  "rw_char rd dev buf count f s =
     (if MAJOR dev = 1 then rw_memory rd (MINOR dev) buf count f s
      else if MAJOR dev = 4 then rw_ttyx rd (MINOR dev) buf count s
      else if MAJOR dev = 5 then rw_tty rd buf count s
      else Ok (- ENODEV) s)"

subsection \<open>Files of \<open>/proc\<close>\<close>

text \<open>\<open>sprint(tbuf, ...)\<close> into a buffer at an offset, with the terminating zero.\<close>

definition sprint_at :: "nat \<Rightarrow> string \<Rightarrow> varg list \<Rightarrow> u8 list \<Rightarrow> u8 list option" where
  "sprint_at off fmt args b =
     (case vsprintf fmt args of
        None \<Rightarrow> None
      | Some (out, n, st) \<Rightarrow>
          if off + length out < length b then Some (splice b off (List.map of_char out @ [0])) else None)"

definition PS_WIDTH :: nat where "PS_WIDTH = 51"

definition ps_head :: string where
  "ps_head = ''pid       state     father    conter    start_time'' @ [CHR 0x0A]"

definition ps_format :: string where
  "ps_format = ''%-010d%-010d%-010d%-010d%-010d'' @ [CHR 0x0A]"

text \<open>The lines of \<open>pro_ps\<close>, for the tasks from \<open>i\<close> on; \<open>p\<close> bytes are in use.\<close>

fun ps_lines :: "nat \<Rightarrow> nat \<Rightarrow> nat \<Rightarrow> u8 list \<Rightarrow> 'a kern_scheme \<Rightarrow> (nat \<times> u8 list) option" where
  "ps_lines 0 i p b s = Some (p, b)"
| "ps_lines (Suc n) i p b s =
     (if \<not> live s i then ps_lines n (Suc i) p b s
      else
        case sprint_at p ps_format
               [VInt (of_int (pid (ts s i))), VInt (of_int (state (ts s i))), VInt (of_int (father (ts s i))),
                VInt (of_int (counter (ts s i))), VInt (of_int (start_time (ts s i)))] b of
          None \<Rightarrow> None
        | Some b \<Rightarrow>
            if 1024 \<le> p + PS_WIDTH + PS_WIDTH then Some (p + PS_WIDTH, b)
            else ps_lines n (Suc i) (p + PS_WIDTH) b s)"

definition ps_table :: "u8 list \<Rightarrow> 'a kern_scheme \<Rightarrow> (nat \<times> u8 list) option" where
  "ps_table b s =
     (case sprint_at 0 ps_head [] b of
        None \<Rightarrow> None
      | Some b \<Rightarrow>
          case ps_lines NR_TASKS 0 PS_WIDTH b s of
            None \<Rightarrow> None
          | Some (p, b) \<Rightarrow> if p + 1 < length b then Some (p, b[p + 1 := 0]) else None)"

text \<open>
  Copying out \<open>n\<close> bytes of the buffer from the file position on, which moves along; the end of both
  routines is the same, with \<open>p\<close> the static variable before and after.
\<close>

fun copy_out :: "nat \<Rightarrow> u8 list \<Rightarrow> u32 \<Rightarrow> nat \<Rightarrow> 'a fs_scheme \<Rightarrow> (unit, 'a fs_scheme) res" where
  "copy_out 0 b buf f s = Ok () s"
| "copy_out (Suc n) b buf f s =
     (if length b \<le> unat (f_pos (fil s f)) then Fault ''tmpbuf''
      else copy_out n b (buf + 1) f
        (set_fil f (\<lambda>x. x\<lparr>f_pos := f_pos x + 1\<rparr>) (put_fs_byte (b ! unat (f_pos (fil s f))) buf s)))"

definition proc_out :: "int \<Rightarrow> u8 list \<Rightarrow> u32 \<Rightarrow> int \<Rightarrow> nat \<Rightarrow> 'a fs_scheme \<Rightarrow> (int \<times> int, 'a fs_scheme) res" where
  "proc_out p b buf count f s =
     (if count < p then bind (copy_out (nat count) b buf f s) (\<lambda>_ s. Ok (count, p - count) s)
      else bind (copy_out (nat p) b buf f s) (\<lambda>_ s. Ok (max 0 p, 0) s))"

definition pro_ps :: "(nat \<Rightarrow> u8) \<Rightarrow> nat \<Rightarrow> u32 \<Rightarrow> int \<Rightarrow> 'a kst_scheme \<Rightarrow> (int, 'a kst_scheme) res" where
  "pro_ps stack f buf count s =
     (let b = List.map stack [0..<1024] in
      bind (if f_pos (fil s f) = 0 then
              case ps_table b s of
                None \<Rightarrow> Fault ''tmpbuf''
              | Some (p, b) \<Rightarrow> Ok b (s\<lparr>ps_p := int p\<rparr>)
            else Ok b s) (\<lambda>b s.
      bind (proc_out (ps_p s) b buf count f s) (\<lambda>(n, p) s. Ok n (s\<lparr>ps_p := p\<rparr>))))"

text \<open>
  The zones in use, as \<open>pro_hd\<close> counts them: it shifts the byte of the map right by the number of the
  bit and does not mask what is left.
\<close>

definition used_in_block :: "u8 list \<Rightarrow> nat" where
  "used_in_block d =
     length (filter (\<lambda>j. sint (d ! (j div 8)) div 2 ^ (j mod 8) \<noteq> 0) [0..<8192])"

fun used_blocks :: "nat \<Rightarrow> nat option list \<Rightarrow> 'a fs_scheme \<Rightarrow> nat option" where
  "used_blocks 0 maps s = Some 0"
| "used_blocks (Suc n) [] s = None"
| "used_blocks (Suc n) (None # maps) s = None"
| "used_blocks (Suc n) (Some bh # maps) s =
     map_option (\<lambda>k. used_in_block (b_data (bf s bh)) + k) (used_blocks n maps s)"

definition hd_line :: "string \<Rightarrow> int \<Rightarrow> nat \<Rightarrow> u8 list option \<Rightarrow> u8 list option" where
  "hd_line label v off b =
     (case b of None \<Rightarrow> None | Some b \<Rightarrow> sprint_at off (label @ ''%-08d'' @ [CHR 0x0A]) [VInt (of_int v)] b)"

definition pro_hd :: "(nat \<Rightarrow> u8) \<Rightarrow> nat \<Rightarrow> nat \<Rightarrow> u32 \<Rightarrow> int \<Rightarrow> 'a kst_scheme \<Rightarrow> (int, 'a kst_scheme) res" where
  "pro_hd stack i f buf count s =
     (let b = List.map stack [0..<256] in
      bind (if f_pos (fil s f) = 0 then
              bind (get_super (i_dev (ino s i)) s) (\<lambda>sb s.
              case sb of
                None \<Rightarrow> Fault ''null super block''
              | Some k \<Rightarrow>
                  let all = int (unat (s_nzones (sbl s k))) in
                  case used_blocks (unat (s_zmap_blocks (sbl s k))) (s_zmap (sbl s k)) s of
                    None \<Rightarrow> Fault ''zone map''
                  | Some used \<Rightarrow>
                      case hd_line ''free_blocks:   '' (all - int used) 48
                             (hd_line ''used_blocks:   '' (int used) 24
                               (hd_line ''total_blocks:  '' all 0 (Some b))) of
                        None \<Rightarrow> Fault ''tmpbuf''
                      | Some b \<Rightarrow> Ok b (s\<lparr>hd_p := hd_p s + 72\<rparr>))
            else Ok b s) (\<lambda>b s.
      bind (proc_out (hd_p s) b buf count f s) (\<lambda>(n, p) s. Ok n (s\<lparr>hd_p := p\<rparr>))))"

text \<open>Of the four files of \<open>nodeproc\<close>, with devices 1 to 4, two are there.\<close>

definition proc_read ::
    "(nat \<Rightarrow> u8) \<Rightarrow> nat \<Rightarrow> nat \<Rightarrow> u32 \<Rightarrow> int \<Rightarrow> 'a kst_scheme \<Rightarrow> (int, 'a kst_scheme) res" where
  "proc_read stack i f buf count s =
     (if i_zone (ino s i) ! 0 = 0 \<or> buf = 0 then Ok (- ERROR_code) s
      else if count < 1 then Ok 0 s
      else if i_zone (ino s i) ! 0 = 1 then pro_ps stack f buf count s
      else if i_zone (ino s i) ! 0 = 2 then pro_hd stack i f buf count s
      else Ok 0 s)"

definition proc_write :: int where "proc_write = 0"

subsection \<open>The system calls\<close>

definition IS_SEEKABLE :: "nat \<Rightarrow> bool" where "IS_SEEKABLE x \<longleftrightarrow> 1 \<le> x \<and> x \<le> 3"

definition file_of :: "u32 \<Rightarrow> 'a kern_scheme \<Rightarrow> nat option" where
  "file_of fd s = (if NR_OPEN \<le> unat fd then None else filp (cur s) ! unat fd)"

definition sys_lseek :: "u32 \<Rightarrow> u32 \<Rightarrow> int \<Rightarrow> 'a fs_scheme \<Rightarrow> int \<times> 'a fs_scheme" where
  "sys_lseek fd offset orig s =
     (case file_of fd s of
        None \<Rightarrow> (- EBADF, s)
      | Some f \<Rightarrow>
          case f_inode (fil s f) of
            None \<Rightarrow> (- EBADF, s)
          | Some i \<Rightarrow>
              let to = (\<lambda>p. if sint p < 0 then (- EINVAL, s)
                            else (sint p, set_fil f (\<lambda>x. x\<lparr>f_pos := p\<rparr>) s)) in
              if \<not> IS_SEEKABLE (MAJOR (i_dev (ino s i))) then (- EBADF, s)
              else if i_pipe (ino s i) then (- ESPIPE, s)
              else if orig = 0 then to offset
              else if orig = 1 then to (f_pos (fil s f) + offset)
              else if orig = 2 then to (i_size (ino s i) + offset)
              else (- EINVAL, s))"

text \<open>The size left in the file, where the code compares and subtracts unsigned numbers.\<close>

definition read_limit :: "int \<Rightarrow> u32 \<Rightarrow> u32 \<Rightarrow> int" where
  "read_limit count pos len = (if len < of_int count + pos then sint (len - pos) else count)"

definition sys_read ::
    "(nat \<Rightarrow> u8) \<Rightarrow> u32 \<Rightarrow> u32 \<Rightarrow> int \<Rightarrow> 'a kst_scheme \<Rightarrow> (int, 'a kst_scheme) res" where
  "sys_read stack fd buf count s =
     (if count < 0 then Ok (- EINVAL) s
      else
        case file_of fd s of
          None \<Rightarrow> Ok (- EINVAL) s
        | Some f \<Rightarrow>
            if count = 0 then Ok 0 s
            else
              bind (verify_area buf count s) (\<lambda>_ s.
              case f_inode (fil s f) of
                None \<Rightarrow> Fault ''null inode''
              | Some i \<Rightarrow>
                  let m = i_mode (ino s i) in
                  if i_pipe (ino s i) then
                    if f_mode (fil s f) AND 1 \<noteq> 0 then read_pipe i buf count s else Ok (- EIO) s
                  else if S_ISCHR m then rw_char True (i_zone (ino s i) ! 0) buf count f s
                  else if S_ISBLK m then block_read (i_zone (ino s i) ! 0) f buf count s
                  else if S_ISDIR m \<or> S_ISREG m then
                    let n = read_limit count (f_pos (fil s f)) (i_size (ino s i)) in
                    if n \<le> 0 then Ok 0 s else file_read i f buf n s
                  else if S_ISPROC m then proc_read stack i f buf count s
                  else Ok (- EINVAL) s))"

definition sys_write :: "u32 \<Rightarrow> u32 \<Rightarrow> int \<Rightarrow> 'a kst_scheme \<Rightarrow> (int, 'a kst_scheme) res" where
  "sys_write fd buf count s =
     (if count < 0 then Ok (- EINVAL) s
      else
        case file_of fd s of
          None \<Rightarrow> Ok (- EINVAL) s
        | Some f \<Rightarrow>
            if count = 0 then Ok 0 s
            else
              case f_inode (fil s f) of
                None \<Rightarrow> Fault ''null inode''
              | Some i \<Rightarrow>
                  let m = i_mode (ino s i) in
                  if i_pipe (ino s i) then
                    if f_mode (fil s f) AND 2 \<noteq> 0 then write_pipe i buf count s else Ok (- EIO) s
                  else if S_ISCHR m then rw_char False (i_zone (ino s i) ! 0) buf count f s
                  else if S_ISBLK m then block_write (i_zone (ino s i) ! 0) f buf count s
                  else if S_ISREG m then file_write i f buf count s
                  else if S_ISPROC m then Ok proc_write s
                  else Ok (- EINVAL) s)"

end
