(* ===== verification/Namei.thy ===== *)
theory Namei
  imports Super
begin

text \<open>
  Path names and directories, \<open>fs/namei.c\<close>. A directory is a file of 16-byte entries, 64 to a block:
  two bytes of inode number and fourteen of name. A directory entry the code points to is the
  buffer it is in and its number there. Names are in the memory of the current task.
\<close>

definition MAY_EXEC :: u32 where "MAY_EXEC = 1"
definition MAY_WRITE :: u32 where "MAY_WRITE = 2"
definition MAY_READ :: u32 where "MAY_READ = 4"
definition I_DIRECTORY :: u16 where "I_DIRECTORY = 0x4000"
definition I_REGULAR :: u32 where "I_REGULAR = 0x8000"

text \<open>\<open>"\004\002\006\377"[x & 3]\<close>; the characters are signed.\<close>

definition ACC_MODE :: "u32 \<Rightarrow> u32" where
  "ACC_MODE x =
     (if x AND O_ACCMODE = 0 then 4 else if x AND O_ACCMODE = 1 then 2
      else if x AND O_ACCMODE = 2 then 6 else -1)"

definition permission :: "nat \<Rightarrow> u32 \<Rightarrow> 'a fs_scheme \<Rightarrow> bool" where
  "permission i msk s =
     (let mode = ucast (i_mode (ino s i)) :: u32 in
      if i_dev (ino s i) \<noteq> 0 \<and> i_nlinks (ino s i) = 0 then False
      else
        let mode = (if euid (cur s) = i_uid (ino s i) then drop_bit 6 mode
                    else if egid (cur s) = ucast (i_gid (ino s i)) then drop_bit 3 mode
                    else mode) in
        mode AND msk AND 7 = msk \<or> suser s)"

subsection \<open>Directory entries\<close>

definition de_inode :: "nat \<Rightarrow> nat \<Rightarrow> 'a fs_scheme \<Rightarrow> u16" where
  "de_inode bh k s = get16 (b_data (bf s bh)) (16 * k)"

definition de_name :: "nat \<Rightarrow> nat \<Rightarrow> nat \<Rightarrow> 'a fs_scheme \<Rightarrow> u8" where
  "de_name bh k j s = b_data (bf s bh) ! (16 * k + 2 + j)"

definition set_de_inode :: "nat \<Rightarrow> nat \<Rightarrow> u16 \<Rightarrow> 'a fs_scheme \<Rightarrow> 'a fs_scheme" where
  "set_de_inode bh k n s = set_bf bh (\<lambda>b. b\<lparr>b_data := splice (b_data b) (16 * k) (put16 n)\<rparr>) s"

definition set_de_name :: "nat \<Rightarrow> nat \<Rightarrow> u8 list \<Rightarrow> 'a fs_scheme \<Rightarrow> 'a fs_scheme" where
  "set_de_name bh k n s = set_bf bh (\<lambda>b. b\<lparr>b_data := splice (b_data b) (16 * k + 2) n\<rparr>) s"

definition mark_dirty :: "nat \<Rightarrow> 'a fs_scheme \<Rightarrow> 'a fs_scheme" where
  "mark_dirty bh = set_bf bh (\<lambda>b. b\<lparr>b_dirt := True\<rparr>)"

text \<open>The callers pass a length that is not 0.\<close>

definition match :: "nat \<Rightarrow> u32 \<Rightarrow> nat \<Rightarrow> nat \<Rightarrow> 'a fs_scheme \<Rightarrow> bool" where
  "match len name bh k s =
     (if de_inode bh k s = 0 \<or> NAME_LEN < len then False
      else if len < NAME_LEN \<and> de_name bh k len s \<noteq> 0 then False
      else \<forall>j \<in> set [0..<len]. get_fs_byte (name + of_nat j) s = de_name bh k j s)"

text \<open>
  The loop of \<open>find_entry\<close> at entry \<open>i\<close> of the directory, entry \<open>k\<close> of the buffer. After a block
  that cannot be had, \<open>bh\<close> is \<open>NULL\<close> and \<open>de\<close> still at the end of the block before.
\<close>

fun find_scan ::
    "nat \<Rightarrow> nat \<Rightarrow> nat \<Rightarrow> nat \<Rightarrow> u32 \<Rightarrow> nat \<Rightarrow> nat option \<Rightarrow> nat \<Rightarrow> 'a fs_scheme \<Rightarrow>
     ((nat \<times> nat) option, 'a fs_scheme) res" where
  "find_scan 0 i entries dir name len bh k s = Hang"
| "find_scan (Suc fuel) i entries dir name len bh k s =
     (if entries \<le> i then bind (brelse bh s) (\<lambda>_ s. Ok None s)
      else
        let next_block =
          bind (brelse bh s) (\<lambda>_ s.
          bind (bmap dir (int (i div DIR_ENTRIES_PER_BLOCK)) s) (\<lambda>block s.
          bind (if block = 0 then Ok None s else bread (i_dev (ino s dir)) (ucast block) s) (\<lambda>bh s.
          case bh of
            None \<Rightarrow> find_scan fuel (i + DIR_ENTRIES_PER_BLOCK) entries dir name len None k s
          | Some _ \<Rightarrow> find_scan fuel i entries dir name len bh 0 s))) in
        case bh of
          None \<Rightarrow> next_block
        | Some b \<Rightarrow>
            if DIR_ENTRIES_PER_BLOCK \<le> k then next_block
            else if match len name b k s then Ok (Some (b, k)) s
            else find_scan fuel (Suc i) entries dir name len bh (Suc k) s)"

text \<open>The special cases of \<open>..\<close>: the length of the name and the directory to search.\<close>

definition dotdot :: "nat \<Rightarrow> u32 \<Rightarrow> nat \<Rightarrow> 'a fs_scheme \<Rightarrow> (nat \<times> nat, 'a fs_scheme) res" where
  "dotdot dir name len s =
     (if len = 2 \<and> get_fs_byte name s = 46 \<and> get_fs_byte (name + 1) s = 46 then
        if root (cur s) = Some dir then Ok (dir, 1) s
        else if i_num (ino s dir) = ROOT_INO then
          bind (get_super (i_dev (ino s dir)) s) (\<lambda>sb s.
          case sb of
            None \<Rightarrow> Fault ''null super block''
          | Some sb \<Rightarrow>
              if s_imount (sbl s sb) \<noteq> None then
                bind (iput (Some dir) s) (\<lambda>_ s.
                case s_imount (sbl s sb) of
                  None \<Rightarrow> Fault ''null inode''
                | Some d \<Rightarrow> Ok (d, len) (set_ino d (\<lambda>x. x\<lparr>i_count := i_count x + 1\<rparr>) s))
              else Ok (dir, len) s)
        else Ok (dir, len) s
      else Ok (dir, len) s)"

definition find_entry ::
    "nat \<Rightarrow> u32 \<Rightarrow> nat \<Rightarrow> 'a fs_scheme \<Rightarrow> (nat \<times> (nat \<times> nat) option, 'a fs_scheme) res" where
  "find_entry dir name namelen s =
     (let len = min namelen NAME_LEN; entries = unat (i_size (ino s dir)) div 16 in
      if len = 0 then Ok (dir, None) s
      else
        bind (dotdot dir name len s) (\<lambda>(dir, len) s.
        let block = i_zone (ino s dir) ! 0 in
        if block = 0 then Ok (dir, None) s
        else
          bind (bread (i_dev (ino s dir)) (ucast block) s) (\<lambda>bh s.
          case bh of
            None \<Rightarrow> Ok (dir, None) s
          | Some _ \<Rightarrow>
              bind (find_scan (2 * entries + 2) 0 entries dir name len bh 0 s) (\<lambda>r s. Ok (dir, r) s))))"

text \<open>
  The loop of \<open>add_entry\<close>, which ends at a free entry, at a block that cannot be created, or in the
  panic of \<open>create_block\<close>.
\<close>

definition user_name :: "u32 \<Rightarrow> nat \<Rightarrow> 'a fs_scheme \<Rightarrow> u8 list" where
  "user_name name len s =
     List.map (\<lambda>i. if i < len then get_fs_byte (name + of_nat i) s else 0) [0..<NAME_LEN]"

fun add_scan ::
    "nat \<Rightarrow> nat \<Rightarrow> nat \<Rightarrow> u32 \<Rightarrow> nat \<Rightarrow> nat option \<Rightarrow> nat \<Rightarrow> 'a fs_scheme \<Rightarrow>
     ((nat \<times> nat) option, 'a fs_scheme) res" where
  "add_scan 0 i dir name len bh k s = Hang"
| "add_scan (Suc fuel) i dir name len bh k s =
     (let next_block =
        bind (brelse bh s) (\<lambda>_ s.
        bind (create_block dir (int (i div DIR_ENTRIES_PER_BLOCK)) s) (\<lambda>block s.
        if block = 0 then Ok None s
        else
          bind (bread (i_dev (ino s dir)) (ucast block) s) (\<lambda>bh s.
          case bh of
            None \<Rightarrow> add_scan fuel (i + DIR_ENTRIES_PER_BLOCK) dir name len None k s
          | Some _ \<Rightarrow> add_scan fuel i dir name len bh 0 s))) in
      case bh of
        None \<Rightarrow> next_block
      | Some b \<Rightarrow>
          if DIR_ENTRIES_PER_BLOCK \<le> k then next_block
          else
            let s = (if i_size (ino s dir) \<le> 16 * of_nat i
                     then set_ino dir (\<lambda>x. x\<lparr>i_size := 16 * (of_nat i + 1), i_dirt := True, i_ctime := now s\<rparr>)
                            (set_de_inode b k 0 s)
                     else s) in
            if de_inode b k s = 0 then
              let s = set_ino dir (\<lambda>x. x\<lparr>i_mtime := now s\<rparr>) s;
                  s = set_de_name b k (user_name name len s) s in
              Ok (Some (b, k)) (mark_dirty b s)
            else add_scan fuel (Suc i) dir name len bh (Suc k) s)"

definition MAX_BLOCKS :: nat where "MAX_BLOCKS = 7 + 512 + 512 * 512"

definition ADD_FUEL :: nat where "ADD_FUEL = 65 * MAX_BLOCKS + 66"

definition add_entry :: "nat \<Rightarrow> u32 \<Rightarrow> nat \<Rightarrow> 'a fs_scheme \<Rightarrow> ((nat \<times> nat) option, 'a fs_scheme) res" where
  "add_entry dir name namelen s =
     (let len = min namelen NAME_LEN; block = i_zone (ino s dir) ! 0 in
      if len = 0 then Ok None s
      else if block = 0 then Ok None s
      else
        bind (bread (i_dev (ino s dir)) (ucast block) s) (\<lambda>bh s.
        case bh of
          None \<Rightarrow> Ok None s
        | Some _ \<Rightarrow> add_scan ADD_FUEL 0 dir name len bh 0 s))"

subsection \<open>Path names\<close>

text \<open>The loops over the characters of a path; the memory has \<open>2 ^ 32\<close> bytes.\<close>

definition PATH_FUEL :: nat where "PATH_FUEL = 2 ^ 32"

fun scan_name :: "nat \<Rightarrow> u32 \<Rightarrow> nat \<Rightarrow> 'a fs_scheme \<Rightarrow> (nat \<times> u8 \<times> u32, 'a fs_scheme) res" where
  "scan_name 0 p n s = Hang"
| "scan_name (Suc fuel) p n s =
     (let c = get_fs_byte p s in
      if c \<noteq> 0 \<and> c \<noteq> 47 then scan_name fuel (p + 1) (Suc n) s else Ok (n, c, p + 1) s)"

fun scan_base :: "nat \<Rightarrow> u32 \<Rightarrow> u32 \<Rightarrow> 'a fs_scheme \<Rightarrow> (u32 \<times> u32, 'a fs_scheme) res" where
  "scan_base 0 p base s = Hang"
| "scan_base (Suc fuel) p base s =
     (let c = get_fs_byte p s in
      if c = 0 then Ok (p + 1, base) s
      else scan_base fuel (p + 1) (if c = 47 then p + 1 else base) s)"

fun get_dir_loop :: "nat \<Rightarrow> nat \<Rightarrow> u32 \<Rightarrow> 'a fs_scheme \<Rightarrow> (nat option, 'a fs_scheme) res" where
  "get_dir_loop 0 i path s = Hang"
| "get_dir_loop (Suc fuel) i path s =
     (if \<not> S_ISDIR (i_mode (ino s i)) \<or> \<not> permission i MAY_EXEC s
      then bind (iput (Some i) s) (\<lambda>_ s. Ok None s)
      else
        bind (scan_name PATH_FUEL path 0 s) (\<lambda>(namelen, c, p) s.
        if c = 0 then Ok (Some i) s
        else
          bind (find_entry i path namelen s) (\<lambda>(i, e) s.
          case e of
            None \<Rightarrow> bind (iput (Some i) s) (\<lambda>_ s. Ok None s)
          | Some (bh, k) \<Rightarrow>
              let inr = de_inode bh k s; idev = i_dev (ino s i) in
              bind (brelse (Some bh) s) (\<lambda>_ s.
              bind (iput (Some i) s) (\<lambda>_ s.
              bind (iget idev inr s) (\<lambda>i s. get_dir_loop fuel i p s))))))"

definition get_dir :: "u32 \<Rightarrow> 'a fs_scheme \<Rightarrow> (nat option, 'a fs_scheme) res" where
  "get_dir path s =
     (case (root (cur s), pwd (cur s)) of
        (Some r, Some w) \<Rightarrow>
          if i_count (ino s r) = 0 then Panic ''No root inode''
          else if i_count (ino s w) = 0 then Panic ''No cwd inode''
          else
            let c = get_fs_byte path s in
            if c = 0 then Ok None s
            else
              let i = (if c = 47 then r else w); path = (if c = 47 then path + 1 else path) in
              get_dir_loop PATH_FUEL i path (set_ino i (\<lambda>x. x\<lparr>i_count := i_count x + 1\<rparr>) s)
      | (None, _) \<Rightarrow> Panic ''No root inode''
      | (Some r, None) \<Rightarrow>
          if i_count (ino s r) = 0 then Panic ''No root inode'' else Panic ''No cwd inode'')"

text \<open>The directory, and the length and address of the name in it.\<close>

definition dir_namei :: "u32 \<Rightarrow> 'a fs_scheme \<Rightarrow> ((nat \<times> nat \<times> u32) option, 'a fs_scheme) res" where
  "dir_namei path s =
     bind (get_dir path s) (\<lambda>dir s.
     case dir of
       None \<Rightarrow> Ok None s
     | Some dir \<Rightarrow>
         bind (scan_base PATH_FUEL path path s) (\<lambda>(p, base) s.
         Ok (Some (dir, unat (p - base - 1), base)) s))"

definition namei :: "u32 \<Rightarrow> 'a fs_scheme \<Rightarrow> (nat option, 'a fs_scheme) res" where
  "namei path s =
     bind (dir_namei path s) (\<lambda>r s.
     case r of
       None \<Rightarrow> Ok None s
     | Some (dir, namelen, base) \<Rightarrow>
         if namelen = 0 then Ok (Some dir) s
         else
           bind (find_entry dir base namelen s) (\<lambda>(dir, e) s.
           case e of
             None \<Rightarrow> bind (iput (Some dir) s) (\<lambda>_ s. Ok None s)
           | Some (bh, k) \<Rightarrow>
               let inr = de_inode bh k s; dev = i_dev (ino s dir) in
               bind (brelse (Some bh) s) (\<lambda>_ s.
               bind (iput (Some dir) s) (\<lambda>_ s.
               bind (iget dev inr s) (\<lambda>i s.
               Ok (Some i) (set_ino i (\<lambda>x. x\<lparr>i_atime := now s, i_dirt := True\<rparr>) s))))))"

end
