(* ===== verification/Dirs.thy ===== *)
theory Dirs
  imports Namei
begin

text \<open>
  The system calls on directories of \<open>fs/namei.c\<close>: \<open>open_namei\<close>, \<open>mknod\<close>, \<open>mkdir\<close>, \<open>rmdir\<close>, \<open>unlink\<close>
  and \<open>link\<close>. \<open>leave e [f, g] s\<close> is the end of a call that releases what it holds, in this order, and
  returns \<open>e\<close>.
\<close>

fun leave ::
    "int \<Rightarrow> ('a fs_scheme \<Rightarrow> (unit, 'a fs_scheme) res) list \<Rightarrow> 'a fs_scheme \<Rightarrow> (int, 'a fs_scheme) res" where
  "leave e [] s = Ok e s"
| "leave e (f # fs) s = bind (f s) (\<lambda>_ s. leave e fs s)"

abbreviation put :: "nat \<Rightarrow> 'a fs_scheme \<Rightarrow> (unit, 'a fs_scheme) res" where
  "put i \<equiv> iput (Some i)"

abbreviation rel :: "nat \<Rightarrow> 'a fs_scheme \<Rightarrow> (unit, 'a fs_scheme) res" where
  "rel bh \<equiv> brelse (Some bh)"

text \<open>A new name \<open>base\<close> for inode number \<open>n\<close> in directory \<open>dir\<close>; \<open>None\<close> when there is no room.\<close>

definition enter_name ::
    "nat \<Rightarrow> u32 \<Rightarrow> nat \<Rightarrow> u16 \<Rightarrow> 'a fs_scheme \<Rightarrow> (nat option, 'a fs_scheme) res" where
  "enter_name dir base namelen n s =
     bind (add_entry dir base namelen s) (\<lambda>e s.
     case e of
       None \<Rightarrow> Ok None s
     | Some (bh, k) \<Rightarrow> Ok (Some bh) (mark_dirty bh (set_de_inode bh k n s)))"

definition create_file ::
    "nat \<Rightarrow> u32 \<Rightarrow> nat \<Rightarrow> u32 \<Rightarrow> 'a fs_scheme \<Rightarrow> (int \<times> nat option, 'a fs_scheme) res" where
  "create_file dir base namelen mode s =
     bind (new_inode (i_dev (ino s dir)) s) (\<lambda>inode s.
     case inode of
       None \<Rightarrow> bind (put dir s) (\<lambda>_ s. Ok (- ENOSPC, None) s)
     | Some i \<Rightarrow>
         let s = set_ino i (\<lambda>x. x\<lparr>i_uid := euid (cur s), i_mode := ucast mode, i_dirt := True\<rparr>) s in
         bind (enter_name dir base namelen (i_num (ino s i)) s) (\<lambda>bh s.
         case bh of
           None \<Rightarrow>
             let s = set_ino i (\<lambda>x. x\<lparr>i_nlinks := i_nlinks x - 1\<rparr>) s in
             bind (put i s) (\<lambda>_ s. bind (put dir s) (\<lambda>_ s. Ok (- ENOSPC, None) s))
         | Some bh \<Rightarrow> bind (rel bh s) (\<lambda>_ s. bind (put dir s) (\<lambda>_ s. Ok (0, Some i) s))))"

definition open_found ::
    "u32 \<Rightarrow> nat \<Rightarrow> nat \<Rightarrow> nat \<Rightarrow> 'a fs_scheme \<Rightarrow> (int \<times> nat option, 'a fs_scheme) res" where
  "open_found flag dir bh k s =
     (let inr = de_inode bh k s; dev = i_dev (ino s dir) in
      bind (rel bh s) (\<lambda>_ s.
      bind (put dir s) (\<lambda>_ s.
      if flag AND O_EXCL \<noteq> 0 then Ok (- EEXIST, None) s
      else
        bind (iget dev inr s) (\<lambda>i s.
        if S_ISDIR (i_mode (ino s i)) \<and> flag AND O_ACCMODE \<noteq> 0 \<or> \<not> permission i (ACC_MODE flag) s
        then bind (put i s) (\<lambda>_ s. Ok (- EPERM, None) s)
        else
          let s = set_ino i (\<lambda>x. x\<lparr>i_atime := now s\<rparr>) s in
          bind (if flag AND O_TRUNC \<noteq> 0 then truncate i s else Ok () s) (\<lambda>_ s. Ok (0, Some i) s)))))"

definition open_namei ::
    "u32 \<Rightarrow> u32 \<Rightarrow> u32 \<Rightarrow> 'a fs_scheme \<Rightarrow> (int \<times> nat option, 'a fs_scheme) res" where
  "open_namei path flag mode s =
     (let flag = (if flag AND O_TRUNC \<noteq> 0 \<and> flag AND O_ACCMODE = 0 then flag OR O_WRONLY else flag);
          mode = (mode AND 0x1FF AND NOT (ucast (umask (cur s)))) OR I_REGULAR in
      bind (dir_namei path s) (\<lambda>r s.
      case r of
        None \<Rightarrow> Ok (- ENOENT, None) s
      | Some (dir, namelen, base) \<Rightarrow>
          if namelen = 0 then
            if flag AND (O_ACCMODE OR O_CREAT OR O_TRUNC) = 0 then Ok (0, Some dir) s
            else bind (put dir s) (\<lambda>_ s. Ok (- EISDIR, None) s)
          else
            bind (find_entry dir base namelen s) (\<lambda>(dir, e) s.
            case e of
              Some (bh, k) \<Rightarrow> open_found flag dir bh k s
            | None \<Rightarrow>
                if flag AND O_CREAT = 0 then bind (put dir s) (\<lambda>_ s. Ok (- ENOENT, None) s)
                else if \<not> permission dir MAY_WRITE s then bind (put dir s) (\<lambda>_ s. Ok (- EACCES, None) s)
                else create_file dir base namelen mode s)))"

definition sys_mknod :: "u32 \<Rightarrow> u32 \<Rightarrow> u32 \<Rightarrow> 'a fs_scheme \<Rightarrow> (int, 'a fs_scheme) res" where
  "sys_mknod filename mode dev s =
     (if \<not> suser s then Ok (- EPERM) s
      else
        bind (dir_namei filename s) (\<lambda>r s.
        case r of
          None \<Rightarrow> Ok (- ENOENT) s
        | Some (dir, namelen, base) \<Rightarrow>
            if namelen = 0 then leave (- ENOENT) [put dir] s
            else if \<not> permission dir MAY_WRITE s then leave (- EPERM) [put dir] s
            else
              bind (find_entry dir base namelen s) (\<lambda>(dir, e) s.
              case e of
                Some (bh, k) \<Rightarrow> leave (- EEXIST) [rel bh, put dir] s
              | None \<Rightarrow>
                  bind (new_inode (i_dev (ino s dir)) s) (\<lambda>inode s.
                  case inode of
                    None \<Rightarrow> leave (- ENOSPC) [put dir] s
                  | Some i \<Rightarrow>
                      let m = ucast mode :: u16;
                          s = set_ino i (\<lambda>x. x\<lparr>i_mode := m\<rparr>) s;
                          s = (if S_ISBLK m \<or> S_ISCHR m \<or> S_ISPROC m
                               then set_ino i (\<lambda>x. x\<lparr>i_zone := (i_zone x)[0 := ucast dev]\<rparr>) s else s);
                          s = set_ino i (\<lambda>x. x\<lparr>i_mtime := now s, i_atime := now s, i_dirt := True\<rparr>) s in
                      bind (enter_name dir base namelen (i_num (ino s i)) s) (\<lambda>bh s.
                      case bh of
                        None \<Rightarrow>
                          leave (- ENOSPC) [put dir, \<lambda>s. put i (set_ino i (\<lambda>x. x\<lparr>i_nlinks := 0\<rparr>) s)] s
                      | Some bh \<Rightarrow> leave 0 [put dir, put i, rel bh] s)))))"

text \<open>The two entries of a new directory, \<open>.\<close> and \<open>..\<close>.\<close>

definition fill_dir :: "nat \<Rightarrow> u16 \<Rightarrow> u16 \<Rightarrow> 'a fs_scheme \<Rightarrow> 'a fs_scheme" where
  "fill_dir bh self parent s =
     set_de_name bh 1 [46, 46, 0] (set_de_inode bh 1 parent
       (set_de_name bh 0 [46, 0] (set_de_inode bh 0 self s)))"

definition make_dir ::
    "nat \<Rightarrow> u32 \<Rightarrow> nat \<Rightarrow> u32 \<Rightarrow> nat \<Rightarrow> 'a fs_scheme \<Rightarrow> (int, 'a fs_scheme) res" where
  "make_dir dir base namelen mode i s =
     (let s = set_ino i (\<lambda>x. x\<lparr>i_size := 32, i_dirt := True, i_mtime := now s, i_atime := now s\<rparr>) s in
      bind (new_block (i_dev (ino s i)) s) (\<lambda>z s.
      let s = set_ino i (\<lambda>x. x\<lparr>i_zone := (i_zone x)[0 := z]\<rparr>) s in
      if z = 0 then
        leave (- ENOSPC) [put dir, \<lambda>s. put i (set_ino i (\<lambda>x. x\<lparr>i_nlinks := i_nlinks x - 1\<rparr>) s)] s
      else
        let s = set_ino i (\<lambda>x. x\<lparr>i_dirt := True\<rparr>) s in
        bind (bread (i_dev (ino s i)) (ucast (i_zone (ino s i) ! 0)) s) (\<lambda>db s.
        case db of
          None \<Rightarrow>
            leave (- ERROR_code) [put dir, \<lambda>s. free_block (i_dev (ino s i)) (i_zone (ino s i) ! 0) s,
              \<lambda>s. put i (set_ino i (\<lambda>x. x\<lparr>i_nlinks := i_nlinks x - 1\<rparr>) s)] s
        | Some db \<Rightarrow>
            let s = fill_dir db (i_num (ino s i)) (i_num (ino s dir)) s;
                s = mark_dirty db (set_ino i (\<lambda>x. x\<lparr>i_nlinks := 2\<rparr>) s) in
            bind (rel db s) (\<lambda>_ s.
            let s = set_ino i (\<lambda>x. x\<lparr>i_mode := I_DIRECTORY OR
                      ucast (mode AND 0x1FF AND NOT (ucast (umask (cur s)))), i_dirt := True\<rparr>) s in
            bind (enter_name dir base namelen (i_num (ino s i)) s) (\<lambda>bh s.
            case bh of
              None \<Rightarrow>
                leave (- ENOSPC) [put dir, \<lambda>s. free_block (i_dev (ino s i)) (i_zone (ino s i) ! 0) s,
                  \<lambda>s. put i (set_ino i (\<lambda>x. x\<lparr>i_nlinks := 0\<rparr>) s)] s
            | Some bh \<Rightarrow>
                leave 0 [put dir, put i, rel bh]
                  (set_ino dir (\<lambda>x. x\<lparr>i_nlinks := i_nlinks x + 1, i_dirt := True\<rparr>) s))))))"

definition sys_mkdir :: "u32 \<Rightarrow> u32 \<Rightarrow> 'a fs_scheme \<Rightarrow> (int, 'a fs_scheme) res" where
  "sys_mkdir path mode s =
     (if \<not> suser s then Ok (- EPERM) s
      else
        bind (dir_namei path s) (\<lambda>r s.
        case r of
          None \<Rightarrow> Ok (- ENOENT) s
        | Some (dir, namelen, base) \<Rightarrow>
            if namelen = 0 then leave (- ENOENT) [put dir] s
            else if \<not> permission dir MAY_WRITE s then leave (- EPERM) [put dir] s
            else
              bind (find_entry dir base namelen s) (\<lambda>(dir, e) s.
              case e of
                Some (bh, k) \<Rightarrow> leave (- EEXIST) [rel bh, put dir] s
              | None \<Rightarrow>
                  bind (new_inode (i_dev (ino s dir)) s) (\<lambda>inode s.
                  case inode of
                    None \<Rightarrow> leave (- ENOSPC) [put dir] s
                  | Some i \<Rightarrow> make_dir dir base namelen mode i s))))"

text \<open>
  The loop of \<open>empty_dir\<close> at entry \<open>nr\<close>, entry \<open>k\<close> of the buffer. At a block that is missing the buffer
  before it, already released, is kept.
\<close>

fun empty_scan_dir ::
    "nat \<Rightarrow> nat \<Rightarrow> nat \<Rightarrow> nat \<Rightarrow> nat \<Rightarrow> nat \<Rightarrow> 'a fs_scheme \<Rightarrow> (bool, 'a fs_scheme) res" where
  "empty_scan_dir 0 nr len i bh k s = Hang"
| "empty_scan_dir (Suc fuel) nr len i bh k s =
     (if len \<le> nr then bind (rel bh s) (\<lambda>_ s. Ok True s)
      else if DIR_ENTRIES_PER_BLOCK \<le> k then
        bind (rel bh s) (\<lambda>_ s.
        bind (bmap i (int (nr div DIR_ENTRIES_PER_BLOCK)) s) (\<lambda>block s.
        if block = 0 then empty_scan_dir fuel (nr + DIR_ENTRIES_PER_BLOCK) len i bh k s
        else
          bind (bread (i_dev (ino s i)) (ucast block) s) (\<lambda>b s.
          case b of
            None \<Rightarrow> Ok False s
          | Some b \<Rightarrow> empty_scan_dir fuel nr len i b 0 s)))
      else if de_inode bh k s \<noteq> 0 then bind (rel bh s) (\<lambda>_ s. Ok False s)
      else empty_scan_dir fuel (Suc nr) len i bh (Suc k) s)"

definition empty_dir :: "nat \<Rightarrow> 'a fs_scheme \<Rightarrow> (bool, 'a fs_scheme) res" where
  "empty_dir i s =
     (let len = unat (i_size (ino s i)) div 16 in
      if len < 2 \<or> i_zone (ino s i) ! 0 = 0 then Ok False s
      else
        bind (bread (i_dev (ino s i)) (ucast (i_zone (ino s i) ! 0)) s) (\<lambda>bh s.
        case bh of
          None \<Rightarrow> Ok False s
        | Some bh \<Rightarrow>
            if de_inode bh 0 s \<noteq> i_num (ino s i) \<or> de_inode bh 1 s = 0 \<or>
               \<not> (de_name bh 0 0 s = 46 \<and> de_name bh 0 1 s = 0) \<or>
               \<not> (de_name bh 1 0 s = 46 \<and> de_name bh 1 1 s = 46 \<and> de_name bh 1 2 s = 0)
            then Ok False s
            else empty_scan_dir (2 * len + 2) 2 len i bh 2 s))"

definition sys_rmdir :: "u32 \<Rightarrow> 'a fs_scheme \<Rightarrow> (int, 'a fs_scheme) res" where
  "sys_rmdir path s =
     (if \<not> suser s then Ok (- EPERM) s
      else
        bind (dir_namei path s) (\<lambda>r s.
        case r of
          None \<Rightarrow> Ok (- ENOENT) s
        | Some (dir, namelen, base) \<Rightarrow>
            if namelen = 0 then leave (- ENOENT) [put dir] s
            else if \<not> permission dir MAY_WRITE s then leave (- EPERM) [put dir] s
            else
              bind (find_entry dir base namelen s) (\<lambda>(dir, e) s.
              case e of
                None \<Rightarrow> leave (- ENOENT) [put dir] s
              | Some (bh, k) \<Rightarrow>
                  bind (iget (i_dev (ino s dir)) (de_inode bh k s) s) (\<lambda>i s.
                  if i_mode (ino s dir) AND S_ISVTX \<noteq> 0 \<and> euid (cur s) \<noteq> 0 \<and>
                     i_uid (ino s i) \<noteq> euid (cur s)
                  then leave (- EPERM) [put dir, put i, rel bh] s
                  else if i_dev (ino s i) \<noteq> i_dev (ino s dir) \<or> 1 < i_count (ino s i)
                  then leave (- EPERM) [put dir, put i, rel bh] s
                  else if i = dir then leave (- EPERM) [put i, put dir, rel bh] s
                  else if \<not> S_ISDIR (i_mode (ino s i)) then leave (- ENOTDIR) [put i, put dir, rel bh] s
                  else
                    bind (empty_dir i s) (\<lambda>empty s.
                    if \<not> empty then leave (- ENOTEMPTY) [put i, put dir, rel bh] s
                    else
                      bind (rel bh (mark_dirty bh (set_de_inode bh k 0 s))) (\<lambda>_ s.
                      let s = set_ino i (\<lambda>x. x\<lparr>i_nlinks := 0, i_dirt := True\<rparr>) s;
                          s = set_ino dir (\<lambda>x. x\<lparr>i_nlinks := i_nlinks x - 1, i_ctime := now s,
                                i_mtime := now s, i_dirt := True\<rparr>) s in
                      leave 0 [put dir, put i] s))))))"

definition sys_unlink :: "u32 \<Rightarrow> 'a fs_scheme \<Rightarrow> (int, 'a fs_scheme) res" where
  "sys_unlink path s =
     bind (dir_namei path s) (\<lambda>r s.
     case r of
       None \<Rightarrow> Ok (- ENOENT) s
     | Some (dir, namelen, base) \<Rightarrow>
         if namelen = 0 then leave (- ENOENT) [put dir] s
         else if \<not> permission dir MAY_WRITE s then leave (- EPERM) [put dir] s
         else
           bind (find_entry dir base namelen s) (\<lambda>(dir, e) s.
           case e of
             None \<Rightarrow> leave (- ENOENT) [put dir] s
           | Some (bh, k) \<Rightarrow>
               bind (iget (i_dev (ino s dir)) (de_inode bh k s) s) (\<lambda>i s.
               if i_mode (ino s dir) AND S_ISVTX \<noteq> 0 \<and> \<not> suser s \<and> euid (cur s) \<noteq> i_uid (ino s i) \<and>
                  euid (cur s) \<noteq> i_uid (ino s dir)
               then leave (- EPERM) [put dir, put i, rel bh] s
               else if S_ISDIR (i_mode (ino s i)) then leave (- EPERM) [put i, put dir, rel bh] s
               else
                 let s = (if i_nlinks (ino s i) = 0 then set_ino i (\<lambda>x. x\<lparr>i_nlinks := 1\<rparr>) s else s) in
                 bind (rel bh (mark_dirty bh (set_de_inode bh k 0 s))) (\<lambda>_ s.
                 leave 0 [put i, put dir]
                   (set_ino i (\<lambda>x. x\<lparr>i_nlinks := i_nlinks x - 1, i_dirt := True, i_ctime := now s\<rparr>) s)))))"

definition sys_link :: "u32 \<Rightarrow> u32 \<Rightarrow> 'a fs_scheme \<Rightarrow> (int, 'a fs_scheme) res" where
  "sys_link oldname newname s =
     bind (namei oldname s) (\<lambda>r s.
     case r of
       None \<Rightarrow> Ok (- ENOENT) s
     | Some i \<Rightarrow>
         if S_ISDIR (i_mode (ino s i)) then leave (- EPERM) [put i] s
         else
           bind (dir_namei newname s) (\<lambda>r s.
           case r of
             None \<Rightarrow> leave (- EACCES) [put i] s
           | Some (dir, namelen, base) \<Rightarrow>
               if namelen = 0 then leave (- EPERM) [put i, put dir] s
               else if i_dev (ino s dir) \<noteq> i_dev (ino s i) then leave (- EXDEV) [put dir, put i] s
               else if \<not> permission dir MAY_WRITE s then leave (- EACCES) [put dir, put i] s
               else
                 bind (find_entry dir base namelen s) (\<lambda>(dir, e) s.
                 case e of
                   Some (bh, k) \<Rightarrow> leave (- EEXIST) [rel bh, put dir, put i] s
                 | None \<Rightarrow>
                     bind (enter_name dir base namelen (i_num (ino s i)) s) (\<lambda>bh s.
                     case bh of
                       None \<Rightarrow> leave (- ENOSPC) [put dir, put i] s
                     | Some bh \<Rightarrow>
                         leave 0 [rel bh, put dir, \<lambda>s. put i (set_ino i (\<lambda>x. x\<lparr>i_nlinks := i_nlinks x + 1,
                           i_ctime := now s, i_dirt := True\<rparr>) s)] s))))"

end
