(* ===== verification/Files.thy ===== *)
theory Files
  imports ReadWrite Dirs
begin

text \<open>
  System calls on files: \<open>fs/open.c\<close>, \<open>fs/fcntl.c\<close>, \<open>fs/stat.c\<close>, \<open>fs/ioctl.c\<close> and \<open>sys_pipe\<close> of
  \<open>fs/pipe.c\<close>.
\<close>

definition set_filp :: "nat \<Rightarrow> nat option \<Rightarrow> 'a kern_scheme \<Rightarrow> 'a kern_scheme" where
  "set_filp fd f = upd_cur (\<lambda>p. p\<lparr>filp := (filp p)[fd := f]\<rparr>)"

definition keep_on_exec :: "nat \<Rightarrow> 'a kern_scheme \<Rightarrow> 'a kern_scheme" where
  "keep_on_exec fd = upd_cur (\<lambda>p. p\<lparr>close_on_exec := close_on_exec p AND NOT (push_bit fd 1)\<rparr>)"

subsection \<open>Attributes\<close>

definition sys_ustat :: int where "sys_ustat = - ENOSYS"

definition sys_utime :: "u32 \<Rightarrow> u32 \<Rightarrow> 'a fs_scheme \<Rightarrow> (int, 'a fs_scheme) res" where
  "sys_utime filename tm s =
     bind (namei filename s) (\<lambda>r s.
     case r of
       None \<Rightarrow> Ok (- ENOENT) s
     | Some i \<Rightarrow>
         let actime = (if tm \<noteq> 0 then get_fs_long tm s else now s);
             modtime = (if tm \<noteq> 0 then get_fs_long (tm + 4) s else now s) in
         leave 0 [put i] (set_ino i (\<lambda>x. x\<lparr>i_atime := actime, i_mtime := modtime, i_dirt := True\<rparr>) s))"

text \<open>The inode is read again after \<open>iput\<close>; a group member is given the rights of the owner.\<close>

definition access_rights :: "u16 \<Rightarrow> nat \<Rightarrow> 'a fs_scheme \<Rightarrow> u16" where
  "access_rights m i s =
     (if uid (cur s) = i_uid (ino s i) then drop_bit 6 m
      else if gid (cur s) = ucast (i_gid (ino s i)) then drop_bit 6 m
      else m)"

definition sys_access :: "u32 \<Rightarrow> u16 \<Rightarrow> 'a fs_scheme \<Rightarrow> (int, 'a fs_scheme) res" where
  "sys_access filename mode s =
     (let mode = mode AND 7 in
      bind (namei filename s) (\<lambda>r s.
      case r of
        None \<Rightarrow> Ok (- EACCES) s
      | Some i \<Rightarrow>
          let m = i_mode (ino s i) AND 0x1FF in
          bind (put i s) (\<lambda>_ s.
          if access_rights m i s AND 7 AND mode = mode then Ok 0 s
          else if uid (cur s) = 0 \<and> (mode AND 1 = 0 \<or> m AND 0x49 \<noteq> 0) then Ok 0 s
          else Ok (- EACCES) s)))"

definition sys_chdir :: "u32 \<Rightarrow> 'a fs_scheme \<Rightarrow> (int, 'a fs_scheme) res" where
  "sys_chdir filename s =
     bind (namei filename s) (\<lambda>r s.
     case r of
       None \<Rightarrow> Ok (- ENOENT) s
     | Some i \<Rightarrow>
         if \<not> S_ISDIR (i_mode (ino s i)) then leave (- ENOTDIR) [put i] s
         else bind (iput (pwd (cur s)) s) (\<lambda>_ s. Ok 0 (upd_cur (\<lambda>p. p\<lparr>pwd := Some i\<rparr>) s)))"

definition sys_chroot :: "u32 \<Rightarrow> 'a fs_scheme \<Rightarrow> (int, 'a fs_scheme) res" where
  "sys_chroot filename s =
     bind (namei filename s) (\<lambda>r s.
     case r of
       None \<Rightarrow> Ok (- ENOENT) s
     | Some i \<Rightarrow>
         if \<not> S_ISDIR (i_mode (ino s i)) then leave (- ENOTDIR) [put i] s
         else bind (iput (root (cur s)) s) (\<lambda>_ s. Ok 0 (upd_cur (\<lambda>p. p\<lparr>root := Some i\<rparr>) s)))"

definition sys_chmod :: "u32 \<Rightarrow> u32 \<Rightarrow> 'a fs_scheme \<Rightarrow> (int, 'a fs_scheme) res" where
  "sys_chmod filename mode s =
     bind (namei filename s) (\<lambda>r s.
     case r of
       None \<Rightarrow> Ok (- ENOENT) s
     | Some i \<Rightarrow>
         if euid (cur s) \<noteq> i_uid (ino s i) \<and> \<not> suser s then leave (- EACCES) [put i] s
         else leave 0 [put i]
           (set_ino i (\<lambda>x. x\<lparr>i_mode := ucast (mode AND 0xFFF) OR (i_mode x AND 0xF000), i_dirt := True\<rparr>) s))"

definition sys_chown :: "u32 \<Rightarrow> u32 \<Rightarrow> u32 \<Rightarrow> 'a fs_scheme \<Rightarrow> (int, 'a fs_scheme) res" where
  "sys_chown filename u g s =
     bind (namei filename s) (\<lambda>r s.
     case r of
       None \<Rightarrow> Ok (- ENOENT) s
     | Some i \<Rightarrow>
         if \<not> suser s then leave (- EACCES) [put i] s
         else leave 0 [put i] (set_ino i (\<lambda>x. x\<lparr>i_uid := ucast u, i_gid := ucast g, i_dirt := True\<rparr>) s))"

subsection \<open>Opening and closing\<close>

text \<open>The special treatment of terminals: \<open>False\<close> when the process has no controlling terminal.\<close>

definition open_tty :: "nat \<Rightarrow> 'a ttys_scheme \<Rightarrow> (bool, 'a ttys_scheme) res" where
  "open_tty i s =
     (let z = i_zone (ino s i) ! 0 in
      if \<not> S_ISCHR (i_mode (ino s i)) then Ok True s
      else if MAJOR z = 4 then
        if leader (cur s) \<noteq> 0 \<and> tty (cur s) < 0 then
          if 3 \<le> MINOR z then Fault ''tty_table''
          else Ok True (set_tt (MINOR z) (\<lambda>x. x\<lparr>t_pgrp := pgrp (cur s)\<rparr>)
                         (upd_cur (\<lambda>p. p\<lparr>tty := int (MINOR z)\<rparr>) s))
        else Ok True s
      else Ok (MAJOR z \<noteq> 5 \<or> \<not> tty (cur s) < 0) s)"

definition open_inode :: "nat \<Rightarrow> nat \<Rightarrow> u32 \<Rightarrow> nat \<Rightarrow> 'a ttys_scheme \<Rightarrow> (int, 'a ttys_scheme) res" where
  "open_inode fd f flag i s =
     bind (open_tty i s) (\<lambda>ok s.
     if \<not> ok then
       bind (put i s) (\<lambda>_ s. Ok (- EPERM) (set_fil f (\<lambda>x. x\<lparr>f_count := 0\<rparr>) (set_filp fd None s)))
     else
       bind (if S_ISBLK (i_mode (ino s i)) then check_disk_change (i_zone (ino s i) ! 0) s else Ok () s) (\<lambda>_ s.
       Ok (int fd) (set_fil f (\<lambda>x. x\<lparr>f_mode := i_mode (ino s i), f_flags := ucast flag, f_count := 1,
         f_inode := Some i, f_pos := 0\<rparr>) s)))"

definition sys_open :: "u32 \<Rightarrow> u32 \<Rightarrow> u32 \<Rightarrow> 'a ttys_scheme \<Rightarrow> (int, 'a ttys_scheme) res" where
  "sys_open filename flag mode s =
     (let mode = mode AND 0x1FF AND NOT (ucast (umask (cur s))) in
      case find_idx (\<lambda>f. f = None) (filp (cur s)) of
        None \<Rightarrow> Ok (- EINVAL) s
      | Some fd \<Rightarrow>
          let s = keep_on_exec fd s in
          case find_idx (\<lambda>f. f_count f = 0) (file_table s) of
            None \<Rightarrow> Ok (- EINVAL) s
          | Some f \<Rightarrow>
              let s = set_fil f (\<lambda>x. x\<lparr>f_count := f_count x + 1\<rparr>) (set_filp fd (Some f) s) in
              bind (open_namei filename flag mode s) (\<lambda>(e, inode) s.
              case inode of
                None \<Rightarrow> Ok e (set_fil f (\<lambda>x. x\<lparr>f_count := 0\<rparr>) (set_filp fd None s))
              | Some i \<Rightarrow> open_inode fd f flag i s))"

definition sys_creat :: "u32 \<Rightarrow> u32 \<Rightarrow> 'a ttys_scheme \<Rightarrow> (int, 'a ttys_scheme) res" where
  "sys_creat path mode = sys_open path (O_CREAT OR O_TRUNC) mode"

definition sys_close :: "u32 \<Rightarrow> 'a fs_scheme \<Rightarrow> (int, 'a fs_scheme) res" where
  "sys_close fd s =
     (if NR_OPEN \<le> unat fd then Ok (- EINVAL) s
      else
        let s = keep_on_exec (unat fd) s in
        case filp (cur s) ! unat fd of
          None \<Rightarrow> Ok (- EINVAL) s
        | Some f \<Rightarrow>
            let s = set_filp (unat fd) None s in
            if f_count (fil s f) = 0 then Panic ''Close: file count is 0''
            else
              let s = set_fil f (\<lambda>x. x\<lparr>f_count := f_count x - 1\<rparr>) s in
              if f_count (fil s f) \<noteq> 0 then Ok 0 s
              else bind (iput (f_inode (fil s f)) s) (\<lambda>_ s. Ok 0 s))"

subsection \<open>Descriptors\<close>

definition free_fd_from :: "nat \<Rightarrow> nat option list \<Rightarrow> nat option" where
  "free_fd_from a fds = find_idx (\<lambda>k. a \<le> k \<and> fds ! k = None) [0..<NR_OPEN]"

definition dupfd :: "u32 \<Rightarrow> u32 \<Rightarrow> 'a fs_scheme \<Rightarrow> int \<times> 'a fs_scheme" where
  "dupfd fd arg s =
     (case file_of fd s of
        None \<Rightarrow> (- EBADF, s)
      | Some f \<Rightarrow>
          if NR_OPEN \<le> unat arg then (- EINVAL, s)
          else
            case free_fd_from (unat arg) (filp (cur s)) of
              None \<Rightarrow> (- EMFILE, s)
            | Some n \<Rightarrow>
                (int n, set_fil f (\<lambda>x. x\<lparr>f_count := f_count x + 1\<rparr>) (set_filp n (Some f) (keep_on_exec n s))))"

definition sys_dup2 :: "u32 \<Rightarrow> u32 \<Rightarrow> 'a fs_scheme \<Rightarrow> (int, 'a fs_scheme) res" where
  "sys_dup2 oldfd newfd s =
     bind (sys_close newfd s) (\<lambda>_ s. case dupfd oldfd newfd s of (r, s) \<Rightarrow> Ok r s)"

definition sys_dup :: "u32 \<Rightarrow> 'a fs_scheme \<Rightarrow> int \<times> 'a fs_scheme" where
  "sys_dup fd = dupfd fd 0"

definition sys_fcntl :: "u32 \<Rightarrow> u32 \<Rightarrow> u32 \<Rightarrow> 'a fs_scheme \<Rightarrow> int \<times> 'a fs_scheme" where
  "sys_fcntl fd cmd arg s =
     (case file_of fd s of
        None \<Rightarrow> (- EBADF, s)
      | Some f \<Rightarrow>
          if cmd = F_DUPFD then dupfd fd arg s
          else if cmd = F_GETFD then (uint (drop_bit (unat fd) (close_on_exec (cur s)) AND 1), s)
          else if cmd = F_SETFD then
            (0, if arg AND 1 \<noteq> 0
                then upd_cur (\<lambda>p. p\<lparr>close_on_exec := close_on_exec p OR push_bit (unat fd) 1\<rparr>) s
                else keep_on_exec (unat fd) s)
          else if cmd = F_GETFL then (uint (f_flags (fil s f)), s)
          else if cmd = F_SETFL then
            (0, set_fil f (\<lambda>x. x\<lparr>f_flags := (f_flags x AND NOT (ucast (O_APPEND OR O_NONBLOCK))) OR
                  ucast (arg AND (O_APPEND OR O_NONBLOCK))\<rparr>) s)
          else (-1, s))"

definition sys_ioctl :: "u8 \<Rightarrow> u32 \<Rightarrow> u32 \<Rightarrow> u32 \<Rightarrow> 'a kst_scheme \<Rightarrow> (int, 'a kst_scheme) res" where
  "sys_ioctl junk fd cmd arg s =
     (case file_of fd s of
        None \<Rightarrow> Ok (- EBADF) s
      | Some f \<Rightarrow>
          case f_inode (fil s f) of
            None \<Rightarrow> Fault ''null inode''
          | Some i \<Rightarrow>
              let mode = i_mode (ino s i); dev = i_zone (ino s i) ! 0 in
              if \<not> S_ISCHR mode \<and> \<not> S_ISBLK mode then Ok (- EINVAL) s
              else if 8 \<le> MAJOR dev then Ok (- ENODEV) s
              else if MAJOR dev = 4 \<or> MAJOR dev = 5 then tty_ioctl junk dev cmd arg s
              else Ok (- ENOTTY) s)"

subsection \<open>\<open>stat\<close>\<close>

text \<open>\<open>struct stat\<close> has 32 bytes; those at 7, 11, 14 and 15 are padding that the code does not set.\<close>

definition stat_bytes :: "(nat \<Rightarrow> u8) \<Rightarrow> m_inode \<Rightarrow> u8 list" where
  "stat_bytes junk x =
     put16 (i_dev x) @ put16 (i_num x) @ put16 (i_mode x) @ [i_nlinks x, junk 7] @ put16 (i_uid x) @
     [i_gid x, junk 11] @ put16 (i_zone x ! 0) @ [junk 14, junk 15] @ put32 (i_size x) @
     put32 (i_atime x) @ put32 (i_mtime x) @ put32 (i_ctime x)"

definition cp_stat :: "(nat \<Rightarrow> u8) \<Rightarrow> nat \<Rightarrow> u32 \<Rightarrow> 'a fs_scheme \<Rightarrow> (unit, 'a fs_scheme) res" where
  "cp_stat junk i statbuf s =
     bind (verify_area statbuf 32 s) (\<lambda>_ s. Ok () (put_fs_bytes (stat_bytes junk (ino s i)) statbuf s))"

definition sys_stat :: "(nat \<Rightarrow> u8) \<Rightarrow> u32 \<Rightarrow> u32 \<Rightarrow> 'a fs_scheme \<Rightarrow> (int, 'a fs_scheme) res" where
  "sys_stat junk filename statbuf s =
     bind (namei filename s) (\<lambda>r s.
     case r of
       None \<Rightarrow> Ok (- ENOENT) s
     | Some i \<Rightarrow> bind (cp_stat junk i statbuf s) (\<lambda>_ s. leave 0 [put i] s))"

definition sys_fstat :: "(nat \<Rightarrow> u8) \<Rightarrow> u32 \<Rightarrow> u32 \<Rightarrow> 'a fs_scheme \<Rightarrow> (int, 'a fs_scheme) res" where
  "sys_fstat junk fd statbuf s =
     (case file_of fd s of
        None \<Rightarrow> Ok (- EBADF) s
      | Some f \<Rightarrow>
          case f_inode (fil s f) of
            None \<Rightarrow> Ok (- EBADF) s
          | Some i \<Rightarrow> bind (cp_stat junk i statbuf s) (\<lambda>_ s. Ok 0 s))"

subsection \<open>Pipes\<close>

text \<open>Two free files, marked as used.\<close>

definition two_files :: "'a fs_scheme \<Rightarrow> (nat \<times> nat) option \<times> 'a fs_scheme" where
  "two_files s =
     (case find_idx (\<lambda>f. f_count f = 0) (file_table s) of
        None \<Rightarrow> (None, s)
      | Some f0 \<Rightarrow>
          let s' = set_fil f0 (\<lambda>x. x\<lparr>f_count := f_count x + 1\<rparr>) s in
          case find_idx (\<lambda>f. f_count f = 0) (file_table s') of
            None \<Rightarrow> (None, set_fil f0 (\<lambda>x. x\<lparr>f_count := 0\<rparr>) s')
          | Some f1 \<Rightarrow> (Some (f0, f1), set_fil f1 (\<lambda>x. x\<lparr>f_count := f_count x + 1\<rparr>) s'))"

definition two_fds :: "nat \<Rightarrow> nat \<Rightarrow> 'a kern_scheme \<Rightarrow> (nat \<times> nat) option \<times> 'a kern_scheme" where
  "two_fds f0 f1 s =
     (case find_idx (\<lambda>f. f = None) (filp (cur s)) of
        None \<Rightarrow> (None, s)
      | Some d0 \<Rightarrow>
          let s' = set_filp d0 (Some f0) s in
          case find_idx (\<lambda>f. f = None) (filp (cur s')) of
            None \<Rightarrow> (None, set_filp d0 None s')
          | Some d1 \<Rightarrow> (Some (d0, d1), set_filp d1 (Some f1) s'))"

definition drop_files :: "nat \<Rightarrow> nat \<Rightarrow> 'a fs_scheme \<Rightarrow> 'a fs_scheme" where
  "drop_files f0 f1 s = set_fil f1 (\<lambda>x. x\<lparr>f_count := 0\<rparr>) (set_fil f0 (\<lambda>x. x\<lparr>f_count := 0\<rparr>) s)"

definition sys_pipe :: "u32 \<Rightarrow> 'a fs_scheme \<Rightarrow> (int, 'a fs_scheme) res" where
  "sys_pipe fildes s =
     (case two_files s of
        (None, s) \<Rightarrow> Ok (-1) s
      | (Some (f0, f1), s) \<Rightarrow>
          case two_fds f0 f1 s of
            (None, s) \<Rightarrow> Ok (-1) (drop_files f0 f1 s)
          | (Some (d0, d1), s) \<Rightarrow>
              bind (get_pipe_inode s) (\<lambda>inode s.
              case inode of
                None \<Rightarrow> Ok (-1) (drop_files f0 f1 (set_filp d0 None (set_filp d1 None s)))
              | Some i \<Rightarrow>
                  let s = set_fil f0 (\<lambda>x. x\<lparr>f_inode := Some i, f_pos := 0, f_mode := 1\<rparr>) s;
                      s = set_fil f1 (\<lambda>x. x\<lparr>f_inode := Some i, f_pos := 0, f_mode := 2\<rparr>) s in
                  Ok 0 (put_fs_long (of_nat d1) (fildes + 4) (put_fs_long (of_nat d0) fildes s))))"

end
