(* ===== verification/Mount.thy ===== *)
theory Mount
  imports Files
begin

text \<open>
  The rest of \<open>fs/super.c\<close>: mounting, unmounting and \<open>mount_root\<close>. The two counts that \<open>mount_root\<close>
  prints are its result.
\<close>

definition sys_umount :: "u32 \<Rightarrow> 'a fs_scheme \<Rightarrow> (int, 'a fs_scheme) res" where
  "sys_umount dev_name s =
     bind (namei dev_name s) (\<lambda>r s.
     case r of
       None \<Rightarrow> Ok (- ENOENT) s
     | Some i \<Rightarrow>
         let dev = i_zone (ino s i) ! 0 in
         if \<not> S_ISBLK (i_mode (ino s i)) then leave (- ENOTBLK) [put i] s
         else
           bind (put i s) (\<lambda>_ s.
           if dev = ROOT_DEV s then Ok (- EBUSY) s
           else
             bind (get_super dev s) (\<lambda>sb s.
             case sb of
               None \<Rightarrow> Ok (- ENOENT) s
             | Some k \<Rightarrow>
                 case s_imount (sbl s k) of
                   None \<Rightarrow> Ok (- ENOENT) s
                 | Some m \<Rightarrow>
                     if \<exists>x \<in> set (inode_table s). i_dev x = dev \<and> i_count x \<noteq> 0 then Ok (- EBUSY) s
                     else
                       bind (put m (set_ino m (\<lambda>x. x\<lparr>i_mount := False\<rparr>) s)) (\<lambda>_ s.
                       bind (iput (s_isup (sbl s k)) (set_sb k (\<lambda>x. x\<lparr>s_imount := None\<rparr>) s)) (\<lambda>_ s.
                       bind (put_super dev (set_sb k (\<lambda>x. x\<lparr>s_isup := None\<rparr>) s)) (\<lambda>_ s.
                       bind (sync_dev dev s) (\<lambda>_ s. Ok 0 s)))))))"

definition sys_mount :: "u32 \<Rightarrow> u32 \<Rightarrow> 'a fs_scheme \<Rightarrow> (int, 'a fs_scheme) res" where
  "sys_mount dev_name dir_name s =
     bind (namei dev_name s) (\<lambda>r s.
     case r of
       None \<Rightarrow> Ok (- ENOENT) s
     | Some i \<Rightarrow>
         let dev = i_zone (ino s i) ! 0 in
         if \<not> S_ISBLK (i_mode (ino s i)) then leave (- EPERM) [put i] s
         else
           bind (put i s) (\<lambda>_ s.
           bind (namei dir_name s) (\<lambda>r s.
           case r of
             None \<Rightarrow> Ok (- ENOENT) s
           | Some d \<Rightarrow>
               if i_count (ino s d) \<noteq> 1 \<or> i_num (ino s d) = ROOT_INO then leave (- EBUSY) [put d] s
               else if \<not> S_ISDIR (i_mode (ino s d)) then leave (- EPERM) [put d] s
               else
                 bind (read_super dev s) (\<lambda>sb s.
                 case sb of
                   None \<Rightarrow> leave (- EBUSY) [put d] s
                 | Some k \<Rightarrow>
                     if s_imount (sbl s k) \<noteq> None then leave (- EBUSY) [put d] s
                     else if i_mount (ino s d) then leave (- EPERM) [put d] s
                     else
                       Ok 0 (set_ino d (\<lambda>x. x\<lparr>i_mount := True, i_dirt := True\<rparr>)
                              (set_sb k (\<lambda>x. x\<lparr>s_imount := Some d\<rparr>) s))))))"

text \<open>The number of clear bits among the first \<open>n\<close> of a map.\<close>

fun count_clear :: "nat \<Rightarrow> nat option list \<Rightarrow> 'a fs_scheme \<Rightarrow> nat option" where
  "count_clear 0 maps s = Some 0"
| "count_clear (Suc i) maps s =
     (if length maps \<le> i div 8192 then None
      else
        case maps ! (i div 8192) of
          None \<Rightarrow> None
        | Some bh \<Rightarrow>
            map_option (\<lambda>k. (if map_bit (b_data (bf s bh)) (i mod 8192) then k else Suc k))
              (count_clear i maps s))"

definition mount_root :: "'a ttys_scheme \<Rightarrow> (nat \<times> nat, 'a ttys_scheme) res" where
  "mount_root s =
     (let s = s\<lparr>file_table := List.map (\<lambda>f. f\<lparr>f_count := 0\<rparr>) (file_table s)\<rparr> in
      bind (if MAJOR (ROOT_DEV s) = 2 then wait_for_keypress s else Ok () s) (\<lambda>_ s.
      let s = s\<lparr>super_blocks := List.map (\<lambda>p. p\<lparr>s_dev := 0, s_lock := False, s_wait := None\<rparr>) (super_blocks s)\<rparr> in
      bind (read_super (ROOT_DEV s) s) (\<lambda>p s.
      case p of
        None \<Rightarrow> Panic ''Unable to mount root''
      | Some k \<Rightarrow>
          bind (iget (ROOT_DEV s) ROOT_INO s) (\<lambda>mi s.
          let s = set_ino mi (\<lambda>x. x\<lparr>i_count := i_count x + 3\<rparr>) s;
              s = set_sb k (\<lambda>x. x\<lparr>s_isup := Some mi, s_imount := Some mi\<rparr>) s;
              s = upd_cur (\<lambda>p. p\<lparr>pwd := Some mi, root := Some mi\<rparr>) s in
          case (count_clear (unat (s_nzones (sbl s k))) (s_zmap (sbl s k)) s,
                count_clear (Suc (unat (s_ninodes (sbl s k)))) (s_imap (sbl s k)) s) of
            (Some blocks, Some inodes) \<Rightarrow> Ok (blocks, inodes) s
          | _ \<Rightarrow> Fault ''null map''))))"

end
