(* ===== verification/Process.thy ===== *)
theory Process
  imports Mount
begin

text \<open>
  Processes and the file system: \<open>do_exit\<close> of \<open>kernel/exit.c\<close>, \<open>kernel/fork.c\<close>, and the page fault
  \<open>do_no_page\<close> with \<open>share_page\<close> of \<open>mm/memory.c\<close>, which load pages of an executable from its file. The state of
  the mathematics coprocessor and the descriptor tables are left out.
\<close>

subsection \<open>Exit\<close>

definition adopt :: "nat \<Rightarrow> 'a kern_scheme \<Rightarrow> 'a kern_scheme" where
  "adopt i s =
     (if live s i \<and> father (ts s i) = pid (cur s) then
        let s = upd i (\<lambda>p. p\<lparr>father := 1\<rparr>) s in
        if state (ts s i) = TASK_ZOMBIE then snd (send_sig SIGCHLD (task s 1) True s) else s
      else s)"

fun close_all :: "nat \<Rightarrow> nat \<Rightarrow> (nat \<Rightarrow> 'a fs_scheme \<Rightarrow> bool) \<Rightarrow> 'a fs_scheme \<Rightarrow> (unit, 'a fs_scheme) res" where
  "close_all 0 i sel s = Ok () s"
| "close_all (Suc n) i sel s =
     bind (if sel i s then bind (sys_close (of_nat i) s) (\<lambda>_ s. Ok () s) else Ok () s)
       (\<lambda>_ s. close_all n (Suc i) sel s)"

definition release_inodes :: "'a fs_scheme \<Rightarrow> (unit, 'a fs_scheme) res" where
  "release_inodes s =
     bind (iput (pwd (cur s)) s) (\<lambda>_ s.
     let s = upd_cur (\<lambda>p. p\<lparr>pwd := None\<rparr>) s in
     bind (iput (root (cur s)) s) (\<lambda>_ s.
     let s = upd_cur (\<lambda>p. p\<lparr>root := None\<rparr>) s in
     bind (iput (executable (cur s)) s) (\<lambda>_ s.
     Ok () (upd_cur (\<lambda>p. p\<lparr>executable := None\<rparr>) s))))"

definition leave_tty :: "'a ttys_scheme \<Rightarrow> (unit, 'a ttys_scheme) res" where
  "leave_tty s =
     (if leader (cur s) \<noteq> 0 \<and> 0 \<le> tty (cur s) then
        if 3 \<le> tty (cur s) then Fault ''tty_table''
        else Ok () (set_tt (nat (tty (cur s))) (\<lambda>x. x\<lparr>t_pgrp := 0\<rparr>) s)
      else Ok () s)"

text \<open>The call ends in \<open>schedule()\<close>, as a zombie: \<open>Sleeps\<close>.\<close>

definition do_exit :: "int \<Rightarrow> 'a ttys_scheme \<Rightarrow> (unit, 'a ttys_scheme) res" where
  "do_exit code s =
     bind (free_page_tables (code_base (cur s)) (code_limit (cur s)) s) (\<lambda>_ s.
     bind (free_page_tables (data_base (cur s)) (data_limit (cur s)) s) (\<lambda>_ s.
     bind (close_all NR_OPEN 0 (\<lambda>i s. filp (cur s) ! i \<noteq> None) (fold adopt [0..<NR_TASKS] s)) (\<lambda>_ s.
     bind (release_inodes s) (\<lambda>_ s.
     bind (leave_tty s) (\<lambda>_ s.
     let s = (if last_task_used_math s = Some (current s) then s\<lparr>last_task_used_math := None\<rparr> else s);
         s = (if leader (cur s) \<noteq> 0 then kill_session s else s);
         s = upd_cur (\<lambda>p. p\<lparr>state := TASK_ZOMBIE, exit_code := code\<rparr>) s in
     bind (tell_father (father (cur s)) s) (\<lambda>_ s.
     bind (schedule s) (\<lambda>_ s. Sleeps s)))))))"

definition sys_exit :: "int \<Rightarrow> 'a ttys_scheme \<Rightarrow> (unit, 'a ttys_scheme) res" where
  "sys_exit error_code = do_exit ((error_code mod 256) * 256)"

subsection \<open>Fork\<close>

definition copy_mem :: "nat \<Rightarrow> 'a kern_scheme \<Rightarrow> (int, 'a kern_scheme) res" where
  "copy_mem nr s =
     (let p = cur s in
      if data_base p \<noteq> code_base p then Panic ''We don't support separate I&D''
      else if data_limit p < code_limit p then Panic ''Bad data_limit''
      else
        let base = of_nat nr * 0x4000000;
            s = upd nr (\<lambda>q. q\<lparr>start_code := base, code_base := base, data_base := base\<rparr>) s in
        bind (copy_page_tables (data_base p) base (data_limit p) s) (\<lambda>r s.
        if r \<noteq> 0 then bind (free_page_tables base (data_limit p) s) (\<lambda>_ s. Ok (- ENOMEM) s)
        else Ok 0 s))"

text \<open>The registers of the parent that \<open>copy_process\<close> finds on the stack.\<close>

record regs =
  r_ebp :: u32  r_edi :: u32  r_esi :: u32  r_gs :: u32
  r_ebx :: u32  r_ecx :: u32  r_edx :: u32
  r_fs :: u32  r_es :: u32  r_ds :: u32
  r_eip :: u32  r_cs :: u32  r_eflags :: u32  r_esp :: u32  r_ss :: u32

text \<open>
  The words pushed on the kernel stack of the child, the last one pushed last; \<open>first\<close> is the address of
  \<open>first_return_from_kernel\<close> and the last word the 0 that \<open>fork\<close> returns in the child.
\<close>

definition child_frame :: "u32 \<Rightarrow> regs \<Rightarrow> u32 list" where
  "child_frame first r =
     [r_ss r AND 0xFFFF, r_esp r, r_eflags r, r_cs r AND 0xFFFF, r_eip r, r_ds r AND 0xFFFF,
      r_es r AND 0xFFFF, r_fs r AND 0xFFFF, r_gs r AND 0xFFFF, r_esi r, r_edi r, r_edx r, first,
      r_ebp r, r_ecx r, r_ebx r, 0]"

fun push_words :: "u32 list \<Rightarrow> u32 \<Rightarrow> 'a mm_scheme \<Rightarrow> 'a mm_scheme" where
  "push_words [] sp s = s"
| "push_words (w # ws) sp s = push_words ws (sp - 4) (poke (sp - 4) w s)"

definition child_of :: "u32 \<Rightarrow> 'a kern_scheme \<Rightarrow> task_struct" where
  "child_of page s =
     (cur s)\<lparr>state := TASK_UNINTERRUPTIBLE, pid := last_pid s, father := pid (cur s),
       counter := priority (cur s), signal := 0, alarm := 0, leader := 0, utime := 0, stime := 0,
       cutime := 0, cstime := 0, start_time := jiffies s, task_page := page\<rparr>"

definition inc_inode :: "nat option \<Rightarrow> 'a fs_scheme \<Rightarrow> 'a fs_scheme" where
  "inc_inode p s = (case p of None \<Rightarrow> s | Some i \<Rightarrow> set_ino i (\<lambda>x. x\<lparr>i_count := i_count x + 1\<rparr>) s)"

definition inc_file :: "nat option \<Rightarrow> 'a fs_scheme \<Rightarrow> 'a fs_scheme" where
  "inc_file p s = (case p of None \<Rightarrow> s | Some f \<Rightarrow> set_fil f (\<lambda>x. x\<lparr>f_count := f_count x + 1\<rparr>) s)"

definition share_files :: "nat \<Rightarrow> 'a fs_scheme \<Rightarrow> 'a fs_scheme" where
  "share_files nr s =
     inc_inode (executable (cur s)) (inc_inode (root (cur s)) (inc_inode (pwd (cur s))
       (fold inc_file (filp (ts s nr)) s)))"

definition copy_process :: "u32 \<Rightarrow> nat \<Rightarrow> regs \<Rightarrow> 'a fs_scheme \<Rightarrow> (int, 'a fs_scheme) res" where
  "copy_process first nr r s =
     bind (get_free_page s) (\<lambda>page s.
     if page = 0 then Ok (- EAGAIN) s
     else
       let s = s\<lparr>live := (live s)(nr := True), ts := (ts s)(nr := child_of page s)\<rparr>;
           s = push_words (child_frame first r) (page + 0x1000) s;
           s = upd nr (\<lambda>p. p\<lparr>kernelstack := page + 0x1000 - 68\<rparr>) s in
       bind (copy_mem nr s) (\<lambda>e s.
       if e \<noteq> 0 then
         bind (free_page page (s\<lparr>live := (live s)(nr := False)\<rparr>)) (\<lambda>_ s. Ok (- EAGAIN) s)
       else Ok (last_pid s) (upd nr (set_state TASK_RUNNING) (share_files nr s))))"

text \<open>Every attempt tries another number, so one more than there are tasks is enough.\<close>

definition next_pid :: "int \<Rightarrow> int" where
  "next_pid p = (if p + 1 < 0 \<or> 2 ^ 31 \<le> p + 1 then 1 else p + 1)"

fun find_pid :: "nat \<Rightarrow> int \<Rightarrow> 'a kern_scheme \<Rightarrow> int option" where
  "find_pid 0 p s = None"
| "find_pid (Suc fuel) p s =
     (let p = next_pid p in
      if \<exists>i \<in> set [0..<NR_TASKS]. live s i \<and> pid (ts s i) = p then find_pid fuel p s else Some p)"

definition find_empty_process :: "'a kern_scheme \<Rightarrow> (int, 'a kern_scheme) res" where
  "find_empty_process s =
     (case find_pid (Suc NR_TASKS) (last_pid s) s of
        None \<Rightarrow> Hang
      | Some p \<Rightarrow>
          Ok (case find_idx (\<lambda>i. \<not> live s i) [1..<NR_TASKS] of None \<Rightarrow> - EAGAIN | Some k \<Rightarrow> int k + 1)
            (s\<lparr>last_pid := p\<rparr>))"

subsection \<open>Page faults\<close>

fun share_scan :: "nat \<Rightarrow> u32 \<Rightarrow> 'a kern_scheme \<Rightarrow> (bool, 'a kern_scheme) res" where
  "share_scan 0 address s = Ok False s"
| "share_scan (Suc n) address s =
     (if live s (Suc n) \<and> Suc n \<noteq> current s \<and> executable (ts s (Suc n)) = executable (cur s) then
        bind (try_to_share address (start_code (ts s (Suc n))) (start_code (cur s)) s) (\<lambda>r s.
        if r \<noteq> 0 then Ok True s else share_scan n address s)
      else share_scan n address s)"

definition share_page :: "u32 \<Rightarrow> 'a fs_scheme \<Rightarrow> (bool, 'a fs_scheme) res" where
  "share_page address s =
     (case executable (cur s) of
        None \<Rightarrow> Ok False s
      | Some i \<Rightarrow> if i_count (ino s i) < 2 then Ok False s else share_scan (NR_TASKS - 1) address s)"

fun bmap_range :: "nat \<Rightarrow> nat \<Rightarrow> int \<Rightarrow> 'a fs_scheme \<Rightarrow> (u32 list, 'a fs_scheme) res" where
  "bmap_range 0 i block s = Ok [] s"
| "bmap_range (Suc n) i block s =
     bind (bmap i block s) (\<lambda>z s. bind (bmap_range n i (block + 1) s) (\<lambda>zs s. Ok (ucast z # zs) s))"

text \<open>Clearing the last \<open>n\<close> bytes below an address.\<close>

fun clear_down :: "nat \<Rightarrow> u32 \<Rightarrow> 'a mm_scheme \<Rightarrow> 'a mm_scheme" where
  "clear_down 0 a s = s"
| "clear_down (Suc n) a s = clear_down n (a - 1) (set_phys_byte (a - 1) 0 s)"

definition load_page :: "u32 \<Rightarrow> u32 \<Rightarrow> nat \<Rightarrow> 'a fs_scheme \<Rightarrow> (unit, 'a fs_scheme) res" where
  "load_page page tmp i s =
     bind (bmap_range 4 i (1 + uint (drop_bit 10 tmp)) s) (\<lambda>nr s.
     bind (bread_page page (i_dev (ino s i)) nr s) (\<lambda>_ s.
     Ok () (clear_down (nat (sint (tmp + 4096 - end_data (cur s)))) (page + 4096) s)))"

definition do_no_page :: "u32 \<Rightarrow> 'a fs_scheme \<Rightarrow> (unit, 'a fs_scheme) res" where
  "do_no_page address s =
     (let address = address AND 0xFFFFF000; tmp = address - start_code (cur s) in
      case (if end_data (cur s) \<le> tmp then None else executable (cur s)) of
        None \<Rightarrow> get_empty_page address s
      | Some i \<Rightarrow>
          bind (share_page tmp s) (\<lambda>shared s.
          if shared then Ok () s
          else
            bind (get_free_page s) (\<lambda>page s.
            if page = 0 then oom s
            else
              bind (load_page page tmp i s) (\<lambda>_ s.
              bind (put_page page address s) (\<lambda>r s.
              if r \<noteq> 0 then Ok () s else bind (free_page page s) (\<lambda>_ s. oom s))))))"

end
