(* ===== verification/Exec.thy ===== *)
theory Exec
  imports Process
begin

text \<open>
  \<open>fs/exec.c\<close>. The strings for the new program are gathered in physical pages, \<open>page[32]\<close>, from the top
  down. Strings of the kernel (the interpreter of a script and its argument) are lists of bytes.
  After the page tables have been changed, the memory seen through \<open>fs\<close> is that of the new program: the
  argument pages at its top, and below them the parameter \<open>img\<close>, which is what page faults will bring in.
\<close>

definition MAX_ARG_PAGES :: nat where "MAX_ARG_PAGES = 32"
definition ENOEXEC :: int where "ENOEXEC = 8"
definition ZMAGIC :: u32 where "ZMAGIC = 0x10B"
definition S_ISUID :: u16 where "S_ISUID = 0x800"
definition S_ISGID :: u16 where "S_ISGID = 0x400"

record exec =
  a_magic :: u32
  a_text :: u32
  a_data :: u32
  a_bss :: u32
  a_syms :: u32
  a_entry :: u32
  a_trsize :: u32
  a_drsize :: u32

definition bytes_exec :: "u8 list \<Rightarrow> exec" where
  "bytes_exec d =
     \<lparr>a_magic = get32 d 0, a_text = get32 d 4, a_data = get32 d 8, a_bss = get32 d 12,
      a_syms = get32 d 16, a_entry = get32 d 20, a_trsize = get32 d 24, a_drsize = get32 d 28\<rparr>"

text \<open>The offset of the text of a \<open>ZMAGIC\<close> file, \<open>SEGMENT_SIZE\<close>.\<close>

definition N_TXTOFF :: u32 where "N_TXTOFF = 1024"

subsection \<open>Arguments\<close>

text \<open>A string in user memory, without its final zero.\<close>

fun user_string :: "nat \<Rightarrow> u32 \<Rightarrow> 'a kern_scheme \<Rightarrow> u8 list option" where
  "user_string 0 a s = None"
| "user_string (Suc fuel) a s =
     (if get_fs_byte a s = 0 then Some []
      else map_option (\<lambda>x. get_fs_byte a s # x) (user_string fuel (a + 1) s))"

fun count_args :: "nat \<Rightarrow> u32 \<Rightarrow> nat \<Rightarrow> 'a kern_scheme \<Rightarrow> nat option" where
  "count_args 0 a n s = None"
| "count_args (Suc fuel) a n s =
     (if get_fs_long a s = 0 then Some n else count_args fuel (a + 4) (Suc n) s)"

definition count :: "u32 \<Rightarrow> 'a kern_scheme \<Rightarrow> (nat, 'a kern_scheme) res" where
  "count argv s =
     (if argv = 0 then Ok 0 s
      else case count_args PATH_FUEL argv 0 s of None \<Rightarrow> Hang | Some n \<Rightarrow> Ok n s)"

text \<open>
  One byte below \<open>p\<close>, in a page that is taken when it is first needed; \<open>None\<close> when there is no page.
  The index into \<open>page\<close> is not checked by the code.
\<close>

definition push_byte ::
    "u8 \<Rightarrow> u32 list \<Rightarrow> u32 \<Rightarrow> 'a fs_scheme \<Rightarrow> (u32 list \<times> u32 option, 'a fs_scheme) res" where
  "push_byte b page p s =
     (let p = p - 1; k = unat (drop_bit 12 p) in
      if length page \<le> k then Fault ''page''
      else
        bind (if page ! k \<noteq> 0 then Ok (page ! k) s else get_free_page s) (\<lambda>pag s.
        if pag = 0 then Ok (page, None) s
        else Ok (page[k := pag], Some p) (set_phys_byte (pag + (p AND 0xFFF)) b s)))"

fun push_bytes ::
    "u8 list \<Rightarrow> u32 list \<Rightarrow> u32 \<Rightarrow> 'a fs_scheme \<Rightarrow> (u32 list \<times> u32 option, 'a fs_scheme) res" where
  "push_bytes [] page p s = Ok (page, Some p) s"
| "push_bytes (b # bs) page p s =
     bind (push_byte b page p s) (\<lambda>(page, r) s.
     case r of None \<Rightarrow> Ok (page, None) s | Some p \<Rightarrow> push_bytes bs page p s)"

text \<open>
  \<open>copy_strings\<close>, for one string that is given and for \<open>argc\<close> strings of the user. A string is copied from its end,
  with its zero. The result 0 means that there was no memory, or that \<open>p\<close> was 0. The test for
  more than 128kB, \<open>p - len < 0\<close> of an unsigned number, never holds.
\<close>

definition copy_string :: "u8 list \<Rightarrow> u32 list \<Rightarrow> u32 \<Rightarrow> 'a fs_scheme \<Rightarrow> (u32 list \<times> u32, 'a fs_scheme) res" where
  "copy_string x page p s =
     (if p = 0 then Ok (page, 0) s
      else
        bind (push_bytes (0 # rev x) page p s) (\<lambda>(page, r) s.
        Ok (page, case r of None \<Rightarrow> 0 | Some p \<Rightarrow> p) s))"

fun copy_strings_loop ::
    "nat \<Rightarrow> u32 \<Rightarrow> u32 list \<Rightarrow> u32 \<Rightarrow> 'a fs_scheme \<Rightarrow> (u32 list \<times> u32, 'a fs_scheme) res" where
  "copy_strings_loop 0 argv page p s = Ok (page, p) s"
| "copy_strings_loop (Suc n) argv page p s =
     (if get_fs_long (argv + 4 * of_nat n) s = 0 then Panic ''argc is wrong''
      else
        case user_string PATH_FUEL (get_fs_long (argv + 4 * of_nat n) s) s of
          None \<Rightarrow> Hang
        | Some x \<Rightarrow>
            bind (push_bytes (0 # rev x) page p s) (\<lambda>(page, r) s.
            case r of None \<Rightarrow> Ok (page, 0) s | Some p \<Rightarrow> copy_strings_loop n argv page p s))"

definition copy_strings ::
    "int \<Rightarrow> u32 \<Rightarrow> u32 list \<Rightarrow> u32 \<Rightarrow> 'a fs_scheme \<Rightarrow> (u32 list \<times> u32, 'a fs_scheme) res" where
  "copy_strings argc argv page p s =
     (if p = 0 then Ok (page, 0) s else copy_strings_loop (nat argc) argv page p s)"

text \<open>The pointers to \<open>n\<close> strings from \<open>p\<close> on, and the zero after them; the result is the end of the strings.\<close>

fun put_pointers :: "nat \<Rightarrow> u32 \<Rightarrow> u32 \<Rightarrow> 'a kern_scheme \<Rightarrow> (u32, 'a kern_scheme) res" where
  "put_pointers 0 p tb s = Ok p (put_fs_long 0 tb s)"
| "put_pointers (Suc n) p tb s =
     (let s = put_fs_long p tb s in
      case user_string PATH_FUEL p s of
        None \<Rightarrow> Hang
      | Some x \<Rightarrow> put_pointers n (p + of_nat (length x) + 1) (tb + 4) s)"

definition create_tables :: "u32 \<Rightarrow> int \<Rightarrow> int \<Rightarrow> 'a kern_scheme \<Rightarrow> (u32, 'a kern_scheme) res" where
  "create_tables p argc envc s =
     (let envp = (p AND 0xFFFFFFFC) - 4 * of_int (envc + 1);
          argv = envp - 4 * of_int (argc + 1);
          s = put_fs_long (of_int argc) (argv - 12) (put_fs_long argv (argv - 8) (put_fs_long envp (argv - 4) s)) in
      bind (put_pointers (nat argc) p argv s) (\<lambda>p s.
      bind (put_pointers (nat envc) p envp s) (\<lambda>_ s. Ok (argv - 12) s)))"

subsection \<open>The new address space\<close>

text \<open>
  \<open>change_ldt\<close> puts the pages from the last to the first; the result says which of them are mapped, as the
  code ignores a \<open>put_page\<close> that fails.
\<close>

fun put_args :: "nat \<Rightarrow> u32 list \<Rightarrow> u32 \<Rightarrow> 'a fs_scheme \<Rightarrow> (bool list, 'a fs_scheme) res" where
  "put_args 0 page a s = Ok [] s"
| "put_args (Suc n) page a s =
     bind (if page ! n \<noteq> 0 then put_page (page ! n) (a - 4096) s else Ok 0 s) (\<lambda>r s.
     bind (put_args n page (a - 4096) s) (\<lambda>rs s. Ok (rs @ [r \<noteq> 0]) s))"

definition DATA_LIMIT :: u32 where "DATA_LIMIT = 0x4000000"

definition new_user :: "u32 list \<Rightarrow> bool list \<Rightarrow> (u32 \<Rightarrow> u8) \<Rightarrow> 'a fs_scheme \<Rightarrow> u32 \<Rightarrow> u8" where
  "new_user page mapped img s a =
     (let k = unat (drop_bit 12 (a - (DATA_LIMIT - 0x20000))) in
      if k < MAX_ARG_PAGES \<and> mapped ! k then phys_byte (page ! k + (a AND 0xFFF)) s else img a)"

definition change_ldt :: "u32 \<Rightarrow> u32 list \<Rightarrow> (u32 \<Rightarrow> u8) \<Rightarrow> 'a fs_scheme \<Rightarrow> (u32, 'a fs_scheme) res" where
  "change_ldt text_size page img s =
     (let s = upd_cur (\<lambda>p. p\<lparr>code_limit := (text_size + 4096 - 1) AND 0xFFFFF000, data_base := code_base p,
                data_limit := DATA_LIMIT\<rparr>) s in
      bind (put_args MAX_ARG_PAGES page (data_base (cur s) + DATA_LIMIT) s) (\<lambda>mapped s.
      Ok DATA_LIMIT (s\<lparr>user := new_user page mapped img s\<rparr>)))"

subsection \<open>Looking at the file\<close>

definition may_execute :: "nat \<Rightarrow> 'a fs_scheme \<Rightarrow> bool" where
  "may_execute i s =
     (let m = i_mode (ino s i);
          k = (if euid (cur s) = i_uid (ino s i) then drop_bit 6 m
               else if egid (cur s) = ucast (i_gid (ino s i)) then drop_bit 3 m else m) in
      k AND 1 \<noteq> 0 \<or> m AND 0x49 \<noteq> 0 \<and> suser s)"

text \<open>The ids the program will run with, and its first block; or the error.\<close>

definition exec_open ::
    "nat \<Rightarrow> 'a fs_scheme \<Rightarrow> (int + u16 \<times> u16 \<times> u8 list, 'a fs_scheme) res" where
  "exec_open i s =
     (if \<not> S_ISREG (i_mode (ino s i)) then Ok (Inl (- EACCES)) s
      else
        let m = i_mode (ino s i);
            u = (if m AND S_ISUID \<noteq> 0 then i_uid (ino s i) else euid (cur s));
            g = (if m AND S_ISGID \<noteq> 0 then ucast (i_gid (ino s i)) else egid (cur s)) in
        if \<not> may_execute i s then Ok (Inl (- ENOEXEC)) s
        else
          bind (bread (i_dev (ino s i)) (ucast (i_zone (ino s i) ! 0)) s) (\<lambda>bh s.
          case bh of
            None \<Rightarrow> Ok (Inl (- EACCES)) s
          | Some b \<Rightarrow> let d = b_data (bf s b) in bind (brelse bh s) (\<lambda>_ s. Ok (Inr (u, g, d)) s)))"

text \<open>
  The first line of a script, after \<open>#!\<close>: the path of the interpreter, its name and the rest of the line.
\<close>

definition blank :: "u8 \<Rightarrow> bool" where "blank c \<longleftrightarrow> c = 32 \<or> c = 9"

definition script_line :: "u8 list \<Rightarrow> (u8 list \<times> u8 list \<times> u8 list option) option" where
  "script_line d =
     (let buf = takeWhile (\<lambda>c. c \<noteq> 0) (take 1022 (drop 2 d)) in
      if 10 \<notin> set buf then None
      else
        let cp = dropWhile blank (takeWhile (\<lambda>c. c \<noteq> 10) buf);
            interp = takeWhile (\<lambda>c. \<not> blank c) cp;
            rest = drop (length interp) cp in
        if cp = [] then None
        else Some (interp, rev (takeWhile (\<lambda>c. c \<noteq> 47) (rev interp)),
                   if rest = [] then None else Some (tl rest)))"

subsection \<open>\<open>do_execve\<close>\<close>

fun free_args :: "u32 list \<Rightarrow> 'a mm_scheme \<Rightarrow> (unit, 'a mm_scheme) res" where
  "free_args [] s = Ok () s"
| "free_args (p # ps) s = bind (free_page p s) (\<lambda>_ s. free_args ps s)"

text \<open>The ends \<open>exec_error1\<close> and \<open>exec_error2\<close>.\<close>

definition exec_error1 :: "int \<Rightarrow> u32 list \<Rightarrow> 'a fs_scheme \<Rightarrow> (int \<times> (u32 \<times> u32) option, 'a fs_scheme) res" where
  "exec_error1 e page s = bind (free_args page s) (\<lambda>_ s. Ok (e, None) s)"

definition exec_error2 ::
    "int \<Rightarrow> nat \<Rightarrow> u32 list \<Rightarrow> 'a fs_scheme \<Rightarrow> (int \<times> (u32 \<times> u32) option, 'a fs_scheme) res" where
  "exec_error2 e i page s = bind (put i s) (\<lambda>_ s. exec_error1 e page s)"

definition bad_header :: "exec \<Rightarrow> u32 \<Rightarrow> bool" where
  "bad_header ex len \<longleftrightarrow>
     a_magic ex \<noteq> ZMAGIC \<or> a_trsize ex \<noteq> 0 \<or> a_drsize ex \<noteq> 0 \<or>
     0x3000000 < a_text ex + a_data ex + a_bss ex \<or>
     len < a_text ex + a_data ex + a_syms ex + N_TXTOFF"

text \<open>The point of no return: the old program is given up.\<close>

definition forget_program :: "nat \<Rightarrow> 'a fs_scheme \<Rightarrow> (unit, 'a fs_scheme) res" where
  "forget_program i s =
     bind (iput (executable (cur s)) s) (\<lambda>_ s.
     let s = upd_cur (\<lambda>p. p\<lparr>executable := Some i,
               sigaction := List.map (\<lambda>a. a\<lparr>sa_handler := 0\<rparr>) (sigaction p)\<rparr>) s in
     bind (close_all NR_OPEN 0 (\<lambda>i s. bit (close_on_exec (cur s)) i) s) (\<lambda>_ s.
     let s = upd_cur (\<lambda>p. p\<lparr>close_on_exec := 0\<rparr>) s in
     bind (free_page_tables (code_base (cur s)) (code_limit (cur s)) s) (\<lambda>_ s.
     bind (free_page_tables (data_base (cur s)) (data_limit (cur s)) s) (\<lambda>_ s.
     let s = (if last_task_used_math s = Some (current s) then s\<lparr>last_task_used_math := None\<rparr> else s) in
     Ok () (upd_cur (\<lambda>p. p\<lparr>used_math := False\<rparr>) s)))))"

fun clear_up :: "nat \<Rightarrow> u32 \<Rightarrow> 'a kern_scheme \<Rightarrow> 'a kern_scheme" where
  "clear_up 0 a s = s"
| "clear_up (Suc n) a s = (if a AND 0xFFF = 0 then s else clear_up n (a + 1) (put_fs_byte 0 a s))"

definition start_program ::
    "exec \<Rightarrow> u16 \<Rightarrow> u16 \<Rightarrow> int \<Rightarrow> int \<Rightarrow> (u32 \<Rightarrow> u8) \<Rightarrow> u32 list \<Rightarrow> u32 \<Rightarrow> 'a fs_scheme \<Rightarrow>
     (int \<times> (u32 \<times> u32) option, 'a fs_scheme) res" where
  "start_program ex u g argc envc img page p s =
     bind (change_ldt (a_text ex) page img s) (\<lambda>lim s.
     bind (create_tables (p + lim - 0x20000) argc envc s) (\<lambda>p s.
     let s = upd_cur (\<lambda>q. q\<lparr>end_code := a_text ex, end_data := a_data ex + a_text ex,
               brk := a_bss ex + (a_data ex + a_text ex), start_stack := p AND 0xFFFFF000,
               euid := u, egid := g\<rparr>) s;
         s = clear_up 4096 (a_text ex + a_data ex) s in
     Ok (0, Some (a_entry ex, p)) s))"

text \<open>After the header has been read; \<open>script\<close> says that the arguments have been copied already.\<close>

definition exec_binary ::
    "bool \<Rightarrow> nat \<Rightarrow> u16 \<Rightarrow> u16 \<Rightarrow> u8 list \<Rightarrow> u32 \<Rightarrow> u32 \<Rightarrow> int \<Rightarrow> int \<Rightarrow> (u32 \<Rightarrow> u8) \<Rightarrow> u32 list \<Rightarrow> u32 \<Rightarrow>
     'a fs_scheme \<Rightarrow> (int \<times> (u32 \<times> u32) option, 'a fs_scheme) res" where
  "exec_binary script i u g d argv envp argc envc img page p s =
     (let ex = bytes_exec d in
      if bad_header ex (i_size (ino s i)) then exec_error2 (- ENOEXEC) i page s
      else
        bind (if script then Ok (page, p) s
              else bind (copy_strings envc envp page p s) (\<lambda>(page, p) s. copy_strings argc argv page p s))
          (\<lambda>(page, p) s.
        if \<not> script \<and> p = 0 then exec_error2 (- ENOMEM) i page s
        else bind (forget_program i s) (\<lambda>_ s. start_program ex u g argc envc img page p s)))"

text \<open>The name of the interpreter is in the kernel: \<open>fs\<close> is set to the kernel segment for \<open>namei\<close>.\<close>

definition namei_kernel :: "u8 list \<Rightarrow> 'a fs_scheme \<Rightarrow> (nat option, 'a fs_scheme) res" where
  "namei_kernel x s =
     bind (namei 0 (s\<lparr>user := (\<lambda>a. if unat a < length x then x ! unat a else 0)\<rparr>)) (\<lambda>r t.
     Ok r (t\<lparr>user := user s\<rparr>))"

definition script_strings ::
    "u8 list \<Rightarrow> u8 list option \<Rightarrow> u32 \<Rightarrow> u32 \<Rightarrow> u32 \<Rightarrow> int \<Rightarrow> int \<Rightarrow> u32 list \<Rightarrow> u32 \<Rightarrow> 'a fs_scheme \<Rightarrow>
     (u32 list \<times> u32, 'a fs_scheme) res" where
  "script_strings name arg filename argv envp argc envc page p s =
     bind (copy_strings envc envp page p s) (\<lambda>(page, p) s.
     bind (copy_strings (argc - 1) (argv + 4) page p s) (\<lambda>(page, p) s.
     case user_string PATH_FUEL filename s of
       None \<Rightarrow> Hang
     | Some x \<Rightarrow>
         bind (copy_string x page p s) (\<lambda>(page, p) s.
         bind (case arg of None \<Rightarrow> Ok (page, p) s | Some a \<Rightarrow> copy_string a page p s) (\<lambda>(page, p) s.
         copy_string name page p s))))"

definition exec_script ::
    "u8 list \<Rightarrow> u32 \<Rightarrow> u32 \<Rightarrow> u32 \<Rightarrow> int \<Rightarrow> int \<Rightarrow> (u32 \<Rightarrow> u8) \<Rightarrow> u32 list \<Rightarrow> u32 \<Rightarrow> 'a fs_scheme \<Rightarrow>
     (int \<times> (u32 \<times> u32) option, 'a fs_scheme) res" where
  "exec_script d filename argv envp argc envc img page p s =
     (case script_line d of
        None \<Rightarrow> exec_error1 (- ENOEXEC) page s
      | Some (interp, name, arg) \<Rightarrow>
          bind (script_strings name arg filename argv envp argc envc page p s) (\<lambda>(page, p) s.
          if p = 0 then exec_error1 (- ENOMEM) page s
          else
            bind (namei_kernel interp s) (\<lambda>r s.
            case r of
              None \<Rightarrow> exec_error1 (- ENOENT) page s
            | Some i \<Rightarrow>
                bind (exec_open i s) (\<lambda>r s.
                case r of
                  Inl e \<Rightarrow> exec_error2 e i page s
                | Inr (u, g, d) \<Rightarrow>
                    exec_binary True i u g d argv envp (argc + (if arg = None then 1 else 2)) envc img
                      page p s))))"

text \<open>
  \<open>cs\<close> is the code segment of the caller; the result has the new program counter and stack pointer.
\<close>

definition do_execve ::
    "u32 \<Rightarrow> u32 \<Rightarrow> u32 \<Rightarrow> u32 \<Rightarrow> (u32 \<Rightarrow> u8) \<Rightarrow> 'a fs_scheme \<Rightarrow> (int \<times> (u32 \<times> u32) option, 'a fs_scheme) res" where
  "do_execve cs filename argv envp img s =
     (if cs AND 0xFFFF \<noteq> 0xF then Panic ''execve called from supervisor mode''
      else
        let page = replicate MAX_ARG_PAGES 0; p = 4096 * of_nat MAX_ARG_PAGES - 4 in
        bind (namei filename s) (\<lambda>r s.
        case r of
          None \<Rightarrow> Ok (- ENOENT, None) s
        | Some i \<Rightarrow>
            bind (count argv s) (\<lambda>argc s.
            bind (count envp s) (\<lambda>envc s.
            bind (exec_open i s) (\<lambda>r s.
            case r of
              Inl e \<Rightarrow> exec_error2 e i page s
            | Inr (u, g, d) \<Rightarrow>
                if take 2 d = [0x23, 0x21] then
                  bind (put i s) (\<lambda>_ s.
                  exec_script d filename argv envp (int argc) (int envc) img page p s)
                else exec_binary False i u g d argv envp (int argc) (int envc) img page p s)))))"

end
