(* ===== verification/Pipe.thy ===== *)
theory Pipe
  imports FileIO Ring
begin

text \<open>
  What pipes do: a pipe is a queue of bytes, at most 4095 of them, in one page used as a ring.
  \<open>write_pipe\<close> appends and \<open>read_pipe\<close> takes from the front; a wrap at the end of the page splits the
  transfer in two rounds.
\<close>

subsection \<open>Bytes of physical memory\<close>

lemma and_3_split: "(a AND NOT 3) + (a AND 3) = (a :: u32)"
proof -
  have "(a AND NOT 3) + (a AND 3) = (a AND NOT 3) OR (a AND 3)"
    by (rule disjunctive_add) (auto simp: bit_simps)
  also have "\<dots> = a" by (rule bit_word_eqI) (auto simp: bit_simps)
  finally show ?thesis .
qed
lemma addr_eq_iff: "a = b \<longleftrightarrow> a AND NOT 3 = b AND NOT 3 \<and> a AND 3 = b AND 3" for a b :: u32
  using and_3_split [of a] and_3_split [of b] by metis
lemma unat_and_3: "unat (a AND 3) < 4" for a :: u32
proof -
  have "a AND 3 \<le> 3" by (rule word_and_le1)
  then show ?thesis by (simp add: word_le_nat_alt)
qed
lemma byte_store:
  fixes w :: u32 and v :: u8
  assumes "j < 4" "k < 4"
  shows "(ucast (drop_bit (8 * j) ((w AND NOT (push_bit (8 * k) 0xFF)) OR push_bit (8 * k) (ucast v))) :: u8) =
    (if j = k then v else ucast (drop_bit (8 * j) w))"
proof (rule bit_word_eqI)
  fix n assume n: "n < LENGTH(8)"
  have m: "(0xFF :: u32) = mask 8" by (simp add: mask_eq_exp_minus_1)
  have l: "8 * j + n < 32" using n assms(1) by simp
  have d: "\<not> (8 * k \<le> 8 * j + n \<and> 8 * j + n < 8 * k + 8)" if "j \<noteq> k"
    using that n by (cases "j < k") auto
  show "bit (ucast (drop_bit (8 * j) ((w AND NOT (push_bit (8 * k) 0xFF)) OR push_bit (8 * k) (ucast v))) :: u8) n =
    bit (if j = k then v else ucast (drop_bit (8 * j) w)) n"
    using n l d unfolding m
    by (auto simp: bit_simps dest: bit_imp_le_length)
qed
lemma phys_set_phys_byte: "phys_byte b (set_phys_byte a v s) = (if a = b then v else phys_byte b s)"
proof (cases "a AND NOT 3 = b AND NOT 3")
  case True
  have e: "unat (b AND 3) = unat (a AND 3) \<longleftrightarrow> a = b" using True addr_eq_iff [of a b] by (auto simp add: word_unat_eq_iff)
  have "phys_byte b (set_phys_byte a v s) = (if unat (b AND 3) = unat (a AND 3) then v else
    ucast (drop_bit (8 * unat (b AND 3)) (phys s (a AND NOT 3))))"
    unfolding phys_byte_def set_phys_byte_def Let_def poke_def True [symmetric]
    using byte_store [OF unat_and_3 [of b] unat_and_3 [of a], of "phys s (a AND NOT 3)" v] by simp
  then show ?thesis unfolding e phys_byte_def True .
next
  case False
  then have "a \<noteq> b" by auto
  with False show ?thesis by (auto simp add: phys_byte_def set_phys_byte_def Let_def poke_def)
qed

lemma set_phys_byte_simps [simp]:
  "user (set_phys_byte a v s) = user s" "inode_table (set_phys_byte a v s) = inode_table s"
  "ino (set_phys_byte a v s) = ino s" "cur (set_phys_byte a v s) = cur s"
  by (simp_all add: set_phys_byte_def poke_def Let_def ino_def cur_def fun_eq_iff)

lemma copy_to_page_simps [simp]:
  "user (copy_to_page p off n buf s) = user s \<and> inode_table (copy_to_page p off n buf s) = inode_table s"
  by (induction n) (simp_all add: copy_to_page_def)

lemma phys_byte_copy_to_page_in:
  assumes "off + n \<le> 4096" and "k < n"
  shows "phys_byte (p + of_nat (off + k)) (copy_to_page p off n buf s) = user s (buf + of_nat k)"
  using assms
proof (induction n)
  case (Suc n)
  have inj: "(of_nat (off + n) :: u32) = of_nat (off + k) \<longleftrightarrow> n = k"
    using Suc.prems by (subst word_unat_eq_iff) (simp add: unat_of_nat_small del: of_nat_add)
  have step: "copy_to_page p off (Suc n) buf s =
      set_phys_byte (p + of_nat (off + n)) (user s (buf + of_nat n)) (copy_to_page p off n buf s)"
    using copy_to_page_simps [of p off n buf s] by (simp add: copy_to_page_def get_fs_byte_def)
  show ?case
    using Suc.IH Suc.prems inj unfolding step phys_set_phys_byte by (auto simp: less_Suc_eq)
qed simp

lemma phys_byte_copy_to_page_out:
  assumes "\<And>k. k < n \<Longrightarrow> b \<noteq> p + of_nat (off + k)"
  shows "phys_byte b (copy_to_page p off n buf s) = phys_byte b s"
  using assms
proof (induction n)
  case (Suc n)
  have "p + of_nat (off + n) \<noteq> b" using Suc.prems [of n] by auto
  then show ?case using Suc by (simp add: copy_to_page_def phys_set_phys_byte)
qed (simp add: copy_to_page_def)

subsection \<open>Pipes as queues\<close>

definition pipe_ok :: "nat \<Rightarrow> 'a fs_scheme \<Rightarrow> bool" where
  "pipe_ok i s \<longleftrightarrow> i < length (inode_table s) \<and> 2 \<le> length (i_zone (ino s i)) \<and>
     unat (PIPE_HEAD (ino s i)) < 4096 \<and> unat (PIPE_TAIL (ino s i)) < 4096"

definition pipe_bytes :: "nat \<Rightarrow> 'a fs_scheme \<Rightarrow> u8 list" where
  "pipe_bytes i s =
     ring_list (\<lambda>p. phys_byte (i_size (ino s i) + of_nat p) s) 4096 (unat (PIPE_TAIL (ino s i))) (PIPE_SIZE (ino s i))"

lemma length_pipe_bytes [simp]: "length (pipe_bytes i s) = PIPE_SIZE (ino s i)"
  by (simp add: pipe_bytes_def)

lemma unat_and_page: "unat (x AND 0xFFF :: u16) = unat x mod 4096"
proof -
  have "x AND 0xFFF = take_bit 12 x" by (simp add: take_bit_eq_mask mask_eq_exp_minus_1)
  then show ?thesis by (simp add: take_bit_eq_mod unat_mod_distrib)
qed

lemma unat_add_and_page: "unat ((x + of_nat n) AND 0xFFF :: u16) = (unat x + n) mod 4096"
proof -
  have "unat (x + of_nat n) = (unat x + n) mod 65536"
    by (simp add: unat_word_ariths unat_of_nat mod_add_right_eq)
  then show ?thesis by (simp add: unat_and_page mod_mod_cancel)
qed

lemma PIPE_SIZE_eq:
  assumes "unat (PIPE_TAIL x) < 4096"
  shows "PIPE_SIZE x = (unat (PIPE_HEAD x) + (4096 - unat (PIPE_TAIL x))) mod 4096"
proof -
  have "unat (PIPE_HEAD x - PIPE_TAIL x) = (unat (PIPE_HEAD x) + (65536 - unat (PIPE_TAIL x))) mod 65536"
  proof (cases "unat (PIPE_TAIL x) \<le> unat (PIPE_HEAD x)")
    case True
    then have "unat (PIPE_HEAD x) + (65536 - unat (PIPE_TAIL x)) = unat (PIPE_HEAD x) - unat (PIPE_TAIL x) + 65536"
      using assms by simp
    moreover have "unat (PIPE_HEAD x) - unat (PIPE_TAIL x) < 65536"
      using unsigned_less [where 'a = nat, of "PIPE_HEAD x"] by simp
    ultimately show ?thesis using True by (simp only: unat_sub_if' if_True mod_add_self2) simp
  next
    case False
    then have "unat (PIPE_HEAD x) + (65536 - unat (PIPE_TAIL x)) < 65536" using assms by simp
    then show ?thesis using False assms by (simp add: unat_sub_if')
  qed
  then have "PIPE_SIZE x = (unat (PIPE_HEAD x) + (65536 - unat (PIPE_TAIL x))) mod 4096"
    by (simp add: PIPE_SIZE_def unat_and_page mod_mod_cancel)
  also have "65536 - unat (PIPE_TAIL x) = (4096 - unat (PIPE_TAIL x)) + 15 * 4096" using assms by simp
  finally show ?thesis by (simp only: add.assoc [symmetric] mod_mult_self1)
qed

lemma PIPE_SIZE_less: "PIPE_SIZE x < 4096"
  by (simp add: PIPE_SIZE_def unat_and_page)

lemma PIPE_HEAD_eq:
  assumes "unat (PIPE_HEAD x) < 4096" and "unat (PIPE_TAIL x) < 4096"
  shows "unat (PIPE_HEAD x) = (unat (PIPE_TAIL x) + PIPE_SIZE x) mod 4096"
proof -
  have "(unat (PIPE_TAIL x) + PIPE_SIZE x) mod 4096 = (unat (PIPE_HEAD x) + 4096) mod 4096"
    unfolding PIPE_SIZE_eq [OF assms(2)] mod_add_right_eq using assms(2) by simp
  then show ?thesis using assms(1) by simp
qed

lemma PIPE_SIZE_step:
  assumes "unat (PIPE_TAIL x) < 4096" and "unat (PIPE_HEAD x) < 4096"
    and "unat (PIPE_TAIL y) = (unat (PIPE_TAIL x) + a) mod 4096"
    and "unat (PIPE_HEAD y) = (unat (PIPE_TAIL x) + PIPE_SIZE x + b) mod 4096"
    and "a \<le> PIPE_SIZE x + b" and "PIPE_SIZE x + b - a < 4096"
  shows "PIPE_SIZE y = PIPE_SIZE x + b - a"
proof -
  have t: "unat (PIPE_TAIL y) < 4096" using assms(3) by simp
  have "unat (PIPE_HEAD y) = (unat (PIPE_TAIL y) + (PIPE_SIZE x + b - a)) mod 4096"
    using assms(5) unfolding assms(3,4) mod_add_left_eq by (intro arg_cong [of _ _ "\<lambda>n. n mod 4096"]) simp
  then have "PIPE_SIZE y = ((unat (PIPE_TAIL y) + (PIPE_SIZE x + b - a)) mod 4096 + (4096 - unat (PIPE_TAIL y))) mod 4096"
    using PIPE_SIZE_eq [OF t] by simp
  also have "\<dots> = (PIPE_SIZE x + b - a + 4096) mod 4096"
    unfolding mod_add_left_eq using t by (intro arg_cong [of _ _ "\<lambda>n. n mod 4096"]) simp
  also have "\<dots> = PIPE_SIZE x + b - a" using assms(6) by simp
  finally show ?thesis .
qed

text \<open>One round of each loop. The size of the page transfer is what the round reports.\<close>

lemma pipe_put_round:
  assumes ok: "pipe_ok i s" and c: "c \<le> 4096 - unat (PIPE_HEAD (ino s i))" "c \<le> 4095 - PIPE_SIZE (ino s i)"
  shows "pipe_bytes i (pipe_put i buf c s) = pipe_bytes i s @ get_fs_bytes buf c s"
    and "pipe_ok i (pipe_put i buf c s)" and "user (pipe_put i buf c s) = user s"
    and "i_size (ino (pipe_put i buf c s) i) = i_size (ino s i)"
    and "i_count (ino (pipe_put i buf c s) i) = i_count (ino s i)"
    and "PIPE_SIZE (ino (pipe_put i buf c s) i) = PIPE_SIZE (ino s i) + c"
proof -
  let ?t = "pipe_put i buf c s" and ?h = "unat (PIPE_HEAD (ino s i))" and ?l = "unat (PIPE_TAIL (ino s i))"
  define u where "u = set_ino i (\<lambda>x. x\<lparr>i_zone := (i_zone x)[0 := (PIPE_HEAD (ino s i) + of_nat c) AND 0xFFF]\<rparr>) s"
  have i: "i < length (inode_table s)" and z: "2 \<le> length (i_zone (ino s i))" and h: "?h < 4096" and l: "?l < 4096"
    using ok by (auto simp: pipe_ok_def)
  have inou: "ino u i = ino s i\<lparr>i_zone := (i_zone (ino s i))[0 := (PIPE_HEAD (ino s i) + of_nat c) AND 0xFFF]\<rparr>"
    using i by (simp add: u_def)
  then have t: "?t = copy_to_page (i_size (ino s i)) ?h c buf u"
    by (simp add: pipe_put_def Let_def u_def [symmetric])
  have inot: "ino ?t i = ino u i"
    using copy_to_page_simps [of "i_size (ino s i)" ?h c buf u] by (simp add: t ino_def)
  have hd: "unat (PIPE_HEAD (ino ?t i)) = (?h + c) mod 4096"
    using z unfolding inot inou PIPE_HEAD_def by (simp add: unat_add_and_page del: length_greater_0_conv)
  have tl: "PIPE_TAIL (ino ?t i) = PIPE_TAIL (ino s i)" by (simp add: inot inou PIPE_TAIL_def)
  show user: "user ?t = user s" by (simp add: t u_def)
  show "i_size (ino ?t i) = i_size (ino s i)" "i_count (ino ?t i) = i_count (ino s i)" by (simp_all add: inot inou)
  show "pipe_ok i ?t"
    using ok hd tl copy_to_page_simps [of "i_size (ino s i)" ?h c buf u]
    by (simp add: pipe_ok_def inot inou) (simp add: t u_def)
  show sz: "PIPE_SIZE (ino ?t i) = PIPE_SIZE (ino s i) + c"
    using PIPE_SIZE_step [of "ino s i" "ino ?t i" 0 c] h l hd tl PIPE_HEAD_eq [OF h l] c PIPE_SIZE_less [of "ino s i"]
    by (simp add: mod_add_left_eq)
  have phys: "phys_byte a u = phys_byte a s" for a by (simp add: u_def phys_byte_def)
  have pos: "(?l + PIPE_SIZE (ino s i) + j) mod 4096 = ?h + j" if "j < c" for j
  proof -
    have "(?l + PIPE_SIZE (ino s i) + j) mod 4096 = (?h + j) mod 4096"
      by (subst PIPE_HEAD_eq [OF h l]) (simp add: mod_add_left_eq)
    then show ?thesis using that c h by simp
  qed
  have "ring_list (\<lambda>p. phys_byte (i_size (ino s i) + of_nat p) ?t) 4096 ?l
      (PIPE_SIZE (ino s i) + length (get_fs_bytes buf c s)) =
    ring_list (\<lambda>p. phys_byte (i_size (ino s i) + of_nat p) s) 4096 ?l (PIPE_SIZE (ino s i)) @ get_fs_bytes buf c s"
  proof (rule ring_list_append)
    fix j assume "j < length (get_fs_bytes buf c s)"
    then have j: "j < c" by (simp add: get_fs_bytes_def)
    show "phys_byte (i_size (ino s i) + of_nat ((?l + PIPE_SIZE (ino s i) + j) mod 4096)) ?t =
        get_fs_bytes buf c s ! j"
      using j phys_byte_copy_to_page_in [of ?h c j "i_size (ino s i)" buf u] c h
      unfolding pos [OF j] t by (simp add: get_fs_bytes_def get_fs_byte_def u_def)
  next
    fix p assume p: "p < (4096 :: nat)"
      and n: "\<forall>j < length (get_fs_bytes buf c s). p \<noteq> (?l + PIPE_SIZE (ino s i) + j) mod 4096"
    have "i_size (ino s i) + of_nat p \<noteq> i_size (ino s i) + of_nat (?h + k)" if "k < c" for k
    proof -
      have "p \<noteq> ?h + k" using n that pos [OF that] by (auto simp: get_fs_bytes_def)
      then have "(of_nat p :: u32) \<noteq> of_nat (?h + k)"
        using p that c by (subst word_unat_eq_iff) (simp add: unat_of_nat_small del: of_nat_add)
      then show ?thesis by simp
    qed
    then show "phys_byte (i_size (ino s i) + of_nat p) ?t = phys_byte (i_size (ino s i) + of_nat p) s"
      unfolding t by (subst phys_byte_copy_to_page_out) (auto simp: phys)
  next
    show "PIPE_SIZE (ino s i) + length (get_fs_bytes buf c s) \<le> 4096"
      using c PIPE_SIZE_less [of "ino s i"] by (simp add: get_fs_bytes_def)
  qed simp
  then show "pipe_bytes i ?t = pipe_bytes i s @ get_fs_bytes buf c s"
    unfolding pipe_bytes_def sz tl by (simp add: inot inou get_fs_bytes_def)
qed

lemma put_fs_bytes_simps [simp]:
  "inode_table (put_fs_bytes bs a s) = inode_table s" "ino (put_fs_bytes bs a s) = ino s"
  "phys (put_fs_bytes bs a s) = phys s"
  by (induction bs arbitrary: a s) (simp_all add: put_fs_byte_def ino_def fun_eq_iff)

lemma put_fs_bytes_append:
  "put_fs_bytes (xs @ ys) a s = put_fs_bytes ys (a + of_nat (length xs)) (put_fs_bytes xs a s)"
  by (induction xs arbitrary: a s) (simp_all add: algebra_simps)

lemma user_put_fs_bytes_cong: "user s = user t \<Longrightarrow> user (put_fs_bytes bs a s) = user (put_fs_bytes bs a t)"
  by (induction bs arbitrary: a s t) (simp_all add: put_fs_byte_def)

lemma get_fs_bytes_add:
  "get_fs_bytes buf (a + b) s = get_fs_bytes buf a s @ get_fs_bytes (buf + of_nat a) b s"
  by (rule nth_equalityI) (auto simp: get_fs_bytes_def nth_append algebra_simps)

lemma get_fs_bytes_user: "user s = user t \<Longrightarrow> get_fs_bytes buf n s = get_fs_bytes buf n t"
  by (simp add: get_fs_bytes_def get_fs_byte_def)

lemma length_get_fs_bytes [simp]: "length (get_fs_bytes buf n s) = n"
  by (simp add: get_fs_bytes_def)

lemma pipe_take_round:
  assumes ok: "pipe_ok i s" and c: "c \<le> 4096 - unat (PIPE_TAIL (ino s i))" "c \<le> PIPE_SIZE (ino s i)"
  shows "pipe_bytes i (pipe_take i buf c s) = drop c (pipe_bytes i s)"
    and "pipe_ok i (pipe_take i buf c s)"
    and "user (pipe_take i buf c s) = user (put_fs_bytes (take c (pipe_bytes i s)) buf s)"
    and "i_count (ino (pipe_take i buf c s) i) = i_count (ino s i)"
    and "PIPE_SIZE (ino (pipe_take i buf c s) i) = PIPE_SIZE (ino s i) - c"
proof -
  let ?t = "pipe_take i buf c s" and ?h = "unat (PIPE_HEAD (ino s i))" and ?l = "unat (PIPE_TAIL (ino s i))"
  define u where "u = set_ino i (\<lambda>x. x\<lparr>i_zone := (i_zone x)[1 := (PIPE_TAIL (ino s i) + of_nat c) AND 0xFFF]\<rparr>) s"
  have i: "i < length (inode_table s)" and z: "2 \<le> length (i_zone (ino s i))" and h: "?h < 4096" and l: "?l < 4096"
    using ok by (auto simp: pipe_ok_def)
  have inou: "ino u i = ino s i\<lparr>i_zone := (i_zone (ino s i))[1 := (PIPE_TAIL (ino s i) + of_nat c) AND 0xFFF]\<rparr>"
    using i by (simp add: u_def)
  then have t: "?t = copy_from_page (i_size (ino s i)) ?l c buf u"
    by (simp add: pipe_take_def Let_def u_def [symmetric] del: One_nat_def)
  have inot: "ino ?t = ino u" by (simp add: t copy_from_page_def)
  have tl: "unat (PIPE_TAIL (ino ?t i)) = (?l + c) mod 4096"
    using z unfolding inot inou PIPE_TAIL_def by (simp add: unat_add_and_page)
  have hd: "PIPE_HEAD (ino ?t i) = PIPE_HEAD (ino s i)" by (simp add: inot inou PIPE_HEAD_def)
  have phys: "phys_byte a ?t = phys_byte a s" for a
    by (simp add: t copy_from_page_def phys_byte_def u_def)
  show "i_count (ino ?t i) = i_count (ino s i)" by (simp add: inot inou)
  show "pipe_ok i ?t"
    using ok hd tl by (simp add: pipe_ok_def inot inou) (simp add: t copy_from_page_def u_def)
  show sz: "PIPE_SIZE (ino ?t i) = PIPE_SIZE (ino s i) - c"
    using PIPE_SIZE_step [of "ino s i" "ino ?t i" c 0] h l hd tl PIPE_HEAD_eq [OF h l] c PIPE_SIZE_less [of "ino s i"]
    by simp
  show "pipe_bytes i ?t = drop c (pipe_bytes i s)"
    unfolding pipe_bytes_def sz tl using c(2) by (simp add: ring_simps phys) (simp add: inot inou)
  have "List.map (\<lambda>k. phys_byte (i_size (ino s i) + of_nat (?l + k)) u) [0..<c] = take c (pipe_bytes i s)"
    unfolding pipe_bytes_def take_ring_list [OF c(2)] unfolding ring_list_def
  proof (rule map_cong)
    fix k assume "k \<in> set [0..<c]"
    then have "(?l + k) mod 4096 = ?l + k" using c(1) l by simp
    then show "phys_byte (i_size (ino s i) + of_nat (?l + k)) u = phys_byte (i_size (ino s i) + of_nat ((?l + k) mod 4096)) s"
      by (simp add: phys_byte_def u_def)
  qed simp
  then show "user ?t = user (put_fs_bytes (take c (pipe_bytes i s)) buf s)"
    unfolding t copy_from_page_def by (simp only:) (rule user_put_fs_bytes_cong, simp add: u_def)
qed

lemma wake_inode_simps [simp]:
  "user (wake_inode i s) = user s" "phys (wake_inode i s) = phys s"
  "length (inode_table (wake_inode i s)) = length (inode_table s)"
  "i_zone (ino (wake_inode i s) j) = i_zone (ino s j)" "i_size (ino (wake_inode i s) j) = i_size (ino s j)"
  "i_count (ino (wake_inode i s) j) = i_count (ino s j)"
  by (cases "i_wait (ino s i)"; simp add: wake_inode_def wake_up_def upd_def ino_set_ino; simp add: ino_def)+

lemma pipe_wake_inode [simp]:
  "pipe_bytes i (wake_inode i s) = pipe_bytes i s" "pipe_ok i (wake_inode i s) = pipe_ok i s"
  by (simp_all add: pipe_bytes_def pipe_ok_def PIPE_SIZE_def PIPE_HEAD_def PIPE_TAIL_def phys_byte_def)

subsection \<open>Whole transfers\<close>

lemma write_pipe_loop_appends:
  assumes "pipe_ok i s" and "0 \<le> count" and "nat count < fuel"
    and "m = min (nat count) (4095 - PIPE_SIZE (ino s i))"
  shows "\<exists>u. pipe_ok i u \<and> pipe_bytes i u = pipe_bytes i s @ get_fs_bytes buf m s \<and> user u = user s \<and>
    i_count (ino u i) = i_count (ino s i) \<and> i_size (ino u i) = i_size (ino s i) \<and>
    write_pipe_loop fuel i buf count n s =
      (if nat count \<le> 4095 - PIPE_SIZE (ino s i) then Ok (n + count) (wake_inode i u)
       else if i_count (ino s i) \<noteq> 2 then broken_pipe (n + int m) (wake_inode i u)
       else sleep_inode i (wake_inode i u))"
  using assms
proof (induction fuel arbitrary: buf count n s m)
  case (Suc fuel)
  let ?room = "4095 - PIPE_SIZE (ino s i)"
  consider "count = 0" | "0 < count" "?room = 0" | "0 < count" "0 < ?room" using Suc.prems by linarith
  then show ?case
  proof cases
    case 1
    then show ?thesis using Suc.prems by (intro exI [of _ s]) (simp add: get_fs_bytes_def)
  next
    case 2
    then have "PIPE_SIZE (ino s i) = 4095" using PIPE_SIZE_less [of "ino s i"] by simp
    then show ?thesis using 2 Suc.prems by (intro exI [of _ s]) (simp add: get_fs_bytes_def)
  next
    case 3
    define c where "c = pipe_put_size i count s"
    let ?t = "pipe_put i buf c s"
    have c: "0 < c" "c \<le> nat count" "c \<le> 4096 - unat (PIPE_HEAD (ino s i))" "c \<le> ?room"
      using 3 Suc.prems by (simp_all add: c_def pipe_put_size_def pipe_ok_def min_le_iff_disj)
    note r = pipe_put_round [OF Suc.prems(1) c(3,4), of buf]
    have e: "4095 - PIPE_SIZE (ino ?t i) = ?room - c" using r(6) by simp
    have m: "min (nat (count - int c)) (4095 - PIPE_SIZE (ino ?t i)) = m - c" and cm: "c \<le> m"
      using c Suc.prems(4) unfolding e by (simp_all only: nat_diff_distrib' min_diff nat_int)
    have im: "n + int c + int (m - c) = n + int m" using cm by simp
    have fuel: "0 \<le> count - int c" "nat (count - int c) < fuel" using c Suc.prems by auto
    from Suc.IH [OF r(2) fuel m [symmetric], of "buf + of_nat c" "n + int c"] r e
    obtain u where u: "pipe_ok i u" "pipe_bytes i u = pipe_bytes i ?t @ get_fs_bytes (buf + of_nat c) (m - c) ?t"
      "user u = user s" "i_count (ino u i) = i_count (ino s i)" "i_size (ino u i) = i_size (ino s i)"
      "write_pipe_loop fuel i (buf + of_nat c) (count - int c) (n + int c) ?t =
        (if nat (count - int c) \<le> ?room - c then Ok (n + count) (wake_inode i u)
         else if i_count (ino s i) \<noteq> 2 then broken_pipe (n + int m) (wake_inode i u)
         else sleep_inode i (wake_inode i u))" unfolding im by auto
    have "pipe_bytes i u = pipe_bytes i s @ get_fs_bytes buf m s"
      using u(2) r(1) cm get_fs_bytes_add [of buf c "m - c" s] get_fs_bytes_user [OF r(3)] by simp
    moreover have "nat (count - int c) \<le> ?room - c \<longleftrightarrow> nat count \<le> ?room" using c 3 by auto
    moreover have "write_pipe_loop (Suc fuel) i buf count n s =
        write_pipe_loop fuel i (buf + of_nat c) (count - int c) (n + int c) ?t"
      using 3 by (simp add: c_def)
    ultimately show ?thesis using u by (intro exI [of _ u]) simp
  qed
qed simp

lemma read_pipe_loop_takes:
  assumes "pipe_ok i s" and "0 \<le> count" and "nat count < fuel"
    and "m = min (nat count) (PIPE_SIZE (ino s i))"
  shows "\<exists>u. pipe_ok i u \<and> pipe_bytes i u = drop m (pipe_bytes i s) \<and>
    user u = user (put_fs_bytes (take m (pipe_bytes i s)) buf s) \<and>
    read_pipe_loop fuel i buf count n s =
      (if nat count \<le> PIPE_SIZE (ino s i) then Ok (n + count) (wake_inode i u)
       else if i_count (ino s i) \<noteq> 2 then Ok (n + int m) (wake_inode i u)
       else sleep_inode i (wake_inode i u))"
  using assms
proof (induction fuel arbitrary: buf count n s m)
  case (Suc fuel)
  let ?size = "PIPE_SIZE (ino s i)"
  consider "count = 0" | "0 < count" "?size = 0" | "0 < count" "0 < ?size" using Suc.prems by linarith
  then show ?case
  proof cases
    case 1
    then show ?thesis using Suc.prems by (intro exI [of _ s]) simp
  next
    case 2
    then show ?thesis using Suc.prems by (intro exI [of _ s]) simp
  next
    case 3
    define c where "c = pipe_take_size i count s"
    let ?t = "pipe_take i buf c s"
    have c: "0 < c" "c \<le> nat count" "c \<le> 4096 - unat (PIPE_TAIL (ino s i))" "c \<le> ?size"
      using 3 Suc.prems by (simp_all add: c_def pipe_take_size_def pipe_ok_def min_le_iff_disj)
    note r = pipe_take_round [OF Suc.prems(1) c(3,4), of buf]
    have m: "min (nat (count - int c)) (PIPE_SIZE (ino ?t i)) = m - c" and cm: "c \<le> m"
      using c Suc.prems(4) r(5) by (simp_all add: nat_diff_distrib' min_diff)
    have im: "n + int c + int (m - c) = n + int m" using cm by simp
    have fuel: "0 \<le> count - int c" "nat (count - int c) < fuel" using c Suc.prems by auto
    from Suc.IH [OF r(2) fuel m [symmetric], of "buf + of_nat c" "n + int c"] r
    obtain u where u: "pipe_ok i u" "pipe_bytes i u = drop (m - c) (drop c (pipe_bytes i s))"
      "user u = user (put_fs_bytes (take (m - c) (drop c (pipe_bytes i s))) (buf + of_nat c) ?t)"
      "read_pipe_loop fuel i (buf + of_nat c) (count - int c) (n + int c) ?t =
        (if nat (count - int c) \<le> ?size - c then Ok (n + count) (wake_inode i u)
         else if i_count (ino s i) \<noteq> 2 then Ok (n + int m) (wake_inode i u)
         else sleep_inode i (wake_inode i u))" unfolding im by auto
    have "take m (pipe_bytes i s) = take c (pipe_bytes i s) @ take (m - c) (drop c (pipe_bytes i s))"
      using cm by (metis le_add_diff_inverse take_add)
    then have "user u = user (put_fs_bytes (take m (pipe_bytes i s)) buf s)"
      using u(3) c(4) user_put_fs_bytes_cong [OF r(3)] by (simp add: put_fs_bytes_append)
    moreover have "nat (count - int c) \<le> ?size - c \<longleftrightarrow> nat count \<le> ?size" using c 3 by auto
    moreover have "read_pipe_loop (Suc fuel) i buf count n s =
        read_pipe_loop fuel i (buf + of_nat c) (count - int c) (n + int c) ?t"
      using 3 by (simp add: c_def)
    ultimately show ?thesis using u cm by (intro exI [of _ u]) simp
  qed
qed simp

declare write_pipe_loop.simps [simp del] read_pipe_loop.simps [simp del]

lemma user_put_fs_bytes_beyond:
  assumes "\<And>j. j < length bs \<Longrightarrow> x \<noteq> a + of_nat j"
  shows "user (put_fs_bytes bs a s) x = user s x"
  using assms
proof (induction bs arbitrary: a s)
  case (Cons b bs)
  have "x \<noteq> (a + 1) + of_nat j" if "j < length bs" for j
    using Cons.prems [of "Suc j"] that by (simp add: algebra_simps)
  then show ?case using Cons.IH [of "a + 1" "put_fs_byte b a s"] Cons.prems [of 0] by (simp add: put_fs_byte_def)
qed simp

lemma get_put_fs_bytes:
  assumes "length bs < 2 ^ 32"
  shows "get_fs_bytes a (length bs) (put_fs_bytes bs a s) = bs"
  using assms
proof (induction bs arbitrary: a s)
  case (Cons b bs)
  have "a \<noteq> (a + 1) + of_nat j" if "j < length bs" for j
  proof
    assume "a = (a + 1) + of_nat j"
    then have "(of_nat (Suc j) :: u32) = of_nat 0" by (simp add: algebra_simps)
    then show False using that Cons.prems by (subst (asm) word_unat_eq_iff) (simp add: unat_of_nat_small del: of_nat_Suc)
  qed
  then have "user (put_fs_bytes bs (a + 1) (put_fs_byte b a s)) a = b"
    by (subst user_put_fs_bytes_beyond) (simp_all add: put_fs_byte_def)
  then show ?case
    using Cons.IH [of "a + 1" "put_fs_byte b a s"] Cons.prems get_fs_bytes_add [of a 1 "length bs" "put_fs_bytes bs (a + 1) (put_fs_byte b a s)"]
    by (simp add: get_fs_bytes_def [of a "Suc 0"] get_fs_byte_def)
qed (simp add: get_fs_bytes_def)

text \<open>
  C21: \<open>write_pipe\<close> refines appending to a queue of at most 4095 bytes, and always returns or sleeps: the
  bytes of the caller that fit are appended in order to those in the pipe, whether or not the ring wraps.
  If all fit the call returns the count; otherwise it stops with the queue full, and then sleeps if the
  pipe has a reader, or returns the bytes written (-1 if none) with \<open>SIGPIPE\<close> if it has none.
\<close>

theorem write_pipe_appends:
  assumes "pipe_ok i s" and "0 \<le> count" and "m = min (nat count) (4095 - length (pipe_bytes i s))"
  shows "\<exists>u. pipe_ok i u \<and> pipe_bytes i u = pipe_bytes i s @ get_fs_bytes buf m s \<and> user u = user s \<and>
    write_pipe i buf count s =
      (if length (pipe_bytes i s) + nat count \<le> 4095 then Ok count u
       else if i_count (ino s i) \<noteq> 2 then broken_pipe (int m) u else sleep_inode i u)"
proof -
  from write_pipe_loop_appends [OF assms(1,2) lessI, of m buf 0] assms(3)
  obtain u where u: "pipe_ok i u" "pipe_bytes i u = pipe_bytes i s @ get_fs_bytes buf m s" "user u = user s"
    "write_pipe i buf count s =
      (if nat count \<le> 4095 - PIPE_SIZE (ino s i) then Ok count (wake_inode i u)
       else if i_count (ino s i) \<noteq> 2 then broken_pipe (int m) (wake_inode i u)
       else sleep_inode i (wake_inode i u))" by (auto simp: write_pipe_def)
  moreover have "nat count \<le> 4095 - PIPE_SIZE (ino s i) \<longleftrightarrow> length (pipe_bytes i s) + nat count \<le> 4095"
    using PIPE_SIZE_less [of "ino s i"] by simp linarith
  ultimately show ?thesis by (intro exI [of _ "wake_inode i u"]) simp
qed

text \<open>
  C22: \<open>read_pipe\<close> refines taking from the front of the queue, and always returns or sleeps: the first
  bytes in the pipe, as many as were asked for and are there, go to the caller's buffer in order and leave
  the pipe. If they are enough the call returns the count; otherwise, with the pipe empty, it sleeps if
  there is a writer, although it already has data, and returns what it read if there is none.
\<close>

theorem read_pipe_takes:
  assumes "pipe_ok i s" and "0 \<le> count" and "m = min (nat count) (length (pipe_bytes i s))"
  shows "\<exists>u. pipe_ok i u \<and> pipe_bytes i u = drop m (pipe_bytes i s) \<and>
    user u = user (put_fs_bytes (take m (pipe_bytes i s)) buf s) \<and>
    read_pipe i buf count s =
      (if nat count \<le> length (pipe_bytes i s) then Ok count u
       else if i_count (ino s i) \<noteq> 2 then Ok (int m) u else sleep_inode i u)"
proof -
  from read_pipe_loop_takes [OF assms(1,2) lessI, of m buf 0] assms(3)
  obtain u where "pipe_ok i u" "pipe_bytes i u = drop m (pipe_bytes i s)"
    "user u = user (put_fs_bytes (take m (pipe_bytes i s)) buf s)"
    "read_pipe i buf count s =
      (if nat count \<le> PIPE_SIZE (ino s i) then Ok count (wake_inode i u)
       else if i_count (ino s i) \<noteq> 2 then Ok (int m) (wake_inode i u)
       else sleep_inode i (wake_inode i u))" by (auto simp: read_pipe_def)
  then show ?thesis by (intro exI [of _ "wake_inode i u"]) simp
qed

text \<open>
  What one task writes to an empty pipe, up to its capacity of 4095 bytes, the next read of as many
  bytes delivers, byte for byte, wherever the ring starts, and the pipe is empty again.
\<close>

theorem pipe_in_order:
  assumes "pipe_ok i s" and "pipe_bytes i s = []" and "0 \<le> n" and "n \<le> 4095"
  shows "\<exists>t u. write_pipe i src n s = Ok n t \<and> read_pipe i dst n t = Ok n u \<and>
    get_fs_bytes dst (nat n) u = get_fs_bytes src (nat n) s \<and> pipe_bytes i u = []"
proof -
  have e: "PIPE_SIZE (ino s i) = 0" using assms(2) length_pipe_bytes [of i s] by simp
  have m: "nat n = min (nat n) (4095 - PIPE_SIZE (ino s i))" using e assms by simp
  have n: "nat n \<le> 4095" using assms(4) by simp
  from write_pipe_loop_appends [OF assms(1,3) lessI m, of src 0] e assms(2) n
  obtain t where t: "pipe_ok i t" "pipe_bytes i t = get_fs_bytes src (nat n) s" "write_pipe i src n s = Ok n (wake_inode i t)"
    by (auto simp: write_pipe_def)
  let ?t = "wake_inode i t"
  have l: "nat n = min (nat n) (PIPE_SIZE (ino ?t i))" and l': "nat n \<le> PIPE_SIZE (ino ?t i)"
    using length_pipe_bytes [of i ?t] t(2) by simp_all
  from read_pipe_loop_takes [OF _ assms(3) lessI l, of dst 0] t(1,2) l'
  obtain u where u: "pipe_bytes i u = []" "user u = user (put_fs_bytes (get_fs_bytes src (nat n) s) dst ?t)"
    "read_pipe i dst n ?t = Ok n (wake_inode i u)" by (auto simp: read_pipe_def)
  have "get_fs_bytes dst (nat n) (wake_inode i u) =
      get_fs_bytes dst (nat n) (put_fs_bytes (get_fs_bytes src (nat n) s) dst ?t)"
    by (rule get_fs_bytes_user) (simp add: u)
  also have "\<dots> = get_fs_bytes src (nat n) s"
    using get_put_fs_bytes [of "get_fs_bytes src (nat n) s" dst ?t] assms(4) by simp
  finally show ?thesis using t(3) u(1,3) by auto
qed

subsection \<open>A pipe\<close>

text \<open>An empty pipe whose ring starts two bytes before the end of its page, with two users.\<close>

definition demo_pipe :: fs where
  "demo_pipe = demo_fs\<lparr>inode_table := [\<lparr>i_mode = 0, i_uid = 0, i_size = 0x50000, i_mtime = 0, i_gid = 0,
     i_nlinks = 0, i_zone = [4094, 4094, 0, 0, 0, 0, 0, 0, 0], i_wait = None, i_atime = 0, i_ctime = 0, i_dev = 0,
     i_num = 0, i_count = 2, i_lock = False, i_dirt = False, i_pipe = True, i_mount = False, i_seek = False,
     i_update = False\<rparr>], user := (\<lambda>a. ucast a)\<rparr>"

lemma demo_pipe_ok: "pipe_ok 0 demo_pipe" "PIPE_SIZE (ino demo_pipe 0) = 0" "i_count (ino demo_pipe 0) = 2"
  by (simp_all add: demo_pipe_def pipe_ok_def PIPE_HEAD_def PIPE_TAIL_def PIPE_SIZE_def ino_def)

lemma demo_pipe_empty: "pipe_bytes 0 demo_pipe = []"
  by (simp add: pipe_bytes_def demo_pipe_ok)

theorem write_pipe_appends_witness:
  "\<exists>u. pipe_bytes 0 u = [7, 8, 9] \<and> write_pipe 0 7 3 demo_pipe = Ok 3 u"
  using write_pipe_appends [OF demo_pipe_ok(1) _ refl, where count = 3 and buf = 7]
  by (simp add: demo_pipe_ok demo_pipe_empty)
    (auto simp: demo_pipe_def get_fs_bytes_def get_fs_byte_def upt_rec)

theorem read_pipe_takes_witness:
  "\<exists>u. read_pipe 0 7 3 demo_pipe = sleep_inode 0 u \<and> pipe_bytes 0 u = []"
  using read_pipe_takes [OF demo_pipe_ok(1) _ refl, where count = 3 and buf = 7]
  by (auto simp: demo_pipe_ok demo_pipe_empty)

theorem pipe_in_order_witness:
  "\<exists>t u. write_pipe 0 7 4095 demo_pipe = Ok 4095 t \<and> read_pipe 0 0x2000 4095 t = Ok 4095 u \<and>
    get_fs_bytes 0x2000 4095 u = get_fs_bytes 7 4095 demo_pipe \<and> pipe_bytes 0 u = []"
  using pipe_in_order [OF demo_pipe_ok(1) demo_pipe_empty, where n = 4095 and src = 7 and dst = "0x2000"] by simp

end
