(* ===== verification/Video.thy ===== *)
theory Video
  imports Console
begin

text \<open>
  What the console does to the screen. Addresses in video memory are written \<open>at b i\<close>, \<open>i\<close> bytes
  after the base \<open>b\<close>; the string instructions are described by the cells they change. The invariant
  \<open>con_ok\<close> is the geometry of the screen in its memory: the screen lies inside the video memory, the
  cursor on the screen or just behind a line, the scroll region inside the screen.
\<close>

definition at :: "u32 \<Rightarrow> nat \<Rightarrow> u32" where
  "at b i = b + of_nat i"

lemma at_inj: "i < 2 ^ 32 \<Longrightarrow> j < 2 ^ 32 \<Longrightarrow> at b i = at b j \<longleftrightarrow> i = j"
  unfolding at_def add_left_cancel by (simp add: word_unat_eq_iff [of "of_nat i"] unat_of_nat_small)

lemma at_add: "at b i + of_nat k = at b (i + k)"
  by (simp add: at_def)

lemma at_plus: "at b i + 2 = at b (i + 2)" "at b i + 4 = at b (i + 4)"
  by (simp_all add: at_def)

lemma at_minus: "k \<le> i \<Longrightarrow> at b i - of_nat k = at b (i - k)"
  by (simp add: at_def)

lemma at_minus_numeral: "2 \<le> i \<Longrightarrow> at b i - 2 = at b (i - 2)" "4 \<le> i \<Longrightarrow> at b i - 4 = at b (i - 4)"
  using at_minus [of 2 i b] at_minus [of 4 i b] by simp_all

lemma at_unat: "at b (unat (a - b)) = a"
  by (simp add: at_def)

subsection \<open>The string instructions\<close>

lemma stosw_at:
  assumes "j + 2 * n \<le> 2 ^ 32" and "i < 2 ^ 32"
  shows "stosw n (at b j) v m (at b i) =
    (if j \<le> i \<and> i < j + 2 * n \<and> even (i + j) then v else m (at b i))"
  using assms
proof (induction n arbitrary: j m)
  case (Suc n)
  define m' where "m' = m(at b j := v)"
  have m': "m' (at b i) = (if i = j then v else m (at b i))"
    using Suc.prems by (simp add: m'_def at_inj)
  moreover have "j \<le> i \<and> i < j + 2 * Suc n \<and> even (i + j) \<longleftrightarrow>
      i = j \<or> j + 2 \<le> i \<and> i < j + 2 + 2 * n \<and> even (i + (j + 2))"
    by (cases "i = Suc j") auto
  ultimately show ?case
    using Suc.IH [of "j + 2" m'] Suc.prems
    by (cases "i = j") (simp_all add: at_plus m'_def [symmetric])
qed auto

lemma stosw_down_at:
  assumes "2 * n \<le> j + 2" and "j < 2 ^ 32" and "i < 2 ^ 32"
  shows "stosw_down n (at b j) v m (at b i) =
    (if i \<le> j \<and> j < i + 2 * n \<and> even (i + j) then v else m (at b i))"
  using assms
proof (induction n arbitrary: j m)
  case (Suc n)
  define m' where "m' = m(at b j := v)"
  have m': "m' (at b i) = (if i = j then v else m (at b i))"
    using Suc.prems by (simp add: m'_def at_inj)
  show ?case
  proof (cases "j < 2")
    case True
    then have "n = 0" using Suc.prems by simp
    then show ?thesis using True m' by (cases "i = j") (auto simp: less_Suc_eq m'_def)
  next
    case False
    have "i \<le> j \<and> j < i + 2 * Suc n \<and> even (i + j) \<longleftrightarrow>
        i = j \<or> i \<le> j - 2 \<and> j - 2 < i + 2 * n \<and> even (i + (j - 2))"
      using False by (cases "j = Suc i") auto
    then show ?thesis
      using Suc.IH [of "j - 2" m'] Suc.prems m' False
      by (cases "i = j") (simp_all add: at_minus_numeral m'_def [symmetric])
  qed
qed auto

lemma movsl_at:
  assumes "j + d + 4 * n \<le> 2 ^ 32" and "i < 2 ^ 32"
  shows "movsl n (at b (j + d)) (at b j) m (at b i) =
    (if j \<le> i \<and> i < j + 4 * n \<and> even (i + j) then m (at b (i + d)) else m (at b i))"
  using assms
proof (induction n arbitrary: j m)
  case (Suc n)
  define m' where "m' = m(at b j := m (at b (j + d)), at b (j + 2) := m (at b (j + d + 2)))"
  have at: "m' (at b i) = (if i = j then m (at b (j + d)) else if i = j + 2 then m (at b (j + d + 2)) else m (at b i))"
    using Suc.prems by (simp add: m'_def at_inj)
  have hi: "m' (at b k) = m (at b k)" if "j + 4 \<le> k" "k < 2 ^ 32" for k
    using that Suc.prems by (simp add: m'_def at_inj)
  have c: "j \<le> i \<and> i < j + 4 * Suc n \<and> even (i + j) \<longleftrightarrow>
      i = j \<or> i = j + 2 \<or> j + 4 \<le> i \<and> i < j + 4 + 4 * n \<and> even (i + (j + 4))"
    by (cases "i = Suc j"; cases "i = j + 3") auto
  have step: "movsl (Suc n) (at b (j + d)) (at b j) m (at b i) = movsl n (at b (j + 4 + d)) (at b (j + 4)) m' (at b i)"
    unfolding movsl.simps at_plus m'_def by (simp only: ac_simps)
  show ?case
    unfolding step c using Suc.IH [of "j + 4" m'] Suc.prems at hi [of "i + d"]
    by (cases "i = j"; cases "i = j + 2") (simp_all add: ac_simps)
qed auto

lemma movsl_down_at:
  assumes "4 * n + d \<le> j + 4" and "j + 2 < 2 ^ 32" and "i < 2 ^ 32"
  shows "movsl_down n (at b (j - d)) (at b j) m (at b i) =
    (if i \<le> j + 2 \<and> j + 2 < i + 4 * n \<and> even (i + j) then m (at b (i - d)) else m (at b i))"
  using assms
proof (induction n arbitrary: j m)
  case (Suc n)
  define m' where "m' = m(at b j := m (at b (j - d)), at b (j + 2) := m (at b (j + 2 - d)))"
  have d: "d \<le> j" using Suc.prems by simp
  have at: "m' (at b i) = (if i = j then m (at b (j - d)) else if i = j + 2 then m (at b (j + 2 - d)) else m (at b i))"
    using Suc.prems by (simp add: m'_def at_inj)
  have lo: "m' (at b k) = m (at b k)" if "k < j" for k
    using that Suc.prems by (simp add: m'_def at_inj)
  have e: "j - d + 2 = j + 2 - d" using d by simp
  show ?case
  proof (cases "j < 4")
    case True
    then have n: "n = 0" using Suc.prems by simp
    have "i \<le> j + 2 \<and> j + 2 < i + 4 * Suc n \<and> even (i + j) \<longleftrightarrow> i = j \<or> i = j + 2"
      unfolding n by presburger
    moreover have "movsl_down (Suc n) (at b (j - d)) (at b j) m = m'"
      using d by (simp add: n at_plus m'_def Suc_diff_le)
    ultimately show ?thesis using at by auto
  next
    case False
    have c: "i \<le> j + 2 \<and> j + 2 < i + 4 * Suc n \<and> even (i + j) \<longleftrightarrow>
        i = j \<or> i = j + 2 \<or> i \<le> j - 4 + 2 \<and> j - 4 + 2 < i + 4 * n \<and> even (i + (j - 4))"
      using False by presburger
    have step: "movsl_down (Suc n) (at b (j - d)) (at b j) m (at b i) =
        movsl_down n (at b (j - 4 - d)) (at b (j - 4)) m' (at b i)" if "0 < n"
      using that Suc.prems d by (simp add: at_plus m'_def Suc_diff_le at_minus_numeral add.commute [of d 4])
    show ?thesis
    proof (cases "n = 0")
      case True
      have "movsl_down (Suc n) (at b (j - d)) (at b j) m = m'"
        using d by (simp add: True at_plus m'_def Suc_diff_le)
      then show ?thesis unfolding c using True at False by auto
    next
      case n: False
      have r: "4 * n + d \<le> j - 4 + 4" "j - 4 + 2 < 2 ^ 32" using Suc.prems False by auto
      have e: "m' (at b (i - d)) = m (at b (i - d))" if "i \<le> j - 4 + 2" "j - 4 + 2 < i + 4 * n"
        using that Suc.prems False by (intro lo) auto
      have ne: "i \<noteq> j \<and> i \<noteq> j + 2" if "i \<le> j - 4 + 2" using that False by auto
      show ?thesis
        unfolding step [OF neq0_conv [THEN iffD1, OF n]] c Suc.IH [OF r Suc.prems(3), of m'] using at e ne by auto
    qed
  qed
qed auto

lemma shift_right_at:
  assumes "j + 2 * n \<le> 2 ^ 32" and "i < 2 ^ 32"
  shows "shift_right n (at b j) old m (at b i) =
    (if j \<le> i \<and> i < j + 2 * n \<and> even (i + j) then if i = j then old else m (at b (i - 2)) else m (at b i))"
  using assms
proof (induction n arbitrary: j m old)
  case (Suc n)
  define m' where "m' = m(at b j := old)"
  have m': "m' (at b k) = (if k = j then old else m (at b k))" if "k < 2 ^ 32" for k
    using Suc.prems that by (simp add: m'_def at_inj)
  have c: "j \<le> i \<and> i < j + 2 * Suc n \<and> even (i + j) \<longleftrightarrow>
      i = j \<or> j + 2 \<le> i \<and> i < j + 2 + 2 * n \<and> even (i + (j + 2))"
    by (cases "i = Suc j") auto
  have step: "shift_right (Suc n) (at b j) old m (at b i) = shift_right n (at b (j + 2)) (m (at b j)) m' (at b i)"
    by (simp add: at_plus m'_def)
  show ?case
    unfolding step c using Suc.IH [of "j + 2" "m (at b j)" m'] Suc.prems m' [of i] m' [of "i - 2"]
    by (cases "j + 2 \<le> i"; cases "i = j"; cases "i = j + 2") auto
qed auto

lemma shift_left_at:
  assumes "j + 2 * n + 2 \<le> 2 ^ 32" and "i < 2 ^ 32"
  shows "shift_left n (at b j) m (at b i) =
    (if j \<le> i \<and> i < j + 2 * n \<and> even (i + j) then m (at b (i + 2)) else m (at b i))"
  using assms
proof (induction n arbitrary: j m)
  case (Suc n)
  define m' where "m' = m(at b j := m (at b (j + 2)))"
  have m': "m' (at b k) = (if k = j then m (at b (j + 2)) else m (at b k))" if "k < 2 ^ 32" for k
    using Suc.prems that by (simp add: m'_def at_inj)
  have c: "j \<le> i \<and> i < j + 2 * Suc n \<and> even (i + j) \<longleftrightarrow>
      i = j \<or> j + 2 \<le> i \<and> i < j + 2 + 2 * n \<and> even (i + (j + 2))"
    by (cases "i = Suc j") auto
  have step: "shift_left (Suc n) (at b j) m (at b i) = shift_left n (at b (j + 2)) m' (at b i)"
    by (simp add: at_plus m'_def)
  show ?case
    unfolding step c using Suc.IH [of "j + 2" m'] Suc.prems m' [of i] m' [of "i + 2"]
    by (cases "i = j") simp_all
qed auto

subsection \<open>The geometry of the screen\<close>

definition mem_bytes :: "con \<Rightarrow> nat" where
  "mem_bytes c = unat (video_mem_end c) - unat (video_mem_start c)"

definition org :: "con \<Rightarrow> nat" where
  "org c = unat (origin c - video_mem_start c)"

definition cols :: "con \<Rightarrow> nat" where
  "cols c = unat (video_num_columns c)"

text \<open>The byte of row \<open>y\<close> and column \<open>x\<close>, from the start of the video memory.\<close>

definition cell_at :: "con \<Rightarrow> nat \<Rightarrow> nat \<Rightarrow> nat" where
  "cell_at c y x = org c + y * (2 * cols c) + 2 * x"

definition video_ok :: "con \<Rightarrow> bool" where
  "video_ok c \<longleftrightarrow>
     8 \<le> cols c \<and> cols c \<le> 160 \<and> even (cols c) \<and> video_size_row c = video_num_columns c * 2 \<and>
     video_num_lines c = 25 \<and> video_mem_start c \<le> video_mem_end c \<and> video_mem_end c \<le> 0xC0000 \<and>
     org c + 50 * cols c \<le> mem_bytes c \<and> scr_end c = origin c + 25 * video_size_row c"

definition con_ok :: "con \<Rightarrow> bool" where
  "con_ok c \<longleftrightarrow> video_ok c \<and> cx c \<le> video_num_columns c \<and> cy c < 25 \<and>
     cpos c = origin c + cy c * video_size_row c + 2 * cx c \<and>
     c_top c < c_bottom c \<and> c_bottom c \<le> 25 \<and> npar c < NPAR \<and> length (par c) = NPAR"

text \<open>The memory outside the video memory is left alone, and so is its place.\<close>

definition contained :: "con \<Rightarrow> con \<Rightarrow> bool" where
  "contained c d \<longleftrightarrow>
     video_mem_start d = video_mem_start c \<and> video_mem_end d = video_mem_end c \<and>
     (\<forall>i. mem_bytes c \<le> i \<longrightarrow> i < 2 ^ 32 \<longrightarrow> vram d (at (video_mem_start c) i) = vram c (at (video_mem_start c) i))"

lemma contained_refl [simp]: "contained c c"
  by (simp add: contained_def)

lemma contained_trans: "contained c d \<Longrightarrow> contained d e \<Longrightarrow> contained c e"
  by (simp add: contained_def mem_bytes_def)

lemma contained_outside:
  assumes "contained c d" and "video_mem_start c \<le> video_mem_end c" and "video_mem_end c \<le> 0xC0000"
    and "\<not> (video_mem_start c \<le> a \<and> a < video_mem_end c)"
  shows "vram d a = vram c a"
proof -
  let ?i = "unat (a - video_mem_start c)"
  have "mem_bytes c \<le> ?i"
    using assms(2-4) by (cases "video_mem_start c \<le> a")
      (auto simp: mem_bytes_def word_le_nat_alt word_less_nat_alt unat_sub_if')
  moreover have "?i < 2 ^ 32" using unsigned_less [where 'a = nat, of "a - video_mem_start c"] by simp
  ultimately have "vram d (at (video_mem_start c) ?i) = vram c (at (video_mem_start c) ?i)"
    using assms(1) by (simp add: contained_def)
  then show ?thesis by (simp add: at_unat)
qed

lemma origin_at: "origin c = at (video_mem_start c) (org c)"
  by (simp add: org_def at_unat)

lemma columns_of_nat: "video_num_columns c = of_nat (cols c)"
  by (simp add: cols_def)

text \<open>Addresses on the screen, as the code computes them.\<close>

lemma row_at:
  assumes "video_ok c"
  shows "origin c + y * video_size_row c + 2 * x = at (video_mem_start c) (cell_at c (unat y) (unat x))"
  using assms unfolding origin_at video_ok_def cell_at_def
  by (simp add: at_def columns_of_nat algebra_simps)

lemma video_bounds:
  assumes "video_ok c"
  shows "mem_bytes c \<le> 0xC0000" "8 \<le> cols c" "cols c \<le> 160" "org c + 50 * cols c \<le> mem_bytes c"
  using assms by (auto simp: video_ok_def mem_bytes_def word_le_nat_alt)

lemma screen_bound:
  assumes "y < 25" and "x \<le> cols c"
  shows "cell_at c y x \<le> org c + 50 * cols c"
proof -
  have "y * (2 * cols c) + 2 * x \<le> 24 * (2 * cols c) + 2 * cols c"
    using assms by (intro add_mono mult_le_mono) auto
  then show ?thesis by (simp add: cell_at_def)
qed

subsection \<open>Writes stay in the video memory\<close>

lemma contained_vram:
  assumes "\<And>i. mem_bytes c \<le> i \<Longrightarrow> i < 2 ^ 32 \<Longrightarrow> m (at (video_mem_start c) i) = vram c (at (video_mem_start c) i)"
  shows "contained c (c\<lparr>vram := m\<rparr>)"
  using assms by (simp add: contained_def)

lemma contained_stosw:
  assumes "video_ok c" and "j + 2 * n \<le> mem_bytes c"
  shows "contained c (c\<lparr>vram := stosw n (at (video_mem_start c) j) v (vram c)\<rparr>)"
  using assms(2) video_bounds [OF assms(1)] by (intro contained_vram) (simp add: stosw_at)

lemma contained_cell:
  assumes "video_ok c" and "j + 2 \<le> mem_bytes c"
  shows "contained c (c\<lparr>vram := (vram c)(at (video_mem_start c) j := v)\<rparr>)"
  using assms(2) video_bounds [OF assms(1)] by (intro contained_vram) (simp add: at_inj)

text \<open>Changes of everything but the memory.\<close>

lemma contained_same:
  assumes "video_mem_start d = video_mem_start c" and "video_mem_end d = video_mem_end c" and "vram d = vram c"
  shows "contained c d"
  using assms by (simp add: contained_def)

lemma contained_updates [simp]:
  "contained c (d\<lparr>cpos := p\<rparr>) = contained c d" "contained c (d\<lparr>cx := x\<rparr>) = contained c d"
  "contained c (d\<lparr>cy := y\<rparr>) = contained c d" "contained c (d\<lparr>origin := p\<rparr>) = contained c d"
  "contained c (d\<lparr>scr_end := p\<rparr>) = contained c d" "contained c (d\<lparr>c_top := t\<rparr>) = contained c d"
  "contained c (d\<lparr>c_bottom := t\<rparr>) = contained c d" "contained c (d\<lparr>c_state := n\<rparr>) = contained c d"
  "contained c (d\<lparr>npar := n\<rparr>) = contained c d" "contained c (d\<lparr>par := ps\<rparr>) = contained c d"
  "contained c (d\<lparr>ques := q\<rparr>) = contained c d" "contained c (d\<lparr>c_attr := a\<rparr>) = contained c d"
  "contained c (d\<lparr>saved_x := x\<rparr>) = contained c d" "contained c (d\<lparr>saved_y := x\<rparr>) = contained c d"
  "contained c (d\<lparr>beepcount := i\<rparr>) = contained c d" "contained c (outb w prt d) = contained c d"
  by (simp_all add: contained_def outb_def)

text \<open>The parts of the state that \<open>con_ok\<close> reads, apart from those of \<open>video_ok\<close>.\<close>

lemma video_ok_same:
  assumes "video_num_columns d = video_num_columns c" "video_size_row d = video_size_row c"
    "video_num_lines d = video_num_lines c" "video_mem_start d = video_mem_start c"
    "video_mem_end d = video_mem_end c" "origin d = origin c" "scr_end d = scr_end c"
  shows "video_ok d = video_ok c"
  using assms by (simp add: video_ok_def cols_def org_def mem_bytes_def)

lemma region_bytes:
  assumes "video_ok c" and "c_top c < c_bottom c" and "c_bottom c \<le> 25"
  shows "4 * region_count c = (unat (c_bottom c) - unat (c_top c) - 1) * (2 * cols c)"
proof -
  let ?h = "unat (c_bottom c) - unat (c_top c) - 1"
  have b: "unat (c_bottom c) \<le> 25" "unat (c_top c) < unat (c_bottom c)"
    using assms(2,3) by (simp_all add: word_le_nat_alt word_less_nat_alt)
  have "c_bottom c - c_top c - 1 = of_nat ?h"
    using b by (simp add: of_nat_diff Suc_leI flip: One_nat_def)
  then have e: "(c_bottom c - c_top c - 1) * video_num_columns c = of_nat (?h * cols c)"
    by (simp add: columns_of_nat)
  have "?h * cols c \<le> 25 * 160" using b video_bounds [OF assms(1)] by (intro mult_le_mono) auto
  then have "unat ((c_bottom c - c_top c - 1) * video_num_columns c) = ?h * cols c"
    unfolding e by (intro unat_of_nat_small) simp
  then have "region_count c = ?h * cols c div 2"
    unfolding region_count_def drop_bit_eq_div by (simp add: unat_div_distrib)
  moreover have "even (?h * cols c)" using assms(1) by (simp add: video_ok_def)
  ultimately show ?thesis by (metis dvd_mult_div_cancel mult.commute mult.left_commute mult_2 numeral_Bit0 distrib_right)
qed

lemma region_facts:
  assumes "video_ok c" and "c_top c < c_bottom c" and "c_bottom c \<le> 25"
  defines "t \<equiv> unat (c_top c)" and "b \<equiv> unat (c_bottom c)"
  shows "t < b" "b \<le> 25" "4 * region_count c = (b - t - 1) * (2 * cols c)"
    "cell_at c t 0 + 4 * region_count c = cell_at c (b - 1) 0"
    "cell_at c (b - 1) 0 + 2 * cols c = cell_at c b 0" "cell_at c t 0 + 2 * cols c = cell_at c (Suc t) 0"
    "cell_at c (Suc t) 0 + 4 * region_count c = cell_at c b 0"
    "cell_at c b 0 \<le> org c + 50 * cols c"
proof -
  show r: "t < b" "b \<le> 25" "4 * region_count c = (b - t - 1) * (2 * cols c)"
    using region_bytes [OF assms(1-3)] assms(2,3) by (simp_all add: t_def b_def word_le_nat_alt word_less_nat_alt)
  obtain k where k: "b = Suc (t + k)" using r(1) less_iff_Suc_add by auto
  then show "cell_at c t 0 + 4 * region_count c = cell_at c (b - 1) 0"
    "cell_at c (b - 1) 0 + 2 * cols c = cell_at c b 0" "cell_at c t 0 + 2 * cols c = cell_at c (Suc t) 0"
    "cell_at c (Suc t) 0 + 4 * region_count c = cell_at c b 0"
    using r(3) by (simp_all add: cell_at_def algebra_simps)
  show "cell_at c b 0 \<le> org c + 50 * cols c"
    using mult_le_mono1 [OF r(2), of "2 * cols c"] by (simp add: cell_at_def)
qed

lemma row_base:
  assumes "video_ok c"
  shows "origin c + video_size_row c * y = at (video_mem_start c) (cell_at c (unat y) 0)"
  using row_at [OF assms, of y 0] by (simp add: mult.commute)

lemma size_row_of_nat: "video_ok c \<Longrightarrow> video_size_row c = of_nat (2 * cols c)"
  by (simp add: video_ok_def columns_of_nat mult.commute)

lemma vram_move_up:
  assumes "video_ok c" and "c_top c < c_bottom c" and "c_bottom c \<le> 25" and "i < 2 ^ 32"
  shows "vram (move_up c) (at (video_mem_start c) i) =
    (let s = cell_at c (unat (c_top c)) 0; e = cell_at c (unat (c_bottom c) - 1) 0 in
     if e \<le> i \<and> i < e + 2 * cols c \<and> even (i + e) then video_erase_char c
     else if s \<le> i \<and> i < e \<and> even (i + s) then vram c (at (video_mem_start c) (i + 2 * cols c))
     else vram c (at (video_mem_start c) i))"
proof -
  note r = region_facts [OF assms(1-3)] and v = video_bounds [OF assms(1)]
  let ?ms = "video_mem_start c" and ?s = "cell_at c (unat (c_top c)) 0" and ?n = "region_count c"
  have src: "origin c + video_size_row c * (c_top c + 1) = at ?ms (?s + 2 * cols c)"
  proof -
    have "origin c + video_size_row c * (c_top c + 1) = origin c + video_size_row c * c_top c + video_size_row c"
      by (simp add: distrib_left)
    also have "\<dots> = at ?ms (?s + 2 * cols c)"
      unfolding row_base [OF assms(1)] unfolding size_row_of_nat [OF assms(1)] by (rule at_add)
    finally show ?thesis .
  qed
  have dst: "at ?ms ?s + 4 * of_nat ?n = at ?ms (cell_at c (unat (c_bottom c) - 1) 0)"
    using r(4) at_add [of ?ms ?s "4 * ?n"] by simp
  show ?thesis
    using v r(4,5,8) unfolding move_up_def Let_def src row_base [OF assms(1), of "c_top c"] dst
    by (simp add: stosw_at [OF _ assms(4)] movsl_at [OF _ assms(4)] cols_def [symmetric])
qed

lemma down_region:
  fixes s u n k e :: nat
  assumes "4 \<le> s + 2 * u" and e: "e = s + 2 * u + 4 * n"
  shows "k \<le> e - 4 + 2 \<and> e - 4 + 2 < k + 4 * n \<and> even (k + (e - 4)) \<longleftrightarrow>
    s + 2 * u \<le> k \<and> k < e \<and> even (k + s)"
proof -
  obtain q where q: "s + 2 * u = q + 4" using assms(1) by (metis add.commute le_Suc_ex)
  have "even s \<longleftrightarrow> even q" using q by presburger
  moreover have "k \<le> q + 4 * n + 2 \<and> q + 4 * n + 2 < k + 4 * n \<and> even (k + (q + 4 * n)) \<longleftrightarrow>
      q + 4 \<le> k \<and> k < q + 4 + 4 * n \<and> even (k + q)" by presburger
  ultimately show ?thesis unfolding e q by simp
qed

lemma vram_move_down:
  assumes "video_ok c" and "c_top c < c_bottom c" and "c_bottom c \<le> 25" and "i < 2 ^ 32"
  shows "vram (move_down c) (at (video_mem_start c) i) =
    (let s = cell_at c (unat (c_top c)) 0; e = cell_at c (unat (c_bottom c)) 0 in
     if s \<le> i \<and> i < s + 2 * cols c \<and> even (i + s) then video_erase_char c
     else if s + 2 * cols c \<le> i \<and> i < e \<and> even (i + s) then vram c (at (video_mem_start c) (i - 2 * cols c))
     else vram c (at (video_mem_start c) i))"
proof -
  note r = region_facts [OF assms(1-3)] and v = video_bounds [OF assms(1)]
  let ?ms = "video_mem_start c" and ?s = "cell_at c (unat (c_top c)) 0" and ?n = "region_count c"
    and ?e = "cell_at c (unat (c_bottom c)) 0" and ?w = "2 * cols c"
  have e: "?e = ?s + ?w + 4 * ?n" using r(6,7) by simp
  have d: "origin c + video_size_row c * c_bottom c - 4 = at ?ms (?e - 4)"
    unfolding row_base [OF assms(1)] using v(2) e by (intro at_minus_numeral) simp
  have fill: "at ?ms (?e - 4) - 4 * of_nat ?n + 2 = at ?ms (?s + ?w - 2)"
  proof -
    have "at ?ms (?e - 4) - of_nat (4 * ?n) + 2 = at ?ms (?e - 4 - 4 * ?n) + 2"
      using e v(2) by (subst at_minus) simp_all
    also have "\<dots> = at ?ms (?e - 4 - 4 * ?n + 2)" by (rule at_plus)
    also have "?e - 4 - 4 * ?n + 2 = ?s + ?w - 2" using e v(2) by linarith
    finally show ?thesis by simp
  qed
  let ?src = "origin c + video_size_row c * (c_bottom c - 1) - 4"
  have moved: "movsl_down ?n ?src (at ?ms (?e - 4)) (vram c) (at ?ms k) =
      (if ?s + ?w \<le> k \<and> k < ?e \<and> even (k + ?s) then vram c (at ?ms (k - ?w)) else vram c (at ?ms k))"
    if k: "k < 2 ^ 32" for k
  proof (cases "?n = 0")
    case True
    then show ?thesis using e by auto
  next
    case False
    have w: "?w \<le> 4 * ?n" using False r(3) by (cases "unat (c_bottom c) - unat (c_top c) - 1") auto
    have "?src = origin c + video_size_row c * c_bottom c - 4 - video_size_row c"
      by (simp add: right_diff_distrib)
    also have "\<dots> = at ?ms (?e - 4 - ?w)"
      unfolding d unfolding size_row_of_nat [OF assms(1)] using w e v(2) by (intro at_minus) simp
    finally have src: "?src = at ?ms (?e - 4 - ?w)" .
    have "4 \<le> ?s + 2 * cols c" using v(2) by simp
    from down_region [OF this e] have r': "k \<le> ?e - 4 + 2 \<and> ?e - 4 + 2 < k + 4 * ?n \<and> even (k + (?e - 4)) \<longleftrightarrow>
        ?s + ?w \<le> k \<and> k < ?e \<and> even (k + ?s)" .
    have fits: "4 * ?n + ?w \<le> ?e - 4 + 4" "?e - 4 + 2 < 2 ^ 32" using e r(8) v by auto
    show ?thesis unfolding src movsl_down_at [OF fits k] r' ..
  qed
  have fits: "2 * cols c \<le> ?s + ?w - 2 + 2" "?s + ?w - 2 < 2 ^ 32" using e r(8) v by auto
  have c: "i \<le> ?s + ?w - 2 \<and> ?s + ?w - 2 < i + 2 * cols c \<and> even (i + (?s + ?w - 2)) \<longleftrightarrow>
      ?s \<le> i \<and> i < ?s + ?w \<and> even (i + ?s)"
  proof -
    have "2 \<le> ?s + ?w" using v(2) by simp
    then obtain q where q: "?s + ?w = q + 2" by (metis add.commute le_Suc_ex)
    have "i \<le> q \<and> q < i + 2 * cols c \<and> even (i + q) \<longleftrightarrow> ?s \<le> i \<and> i < q + 2 \<and> even (i + ?s)"
      using q by presburger
    then show ?thesis unfolding q by simp
  qed
  have "vram (move_down c) (at ?ms i) = stosw_down (cols c) (at ?ms (?s + ?w - 2)) (video_erase_char c)
      (movsl_down ?n ?src (at ?ms (?e - 4)) (vram c)) (at ?ms i)"
    unfolding move_down_def Let_def d fill by (simp add: cols_def)
  then show ?thesis
    unfolding Let_def stosw_down_at [OF fits assms(4)] c moved [OF assms(4)] .
qed

end
