(* ===== verification/Screen.thy ===== *)
theory Screen
  imports Video Tty
begin

text \<open>
  The console never leaves its screen: every operation, and so every character the console is sent,
  keeps the geometry \<open>con_ok\<close> and writes only video memory. The two ways of scrolling, moving lines in
  memory and moving the start of the screen, have the same effect on what is displayed.
\<close>

definition keeps :: "(con \<Rightarrow> con) \<Rightarrow> bool" where
  "keeps f \<longleftrightarrow> (\<forall>c. con_ok c \<longrightarrow> con_ok (f c) \<and> contained c (f c))"

lemma keepsI: "(\<And>c. con_ok c \<Longrightarrow> con_ok (f c)) \<Longrightarrow> (\<And>c. con_ok c \<Longrightarrow> contained c (f c)) \<Longrightarrow> keeps f"
  by (simp add: keeps_def)

lemma keepsD: "keeps f \<Longrightarrow> con_ok c \<Longrightarrow> con_ok (f c)" "keeps f \<Longrightarrow> con_ok c \<Longrightarrow> contained c (f c)"
  by (simp_all add: keeps_def)

named_theorems keeps_intros "operations that stay on the screen"

lemma keeps_id [keeps_intros]: "keeps (\<lambda>c. c)"
  by (simp add: keeps_def)

lemma keeps_comp: "keeps f \<Longrightarrow> keeps g \<Longrightarrow> keeps (\<lambda>c. f (g c))"
  using contained_trans by (fastforce simp: keeps_def)

lemma keeps_if [keeps_intros]: "keeps f \<Longrightarrow> keeps g \<Longrightarrow> keeps (\<lambda>c. if P c then f c else g c)"
  by (auto simp: keeps_def)

lemma keeps_funpow: "keeps f \<Longrightarrow> keeps (f ^^ n)"
proof (induction n)
  case 0
  then show ?case by (simp add: keeps_def)
next
  case (Suc n)
  then show ?case using keeps_comp [of f "f ^^ n"] by (simp add: comp_def)
qed

lemma video_ok_fields [simp]:
  "video_ok (c\<lparr>vram := m\<rparr>) = video_ok c" "video_ok (c\<lparr>cpos := p\<rparr>) = video_ok c"
  "video_ok (c\<lparr>cx := x\<rparr>) = video_ok c" "video_ok (c\<lparr>cy := y\<rparr>) = video_ok c"
  "video_ok (c\<lparr>c_top := t\<rparr>) = video_ok c" "video_ok (c\<lparr>c_bottom := t\<rparr>) = video_ok c"
  "video_ok (c\<lparr>npar := n\<rparr>) = video_ok c" "video_ok (c\<lparr>par := ps\<rparr>) = video_ok c"
  "video_ok (c\<lparr>c_state := n\<rparr>) = video_ok c" "video_ok (c\<lparr>ques := q\<rparr>) = video_ok c"
  "video_ok (c\<lparr>c_attr := a\<rparr>) = video_ok c" "video_ok (c\<lparr>saved_x := x\<rparr>) = video_ok c"
  "video_ok (c\<lparr>saved_y := x\<rparr>) = video_ok c" "video_ok (c\<lparr>beepcount := i\<rparr>) = video_ok c"
  "video_ok (c\<lparr>port_out := os\<rparr>) = video_ok c"
  by (rule video_ok_same; simp)+

lemma con_ok_fields [simp]:
  "con_ok (c\<lparr>vram := m\<rparr>) = con_ok c" "con_ok (c\<lparr>c_state := n\<rparr>) = con_ok c"
  "con_ok (c\<lparr>ques := q\<rparr>) = con_ok c" "con_ok (c\<lparr>c_attr := a\<rparr>) = con_ok c"
  "con_ok (c\<lparr>saved_x := x\<rparr>) = con_ok c" "con_ok (c\<lparr>saved_y := x\<rparr>) = con_ok c"
  "con_ok (c\<lparr>beepcount := i\<rparr>) = con_ok c" "con_ok (c\<lparr>port_out := os\<rparr>) = con_ok c"
  "con_ok (outb v p c) = con_ok c"
  by (simp_all add: con_ok_def outb_def)

lemma con_okD:
  assumes "con_ok c"
  shows "video_ok c" "cx c \<le> video_num_columns c" "cy c < 25" "c_top c < c_bottom c" "c_bottom c \<le> 25"
    "cpos c = origin c + cy c * video_size_row c + 2 * cx c" "npar c < NPAR" "length (par c) = NPAR"
    "video_num_lines c = 25" "video_size_row c = video_num_columns c * 2"
  using assms by (auto simp: con_ok_def video_ok_def)

subsection \<open>Scrolling\<close>

lemma contained_move_up:
  assumes "video_ok c" and "c_top c < c_bottom c" and "c_bottom c \<le> 25"
  shows "contained c (move_up c)"
proof -
  note v = vram_move_up [OF assms] and r = region_facts [OF assms] and b = video_bounds [OF assms(1)]
  have "contained c (c\<lparr>vram := vram (move_up c)\<rparr>)"
    using r(4,5,8) b by (intro contained_vram) (simp add: v)
  then show ?thesis by (simp add: move_up_def Let_def)
qed

lemma contained_move_down:
  assumes "video_ok c" and "c_top c < c_bottom c" and "c_bottom c \<le> 25"
  shows "contained c (move_down c)"
proof -
  note v = vram_move_down [OF assms] and r = region_facts [OF assms] and b = video_bounds [OF assms(1)]
  have "contained c (c\<lparr>vram := vram (move_down c)\<rparr>)"
    using r(6-8) b by (intro contained_vram) (simp add: v)
  then show ?thesis by (simp add: move_down_def Let_def)
qed

lemma keeps_move_up [keeps_intros]: "keeps move_up"
proof (rule keepsI)
  fix c assume c: "con_ok c"
  then show "contained c (move_up c)" by (intro contained_move_up con_okD)
  show "con_ok (move_up c)" using c by (simp add: move_up_def Let_def)
qed

lemma keeps_scrdown [keeps_intros]: "keeps scrdown"
proof (rule keepsI)
  fix c assume c: "con_ok c"
  then show "contained c (scrdown c)" by (simp add: scrdown_def contained_move_down con_okD)
  show "con_ok (scrdown c)" using c by (simp add: scrdown_def move_down_def Let_def)
qed

text \<open>Scrolling the whole screen by moving its start; the screen is copied back when it reaches the end.\<close>

definition hard_scroll :: "con \<Rightarrow> con" where
  "hard_scroll c =
     (let c = c\<lparr>origin := origin c + video_size_row c, cpos := cpos c + video_size_row c,
           scr_end := scr_end c + video_size_row c\<rparr> in
      if video_mem_end c < scr_end c then
        let n = unat (drop_bit 1 ((video_num_lines c - 1) * video_num_columns c));
            c = c\<lparr>vram := stosw (unat (video_num_columns c)) (video_mem_start c + 4 * of_nat n)
                  (video_erase_char c) (movsl n (origin c) (video_mem_start c) (vram c))\<rparr>;
            k = origin c - video_mem_start c in
        set_origin (c\<lparr>scr_end := scr_end c - k, cpos := cpos c - k, origin := video_mem_start c\<rparr>)
      else
        set_origin (c\<lparr>vram := stosw (unat (video_num_columns c)) (scr_end c - video_size_row c)
          (video_erase_char c) (vram c)\<rparr>))"

lemma scrup_cases:
  "scrup c = (if ega c \<and> c_top c = 0 \<and> c_bottom c = video_num_lines c then hard_scroll c else move_up c)"
  by (simp add: scrup_def hard_scroll_def Let_def)

lemma set_origin_eq: "\<exists>os. set_origin c = c\<lparr>port_out := os\<rparr>"
  by (simp add: set_origin_def set_reg_def outb_def) blast

lemma at_0: "at b 0 = b"
  by (simp add: at_def)

text \<open>The screen after one such step: its start, and the memory.\<close>

lemma unat_at: "unat b + i < 2 ^ 32 \<Longrightarrow> unat (at b i) = unat b + i"
  by (simp add: at_def unat_word_ariths unat_of_nat)

lemma hard_scroll_facts:
  assumes "video_ok c"
  defines "w \<equiv> 2 * cols c" and "ms \<equiv> video_mem_start c"
  shows "\<exists>o' os m. hard_scroll c = c\<lparr>origin := at ms o', scr_end := at ms (o' + 25 * w),
      cpos := cpos c - origin c + at ms o', vram := m, port_out := os\<rparr> \<and>
    o' + 25 * w \<le> mem_bytes c \<and>
    (\<forall>i < 2 ^ 32. m (at ms i) =
      (if o' + 24 * w \<le> i \<and> i < o' + 25 * w \<and> even (i + o') then video_erase_char c
       else if o' = 0 \<and> i < 24 * w \<and> even i then vram c (at ms (i + org c + w)) else vram c (at ms i))) \<and>
    (o' = 0 \<or> o' = org c + w)"
proof -
  note v = video_bounds [OF assms(1)]
  have row: "video_size_row c = of_nat w" using size_row_of_nat [OF assms(1)] by (simp add: w_def)
  have se: "scr_end c = at ms (org c + 25 * w)"
    using assms(1) by (simp add: video_ok_def row ms_def) (simp add: origin_at at_def)
  have o': "origin c + video_size_row c = at ms (org c + w)" "scr_end c + video_size_row c = at ms (org c + w + 25 * w)"
    unfolding se row at_add by (simp_all add: origin_at [of c] ms_def at_def algebra_simps)
  have lines: "video_num_lines c = 25" using assms(1) by (simp add: video_ok_def)
  have n: "4 * unat (drop_bit 1 ((video_num_lines c - 1) * video_num_columns c)) = 24 * w"
  proof -
    have "(video_num_lines c - 1) * video_num_columns c = of_nat (24 * cols c)"
      by (simp add: lines columns_of_nat)
    moreover have "unat (of_nat (24 * cols c) :: u32) = 24 * cols c"
      using v by (intro unat_of_nat_small) simp
    ultimately show ?thesis by (simp add: drop_bit_eq_div unat_div_distrib w_def)
  qed
  have past: "video_mem_end c < at ms (org c + w + 25 * w) \<longleftrightarrow> mem_bytes c < org c + w + 25 * w"
  proof -
    have "unat ms + mem_bytes c = unat (video_mem_end c)" "unat ms + mem_bytes c \<le> 0xC0000"
      using assms(1) by (auto simp: video_ok_def mem_bytes_def ms_def word_le_nat_alt)
    moreover from this have "unat (at ms (org c + w + 25 * w)) = unat ms + (org c + w + 25 * w)"
      using v by (intro unat_at) (simp add: w_def)
    ultimately show ?thesis by (auto simp: word_less_nat_alt)
  qed
  let ?n = "unat (drop_bit 1 ((video_num_lines c - 1) * video_num_columns c))"
  have fill: "ms + 4 * of_nat ?n = at ms (24 * w)"
    using n by (metis at_def of_nat_mult of_nat_numeral)
  show ?thesis
  proof (cases "mem_bytes c < org c + w + 25 * w")
    case True
    define m where "m = stosw (cols c) (at ms (24 * w)) (video_erase_char c) (movsl ?n (at ms (org c + w)) ms (vram c))"
    let ?d = "c\<lparr>vram := m, scr_end := scr_end c + video_size_row c - (at ms (org c + w) - ms),
        cpos := cpos c + video_size_row c - (at ms (org c + w) - ms), origin := ms\<rparr>"
    define d where "d = c\<lparr>origin := ms, scr_end := scr_end c + video_size_row c - (at ms (org c + w) - ms),
        cpos := cpos c + video_size_row c - (at ms (org c + w) - ms), vram := m\<rparr>"
    have dd: "d = ?d" unfolding d_def by (rule con.equality) simp_all
    have "hard_scroll c = set_origin d"
      using True past fill unfolding hard_scroll_def Let_def dd m_def
      by (simp add: o' ms_def [symmetric] cols_def)
    then obtain os where os: "hard_scroll c = d\<lparr>port_out := os\<rparr>" using set_origin_eq [of d] by auto
    have p: "cpos c + video_size_row c - (at ms (org c + w) - ms) = cpos c - origin c + at ms 0"
      unfolding o'(1) [symmetric] by (simp add: at_0)
    have e: "scr_end c + video_size_row c - (at ms (org c + w) - ms) = at ms (0 + 25 * w)"
      unfolding o'(2) by (simp add: at_def)
    have "m (at ms i) = (if 24 * w \<le> i \<and> i < 25 * w \<and> even i then video_erase_char c
        else if i < 24 * w \<and> even i then vram c (at ms (i + org c + w)) else vram c (at ms i))"
      if "i < 2 ^ 32" for i
      using that v n movsl_at [of 0 "org c + w" ?n i ms "vram c"] unfolding m_def
      by (auto simp: stosw_at at_0 w_def add.assoc)
    then show ?thesis
      using v unfolding os d_def p e
      by (intro exI [of _ 0] exI [of _ os] exI [of _ m]) (auto simp: at_0 w_def)
  next
    case False
    define m where "m = stosw (cols c) (at ms (org c + w + 25 * w) - video_size_row c) (video_erase_char c) (vram c)"
    let ?d = "c\<lparr>origin := at ms (org c + w), cpos := cpos c + video_size_row c,
        scr_end := at ms (org c + w + 25 * w), vram := m\<rparr>"
    define d where "d = c\<lparr>origin := at ms (org c + w), scr_end := at ms (org c + w + 25 * w),
        cpos := cpos c + video_size_row c, vram := m\<rparr>"
    have dd: "d = ?d" unfolding d_def by (rule con.equality) simp_all
    have "hard_scroll c = set_origin d"
      using False past unfolding hard_scroll_def Let_def dd m_def
      by (simp add: o' cols_def)
    then obtain os where os: "hard_scroll c = d\<lparr>port_out := os\<rparr>" using set_origin_eq [of d] by auto
    have p: "cpos c + video_size_row c = cpos c - origin c + at ms (org c + w)"
      unfolding o'(1) [symmetric] by simp
    have "at ms (org c + w + 25 * w) - of_nat w = at ms (org c + w + 24 * w)"
      by (subst at_minus) simp_all
    then have "m (at ms i) = (if org c + w + 24 * w \<le> i \<and> i < org c + w + 25 * w \<and> even (i + (org c + w))
        then video_erase_char c else vram c (at ms i))" if "i < 2 ^ 32" for i
      using that v False unfolding m_def row by (simp add: stosw_at w_def)
    moreover have "0 < org c + w" using v by (simp add: w_def)
    moreover have "even w" by (simp add: w_def)
    ultimately show ?thesis
      using False unfolding os d_def p
      by (intro exI [of _ "org c + w"] exI [of _ os] exI [of _ m]) simp
  qed
qed

lemma keeps_hard_scroll:
  assumes "con_ok c"
  shows "con_ok (hard_scroll c)" and "contained c (hard_scroll c)"
proof -
  let ?w = "2 * cols c" and ?ms = "video_mem_start c"
  note v = con_okD [OF assms]
  from hard_scroll_facts [OF v(1)] obtain o' os m where h: "hard_scroll c = c\<lparr>origin := at ?ms o',
      scr_end := at ?ms (o' + 25 * ?w), cpos := cpos c - origin c + at ?ms o', vram := m, port_out := os\<rparr>"
    "o' + 25 * ?w \<le> mem_bytes c"
    "\<forall>i < 2 ^ 32. m (at ?ms i) =
      (if o' + 24 * ?w \<le> i \<and> i < o' + 25 * ?w \<and> even (i + o') then video_erase_char c
       else if o' = 0 \<and> i < 24 * ?w \<and> even i then vram c (at ?ms (i + org c + ?w)) else vram c (at ?ms i))" by blast
  let ?d = "hard_scroll c"
  have org: "org ?d = o'"
    using h(2) video_bounds [OF v(1)] by (simp add: h(1) org_def at_def unat_of_nat_small)
  have "scr_end ?d = origin ?d + 25 * video_size_row ?d"
    using size_row_of_nat [OF v(1)] by (simp add: h(1) at_def algebra_simps)
  then have "video_ok ?d"
    using v(1) h(2) org by (simp add: video_ok_def cols_def mem_bytes_def) (simp add: h(1))
  then show "con_ok ?d" using assms by (simp add: con_ok_def) (simp add: h(1))
  show "contained c ?d" using h(2,3) unfolding h(1) by (simp add: contained_def)
qed

lemma keeps_scrup [keeps_intros]: "keeps scrup"
  using keeps_hard_scroll keepsD [OF keeps_move_up] by (auto intro!: keepsI simp: scrup_cases)

text \<open>What is on the screen, at row \<open>y\<close> and column \<open>x\<close>.\<close>

definition screen :: "con \<Rightarrow> nat \<Rightarrow> nat \<Rightarrow> u16" where
  "screen c y x = vram c (origin c + of_nat (y * (2 * cols c) + 2 * x))"

lemma screen_at: "screen c y x = vram c (at (video_mem_start c) (cell_at c y x))"
  using at_add [of "video_mem_start c" "org c" "y * (2 * cols c) + 2 * x"]
  by (simp add: screen_def cell_at_def origin_at [symmetric] add.assoc)

lemma cell_less:
  assumes "x < cols c"
  shows "cell_at c y x < cell_at c z 0 \<longleftrightarrow> y < z" and "cell_at c z 0 \<le> cell_at c y x \<longleftrightarrow> z \<le> y"
proof -
  have "y * (2 * cols c) + 2 * x < z * (2 * cols c)" if "y < z"
    using mult_le_mono1 [of "Suc y" z "2 * cols c"] that assms by simp
  moreover have "z * (2 * cols c) \<le> y * (2 * cols c) + 2 * x" if "z \<le> y"
    using mult_le_mono1 [of z y "2 * cols c"] that by (intro trans_le_add1)
  ultimately show "cell_at c y x < cell_at c z 0 \<longleftrightarrow> y < z" "cell_at c z 0 \<le> cell_at c y x \<longleftrightarrow> z \<le> y"
    by (auto simp: cell_at_def not_less [symmetric])
qed

lemma cell_bound:
  assumes "con_ok c" and "y < 25" and "x < cols c"
  shows "cell_at c y x < 2 ^ 32"
  using screen_bound [of y x c] video_bounds [OF con_okD(1) [OF assms(1)]] assms(2,3) by simp

lemma cell_even: "even (cell_at c y x + cell_at c z 0)"
  by (simp add: cell_at_def)

lemma cell_next: "cell_at c y x + 2 * cols c = cell_at c (Suc y) x" "cell_at c (Suc y) x - 2 * cols c = cell_at c y x"
  by (simp_all add: cell_at_def)

lemma screen_move_up:
  assumes "con_ok c" and "y < 25" and "x < cols c"
  shows "screen (move_up c) y x =
    (if unat (c_top c) \<le> y \<and> y + 1 < unat (c_bottom c) then screen c (y + 1) x
     else if y + 1 = unat (c_bottom c) then video_erase_char c else screen c y x)"
proof -
  note v = con_okD [OF assms(1)]
  note r = region_facts [OF v(1,4,5)]
  have e: "screen (move_up c) y x = vram (move_up c) (at (video_mem_start c) (cell_at c y x))"
    by (simp add: screen_at) (simp add: move_up_def Let_def cell_at_def org_def cols_def)
  show ?thesis
    unfolding e vram_move_up [OF v(1,4,5) cell_bound [OF assms]] Let_def r(5)
    using r(1,2) cell_even [of c y x] cell_less [OF assms(3)] by (auto simp: screen_at cell_next)
qed

lemma screen_move_down:
  assumes "con_ok c" and "y < 25" and "x < cols c"
  shows "screen (scrdown c) y x =
    (if unat (c_top c) < y \<and> y < unat (c_bottom c) then screen c (y - 1) x
     else if y = unat (c_top c) then video_erase_char c else screen c y x)"
proof -
  note v = con_okD [OF assms(1)]
  note r = region_facts [OF v(1,4,5)]
  have e: "screen (scrdown c) y x = vram (move_down c) (at (video_mem_start c) (cell_at c y x))"
    by (simp add: screen_at scrdown_def) (simp add: move_down_def Let_def cell_at_def org_def cols_def)
  show ?thesis
    unfolding e vram_move_down [OF v(1,4,5) cell_bound [OF assms]] Let_def r(6)
    using r(1,2) cell_even [of c y x] cell_less [OF assms(3)] cell_next(2) [of c "y - 1" x]
    by (auto simp: screen_at)
qed

lemma screen_hard_scroll:
  assumes "con_ok c" and "y < 25" and "x < cols c"
  shows "screen (hard_scroll c) y x = (if y < 24 then screen c (y + 1) x else video_erase_char c)"
proof -
  let ?w = "2 * cols c" and ?ms = "video_mem_start c"
  note v = con_okD [OF assms(1)]
  from hard_scroll_facts [OF v(1)] obtain o' os m where h: "hard_scroll c = c\<lparr>origin := at ?ms o',
      scr_end := at ?ms (o' + 25 * ?w), cpos := cpos c - origin c + at ?ms o', vram := m, port_out := os\<rparr>"
    "o' + 25 * ?w \<le> mem_bytes c"
    "\<forall>i < 2 ^ 32. m (at ?ms i) =
      (if o' + 24 * ?w \<le> i \<and> i < o' + 25 * ?w \<and> even (i + o') then video_erase_char c
       else if o' = 0 \<and> i < 24 * ?w \<and> even i then vram c (at ?ms (i + org c + ?w)) else vram c (at ?ms i))"
    "o' = 0 \<or> o' = org c + ?w" by blast
  let ?i = "o' + (y * ?w + 2 * x)"
  have s: "screen (hard_scroll c) y x = m (at ?ms ?i)"
    by (simp add: screen_def h(1) cols_def at_def add.assoc)
  have y: "y * ?w + 2 * x < 24 * ?w" if "y < 24"
  proof -
    have "y * ?w \<le> 23 * ?w" using that by (intro mult_le_mono1) simp
    then show ?thesis using assms(3) by linarith
  qed
  have "y * ?w \<le> 24 * ?w" using assms(2) by (intro mult_le_mono1) simp
  then have "?i \<le> o' + 25 * ?w" using assms(3) by linarith
  then have b: "?i < 2 ^ 32" using h(2) video_bounds [OF v(1)] by simp
  have next_row: "cell_at c (y + 1) x = org c + ?w + (y * ?w + 2 * x)" by (simp add: cell_at_def)
  show ?thesis
  proof (cases "y < 24")
    case True
    then show ?thesis
      unfolding s unfolding screen_at next_row h(3) [rule_format, OF b] using y h(4) video_bounds [OF v(1)]
      by (auto simp: ac_simps)
  next
    case False
    then have "y = 24" using assms(2) by simp
    then show ?thesis unfolding s h(3) [rule_format, OF b] using assms(3) by simp
  qed
qed

subsection \<open>Cursor motion and single cells\<close>

lemma keeps_gotoxy: "con_ok c \<Longrightarrow> con_ok (gotoxy x y c) \<and> contained c (gotoxy x y c)"
  using con_okD(9) [of c] by (auto simp: gotoxy_def con_ok_def not_less not_le algebra_simps)

lemma keeps_lf [keeps_intros]: "keeps lf"
proof (rule keepsI)
  fix c assume c: "con_ok c"
  note v = con_okD [OF c]
  have "cy c + 1 < 25" if "cy c + 1 < c_bottom c" using that v(5) by simp
  then show "con_ok (lf c)"
    using c v keepsD(1) [OF keeps_scrup c] by (auto simp: lf_def con_ok_def algebra_simps)
  show "contained c (lf c)" using keepsD(2) [OF keeps_scrup c] by (simp add: lf_def)
qed

lemma keeps_ri [keeps_intros]: "keeps ri"
proof (rule keepsI)
  fix c assume c: "con_ok c"
  note v = con_okD [OF c]
  have "cy c - 1 < 25" if "c_top c < cy c" using that v(3) by (auto simp: word_less_nat_alt unat_sub_if')
  then show "con_ok (ri c)"
    using c v keepsD(1) [OF keeps_scrdown c] by (auto simp: ri_def con_ok_def algebra_simps)
  show "contained c (ri c)" using keepsD(2) [OF keeps_scrdown c] by (simp add: ri_def)
qed

lemma keeps_cr [keeps_intros]: "keeps cr"
  by (rule keepsI) (auto simp: cr_def con_ok_def push_bit_eq_mult)

lemma pred_le: "x \<noteq> 0 \<Longrightarrow> x \<le> n \<Longrightarrow> x - 1 \<le> n \<and> x - 1 < n" for x n :: u32
  using unat_dec [of x] unat_gt_0 [of x] by (auto simp: word_le_nat_alt word_less_nat_alt simp del: unat_gt_0)

text \<open>The address of the cursor.\<close>

lemma cpos_at:
  assumes "con_ok c"
  shows "cpos c = at (video_mem_start c) (cell_at c (unat (cy c)) (unat (cx c)))"
    and "cell_at c (unat (cy c)) (unat (cx c)) + 2 * (cols c - unat (cx c)) \<le> mem_bytes c"
    and "unat (cx c) \<le> cols c"
proof -
  note v = con_okD [OF assms]
  show "cpos c = at (video_mem_start c) (cell_at c (unat (cy c)) (unat (cx c)))"
    unfolding v(6) by (rule row_at [OF v(1)])
  show x: "unat (cx c) \<le> cols c" using v(2) by (simp add: cols_def word_le_nat_alt)
  have "cell_at c (unat (cy c)) (unat (cx c)) + 2 * (cols c - unat (cx c)) = cell_at c (unat (cy c)) (cols c)"
    using x by (simp add: cell_at_def)
  also have "\<dots> \<le> org c + 50 * cols c"
    using v(3) by (intro screen_bound) (simp_all add: word_less_nat_alt)
  finally show "cell_at c (unat (cy c)) (unat (cx c)) + 2 * (cols c - unat (cx c)) \<le> mem_bytes c"
    using video_bounds [OF v(1)] by simp
qed

lemma keeps_del [keeps_intros]: "keeps del"
proof (rule keepsI)
  fix c assume c: "con_ok c"
  note v = con_okD [OF c] and a = cpos_at [OF c]
  show "con_ok (del c)"
    using c pred_le [of "cx c" "video_num_columns c"] by (auto simp: del_def con_ok_def algebra_simps)
  let ?p = "cell_at c (unat (cy c)) (unat (cx c))"
  have "contained c (c\<lparr>vram := (vram c)(at (video_mem_start c) (?p - 2) := video_erase_char c)\<rparr>)" if "cx c \<noteq> 0"
    using that a(2) v(1) video_bounds [OF v(1)] unat_gt_0 [of "cx c"]
    by (intro contained_cell) (simp_all add: cell_at_def del: unat_gt_0)
  moreover have "cpos c - 2 = at (video_mem_start c) (?p - 2)" if "cx c \<noteq> 0"
    unfolding a(1) using that unat_gt_0 [of "cx c"] by (intro at_minus_numeral) (simp add: cell_at_def del: unat_gt_0)
  ultimately show "contained c (del c)" by (auto simp: del_def contained_def)
qed

lemma lf_simps: "cx (lf c) = cx c" "video_num_columns (lf c) = video_num_columns c"
proof -
  have "cx (scrup c) = cx c \<and> video_num_columns (scrup c) = video_num_columns c"
    by (simp add: scrup_cases hard_scroll_def move_up_def set_origin_def set_reg_def outb_def Let_def)
  then show "cx (lf c) = cx c" "video_num_columns (lf c) = video_num_columns c" by (simp_all add: lf_def)
qed

text \<open>A cursor behind the end of a line moves to the next one.\<close>

definition wrap_line :: "con \<Rightarrow> con" where
  "wrap_line c = lf (c\<lparr>cx := cx c - video_num_columns c, cpos := cpos c - video_size_row c\<rparr>)"

lemma keeps_wrap:
  assumes "con_ok (c\<lparr>cx := cx c - video_num_columns c, cpos := cpos c - video_size_row c\<rparr>)"
  shows "con_ok (wrap_line c)" and "contained c (wrap_line c)"
proof -
  let ?d = "c\<lparr>cx := cx c - video_num_columns c, cpos := cpos c - video_size_row c\<rparr>"
  show "con_ok (wrap_line c)" unfolding wrap_line_def by (rule keepsD(1) [OF keeps_lf assms])
  have "contained c ?d" by simp
  then show "contained c (wrap_line c)"
    unfolding wrap_line_def using keepsD(2) [OF keeps_lf assms] by (rule contained_trans)
qed

lemma keeps_put:
  assumes "con_ok c" and "cx c < video_num_columns c"
    and d_def: "d = c\<lparr>vram := (vram c)(cpos c := ch), cpos := cpos c + 2, cx := cx c + 1\<rparr>"
  shows "con_ok d" and "contained c d"
proof -
  note a = cpos_at [OF assms(1)] and v = con_okD [OF assms(1)]
  have "cx c + 1 \<le> video_num_columns c" using assms(2) by (rule inc_le)
  then show "con_ok d" using assms(1) by (simp add: d_def con_ok_def algebra_simps)
  have "unat (cx c) < cols c" using assms(2) by (simp add: cols_def word_less_nat_alt)
  then have "contained c (c\<lparr>vram := (vram c)(at (video_mem_start c) (cell_at c (unat (cy c)) (unat (cx c))) := ch)\<rparr>)"
    using a(2) v(1) by (intro contained_cell) simp_all
  then show "contained c d" by (simp add: d_def a(1) [symmetric])
qed

lemma keeps_show_char [keeps_intros]: "keeps (show_char ch)"
proof -
  have "con_ok (show_char ch c) \<and> contained c (show_char ch c)" if c: "con_ok c" for c
  proof (cases "video_num_columns c \<le> cx c")
    case True
    then have x: "cx c = video_num_columns c" using con_okD(2) [OF c] by simp
    have "con_ok (c\<lparr>cx := cx c - video_num_columns c, cpos := cpos c - video_size_row c\<rparr>)"
      using c con_okD(6,10) [OF c] by (simp add: con_ok_def x algebra_simps)
    note w = keeps_wrap [OF this]
    have "0 < video_num_columns c"
      using con_okD(1) [OF c] by (auto simp: video_ok_def cols_def word_less_nat_alt)
    then have "cx (wrap_line c) < video_num_columns (wrap_line c)"
      by (simp add: wrap_line_def lf_simps x)
    note p = keeps_put [OF w(1) this refl, of "push_bit 8 (ucast (c_attr (wrap_line c))) OR ucast ch"]
    have "show_char ch c = (wrap_line c)\<lparr>vram := (vram (wrap_line c))(cpos (wrap_line c) :=
        push_bit 8 (ucast (c_attr (wrap_line c))) OR ucast ch), cpos := cpos (wrap_line c) + 2,
        cx := cx (wrap_line c) + 1\<rparr>"
      unfolding show_char_def Let_def wrap_line_def using True by simp
    then show ?thesis using p(1) contained_trans [OF w(2) p(2)] by simp
  next
    case False
    then have "show_char ch c = c\<lparr>vram := (vram c)(cpos c := push_bit 8 (ucast (c_attr c)) OR ucast ch),
        cpos := cpos c + 2, cx := cx c + 1\<rparr>"
      unfolding show_char_def Let_def by simp
    then show ?thesis using keeps_put [OF c _ refl] False by (simp only: not_le)
  qed
  then show ?thesis by (simp add: keeps_def)
qed

lemma keeps_tab [keeps_intros]: "keeps tab"
proof -
  have "con_ok (tab c) \<and> contained c (tab c)" if c: "con_ok c" for c
  proof -
    define k where "k = 8 - (cx c AND 7)"
    define d where "d = c\<lparr>cx := cx c + k, cpos := cpos c + push_bit 1 k\<rparr>"
    note v = con_okD [OF c]
    have k: "unat k \<le> 8"
    proof -
      have "cx c AND 7 \<le> 7" by (rule word_and_le1)
      then show ?thesis by (simp add: k_def word_le_nat_alt unat_sub_if')
    qed
    have n: "8 \<le> unat (video_num_columns c)" "unat (video_num_columns c) \<le> 160" "unat (cx c) \<le> unat (video_num_columns c)"
      using v(1,2) by (simp_all add: video_ok_def cols_def word_le_nat_alt)
    have x: "unat (cx c + k) = unat (cx c) + unat k"
      using n k by (simp add: unat_word_ariths)
    have t: "tab c = (if video_num_columns c < cx d then wrap_line d else d)"
      by (simp add: tab_def Let_def k_def d_def wrap_line_def)
    have cont: "contained c d" by (simp add: d_def)
    have vid: "video_ok d" using v(1) by (simp add: d_def)
    show ?thesis
    proof (cases "video_num_columns c < cx d")
      case True
      have "cx d - video_num_columns d \<le> video_num_columns d"
        using True n k x by (simp add: d_def word_le_nat_alt word_less_nat_alt unat_sub_if')
      then have "con_ok (d\<lparr>cx := cx d - video_num_columns d, cpos := cpos d - video_size_row d\<rparr>)"
        using c vid v(6,10) by (simp add: con_ok_def d_def push_bit_eq_mult algebra_simps)
      then show ?thesis using keeps_wrap [of d] True cont contained_trans by (auto simp: t)
    next
      case False
      then show ?thesis using c vid cont by (simp add: t) (simp add: con_ok_def d_def push_bit_eq_mult algebra_simps not_less)
    qed
  qed
  then show ?thesis by (simp add: keeps_def)
qed

subsection \<open>Control sequences\<close>

lemma keeps_erase:
  assumes "con_ok c" and "j + 2 * unat n \<le> mem_bytes c" and "d = at (video_mem_start c) j"
  shows "con_ok (c\<lparr>vram := stosw (unat n) d v (vram c)\<rparr>) \<and> contained c (c\<lparr>vram := stosw (unat n) d v (vram c)\<rparr>)"
  using assms contained_stosw [OF con_okD(1) [OF assms(1)]] by simp

text \<open>The number of cells between two addresses.\<close>

lemma cells_between:
  assumes "i \<le> j" and "j < 2 ^ 32"
  shows "unat (drop_bit 1 (at b j - at b i)) = (j - i) div 2"
proof -
  have "at b j - at b i = of_nat (j - i)" using assms(1) by (simp add: at_def)
  then show ?thesis using assms by (simp add: drop_bit_eq_div unat_div_distrib unat_of_nat_small del: of_nat_diff)
qed

lemma scr_end_at:
  assumes "video_ok c"
  shows "scr_end c = at (video_mem_start c) (org c + 50 * cols c)"
proof -
  have "scr_end c = origin c + of_nat (50 * cols c)"
    using assms by (simp add: video_ok_def columns_of_nat)
  then show ?thesis unfolding origin_at [of c] at_add .
qed

lemma keeps_csi_J [keeps_intros]: "keeps (csi_J p)"
proof -
  have "con_ok (csi_J p c) \<and> contained c (csi_J p c)" if c: "con_ok c" for c
  proof -
    let ?q = "cell_at c (unat (cy c)) (unat (cx c))" and ?ms = "video_mem_start c"
    note v = con_okD [OF c] and a = cpos_at [OF c] and b = video_bounds [OF con_okD(1) [OF c]]
    have q: "?q \<le> org c + 50 * cols c" "org c \<le> ?q"
      using screen_bound [of "unat (cy c)" "unat (cx c)" c] v(3) a(3) by (simp_all add: word_less_nat_alt cell_at_def)
    have "?q + 2 * unat (drop_bit 1 (scr_end c - cpos c)) \<le> mem_bytes c"
      unfolding scr_end_at [OF v(1)] a(1) using q b by (subst cells_between) auto
    note j0 = keeps_erase [OF c this a(1)]
    have "org c + 2 * unat (drop_bit 1 (cpos c - origin c)) \<le> mem_bytes c"
      unfolding origin_at a(1) using q b by (subst cells_between) auto
    note j1 = keeps_erase [OF c this origin_at]
    have "video_num_columns c * video_num_lines c = of_nat (25 * cols c)" by (simp add: v(9) columns_of_nat)
    then have "unat (video_num_columns c * video_num_lines c) = 25 * cols c"
      using b by (simp add: unat_of_nat_small del: of_nat_mult)
    then have "org c + 2 * unat (video_num_columns c * video_num_lines c) \<le> mem_bytes c" using b by simp
    note j2 = keeps_erase [OF c this origin_at]
    show ?thesis using j0 j1 j2 c by (simp add: csi_J_def Let_def)
  qed
  then show ?thesis by (simp add: keeps_def)
qed

lemma keeps_csi_K [keeps_intros]: "keeps (csi_K p)"
proof -
  have "con_ok (csi_K p c) \<and> contained c (csi_K p c)" if c: "con_ok c" for c
  proof -
    let ?q = "cell_at c (unat (cy c)) (unat (cx c))" and ?l = "cell_at c (unat (cy c)) 0" and ?ms = "video_mem_start c"
    note v = con_okD [OF c] and a = cpos_at [OF c]
    have x: "unat (video_num_columns c - cx c) = cols c - unat (cx c)"
      using v(2) by (simp add: cols_def unat_sub_if' word_le_nat_alt)
    have l: "cpos c - push_bit 1 (cx c) = at ?ms ?l"
    proof -
      have "cpos c - push_bit 1 (cx c) = at ?ms ?q - of_nat (2 * unat (cx c))" by (simp add: a(1) push_bit_eq_mult)
      also have "\<dots> = at ?ms ?l" by (subst at_minus) (simp_all add: cell_at_def)
      finally show ?thesis .
    qed
    have e: "?q = ?l + 2 * unat (cx c)" by (simp add: cell_at_def)
    have "?q + 2 * unat (video_num_columns c - cx c) \<le> mem_bytes c" using a(2) by (simp add: x)
    note k0 = keeps_erase [OF c this a(1)]
    have "?l + 2 * unat (if cx c < video_num_columns c then cx c else video_num_columns c) \<le> mem_bytes c"
      using a(2,3) e by (auto simp: cols_def)
    note k1 = keeps_erase [OF c this l]
    have "?l + 2 * unat (video_num_columns c) \<le> mem_bytes c" using a(2,3) e by (simp add: cols_def)
    note k2 = keeps_erase [OF c this l]
    show ?thesis using k0 k1 k2 c unfolding csi_K_def Let_def by (simp add: l)
  qed
  then show ?thesis by (simp add: keeps_def)
qed

lemma keeps_insert_char [keeps_intros]: "keeps insert_char"
proof -
  have "contained c (insert_char c)" if c: "con_ok c" for c
    using cpos_at [OF c] video_bounds [OF con_okD(1) [OF c]] unfolding insert_char_def
    by (intro contained_vram) (simp add: shift_right_at cols_def)
  then show ?thesis by (simp add: keeps_def) (simp add: insert_char_def)
qed

lemma keeps_delete_char [keeps_intros]: "keeps delete_char"
proof -
  have "contained c (delete_char c)" if c: "con_ok c" for c
  proof (cases "video_num_columns c \<le> cx c")
    case False
    let ?n = "cols c - unat (cx c) - 1" and ?q = "cell_at c (unat (cy c)) (unat (cx c))" and ?ms = "video_mem_start c"
    note a = cpos_at [OF c] and b = video_bounds [OF con_okD(1) [OF c]]
    have x: "unat (cx c) < cols c" using False by (simp add: cols_def word_less_nat_alt not_le)
    then have fits: "?q + 2 * ?n + 2 \<le> mem_bytes c" using a(2) by simp
    have "cpos c + 2 * of_nat ?n = at ?ms (?q + 2 * ?n)"
      unfolding a(1) using at_add [of ?ms ?q "2 * ?n"] by simp
    then have "delete_char c = c\<lparr>vram := (shift_left ?n (at ?ms ?q) (vram c))(at ?ms (?q + 2 * ?n) := video_erase_char c)\<rparr>"
      using False unfolding delete_char_def Let_def a(1) [symmetric] by (simp add: cols_def)
    moreover have "contained c (c\<lparr>vram := (shift_left ?n (at ?ms ?q) (vram c))(at ?ms (?q + 2 * ?n) := video_erase_char c)\<rparr>)"
      using fits b by (intro contained_vram) (simp add: shift_left_at at_inj)
    ultimately show ?thesis by simp
  qed (simp add: delete_char_def)
  then show ?thesis by (simp add: keeps_def) (simp add: delete_char_def Let_def)
qed

text \<open>A line is inserted or deleted by scrolling the lines from the cursor on.\<close>

lemma keeps_region:
  assumes f: "keeps f"
  shows "keeps (\<lambda>c. (f (c\<lparr>c_top := cy c, c_bottom := video_num_lines c\<rparr>))\<lparr>c_top := c_top c, c_bottom := c_bottom c\<rparr>)"
proof -
  have "con_ok ((f d)\<lparr>c_top := c_top c, c_bottom := c_bottom c\<rparr>) \<and> contained c (f d)"
    if c: "con_ok c" and d: "d = c\<lparr>c_top := cy c, c_bottom := video_num_lines c\<rparr>" for c d
  proof
    have ok: "con_ok d" using c con_okD(3,9) [OF c] by (simp add: d con_ok_def)
    then show "con_ok ((f d)\<lparr>c_top := c_top c, c_bottom := c_bottom c\<rparr>)"
      using keepsD(1) [OF f ok] con_okD(4,5) [OF c] by (simp add: con_ok_def)
    have "contained c d" by (simp add: d)
    then show "contained c (f d)" using keepsD(2) [OF f ok] by (rule contained_trans)
  qed
  then show ?thesis by (simp add: keeps_def)
qed

lemma keeps_lines [keeps_intros]: "keeps insert_line" "keeps delete_line"
  using keeps_region [OF keeps_scrdown] keeps_region [OF keeps_scrup]
  unfolding insert_line_def [abs_def] delete_line_def [abs_def] by simp_all

lemma keeps_repeated [keeps_intros]: "keeps (csi_at n)" "keeps (csi_L n)" "keeps (csi_P n)" "keeps (csi_M n)"
  using keeps_funpow [OF keeps_insert_char] keeps_funpow [OF keeps_lines(1)]
    keeps_funpow [OF keeps_delete_char] keeps_funpow [OF keeps_lines(2)]
  unfolding csi_at_def [abs_def] csi_L_def [abs_def] csi_P_def [abs_def] csi_M_def [abs_def]
  by (simp_all add: keeps_def)

lemma keeps_fields [keeps_intros]:
  "keeps csi_m" "keeps save_cur" "keeps sysbeep" "keeps (\<lambda>c. c\<lparr>c_state := n\<rparr>)"
  by (simp_all add: keeps_def csi_m_def save_cur_def sysbeep_def)

lemma keeps_goto [keeps_intros]: "keeps (\<lambda>c. gotoxy (x c) (y c) c)"
  using keeps_gotoxy by (simp add: keeps_def)

lemma keeps_restore_cur [keeps_intros]: "keeps restore_cur"
  using keeps_goto [of saved_x saved_y] by (simp add: restore_cur_def [abs_def])

lemma keeps_set_par [keeps_intros]: "keeps (set_par k f)"
  by (simp add: keeps_def set_par_def con_ok_def)

lemma keeps_one_dec [keeps_intros]: "keeps (one_par k)" "keeps (dec_par k)"
  using keeps_set_par by (simp_all add: one_par_def [abs_def] dec_par_def [abs_def] keeps_def)

lemma keeps_on: "keeps f \<Longrightarrow> con_ok c \<and> contained b c \<Longrightarrow> con_ok (f c) \<and> contained b (f c)"
  using contained_trans by (auto simp: keeps_def)

lemma keeps_set_region [keeps_intros]: "keeps set_region"
proof -
  have "con_ok (set_region c) \<and> contained c (set_region c)" if c: "con_ok c" for c
  proof -
    define d where "d = set_par 1 (\<lambda>p. if p = 0 then video_num_lines (dec_par 0 c) else p) (dec_par 0 c)"
    have "con_ok d \<and> contained c d"
      unfolding d_def using c by (intro keeps_on [OF keeps_set_par] keeps_on [OF keeps_one_dec(2)]) simp
    moreover have "set_region c = (if par d ! 0 < par d ! 1 \<and> par d ! 1 \<le> video_num_lines d
        then d\<lparr>c_top := par d ! 0, c_bottom := par d ! 1\<rparr> else d)"
      unfolding set_region_def Let_def d_def ..
    ultimately show ?thesis using con_okD(9) [of d] by (auto simp: con_ok_def)
  qed
  then show ?thesis by (simp add: keeps_def)
qed

lemma keeps_let [keeps_intros]: "keeps g \<Longrightarrow> keeps f \<Longrightarrow> keeps (\<lambda>c. Let (g c) f)"
  using keeps_comp [of f g] by (simp add: Let_def)

lemma keeps_args [keeps_intros]:
  "keeps (\<lambda>c. csi_J (k c) c)" "keeps (\<lambda>c. csi_K (k c) c)" "keeps (\<lambda>c. csi_L (k c) c)" "keeps (\<lambda>c. csi_M (k c) c)"
  "keeps (\<lambda>c. csi_P (k c) c)" "keeps (\<lambda>c. csi_at (k c) c)"
  using keeps_csi_J keeps_csi_K keeps_repeated by (simp_all add: keeps_def)

lemma keeps_two: "keeps (\<lambda>c. dec_par 1 (dec_par 0 c))"
  by (rule keeps_comp [OF keeps_one_dec(2) keeps_one_dec(2)])

lemma keeps_con_final [keeps_intros]: "keeps (con_final ch)"
  unfolding con_final_def [abs_def]
  by (intro keeps_if keeps_let keeps_goto keeps_one_dec keeps_two keeps_args keeps_lines keeps_fields keeps_set_region
      keeps_restore_cur keeps_id)

lemma keeps_backspace [keeps_intros]:
  "keeps (\<lambda>c. if cx c \<noteq> 0 then c\<lparr>cx := cx c - 1, cpos := cpos c - 2\<rparr> else c)"
proof (rule keepsI)
  fix c assume "con_ok c"
  then show "con_ok (if cx c \<noteq> 0 then c\<lparr>cx := cx c - 1, cpos := cpos c - 2\<rparr> else c)"
    using pred_le [of "cx c" "video_num_columns c"] by (auto simp: con_ok_def algebra_simps)
qed simp

lemma keeps_con_plain [keeps_intros]: "keeps (con_plain erase ch)"
  unfolding con_plain_def [abs_def]
  by (intro keeps_backspace keeps_if keeps_show_char keeps_fields keeps_lf keeps_cr keeps_del keeps_tab keeps_id)

lemma keeps_con_par [keeps_intros]: "keeps (con_par ch)"
proof -
  have "keeps (\<lambda>c. if ch = 0x3B \<and> npar c < NPAR - 1 then c\<lparr>npar := npar c + 1\<rparr>
      else if 0x30 \<le> sint ch \<and> sint ch \<le> 0x39 then set_par (npar c) (\<lambda>p. 10 * p + ucast ch - 0x30) c
      else con_final ch (c\<lparr>c_state := 0\<rparr>))"
    using keeps_comp [OF keeps_con_final keeps_fields(4)] keeps_set_par
    by (auto simp: keeps_def) (auto simp: con_ok_def)
  then show ?thesis by (simp add: con_par_def [abs_def])
qed

lemma keeps_con_esc: "keeps (\<lambda>c. fst (con_esc ch c))"
proof -
  have "keeps (\<lambda>c. if ch = 0x5B then c\<lparr>c_state := 2\<rparr> else if ch = 0x45 then gotoxy 0 (cy c + 1) c
      else if ch = 0x4D then ri c else if ch = 0x44 then lf c else if ch = 0x5A then c
      else if cx c = 0x37 then save_cur c else if cx c = 0x38 then restore_cur c else c)"
    by (intro keeps_if keeps_fields keeps_goto [of "\<lambda>c. 0"] keeps_ri keeps_lf keeps_restore_cur keeps_id)
  from keeps_let [OF keeps_fields(4) this] show ?thesis
    by (rule back_subst [of keeps]) (auto simp: con_esc_def Let_def)
qed

lemma keeps_con_char: "keeps (\<lambda>c. fst (con_char erase ch c))"
proof -
  have start: "keeps (\<lambda>c. c\<lparr>par := replicate NPAR 0, npar := 0, c_state := 3, ques := q\<rparr>)" for q
  proof (rule keepsI)
    fix c assume "con_ok c"
    then show "con_ok (c\<lparr>par := replicate NPAR 0, npar := 0, c_state := 3, ques := q\<rparr>)"
      by (simp add: con_ok_def NPAR_def)
  qed simp
  have "keeps (\<lambda>c. if c_state c = 0 then con_plain erase ch c else if c_state c = 1 then fst (con_esc ch c)
      else if c_state c = 2 then
        (let d = c\<lparr>par := replicate NPAR 0, npar := 0, c_state := 3, ques := (ch = 0x3F)\<rparr> in
         if ques d then d else con_par ch d)
      else if c_state c = 3 then con_par ch c else con_final ch (c\<lparr>c_state := 0\<rparr>))"
    by (intro keeps_if keeps_let start keeps_id keeps_con_par keeps_con_esc keeps_con_plain
        keeps_comp [OF keeps_con_final keeps_fields(4)])
  then show ?thesis
    by (rule back_subst [of keeps]) (auto simp: con_char_def Let_def)
qed

text \<open>A screen set up by \<open>con_init\<close> from what the boot loader found.\<close>

definition boot_screen :: "setup_info \<Rightarrow> con \<Rightarrow> bool" where
  "boot_screen b c \<longleftrightarrow>
     (let w = drop_bit 8 (ORIG_VIDEO_MODE_COLS b AND 0xFF00) in
      8 \<le> w \<and> w \<le> 160 \<and> even (unat w) \<and> ucast (ORIG_X b) \<le> w \<and> ORIG_Y b < 25) \<and>
     npar c < NPAR \<and> length (par c) = NPAR"

lemma gotoxy_placed:
  assumes "video_ok c" and "x \<le> video_num_columns c" and "y < 25"
    and "c_top c < c_bottom c" and "c_bottom c \<le> 25" and "npar c < NPAR" and "length (par c) = NPAR"
  shows "con_ok (gotoxy x y c)"
proof -
  have "gotoxy x y c = c\<lparr>cx := x, cy := y, cpos := origin c + y * video_size_row c + push_bit 1 x\<rparr>"
    using assms(1-3) by (simp add: gotoxy_def video_ok_def not_less not_le)
  then show ?thesis using assms by (simp add: con_ok_def push_bit_eq_mult)
qed

lemma con_init_ok:
  assumes "boot_screen b c"
  shows "con_ok (con_init b c)"
proof -
  define w where "w = drop_bit 8 (ORIG_VIDEO_MODE_COLS b AND 0xFF00)"
  have w: "8 \<le> w" "w \<le> 160" "even (unat w)" "ucast (ORIG_X b) \<le> w" "ORIG_Y b < 25"
    "npar c < NPAR" "length (par c) = NPAR"
    using assms by (auto simp: boot_screen_def w_def Let_def)
  have uw: "unat (ucast w :: u32) = unat w"
    using unsigned_less [where 'a = nat, of w] by (simp add: unsigned_ucast_eq take_bit_nat_eq_self)
  have x: "(ucast (ORIG_X b) :: u32) \<le> ucast w"
  proof -
    have "unat (ucast (ORIG_X b) :: u32) = unat (ORIG_X b)" "unat (ucast (ORIG_X b) :: u16) = unat (ORIG_X b)"
      using unsigned_less [where 'a = nat, of "ORIG_X b"] by (simp_all add: unsigned_ucast_eq take_bit_nat_eq_self)
    then show ?thesis using w(4) uw by (simp add: word_le_nat_alt)
  qed
  have y: "(ucast (ORIG_Y b) :: u32) < 25"
    using w(5) unsigned_less [where 'a = nat, of "ORIG_Y b"]
    by (simp add: word_less_nat_alt unsigned_ucast_eq take_bit_nat_eq_self)
  have n: "8 \<le> unat w" "unat w \<le> 160" using w(1,2) by (simp_all add: word_le_nat_alt)
  show ?thesis
    unfolding con_init_def Let_def con_ok_fields w_def [symmetric]
    using x y n w(3,6,7) uw
    by (intro gotoxy_placed) (simp_all add: video_ok_def org_def cols_def mem_bytes_def)
qed

text \<open>
  C23: Whatever characters the console is sent, in whatever state of an escape sequence and with whatever
  parameters, the screen stays inside the video memory, the cursor on it, the scroll region inside it and
  the parameter index inside its array; and no word of memory outside the video memory is written.
\<close>

theorem console_contained:
  assumes "con_ok c" and "d = fold (\<lambda>ch c. fst (con_char erase ch c)) chs c"
  shows "con_ok d \<and> (\<forall>a. \<not> (video_mem_start c \<le> a \<and> a < video_mem_end c) \<longrightarrow> vram d a = vram c a)"
proof -
  have "con_ok d \<and> contained c d"
    using assms
  proof (induction chs arbitrary: c)
    case (Cons ch chs)
    then show ?case
      using keepsD [OF keeps_con_char, of c erase ch] contained_trans [of c "fst (con_char erase ch c)" d] by simp
  qed simp
  moreover have "video_mem_start c \<le> video_mem_end c" "video_mem_end c \<le> 0xC0000"
    using con_okD(1) [OF assms(1)] by (simp_all add: video_ok_def)
  ultimately show ?thesis using contained_outside by blast
qed

text \<open>
  Scrolling up moves the lines of the scroll region up by one and clears the last one, and scrolling
  down moves them down and clears the first, with the rest of the screen unchanged; on EGA and VGA
  adapters the whole screen scrolls by moving its start in video memory, and with the same effect, also
  when the start has to go back to the beginning.
\<close>

theorem scrolling_moves_lines:
  assumes "con_ok c" and "y < 25" and "x < unat (video_num_columns c)"
  shows "screen (scrup c) y x =
      (if unat (c_top c) \<le> y \<and> y + 1 < unat (c_bottom c) then screen c (y + 1) x
       else if y + 1 = unat (c_bottom c) then video_erase_char c else screen c y x) \<and>
    screen (scrdown c) y x =
      (if unat (c_top c) < y \<and> y < unat (c_bottom c) then screen c (y - 1) x
       else if y = unat (c_top c) then video_erase_char c else screen c y x)"
proof -
  have x: "x < cols c" using assms(3) by (simp add: cols_def)
  show ?thesis
    using screen_move_down [OF assms(1,2) x] screen_move_up [OF assms(1,2) x] screen_hard_scroll [OF assms(1,2) x]
      con_okD(9) [OF assms(1)] assms(2)
    by (auto simp: scrup_cases)
qed

subsection \<open>A colour EGA screen\<close>

definition demo_setup :: setup_info where
  "demo_setup = \<lparr>ORIG_X = 0, ORIG_Y = 24, ORIG_VIDEO_PAGE = 0, ORIG_VIDEO_MODE_COLS = 0x5003,
     ORIG_VIDEO_EGA_BX = 3\<rparr>"

definition demo_con :: con where
  "demo_con = con_init demo_setup
     \<lparr>video_type = 0, video_num_columns = 0, video_size_row = 0, video_num_lines = 0, video_page = 0,
      video_mem_start = 0, video_mem_end = 0, video_port_reg = 0, video_port_val = 0, video_erase_char = 0,
      origin = 0, scr_end = 0, cpos = 0, cx = 0, cy = 0, c_top = 0, c_bottom = 0, c_state = 0, npar = 0,
      par = replicate NPAR 0, ques = False, c_attr = 7, saved_x = 0, saved_y = 0, beepcount = 0,
      vram = (\<lambda>_. 0x0741), port_in = (\<lambda>_. 0), port_out = []\<rparr>"

lemma demo_con_ok: "con_ok demo_con"
  unfolding demo_con_def by (rule con_init_ok) (simp add: boot_screen_def demo_setup_def NPAR_def)

lemma demo_con_facts: "video_num_columns demo_con = 80" "c_top demo_con = 0" "c_bottom demo_con = 25"
  "video_mem_start demo_con = 0xB8000" "video_mem_end demo_con = 0xBC000"
  by (simp_all add: demo_con_def con_init_def demo_setup_def Let_def outb_def gotoxy_def)

text \<open>Two line feeds in the last row, and the sequence that sets the column to 200.\<close>

theorem console_contained_witness:
  "con_ok (fold (\<lambda>ch c. fst (con_char 127 ch c)) [10, 10, 27, 0x5B, 0x32, 0x30, 0x30, 0x47] demo_con) \<and>
   vram (fold (\<lambda>ch c. fst (con_char 127 ch c)) [10, 10, 27, 0x5B, 0x32, 0x30, 0x30, 0x47] demo_con) 0xBC000 =
     vram demo_con 0xBC000"
proof -
  have "\<not> ((0xB8000 :: u32) \<le> 0xBC000 \<and> (0xBC000 :: u32) < 0xBC000)" by simp
  then show ?thesis
    using console_contained [OF demo_con_ok refl] unfolding demo_con_facts by blast
qed

theorem scrolling_moves_lines_witness:
  "screen (scrup demo_con) 3 7 = screen demo_con 4 7 \<and> screen (scrdown demo_con) 3 7 = screen demo_con 2 7"
  using scrolling_moves_lines [OF demo_con_ok, of 3 7] by (simp add: demo_con_facts)

end
