(* ===== verification/Strings.thy ===== *)
theory Strings
  imports Prelude
begin

text \<open>
  The string functions of \<open>include/string.h\<close>, written as inline assembly. Memory is a function from
  addresses to bytes, and \<open>ds\<close> and \<open>es\<close> are the same. The repeated instructions \<open>rep stosb\<close>,
  \<open>rep movsb\<close>, \<open>repne scasb\<close> and \<open>repe cmpsb\<close> are functions of the count register and of the flags they
  leave alone when the count is zero. A loop that is left by a jump only may run forever and then has
  the value \<open>None\<close>.
\<close>

type_synonym mem = "u32 \<Rightarrow> u8"

subsection \<open>Repeated instructions\<close>

fun stosb :: "nat \<Rightarrow> u8 \<Rightarrow> u32 \<Rightarrow> mem \<Rightarrow> mem" where
  "stosb 0 al edi m = m"
| "stosb (Suc ecx) al edi m = stosb ecx al (edi + 1) (m(edi := al))"

fun movsb :: "nat \<Rightarrow> u32 \<Rightarrow> u32 \<Rightarrow> mem \<Rightarrow> mem" where
  "movsb 0 esi edi m = m"
| "movsb (Suc ecx) esi edi m = movsb ecx (esi + 1) (edi + 1) (m(edi := m esi))"

text \<open>With the direction flag set.\<close>

fun movsb_down :: "nat \<Rightarrow> u32 \<Rightarrow> u32 \<Rightarrow> mem \<Rightarrow> mem" where
  "movsb_down 0 esi edi m = m"
| "movsb_down (Suc ecx) esi edi m = movsb_down ecx (esi - 1) (edi - 1) (m(edi := m esi))"

text \<open>The results are \<open>ecx\<close>, \<open>edi\<close> and the zero flag.\<close>

fun repne_scasb :: "u8 \<Rightarrow> nat \<Rightarrow> u32 \<Rightarrow> bool \<Rightarrow> mem \<Rightarrow> nat \<times> u32 \<times> bool" where
  "repne_scasb al 0 edi zf m = (0, edi, zf)"
| "repne_scasb al (Suc ecx) edi zf m =
     (if m edi = al then (ecx, edi + 1, True) else repne_scasb al ecx (edi + 1) False m)"

text \<open>The results are \<open>esi\<close>, the zero flag, and whether \<open>jl\<close> jumps: the last byte at \<open>esi\<close> was less.\<close>

fun repe_cmpsb :: "nat \<Rightarrow> u32 \<Rightarrow> u32 \<Rightarrow> bool \<Rightarrow> bool \<Rightarrow> mem \<Rightarrow> u32 \<times> bool \<times> bool" where
  "repe_cmpsb 0 esi edi zf lt m = (esi, zf, lt)"
| "repe_cmpsb (Suc ecx) esi edi zf lt m =
     (if m esi = m edi then repe_cmpsb ecx (esi + 1) (edi + 1) True False m
      else (esi + 1, False, sint (m esi) < sint (m edi)))"

definition ECX_MAX :: nat where "ECX_MAX = 0xFFFFFFFF"

text \<open>A count of type \<open>int\<close> in \<open>ecx\<close>.\<close>

definition ecx_of :: "int \<Rightarrow> nat" where "ecx_of n = nat (n mod 2 ^ 32)"

text \<open>The rounds of a loop \<open>decl; js\<close> on such a count: the least integer becomes positive.\<close>

definition rounds_of :: "int \<Rightarrow> nat" where
  "rounds_of n = (if n = - (2 ^ 31) then 2 ^ 31 else nat n)"

subsection \<open>Copying\<close>

text \<open>The loop \<open>lodsb; stosb; testb; jne\<close>.\<close>

partial_function (option) copy_loop :: "u32 \<Rightarrow> u32 \<Rightarrow> mem \<Rightarrow> mem option" where
  "copy_loop esi edi m =
     (let al = m esi; m = m(edi := al) in
      if al \<noteq> 0 then copy_loop (esi + 1) (edi + 1) m else Some m)"

definition strcpy :: "u32 \<Rightarrow> u32 \<Rightarrow> mem \<Rightarrow> (u32 \<times> mem) option" where
  "strcpy dest src m = map_option (\<lambda>m. (dest, m)) (copy_loop src dest m)"

text \<open>
  The bounded loop of \<open>strncpy\<close> and \<open>strncat\<close>, for a count that is not negative: the memory, the count
  that is left and the place reached; the flag says that the terminator has been copied.
\<close>

fun copy_n :: "nat \<Rightarrow> u32 \<Rightarrow> u32 \<Rightarrow> mem \<Rightarrow> mem \<times> nat \<times> u32 \<times> bool" where
  "copy_n 0 esi edi m = (m, 0, edi, False)"
| "copy_n (Suc n) esi edi m =
     (let al = m esi; m = m(edi := al) in
      if al \<noteq> 0 then copy_n n (esi + 1) (edi + 1) m else (m, n, edi + 1, True))"

definition strncpy :: "u32 \<Rightarrow> u32 \<Rightarrow> int \<Rightarrow> mem \<Rightarrow> u32 \<times> mem" where
  "strncpy dest src count m =
     (case copy_n (rounds_of count) src dest m of (m, n, edi, ended) \<Rightarrow>
      (dest, if ended then stosb n 0 edi m else m))"

definition strcat :: "u32 \<Rightarrow> u32 \<Rightarrow> mem \<Rightarrow> (u32 \<times> mem) option" where
  "strcat dest src m =
     (case repne_scasb 0 ECX_MAX dest False m of (ecx, edi, zf) \<Rightarrow>
      map_option (\<lambda>m. (dest, m)) (copy_loop src (edi - 1) m))"

definition strncat :: "u32 \<Rightarrow> u32 \<Rightarrow> int \<Rightarrow> mem \<Rightarrow> u32 \<times> mem" where
  "strncat dest src count m =
     (case repne_scasb 0 ECX_MAX dest False m of (ecx, edi, zf) \<Rightarrow>
      case copy_n (rounds_of count) src (edi - 1) m of (m, n, edi, ended) \<Rightarrow>
      (dest, m(edi := 0)))"

definition memcpy :: "u32 \<Rightarrow> u32 \<Rightarrow> int \<Rightarrow> mem \<Rightarrow> u32 \<times> mem" where
  "memcpy dest src n m = (dest, movsb (ecx_of n) src dest m)"

definition memmove :: "u32 \<Rightarrow> u32 \<Rightarrow> int \<Rightarrow> mem \<Rightarrow> u32 \<times> mem" where
  "memmove dest src n m =
     (dest,
      if dest < src then movsb (ecx_of n) src dest m
      else movsb_down (ecx_of n) (src + of_int n - 1) (dest + of_int n - 1) m)"

definition memset :: "u32 \<Rightarrow> u8 \<Rightarrow> int \<Rightarrow> mem \<Rightarrow> u32 \<times> mem" where
  "memset s c count m = (s, stosb (ecx_of count) c s m)"

subsection \<open>Comparing\<close>

text \<open>Bytes are compared as signed numbers; the first operand of the comparison is from \<open>ct\<close>.\<close>

partial_function (option) strcmp :: "u32 \<Rightarrow> u32 \<Rightarrow> mem \<Rightarrow> int option" where
  "strcmp cs ct m =
     (let al = m ct in
      if al \<noteq> m cs then Some (if sint al < sint (m cs) then 1 else -1)
      else if al \<noteq> 0 then strcmp (cs + 1) (ct + 1) m
      else Some 0)"

fun strncmp_loop :: "u32 \<Rightarrow> u32 \<Rightarrow> nat \<Rightarrow> mem \<Rightarrow> int" where
  "strncmp_loop cs ct 0 m = 0"
| "strncmp_loop cs ct (Suc n) m =
     (let al = m ct in
      if al \<noteq> m cs then if sint al < sint (m cs) then 1 else -1
      else if al \<noteq> 0 then strncmp_loop (cs + 1) (ct + 1) n m
      else 0)"

definition strncmp :: "u32 \<Rightarrow> u32 \<Rightarrow> int \<Rightarrow> mem \<Rightarrow> int" where
  "strncmp cs ct count m = strncmp_loop cs ct (rounds_of count) m"

text \<open>For \<open>count = 0\<close> the result depends on the flags \<open>zf\<close> and \<open>lt\<close> that happen to be set.\<close>

definition memcmp :: "bool \<Rightarrow> bool \<Rightarrow> u32 \<Rightarrow> u32 \<Rightarrow> int \<Rightarrow> mem \<Rightarrow> int" where
  "memcmp zf lt cs ct count m =
     (case repe_cmpsb (ecx_of count) ct cs zf lt m of (esi, zf, lt) \<Rightarrow>
      if zf then 0 else if lt then 1 else -1)"

subsection \<open>Searching\<close>

definition strlen :: "u32 \<Rightarrow> mem \<Rightarrow> u32" where
  "strlen s m = (case repne_scasb 0 ECX_MAX s False m of (ecx, edi, zf) \<Rightarrow> NOT (of_nat ecx) - 1)"

partial_function (option) strchr :: "u32 \<Rightarrow> u8 \<Rightarrow> mem \<Rightarrow> u32 option" where
  "strchr s c m =
     (let al = m s; s = s + 1 in
      if al = c then Some (s - 1) else if al \<noteq> 0 then strchr s c m else Some (1 - 1))"

partial_function (option) strrchr_loop :: "u32 \<Rightarrow> u32 \<Rightarrow> u8 \<Rightarrow> mem \<Rightarrow> u32 option" where
  "strrchr_loop res s c m =
     (let al = m s; s = s + 1; res = (if al = c then s - 1 else res) in
      if al \<noteq> 0 then strrchr_loop res s c m else Some res)"

definition strrchr :: "u32 \<Rightarrow> u8 \<Rightarrow> mem \<Rightarrow> u32 option" where
  "strrchr s c m = strrchr_loop 0 s c m"

text \<open>Is \<open>al\<close> among the \<open>n\<close> characters at \<open>ct\<close>? The flag before is that of \<open>testb\<close>, for \<open>al \<noteq> 0\<close>.\<close>

definition in_set :: "u8 \<Rightarrow> u32 \<Rightarrow> nat \<Rightarrow> mem \<Rightarrow> bool" where
  "in_set al ct n m = (case repne_scasb al n ct False m of (ecx, edi, zf) \<Rightarrow> zf)"

text \<open>
  The common loop of \<open>strspn\<close>, \<open>strcspn\<close> and \<open>strpbrk\<close>: skip characters while their membership is \<open>b\<close>. The
  result is the address behind the character that ends it, and whether this is the terminator.
\<close>

partial_function (option) span :: "bool \<Rightarrow> u32 \<Rightarrow> u32 \<Rightarrow> nat \<Rightarrow> mem \<Rightarrow> (u32 \<times> bool) option" where
  "span b s ct n m =
     (let al = m s; s = s + 1 in
      if al = 0 then Some (s, True) else if in_set al ct n m = b then span b s ct n m else Some (s, False))"

definition strspn :: "u32 \<Rightarrow> u32 \<Rightarrow> mem \<Rightarrow> u32 option" where
  "strspn cs ct m = map_option (\<lambda>(s, z). s - 1 - cs) (span True cs ct (unat (strlen ct m)) m)"

definition strcspn :: "u32 \<Rightarrow> u32 \<Rightarrow> mem \<Rightarrow> u32 option" where
  "strcspn cs ct m = map_option (\<lambda>(s, z). s - 1 - cs) (span False cs ct (unat (strlen ct m)) m)"

definition strpbrk :: "u32 \<Rightarrow> u32 \<Rightarrow> mem \<Rightarrow> u32 option" where
  "strpbrk cs ct m = map_option (\<lambda>(s, z). if z then 0 else s - 1) (span False cs ct (unat (strlen ct m)) m)"

text \<open>
  \<open>strstr\<close>: the comparison at \<open>esi\<close> starts with the flags of the comparison before, or of \<open>decl\<close> the first
  time. When it fails, the last byte that was compared says whether the string has ended.
\<close>

partial_function (option) strstr_loop :: "u32 \<Rightarrow> u32 \<Rightarrow> nat \<Rightarrow> bool \<Rightarrow> mem \<Rightarrow> u32 option" where
  "strstr_loop esi ct edx zf m =
     (case repe_cmpsb edx esi ct zf False m of (e, zf, lt) \<Rightarrow>
      if zf then Some esi
      else if m (e - 1) \<noteq> 0 then strstr_loop (esi + 1) ct edx False m
      else Some 0)"

definition strstr :: "u32 \<Rightarrow> u32 \<Rightarrow> mem \<Rightarrow> u32 option" where
  "strstr cs ct m = strstr_loop cs ct (unat (strlen ct m)) (strlen ct m = 0) m"

definition memchr :: "u32 \<Rightarrow> u8 \<Rightarrow> int \<Rightarrow> mem \<Rightarrow> u32" where
  "memchr cs c count m =
     (if count = 0 then 0
      else case repne_scasb c (ecx_of count) cs False m of (ecx, edi, zf) \<Rightarrow> (if zf then edi else 1) - 1)"

text \<open>
  \<open>strtok\<close>. The last part: \<open>res\<close> is dropped if it is an empty token, and \<open>___strtok\<close> with it.
\<close>

definition strtok_end :: "u32 \<Rightarrow> u32 \<Rightarrow> mem \<Rightarrow> u32 \<times> u32 \<times> mem" where
  "strtok_end res esi m =
     (let res = (if m res = 0 then 0 else res) in (res, if res = 0 then res else esi, m))"

definition strtok :: "u32 \<Rightarrow> u32 \<Rightarrow> u32 \<Rightarrow> mem \<Rightarrow> (u32 \<times> u32 \<times> mem) option" where
  "strtok tok s ct m =
     (if s = 0 \<and> tok = 0 then Some (0, 0, m)
      else
        let esi = (if s = 0 then tok else s); n = unat (strlen ct m) in
        if n = 0 then Some (0, 0, m)
        else
          case span True esi ct n m of
            None \<Rightarrow> None
          | Some (e, True) \<Rightarrow> Some (0, 0, m)
          | Some (e, False) \<Rightarrow>
              case span False (e - 1) ct n m of
                None \<Rightarrow> None
              | Some (f, True) \<Rightarrow> Some (strtok_end (e - 1) 0 m)
              | Some (f, False) \<Rightarrow> Some (strtok_end (e - 1) f (m(f - 1 := 0))))"

subsection \<open>Strings in memory\<close>

fun str_at :: "mem \<Rightarrow> u32 \<Rightarrow> u8 list \<Rightarrow> bool" where
  "str_at m p [] \<longleftrightarrow> m p = 0"
| "str_at m p (x # xs) \<longleftrightarrow> m p = x \<and> x \<noteq> 0 \<and> str_at m (p + 1) xs"

lemma scasb_str:
  assumes "str_at m p xs" and "length xs < n"
  shows "repne_scasb 0 n p zf m = (n - length xs - 1, p + of_nat (length xs) + 1, True)"
  using assms
proof (induction xs arbitrary: p n zf)
  case Nil
  then show ?case by (cases n) simp_all
next
  case (Cons x xs)
  then show ?case by (cases n) (simp_all add: add.assoc)
qed

lemma strlen_str:
  assumes "str_at m p xs" and "length xs < ECX_MAX"
  shows "strlen p m = of_nat (length xs)"
proof -
  have "(of_nat (ECX_MAX - length xs - 1) :: u32) = of_nat ECX_MAX - of_nat (length xs) - 1"
    using assms(2) by (simp add: of_nat_diff)
  then show ?thesis
    using assms by (simp add: strlen_def scasb_str ECX_MAX_def not_eq_complement)
qed

text \<open>A comparison of \<open>length ys\<close> bytes of a string with \<open>ys\<close>.\<close>

lemma repe_cmpsb_str:
  assumes "str_at m p xs" and "str_at m q ys"
  shows "\<exists>e z l. repe_cmpsb (length ys) p q zf lt m = (e, z, l) \<and>
    (if take (length ys) xs = ys then ys \<noteq> [] \<or> zf \<longrightarrow> z
     else \<not> z \<and> (if m (e - 1) = 0 then length xs < length ys else xs \<noteq> []))"
  using assms
proof (induction ys arbitrary: p q xs zf lt)
  case Nil
  then show ?case by simp
next
  case (Cons y ys)
  show ?case
  proof (cases xs)
    case Nil
    then show ?thesis using Cons.prems by auto
  next
    case x: (Cons x xs')
    show ?thesis
    proof (cases "x = y")
      case True
      then show ?thesis
        using Cons.IH [of "p + 1" xs' "q + 1" True False] Cons.prems x by (auto split: if_splits)
    next
      case False
      then show ?thesis using Cons.prems x by auto
    qed
  qed
qed

text \<open>The reference: the first position at which \<open>ys\<close> occurs in \<open>xs\<close>.\<close>

fun first_sub :: "'a list \<Rightarrow> 'a list \<Rightarrow> nat option" where
  "first_sub ys [] = (if ys = [] then Some 0 else None)"
| "first_sub ys (x # xs) =
     (if take (length ys) (x # xs) = ys then Some 0 else map_option Suc (first_sub ys xs))"

lemma first_sub_short: "length xs < length ys \<Longrightarrow> first_sub ys xs = None"
  by (induction xs) (auto dest: arg_cong [of _ _ length])

lemma first_sub_Some:
  "first_sub ys xs = Some i \<longleftrightarrow>
     take (length ys) (drop i xs) = ys \<and> i \<le> length xs \<and> (\<forall>j < i. take (length ys) (drop j xs) \<noteq> ys)"
proof (induction xs arbitrary: i)
  case Nil
  then show ?case by auto
next
  case (Cons x xs)
  show ?case
  proof (cases i)
    case 0
    then show ?thesis by auto
  next
    case (Suc k)
    then show ?thesis using Cons.IH [of k] by (auto simp: less_Suc_eq_0_disj simp del: take_Suc_Cons)
  qed
qed

lemma first_sub_None: "first_sub ys xs = None \<Longrightarrow> i \<le> length xs \<Longrightarrow> take (length ys) (drop i xs) \<noteq> ys"
proof (induction xs arbitrary: i)
  case Nil
  then show ?case by (auto split: if_splits)
next
  case (Cons x xs)
  then show ?case by (cases i) (auto split: if_splits)
qed

lemma strstr_loop_str:
  assumes "str_at m p xs" and "str_at m q ys" and "ys = [] \<longrightarrow> zf"
  shows "strstr_loop p q (length ys) zf m =
    Some (case first_sub ys xs of Some i \<Rightarrow> p + of_nat i | None \<Rightarrow> 0)"
  using assms
proof (induction xs arbitrary: p zf)
  case Nil
  obtain e z l where r: "repe_cmpsb (length ys) p q zf False m = (e, z, l)"
    "if take (length ys) [] = ys then ys \<noteq> [] \<or> zf \<longrightarrow> z
     else \<not> z \<and> (if m (e - 1) = 0 then length ([] :: u8 list) < length ys else [] \<noteq> ([] :: u8 list))"
    using repe_cmpsb_str [OF Nil.prems(1,2), of zf False] by blast
  show ?case using r Nil.prems(3) by (subst strstr_loop.simps) (auto split: if_splits)
next
  case (Cons x xs)
  obtain e z l where r: "repe_cmpsb (length ys) p q zf False m = (e, z, l)"
    "if take (length ys) (x # xs) = ys then ys \<noteq> [] \<or> zf \<longrightarrow> z
     else \<not> z \<and> (if m (e - 1) = 0 then length (x # xs) < length ys else (x # xs) \<noteq> [])"
    using repe_cmpsb_str [OF Cons.prems(1,2), of zf False] by blast
  show ?case
  proof (cases "take (length ys) (x # xs) = ys")
    case True
    then show ?thesis using r Cons.prems(3) by (subst strstr_loop.simps) auto
  next
    case False
    then have "ys \<noteq> []" by auto
    show ?thesis
    proof (cases "m (e - 1) = 0")
      case True
      then have "first_sub ys xs = None" using r False by (intro first_sub_short) simp
      then show ?thesis using r False True by (subst strstr_loop.simps) simp
    next
      case ne: False
      have "strstr_loop p q (length ys) zf m = strstr_loop (p + 1) q (length ys) False m"
        using r False ne by (subst strstr_loop.simps) simp
      also have "\<dots> = Some (case first_sub ys xs of Some i \<Rightarrow> p + 1 + of_nat i | None \<Rightarrow> 0)"
        using Cons.prems \<open>ys \<noteq> []\<close> by (intro Cons.IH) auto
      finally show ?thesis using False by (simp split: option.split)
    qed
  qed
qed

text \<open>
  \<open>strstr\<close> returns the address of the first occurrence of the second string in the first, or \<open>NULL\<close> if
  there is none, and in particular always returns; the empty string occurs at the beginning.
\<close>

theorem strstr_finds_first:
  assumes "str_at m cs xs" and "str_at m ct ys" and "length ys < ECX_MAX"
  shows "\<exists>p. strstr cs ct m = Some p \<and>
    (if \<exists>i \<le> length xs. take (length ys) (drop i xs) = ys
     then p = cs + of_nat (LEAST i. i \<le> length xs \<and> take (length ys) (drop i xs) = ys) else p = 0)"
proof -
  have n: "unat (strlen ct m) = length ys" "strlen ct m = 0 \<longleftrightarrow> ys = []"
    using strlen_str [OF assms(2,3)] assms(3) by (simp_all add: unat_of_nat_small ECX_MAX_def word_unat_eq_iff)
  have r: "strstr cs ct m = Some (case first_sub ys xs of Some i \<Rightarrow> cs + of_nat i | None \<Rightarrow> 0)"
    unfolding strstr_def n(1) by (rule strstr_loop_str [OF assms(1,2)]) (simp add: n)
  show ?thesis
  proof (cases "first_sub ys xs")
    case None
    then have "\<not> (\<exists>i \<le> length xs. take (length ys) (drop i xs) = ys)"
      by (simp add: first_sub_None)
    then show ?thesis using r None by auto
  next
    case (Some i)
    then have "(LEAST i. i \<le> length xs \<and> take (length ys) (drop i xs) = ys) = i"
      unfolding first_sub_Some by (intro Least_equality) (auto simp: not_less [symmetric])
    then show ?thesis using r Some by (auto simp: first_sub_Some)
  qed
qed

subsection \<open>Moving memory\<close>

lemma unat_suc: "unat a + 1 < 2 ^ 32 \<Longrightarrow> unat (a + 1 :: u32) = unat a + 1"
  by (simp add: unat_word_ariths)

lemma unat_offset: "unat s + (unat a - unat d) < 2 ^ 32 \<Longrightarrow> d \<le> a \<Longrightarrow> unat (s + (a - d) :: u32) = unat s + (unat a - unat d)"
  by (simp add: unat_word_ariths unat_sub_if' word_le_nat_alt)

lemma movsb_up:
  assumes "s = d \<or> unat d < unat s \<or> unat s + n \<le> unat d" and "unat s + n \<le> 2 ^ 32" and "unat d + n \<le> 2 ^ 32"
  shows "movsb n s d m a = (if d \<le> a \<and> unat a < unat d + n then m (s + (a - d)) else m a)"
  using assms
proof (induction n arbitrary: s d m)
  case 0
  then show ?case by (auto simp: word_le_nat_alt)
next
  case (Suc n)
  show ?case
  proof (cases n)
    case 0
    then show ?thesis
      using word_unat_eq_iff [of a d] by (cases "a = d") (auto simp: word_le_nat_alt)
  next
    case (Suc k)
    define m' where "m' = m(d := m s)"
    have u: "unat (s + 1) = unat s + 1" "unat (d + 1) = unat d + 1"
      using Suc.prems Suc by (intro unat_suc; simp)+
    have ih: "movsb n (s + 1) (d + 1) m' a = (if d + 1 \<le> a \<and> unat a < unat (d + 1) + n then m' (s + 1 + (a - (d + 1))) else m' a)"
      using Suc.prems u by (intro Suc.IH) auto
    have e: "s + 1 + (a - (d + 1)) = s + (a - d)" by (simp add: algebra_simps)
    have le: "d + 1 \<le> a \<longleftrightarrow> d \<le> a \<and> a \<noteq> d" using u by (auto simp: word_le_nat_alt word_unat_eq_iff [of a d])
    have "m' (s + (a - d)) = m (s + (a - d))" if "d \<le> a" "a \<noteq> d" "unat a < unat d + Suc n"
    proof -
      have "unat (s + (a - d)) = unat s + (unat a - unat d)"
        using Suc.prems that by (intro unat_offset) auto
      moreover have "unat d < unat a" using that(1,2) by (auto simp: word_le_nat_alt word_unat_eq_iff [of a d])
      ultimately have "unat (s + (a - d)) \<noteq> unat d" using Suc.prems(1) that(3) by (simp only:) auto
      then have "s + (a - d) \<noteq> d" by metis
      then show ?thesis by (simp add: m'_def)
    qed
    then show ?thesis unfolding movsb.simps m'_def [symmetric] ih e le using u by (auto simp: m'_def)
  qed
qed

lemma movsb_down_back:
  assumes "s \<le> d" and "n \<le> unat s + 1"
  shows "movsb_down n s d m a = (if a \<le> d \<and> unat d < unat a + n then m (s - (d - a)) else m a)"
  using assms
proof (induction n arbitrary: s d m)
  case 0
  then show ?case by (auto simp: word_le_nat_alt)
next
  case (Suc n)
  show ?case
  proof (cases n)
    case 0
    then show ?thesis
      using word_unat_eq_iff [of a d] by (cases "a = d") (auto simp: word_le_nat_alt)
  next
    case (Suc k)
    define m' where "m' = m(d := m s)"
    have ne: "s \<noteq> 0" "d \<noteq> 0" using Suc.prems Suc by auto
    then have u: "unat (s - 1) = unat s - 1" "unat (d - 1) = unat d - 1" "0 < unat s" "0 < unat d"
      by (simp_all add: unat_dec unat_gt_0)
    have ih: "movsb_down n (s - 1) (d - 1) m' a =
        (if a \<le> d - 1 \<and> unat (d - 1) < unat a + n then m' (s - 1 - (d - 1 - a)) else m' a)"
      using Suc.prems u by (intro Suc.IH) (auto simp: word_le_nat_alt)
    have e: "s - 1 - (d - 1 - a) = s - (d - a)" by (simp add: algebra_simps)
    have le: "a \<le> d - 1 \<longleftrightarrow> a \<le> d \<and> a \<noteq> d" using u by (auto simp: word_le_nat_alt word_unat_eq_iff [of a d])
    have "m' (s - (d - a)) = m (s - (d - a))" if "a \<le> d" "a \<noteq> d" "unat d < unat a + Suc n"
    proof -
      have "unat (d - a) = unat d - unat a" "unat d - unat a \<le> unat s" "unat a < unat d"
        using that Suc.prems by (auto simp: unat_sub_if' word_le_nat_alt word_unat_eq_iff [of a d])
      then have "unat (s - (d - a)) = unat s - (unat d - unat a)" by (simp add: unat_sub_if')
      moreover have "unat s \<le> unat d" using Suc.prems(1) by (simp add: word_le_nat_alt)
      ultimately have "unat (s - (d - a)) \<noteq> unat d" using \<open>unat a < unat d\<close> u(3) by simp
      then have "s - (d - a) \<noteq> d" by metis
      then show ?thesis by (simp add: m'_def)
    qed
    then show ?thesis unfolding movsb_down.simps m'_def [symmetric] ih e le using u by (auto simp: m'_def)
  qed
qed

text \<open>
  \<open>memmove\<close> copies correctly however the two ranges overlap: afterwards each byte of the destination has
  the value that its source byte had before, and no other byte has changed. The ranges must not run over
  the end of the address space.
\<close>

theorem memmove_overlapping:
  assumes "0 \<le> n" and "n < 2 ^ 31" and "unat src + nat n \<le> 2 ^ 32" and "unat dest + nat n \<le> 2 ^ 32"
  shows "memmove dest src n m =
    (dest, \<lambda>a. if dest \<le> a \<and> unat a < unat dest + nat n then m (src + (a - dest)) else m a)"
proof -
  have ecx: "ecx_of n = nat n" using assms(1,2) by (simp add: ecx_of_def)
  have nn: "(of_int n :: u32) = of_nat (nat n)" using assms(1) by simp
  have "snd (memmove dest src n m) a = (if dest \<le> a \<and> unat a < unat dest + nat n then m (src + (a - dest)) else m a)" for a
  proof (cases "dest < src")
    case True
    then show ?thesis
      using movsb_up [of src dest "nat n" m a] assms(3,4) by (simp add: memmove_def ecx word_less_nat_alt)
  next
    case False
    show ?thesis
    proof (cases "nat n")
      case 0
      then show ?thesis using False by (auto simp: memmove_def ecx word_le_nat_alt)
    next
      case (Suc k)
      define s d where "s = src + of_int n - 1" and "d = dest + of_int n - 1"
      have k: "s = src + of_nat k" "d = dest + of_nat k" "k < 2 ^ 31" 
        using Suc assms(2) by (auto simp: s_def d_def nn)
      have u: "unat s = unat src + k" "unat d = unat dest + k"
        using assms(3,4) Suc k(3) by (simp_all add: k unat_word_ariths unat_of_nat_small)
      have e: "s - (d - a) = src + (a - dest)" by (simp add: k algebra_simps)
      have "movsb_down (nat n) s d m a = (if a \<le> d \<and> unat d < unat a + nat n then m (src + (a - dest)) else m a)"
        unfolding e [symmetric]
        using False u Suc by (intro movsb_down_back) (simp_all add: word_le_nat_alt word_less_nat_alt)
      moreover have "a \<le> d \<and> unat d < unat a + nat n \<longleftrightarrow> dest \<le> a \<and> unat a < unat dest + nat n"
        using u(2) Suc by (auto simp: word_le_nat_alt)
      moreover have "snd (memmove dest src n m) a = movsb_down (nat n) s d m a"
        using False by (simp add: memmove_def ecx s_def d_def)
      ultimately show ?thesis by simp
    qed
  qed
  then show ?thesis by (simp add: memmove_def prod_eq_iff fun_eq_iff)
qed

subsection \<open>Comparing and copying strings\<close>

text \<open>The comparison of two strings with their terminators, byte by byte as signed numbers.\<close>

fun str_order :: "u8 list \<Rightarrow> u8 list \<Rightarrow> int" where
  "str_order [] [] = 0"
| "str_order [] (y # ys) = (if sint y < 0 then 1 else -1)"
| "str_order (x # xs) [] = (if 0 < sint x then 1 else -1)"
| "str_order (x # xs) (y # ys) = (if x = y then str_order xs ys else if sint y < sint x then 1 else -1)"

lemma str_order_0: "0 \<notin> set xs \<Longrightarrow> 0 \<notin> set ys \<Longrightarrow> str_order xs ys = 0 \<longleftrightarrow> xs = ys"
  by (induction xs ys rule: str_order.induct) auto

lemma str_at_nonzero: "str_at m p xs \<Longrightarrow> 0 \<notin> set xs"
  by (induction xs arbitrary: p) auto

lemma strcmp_str:
  assumes "str_at m cs xs" and "str_at m ct ys"
  shows "strcmp cs ct m = Some (str_order xs ys)"
  using assms
proof (induction xs ys arbitrary: cs ct rule: str_order.induct)
  case (4 x xs y ys)
  then show ?case by (subst strcmp.simps) auto
qed (subst strcmp.simps, auto)+

text \<open>Writing elsewhere does not change a string.\<close>

lemma str_at_upd: "(\<And>k. k \<le> length xs \<Longrightarrow> q \<noteq> p + of_nat k) \<Longrightarrow> str_at (m(q := v)) p xs = str_at m p xs"
proof (induction xs arbitrary: p)
  case Nil
  then show ?case using Nil [of 0] by simp
next
  case (Cons x xs)
  have "q \<noteq> p + 1 + of_nat k" if "k \<le> length xs" for k
    using Cons.prems [of "Suc k"] that by (simp add: add.assoc)
  then show ?case using Cons.IH [of "p + 1"] Cons.prems [of 0] by simp
qed

lemma str_at_cong:
  assumes "str_at m p xs" and "\<And>k. k \<le> length xs \<Longrightarrow> m' (p + of_nat k) = m (p + of_nat k)"
  shows "str_at m' p xs"
  using assms
proof (induction xs arbitrary: p)
  case Nil
  then show ?case using Nil(2) [of 0] by simp
next
  case (Cons x xs)
  have "m' (p + 1 + of_nat k) = m (p + 1 + of_nat k)" if "k \<le> length xs" for k
    using Cons.prems(2) [of "Suc k"] that by (simp add: add.assoc)
  then show ?case using Cons.IH [of "p + 1"] Cons.prems(1) Cons.prems(2) [of 0] by simp
qed

lemma str_order_same: "str_order xs xs = 0"
  by (induction xs) auto

lemma copy_loop_str:
  assumes "str_at m p xs" and "length xs < 2 ^ 32 - 1"
    and "\<And>k l. k \<le> length xs \<Longrightarrow> l \<le> length xs \<Longrightarrow> q + of_nat l \<noteq> p + of_nat k"
  shows "\<exists>m'. copy_loop p q m = Some m' \<and> str_at m' q xs \<and> (\<forall>a. (\<forall>k \<le> length xs. a \<noteq> q + of_nat k) \<longrightarrow> m' a = m a)"
  using assms
proof (induction xs arbitrary: p q m)
  case Nil
  then show ?case by (subst copy_loop.simps) auto
next
  case (Cons x xs)
  have s: "str_at (m(q := x)) (p + 1) xs"
    using Cons.prems(1) Cons.prems(3) [of _ 0] Cons.prems(3) [of "Suc _" 0]
    by (subst str_at_upd) (auto simp: add.assoc)
  have d: "(q + 1) + of_nat l \<noteq> (p + 1) + of_nat k" if "k \<le> length xs" "l \<le> length xs" for k l
    using Cons.prems(3) [of "Suc k" "Suc l"] that by (simp add: algebra_simps)
  obtain m' where m': "copy_loop (p + 1) (q + 1) (m(q := x)) = Some m'" "str_at m' (q + 1) xs"
    "\<forall>a. (\<forall>k \<le> length xs. a \<noteq> q + 1 + of_nat k) \<longrightarrow> m' a = (m(q := x)) a"
  proof -
    have "length xs < 2 ^ 32 - 1" using Cons.prems(2) by simp
    note ih = Cons.IH [OF s this, of "q + 1"]
    show thesis by (rule exE [OF ih]) (use d in \<open>blast intro: that\<close>)+
  qed
  have "q \<noteq> q + 1 + of_nat k" if "k \<le> length xs" for k
  proof
    assume "q = q + 1 + of_nat k"
    then have "(of_nat (Suc k) :: u32) = of_nat 0" by (simp add: algebra_simps)
    then show False using that Cons.prems(2) by (simp add: word_unat_eq_iff unat_of_nat_small del: of_nat_Suc)
  qed
  then have q: "m' q = x" using m'(3) by simp
  have o: "m' a = m a" if "\<forall>k \<le> length (x # xs). a \<noteq> q + of_nat k" for a
  proof -
    have "a \<noteq> q + 1 + of_nat k" if "k \<le> length xs" for k
      using that \<open>\<forall>k \<le> length (x # xs). a \<noteq> q + of_nat k\<close> [rule_format, of "Suc k"] by (simp add: add.assoc)
    moreover have "a \<noteq> q" using that [rule_format, of 0] by simp
    ultimately show ?thesis using m'(3) by simp
  qed
  have "copy_loop p q m = Some m'"
    using Cons.prems(1) m'(1) by (subst copy_loop.simps) simp
  then show ?case using m'(2) q o Cons.prems(1) by auto
qed

text \<open>A string copied to a place that does not overlap it compares equal to the original.\<close>

lemma strcpy_strcmp:
  assumes "str_at m src xs" and "length xs < 2 ^ 32 - 1"
    and "\<And>k l. k \<le> length xs \<Longrightarrow> l \<le> length xs \<Longrightarrow> dest + of_nat l \<noteq> src + of_nat k"
  shows "\<exists>m'. strcpy dest src m = Some (dest, m') \<and> strcmp dest src m' = Some 0"
proof -
  obtain m' where m': "copy_loop src dest m = Some m'" "str_at m' dest xs"
    "\<forall>a. (\<forall>k \<le> length xs. a \<noteq> dest + of_nat k) \<longrightarrow> m' a = m a"
    using copy_loop_str [OF assms] by auto
  have "str_at m' src xs"
    using assms(1) by (rule str_at_cong) (use assms(3) m'(3) in \<open>metis\<close>)
  then have "strcmp dest src m' = Some 0" using strcmp_str [OF m'(2)] by (simp add: str_order_same)
  then show ?thesis using m'(1) by (simp add: strcpy_def)
qed

subsection \<open>Spans\<close>

lemma scasb_set:
  assumes "str_at m q ys" and "al \<noteq> 0"
  shows "snd (snd (repne_scasb al (length ys) q zf m)) \<longleftrightarrow> (if ys = [] then zf else al \<in> set ys)"
  using assms(1)
proof (induction ys arbitrary: q zf)
  case (Cons y ys)
  then show ?case by (cases "m q = al") auto
qed simp

lemma in_set_str: "str_at m q ys \<Longrightarrow> al \<noteq> 0 \<Longrightarrow> in_set al q (length ys) m \<longleftrightarrow> al \<in> set ys"
  using scasb_set [of m q ys al False] by (auto simp: in_set_def split: prod.splits if_splits)

lemma span_str:
  assumes "str_at m p xs" and "str_at m q ys"
  shows "span b p q (length ys) m =
    (let k = length (takeWhile (\<lambda>x. x \<in> set ys \<longleftrightarrow> b) xs) in Some (p + of_nat k + 1, k = length xs))"
  using assms(1)
proof (induction xs arbitrary: p)
  case Nil
  then show ?case by (subst span.simps) simp
next
  case (Cons x xs)
  then have "in_set x q (length ys) m \<longleftrightarrow> x \<in> set ys" by (intro in_set_str [OF assms(2)]) simp
  then show ?case using Cons by (subst span.simps) (auto simp: add.assoc Let_def)
qed

text \<open>\<open>strspn\<close> and \<open>strcspn\<close> count the leading characters that are, or are not, in the second string.\<close>

lemma strspn_str:
  assumes "str_at m cs xs" and "str_at m ct ys" and "length ys < ECX_MAX"
  shows "strspn cs ct m = Some (of_nat (length (takeWhile (\<lambda>x. x \<in> set ys) xs)))"
    and "strcspn cs ct m = Some (of_nat (length (takeWhile (\<lambda>x. x \<notin> set ys) xs)))"
proof -
  have n: "unat (strlen ct m) = length ys"
    using strlen_str [OF assms(2,3)] assms(3) by (simp add: unat_of_nat_small ECX_MAX_def)
  show "strspn cs ct m = Some (of_nat (length (takeWhile (\<lambda>x. x \<in> set ys) xs)))"
    using span_str [OF assms(1,2), of True] by (simp add: strspn_def n Let_def)
  show "strcspn cs ct m = Some (of_nat (length (takeWhile (\<lambda>x. x \<notin> set ys) xs)))"
    using span_str [OF assms(1,2), of False] by (simp add: strcspn_def n Let_def)
qed

text \<open>\<open>strncat\<close> stores a second zero behind the terminator it has copied.\<close>

lemma copy_n_str:
  assumes "str_at m p xs" and "length xs < n" and "q = p + of_nat d" and "length xs < d" and "d + n \<le> 2 ^ 32 - n"
  shows "snd (snd (copy_n n p q m)) = (q + of_nat (length xs) + 1, True)"
  using assms
proof (induction xs arbitrary: p q n m)
  case Nil
  then show ?case by (cases n) (simp_all add: Let_def)
next
  case (Cons x xs)
  then obtain k where k: "n = Suc k" by (cases n) auto
  have s: "str_at (m(q := x)) (p + 1) xs"
  proof (subst str_at_upd)
    fix i assume i: "i \<le> length xs"
    show "q \<noteq> p + 1 + of_nat i"
    proof
      assume "q = p + 1 + of_nat i"
      then have "(of_nat d :: u32) = of_nat (Suc i)" using Cons.prems(3) by simp
      then have "d = Suc i" using i Cons.prems(2,4,5) k
        by (simp add: word_unat_eq_iff unat_of_nat_small del: of_nat_Suc)
      then show False using i Cons.prems(4) by simp
    qed
  qed (use Cons.prems(1) in simp)
  have "snd (snd (copy_n k (p + 1) (q + 1) (m(q := x)))) = (q + 1 + of_nat (length xs) + 1, True)"
    by (rule Cons.IH [OF s]) (use Cons.prems k in simp_all)
  then show ?case using Cons.prems(1) k by (simp add: Let_def add.assoc)
qed

subsection \<open>Examples\<close>

text \<open>The strings \<open>abcab\<close> and \<open>ca\<close> in memory.\<close>

definition demo_mem :: mem where
  "demo_mem = (\<lambda>_. 0)(0x1000 := 97, 0x1001 := 98, 0x1002 := 99, 0x1003 := 97, 0x1004 := 98,
     0x2000 := 99, 0x2001 := 97)"

theorem strstr_finds_first_witness:
  "strstr 0x1000 0x2000 demo_mem = Some 0x1002"
proof -
  let ?xs = "[97, 98, 99, 97, 98] :: u8 list" and ?ys = "[99, 97] :: u8 list"
  have m: "str_at demo_mem 0x1000 ?xs" "str_at demo_mem 0x2000 ?ys"
    by (simp_all add: demo_mem_def)
  have l: "(LEAST i. i \<le> length ?xs \<and> take (length ?ys) (drop i ?xs) = ?ys) = 2"
  proof (rule Least_equality)
    fix i assume "i \<le> length ?xs \<and> take (length ?ys) (drop i ?xs) = ?ys"
    then show "2 \<le> i" by (cases i; cases "i - 1") auto
  qed simp
  have "\<exists>i \<le> length ?xs. take (length ?ys) (drop i ?xs) = ?ys"
    by (rule exI [of _ 2]) simp
  then show ?thesis
    using strstr_finds_first [OF m] unfolding l by (simp add: ECX_MAX_def)
qed

theorem memmove_overlapping_witness:
  "snd (memmove 0x1001 0x1000 4 demo_mem) 0x1003 = 99 \<and> snd (memmove 0x1001 0x1000 4 demo_mem) 0x1000 = 97"
proof -
  have u: "unat (0x1000 :: u32) = 0x1000" "unat (0x1001 :: u32) = 0x1001" "unat (0x1003 :: u32) = 0x1003" by simp_all
  have m: "memmove 0x1001 0x1000 4 demo_mem =
      (0x1001, \<lambda>a. if 0x1001 \<le> a \<and> unat a < unat (0x1001 :: u32) + nat 4 then demo_mem (0x1000 + (a - 0x1001)) else demo_mem a)"
    by (rule memmove_overlapping) (simp_all only: u, simp_all)
  show ?thesis unfolding m by (simp only: snd_conv u) (simp add: demo_mem_def)
qed

end
