(* ===== verification/Fork.thy ===== *)
theory Fork
  imports Process
begin

text \<open>
  Choosing the process number and the task slot of a new process: \<open>find_empty_process\<close> of \<open>kernel/fork.c\<close>
  always returns, with a process number no task has. The loop is over a cycle of \<open>2 ^ 31 - 1\<close> numbers,
  of which the tasks take at most 64.
\<close>

definition pid_taken :: "'a kern_scheme \<Rightarrow> int \<Rightarrow> bool" where
  "pid_taken s p \<longleftrightarrow> (\<exists>i < NR_TASKS. live s i \<and> pid (ts s i) = p)"

lemma find_pid_step:
  "find_pid (Suc n) p s = (if pid_taken s (next_pid p) then find_pid n (next_pid p) s else Some (next_pid p))"
  by (auto simp: pid_taken_def Let_def)

lemma pid_taken_card: "finite {p. pid_taken s p}" "card {p. pid_taken s p} \<le> NR_TASKS"
proof -
  have sub: "{p. pid_taken s p} \<subseteq> (\<lambda>i. pid (ts s i)) ` {..<NR_TASKS}"
    by (auto simp: pid_taken_def)
  then show "finite {p. pid_taken s p}" using finite_subset by blast
  show "card {p. pid_taken s p} \<le> NR_TASKS"
    using surj_card_le [OF finite_lessThan sub] by simp
qed

text \<open>The numbers a search tries, and that they differ as long as it is short.\<close>

lemma next_pid_iter:
  assumes "0 \<le> p" and "p < 2 ^ 31" and "0 < k" and "k < 2 ^ 31"
  shows "(next_pid ^^ k) p = (if p + int k < 2 ^ 31 then p + int k else p + int k - 2 ^ 31 + 1)"
  using assms(3,4)
proof (induction k rule: nat_induct_non_zero)
  case 1
  then show ?case using assms(1,2) by (simp add: next_pid_def)
next
  case (Suc k)
  then show ?case using assms(1,2) by (auto simp: next_pid_def)
qed

lemma next_pid_iter_inj:
  assumes "0 \<le> p" and "p < 2 ^ 31" and n: "n < 2 ^ 31 - 1"
  shows "inj_on (\<lambda>k. (next_pid ^^ k) p) {0<..n}"
  using assms(1,2) n by (auto intro!: inj_onI simp: next_pid_iter split: if_splits)

lemma find_pid_cases:
  "(find_pid n p s = None \<and> (\<forall>k \<in> {0<..n}. pid_taken s ((next_pid ^^ k) p))) \<or>
   (\<exists>k \<in> {0<..n}. find_pid n p s = Some ((next_pid ^^ k) p) \<and> \<not> pid_taken s ((next_pid ^^ k) p))"
proof (induction n arbitrary: p)
  case 0
  then show ?case by simp
next
  case (Suc n)
  show ?case
  proof (cases "pid_taken s (next_pid p)")
    case False
    then show ?thesis unfolding find_pid_step
      by (intro disjI2 bexI [of _ "Suc 0"]) simp_all
  next
    case True
    have shift: "(next_pid ^^ Suc k) p = (next_pid ^^ k) (next_pid p)" for k
      by (simp add: funpow_swap1)
    have all: "(\<forall>k \<in> {0<..Suc n}. P k) \<longleftrightarrow> P (Suc 0) \<and> (\<forall>k \<in> {0<..n}. P (Suc k))" for P
      by (auto simp: Suc_le_eq greaterThanAtMost_iff gr0_conv_Suc Ball_def) (metis not0_implies_Suc)
    from Suc.IH [of "next_pid p"] show ?thesis
    proof
      assume "find_pid n (next_pid p) s = None \<and> (\<forall>k \<in> {0<..n}. pid_taken s ((next_pid ^^ k) (next_pid p)))"
      then show ?thesis using True unfolding find_pid_step all shift by simp
    next
      assume "\<exists>k \<in> {0<..n}. find_pid n (next_pid p) s = Some ((next_pid ^^ k) (next_pid p)) \<and>
        \<not> pid_taken s ((next_pid ^^ k) (next_pid p))"
      then obtain k where "k \<in> {0<..n}" "find_pid n (next_pid p) s = Some ((next_pid ^^ Suc k) p)"
        "\<not> pid_taken s ((next_pid ^^ Suc k) p)" unfolding shift by auto
      then show ?thesis using True unfolding find_pid_step
        by (intro disjI2 bexI [of _ "Suc k"]) auto
    qed
  qed
qed

lemma find_pid_free:
  assumes p: "0 \<le> p" "p < 2 ^ 31"
  obtains q where "find_pid (Suc NR_TASKS) p s = Some q" "\<not> pid_taken s q" "1 \<le> q" "q < 2 ^ 31"
proof -
  let ?ks = "{0<..Suc NR_TASKS}"
  have "\<not> (\<forall>k \<in> ?ks. pid_taken s ((next_pid ^^ k) p))"
  proof
    assume "\<forall>k \<in> ?ks. pid_taken s ((next_pid ^^ k) p)"
    then have "(\<lambda>k. (next_pid ^^ k) p) ` ?ks \<subseteq> {p. pid_taken s p}" by auto
    then have "card ((\<lambda>k. (next_pid ^^ k) p) ` ?ks) \<le> NR_TASKS"
      using pid_taken_card [of s] card_mono le_trans by meson
    then show False
      using next_pid_iter_inj [OF p, of "Suc NR_TASKS"] by (simp add: card_image NR_TASKS_def)
  qed
  with find_pid_cases [of "Suc NR_TASKS" p s] obtain k where k: "k \<in> ?ks"
    "find_pid (Suc NR_TASKS) p s = Some ((next_pid ^^ k) p)" "\<not> pid_taken s ((next_pid ^^ k) p)" by blast
  have "0 < k" "k < 2 ^ 31" using k(1) by (auto simp: NR_TASKS_def)
  from next_pid_iter [OF p this] have "1 \<le> (next_pid ^^ k) p" "(next_pid ^^ k) p < 2 ^ 31"
    using p \<open>0 < k\<close> \<open>k < 2 ^ 31\<close> by (auto split: if_splits)
  with k show thesis using that by blast
qed

lemma free_slot:
  "find_idx (\<lambda>i. \<not> live s i) [1..<NR_TASKS] = Some k \<longleftrightarrow>
     k + 1 < NR_TASKS \<and> \<not> live s (k + 1) \<and> (\<forall>j \<in> {1..<k + 1}. live s j)"
  unfolding find_idx_Some_iff
  by (auto simp: NR_TASKS_def) (metis One_nat_def Suc_le_D Suc_less_eq2 Suc_less_SucD)

text \<open>C25: \<open>find_empty_process\<close> always returns: from any last process number the search ends, its number is
  positive and belongs to no task, nothing else changes, and the result is the first free slot above 0,
  or \<open>- EAGAIN\<close> when all of them are taken.\<close>

theorem find_empty_process_returns:
  assumes "0 \<le> last_pid s" and "last_pid s < 2 ^ 31"
  shows "\<exists>q r. find_empty_process s = Ok r (s\<lparr>last_pid := q\<rparr>) \<and> 1 \<le> q \<and> q < 2 ^ 31 \<and>
    (\<forall>i < NR_TASKS. live s i \<longrightarrow> pid (ts s i) \<noteq> q) \<and>
    (if \<forall>i \<in> {1..<NR_TASKS}. live s i then r = - EAGAIN
     else 1 \<le> r \<and> r < int NR_TASKS \<and> \<not> live s (nat r) \<and> (\<forall>j \<in> {1..<nat r}. live s j))"
proof -
  obtain q where q: "find_pid (Suc NR_TASKS) (last_pid s) s = Some q" "\<not> pid_taken s q" "1 \<le> q" "q < 2 ^ 31"
    using find_pid_free [OF assms, of s] .
  let ?slot = "find_idx (\<lambda>i. \<not> live s i) [1..<NR_TASKS]"
  let ?r = "case ?slot of None \<Rightarrow> - EAGAIN | Some k \<Rightarrow> int k + 1"
  have eq: "find_empty_process s = Ok ?r (s\<lparr>last_pid := q\<rparr>)"
    unfolding find_empty_process_def q(1) by simp
  have slot: "if \<forall>i \<in> {1..<NR_TASKS}. live s i then ?r = - EAGAIN
    else 1 \<le> ?r \<and> ?r < int NR_TASKS \<and> \<not> live s (nat ?r) \<and> (\<forall>j \<in> {1..<nat ?r}. live s j)"
  proof (cases ?slot)
    case None
    then have "\<forall>i \<in> {1..<NR_TASKS}. live s i" by (simp add: find_idx_None_iff)
    with None show ?thesis by simp
  next
    case (Some k)
    then have k: "k + 1 < NR_TASKS" "\<not> live s (k + 1)" "\<forall>j \<in> {1..<k + 1}. live s j"
      unfolding free_slot by blast+
    then have nall: "\<not> (\<forall>i \<in> {1..<NR_TASKS}. live s i)" by auto
    have "nat (int k + 1) = k + 1" by simp
    with Some k show ?thesis unfolding if_not_P [OF nall] by simp
  qed
  have free: "\<forall>i < NR_TASKS. live s i \<longrightarrow> pid (ts s i) \<noteq> q"
    using q(2) unfolding pid_taken_def by blast
  show ?thesis
    by (rule exI [of _ q], rule exI [of _ ?r], intro conjI) (rule eq q(3,4) free slot)+
qed

theorem find_empty_process_returns_witness:
  "let s = boot_kern\<lparr>last_pid := 2 ^ 31 - 1, live := (\<lambda>i. i < 3)\<rparr> in
   0 \<le> last_pid s \<and> last_pid s < 2 ^ 31 \<and>
   (\<exists>q r. find_empty_process s = Ok r (s\<lparr>last_pid := q\<rparr>) \<and> 1 \<le> q \<and>
      (\<forall>i < NR_TASKS. live s i \<longrightarrow> pid (ts s i) \<noteq> q) \<and> 3 \<le> r)"
proof -
  let ?s = "boot_kern\<lparr>last_pid := 2 ^ 31 - 1, live := (\<lambda>i. i < 3)\<rparr>"
  have r: "0 \<le> last_pid ?s" "last_pid ?s < 2 ^ 31" by simp_all
  have nall: "\<not> (\<forall>i \<in> {1..<NR_TASKS}. live ?s i)"
    by (rule notI, drule bspec [of _ _ 3]) (simp_all add: NR_TASKS_def)
  obtain q r where q: "find_empty_process ?s = Ok r (?s\<lparr>last_pid := q\<rparr>)" "1 \<le> q"
    "\<forall>i < NR_TASKS. live ?s i \<longrightarrow> pid (ts ?s i) \<noteq> q" "1 \<le> r" "\<not> live ?s (nat r)"
    using find_empty_process_returns [OF r] unfolding if_not_P [OF nall] by blast
  from q(4,5) have "3 \<le> r" by simp
  with q r show ?thesis unfolding Let_def by blast
qed

end
