(* ===== verification/CopyTables.thy ===== *)
theory CopyTables
  imports Paging
begin

text \<open>
  Copying an address space: the effect of \<open>copy_page_tables\<close> (theory \<open>Mm\<close>), which \<open>fork\<close> calls, on the
  translation of addresses and on the reference counts. Every page of the parent is shared read-only
  with the child and counted once more.
\<close>

subsection \<open>One page table\<close>

text \<open>An entry without its write bit; what becomes of an entry of the parent, and its copy.\<close>

definition wp :: "u32 \<Rightarrow> u32" where "wp w = w AND NOT 2"
definition counted :: "u32 \<Rightarrow> bool" where "counted w \<longleftrightarrow> odd w \<and> LOW_MEM < wp w"
definition parent_pte :: "u32 \<Rightarrow> u32" where "parent_pte w = (if counted w then wp w else w)"

lemma even_wp [simp]: "even (wp w) \<longleftrightarrow> even w"
  by (simp add: wp_def even_and_iff)

lemma wp_idem [simp]: "wp (wp w) = wp w"
  unfolding wp_def by (simp only: and.assoc and.idem)

lemma MAP_NR_wp: "wp w AND 0xFFFFF000 = w AND 0xFFFFF000"
  unfolding wp_def by (rule bit_word_eqI) (auto simp: bit_frame bit_simps)

definition slot4 :: "nat \<Rightarrow> u32" where "slot4 k = 4 * of_nat k"

lemma unat_slot4: "k < 1024 \<Longrightarrow> unat (slot4 k) = 4 * k"
  unfolding slot4_def by (simp add: unat_word_ariths unat_of_nat)

lemma slot4_inj: "j < 1024 \<Longrightarrow> k < 1024 \<Longrightarrow> slot4 j = slot4 k \<longleftrightarrow> j = k"
  by (metis unat_slot4 mult_cancel1 zero_neq_numeral)

lemma slot4_frame [page_simps]:
  assumes "k < 1024"
  shows "slot4 k AND 0xFFFFF000 = 0"
proof -
  have "unat (take_bit 12 (slot4 k)) = unat (slot4 k)"
    using assms by (simp add: unsigned_take_bit_eq unat_slot4 [OF assms] take_bit_nat_eq_self)
  then have "slot4 k AND 0xFFF = slot4 k"
    unfolding off_mask by (simp add: word_unat_eq_iff flip: take_bit_eq_mask)
  then show ?thesis using off_frame0 [of "slot4 k"] by simp
qed

lemma slot4_Suc: "slot4 k + 4 = slot4 (Suc k)"
  by (simp add: slot4_def algebra_simps)

text \<open>
  The loop over a table: entries \<open>j\<close> to \<open>c - 1\<close> of table \<open>p\<close> are copied into table \<open>q\<close>. What each entry
  becomes, and how often a page is counted.
\<close>

definition uses_raw :: "nat \<Rightarrow> nat \<Rightarrow> u32 \<Rightarrow> nat \<Rightarrow> (u32 \<Rightarrow> u32) \<Rightarrow> nat" where
  "uses_raw j c p n m = (\<Sum>k = j..<c. of_bool (counted (m (p + slot4 k)) \<and> MAP_NR (wp (m (p + slot4 k))) = n))"

text \<open>One turn of the loop.\<close>

definition pte_step :: "u32 \<Rightarrow> u32 \<Rightarrow> 'a mm_scheme \<Rightarrow> (unit, 'a mm_scheme) res" where
  "pte_step a b s =
     (if even (phys s a) then Ok () s
      else if LOW_MEM < wp (phys s a)
      then inc_map (wp (phys s a)) (poke a (wp (phys s a)) (poke b (wp (phys s a)) s))
      else Ok () (poke b (wp (phys s a)) s))"

lemma copy_ptes_Suc:
  "copy_ptes (Suc n) a b s = bind (pte_step a b s) (\<lambda>_ s. copy_ptes n (a + 4) (b + 4) s)"
  unfolding copy_ptes.simps pte_step_def wp_def Let_def and_one_eq0 by simp

lemma pte_step_spec:
  assumes "pte_step a b s = Ok () t" and "a \<noteq> b"
  shows "HIGH_MEMORY t = HIGH_MEMORY s" and "length (mem_map t) = length (mem_map s)"
    and "mem_map t ! i = mem_map s ! i + of_bool (counted (phys s a) \<and> MAP_NR (wp (phys s a)) = i)"
    and "x \<noteq> a \<Longrightarrow> x \<noteq> b \<Longrightarrow> phys t x = phys s x"
    and "phys t a = parent_pte (phys s a)"
    and "phys t b = (if odd (phys s a) then wp (phys s a) else phys s b)"
proof -
  have "HIGH_MEMORY t = HIGH_MEMORY s \<and> length (mem_map t) = length (mem_map s) \<and>
    (\<forall>i. mem_map t ! i = mem_map s ! i + of_bool (counted (phys s a) \<and> MAP_NR (wp (phys s a)) = i)) \<and>
    (\<forall>x. x \<noteq> a \<longrightarrow> x \<noteq> b \<longrightarrow> phys t x = phys s x) \<and> phys t a = parent_pte (phys s a) \<and>
    phys t b = (if odd (phys s a) then wp (phys s a) else phys s b)"
    using assms by (auto simp: pte_step_def inc_map_def counted_def parent_pte_def aget_eq_Ok
        nth_list_update split: if_splits)
  then show "HIGH_MEMORY t = HIGH_MEMORY s" "length (mem_map t) = length (mem_map s)"
    "mem_map t ! i = mem_map s ! i + of_bool (counted (phys s a) \<and> MAP_NR (wp (phys s a)) = i)"
    "x \<noteq> a \<Longrightarrow> x \<noteq> b \<Longrightarrow> phys t x = phys s x" "phys t a = parent_pte (phys s a)"
    "phys t b = (if odd (phys s a) then wp (phys s a) else phys s b)" by blast+
qed

lemma copy_ptes_spec:
  assumes al: "p AND 0xFFF = 0" "q AND 0xFFF = 0" "p \<noteq> q"
    and "j + n = c" and c: "c \<le> 1024"
    and "copy_ptes n (p + slot4 j) (q + slot4 j) s = Ok () t"
  shows "HIGH_MEMORY t = HIGH_MEMORY s \<and> length (mem_map t) = length (mem_map s) \<and>
    (\<forall>i. mem_map t ! i = mem_map s ! i + of_nat (uses_raw j c p i (phys s))) \<and>
    (\<forall>a. (\<forall>k \<in> {j..<c}. a \<noteq> p + slot4 k \<and> a \<noteq> q + slot4 k) \<longrightarrow> phys t a = phys s a) \<and>
    (\<forall>k \<in> {j..<c}. phys t (p + slot4 k) = parent_pte (phys s (p + slot4 k)) \<and>
       phys t (q + slot4 k) = (if odd (phys s (p + slot4 k)) then wp (phys s (p + slot4 k))
         else phys s (q + slot4 k)))"
  using assms(4,6)
proof (induction n arbitrary: j s)
  case 0
  then show ?case by (simp add: uses_raw_def)
next
  case (Suc n)
  let ?a = "p + slot4 j" and ?b = "q + slot4 j"
  from Suc.prems obtain s1 where st: "pte_step ?a ?b s = Ok () s1"
    and rest: "copy_ptes n (p + slot4 (Suc j)) (q + slot4 (Suc j)) s1 = Ok () t"
    unfolding copy_ptes_Suc bind_eq_Ok add.assoc slot4_Suc by auto
  have j: "j < c" "j < 1024" using Suc.prems(1) c by simp_all
  have ab: "p + slot4 k = q + slot4 l \<longleftrightarrow> False" "p + slot4 k = p + slot4 l \<longleftrightarrow> k = l"
    "q + slot4 k = q + slot4 l \<longleftrightarrow> k = l" if "k < c" "l < c" for k l
    using that c al slot4_inj [of k l] page_add_inj [of p q "slot4 k" "slot4 l"]
    by (simp_all add: slot4_frame)
  have ne: "?a \<noteq> ?b" using ab(1) [OF j(1) j(1)] by blast
  note st1 = pte_step_spec [OF st ne]
  have later: "phys s1 (p + slot4 k) = phys s (p + slot4 k)" "phys s1 (q + slot4 k) = phys s (q + slot4 k)"
    if "k \<in> {Suc j..<c}" for k
    using that j ab [of k j] ab(1) [of j k] by (auto intro!: st1(4))
  have uses: "uses_raw j c p i (phys s) =
    of_bool (counted (phys s ?a) \<and> MAP_NR (wp (phys s ?a)) = i) + uses_raw (Suc j) c p i (phys s1)" for i
    unfolding uses_raw_def sum.atLeast_Suc_lessThan [OF j(1)] by (simp add: later)
  have IH: "HIGH_MEMORY t = HIGH_MEMORY s1" "length (mem_map t) = length (mem_map s1)"
    "\<And>i. mem_map t ! i = mem_map s1 ! i + of_nat (uses_raw (Suc j) c p i (phys s1))"
    "\<And>a. (\<forall>k \<in> {Suc j..<c}. a \<noteq> p + slot4 k \<and> a \<noteq> q + slot4 k) \<Longrightarrow> phys t a = phys s1 a"
    "\<And>k. k \<in> {Suc j..<c} \<Longrightarrow> phys t (p + slot4 k) = parent_pte (phys s1 (p + slot4 k))"
    "\<And>k. k \<in> {Suc j..<c} \<Longrightarrow> phys t (q + slot4 k) = (if odd (phys s1 (p + slot4 k)) then wp (phys s1 (p + slot4 k))
         else phys s1 (q + slot4 k))"
    using Suc.IH [OF _ rest] Suc.prems(1) by (simp_all add: later)
  have first: "phys t ?a = phys s1 ?a" "phys t ?b = phys s1 ?b"
  proof -
    have "?a \<noteq> p + slot4 k \<and> ?a \<noteq> q + slot4 k \<and> ?b \<noteq> p + slot4 k \<and> ?b \<noteq> q + slot4 k"
      if "k \<in> {Suc j..<c}" for k
      using that j ab [of j k] ab(1) [of k j] by (metis atLeastLessThan_iff not_less_eq_eq order_refl)
    then show "phys t ?a = phys s1 ?a" "phys t ?b = phys s1 ?b" by (simp_all add: IH(4))
  qed
  show ?case
  proof (intro conjI allI ballI impI)
    show "HIGH_MEMORY t = HIGH_MEMORY s" "length (mem_map t) = length (mem_map s)"
      by (simp_all add: IH st1)
    show "mem_map t ! i = mem_map s ! i + of_nat (uses_raw j c p i (phys s))" for i
      unfolding IH(3) st1(3) uses by simp
    show "phys t x = phys s x" if x: "\<forall>k \<in> {j..<c}. x \<noteq> p + slot4 k \<and> x \<noteq> q + slot4 k" for x
    proof -
      have "phys t x = phys s1 x" using x by (intro IH(4)) simp
      also have "\<dots> = phys s x" using x j by (intro st1(4)) simp_all
      finally show ?thesis .
    qed
    fix k assume k: "k \<in> {j..<c}"
    show "phys t (p + slot4 k) = parent_pte (phys s (p + slot4 k))"
      using k first(1) st1(5) IH(5) [of k] later(1) [of k] by (cases "k = j") auto
    show "phys t (q + slot4 k) = (if odd (phys s (p + slot4 k)) then wp (phys s (p + slot4 k))
         else phys s (q + slot4 k))"
      using k first(2) st1(6) IH(6) [of k] later [of k] by (cases "k = j") auto
  qed
qed

lemma copy_ptes_returns:
  assumes al: "p AND 0xFFF = 0" "q AND 0xFFF = 0" "p \<noteq> q"
    and "j + n = c" and c: "c \<le> 1024"
    and "\<forall>k \<in> {j..<c}. counted (phys s (p + slot4 k)) \<longrightarrow> MAP_NR (wp (phys s (p + slot4 k))) < length (mem_map s)"
  shows "\<exists>t. copy_ptes n (p + slot4 j) (q + slot4 j) s = Ok () t"
  using assms(4,6)
proof (induction n arbitrary: j s)
  case 0
  then show ?case by simp
next
  case (Suc n)
  let ?a = "p + slot4 j" and ?b = "q + slot4 j"
  have j: "j < c" using Suc.prems(1) by simp
  from Suc.prems(2) j obtain s1 where st: "pte_step ?a ?b s = Ok () s1"
    by (fastforce simp: pte_step_def inc_map_def counted_def)
  have ab: "p + slot4 k \<noteq> ?a \<and> p + slot4 k \<noteq> ?b" if "k \<in> {Suc j..<c}" for k
    using that c al slot4_inj [of k j] page_add_inj [of p q "slot4 k" "slot4 j"]
    by (simp add: slot4_frame)
  have ne: "?a \<noteq> ?b" using j c al page_add_inj [of p q "slot4 j" "slot4 j"] by (simp add: slot4_frame)
  have "\<forall>k \<in> {Suc j..<c}. counted (phys s1 (p + slot4 k)) \<longrightarrow>
    MAP_NR (wp (phys s1 (p + slot4 k))) < length (mem_map s1)"
    using Suc.prems(2) ab pte_step_spec(2,4) [OF st ne] by simp
  with Suc.IH [of "Suc j" s1] Suc.prems(1) obtain t
    where "copy_ptes n (p + slot4 (Suc j)) (q + slot4 (Suc j)) s1 = Ok () t" by auto
  then show ?case using st unfolding copy_ptes_Suc add.assoc slot4_Suc by simp
qed

subsection \<open>One entry of the directory\<close>

text \<open>
  The entry at offset \<open>x\<close> of the table in the directory slot \<open>d\<close>; how often the first \<open>c\<close> entries of a
  table use page \<open>q\<close>; and what must hold of them: each is of a page the allocator manages, which is in
  use and whose count, a byte, can take the new references.
\<close>

definition entry :: "'a mm_scheme \<Rightarrow> u32 \<Rightarrow> u32 \<Rightarrow> u32 option" where
  "entry s d x =
     (let w = phys s ((phys s d AND 0xFFFFF000) + x) in if odd (phys s d) \<and> odd w then Some w else None)"

lemma pte_entry: "pte s a = entry s (dir_slot a) (pte_offset a)"
  by (simp add: pte_def entry_def pte_addr_def table_of_def dir_entry_def)

definition uses :: "nat \<Rightarrow> 'a mm_scheme \<Rightarrow> u32 \<Rightarrow> u32 \<Rightarrow> nat" where
  "uses c s d q =
     (\<Sum>k = 0..<c. case entry s d (slot4 k) of None \<Rightarrow> 0
        | Some e \<Rightarrow> of_bool (counted e \<and> MAP_NR (wp e) = MAP_NR q))"

definition managed :: "nat \<Rightarrow> 'a mm_scheme \<Rightarrow> u32 \<Rightarrow> bool" where
  "managed c s d \<longleftrightarrow>
     (\<forall>k < c. \<forall>e. entry s d (slot4 k) = Some e \<longrightarrow> counted e \<longrightarrow> MAP_NR (wp e) < PAGING_PAGES)"

lemma uses_raw:
  "odd (phys s d) \<Longrightarrow> uses c s d q = uses_raw 0 c (phys s d AND 0xFFFFF000) (MAP_NR q) (phys s)"
  unfolding uses_def uses_raw_def by (rule sum.cong) (auto simp: entry_def Let_def counted_def)

lemma slot4_dir:
  assumes "m < 1024"
  obtains a where "slot4 m = dir_slot a"
proof
  have "unat (drop_bit 20 (push_bit 22 (of_nat m :: u32))) = 4 * m"
    using assms by (simp add: unsigned_drop_bit_eq push_bit_eq_mult unat_word_ariths unat_of_nat drop_bit_eq_div)
  then have d: "drop_bit 20 (push_bit 22 (of_nat m :: u32)) = slot4 m"
    using unat_slot4 [OF assms] by (simp only: word_unat_eq_iff)
  have "slot4 m AND 0xFFC = slot4 m"
  proof -
    have p: "slot4 m = push_bit 2 (of_nat m)" by (simp add: slot4_def push_bit_eq_mult)
    have "take_bit 10 (of_nat m :: u32) = of_nat m"
      using assms by (simp only: take_bit_of_nat) (simp add: take_bit_nat_eq_self)
    then show ?thesis
      unfolding slot_mask p push_bit_and [symmetric] by (simp only: take_bit_eq_mask)
  qed
  then show "slot4 m = dir_slot (push_bit 22 (of_nat m))"
    by (simp add: dir_slot_def d)
qed


lemma unat_count: "unat (w :: u8) + n \<le> 255 \<Longrightarrow> unat (w + of_nat n) = unat w + n"
  by (simp add: unat_word_ariths unat_of_nat)

lemma slot4_0 [simp]: "slot4 0 = 0"
  by (simp add: slot4_def)

lemma copy_one:
  assumes wf: "wf_mm s" "wf_tables s" and f: "f = dir_slot a" and d: "d = dir_slot b" and ne: "f \<noteq> d"
    and pres: "odd (phys s f)" "even (phys s d)" and g: "get_free_page s = Ok p u" and p: "p \<noteq> 0"
    and c: "c \<le> 1024" and man: "managed c s f"
    and sh: "\<And>q. is_page q \<Longrightarrow> (uses c s f q \<noteq> 0 \<longrightarrow> page_refs s q \<noteq> 0) \<and> page_refs s q + uses c s f q \<le> 255"
  shows "\<exists>t. copy_ptes c (phys s f AND 0xFFFFF000) p (poke d (p OR 7) u) = Ok () t \<and>
    wf_mm t \<and> wf_tables t \<and> HIGH_MEMORY t = HIGH_MEMORY s \<and> is_page p \<and> page_refs s p = 0 \<and>
    (\<forall>y. phys t (dir_slot y) = (if dir_slot y = d then p OR 7 else phys s (dir_slot y))) \<and>
    (\<forall>y. \<forall>k < 1024. entry t (dir_slot y) (slot4 k) =
       (if dir_slot y = d then (if k < c then map_option wp (entry s f (slot4 k)) else None)
        else if dir_slot y = f \<and> k < c then map_option parent_pte (entry s f (slot4 k))
        else entry s (dir_slot y) (slot4 k))) \<and>
    (\<forall>q. is_page q \<longrightarrow> page_refs t q = page_refs s q + uses c s f q + of_bool (q = p))"
proof -
  let ?P = "phys s f AND 0xFFFFF000"
  define v where v: "v = poke d (p OR 7) u"
  have ev: "even (dir_entry s b)" using pres(2) d by (simp add: dir_entry_def)
  note n = new_table [OF wf ev g p, folded d, folded v]
  have usable: "usable_page s p" and r0: "page_refs s p = 0" and r1: "page_refs u p = 1"
    and rq: "\<And>q. is_page q \<Longrightarrow> q \<noteq> p \<Longrightarrow> page_refs u q = page_refs s q"
    using get_free_page_refs [OF wf(1) g p] by auto
  have isp: "is_page p" and al: "p AND 0xFFF = 0" using usable by (auto simp: usable_page_def is_page_def)
  have ph: "phys u = clear_page p (phys s)" and mm: "length (mem_map v) = length (mem_map s)"
    and Hv: "HIGH_MEMORY v = HIGH_MEMORY s"
    using g p by (auto elim: get_free_page_SomeE simp: v)
  have len: "length (mem_map s) = PAGING_PAGES" using wf(1) by (simp add: wf_mm_def)
  have dv: "dir_entry v y = (if dir_slot y = d then p OR 7 else dir_entry s y)" for y by (rule n(6))
  have tP: "table_of s a = ?P" and oa: "odd (dir_entry s a)" using pres(1) f by (simp_all add: table_of_def dir_entry_def)
  have P0: "?P \<noteq> 0" using wf_tablesD(1) [OF wf(2) oa] tP by simp
  have nottab: "table_of s y \<noteq> p" if "odd (dir_entry s y)" for y
    using wf_tablesD(2) [OF wf(2) that] isp r0 by auto
  have Pp: "?P \<noteq> p" using nottab [OF oa] tP by simp
  have alP: "?P AND 0xFFF = 0" by (simp add: page_simps)
  have un: "phys v x = phys s x" if "x AND 0xFFFFF000 \<noteq> p" "x AND 0xFFFFF000 \<noteq> 0" for x
    using that d by (auto simp: v ph clear_page_def page_simps)
  have vP: "phys v (?P + slot4 k) = phys s (?P + slot4 k)" if "k < 1024" for k
    using that Pp P0 alP by (intro un) (simp_all add: page_simps)
  have vp: "phys v (p + slot4 k) = 0" if "k < 1024" for k
  proof -
    have fr: "(p + slot4 k) AND 0xFFFFF000 = p" using al that by (simp add: page_simps)
    then have "p + slot4 k \<noteq> d" using p d by (metis dir_slot_frame)
    with fr show ?thesis by (simp add: v ph clear_page_def)
  qed
  have ent: "entry s f (slot4 k) = (if odd (phys s (?P + slot4 k)) then Some (phys s (?P + slot4 k)) else None)" for k
    using pres(1) by (simp add: entry_def Let_def)
  have "\<forall>k \<in> {0..<c}. counted (phys v (?P + slot4 k)) \<longrightarrow>
      MAP_NR (wp (phys v (?P + slot4 k))) < length (mem_map v)"
    using man c len mm unfolding managed_def ent by (simp add: vP) (simp add: counted_def)
  from copy_ptes_returns [OF alP al Pp _ c this] obtain t
    where t: "copy_ptes c ?P p v = Ok () t" by auto
  with copy_ptes_spec [OF alP al Pp _ c, of 0 c v t]
  have H: "HIGH_MEMORY t = HIGH_MEMORY v" "length (mem_map t) = length (mem_map v)"
    and M: "\<And>i. mem_map t ! i = mem_map v ! i + of_nat (uses_raw 0 c ?P i (phys v))"
    and O: "\<And>x. (\<forall>k \<in> {0..<c}. x \<noteq> ?P + slot4 k \<and> x \<noteq> p + slot4 k) \<Longrightarrow> phys t x = phys v x"
    and E: "\<And>k. k < c \<Longrightarrow> phys t (?P + slot4 k) = parent_pte (phys v (?P + slot4 k))"
      "\<And>k. k < c \<Longrightarrow> phys t (p + slot4 k) = (if odd (phys v (?P + slot4 k)) then wp (phys v (?P + slot4 k))
         else phys v (p + slot4 k))" by simp_all
  have other: "phys t x = phys v x" if "x AND 0xFFFFF000 \<noteq> ?P" "x AND 0xFFFFF000 \<noteq> p" for x
    using that c al alP by (intro O ballI) (auto simp: page_simps)
  have dt: "phys t (dir_slot y) = (if dir_slot y = d then p OR 7 else phys s (dir_slot y))" for y
    using other [of "dir_slot y"] P0 p dv [of y] by (simp add: dir_slot_frame dir_entry_def)
  have ur: "uses_raw 0 c ?P i (phys v) = uses_raw 0 c ?P i (phys s)" for i
    unfolding uses_raw_def using c by (intro sum.cong) (simp_all add: vP)
  have up: "uses c s f q = uses_raw 0 c ?P (MAP_NR q) (phys s)" for q using pres(1) by (rule uses_raw)
  have rv: "page_refs v q = page_refs s q + of_bool (q = p)" if "is_page q" for q
    using rq [OF that] r0 r1 by (auto simp: v)
  have refs: "page_refs t q = page_refs s q + uses c s f q + of_bool (q = p)" if q: "is_page q" for q
  proof -
    have "page_refs v q + uses c s f q \<le> 255" using sh [OF q] r0 rv [OF q] by (cases "q = p") auto
    then have "page_refs t q = page_refs v q + uses c s f q"
      using M [of "MAP_NR q"] unfolding ur up [symmetric] page_refs_def by (simp add: unat_count)
    then show ?thesis using rv [OF q] by simp
  qed
  have wft: "wf_mm t"
    unfolding wf_mm_def
  proof (intro conjI allI impI)
    show "length (mem_map t) = PAGING_PAGES" using H mm len by simp
    fix n assume n: "n < PAGING_PAGES" and "mem_map t ! n = 0"
    then have "page_refs t (page_addr n) = 0" by (simp add: page_refs_def MAP_NR_page_addr)
    then have "page_refs s (page_addr n) = 0" using refs [OF is_page_addr [OF n]] by simp
    then have "mem_map s ! n = 0" by (simp add: page_refs_def MAP_NR_page_addr [OF n] unat_eq_zero)
    then show "page_addr n < HIGH_MEMORY t"
      using wf(1) n by (simp add: H(1) Hv wf_mm_def)
  qed
  have det: "dir_entry t y = dir_entry v y" for y using dt dv by (simp add: dir_entry_def)
  have tabt: "table_of t y = table_of v y" for y by (simp add: table_of_def det)
  have grow: "page_refs v q \<le> page_refs t q" if "is_page q" for q
    using refs [OF that] rv [OF that] by simp
  have wtt: "wf_tables t"
    using n(2) grow unfolding wf_tables_def det tabt by (metis le_zero_eq)
  have entd: "entry t d (slot4 k) = (if k < c then map_option wp (entry s f (slot4 k)) else None)"
    if k: "k < 1024" for k
  proof -
    have td: "phys t d = p OR 7" "odd (p OR 7)" "(p OR 7) AND 0xFFFFF000 = p"
      using dt [of b] d al by (simp_all add: even_or_iff page_simps)
    have "phys t (p + slot4 k) = (if k < c \<and> odd (phys s (?P + slot4 k)) then wp (phys s (?P + slot4 k)) else 0)"
    proof (cases "k < c")
      case True
      then show ?thesis by (simp only: E(2) [OF True] vP [OF k] vp [OF k]) simp
    next
      case False
      have "phys t (p + slot4 k) = phys v (p + slot4 k)"
        using False k c al alP Pp page_add_inj [of p ?P "slot4 k"] page_add_inj [of p p "slot4 k"]
        by (intro O ballI) (auto simp: slot4_frame slot4_inj)
      with False show ?thesis by (simp add: vp [OF k])
    qed
    then show ?thesis unfolding entry_def [of t] td ent Let_def using td(2) by simp
  qed
  have entf: "entry t f (slot4 k) = (if k < c then map_option parent_pte (entry s f (slot4 k)) else entry s f (slot4 k))"
    if k: "k < 1024" for k
  proof -
    have tf: "phys t f = phys s f" using dt [of a] f ne by simp
    have "phys t (?P + slot4 k) = (if k < c then parent_pte (phys s (?P + slot4 k)) else phys s (?P + slot4 k))"
    proof (cases "k < c")
      case True
      then show ?thesis by (simp only: E(1) [OF True] vP [OF k]) simp
    next
      case False
      have "phys t (?P + slot4 k) = phys v (?P + slot4 k)"
        using False k c al alP Pp page_add_inj [of ?P p "slot4 k"] page_add_inj [of ?P ?P "slot4 k"]
        by (intro O ballI) (auto simp: slot4_frame slot4_inj)
      with False show ?thesis by (simp add: vP [OF k])
    qed
    moreover have "odd (parent_pte w) = odd w" for w by (simp add: parent_pte_def)
    ultimately show ?thesis unfolding entry_def [of t] tf ent Let_def using pres(1) by simp
  qed
  have ento: "entry t (dir_slot y) (slot4 k) = entry s (dir_slot y) (slot4 k)"
    if k: "k < 1024" and y: "dir_slot y \<noteq> d" "dir_slot y \<noteq> f" for y k
  proof -
    have dy: "phys t (dir_slot y) = phys s (dir_slot y)" using dt [of y] y by simp
    show ?thesis
    proof (cases "odd (dir_entry s y)")
      case False
      then show ?thesis by (simp add: entry_def dy dir_entry_def)
    next
      case True
      have "table_of s y \<noteq> ?P" using wf_tablesD(3) [OF wf(2) True oa] tP f y by metis
      then have "phys t (table_of s y + slot4 k) = phys s (table_of s y + slot4 k)"
        using other [of "table_of s y + slot4 k"] un [of "table_of s y + slot4 k"] k
          nottab [OF True] wf_tablesD(1) [OF wf(2) True] by (simp add: page_simps)
      then show ?thesis by (simp add: entry_def Let_def dy table_of_def dir_entry_def)
    qed
  qed
  have Ht: "HIGH_MEMORY t = HIGH_MEMORY s" using H(1) Hv by simp
  show ?thesis
    unfolding v [symmetric]
  proof (intro exI [of _ t] conjI)
    show "\<forall>y. \<forall>k < 1024. entry t (dir_slot y) (slot4 k) =
       (if dir_slot y = d then (if k < c then map_option wp (entry s f (slot4 k)) else None)
        else if dir_slot y = f \<and> k < c then map_option parent_pte (entry s f (slot4 k))
        else entry s (dir_slot y) (slot4 k))"
    proof (intro allI impI)
      fix y and k :: nat assume k: "k < 1024"
      show "entry t (dir_slot y) (slot4 k) =
       (if dir_slot y = d then (if k < c then map_option wp (entry s f (slot4 k)) else None)
        else if dir_slot y = f \<and> k < c then map_option parent_pte (entry s f (slot4 k))
        else entry s (dir_slot y) (slot4 k))"
        using entd [OF k] entf [OF k] ento [OF k, of y]
        by (cases "dir_slot y = d"; cases "dir_slot y = f") simp_all
    qed
  qed (use t wft wtt Ht isp r0 dt refs in blast)+
qed

subsection \<open>The loop over the directory\<close>

text \<open>The number of free pages, and how far one allocation lowers it.\<close>

definition free_pages :: "'a mm_scheme \<Rightarrow> nat" where
  "free_pages s = card {k. k < PAGING_PAGES \<and> mem_map s ! k = 0}"

lemma free_pages_step:
  assumes "\<And>q. is_page q \<Longrightarrow> q \<noteq> p \<Longrightarrow> page_refs s q = 0 \<Longrightarrow> page_refs t q = 0"
  shows "free_pages s \<le> Suc (free_pages t)"
proof -
  have "{k. k < PAGING_PAGES \<and> mem_map s ! k = 0} \<subseteq> insert (MAP_NR p) {k. k < PAGING_PAGES \<and> mem_map t ! k = 0}"
  proof (safe, rule ccontr)
    fix k assume k: "k < PAGING_PAGES" "mem_map s ! k = 0" "k \<noteq> MAP_NR p" "mem_map t ! k \<noteq> 0"
    then have "page_addr k \<noteq> p" "page_refs s (page_addr k) = 0"
      using MAP_NR_page_addr by (auto simp: page_refs_def)
    with assms [OF is_page_addr [OF k(1)]] k show False
      by (simp add: page_refs_def MAP_NR_page_addr unat_eq_zero)
  qed
  then have "free_pages s \<le> card (insert (MAP_NR p) {k. k < PAGING_PAGES \<and> mem_map t ! k = 0})"
    unfolding free_pages_def by (intro card_mono) simp_all
  also have "\<dots> \<le> Suc (free_pages t)" unfolding free_pages_def by (rule card_insert_le_m1) simp_all
  finally show ?thesis .
qed

text \<open>What must hold of the \<open>n\<close> tables from slot \<open>i\<close> on for their pages to be shared.\<close>

definition sharable :: "nat \<Rightarrow> nat \<Rightarrow> nat \<Rightarrow> 'a mm_scheme \<Rightarrow> bool" where
  "sharable c n i s \<longleftrightarrow> (\<forall>m \<in> {i..<i + n}. managed c s (slot4 m)) \<and>
     (\<forall>q. is_page q \<longrightarrow> (let u = \<Sum>m = i..<i + n. uses c s (slot4 m) q in
        (u \<noteq> 0 \<longrightarrow> page_refs s q \<noteq> 0) \<and> page_refs s q + u \<le> 255))"

text \<open>The address space of \<open>t\<close>: slots \<open>j\<close> on are copies of slots \<open>i\<close> on in \<open>s\<close>.\<close>

definition copied :: "nat \<Rightarrow> nat \<Rightarrow> nat \<Rightarrow> nat \<Rightarrow> 'a mm_scheme \<Rightarrow> 'a mm_scheme \<Rightarrow> bool" where
  "copied c n i j s t \<longleftrightarrow>
     (\<forall>m < 1024. \<forall>k < 1024. entry t (slot4 m) (slot4 k) =
        (if m \<in> {j..<j + n} then (if k < c then map_option wp (entry s (slot4 (m - j + i)) (slot4 k)) else None)
         else if m \<in> {i..<i + n} \<and> k < c then map_option parent_pte (entry s (slot4 m) (slot4 k))
         else entry s (slot4 m) (slot4 k))) \<and>
     (\<forall>q. is_page q \<longrightarrow> page_refs s q \<noteq> 0 \<longrightarrow>
        page_refs t q = page_refs s q + (\<Sum>m = i..<i + n. uses c s (slot4 m) q))"

lemma uses_cong:
  "(\<And>k. k < c \<Longrightarrow> entry t e (slot4 k) = entry s d (slot4 k)) \<Longrightarrow> uses c t e q = uses c s d q"
  unfolding uses_def by (rule sum.cong) auto

lemma managed_cong:
  "(\<And>k. k < c \<Longrightarrow> entry t e (slot4 k) = entry s d (slot4 k)) \<Longrightarrow> managed c t e = managed c s d"
  unfolding managed_def by auto

lemma entry_even [simp]: "even (phys s d) \<Longrightarrow> entry s d x = None"
  by (simp add: entry_def)

lemma uses_even [simp]: "even (phys s d) \<Longrightarrow> uses c s d q = 0"
  by (simp add: uses_def)

lemma copied_step:
  assumes "i + Suc n \<le> 1024" "j + Suc n \<le> 1024" and dis: "i + Suc n \<le> j \<or> j + Suc n \<le> i"
    and e: "\<And>m k. m < 1024 \<Longrightarrow> k < 1024 \<Longrightarrow> entry s1 (slot4 m) (slot4 k) =
      (if m = j then (if k < c then map_option wp (entry s (slot4 i) (slot4 k)) else None)
       else if m = i \<and> k < c then map_option parent_pte (entry s (slot4 i) (slot4 k))
       else entry s (slot4 m) (slot4 k))"
    and r: "\<And>q. is_page q \<Longrightarrow> page_refs s q \<noteq> 0 \<Longrightarrow> page_refs s1 q = page_refs s q + uses c s (slot4 i) q"
    and t: "copied c n (Suc i) (Suc j) s1 t" and c: "c \<le> 1024"
  shows "copied c (Suc n) i j s t"
proof -
  have later: "entry s1 (slot4 m) (slot4 k) = entry s (slot4 m) (slot4 k)"
    if "m \<in> {Suc i..<Suc i + n}" "k < 1024" for m k
    using that e [of m k] assms(1) dis by auto
  have ent: "entry t (slot4 m) (slot4 k) =
        (if m \<in> {Suc j..<Suc j + n} then (if k < c then map_option wp (entry s1 (slot4 (m - Suc j + Suc i)) (slot4 k)) else None)
         else if m \<in> {Suc i..<Suc i + n} \<and> k < c then map_option parent_pte (entry s1 (slot4 m) (slot4 k))
         else entry s1 (slot4 m) (slot4 k))" if "m < 1024" "k < 1024" for m k
    using t that unfolding copied_def by blast
  show ?thesis
    unfolding copied_def
  proof (intro conjI allI impI)
    fix m k :: nat assume mk: "m < 1024" "k < 1024"
    consider "m = j" | "m \<in> {Suc j..<Suc j + n}" | "m = i" | "m \<in> {Suc i..<Suc i + n}"
      | "m \<noteq> i" "m \<noteq> j" "m \<notin> {Suc i..<Suc i + n}" "m \<notin> {Suc j..<Suc j + n}" by blast
    then show "entry t (slot4 m) (slot4 k) =
        (if m \<in> {j..<j + Suc n} then (if k < c then map_option wp (entry s (slot4 (m - j + i)) (slot4 k)) else None)
         else if m \<in> {i..<i + Suc n} \<and> k < c then map_option parent_pte (entry s (slot4 m) (slot4 k))
         else entry s (slot4 m) (slot4 k))"
    proof cases
      case 2
      then have "m - Suc j + Suc i = m - j + i" "m - j + i \<in> {Suc i..<Suc i + n}" by auto
      then have "entry t (slot4 m) (slot4 k) = (if k < c then map_option wp (entry s (slot4 (m - j + i)) (slot4 k)) else None)"
        using 2 ent [OF mk] later [OF _ mk(2), of "m - j + i"] by (simp only: if_True)
      then show ?thesis using 2 by simp
    next
      case 4
      then show ?thesis using ent [OF mk] later [OF _ mk(2)] dis by auto
    qed (use ent [OF mk] e [OF mk] dis in auto)
  next
    fix q assume q: "is_page q" "page_refs s q \<noteq> 0"
    have "page_refs t q = page_refs s1 q + (\<Sum>m = Suc i..<Suc i + n. uses c s1 (slot4 m) q)"
      using t q r [OF q] unfolding copied_def by simp
    also have "(\<Sum>m = Suc i..<Suc i + n. uses c s1 (slot4 m) q) = (\<Sum>m = Suc i..<Suc i + n. uses c s (slot4 m) q)"
      using later c by (intro sum.cong uses_cong) auto
    finally show "page_refs t q = page_refs s q + (\<Sum>m = i..<i + Suc n. uses c s (slot4 m) q)"
      using r [OF q] by (subst sum.atLeast_Suc_lessThan) simp_all
  qed
qed

lemma copy_dirs_spec:
  assumes c: "c = (if src = 0 then 0xA0 else 1024)"
    and "wf_mm s" "wf_tables s" "i + n \<le> 1024" "j + n \<le> 1024" "i + n \<le> j \<or> j + n \<le> i"
    and "sharable c n i s" and "\<forall>m \<in> {j..<j + n}. even (phys s (slot4 m))"
  shows "\<exists>r t. copy_dirs n src (slot4 i) (slot4 j) s = Ok r t \<and> wf_mm t \<and> wf_tables t \<and>
    HIGH_MEMORY t = HIGH_MEMORY s \<and>
    (r = 0 \<and> copied c n i j s t \<or> r = - 1 \<and> free_pages s < n)"
  using assms(2-)
proof (induction n arbitrary: i j s)
  case 0
  then show ?case by (simp add: copied_def)
next
  case (Suc n)
  let ?f = "slot4 i" and ?d = "slot4 j"
  have ij: "i < 1024" "j < 1024" "i \<noteq> j" using Suc.prems(3-5) by auto
  obtain a b where ab: "?f = dir_slot a" "?d = dir_slot b" using slot4_dir ij by metis
  have fd: "?f \<noteq> ?d" using ij slot4_inj by simp
  have c1024: "c \<le> 1024" using c by simp
  have evd: "even (phys s ?d)" using Suc.prems(7) by simp
  have split: "(\<Sum>m = i..<i + Suc n. uses c s (slot4 m) q) =
    uses c s ?f q + (\<Sum>m = Suc i..<Suc i + n. uses c s (slot4 m) q)" for q
    by (subst sum.atLeast_Suc_lessThan) simp_all
  show ?case
  proof (cases "even (phys s ?f)")
    case True
    have sh: "sharable c n (Suc i) s"
      using Suc.prems(6) True unfolding sharable_def split by (simp add: Let_def)
    have "\<exists>r t. copy_dirs n src (slot4 (Suc i)) (slot4 (Suc j)) s = Ok r t \<and> wf_mm t \<and> wf_tables t \<and>
      HIGH_MEMORY t = HIGH_MEMORY s \<and>
      (r = 0 \<and> copied c n (Suc i) (Suc j) s t \<or> r = - 1 \<and> free_pages s < n)"
      using Suc.prems sh by (intro Suc.IH) auto
    moreover have "copied c (Suc n) i j s t" if "copied c n (Suc i) (Suc j) s t" for t
      using True evd by (intro copied_step [OF Suc.prems(3-5) _ _ that c1024]) simp_all
    moreover have "copy_dirs (Suc n) src ?f ?d s = copy_dirs n src (slot4 (Suc i)) (slot4 (Suc j)) s"
      unfolding copy_dirs.simps and_one_eq0 slot4_Suc using evd True by simp
    ultimately show ?thesis using less_SucI by metis
  next
    case False
    then have odf: "odd (phys s ?f)" by simp
    obtain p u where g: "get_free_page s = Ok p u" using get_free_page_returns by blast
    show ?thesis
    proof (cases "p = 0")
      case True
      with g have none: "\<forall>k < PAGING_PAGES. mem_map s ! k \<noteq> 0" "u = s"
        using get_free_page_zero_iff [of s u] by auto
      then have "{k. k < PAGING_PAGES \<and> mem_map s ! k = 0} = {}" by auto
      then have "free_pages s = 0" unfolding free_pages_def by (simp only: card.empty)
      with g True none Suc.prems(1,2) show ?thesis
        unfolding copy_dirs.simps and_one_eq0 using evd odf by simp
    next
      case p: False
      have sh: "(uses c s ?f q \<noteq> 0 \<longrightarrow> page_refs s q \<noteq> 0) \<and> page_refs s q + uses c s ?f q \<le> 255"
        if "is_page q" for q
        using Suc.prems(6) that unfolding sharable_def split Let_def by fastforce
      have man: "managed c s ?f" using Suc.prems(6) by (simp add: sharable_def)
      from copy_one [OF Suc.prems(1,2) ab fd odf evd g p c1024 man sh] obtain s1 where
        s1: "copy_ptes c (phys s ?f AND 0xFFFFF000) p (poke ?d (p OR 7) u) = Ok () s1"
        and wf1: "wf_mm s1" "wf_tables s1" "HIGH_MEMORY s1 = HIGH_MEMORY s" and isp: "is_page p" "page_refs s p = 0"
        and dir1: "\<And>y. phys s1 (dir_slot y) = (if dir_slot y = ?d then p OR 7 else phys s (dir_slot y))"
        and e1: "\<And>y k. k < 1024 \<Longrightarrow> entry s1 (dir_slot y) (slot4 k) =
         (if dir_slot y = ?d then (if k < c then map_option wp (entry s ?f (slot4 k)) else None)
          else if dir_slot y = ?f \<and> k < c then map_option parent_pte (entry s ?f (slot4 k))
          else entry s (dir_slot y) (slot4 k))"
        and r1: "\<And>q. is_page q \<Longrightarrow> page_refs s1 q = page_refs s q + uses c s ?f q + of_bool (q = p)"
        by blast
      have e: "entry s1 (slot4 m) (slot4 k) =
          (if m = j then (if k < c then map_option wp (entry s ?f (slot4 k)) else None)
           else if m = i \<and> k < c then map_option parent_pte (entry s ?f (slot4 k))
           else entry s (slot4 m) (slot4 k))" if "m < 1024" "k < 1024" for m k
        using slot4_dir [OF that(1)] e1 [OF that(2)] slot4_inj [OF that(1)] ij by metis
      have later: "entry s1 (slot4 m) (slot4 k) = entry s (slot4 m) (slot4 k)"
        if "m \<in> {Suc i..<Suc i + n}" "k < c" for m k
        using that e [of m k] Suc.prems(3-5) c1024 by auto
      have sums: "(\<Sum>m = Suc i..<Suc i + n. uses c s1 (slot4 m) q) = (\<Sum>m = Suc i..<Suc i + n. uses c s (slot4 m) q)"
        for q using later by (intro sum.cong uses_cong) auto
      have man1: "managed c s1 (slot4 m)" if "m \<in> {Suc i..<Suc i + n}" for m
        using managed_cong [OF later [OF that]] Suc.prems(6) that by (auto simp: sharable_def)
      have sh1: "sharable c n (Suc i) s1"
        unfolding sharable_def sums Let_def
      proof (intro conjI ballI allI impI)
        fix q assume q: "is_page q"
        let ?u = "\<Sum>m = Suc i..<Suc i + n. uses c s (slot4 m) q"
        have *: "uses c s ?f q + ?u \<noteq> 0 \<longrightarrow> page_refs s q \<noteq> 0" "page_refs s q + (uses c s ?f q + ?u) \<le> 255"
          using Suc.prems(6) q unfolding sharable_def split Let_def by blast+
        show "page_refs s1 q + ?u \<le> 255"
          using * isp(2) r1 [OF q] by (cases "q = p") auto
        assume "?u \<noteq> 0"
        then show "page_refs s1 q \<noteq> 0" using * r1 [OF q] by simp
      qed (rule man1)
      have ev1: "\<forall>m \<in> {Suc j..<Suc j + n}. even (phys s1 (slot4 m))"
      proof
        fix m assume m: "m \<in> {Suc j..<Suc j + n}"
        then have m': "m < 1024" "m \<noteq> j" using Suc.prems(4) by auto
        then have "phys s1 (slot4 m) = phys s (slot4 m)"
          using slot4_dir [OF m'(1)] dir1 slot4_inj [OF m'(1) ij(2)] by metis
        then show "even (phys s1 (slot4 m))" using Suc.prems(7) m by simp
      qed
      have "\<exists>r t. copy_dirs n src (slot4 (Suc i)) (slot4 (Suc j)) s1 = Ok r t \<and> wf_mm t \<and> wf_tables t \<and>
        HIGH_MEMORY t = HIGH_MEMORY s1 \<and>
        (r = 0 \<and> copied c n (Suc i) (Suc j) s1 t \<or> r = - 1 \<and> free_pages s1 < n)"
        using Suc.prems sh1 ev1 wf1 by (intro Suc.IH) auto
      moreover have "copied c (Suc n) i j s t" if "copied c n (Suc i) (Suc j) s1 t" for t
        using e r1 isp by (intro copied_step [OF Suc.prems(3-5) _ _ that c1024]) auto
      moreover have "copy_dirs (Suc n) src ?f ?d s = copy_dirs n src (slot4 (Suc i)) (slot4 (Suc j)) s1"
        unfolding copy_dirs.simps and_one_eq0 slot4_Suc c [symmetric] Let_def using evd odf g p s1 by simp
      moreover have "free_pages s \<le> Suc (free_pages s1)"
        using sh r1 by (intro free_pages_step [of p]) fastforce
      ultimately show ?thesis unfolding wf1(3) [symmetric] by (metis Suc_le_mono le_less_trans Suc_leI not_less)
    qed
  qed
qed

subsection \<open>Addresses\<close>

lemma dir_slot_slot4: "dir_slot a = slot4 (unat a div 0x400000)" "unat a div 0x400000 < 1024"
proof -
  have lt: "unat a < 2 ^ 32" using unsigned_less [of a] by simp
  then show m: "unat a div 0x400000 < 1024" by simp
  have "dir_slot a = push_bit 2 (drop_bit 22 a)"
    unfolding dir_slot_def slot_mask
    by (rule bit_word_eqI) (auto simp: bit_simps dest: bit_imp_le_length)
  moreover have "unat (drop_bit 22 a) = unat a div 0x400000"
    unfolding unat_drop_bit_eq by (simp add: drop_bit_eq_div)
  ultimately have "unat (dir_slot a) = (4 * (unat a div 0x400000)) mod 2 ^ 32"
    by (simp only: push_bit_eq_mult unat_word_ariths) (simp add: mult.commute)
  with m have "unat (dir_slot a) = unat (slot4 (unat a div 0x400000))" by (simp add: unat_slot4)
  then show "dir_slot a = slot4 (unat a div 0x400000)" by (simp only: word_unat_eq_iff)
qed

lemma pte_offset_slot4: "pte_offset a = slot4 (unat a div 4096 mod 1024)"
proof -
  have "pte_offset a = push_bit 2 (take_bit 10 (drop_bit 12 a))"
    unfolding pte_offset_def slot_mask by (rule bit_word_eqI) (auto simp: bit_simps)
  moreover have "unat (take_bit 10 (drop_bit 12 a)) = unat a div 4096 mod 1024"
    unfolding unsigned_take_bit_eq unat_drop_bit_eq by (simp add: drop_bit_eq_div take_bit_eq_mod)
  ultimately have "unat (pte_offset a) = (4 * (unat a div 4096 mod 1024)) mod 2 ^ 32"
    by (simp only: push_bit_eq_mult unat_word_ariths) (simp add: mult.commute)
  then have "unat (pte_offset a) = unat (slot4 (unat a div 4096 mod 1024))" by (simp add: unat_slot4)
  then show ?thesis by (simp only: word_unat_eq_iff)
qed

lemma pte_slots: "pte s a = entry s (slot4 (unat a div 0x400000)) (slot4 (unat a div 4096 mod 1024))"
  unfolding pte_entry dir_slot_slot4(1) pte_offset_slot4 ..

text \<open>An address at offset \<open>x\<close> of a region that starts at a multiple of 4MB.\<close>

lemma region_slots:
  fixes base x :: u32
  assumes "base AND 0x3FFFFF = 0" and "unat base + unat x < 2 ^ 32"
  shows "unat (base + x) div 0x400000 = unat base div 0x400000 + unat x div 0x400000"
    and "unat (base + x) div 4096 mod 1024 = unat x div 4096 mod 1024"
proof -
  have m: "(0x3FFFFF :: u32) = mask 22" by (simp add: mask_eq_exp_minus_1)
  obtain b where b: "unat base = 0x400000 * b"
    using assms(1) and_mask_dvd_nat [of 22 base] unfolding m by (auto elim!: dvdE)
  have u: "unat (base + x) = 0x400000 * b + unat x"
    using assms(2) b by (simp add: unat_word_ariths)
  show "unat (base + x) div 0x400000 = unat base div 0x400000 + unat x div 0x400000"
    unfolding u b by simp
  have "(4096 * c + n) div 4096 = c + n div 4096" for c n :: nat by simp
  from this [of "1024 * b"] have "(0x400000 * b + unat x) div 4096 = 1024 * b + unat x div 4096" by simp
  then show "unat (base + x) div 4096 mod 1024 = unat x div 4096 mod 1024"
    unfolding u by simp
qed

text \<open>C6: \<open>copy_page_tables\<close> with \<open>src\<close> above 0, on well-formed tables, into a region with no page table: it
  returns \<open>- 1\<close> only when fewer pages are free than the region has tables, and otherwise 0, and then every address of the child's region is
  mapped as the parent's was but read-only, the parent's own entries have lost their write permission where
  the page is counted, no other address is mapped differently, and the count of each page that was in use
  has grown by the number of entries copied that point to it. The invariants are kept in both cases.\<close>

theorem copy_page_tables_shares:
  fixes src dst :: u32
  assumes wf: "wf_mm s" "wf_tables s"
    and al: "src AND 0x3FFFFF = 0" "dst AND 0x3FFFFF = 0" and src: "src \<noteq> 0"
    and n: "n = unat (drop_bit 22 (len + 0x3FFFFF :: u32))"
    and lim: "unat src + n * 0x400000 \<le> 2 ^ 32" "unat dst + n * 0x400000 \<le> 2 ^ 32"
    and dis: "unat src + n * 0x400000 \<le> unat dst \<or> unat dst + n * 0x400000 \<le> unat src"
    and sh: "sharable 1024 n (unat src div 0x400000) s"
    and emp: "\<forall>x. unat x < n * 0x400000 \<longrightarrow> even (dir_entry s (dst + x))"
  shows "\<exists>r t. copy_page_tables src dst len s = Ok r t \<and> wf_mm t \<and> wf_tables t \<and>
    (r = - 1 \<and> free_pages s < n \<or>
     r = 0 \<and>
     (\<forall>x. unat x < n * 0x400000 \<longrightarrow>
        pte t (dst + x) = map_option wp (pte s (src + x)) \<and>
        pte t (src + x) = map_option parent_pte (pte s (src + x))) \<and>
     (\<forall>a. \<not> (unat src \<le> unat a \<and> unat a < unat src + n * 0x400000) \<longrightarrow>
        \<not> (unat dst \<le> unat a \<and> unat a < unat dst + n * 0x400000) \<longrightarrow> pte t a = pte s a) \<and>
     (\<forall>q. is_page q \<longrightarrow> page_refs s q \<noteq> 0 \<longrightarrow> page_refs t q = page_refs s q +
        (\<Sum>m = unat src div 0x400000..<unat src div 0x400000 + n. uses 1024 s (slot4 m) q)))"
proof -
  have m: "(0x3FFFFF :: u32) = mask 22" by (simp add: mask_eq_exp_minus_1)
  obtain i j where ij: "unat src = i * 0x400000" "unat dst = j * 0x400000"
    using al and_mask_dvd_nat [of 22 src] and_mask_dvd_nat [of 22 dst] unfolding m
    by (auto elim!: dvdE simp: mult.commute)
  have quo: "unat src div 0x400000 = i" "unat dst div 0x400000 = j" using ij by simp_all
  have rng: "i + n \<le> 1024" "j + n \<le> 1024" "i + n \<le> j \<or> j + n \<le> i"
  proof -
    show "i + n \<le> 1024" using lim(1) unfolding ij by simp
    show "j + n \<le> 1024" using lim(2) unfolding ij by simp
    show "i + n \<le> j \<or> j + n \<le> i" using dis unfolding ij by (rule disj_forward) simp_all
  qed
  have slots: "dir_slot src = slot4 i" "dir_slot dst = slot4 j"
    unfolding dir_slot_slot4(1) quo by simp_all
  have reg: "unat (src + x) div 0x400000 = i + unat x div 0x400000"
      "unat (src + x) div 4096 mod 1024 = unat x div 4096 mod 1024"
      "unat (dst + x) div 0x400000 = j + unat x div 0x400000"
      "unat (dst + x) div 4096 mod 1024 = unat x div 4096 mod 1024" if "unat x < n * 0x400000" for x
    using region_slots [OF al(1), of x] region_slots [OF al(2), of x] that lim quo by simp_all
  have ev: "\<forall>m \<in> {j..<j + n}. even (phys s (slot4 m))"
  proof
    fix m assume mj: "m \<in> {j..<j + n}"
    let ?x = "of_nat ((m - j) * 0x400000) :: u32"
    have "(m - j) * 0x400000 < 2 ^ 32" using mj rng by auto
    then have x: "unat ?x = (m - j) * 0x400000" by (simp only: unat_of_nat) simp
    also have "\<dots> < n * 0x400000" using mj by auto
    finally have "even (dir_entry s (dst + ?x))" "unat ?x < n * 0x400000" using emp by blast+
    moreover have "unat (dst + ?x) div 0x400000 = m"
      using reg(3) [OF calculation(2)] x mj by (simp only: nonzero_mult_div_cancel_right) auto
    ultimately show "even (phys s (slot4 m))" by (simp only: dir_entry_def dir_slot_slot4(1))
  qed
  obtain r t where t: "copy_dirs n src (slot4 i) (slot4 j) s = Ok r t" "wf_mm t" "wf_tables t"
    "r = 0 \<and> copied 1024 n i j s t \<or> r = - 1 \<and> free_pages s < n"
    using copy_dirs_spec [OF _ wf rng sh [unfolded quo] ev, of src] src by auto
  have call: "copy_page_tables src dst len s = Ok r t"
    unfolding copy_page_tables_def al slots n [symmetric] using t(1) by simp
  have main: "(\<forall>x. unat x < n * 0x400000 \<longrightarrow>
        pte t (dst + x) = map_option wp (pte s (src + x)) \<and>
        pte t (src + x) = map_option parent_pte (pte s (src + x))) \<and>
     (\<forall>a. \<not> (unat src \<le> unat a \<and> unat a < unat src + n * 0x400000) \<longrightarrow>
        \<not> (unat dst \<le> unat a \<and> unat a < unat dst + n * 0x400000) \<longrightarrow> pte t a = pte s a) \<and>
     (\<forall>q. is_page q \<longrightarrow> page_refs s q \<noteq> 0 \<longrightarrow> page_refs t q = page_refs s q +
        (\<Sum>m = i..<i + n. uses 1024 s (slot4 m) q))"
    if cp: "copied 1024 n i j s t"
  proof (intro conjI allI impI)
    have ent: "entry t (slot4 m) (slot4 k) =
        (if m \<in> {j..<j + n} then map_option wp (entry s (slot4 (m - j + i)) (slot4 k))
         else if m \<in> {i..<i + n} then map_option parent_pte (entry s (slot4 m) (slot4 k))
         else entry s (slot4 m) (slot4 k))" if "m < 1024" "k < 1024" for m k
      using cp that unfolding copied_def by simp
    fix x :: u32 assume x: "unat x < n * 0x400000"
    have d: "unat x div 0x400000 < n" using x by (simp add: less_mult_imp_div_less)
    have k: "unat x div 4096 mod 1024 < 1024" by simp
    show "pte t (dst + x) = map_option wp (pte s (src + x))"
      unfolding pte_slots reg [OF x] using d rng ent [OF _ k, of "j + unat x div 0x400000"] by (simp add: add.commute)
    show "pte t (src + x) = map_option parent_pte (pte s (src + x))"
      unfolding pte_slots reg [OF x] using d rng ent [OF _ k, of "i + unat x div 0x400000"] by auto
  next
    fix a :: u32 assume out: "\<not> (unat src \<le> unat a \<and> unat a < unat src + n * 0x400000)"
      "\<not> (unat dst \<le> unat a \<and> unat a < unat dst + n * 0x400000)"
    have "unat a div 0x400000 \<notin> {b..<b + n}" if "\<not> (b * 0x400000 \<le> unat a \<and> unat a < b * 0x400000 + n * 0x400000)" for b
      using that by (simp add: less_eq_div_iff_mult_less_eq div_less_iff_less_mult)
    with out ij have "unat a div 0x400000 \<notin> {i..<i + n}" "unat a div 0x400000 \<notin> {j..<j + n}" by simp_all
    moreover have "unat a div 4096 mod 1024 < 1024" by simp
    ultimately show "pte t a = pte s a"
      using cp dir_slot_slot4(2) [of a] unfolding pte_slots copied_def by presburger
  qed (use cp in \<open>simp add: copied_def\<close>)
  then show ?thesis unfolding quo using call t(2-4) by metis
qed

theorem copy_page_tables_shares_witness:
  "\<exists>t. copy_page_tables 0x4000000 0x8000000 0x400000 demo_mm = Ok 0 t \<and> wf_mm t \<and>
     pte t 0x8000000 = Some 0x200005 \<and> page_refs t 0x200000 = 3"
proof -
  let ?s = demo_mm
  have wf: "wf_mm ?s" "wf_tables ?s" by (rule wf_demo; simp add: demo_mm_def)+
  have s16: "slot4 16 = 0x40" "{16..<16 + 1 :: nat} = {16}" "unat (0x4000000 :: u32) div 0x400000 = 16"
    by (simp_all add: slot4_def) auto
  have e: "entry ?s (slot4 16) (slot4 k) = (if k = 0 then Some 0x200005 else None)" if k: "k < 1024" for k
  proof -
    have "(0x1000 + slot4 k) AND 0xFFFFF000 = 0x1000" using k by (intro frame_add) (simp_all add: slot4_frame)
    moreover have "(0x40 :: u32) AND 0xFFFFF000 \<noteq> 0x1000" by simp
    ultimately have ne: "0x1000 + slot4 k \<noteq> 0x40" by metis
    have "phys ?s 0x40 = 0x1007" "phys ?s (0x1000 + slot4 k) = (if k = 0 then 0x200005 else 0)"
      using slot4_inj [OF k, of 0] ne by (simp_all add: demo_mm_def demo_phys_def)
    then show ?thesis by (simp add: entry_def s16)
  qed
  have w: "wp 0x200005 = 0x200005" "counted 0x200005" "MAP_NR 0x200005 = 256" "MAP_NR 0x200000 = 256"
    by (simp_all add: wp_def counted_def LOW_MEM_def MAP_NR_def)
  have man: "managed 1024 ?s (slot4 16)"
    unfolding managed_def by (auto simp: e w PAGING_PAGES_def split: if_splits)
  have us: "uses 1024 ?s (slot4 16) q = of_bool (MAP_NR q = 256)" for q
  proof -
    have "uses 1024 ?s (slot4 16) q = (\<Sum>k = 0..<(1024 :: nat). if k = 0 then of_bool (MAP_NR q = 256) else 0)"
      unfolding uses_def by (rule sum.cong) (auto simp: e w)
    then show ?thesis by simp
  qed
  have refs: "page_refs ?s q = 2" if "MAP_NR q = 256" for q
    using that by (simp add: page_refs_def demo_mm_def demo_map_def PAGING_PAGES_def)
  have le: "page_refs ?s q \<le> 2" if "is_page q" for q
    using that by (cases "MAP_NR q = 256")
      (simp_all add: page_refs_def demo_mm_def demo_map_def is_page_def PAGING_PAGES_def)
  have sh: "sharable 1024 1 (unat (0x4000000 :: u32) div 0x400000) ?s"
    unfolding s16 sharable_def Let_def using man us refs le by (auto simp: s16) fastforce
  have emp: "\<forall>x. unat x < 1 * 0x400000 \<longrightarrow> even (dir_entry ?s (0x8000000 + x))"
  proof (intro allI impI)
    fix x :: u32 assume x: "unat x < 1 * 0x400000"
    have "unat (0x8000000 + x) div 0x400000 = 32"
      using x by (subst region_slots(1)) simp_all
    then have "dir_slot (0x8000000 + x) = 0x80" by (simp add: dir_slot_slot4(1) slot4_def)
    then show "even (dir_entry ?s (0x8000000 + x))" by (simp add: demo_dir demo_mm_def)
  qed
  have fr: "\<not> free_pages ?s < 1"
  proof -
    have "0 \<in> {k. k < PAGING_PAGES \<and> mem_map ?s ! k = 0}"
      by (simp add: demo_mm_def demo_map_def PAGING_PAGES_def)
    then show ?thesis unfolding free_pages_def by (auto simp: card_gt_0_iff)
  qed
  have n1: "(1::nat) = unat (drop_bit 22 (0x400000 + 0x3FFFFF :: u32))" by simp
  have isp: "is_page 0x200000" by (simp add: is_page_def LOW_MEM_def MAP_NR_def PAGING_PAGES_def)
  from copy_page_tables_shares [OF wf _ _ _ n1 _ _ _ sh emp] fr obtain t where
    t: "copy_page_tables 0x4000000 0x8000000 0x400000 ?s = Ok 0 t" "wf_mm t"
    "\<forall>x. unat x < 0x400000 \<longrightarrow> pte t (0x8000000 + x) = map_option wp (pte ?s (0x4000000 + x))"
    "page_refs t 0x200000 = page_refs ?s 0x200000 + (\<Sum>m = 16..<16 + 1. uses 1024 ?s (slot4 m) 0x200000)"
    unfolding s16(3) using isp refs [OF w(4)] by auto
  have "pte ?s 0x4000000 = Some 0x200005" using e [of 0] by (simp add: pte_slots)
  moreover have "pte t 0x8000000 = map_option wp (pte ?s 0x4000000)" using spec [OF t(3), of 0] by simp
  ultimately show ?thesis using t(1,2,4) us [of "0x200000"] unfolding s16(2) by (auto simp: refs w)
qed

end
