(* ===== verification/Malloc.thy ===== *)
theory Malloc
  imports Paging
begin

text \<open>
  The allocator of the kernel, \<open>lib/malloc.c\<close>, on the pages and the physical memory of theory \<open>Mm\<close>. A bucket
  descriptor is four words in memory; the list of free objects of a bucket runs through the first words
  of the objects. The static array \<open>bucket_dir\<close> is the list of its chain pointers, with the sizes as
  constants. Pointers are addresses, with 0 for \<open>NULL\<close>. A chain has at most one descriptor for each page
  of memory, which is the fuel of the searches.
\<close>

record mall = mm +
  chains :: "u32 list"
  free_bucket_desc :: u32

definition bucket_sizes :: "u32 list" where
  "bucket_sizes = [16, 32, 64, 128, 256, 512, 1024, 2048, 4096]"

definition DESC_FUEL :: nat where "DESC_FUEL = Suc PAGING_PAGES"

text \<open>The fields of a descriptor; \<open>refcnt\<close> and \<open>bucket_size\<close> share a word.\<close>

definition bd_page :: "u32 \<Rightarrow> 'a mm_scheme \<Rightarrow> u32" where "bd_page d s = phys s d"
definition bd_next :: "u32 \<Rightarrow> 'a mm_scheme \<Rightarrow> u32" where "bd_next d s = phys s (d + 4)"
definition bd_freeptr :: "u32 \<Rightarrow> 'a mm_scheme \<Rightarrow> u32" where "bd_freeptr d s = phys s (d + 8)"
definition bd_refcnt :: "u32 \<Rightarrow> 'a mm_scheme \<Rightarrow> u16" where "bd_refcnt d s = ucast (phys s (d + 12))"

definition set_refcnt :: "u32 \<Rightarrow> u16 \<Rightarrow> 'a mm_scheme \<Rightarrow> 'a mm_scheme" where
  "set_refcnt d v s = poke (d + 12) ((phys s (d + 12) AND 0xFFFF0000) OR ucast v) s"

definition set_bucket_size :: "u32 \<Rightarrow> u16 \<Rightarrow> 'a mm_scheme \<Rightarrow> 'a mm_scheme" where
  "set_bucket_size d v s = poke (d + 12) ((phys s (d + 12) AND 0xFFFF) OR push_bit 16 (ucast v)) s"

text \<open>Linking the descriptors of a new page; \<open>n\<close> more follow \<open>d\<close>. The result is the last one.\<close>

fun link_descs :: "nat \<Rightarrow> u32 \<Rightarrow> 'a mm_scheme \<Rightarrow> u32 \<times> 'a mm_scheme" where
  "link_descs 0 d s = (d, s)"
| "link_descs (Suc n) d s = link_descs n (d + 16) (poke (d + 4) (d + 16) s)"

definition init_bucket_desc :: "'a mall_scheme \<Rightarrow> (unit, 'a mall_scheme) res" where
  "init_bucket_desc s =
     bind (get_free_page s) (\<lambda>first s.
     if first = 0 then Panic ''Out of memory in init_bucket_desc()''
     else
       case link_descs 255 first s of (d, s) \<Rightarrow>
       let s = poke (d + 4) (free_bucket_desc s) s in
       Ok () (s\<lparr>free_bucket_desc := first\<rparr>))"

text \<open>The first descriptor of a chain with a free object, or 0.\<close>

fun find_free_desc :: "nat \<Rightarrow> u32 \<Rightarrow> 'a mm_scheme \<Rightarrow> (u32, 'a mm_scheme) res" where
  "find_free_desc 0 d s = Hang"
| "find_free_desc (Suc fuel) d s =
     (if d = 0 \<or> bd_freeptr d s \<noteq> 0 then Ok d s else find_free_desc fuel (bd_next d s) s)"

text \<open>The chain of free objects of a new page: \<open>n\<close> more follow the one at \<open>cp\<close>.\<close>

fun link_objects :: "nat \<Rightarrow> u32 \<Rightarrow> u32 \<Rightarrow> 'a mm_scheme \<Rightarrow> 'a mm_scheme" where
  "link_objects 0 sz cp s = poke cp 0 s"
| "link_objects (Suc n) sz cp s = link_objects n sz (cp + sz) (poke cp (cp + sz) s)"

definition new_bucket :: "nat \<Rightarrow> 'a mall_scheme \<Rightarrow> (u32, 'a mall_scheme) res" where
  "new_bucket b s =
     bind (if free_bucket_desc s = 0 then init_bucket_desc s else Ok () s) (\<lambda>_ s.
     let d = free_bucket_desc s;
         s = s\<lparr>free_bucket_desc := bd_next d s\<rparr>;
         s = set_bucket_size d (ucast (bucket_sizes ! b)) (set_refcnt d 0 s) in
     bind (get_free_page s) (\<lambda>cp s.
     let s = poke d cp (poke (d + 8) cp s) in
     if cp = 0 then Panic ''Out of memory in kernel malloc()''
     else
       let s = link_objects (unat (0x1000 div bucket_sizes ! b) - 1) (bucket_sizes ! b) cp s;
           s = poke (d + 4) (chains s ! b) s in
       Ok d (s\<lparr>chains := (chains s)[b := d]\<rparr>)))"

definition malloc :: "u32 \<Rightarrow> 'a mall_scheme \<Rightarrow> (u32, 'a mall_scheme) res" where
  "malloc len s =
     (case find_idx (\<lambda>sz. len \<le> sz) bucket_sizes of
        None \<Rightarrow> Panic ''malloc: bad arg''
      | Some b \<Rightarrow>
          bind (find_free_desc DESC_FUEL (chains s ! b) s) (\<lambda>d s.
          bind (if d = 0 then new_bucket b s else Ok d s) (\<lambda>d s.
          let retval = bd_freeptr d s;
              s = poke (d + 8) (phys s retval) s;
              s = set_refcnt d (bd_refcnt d s + 1) s in
          Ok retval s)))"

text \<open>The descriptor of a page on a chain with the one before it, or 0.\<close>

fun find_page_desc :: "nat \<Rightarrow> u32 \<Rightarrow> u32 \<Rightarrow> u32 \<Rightarrow> 'a mm_scheme \<Rightarrow> (u32 \<times> u32, 'a mm_scheme) res" where
  "find_page_desc 0 page prev d s = Hang"
| "find_page_desc (Suc fuel) page prev d s =
     (if d = 0 \<or> bd_page d s = page then Ok (prev, d) s
      else find_page_desc fuel page d (bd_next d s) s)"

text \<open>The buckets from number \<open>b\<close> on, those smaller than a known size left out.\<close>

fun find_bucket :: "nat list \<Rightarrow> u32 \<Rightarrow> int \<Rightarrow> 'a mall_scheme \<Rightarrow> ((nat \<times> u32 \<times> u32) option, 'a mall_scheme) res" where
  "find_bucket [] page sz s = Ok None s"
| "find_bucket (b # bs) page sz s =
     (if sint (bucket_sizes ! b) < sz then find_bucket bs page sz s
      else
        bind (find_page_desc DESC_FUEL page 0 (chains s ! b) s) (\<lambda>(prev, d) s.
        if d \<noteq> 0 then Ok (Some (b, prev, d)) s else find_bucket bs page sz s))"

text \<open>The search for the descriptor before \<open>d\<close>, made when \<open>prev\<close> is not.\<close>

fun find_prev :: "nat \<Rightarrow> u32 \<Rightarrow> u32 \<Rightarrow> 'a mm_scheme \<Rightarrow> (u32, 'a mm_scheme) res" where
  "find_prev 0 d prev s = Hang"
| "find_prev (Suc fuel) d prev s =
     (if prev = 0 \<or> bd_next prev s = d then Ok prev s else find_prev fuel d (bd_next prev s) s)"

definition unlink_desc :: "nat \<Rightarrow> u32 \<Rightarrow> u32 \<Rightarrow> 'a mall_scheme \<Rightarrow> (unit, 'a mall_scheme) res" where
  "unlink_desc b prev d s =
     bind (if prev \<noteq> 0 \<and> bd_next prev s \<noteq> d \<or> prev = 0 \<and> chains s ! b \<noteq> d
           then find_prev DESC_FUEL d (chains s ! b) s else Ok prev s) (\<lambda>prev s.
     if prev \<noteq> 0 then Ok () (poke (prev + 4) (bd_next d s) s)
     else if chains s ! b \<noteq> d then Panic ''malloc bucket chains corrupted''
     else Ok () (s\<lparr>chains := (chains s)[b := bd_next d s]\<rparr>))"

definition free_s :: "u32 \<Rightarrow> int \<Rightarrow> 'a mall_scheme \<Rightarrow> (unit, 'a mall_scheme) res" where
  "free_s obj sz s =
     bind (find_bucket [0..<9] (obj AND 0xFFFFF000) sz s) (\<lambda>r s.
     case r of
       None \<Rightarrow> Panic ''Bad address passed to kernel free_s()''
     | Some (b, prev, d) \<Rightarrow>
         let s = poke obj (bd_freeptr d s) s;
             s = poke (d + 8) obj s;
             s = set_refcnt d (bd_refcnt d s - 1) s in
         if bd_refcnt d s = 0 then
           bind (unlink_desc b prev d s) (\<lambda>_ s.
           bind (free_page (bd_page d s) s) (\<lambda>_ s.
           Ok () ((poke (d + 4) (free_bucket_desc s) s)\<lparr>free_bucket_desc := d\<rparr>)))
         else Ok () s)"

subsection \<open>Descriptors and the objects of a page\<close>

lemma desc_bits:
  "bit (x AND 15 :: u32) n \<longleftrightarrow> n < 4 \<and> bit x n" "bit (x AND 0xFFFFFFF0 :: u32) n \<longleftrightarrow> 4 \<le> n \<and> bit x n"
proof -
  have m: "(15 :: u32) = mask 4" "(0xFFFFFFF0 :: u32) = NOT (mask 4)" by (simp_all add: mask_eq_exp_minus_1)
  show "bit (x AND 15 :: u32) n \<longleftrightarrow> n < 4 \<and> bit x n" "bit (x AND 0xFFFFFFF0 :: u32) n \<longleftrightarrow> 4 \<le> n \<and> bit x n"
    unfolding m by (auto simp: bit_simps dest: bit_imp_le_length)
qed

lemma desc_zero:
  "(x :: u32) AND 15 = 0 \<longleftrightarrow> (\<forall>n < 4. \<not> bit x n)" "(x :: u32) AND 0xFFFFFFF0 = 0 \<longleftrightarrow> (\<forall>n \<ge> 4. \<not> bit x n)"
  unfolding bit_eq_iff [of "x AND 15"] bit_eq_iff [of "x AND 0xFFFFFFF0"] desc_bits
  using bit_imp_le_length [of x] by auto

lemma desc_parts:
  fixes d k :: u32
  assumes "d AND 15 = 0" and "k AND 0xFFFFFFF0 = 0"
  shows "(d + k) AND 15 = k" and "(d + k) AND 0xFFFFFFF0 = d" and "(d + k) AND 0xFFFFF000 = d AND 0xFFFFF000"
proof -
  have or: "d + k = d OR k"
    using assms unfolding desc_zero by (intro disjunctive_add) (meson not_le)
  have "bit k n \<Longrightarrow> n < 4" "bit d n \<Longrightarrow> 4 \<le> n" for n
    using assms unfolding desc_zero by (meson not_le)+
  then show "(d + k) AND 15 = k" "(d + k) AND 0xFFFFFFF0 = d" "(d + k) AND 0xFFFFF000 = d AND 0xFFFFF000"
    unfolding or by (rule_tac [!] bit_word_eqI) (fastforce simp: desc_bits bit_frame bit_or_iff)+
qed

lemma word_of_desc:
  fixes d e j k :: u32
  assumes "d AND 15 = 0" "e AND 15 = 0" "j AND 0xFFFFFFF0 = 0" "k AND 0xFFFFFFF0 = 0"
  shows "d + j = e + k \<longleftrightarrow> d = e \<and> j = k"
  by (metis assms desc_parts(1,2))

text \<open>The two halves of the last word of a descriptor.\<close>

lemma refcnt_bits:
  fixes w :: u32 and v :: u16
  shows "(ucast ((w AND 0xFFFF0000) OR ucast v) :: u16) = v"
    and "((w AND 0xFFFF0000) OR ucast v) AND 0xFFFF0000 = w AND 0xFFFF0000"
    and "(w AND 0xFFFF0000) OR ucast (ucast w :: u16) = w"
proof -
  have m: "(0xFFFF0000 :: u32) = NOT (mask 16)" by (simp add: mask_eq_exp_minus_1)
  show "(ucast ((w AND 0xFFFF0000) OR ucast v) :: u16) = v"
    unfolding m by (rule bit_word_eqI) (auto simp: bit_simps)
  show "((w AND 0xFFFF0000) OR ucast v) AND 0xFFFF0000 = w AND 0xFFFF0000"
    unfolding m by (rule bit_word_eqI) (auto simp: bit_simps dest: bit_imp_le_length)
  show "(w AND 0xFFFF0000) OR ucast (ucast w :: u16) = w"
    unfolding m by (rule bit_word_eqI) (auto simp: bit_simps dest: bit_imp_le_length)
qed

text \<open>Lists through memory: the descriptors of a chain, and the free objects of a page.\<close>

fun descs :: "'a mm_scheme \<Rightarrow> u32 \<Rightarrow> u32 list \<Rightarrow> bool" where
  "descs s p [] \<longleftrightarrow> p = 0"
| "descs s p (d # ds) \<longleftrightarrow> p = d \<and> d \<noteq> 0 \<and> descs s (bd_next d s) ds"

fun free_objs :: "'a mm_scheme \<Rightarrow> u32 \<Rightarrow> u32 list \<Rightarrow> bool" where
  "free_objs s p [] \<longleftrightarrow> p = 0"
| "free_objs s p (x # xs) \<longleftrightarrow> p = x \<and> x \<noteq> 0 \<and> free_objs s (phys s x) xs"

lemma descs_cong: "(\<And>d. d \<in> set ds \<Longrightarrow> bd_next d t = bd_next d s) \<Longrightarrow> descs t p ds = descs s p ds"
  by (induction ds arbitrary: p) auto

lemma free_objs_cong: "(\<And>x. x \<in> set xs \<Longrightarrow> phys t x = phys s x) \<Longrightarrow> free_objs t p xs = free_objs s p xs"
  by (induction xs arbitrary: p) auto

lemma free_objs_0: "free_objs s p xs \<Longrightarrow> p = 0 \<longleftrightarrow> xs = []"
  by (cases xs) auto

text \<open>
  The invariant of the allocator: bucket \<open>b\<close> has the descriptors \<open>D ! b\<close>, and \<open>F d\<close> are the free objects of
  the page of \<open>d\<close>. No two descriptors have the same page, no descriptor lies in a page of objects, and the
  reference count of a descriptor is the number of its objects that are in use, which is not 0.
\<close>

definition objects_per_page :: "nat \<Rightarrow> nat" where
  "objects_per_page b = 4096 div unat (bucket_sizes ! b)"

definition wf_desc :: "'a mm_scheme \<Rightarrow> (u32 \<Rightarrow> u32 list) \<Rightarrow> nat \<Rightarrow> u32 \<Rightarrow> bool" where
  "wf_desc s F b d \<longleftrightarrow> d AND 15 = 0 \<and> bd_refcnt d s \<noteq> 0 \<and>
     unat (bd_refcnt d s) + length (F d) = objects_per_page b \<and>
     free_objs s (bd_freeptr d s) (F d) \<and> distinct (F d) \<and>
     (\<forall>x \<in> set (F d). x AND 0xFFFFF000 = bd_page d s)"

definition wf_mall :: "'a mall_scheme \<Rightarrow> u32 list list \<Rightarrow> (u32 \<Rightarrow> u32 list) \<Rightarrow> bool" where
  "wf_mall s D F \<longleftrightarrow> length (chains s) = 9 \<and> length D = 9 \<and>
     (\<forall>b < 9. descs s (chains s ! b) (D ! b) \<and> length (D ! b) \<le> PAGING_PAGES \<and>
        (\<forall>d \<in> set (D ! b). wf_desc s F b d)) \<and>
     (\<forall>b < 9. \<forall>b' < 9. \<forall>d \<in> set (D ! b). \<forall>e \<in> set (D ! b').
        bd_page e s \<noteq> d AND 0xFFFFF000 \<and> (bd_page d s = bd_page e s \<longrightarrow> b = b' \<and> d = e))"

lemma find_free_desc_found:
  assumes "descs s p ds" and "length ds < fuel" and "\<exists>d \<in> set ds. bd_freeptr d s \<noteq> 0"
  shows "\<exists>d \<in> set ds. find_free_desc fuel p s = Ok d s \<and> bd_freeptr d s \<noteq> 0 \<and> d \<noteq> 0"
  using assms
proof (induction ds arbitrary: p fuel)
  case (Cons d ds)
  then show ?case by (cases fuel; cases "bd_freeptr d s = 0") auto
qed simp

lemma find_page_desc_none:
  "descs s p ds \<Longrightarrow> length ds < fuel \<Longrightarrow> (\<forall>d \<in> set ds. bd_page d s \<noteq> pg) \<Longrightarrow>
   \<exists>q. find_page_desc fuel pg prev p s = Ok (q, 0) s"
proof (induction ds arbitrary: p prev fuel)
  case (Cons d ds)
  then show ?case by (cases fuel) auto
qed (auto simp: gr0_conv_Suc)

lemma find_page_desc_found:
  "descs s p ds \<Longrightarrow> length ds < fuel \<Longrightarrow> d \<in> set ds \<Longrightarrow> bd_page d s = pg \<Longrightarrow>
   (\<forall>e \<in> set ds. bd_page e s = pg \<longrightarrow> e = d) \<Longrightarrow> \<exists>q. find_page_desc fuel pg prev p s = Ok (q, d) s"
proof (induction ds arbitrary: p prev fuel)
  case (Cons e ds)
  obtain f where f: "fuel = Suc f" "length ds < f" using Cons.prems(2) by (cases fuel) auto
  show ?case
  proof (cases "e = d")
    case True
    with Cons.prems(1,4) f show ?thesis by simp
  next
    case False
    have ne: "bd_page e s \<noteq> pg" using bspec [OF Cons.prems(5), of e] False by auto
    have d: "d \<in> set ds" using Cons.prems(3) False by auto
    have p: "p = e" "e \<noteq> 0" "descs s (bd_next e s) ds" using Cons.prems(1) by simp_all
    have u: "\<forall>e \<in> set ds. bd_page e s = pg \<longrightarrow> e = d" using Cons.prems(5) by (metis list.set_intros(2))
    obtain q where "find_page_desc f pg e (bd_next e s) s = Ok (q, d) s"
      using Cons.IH [OF p(3) f(2) d Cons.prems(4) u] by blast
    then show ?thesis using f(1) ne p by simp
  qed
qed simp

lemma find_bucket_found:
  assumes "\<And>b. b \<in> set bs \<Longrightarrow> descs s (chains s ! b) (D ! b) \<and> length (D ! b) < DESC_FUEL"
    and "b \<in> set bs" and "sz \<le> sint (bucket_sizes ! b)" and "d \<in> set (D ! b)" "d \<noteq> 0" and "bd_page d s = pg"
    and "\<And>b' e. b' \<in> set bs \<Longrightarrow> e \<in> set (D ! b') \<Longrightarrow> bd_page e s = pg \<Longrightarrow> b' = b \<and> e = d"
  shows "\<exists>q. find_bucket bs pg sz s = Ok (Some (b, q, d)) s"
  using assms
proof (induction bs)
  case Nil
  from Nil.prems(2) show ?case by simp
next
  case (Cons b' bs)
  have pre: "descs s (chains s ! b') (D ! b')" "length (D ! b') < DESC_FUEL" using Cons.prems(1) by simp_all
  show ?case
  proof (cases "b' = b")
    case True
    have "\<forall>e \<in> set (D ! b'). bd_page e s = pg \<longrightarrow> e = d" using Cons.prems(7) [of b'] by auto
    then obtain q where "find_page_desc DESC_FUEL pg 0 (chains s ! b') s = Ok (q, d) s"
      using find_page_desc_found [OF pre _ Cons.prems(6)] Cons.prems(4) True by blast
    with True Cons.prems(3,5) show ?thesis by simp
  next
    case False
    then have "\<forall>e \<in> set (D ! b'). bd_page e s \<noteq> pg" using Cons.prems(7) [of b'] by auto
    then obtain q where "find_page_desc DESC_FUEL pg 0 (chains s ! b') s = Ok (q, 0) s"
      using find_page_desc_none [OF pre] by blast
    moreover have "\<exists>q. find_bucket bs pg sz s = Ok (Some (b, q, d)) s"
    proof (rule Cons.IH)
      show "b \<in> set bs" using Cons.prems(2) False by simp
      show "b'' = b \<and> e = d" if "b'' \<in> set bs" "e \<in> set (D ! b'')" "bd_page e s = pg" for b'' e
        using Cons.prems(7) [of b'' e] that by simp
    qed (use Cons.prems(1,3-6) in auto)
    ultimately show ?thesis by auto
  qed
qed

lemma descs_nz: "descs s p ds \<Longrightarrow> d \<in> set ds \<Longrightarrow> d \<noteq> 0"
  by (induction ds arbitrary: p) auto

lemma wf_mallD:
  assumes "wf_mall s D F" and "b < 9" and "d \<in> set (D ! b)"
  shows "wf_desc s F b d" and "d \<noteq> 0"
    and "\<And>b' e. b' < 9 \<Longrightarrow> e \<in> set (D ! b') \<Longrightarrow> bd_page e s = bd_page d s \<Longrightarrow> b' = b \<and> e = d"
    and "\<And>b' e. b' < 9 \<Longrightarrow> e \<in> set (D ! b') \<Longrightarrow> bd_page e s \<noteq> d AND 0xFFFFF000"
    and "\<And>b' e. b' < 9 \<Longrightarrow> e \<in> set (D ! b') \<Longrightarrow> bd_page d s \<noteq> e AND 0xFFFFF000"
proof -
  have W: "descs s (chains s ! b) (D ! b)" "wf_desc s F b d"
    and V: "\<And>b' e. b' < 9 \<Longrightarrow> e \<in> set (D ! b') \<Longrightarrow> bd_page e s \<noteq> d AND 0xFFFFF000 \<and> (bd_page d s = bd_page e s \<longrightarrow> b = b' \<and> d = e)"
    and V': "\<And>b' e. b' < 9 \<Longrightarrow> e \<in> set (D ! b') \<Longrightarrow> bd_page d s \<noteq> e AND 0xFFFFF000"
    using assms unfolding wf_mall_def by blast+
  show "wf_desc s F b d" by (rule W)
  show "d \<noteq> 0" using descs_nz [OF W(1) assms(3)] .
  show "b' = b \<and> e = d" if "b' < 9" "e \<in> set (D ! b')" "bd_page e s = bd_page d s" for b' e
    using V [OF that(1,2)] that(3) by metis
  show "bd_page e s \<noteq> d AND 0xFFFFF000" if "b' < 9" "e \<in> set (D ! b')" for b' e
    using V [OF that] by blast
  show "bd_page d s \<noteq> e AND 0xFFFFF000" if "b' < 9" "e \<in> set (D ! b')" for b' e
    using V' [OF that] .
qed

text \<open>Taking the first free object of a descriptor: what the rest of the memory sees of it.\<close>

definition take_obj :: "u32 \<Rightarrow> 'a mm_scheme \<Rightarrow> 'a mm_scheme" where
  "take_obj d s = set_refcnt d (bd_refcnt d s + 1) (poke (d + 8) (phys s (bd_freeptr d s)) s)"

lemma take_obj_phys:
  "phys (take_obj d s) = (phys s)(d + 8 := phys s (bd_freeptr d s),
     d + 12 := (phys s (d + 12) AND 0xFFFF0000) OR ucast (bd_refcnt d s + 1))"
  by (simp add: take_obj_def set_refcnt_def poke_def)

lemma take_obj_spec:
  assumes "d AND 15 = 0" and "e AND 15 = 0"
  shows "bd_page e (take_obj d s) = bd_page e s" and "bd_next e (take_obj d s) = bd_next e s"
    and "bd_freeptr e (take_obj d s) = (if e = d then phys s (bd_freeptr d s) else bd_freeptr e s)"
    and "bd_refcnt e (take_obj d s) = (if e = d then bd_refcnt d s + 1 else bd_refcnt e s)"
    and "x AND 0xFFFFF000 \<noteq> d AND 0xFFFFF000 \<Longrightarrow> phys (take_obj d s) x = phys s x"
proof -
  have k: "(4 :: u32) AND 0xFFFFFFF0 = 0" "(8 :: u32) AND 0xFFFFFFF0 = 0" "(12 :: u32) AND 0xFFFFFFF0 = 0"
    "(0 :: u32) AND 0xFFFFFFF0 = 0" by simp_all
  have e0: "e = d + 8 \<longleftrightarrow> False" "e = d + 12 \<longleftrightarrow> False"
    using word_of_desc [OF assms(2,1) k(4) k(2)] word_of_desc [OF assms(2,1) k(4) k(3)] by simp_all
  note w = word_of_desc [OF assms(2,1)]
  show "bd_page e (take_obj d s) = bd_page e s"
    unfolding bd_page_def take_obj_phys by (simp add: e0)
  show "bd_next e (take_obj d s) = bd_next e s"
    unfolding bd_next_def take_obj_phys fun_upd_apply w [OF k(1,2)] w [OF k(1,3)] by simp
  show "bd_freeptr e (take_obj d s) = (if e = d then phys s (bd_freeptr d s) else bd_freeptr e s)"
    unfolding bd_freeptr_def take_obj_phys fun_upd_apply w [OF k(2,2)] w [OF k(2,3)] by simp
  show "bd_refcnt e (take_obj d s) = (if e = d then bd_refcnt d s + 1 else bd_refcnt e s)"
    unfolding bd_refcnt_def take_obj_phys fun_upd_apply w [OF k(3,2)] w [OF k(3,3)] by (simp add: refcnt_bits)
  assume "x AND 0xFFFFF000 \<noteq> d AND 0xFFFFF000"
  then have "x \<noteq> d + 8" "x \<noteq> d + 12" using desc_parts(3) [OF assms(1)] k by metis+
  then show "phys (take_obj d s) x = phys s x" by (simp add: take_obj_phys)
qed

lemma mall_poke [simp]:
  "chains (poke a v s) = chains s" "free_bucket_desc (poke a v s) = free_bucket_desc s"
  "chains (take_obj d s) = chains s" "free_bucket_desc (take_obj d s) = free_bucket_desc s"
  by (simp_all add: poke_def take_obj_def set_refcnt_def)

lemma less_9: "b < 9 \<longleftrightarrow> b = 0 \<or> b = 1 \<or> b = 2 \<or> b = 3 \<or> b = 4 \<or> b = 5 \<or> b = 6 \<or> b = 7 \<or> b = (8 :: nat)"
  by linarith

lemma bucket_less: "find_idx (\<lambda>sz. len \<le> sz) bucket_sizes = Some b \<Longrightarrow> b < 9"
  by (auto simp: find_idx_Some_iff bucket_sizes_def)

lemma objects_le: "b < 9 \<Longrightarrow> objects_per_page b \<le> 256"
  unfolding less_9 by (elim disjE) (simp_all add: objects_per_page_def bucket_sizes_def)

text \<open>The object goes back: the state is the one before it was taken.\<close>

lemma put_back:
  assumes d: "d AND 15 = 0" and x: "x = bd_freeptr d s" "x AND 0xFFFFF000 \<noteq> d AND 0xFFFFF000"
  defines "t \<equiv> take_obj d s"
  defines "u \<equiv> poke (d + 8) x (poke x (bd_freeptr d t) t)"
  shows "bd_refcnt d u - 1 = bd_refcnt d s" and "set_refcnt d (bd_refcnt d u - 1) u = s"
proof -
  have k: "(4 :: u32) AND 0xFFFFFFF0 = 0" "(8 :: u32) AND 0xFFFFFFF0 = 0" "(12 :: u32) AND 0xFFFFFFF0 = 0" by simp_all
  have "d + 8 \<noteq> d + 12" using word_of_desc [OF d d k(2,3)] by simp
  moreover have "x \<noteq> d + 8" "x \<noteq> d + 12" using desc_parts(3) [OF d] k x(2) by metis+
  ultimately have ne: "d + 8 \<noteq> d + 12" "x \<noteq> d + 8" "x \<noteq> d + 12" .
  have r: "bd_refcnt d u = bd_refcnt d s + 1"
    using take_obj_spec(4) [OF d d, of s] ne by (simp add: bd_refcnt_def u_def t_def)
  then show "bd_refcnt d u - 1 = bd_refcnt d s" by simp
  have u12: "phys u (d + 12) = (phys s (d + 12) AND 0xFFFF0000) OR ucast (bd_refcnt d s + 1)"
    using ne by (simp add: u_def t_def take_obj_phys)
  have "phys (set_refcnt d (bd_refcnt d u - 1) u) = phys s"
  proof
    fix y
    have "phys (set_refcnt d (bd_refcnt d u - 1) u) y =
      (if y = d + 12 then (phys s (d + 12) AND 0xFFFF0000) OR ucast (bd_refcnt d s) else phys u y)"
      unfolding set_refcnt_def r by (simp add: u12 refcnt_bits)
    also have "\<dots> = phys s y"
      using ne x(1) take_obj_spec(3) [OF d d, of s]
      by (simp add: u_def t_def take_obj_phys bd_refcnt_def refcnt_bits) (simp add: bd_freeptr_def)
    finally show "phys (set_refcnt d (bd_refcnt d u - 1) u) y = phys s y" .
  qed
  moreover have "set_refcnt d (bd_refcnt d u - 1) u = s\<lparr>phys := phys (set_refcnt d (bd_refcnt d u - 1) u)\<rparr>"
    by (simp add: set_refcnt_def u_def t_def take_obj_def poke_def)
  ultimately show "set_refcnt d (bd_refcnt d u - 1) u = s" by simp
qed

lemma take_obj_wf:
  assumes wf: "wf_mall s D F" and b: "b < 9" and d: "d \<in> set (D ! b)" and F: "F d = x # xs"
  shows "wf_mall (take_obj d s) D (F(d := xs))"
proof -
  let ?t = "take_obj d s"
  note W = wf_mallD [OF wf b d]
  have al: "e AND 15 = 0" if "b' < 9" "e \<in> set (D ! b')" for b' e
    using wf_mallD(1) [OF wf that] by (simp add: wf_desc_def)
  note T = take_obj_spec [where s = s, OF al [OF b d] al]
  have x: "x = bd_freeptr d s" "free_objs s (phys s x) xs" using W(1) F by (auto simp: wf_desc_def)
  have mem: "phys ?t y = phys s y" if "b' < 9" "e \<in> set (D ! b')" "y AND 0xFFFFF000 = bd_page e s" for b' e y
    using T(5) [OF that(1,2)] W(4) [OF that(1,2)] that(3) by metis
  have desc: "wf_desc ?t (F(d := xs)) b' e" if e: "b' < 9" "e \<in> set (D ! b')" for b' e
  proof -
    have we: "wf_desc s F b' e" by (rule wf_mallD(1) [OF wf e])
    show ?thesis
    proof (cases "e = d")
      case True
      have bb: "b' = b" using W(3) [OF e] True by blast
      have lt: "unat (bd_refcnt d s) + 1 \<le> 256" using W(1) F objects_le [OF b] by (simp add: wf_desc_def)
      have "unat (bd_refcnt d s + 1) = unat (bd_refcnt d s) + 1"
        using lt by (simp add: unat_word_ariths)
      moreover from this have "bd_refcnt d s + 1 \<noteq> 0" by (metis unat_0 add_is_0 one_neq_zero)
      moreover have "free_objs ?t (phys s x) xs"
        using x(2) mem [OF b d] W(1) F by (subst free_objs_cong [of xs _ s]) (auto simp: wf_desc_def)
      ultimately show ?thesis
        using we F T(1,3,4) [OF e] x(1) unfolding True bb wf_desc_def by auto
    next
      case False
      have "free_objs ?t (bd_freeptr e s) (F e)"
        using we mem [OF e] by (subst free_objs_cong [of "F e" _ s]) (auto simp: wf_desc_def)
      then show ?thesis
        using we False T [OF e] unfolding wf_desc_def by auto
    qed
  qed
  have ch: "descs ?t (chains ?t ! b') (D ! b')" if "b' < 9" for b'
    using wf that T(2) [OF that] by (subst descs_cong [of "D ! b'" _ s]) (auto simp: wf_mall_def)
  show ?thesis
    unfolding wf_mall_def
  proof (intro conjI allI impI ballI)
    fix b1 b2 d1 d2 assume *: "b1 < 9" "b2 < 9" "d1 \<in> set (D ! b1)" "d2 \<in> set (D ! b2)"
    note W1 = wf_mallD [OF wf *(1,3)]
    show "bd_page d2 ?t \<noteq> d1 AND 0xFFFFF000" using W1(4) [OF *(2,4)] T(1) [OF *(2,4)] by simp
    assume "bd_page d1 ?t = bd_page d2 ?t"
    then have "bd_page d2 s = bd_page d1 s" using T(1) [OF *(2,4)] T(1) [OF *(1,3)] by simp
    from W1(3) [OF *(2,4) this] show "b1 = b2" "d1 = d2" by simp_all
  qed (use wf desc ch in \<open>simp_all add: wf_mall_def\<close>)
qed

text \<open>C11: \<open>malloc\<close> and \<open>free_s\<close> undo each other: on a well-formed allocator that has a free object of the
  size, \<open>malloc\<close> returns the first free object of one of the descriptors of the smallest bucket that is large
  enough, the allocator stays well formed with that object no longer free, and \<open>free_s\<close> of it, with the size
  0 or any size up to that of the bucket, gives back exactly the state of before.\<close>

theorem malloc_free_roundtrip:
  assumes wf: "wf_mall s D F" and b: "find_idx (\<lambda>sz. len \<le> sz) bucket_sizes = Some b"
    and ex: "e \<in> set (D ! b)" "F e \<noteq> []"
  shows "\<exists>d \<in> set (D ! b). \<exists>x xs t. F d = x # xs \<and> malloc len s = Ok x t \<and> wf_mall t D (F(d := xs)) \<and>
    (\<forall>sz \<le> sint (bucket_sizes ! b). free_s x sz t = Ok () s)"
proof -
  have b9: "b < 9" by (rule bucket_less [OF b])
  have ch: "descs s (chains s ! b') (D ! b')" "length (D ! b') < DESC_FUEL" if "b' < 9" for b'
    using wf that by (auto simp: wf_mall_def DESC_FUEL_def less_Suc_eq_le)
  have free: "bd_freeptr d s = 0 \<longleftrightarrow> F d = []" if "d \<in> set (D ! b)" for d
    using wf_mallD(1) [OF wf b9 that] free_objs_0 by (auto simp: wf_desc_def)
  obtain d where d: "d \<in> set (D ! b)" "find_free_desc DESC_FUEL (chains s ! b) s = Ok d s" "bd_freeptr d s \<noteq> 0" "d \<noteq> 0"
    using find_free_desc_found [OF ch [OF b9]] ex free by blast
  then obtain x xs where F: "F d = x # xs" using free by (cases "F d") auto
  note W = wf_mallD [OF wf b9 d(1)]
  have x: "x = bd_freeptr d s" "x AND 0xFFFFF000 = bd_page d s" and al: "d AND 15 = 0"
    using W(1) F by (auto simp: wf_desc_def)
  have xd: "x AND 0xFFFFF000 \<noteq> d AND 0xFFFFF000" using W(4) [OF b9 d(1)] x(2) by simp
  let ?t = "take_obj d s"
  have k: "(8 :: u32) AND 0xFFFFFFF0 = 0" "(12 :: u32) AND 0xFFFFFFF0 = 0" by simp_all
  have "bd_refcnt d (poke (d + 8) v s) = bd_refcnt d s" for v
    using word_of_desc [OF al al k] by (simp add: bd_refcnt_def)
  then have mal: "malloc len s = Ok x ?t"
    using d x(1) by (simp add: malloc_def b take_obj_def Let_def)
  have wft: "wf_mall ?t D (F(d := xs))" by (rule take_obj_wf [OF wf b9 d(1) F])
  have "free_s x sz ?t = Ok () s" if sz: "sz \<le> sint (bucket_sizes ! b)" for sz
  proof -
    note V = wf_mallD [OF wft b9 d(1)]
    have page: "bd_page d ?t = x AND 0xFFFFF000" using take_obj_spec(1) [OF al al] x(2) by simp
    have "\<exists>q. find_bucket [0..<9] (x AND 0xFFFFF000) sz ?t = Ok (Some (b, q, d)) ?t"
    proof (rule find_bucket_found [OF _ _ sz d(1,4) page])
      show "descs ?t (chains ?t ! b') (D ! b') \<and> length (D ! b') < DESC_FUEL" if "b' \<in> set [0..<9]" for b'
        using wft that by (simp add: wf_mall_def DESC_FUEL_def less_Suc_eq_le)
      show "b \<in> set [0..<9]" using b9 by simp
      show "b' = b \<and> e = d" if "b' \<in> set [0..<9]" "e \<in> set (D ! b')" "bd_page e ?t = x AND 0xFFFFF000" for b' e
        using V(3) [of b' e] that page by simp
    qed
    then obtain q where q: "find_bucket [0..<9] (x AND 0xFFFFF000) sz ?t = Ok (Some (b, q, d)) ?t" ..
    note P = put_back [OF al x(1) xd]
    have "bd_refcnt d s \<noteq> 0" using W(1) by (simp add: wf_desc_def)
    then show ?thesis
      unfolding free_s_def q bind.simps Let_def option.case prod.case P(2) by simp
  qed
  then show ?thesis using d(1) F mal wft by blast
qed

definition demo_mall :: mall where
  "demo_mall = \<lparr>mem_map = [], HIGH_MEMORY = 0x1000000,
     phys = (\<lambda>_. 0)(0x1000 := 0x200000, 0x1008 := 0x200800, 0x100C := 0x08000001),
     chains = [0, 0, 0, 0, 0, 0, 0, 0x1000, 0], free_bucket_desc = 0\<rparr>"

theorem malloc_free_roundtrip_witness:
  "\<exists>t. malloc 1500 demo_mall = Ok 0x200800 t \<and> free_s 0x200800 1500 t = Ok () demo_mall"
proof -
  let ?D = "[[], [], [], [], [], [], [], [0x1000], []] :: u32 list list" and ?F = "\<lambda>_. [0x200800 :: u32]"
  have d7: "b < 9 \<Longrightarrow> set (?D ! b) = (if b = 7 then {0x1000} else {})" for b :: nat
    unfolding less_9 by (elim disjE) simp_all
  have len: "length (?D ! b) \<le> 3840" if "b < 9" for b :: nat
    using that unfolding less_9 by (elim disjE) simp_all
  have desc: "wf_desc demo_mall ?F 7 0x1000"
    by (simp add: wf_desc_def demo_mall_def bd_refcnt_def bd_freeptr_def bd_page_def objects_per_page_def
        bucket_sizes_def)
  have ch: "descs demo_mall (chains demo_mall ! b) (?D ! b)" if "b < 9" for b
    using that unfolding less_9 by (elim disjE) (simp_all add: demo_mall_def bd_next_def)
  have wf: "wf_mall demo_mall ?D ?F"
    unfolding wf_mall_def using ch desc len
    by (auto simp: d7 bd_page_def demo_mall_def PAGING_PAGES_def)
  have b: "find_idx (\<lambda>sz. (1500 :: u32) \<le> sz) bucket_sizes = Some 7"
    by (simp add: bucket_sizes_def find_idx_def)
  have "sint (bucket_sizes ! 7) = 2048" by (simp add: bucket_sizes_def)
  with malloc_free_roundtrip [OF wf b, of "0x1000"] show ?thesis by (auto simp: d7)
qed

end
