(* ===== verification/Hd.thy ===== *)
theory Hd
  imports Mount Screen ReadWrite
begin

text \<open>
  The driver of the hard disk, \<open>kernel/blk_drv/hd.c\<close>, with the loading of the RAM disk from \<open>ramdisk.c\<close>, the
  macros of \<open>include/asm/io.h\<close> and the interrupt entry of \<open>kernel/system_call.s\<close>. The controller is the
  environment: what the n-th input instruction reads from a port is \<open>port_in\<close>, and what the driver writes
  to the ports is appended to \<open>outputs\<close>. The function pointer \<open>do_hd\<close> is one of three handlers or \<open>NULL\<close>.
  Delay loops and messages have no effect here.
\<close>

subsection \<open>Ports\<close>

datatype hd_intr = Read_intr | Write_intr | Recal_intr

record hd_i_struct =
  hd_head :: u32
  hd_sect :: u32
  hd_cyl :: u32
  hd_wpcom :: u32
  hd_lzone :: u32
  hd_ctl :: u32

record hd_struct =
  start_sect :: u32
  nr_sects :: u32

record hds = kst +
  port_in :: "nat \<Rightarrow> u16 \<Rightarrow> u16"
  inputs :: nat
  outputs :: "(u16 \<times> u16) list"
  recalibrate :: bool
  reset :: bool
  hd_info :: "hd_i_struct list"
  NR_HD :: nat
  hd_parts :: "hd_struct list"
  do_hd :: "hd_intr option"
  callable :: bool

definition port_inb :: "u16 \<Rightarrow> 'a hds_scheme \<Rightarrow> u8 \<times> 'a hds_scheme" where
  "port_inb p s = (ucast (port_in s (inputs s) p), s\<lparr>inputs := Suc (inputs s)\<rparr>)"

definition port_outb :: "u32 \<Rightarrow> u16 \<Rightarrow> 'a hds_scheme \<Rightarrow> 'a hds_scheme" where
  "port_outb v p s = s\<lparr>outputs := outputs s @ [(p, ucast v AND 0xFF)]\<rparr>"

definition port_read :: "u16 \<Rightarrow> nat \<Rightarrow> 'a hds_scheme \<Rightarrow> u16 list \<times> 'a hds_scheme" where
  "port_read p n s =
     (List.map (\<lambda>k. port_in s (inputs s + k) p) [0..<n], s\<lparr>inputs := inputs s + n\<rparr>)"

definition port_write :: "u16 \<Rightarrow> u16 list \<Rightarrow> 'a hds_scheme \<Rightarrow> 'a hds_scheme" where
  "port_write p ws s = s\<lparr>outputs := outputs s @ List.map (Pair p) ws\<rparr>"

definition CMOS_READ :: "u32 \<Rightarrow> 'a hds_scheme \<Rightarrow> u8 \<times> 'a hds_scheme" where
  "CMOS_READ addr s = port_inb 0x71 (port_outb (0x80 OR addr) 0x70 s)"

definition HD_DATA :: u16 where "HD_DATA = 0x1F0"
definition HD_ERROR :: u16 where "HD_ERROR = 0x1F1"
definition HD_STATUS :: u16 where "HD_STATUS = 0x1F7"
definition HD_CMD :: u16 where "HD_CMD = 0x3F6"

definition ERR_STAT :: u8 where "ERR_STAT = 0x01"
definition DRQ_STAT :: u8 where "DRQ_STAT = 0x08"
definition SEEK_STAT :: u8 where "SEEK_STAT = 0x10"
definition WRERR_STAT :: u8 where "WRERR_STAT = 0x20"
definition READY_STAT :: u8 where "READY_STAT = 0x40"
definition BUSY_STAT :: u8 where "BUSY_STAT = 0x80"

definition WIN_RESTORE :: u32 where "WIN_RESTORE = 0x10"
definition WIN_READ :: u32 where "WIN_READ = 0x20"
definition WIN_WRITE :: u32 where "WIN_WRITE = 0x30"
definition WIN_SPECIFY :: u32 where "WIN_SPECIFY = 0x91"

definition MAX_ERRORS :: int where "MAX_ERRORS = 7"

text \<open>The bytes of the words a string instruction moves, and the words of a buffer.\<close>

definition word_bytes :: "u16 list \<Rightarrow> u8 list" where
  "word_bytes ws = concat (List.map (\<lambda>w. [ucast w, ucast (drop_bit 8 w)]) ws)"

fun words :: "u8 list \<Rightarrow> u16 list" where
  "words (a # b # xs) = (ucast a OR push_bit 8 (ucast b)) # words xs"
| "words xs = []"

subsection \<open>The controller\<close>

text \<open>The loop of \<open>controller_ready\<close> that has \<open>n\<close> more reads of the status; whether it ended early.\<close>

fun ready_loop :: "nat \<Rightarrow> 'a hds_scheme \<Rightarrow> bool \<times> 'a hds_scheme" where
  "ready_loop 0 s = (False, s)"
| "ready_loop (Suc n) s =
     (case port_inb HD_STATUS s of (v, s) \<Rightarrow> if v AND 0xC0 = 0x40 then (True, s) else ready_loop n s)"

definition controller_ready :: "'a hds_scheme \<Rightarrow> bool \<times> 'a hds_scheme" where
  "controller_ready = ready_loop 9999"

definition win_result :: "'a hds_scheme \<Rightarrow> bool \<times> 'a hds_scheme" where
  "win_result s =
     (case port_inb HD_STATUS s of (i, s) \<Rightarrow>
      if i AND (BUSY_STAT OR READY_STAT OR WRERR_STAT OR SEEK_STAT OR ERR_STAT) = READY_STAT OR SEEK_STAT
      then (False, s)
      else (True, if i AND 1 \<noteq> 0 then snd (port_inb HD_ERROR s) else s))"

definition hd_out ::
    "nat \<Rightarrow> u32 \<Rightarrow> u32 \<Rightarrow> u32 \<Rightarrow> u32 \<Rightarrow> u32 \<Rightarrow> hd_intr \<Rightarrow> 'a hds_scheme \<Rightarrow> (unit, 'a hds_scheme) res" where
  "hd_out drive nsect sect head cyl cmd intr_addr s =
     (if 1 < drive \<or> 15 < head then Panic ''Trying to write bad sector''
      else
        case controller_ready s of (ok, s) \<Rightarrow>
        if \<not> ok then Panic ''HD controller not ready''
        else
          let s = s\<lparr>do_hd := Some intr_addr\<rparr>;
              s = port_outb (hd_ctl (hd_info s ! drive)) HD_CMD s;
              s = port_outb (drop_bit 2 (hd_wpcom (hd_info s ! drive))) (HD_DATA + 1) s;
              s = port_outb nsect (HD_DATA + 2) s;
              s = port_outb sect (HD_DATA + 3) s;
              s = port_outb cyl (HD_DATA + 4) s;
              s = port_outb (drop_bit 8 cyl) (HD_DATA + 5) s;
              s = port_outb (0xA0 OR push_bit 4 (of_nat drive) OR head) (HD_DATA + 6) s in
          Ok () (port_outb cmd (HD_DATA + 7) s))"

fun busy_loop :: "nat \<Rightarrow> 'a hds_scheme \<Rightarrow> 'a hds_scheme" where
  "busy_loop 0 s = s"
| "busy_loop (Suc n) s =
     (case port_inb HD_STATUS s of (v, s) \<Rightarrow>
      if READY_STAT = v AND (BUSY_STAT OR READY_STAT) then s else busy_loop n s)"

definition drive_busy :: "'a hds_scheme \<Rightarrow> bool \<times> 'a hds_scheme" where
  "drive_busy s =
     (case port_inb HD_STATUS (busy_loop 10000 s) of (i, s) \<Rightarrow>
      (i AND (BUSY_STAT OR READY_STAT OR SEEK_STAT) \<noteq> READY_STAT OR SEEK_STAT, s))"

definition reset_controller :: "'a hds_scheme \<Rightarrow> 'a hds_scheme" where
  "reset_controller s =
     (let s = port_outb 4 HD_CMD s;
          s = port_outb (hd_ctl (hd_info s ! 0) AND 0x0F) HD_CMD s;
          s = snd (drive_busy s) in
      snd (port_inb HD_ERROR s))"

definition reset_hd :: "nat \<Rightarrow> 'a hds_scheme \<Rightarrow> (unit, 'a hds_scheme) res" where
  "reset_hd nr s =
     (let s = reset_controller s; info = hd_info s ! nr in
      hd_out nr (hd_sect info) (hd_sect info) (hd_head info - 1) (hd_cyl info) WIN_SPECIFY Recal_intr s)"

subsection \<open>Requests\<close>

text \<open>
  An error of the current request. After its last one the request is ended, and the code reads the
  error count of the next one, or, when there is none, the word at address 8.
\<close>

definition bad_rw_intr :: "'a hds_scheme \<Rightarrow> (unit, 'a hds_scheme) res" where
  "bad_rw_intr s =
     (case current_request s ! 3 of
        None \<Rightarrow> Fault ''CURRENT''
      | Some r \<Rightarrow>
          let s = set_rq r (\<lambda>x. x\<lparr>rq_errors := rq_errors x + 1\<rparr>) s;
              s = (if MAX_ERRORS \<le> rq_errors (rq s r) then end_request 3 r False s else s);
              errors = (case current_request s ! 3 of None \<Rightarrow> sint (phys s 8) | Some r \<Rightarrow> rq_errors (rq s r)) in
          Ok () (if MAX_ERRORS div 2 < errors then s\<lparr>reset := True\<rparr> else s))"

text \<open>The two divisions that turn a block number into cylinder, head and sector.\<close>

definition chs :: "hd_i_struct \<Rightarrow> u32 \<Rightarrow> u32 \<times> u32 \<times> u32" where
  "chs info block =
     (let track = block div hd_sect info; sec = block mod hd_sect info in
      (track div hd_head info, track mod hd_head info, sec + 1))"

fun wait_drq :: "nat \<Rightarrow> 'a hds_scheme \<Rightarrow> bool \<times> 'a hds_scheme" where
  "wait_drq 0 s = (False, s)"
| "wait_drq (Suc n) s =
     (case port_inb HD_STATUS s of (v, s) \<Rightarrow> if v AND DRQ_STAT \<noteq> 0 then (True, s) else wait_drq n s)"

text \<open>\<open>port_write(HD_DATA, CURRENT->buffer, 256)\<close> for request \<open>r\<close>.\<close>

definition write_sector :: "nat \<Rightarrow> 'a hds_scheme \<Rightarrow> (unit, 'a hds_scheme) res" where
  "write_sector r s =
     (case rq_bh (rq s r) of
        None \<Rightarrow> Fault ''buffer''
      | Some b \<Rightarrow>
          if length (b_data (bf s b)) < rq_buffer (rq s r) + 512 then Fault ''buffer''
          else Ok () (port_write HD_DATA (words (take 512 (drop (rq_buffer (rq s r)) (b_data (bf s b))))) s))"

definition read_sector :: "nat \<Rightarrow> 'a hds_scheme \<Rightarrow> (unit, 'a hds_scheme) res" where
  "read_sector r s =
     (case rq_bh (rq s r) of
        None \<Rightarrow> Fault ''buffer''
      | Some b \<Rightarrow>
          let off = rq_buffer (rq s r) in
          if length (b_data (bf s b)) < off + 512 then Fault ''buffer''
          else
            case port_read HD_DATA 256 s of (ws, s) \<Rightarrow>
            Ok () (set_bf b (\<lambda>x. x\<lparr>b_data := take off (b_data x) @ word_bytes ws @ drop (off + 512) (b_data x)\<rparr>) s))"

fun do_hd_request :: "nat \<Rightarrow> 'a hds_scheme \<Rightarrow> (unit, 'a hds_scheme) res" where
  "do_hd_request 0 s = Hang"
| "do_hd_request (Suc fuel) s =
     (case current_request s ! 3 of
        None \<Rightarrow> Ok () s
      | Some r \<Rightarrow>
          let q = rq s r; dev = MINOR (of_int (rq_dev q)); block = rq_sector q in
          if MAJOR (of_int (rq_dev q)) \<noteq> 3 then Panic ''harddisk: request list destroyed''
          else if (case rq_bh q of None \<Rightarrow> False | Some b \<Rightarrow> \<not> b_lock (bf s b))
          then Panic ''harddisk: block not locked''
          else if 5 * NR_HD s \<le> dev \<or> nr_sects (hd_parts s ! dev) < block + 2
          then do_hd_request fuel (end_request 3 r False s)
          else
            let block = block + start_sect (hd_parts s ! dev); drive = dev div 5; info = hd_info s ! drive in
            if hd_sect info = 0 \<or> hd_head info = 0 then Fault ''divide error''
            else
              case chs info block of (cyl, head, sec) \<Rightarrow>
              if reset s then reset_hd drive (s\<lparr>reset := False, recalibrate := True\<rparr>)
              else if recalibrate s
              then hd_out drive (hd_sect info) 0 0 0 WIN_RESTORE Recal_intr (s\<lparr>recalibrate := False\<rparr>)
              else if rq_cmd q = WRITE then
                bind (hd_out drive (rq_nr_sectors q) sec head cyl WIN_WRITE Write_intr s) (\<lambda>_ s.
                case wait_drq 3000 s of (drq, s) \<Rightarrow>
                if \<not> drq then bind (bad_rw_intr s) (\<lambda>_ s. do_hd_request fuel s)
                else write_sector r s)
              else if rq_cmd q = READ
              then hd_out drive (rq_nr_sectors q) sec head cyl WIN_READ Read_intr s
              else Panic ''unknown hd-command'')"

text \<open>A request takes at most seven rounds that fail before it is ended.\<close>

definition HD_FUEL :: nat where "HD_FUEL = 8 * NR_REQUEST + 8"

definition read_intr :: "'a hds_scheme \<Rightarrow> (unit, 'a hds_scheme) res" where
  "read_intr s =
     (case win_result s of (bad, s) \<Rightarrow>
      if bad then bind (bad_rw_intr s) (\<lambda>_ s. do_hd_request HD_FUEL s)
      else
        case current_request s ! 3 of
          None \<Rightarrow> Fault ''CURRENT''
        | Some r \<Rightarrow>
            bind (read_sector r s) (\<lambda>_ s.
            let s = set_rq r (\<lambda>x. x\<lparr>rq_errors := 0, rq_buffer := rq_buffer x + 512,
                      rq_sector := rq_sector x + 1, rq_nr_sectors := rq_nr_sectors x - 1\<rparr>) s in
            if rq_nr_sectors (rq s r) \<noteq> 0 then Ok () (s\<lparr>do_hd := Some Read_intr\<rparr>)
            else do_hd_request HD_FUEL (end_request 3 r True s)))"

definition write_intr :: "'a hds_scheme \<Rightarrow> (unit, 'a hds_scheme) res" where
  "write_intr s =
     (case win_result s of (bad, s) \<Rightarrow>
      if bad then bind (bad_rw_intr s) (\<lambda>_ s. do_hd_request HD_FUEL s)
      else
        case current_request s ! 3 of
          None \<Rightarrow> Fault ''CURRENT''
        | Some r \<Rightarrow>
            let s = set_rq r (\<lambda>x. x\<lparr>rq_nr_sectors := rq_nr_sectors x - 1\<rparr>) s in
            if rq_nr_sectors (rq s r) \<noteq> 0 then
              let s = set_rq r (\<lambda>x. x\<lparr>rq_sector := rq_sector x + 1, rq_buffer := rq_buffer x + 512\<rparr>) s in
              write_sector r (s\<lparr>do_hd := Some Write_intr\<rparr>)
            else do_hd_request HD_FUEL (end_request 3 r True s))"

definition recal_intr :: "'a hds_scheme \<Rightarrow> (unit, 'a hds_scheme) res" where
  "recal_intr s =
     (case win_result s of (bad, s) \<Rightarrow>
      bind (if bad then bad_rw_intr s else Ok () s) (\<lambda>_ s. do_hd_request HD_FUEL s))"

definition unexpected_hd_interrupt :: "'a hds_scheme \<Rightarrow> (unit, 'a hds_scheme) res" where
  "unexpected_hd_interrupt s = Ok () s"

definition hd_interrupt :: "'a hds_scheme \<Rightarrow> (unit, 'a hds_scheme) res" where
  "hd_interrupt s =
     (let s = port_outb 0x20 0xA0 s; f = do_hd s; s = port_outb 0x20 0x20 (s\<lparr>do_hd := None\<rparr>) in
      case f of
        None \<Rightarrow> unexpected_hd_interrupt s
      | Some Read_intr \<Rightarrow> read_intr s
      | Some Write_intr \<Rightarrow> write_intr s
      | Some Recal_intr \<Rightarrow> recal_intr s)"

definition hd_init :: "'a hds_scheme \<Rightarrow> 'a hds_scheme" where
  "hd_init s =
     (let s = s\<lparr>request_fn := (request_fn s)(3 := True)\<rparr> in
      case port_inb 0x21 s of (v, s) \<Rightarrow>
      let s = port_outb (ucast (v AND 0xFB)) 0x21 s in
      case port_inb 0xA1 s of (v, s) \<Rightarrow> port_outb (ucast (v AND 0xBF)) 0xA1 s)"

subsection \<open>Set-up\<close>

text \<open>Copying an image of \<open>nblocks\<close> blocks from the root device into the RAM disk.\<close>

fun rd_copy :: "nat \<Rightarrow> u32 \<Rightarrow> u32 \<Rightarrow> 'a fs_scheme \<Rightarrow> (bool, 'a fs_scheme) res" where
  "rd_copy 0 block cp s = Ok True s"
| "rd_copy (Suc n) block cp s =
     bind (if 2 < sint (of_nat (Suc n) :: u32) then breada (ROOT_DEV s) block [block + 1, block + 2] s
           else bread (ROOT_DEV s) block s) (\<lambda>bh s.
     case bh of
       None \<Rightarrow> Ok False s
     | Some b \<Rightarrow>
         let s = s\<lparr>rdmem := write_bytes (take BLOCK_SIZE (b_data (bf s b))) cp (rdmem s)\<rparr> in
         bind (brelse (Some b) s) (\<lambda>_ s. rd_copy n (block + 1) (cp + 0x400) s))"

text \<open>
  The number of blocks is computed as an \<open>int\<close>, with the shift count taken modulo 32 as the processor
  does; a negative number passes the test of the size.
\<close>

definition rd_load :: "'a fs_scheme \<Rightarrow> (unit, 'a fs_scheme) res" where
  "rd_load s =
     (if rd_length s = 0 \<or> MAJOR (ROOT_DEV s) \<noteq> 2 then Ok () s
      else
        bind (breada (ROOT_DEV s) 257 [256, 258] s) (\<lambda>bh s.
        case bh of
          None \<Rightarrow> Ok () s
        | Some b \<Rightarrow>
            let d = bytes_d_super (b_data (bf s b)) in
            bind (brelse (Some b) s) (\<lambda>_ s.
            let nblocks = push_bit (unat (s_log_zone_size d AND 31)) (ucast (s_nzones d) :: u32) in
            if s_magic d \<noteq> SUPER_MAGIC then Ok () s
            else if sint (signed_drop_bit 10 (rd_length s)) < sint nblocks then Ok () s
            else
              bind (rd_copy (unat nblocks) 256 (rd_start s) s) (\<lambda>ok s.
              Ok () (if ok then s\<lparr>ROOT_DEV := 0x0101\<rparr> else s)))))"

text \<open>The parameters of a drive in the table of the BIOS.\<close>

definition phys_short :: "u32 \<Rightarrow> 'a mm_scheme \<Rightarrow> u32" where
  "phys_short a s = ucast (phys_byte a s) OR push_bit 8 (ucast (phys_byte (a + 1) s))"

definition bios_info :: "u32 \<Rightarrow> 'a mm_scheme \<Rightarrow> hd_i_struct" where
  "bios_info a s =
     \<lparr>hd_head = ucast (phys_byte (a + 2) s), hd_sect = ucast (phys_byte (a + 14) s), hd_cyl = phys_short a s,
      hd_wpcom = phys_short (a + 5) s, hd_lzone = phys_short (a + 12) s, hd_ctl = ucast (phys_byte (a + 8) s)\<rparr>"

definition set_part :: "nat \<Rightarrow> u32 \<Rightarrow> u32 \<Rightarrow> 'a hds_scheme \<Rightarrow> 'a hds_scheme" where
  "set_part i start n s = s\<lparr>hd_parts := (hd_parts s)[i := \<lparr>start_sect = start, nr_sects = n\<rparr>]\<rparr>"

definition whole_disk :: "nat \<Rightarrow> 'a hds_scheme \<Rightarrow> 'a hds_scheme" where
  "whole_disk i s =
     (let x = hd_info s ! i in set_part (i * 5) 0 (hd_head x * hd_sect x * hd_cyl x) s)"

text \<open>The partition table of drive \<open>d\<close>.\<close>

definition read_partitions :: "nat \<Rightarrow> 'a hds_scheme \<Rightarrow> (unit, 'a hds_scheme) res" where
  "read_partitions d s =
     bind (bread (0x300 + of_nat d * 5) 0 s) (\<lambda>bh s.
     case bh of
       None \<Rightarrow> Panic ''''
     | Some b \<Rightarrow>
         let data = b_data (bf s b) in
         if data ! 510 \<noteq> 0x55 \<or> data ! 511 \<noteq> 0xAA then Panic ''''
         else
           let s = fold (\<lambda>i. set_part (i + 5 * d) (get32 data (0x1BE + 16 * (i - 1) + 8))
                     (get32 data (0x1BE + 16 * (i - 1) + 12))) [1..<5] s in
           brelse (Some b) s)"

definition cmos_drives :: "u8 \<Rightarrow> nat" where
  "cmos_drives c = (if c AND 0xF0 \<noteq> 0 then if c AND 0x0F \<noteq> 0 then 2 else 1 else 0)"

definition sys_setup :: "u32 \<Rightarrow> 'a hds_scheme \<Rightarrow> (int, 'a hds_scheme) res" where
  "sys_setup BIOS s =
     (if \<not> callable s then Ok (- 1) s
      else
        let s = s\<lparr>callable := False\<rparr>;
            s = s\<lparr>hd_info := [bios_info BIOS s, bios_info (BIOS + 16) s]\<rparr>;
            s = s\<lparr>NR_HD := if hd_cyl (hd_info s ! 1) \<noteq> 0 then 2 else 1\<rparr>;
            s = fold whole_disk [0..<NR_HD s] s in
        case CMOS_READ 0x12 s of (cmos_disks, s) \<Rightarrow>
        let s = s\<lparr>NR_HD := cmos_drives cmos_disks\<rparr>;
            s = fold (\<lambda>i. set_part (i * 5) 0 0) [NR_HD s..<2] s in
        bind (if 0 < NR_HD s then read_partitions 0 s else Ok () s) (\<lambda>_ s.
        bind (if 1 < NR_HD s then read_partitions 1 s else Ok () s) (\<lambda>_ s.
        bind (rd_load s) (\<lambda>_ s.
        bind (mount_root s) (\<lambda>_ s. Ok 0 s)))))"

subsection \<open>The command names the block\<close>

definition HD_PORTS :: "u16 list" where
  "HD_PORTS = [HD_CMD, 0x1F1, 0x1F2, 0x1F3, 0x1F4, 0x1F5, 0x1F6, 0x1F7]"

text \<open>The block that the registers of a command name, with \<open>heads\<close> heads and \<open>sects\<close> sectors a track.\<close>

definition named_block :: "nat \<Rightarrow> nat \<Rightarrow> u16 list \<Rightarrow> nat" where
  "named_block heads sects v =
     ((256 * unat (v ! 5) + unat (v ! 4)) * heads + unat (v ! 6 AND 15)) * sects + (unat (v ! 3) - 1)"

lemma chs_parts:
  assumes "chs info block = (cyl, head, sec)" and "hd_sect info \<noteq> 0" and "hd_head info \<noteq> 0"
    and "unat (hd_sect info) < 2 ^ 32 - 1"
  shows "1 \<le> unat sec" and "unat sec \<le> unat (hd_sect info)" and "unat head < unat (hd_head info)"
    and "(unat cyl * unat (hd_head info) + unat head) * unat (hd_sect info) + (unat sec - 1) = unat block"
proof -
  let ?s = "hd_sect info" and ?h = "hd_head info"
  have pos: "0 < unat ?s" "0 < unat ?h" using assms(2,3) by (simp_all add: unat_gt_0)
  have u: "unat cyl = unat block div unat ?s div unat ?h" "unat head = unat block div unat ?s mod unat ?h"
    "unat sec = Suc (unat block mod unat ?s)"
  proof -
    show "unat cyl = unat block div unat ?s div unat ?h" "unat head = unat block div unat ?s mod unat ?h"
      using assms(1) by (auto simp: chs_def Let_def unat_div unat_mod)
    have "unat block mod unat ?s < unat ?s" using pos by simp
    then have "Suc (unat block mod unat ?s) < 2 ^ 32" using assms(4) by linarith
    then show "unat sec = Suc (unat block mod unat ?s)"
      using assms(1) by (auto simp: chs_def Let_def unat_word_ariths unat_mod)
  qed
  show "1 \<le> unat sec" "unat sec \<le> unat ?s" "unat head < unat ?h"
    using pos by (simp_all add: u Suc_le_eq)
  show "(unat cyl * unat ?h + unat head) * unat ?s + (unat sec - 1) = unat block"
    unfolding u by simp
qed

text \<open>What the \<open>k\<close>-th input instruction reads from the status register.\<close>

definition status :: "'a hds_scheme \<Rightarrow> nat \<Rightarrow> u8" where
  "status s k = ucast (port_in s k HD_STATUS)"

text \<open>The controller is ready at the \<open>k\<close>-th read of its status, counted from 0, and not before.\<close>

definition ready_at :: "'a hds_scheme \<Rightarrow> nat \<Rightarrow> bool" where
  "ready_at s k \<longleftrightarrow> status s (inputs s + k) AND 0xC0 = 0x40 \<and>
     (\<forall>j < k. status s (inputs s + j) AND 0xC0 \<noteq> 0x40)"

lemma ready_loop_at:
  "k < n \<Longrightarrow> ready_at s k \<Longrightarrow> ready_loop n s = (True, s\<lparr>inputs := inputs s + Suc k\<rparr>)"
proof (induction n arbitrary: s k)
  case 0
  then show ?case by simp
next
  case (Suc n)
  show ?case
  proof (cases k)
    case 0
    then show ?thesis using Suc.prems by (simp add: ready_at_def port_inb_def status_def)
  next
    case (Suc m)
    let ?s = "s\<lparr>inputs := Suc (inputs s)\<rparr>"
    have st: "status ?s i = status s i" for i by (simp add: status_def)
    have "ready_at ?s m"
      using Suc.prems(2) unfolding ready_at_def st Suc by (auto dest: spec [of _ "Suc _"])
    moreover have "status s (inputs s) AND 0xC0 \<noteq> 0x40"
      using Suc.prems(2) unfolding ready_at_def Suc by (auto dest: spec [of _ 0])
    ultimately show ?thesis
      using Suc.IH [of m ?s] Suc.prems(1) Suc by (simp add: port_inb_def status_def)
  qed
qed

lemma hd_out_ready:
  assumes "k < 9999" and "ready_at s k" and "drive \<le> 1" and "head \<le> 15"
  shows "hd_out drive nsect sect head cyl cmd f s = Ok () (s\<lparr>inputs := inputs s + Suc k, do_hd := Some f,
    outputs := outputs s @ zip HD_PORTS [ucast (hd_ctl (hd_info s ! drive)) AND 0xFF,
      ucast (drop_bit 2 (hd_wpcom (hd_info s ! drive))) AND 0xFF, ucast nsect AND 0xFF, ucast sect AND 0xFF,
      ucast cyl AND 0xFF, ucast (drop_bit 8 cyl) AND 0xFF,
      ucast (0xA0 OR push_bit 4 (of_nat drive) OR head) AND 0xFF, ucast cmd AND 0xFF]\<rparr>)"
proof -
  have "controller_ready s = (True, s\<lparr>inputs := inputs s + Suc k\<rparr>)"
    unfolding controller_ready_def using assms(1,2) by (rule ready_loop_at)
  with assms(3,4) show ?thesis
    by (simp add: hd_out_def port_outb_def HD_PORTS_def HD_DATA_def HD_CMD_def Let_def not_less)
qed

lemma low_byte: "unat (ucast (x :: u32) AND 0xFF :: u16) = unat x mod 256"
proof -
  have m: "(0xFF :: u16) = mask 8" by (simp add: mask_eq_exp_minus_1)
  have "unat (ucast x AND 0xFF :: u16) = take_bit 8 (take_bit LENGTH(16) (unat x))"
    unfolding m take_bit_eq_mask [symmetric] unsigned_take_bit_eq unsigned_ucast_eq ..
  also have "\<dots> = take_bit 8 (unat x)" by simp
  finally show ?thesis by (simp add: take_bit_eq_mod)
qed

lemma drive_head:
  fixes h :: u32
  assumes "d \<le> 1" and "h \<le> 15"
  shows "unat ((ucast (0xA0 OR push_bit 4 (of_nat d) OR h) AND 0xFF :: u16) AND 15) = unat h"
    and "bit (ucast (0xA0 OR push_bit 4 (of_nat d) OR h) AND 0xFF :: u16) 4 \<longleftrightarrow> d = 1"
proof -
  let ?x = "0xA0 OR push_bit 4 (of_nat d) OR h"
  have m: "(0xFF :: u16) = mask 8" "(15 :: u16) = mask 4" by (simp_all add: mask_eq_exp_minus_1)
  have h16: "unat h < 2 ^ 4" using assms(2) by (simp add: word_le_nat_alt)
  have h: "take_bit 4 h = h"
  proof -
    have "unat (take_bit 4 h) = unat h"
      unfolding unsigned_take_bit_eq using h16 by (rule take_bit_nat_eq_self)
    then show ?thesis by (simp only: word_unat_eq_iff)
  qed
  have "take_bit 4 (0xA0 :: u32) = 0" "take_bit 4 (push_bit 4 (of_nat d) :: u32) = 0"
    by (simp_all add: take_bit_push_bit)
  then have low: "take_bit 4 ?x = h" by (simp only: take_bit_or h) simp
  have "unat ((ucast ?x AND 0xFF :: u16) AND 15) = take_bit 4 (take_bit 8 (take_bit LENGTH(16) (unat ?x)))"
    unfolding m take_bit_eq_mask [symmetric] unsigned_take_bit_eq unsigned_ucast_eq ..
  also have "\<dots> = unat (take_bit 4 ?x)" unfolding unsigned_take_bit_eq by simp
  finally show "unat ((ucast ?x AND 0xFF :: u16) AND 15) = unat h" unfolding low .
  have nh: "\<not> bit h 4" using h by (metis bit_take_bit_iff less_irrefl)
  have d: "d = 0 \<or> d = 1" using assms(1) by auto
  have "bit (ucast ?x AND 0xFF :: u16) 4 \<longleftrightarrow> bit ?x 4" unfolding m by (simp add: bit_simps)
  also have "\<dots> \<longleftrightarrow> d = 1" using d nh by (auto simp: bit_or_iff bit_push_bit_iff)
  finally show "bit (ucast ?x AND 0xFF :: u16) 4 \<longleftrightarrow> d = 1" .
qed

text \<open>The parts of a block number on a drive the registers can address.\<close>

lemma chs_registers:
  assumes c: "chs info block = (cyl, head, sec)"
    and geo: "hd_sect info \<noteq> 0" "hd_sect info \<le> 255" "hd_head info \<noteq> 0" "hd_head info \<le> 16"
      "unat block < 65536 * unat (hd_head info) * unat (hd_sect info)"
  shows "head \<le> 15" and "1 \<le> unat sec mod 256" and "unat sec mod 256 \<le> unat (hd_sect info)"
    and "unat head < unat (hd_head info)"
    and "((256 * (unat (drop_bit 8 cyl) mod 256) + unat cyl mod 256) * unat (hd_head info) + unat head) *
      unat (hd_sect info) + (unat sec mod 256 - 1) = unat block"
proof -
  have lim: "unat (hd_sect info) \<le> 255" "unat (hd_head info) \<le> 16"
    using geo by (simp_all add: word_le_nat_alt)
  note C = chs_parts [OF c geo(1,3)]
  have C': "1 \<le> unat sec" "unat sec \<le> unat (hd_sect info)" "unat head < unat (hd_head info)"
    "(unat cyl * unat (hd_head info) + unat head) * unat (hd_sect info) + (unat sec - 1) = unat block"
    using C lim by simp_all
  have sec: "unat sec mod 256 = unat sec" using C'(2) lim by simp
  have cyl: "unat cyl < 65536"
  proof (rule ccontr)
    assume "\<not> unat cyl < 65536"
    then have "65536 * unat (hd_head info) * unat (hd_sect info) \<le> unat cyl * unat (hd_head info) * unat (hd_sect info)"
      by (simp add: mult_le_mono1)
    also have "\<dots> \<le> unat block" unfolding C'(4) [symmetric] by (simp add: add_mult_distrib)
    finally show False using geo(5) by simp
  qed
  have d: "unat (drop_bit 8 cyl) = unat cyl div 256"
    unfolding unat_drop_bit_eq by (simp add: drop_bit_eq_div)
  have "256 * (unat (drop_bit 8 cyl) mod 256) + unat cyl mod 256 = unat cyl"
    using cyl by (simp add: d)
  then show "((256 * (unat (drop_bit 8 cyl) mod 256) + unat cyl mod 256) * unat (hd_head info) + unat head) *
      unat (hd_sect info) + (unat sec mod 256 - 1) = unat block"
    using C'(4) by (simp only: sec)
  show "head \<le> 15" using C'(3) lim by (simp add: word_le_nat_alt)
  show "1 \<le> unat sec mod 256" "unat sec mod 256 \<le> unat (hd_sect info)" "unat head < unat (hd_head info)"
    using C' sec by simp_all
qed

text \<open>The wait for the data request of a write, and the first sector that is then sent.\<close>

lemma wait_drq_true:
  "\<exists>j < n. status s (inputs s + j) AND DRQ_STAT \<noteq> 0 \<Longrightarrow>
   \<exists>i. wait_drq n s = (True, s\<lparr>inputs := i\<rparr>)"
proof (induction n arbitrary: s)
  case (Suc n)
  let ?s = "s\<lparr>inputs := Suc (inputs s)\<rparr>"
  show ?case
  proof (cases "status s (inputs s) AND DRQ_STAT \<noteq> 0")
    case True
    then show ?thesis by (auto simp: port_inb_def status_def)
  next
    case False
    from Suc.prems obtain j where j: "j < Suc n" "status s (inputs s + j) AND DRQ_STAT \<noteq> 0" by blast
    with False obtain i where i: "j = Suc i" by (cases j) auto
    have "\<exists>j < n. status ?s (inputs ?s + j) AND DRQ_STAT \<noteq> 0"
      using j i by (intro exI [of _ i]) (simp add: status_def)
    from Suc.IH [OF this] False show ?thesis by (auto simp: port_inb_def status_def)
  qed
qed simp

text \<open>What a command \<open>cmd\<close> sends after the registers: for a write the first sector of the buffer.\<close>

definition first_sector :: "int \<Rightarrow> request \<Rightarrow> u8 list \<Rightarrow> (u16 \<times> u16) list" where
  "first_sector cmd q data =
     (if cmd = WRITE then List.map (Pair HD_DATA) (words (take 512 (drop (rq_buffer q) data))) else [])"

text \<open>The command of a request that is accepted, when neither a reset nor a recalibration is due.\<close>

lemma do_hd_request_command:
  assumes r: "current_request s ! 3 = Some r" and q: "q = rq s r" and info: "info = hd_info s ! (dev div 5)"
    and dev: "MAJOR (of_int (rq_dev q)) = 3" "dev = MINOR (of_int (rq_dev q))" "dev < 5 * NR_HD s" "NR_HD s \<le> 2"
    and lock: "rq_bh q = Some b" "b_lock (bf s b)" "rq_buffer q + 512 \<le> length (b_data (bf s b))"
    and fits: "rq_sector q + 2 \<le> nr_sects (hd_parts s ! dev)"
    and geo: "hd_sect info \<noteq> 0" "hd_head info \<noteq> 0"
    and c: "chs info (rq_sector q + start_sect (hd_parts s ! dev)) = (cyl, head, sec)" and head: "head \<le> 15"
    and go: "\<not> reset s" "\<not> recalibrate s" "k < 9999" "ready_at s k"
    and cmd: "rq_cmd q = READ \<or> rq_cmd q = WRITE \<and>
      (\<exists>j < 3000. status s (inputs s + Suc k + j) AND DRQ_STAT \<noteq> 0)"
  shows "\<exists>t. do_hd_request (Suc fuel) s = Ok () t \<and>
    do_hd t = Some (if rq_cmd q = READ then Read_intr else Write_intr) \<and>
    outputs t = outputs s @ zip HD_PORTS [ucast (hd_ctl info) AND 0xFF,
      ucast (drop_bit 2 (hd_wpcom info)) AND 0xFF, ucast (rq_nr_sectors q) AND 0xFF, ucast sec AND 0xFF,
      ucast cyl AND 0xFF, ucast (drop_bit 8 cyl) AND 0xFF,
      ucast (0xA0 OR push_bit 4 (of_nat (dev div 5)) OR head) AND 0xFF,
      ucast (if rq_cmd q = READ then WIN_READ else WIN_WRITE) AND 0xFF] @
      first_sector (rq_cmd q) q (b_data (bf s b))"
proof -
  have drv: "dev div 5 \<le> 1" using dev(3,4) by simp
  note out = hd_out_ready [OF go(3,4) drv head]
  have neq: "READ \<noteq> WRITE" by (simp add: READ_def WRITE_def)
  have step: "do_hd_request (Suc fuel) s =
      (if rq_cmd q = WRITE then
         bind (hd_out (dev div 5) (rq_nr_sectors q) sec head cyl WIN_WRITE Write_intr s) (\<lambda>_ s.
           case wait_drq 3000 s of (drq, s) \<Rightarrow>
           if \<not> drq then bind (bad_rw_intr s) (\<lambda>_ s. do_hd_request fuel s) else write_sector r s)
       else hd_out (dev div 5) (rq_nr_sectors q) sec head cyl WIN_READ Read_intr s)"
    unfolding do_hd_request.simps r option.case q [symmetric] Let_def dev(2) [symmetric] info [symmetric] c prod.case
    using dev(1,3) lock geo go(1,2) leD [OF fits] cmd neq by auto
  show ?thesis
  proof (cases "rq_cmd q = READ")
    case True
    then show ?thesis using neq unfolding step out info by (simp add: first_sector_def)
  next
    case False
    then have w: "rq_cmd q = WRITE" "\<exists>j < 3000. status s (inputs s + Suc k + j) AND DRQ_STAT \<noteq> 0"
      using cmd by blast+
    let ?o = "outputs s @ zip HD_PORTS [ucast (hd_ctl info) AND 0xFF,
      ucast (drop_bit 2 (hd_wpcom info)) AND 0xFF, ucast (rq_nr_sectors q) AND 0xFF, ucast sec AND 0xFF,
      ucast cyl AND 0xFF, ucast (drop_bit 8 cyl) AND 0xFF,
      ucast (0xA0 OR push_bit 4 (of_nat (dev div 5)) OR head) AND 0xFF, ucast WIN_WRITE AND 0xFF]"
    let ?u = "s\<lparr>inputs := inputs s + Suc k, do_hd := Some Write_intr, outputs := ?o\<rparr>"
    have "\<exists>j < 3000. status ?u (inputs ?u + j) AND DRQ_STAT \<noteq> 0" using w(2) by (simp add: status_def)
    from wait_drq_true [OF this] obtain i where
      i: "wait_drq 3000 ?u = (True, ?u\<lparr>inputs := i\<rparr>)" by blast
    have "rq_bh (rq s r) = Some b" "rq_buffer (rq s r) + 512 \<le> length (b_data (bf s b))"
      using lock q by simp_all
    then have ws: "write_sector r (?u\<lparr>inputs := i\<rparr>) = Ok () (port_write HD_DATA
        (words (take 512 (drop (rq_buffer q) (b_data (bf s b))))) (?u\<lparr>inputs := i\<rparr>))"
      by (simp add: write_sector_def rq_def bf_def q)
    show ?thesis
      unfolding step using w(1) neq i ws
      by (simp add: out info [symmetric] first_sector_def port_write_def)
  qed
qed

text \<open>C16: a request, for a read or a write, that \<open>do_hd_request\<close> accepts, on a drive of at most 255 sectors
  and 16 heads and 65536 cylinders, is sent to the controller as one command whose registers are within the
  geometry of the drive (a sector from 1 on, a head below the number of heads) and name exactly the block the
  request asks for, counted from the start of its partition, the drive of its device and the number of sectors;
  a write is followed by the 256 words of the first sector; and the handler for the interrupt is set. Neither a
  reset nor a recalibration is due, the controller is ready at the \<open>k\<close>-th of the 9999 reads of its status, and
  for a write it asks for data within the 3000 reads that follow.\<close>

theorem hd_command_in_bounds:
  assumes r: "current_request s ! 3 = Some r" and q: "q = rq s r" and info: "info = hd_info s ! (dev div 5)"
    and dev: "MAJOR (of_int (rq_dev q)) = 3" "dev = MINOR (of_int (rq_dev q))" "dev < 5 * NR_HD s" "NR_HD s \<le> 2"
    and lock: "rq_bh q = Some b" "b_lock (bf s b)" "rq_buffer q + 512 \<le> length (b_data (bf s b))"
    and fits: "rq_sector q + 2 \<le> nr_sects (hd_parts s ! dev)"
    and geo: "hd_sect info \<noteq> 0" "hd_sect info \<le> 255" "hd_head info \<noteq> 0" "hd_head info \<le> 16"
      "unat (rq_sector q + start_sect (hd_parts s ! dev)) < 65536 * unat (hd_head info) * unat (hd_sect info)"
    and go: "\<not> reset s" "\<not> recalibrate s" "k < 9999" "ready_at s k"
    and cmd: "rq_cmd q = READ \<or> rq_cmd q = WRITE \<and>
      (\<exists>j < 3000. status s (inputs s + Suc k + j) AND DRQ_STAT \<noteq> 0)"
  shows "\<exists>t v. do_hd_request (Suc fuel) s = Ok () t \<and>
    do_hd t = Some (if rq_cmd q = READ then Read_intr else Write_intr) \<and>
    outputs t = outputs s @ zip HD_PORTS v @ first_sector (rq_cmd q) q (b_data (bf s b)) \<and>
    length v = 8 \<and> v ! 7 = (if rq_cmd q = READ then 0x20 else 0x30) \<and>
    unat (v ! 2) = unat (rq_nr_sectors q) mod 256 \<and>
    1 \<le> unat (v ! 3) \<and> unat (v ! 3) \<le> unat (hd_sect info) \<and> unat (v ! 6 AND 15) < unat (hd_head info) \<and>
    (bit (v ! 6) 4 \<longleftrightarrow> dev div 5 = 1) \<and>
    named_block (unat (hd_head info)) (unat (hd_sect info)) v =
      unat (rq_sector q + start_sect (hd_parts s ! dev))"
proof -
  let ?block = "rq_sector q + start_sect (hd_parts s ! dev)"
  obtain cyl head sec where c: "chs info ?block = (cyl, head, sec)" by (metis prod_cases3)
  note C = chs_registers [OF c geo]
  have drv: "dev div 5 \<le> 1" using dev(3,4) by simp
  let ?v = "[ucast (hd_ctl info) AND 0xFF,
      ucast (drop_bit 2 (hd_wpcom info)) AND 0xFF, ucast (rq_nr_sectors q) AND 0xFF, ucast sec AND 0xFF,
      ucast cyl AND 0xFF, ucast (drop_bit 8 cyl) AND 0xFF,
      ucast (0xA0 OR push_bit 4 (of_nat (dev div 5)) OR head) AND 0xFF,
      ucast (if rq_cmd q = READ then WIN_READ else WIN_WRITE) AND 0xFF] :: u16 list"
  from do_hd_request_command [OF r q info dev lock fits geo(1,3) c C(1) go cmd, of fuel]
  obtain t where t: "do_hd_request (Suc fuel) s = Ok () t"
    "do_hd t = Some (if rq_cmd q = READ then Read_intr else Write_intr)"
    "outputs t = outputs s @ zip HD_PORTS ?v @ first_sector (rq_cmd q) q (b_data (bf s b))" by blast
  show ?thesis
    using t C(2-5) drive_head [OF drv C(1)]
    by (intro exI [of _ t] exI [of _ ?v])
      (simp add: low_byte WIN_READ_def WIN_WRITE_def named_block_def)
qed

text \<open>A request for block 2000 of the first partition, which starts at sector 63, on a drive of 16 heads
  and 63 sectors.\<close>

definition demo_hds :: hds where
  "demo_hds = kst.extend (ttyc.extend (ttys.extend (fs.extend
     (demo_fs\<lparr>buffers := [demo_buf\<lparr>b_lock := True\<rparr>], current_request := (replicate NR_BLK_DEV None)[3 := Some 0],
        requests := (requests demo_fs)[0 := \<lparr>rq_dev = 0x301, rq_cmd = READ, rq_errors = 0, rq_sector = 2000,
          rq_nr_sectors = 2, rq_buffer = 0, rq_waiting = None, rq_bh = Some 0, rq_next = None\<rparr>]\<rparr>)
     (ttys.fields [] False demo_con)) (ttyc.fields (\<lambda>_. []))) (kst.fields 0 0))
     (hds.fields (\<lambda>n p. 0x50) 0 [] False False
        (replicate 2 \<lparr>hd_head = 16, hd_sect = 63, hd_cyl = 1000, hd_wpcom = 0, hd_lzone = 0, hd_ctl = 0\<rparr>) 1
        (replicate 10 \<lparr>start_sect = 63, nr_sects = 100000\<rparr>) None False)"

lemma demo_hds_simps:
  "buffers demo_hds = [demo_buf\<lparr>b_lock := True\<rparr>]" "current_request demo_hds = (replicate NR_BLK_DEV None)[3 := Some 0]"
  "rq demo_hds 0 = \<lparr>rq_dev = 0x301, rq_cmd = READ, rq_errors = 0, rq_sector = 2000,
          rq_nr_sectors = 2, rq_buffer = 0, rq_waiting = None, rq_bh = Some 0, rq_next = None\<rparr>"
  "hd_info demo_hds = replicate 2 \<lparr>hd_head = 16, hd_sect = 63, hd_cyl = 1000, hd_wpcom = 0, hd_lzone = 0, hd_ctl = 0\<rparr>"
  "hd_parts demo_hds = replicate 10 \<lparr>start_sect = 63, nr_sects = 100000\<rparr>" "NR_HD demo_hds = 1"
  "\<not> reset demo_hds" "\<not> recalibrate demo_hds" "port_in demo_hds = (\<lambda>n p. 0x50)" "inputs demo_hds = 0" "outputs demo_hds = []"
  by (simp_all add: demo_hds_def kst.extend_def ttyc.extend_def ttys.extend_def fs.extend_def hds.fields_def ttys.fields_def
    ttyc.fields_def kst.fields_def rq_def NR_REQUEST_def)

text \<open>The same request as a write, with a controller that is ready and asks for data.\<close>

definition demo_hdw :: hds where
  "demo_hdw = set_rq 0 (\<lambda>x. x\<lparr>rq_cmd := WRITE\<rparr>) demo_hds\<lparr>port_in := (\<lambda>n p. 0x58)\<rparr>"

lemma demo_hdw_simps:
  "rq demo_hdw 0 = (rq demo_hds 0)\<lparr>rq_cmd := WRITE\<rparr>" "buffers demo_hdw = buffers demo_hds"
  "current_request demo_hdw = current_request demo_hds" "hd_info demo_hdw = hd_info demo_hds"
  "hd_parts demo_hdw = hd_parts demo_hds" "NR_HD demo_hdw = 1" "\<not> reset demo_hdw" "\<not> recalibrate demo_hdw"
  "inputs demo_hdw = 0" "outputs demo_hdw = []" "status demo_hdw k = 0x58"
  by (simp_all add: demo_hdw_def demo_hds_simps status_def)
     (simp_all add: demo_hds_def set_rq_def rq_def kst.extend_def ttyc.extend_def ttys.extend_def fs.extend_def
       hds.fields_def ttys.fields_def ttyc.fields_def kst.fields_def NR_REQUEST_def)

theorem hd_command_in_bounds_witness:
  "\<exists>t v. do_hd_request (Suc 0) demo_hdw = Ok () t \<and> named_block 16 63 v = 2063 \<and>
     do_hd t = Some Write_intr \<and> outputs t = zip HD_PORTS v @ List.map (Pair HD_DATA) (words (replicate 512 7))"
proof -
  let ?q = "rq demo_hdw 0" and ?i = "hd_info demo_hdw ! 0"
  note d = demo_hdw_simps demo_hds_simps(1-6)
  have m: "MAJOR (of_int (rq_dev ?q)) = 3" "1 = MINOR (of_int (rq_dev ?q))"
    by (simp_all add: d MAJOR_def MINOR_def)
  have h: "current_request demo_hdw ! 3 = Some 0" "?i = hd_info demo_hdw ! (1 div 5)" "1 < 5 * NR_HD demo_hdw"
    "NR_HD demo_hdw \<le> 2" "rq_bh ?q = Some 0" "b_lock (bf demo_hdw 0)"
    "rq_buffer ?q + 512 \<le> length (b_data (bf demo_hdw 0))"
    "rq_sector ?q + 2 \<le> nr_sects (hd_parts demo_hdw ! 1)"
    "hd_sect ?i \<noteq> 0" "hd_sect ?i \<le> 255" "hd_head ?i \<noteq> 0" "hd_head ?i \<le> 16"
    "unat (rq_sector ?q + start_sect (hd_parts demo_hdw ! 1)) < 65536 * unat (hd_head ?i) * unat (hd_sect ?i)"
    by (simp_all add: d NR_BLK_DEV_def bf_def demo_buf_def BLOCK_SIZE_def)
  have w: "(0::nat) < 9999" "ready_at demo_hdw 0" "rq_cmd ?q = READ \<or> rq_cmd ?q = WRITE \<and>
      (\<exists>j < 3000. status demo_hdw (inputs demo_hdw + Suc 0 + j) AND DRQ_STAT \<noteq> 0)"
    by (simp_all add: ready_at_def d DRQ_STAT_def exI [of _ "0::nat"])
  obtain t v where t: "do_hd_request (Suc 0) demo_hdw = Ok () t"
    "do_hd t = Some (if rq_cmd ?q = READ then Read_intr else Write_intr)"
    "outputs t = outputs demo_hdw @ zip HD_PORTS v @ first_sector (rq_cmd ?q) ?q (b_data (bf demo_hdw 0))"
    "named_block (unat (hd_head ?i)) (unat (hd_sect ?i)) v =
      unat (rq_sector ?q + start_sect (hd_parts demo_hdw ! 1))"
    using hd_command_in_bounds [OF h(1) refl h(2) m h(3-13) demo_hdw_simps(7,8) w, of 0] by blast
  have "outputs t = zip HD_PORTS v @ List.map (Pair HD_DATA) (words (replicate 512 7))"
    "do_hd t = Some Write_intr" "named_block 16 63 v = 2063"
    using t(2-4) by (simp_all add: d first_sector_def bf_def demo_buf_def BLOCK_SIZE_def READ_def WRITE_def)
  with t(1) show ?thesis by blast
qed

subsection \<open>Reading a block, interrupt by interrupt\<close>

lemma port_simps [simp]:
  "port_in (set_bf i f s) = port_in s" "inputs (set_bf i f s) = inputs s" "outputs (set_bf i f s) = outputs s"
  "do_hd (set_bf i f s) = do_hd s" "port_in (set_rq i g s) = port_in s" "inputs (set_rq i g s) = inputs s"
  "outputs (set_rq i g s) = outputs s" "do_hd (set_rq i g s) = do_hd s"
  by (simp_all add: set_bf_def set_rq_def)

lemma port_port_outb_simps [simp]:
  "port_in (port_outb v p s) = port_in s" "inputs (port_outb v p s) = inputs s"
  "outputs (port_outb v p s) = outputs s @ [(p, ucast v AND 0xFF)]" "do_hd (port_outb v p s) = do_hd s"
  by (simp_all add: port_outb_def)

text \<open>What one interrupt that succeeds does to the state, but for the handler.\<close>

definition sector_read :: "nat \<Rightarrow> nat \<Rightarrow> 'a hds_scheme \<Rightarrow> 'a hds_scheme" where
  "sector_read r b s =
     (let off = rq_buffer (rq s r); ws = List.map (\<lambda>k. port_in s (inputs s + 1 + k) HD_DATA) [0..<256] in
      set_rq r (\<lambda>x. x\<lparr>rq_errors := 0, rq_buffer := rq_buffer x + 512, rq_sector := rq_sector x + 1,
          rq_nr_sectors := rq_nr_sectors x - 1\<rparr>)
        (set_bf b (\<lambda>x. x\<lparr>b_data := take off (b_data x) @ word_bytes ws @ drop (off + 512) (b_data x)\<rparr>)
          (s\<lparr>do_hd := None, outputs := outputs s @ [(0xA0, 0x20), (0x20, 0x20)], inputs := inputs s + 257\<rparr>)))"

lemma hd_interrupt_read:
  assumes "do_hd s = Some Read_intr" and st: "status s (inputs s) AND 0xF1 = 0x50"
    and cur: "current_request s ! 3 = Some r" and b: "rq_bh (rq s r) = Some b" and r: "r < length (requests s)"
    and len: "rq_buffer (rq s r) + 512 \<le> length (b_data (bf s b))"
  shows "hd_interrupt s = (let u = sector_read r b s in
    if rq_nr_sectors (rq s r) - 1 \<noteq> 0 then Ok () (u\<lparr>do_hd := Some Read_intr\<rparr>)
    else do_hd_request HD_FUEL (end_request 3 r True u))"
proof -
  let ?s = "s\<lparr>do_hd := None, outputs := outputs s @ [(0xA0, 0x20), (0x20, 0x20)]\<rparr>"
  have "hd_interrupt s = read_intr ?s"
    using assms(1) by (simp add: hd_interrupt_def port_outb_def Let_def)
  moreover have "win_result ?s = (False, ?s\<lparr>inputs := Suc (inputs s)\<rparr>)"
    using st by (simp add: win_result_def port_inb_def status_def BUSY_STAT_def READY_STAT_def WRERR_STAT_def
        SEEK_STAT_def ERR_STAT_def)
  moreover have "read_sector r (?s\<lparr>inputs := Suc (inputs s)\<rparr>) = Ok () (set_bf b (\<lambda>x. x\<lparr>b_data :=
      take (rq_buffer (rq s r)) (b_data x) @ word_bytes (List.map (\<lambda>k. port_in s (inputs s + 1 + k) HD_DATA) [0..<256])
      @ drop (rq_buffer (rq s r) + 512) (b_data x)\<rparr>) (?s\<lparr>inputs := inputs s + 257\<rparr>))"
    using b len by (simp add: read_sector_def port_read_def rq_def bf_def Let_def add.commute [of "inputs s"])
  ultimately show ?thesis
    using cur r by (simp add: read_intr_def sector_read_def Let_def rq_def)
qed

lemma end_request_current:
  "r < length (requests u) \<Longrightarrow> current_request (end_request m r ok u) = (current_request u)[m := rq_next (rq u r)]"
  by (cases "rq_bh (rq u r)")
    (auto simp: end_request_def unlock_buffer_def wake_up_def upd_def Let_def rq_def nth_list_update
      set_bf_def set_rq_def split: option.splits)

lemma do_hd_request_idle: "current_request s ! 3 = None \<Longrightarrow> do_hd_request (Suc n) s = Ok () s"
  by simp

text \<open>The words of the block in the order in which the two interrupts read them.\<close>

definition words_read :: "'a hds_scheme \<Rightarrow> u16 list" where
  "words_read s = List.map (\<lambda>k. port_in s (inputs s + 1 + k) HD_DATA) [0..<256] @
     List.map (\<lambda>k. port_in s (inputs s + 258 + k) HD_DATA) [0..<256]"

text \<open>The fields of the driver and of the request after a block has been read.\<close>

definition block_read_by_hd :: "nat \<Rightarrow> 'a hds_scheme \<Rightarrow> 'a hds_scheme" where
  "block_read_by_hd r s =
     set_rq r (\<lambda>x. x\<lparr>rq_errors := 0, rq_buffer := 1024, rq_sector := 2 + rq_sector x, rq_nr_sectors := 0\<rparr>)
       (s\<lparr>do_hd := None, outputs := outputs s @ [(0xA0, 0x20), (0x20, 0x20), (0xA0, 0x20), (0x20, 0x20)],
          inputs := inputs s + 514\<rparr>)"

lemma length_word_bytes [simp]: "length (word_bytes ws) = 2 * length ws"
  by (induction ws) (simp_all add: word_bytes_def)

lemma word_bytes_append: "word_bytes (a @ b) = word_bytes a @ word_bytes b"
  by (simp add: word_bytes_def)

lemma two_sectors_read:
  assumes r: "r < length (requests s)" and b: "b < length (buffers s)" and len: "length (b_data (bf s b)) = 1024"
    and q: "rq_buffer (rq s r) = 0" "rq_nr_sectors (rq s r) = 2"
  shows "sector_read r b (sector_read r b s\<lparr>do_hd := Some Read_intr\<rparr>) =
     block_read_by_hd r (set_bf b (\<lambda>x. x\<lparr>b_data := word_bytes (words_read s)\<rparr>) s)"
proof -
  define w1 where "w1 = word_bytes (List.map (\<lambda>k. port_in s (inputs s + 1 + k) HD_DATA) [0..<256])"
  define w2 where "w2 = word_bytes (List.map (\<lambda>k. port_in s (inputs s + 258 + k) HD_DATA) [0..<256])"
  have w: "length w1 = 512" "word_bytes (words_read s) = w1 @ w2"
    by (simp_all add: w1_def w2_def words_read_def word_bytes_append)
  let ?s1 = "sector_read r b s"
  have s1: "?s1 = set_rq r (\<lambda>x. x\<lparr>rq_errors := 0, rq_buffer := 512, rq_sector := rq_sector x + 1, rq_nr_sectors := 1\<rparr>)
     (set_bf b (\<lambda>x. x\<lparr>b_data := w1 @ drop 512 (b_data x)\<rparr>)
       (s\<lparr>do_hd := None, outputs := outputs s @ [(0xA0, 0x20), (0x20, 0x20)], inputs := inputs s + 257\<rparr>))"
    using q by (simp add: sector_read_def w1_def rq_def set_rq_def set_bf_def)
  define u where "u = ?s1\<lparr>do_hd := Some Read_intr\<rparr>"
  have u: "rq_buffer (rq u r) = 512" "outputs u = outputs s @ [(0xA0, 0x20), (0x20, 0x20)]" "inputs u = inputs s + 257"
    "port_in u = port_in s"
    using r unfolding u_def s1 by (simp_all add: rq_def set_rq_def set_bf_def)
  have "sector_read r b u = set_rq r (\<lambda>x. x\<lparr>rq_errors := 0, rq_buffer := rq_buffer x + 512, rq_sector := rq_sector x + 1,
          rq_nr_sectors := rq_nr_sectors x - 1\<rparr>)
     (set_bf b (\<lambda>x. x\<lparr>b_data := take 512 (b_data x) @ w2 @ drop 1024 (b_data x)\<rparr>)
       (u\<lparr>do_hd := None, outputs := outputs s @ [(0xA0, 0x20), (0x20, 0x20), (0xA0, 0x20), (0x20, 0x20)],
          inputs := inputs s + 514\<rparr>))"
    unfolding sector_read_def Let_def u w2_def by (simp add: add.commute)
  also have "\<dots> = block_read_by_hd r (set_bf b (\<lambda>x. x\<lparr>b_data := w1 @ w2\<rparr>) s)"
    using r b len w(1) unfolding block_read_by_hd_def u_def s1
    by (intro hds.equality) (simp_all add: rq_def set_rq_def set_bf_def bf_def)
  finally show ?thesis unfolding w(2) u_def .
qed

text \<open>C15: reading a block with the hard disk does what the abstract driver of theory \<open>Blk\<close> says: when the
  command for a block of two sectors has been given, no request waits behind it in the queue, and the
  controller answers both interrupts without an error, with the words of the block that is on the disk, then
  the two interrupts together end the request as \<open>disk_transfer\<close> and \<open>end_request\<close> do, and beyond that
  change only the fields of the driver and the progress fields of the request.\<close>

theorem hd_read_refines:
  assumes cur: "current_request s ! 3 = Some r" "length (current_request s) = NR_BLK_DEV"
    and r: "r < length (requests s)" and b: "b < length (buffers s)" and len: "length (b_data (bf s b)) = 1024"
    and q: "rq_bh (rq s r) = Some b" "rq_cmd (rq s r) = READ" "rq_buffer (rq s r) = 0"
      "rq_nr_sectors (rq s r) = 2" "rq_next (rq s r) = None"
    and go: "do_hd s = Some Read_intr" "status s (inputs s) AND 0xF1 = 0x50" "status s (inputs s + 257) AND 0xF1 = 0x50"
    and disk: "disk s (of_int (rq_dev (rq s r))) (drop_bit 1 (rq_sector (rq s r))) = Some (word_bytes (words_read s))"
  shows "bind (hd_interrupt s) (\<lambda>_. hd_interrupt) =
    bind (disk_transfer r b s) (\<lambda>ok u. Ok () (end_request 3 r ok (block_read_by_hd r u)))"
proof -
  let ?s1 = "sector_read r b s" and ?d = "set_bf b (\<lambda>x. x\<lparr>b_data := word_bytes (words_read s)\<rparr>) s"
  have first: "hd_interrupt s = Ok () (?s1\<lparr>do_hd := Some Read_intr\<rparr>)"
    using hd_interrupt_read [OF go(1,2) cur(1) q(1) r] q len by (simp add: Let_def)
  define u where "u = ?s1\<lparr>do_hd := Some Read_intr\<rparr>"
  have u: "do_hd u = Some Read_intr" "status u (inputs u) AND 0xF1 = 0x50" "current_request u ! 3 = Some r"
    "rq_bh (rq u r) = Some b" "r < length (requests u)" "rq_buffer (rq u r) + 512 \<le> length (b_data (bf u b))"
    "rq_nr_sectors (rq u r) - 1 = 0"
    using assms unfolding u_def
    by (simp_all add: sector_read_def Let_def rq_def bf_def status_def set_rq_def set_bf_def)
  let ?e = "end_request 3 r True (block_read_by_hd r ?d)"
  have two: "sector_read r b u = block_read_by_hd r ?d"
    unfolding u_def by (rule two_sectors_read [OF r b len q(3,4)])
  have "current_request ?e ! 3 = None"
    using r cur(2) q(5) by (subst end_request_current)
      (simp_all add: block_read_by_hd_def rq_def set_rq_def set_bf_def NR_BLK_DEV_def)
  moreover have "HD_FUEL = Suc (8 * NR_REQUEST + 7)" by (simp add: HD_FUEL_def)
  ultimately have "do_hd_request HD_FUEL ?e = Ok () ?e" using do_hd_request_idle by metis
  then have "hd_interrupt u = Ok () ?e"
    using hd_interrupt_read [OF u(1-6)] u(7) by (simp add: Let_def two)
  moreover have "disk_transfer r b s = Ok True ?d"
    using disk q(2) by (simp add: disk_transfer_def Let_def READ_def WRITE_def)
  ultimately show ?thesis using first by (simp add: u_def)
qed

theorem hd_read_refines_witness:
  "let s = demo_hds\<lparr>do_hd := Some Read_intr, disk := (\<lambda>_ _. Some (word_bytes (words_read demo_hds)))\<rparr> in
   bind (hd_interrupt s) (\<lambda>_. hd_interrupt) = Ok () (end_request 3 0 True (block_read_by_hd 0
     (set_bf 0 (\<lambda>x. x\<lparr>b_data := word_bytes (words_read s)\<rparr>) s)))"
proof -
  let ?s = "demo_hds\<lparr>do_hd := Some Read_intr, disk := (\<lambda>_ _. Some (word_bytes (words_read demo_hds)))\<rparr>"
  have w: "words_read ?s = words_read demo_hds" by (simp add: words_read_def)
  have s: "buffers ?s = buffers demo_hds" "current_request ?s = current_request demo_hds" "rq ?s 0 = rq demo_hds 0"
    "requests ?s = requests demo_hds" "disk ?s = (\<lambda>_ _. Some (word_bytes (words_read ?s)))" "do_hd ?s = Some Read_intr"
    unfolding w by (simp_all add: rq_def)
  have l: "0 < length (requests ?s)"
    by (simp add: s demo_hds_def kst.extend_def ttyc.extend_def ttys.extend_def fs.extend_def hds.fields_def NR_REQUEST_def)
  have b: "length (b_data (bf ?s 0)) = 1024" "0 < length (buffers ?s)"
    unfolding bf_def s demo_hds_simps by (simp_all add: demo_buf_def BLOCK_SIZE_def)
  have st: "status ?s k AND 0xF1 = 0x50" for k by (simp add: status_def demo_hds_simps)
  have q: "rq_bh (rq ?s 0) = Some 0" "rq_cmd (rq ?s 0) = READ" "rq_buffer (rq ?s 0) = 0"
      "rq_nr_sectors (rq ?s 0) = 2" "rq_next (rq ?s 0) = None"
    unfolding s demo_hds_simps by simp_all
  have c: "current_request ?s ! 3 = Some 0" "length (current_request ?s) = NR_BLK_DEV"
    unfolding s demo_hds_simps by (simp_all add: NR_BLK_DEV_def)
  have d: "disk ?s (of_int (rq_dev (rq ?s 0))) (drop_bit 1 (rq_sector (rq ?s 0))) = Some (word_bytes (words_read ?s))"
    unfolding s(5) ..
  from hd_read_refines [OF c l b(2,1) q s(6) st st d] show ?thesis
    unfolding Let_def using d q(2) by (simp add: disk_transfer_def Let_def READ_def WRITE_def)
qed

subsection \<open>Writing a block, interrupt by interrupt\<close>

text \<open>
  The words of the first sector follow the command (\<open>hd_command_in_bounds\<close>); the first interrupt sends
  those of the second, and the second interrupt ends the request.
\<close>

lemma word_bytes_words: "even (length xs) \<Longrightarrow> word_bytes (words xs) = xs"
proof (induction xs rule: words.induct)
  case (1 a b xs)
  have "ucast (ucast a OR push_bit 8 (ucast b) :: u16) = a" "ucast (drop_bit 8 (ucast a OR push_bit 8 (ucast b) :: u16)) = b"
    by (auto simp: bit_eq_iff bit_simps dest: bit_imp_le_length)
  with 1 show ?case by (simp add: word_bytes_def)
qed (simp_all add: word_bytes_def)

lemma hd_interrupt_write:
  assumes "do_hd s = Some Write_intr" and st: "status s (inputs s) AND 0xF1 = 0x50"
    and cur: "current_request s ! 3 = Some r"
    and u: "u = set_rq r (\<lambda>x. x\<lparr>rq_nr_sectors := rq_nr_sectors x - 1\<rparr>)
      (s\<lparr>do_hd := None, outputs := outputs s @ [(0xA0, 0x20), (0x20, 0x20)], inputs := inputs s + 1\<rparr>)"
  shows "hd_interrupt s =
    (if rq_nr_sectors (rq u r) \<noteq> 0
     then write_sector r (set_rq r (\<lambda>x. x\<lparr>rq_sector := rq_sector x + 1, rq_buffer := rq_buffer x + 512\<rparr>) u
       \<lparr>do_hd := Some Write_intr\<rparr>)
     else do_hd_request HD_FUEL (end_request 3 r True u))"
proof -
  let ?s = "s\<lparr>do_hd := None, outputs := outputs s @ [(0xA0, 0x20), (0x20, 0x20)]\<rparr>"
  have "hd_interrupt s = write_intr ?s"
    using assms(1) by (simp add: hd_interrupt_def port_outb_def Let_def)
  moreover have "win_result ?s = (False, ?s\<lparr>inputs := inputs s + 1\<rparr>)"
    using st by (simp add: win_result_def port_inb_def status_def BUSY_STAT_def READY_STAT_def WRERR_STAT_def
        SEEK_STAT_def ERR_STAT_def)
  ultimately show ?thesis using cur by (simp add: write_intr_def Let_def u)
qed

definition block_written_by_hd :: "nat \<Rightarrow> u16 list \<Rightarrow> 'a hds_scheme \<Rightarrow> 'a hds_scheme" where
  "block_written_by_hd r ws s =
     set_rq r (\<lambda>x. x\<lparr>rq_sector := rq_sector x + 1, rq_buffer := 512, rq_nr_sectors := 0\<rparr>)
       (s\<lparr>do_hd := None,
          outputs := outputs s @ [(0xA0, 0x20), (0x20, 0x20)] @ List.map (Pair HD_DATA) ws @ [(0xA0, 0x20), (0x20, 0x20)],
          inputs := inputs s + 2\<rparr>)"

lemma hd_write_refines:
  assumes cur: "current_request s ! 3 = Some r" "length (current_request s) = NR_BLK_DEV"
    and r: "r < length (requests s)" and len: "length (b_data (bf s b)) = 1024"
    and q: "rq_bh (rq s r) = Some b" "rq_buffer (rq s r) = 0" "rq_nr_sectors (rq s r) = 2" "rq_next (rq s r) = None"
    and go: "do_hd s = Some Write_intr" "status s (inputs s) AND 0xF1 = 0x50" "status s (inputs s + 1) AND 0xF1 = 0x50"
    and sent: "ws1 = words (take 512 (b_data (bf s b)))"
  shows "\<exists>ws2. bind (hd_interrupt s) (\<lambda>_. hd_interrupt) = Ok () (end_request 3 r True (block_written_by_hd r ws2 s)) \<and>
    word_bytes (ws1 @ ws2) = b_data (bf s b)"
proof -
  let ?ws = "words (drop 512 (b_data (bf s b)))"
  let ?u = "set_rq r (\<lambda>x. x\<lparr>rq_nr_sectors := 1, rq_sector := rq_sector x + 1, rq_buffer := 512\<rparr>)
      (s\<lparr>do_hd := Some Write_intr, inputs := inputs s + 1,
         outputs := outputs s @ [(0xA0, 0x20), (0x20, 0x20)] @ List.map (Pair HD_DATA) ?ws\<rparr>)"
  have first: "hd_interrupt s = Ok () ?u"
    unfolding hd_interrupt_write [OF go(1,2) cur(1) refl] using r q len
    by (simp add: rq_def set_rq_def write_sector_def bf_def port_write_def)
  have u: "do_hd ?u = Some Write_intr" "status ?u (inputs ?u) AND 0xF1 = 0x50" "current_request ?u ! 3 = Some r"
    using cur go by (simp_all add: status_def set_rq_def)
  let ?e = "end_request 3 r True (block_written_by_hd r ?ws s)"
  have "current_request ?e ! 3 = None"
    using r cur(2) q(4) by (subst end_request_current)
      (simp_all add: block_written_by_hd_def rq_def set_rq_def NR_BLK_DEV_def)
  moreover have "HD_FUEL = Suc (8 * NR_REQUEST + 7)" by (simp add: HD_FUEL_def)
  ultimately have idle: "do_hd_request HD_FUEL ?e = Ok () ?e" using do_hd_request_idle by metis
  have "hd_interrupt ?u = do_hd_request HD_FUEL ?e"
    unfolding hd_interrupt_write [OF u refl] using r q
    by (simp add: rq_def set_rq_def block_written_by_hd_def)
  with first idle have "bind (hd_interrupt s) (\<lambda>_. hd_interrupt) = Ok () ?e" by simp
  moreover have "word_bytes (ws1 @ ?ws) = b_data (bf s b)"
    using len by (simp add: sent word_bytes_append word_bytes_words)
  ultimately show ?thesis by (intro exI [of _ ?ws] conjI)
qed

end
