(* ===== verification/ProdCons.thy ===== *)
theory ProdCons
  imports Ring
begin

text \<open>
  The test program of the semaphores and the shared memory, \<open>src/test6\<close>: the producer \<open>pc.c\<close>, the consumers
  \<open>consumer_00/consumer_00.c\<close>, and the queue in shared memory of \<open>sem_shm.c\<close>. The processes run in every
  interleaving; a step is one system call on a semaphore, or what a process does between two of them.
  A semaphore is a counter (theory \<open>Sem\<close> has the calls of the kernel): \<open>sem_wait\<close> is a step that is possible
  when it is positive. What a process does with the queue between \<open>sem_wait\<close> and \<open>sem_post\<close> of the mutex is
  one step; that no two processes are there at once is proved (\<open>one_inside\<close>), not assumed. The log
  that \<open>print\<close> writes is kept for the values read. Opening and deleting the shared memory and the
  semaphores is left out here; theories \<open>Shm\<close> and \<open>Sem\<close> model these calls.
\<close>

subsection \<open>The queue\<close>

definition QUENE_NUM :: nat where "QUENE_NUM = 20"
definition CONSUM_NUM :: nat where "CONSUM_NUM = 8"
definition SHMDATA :: nat where "SHMDATA = 300"

record shmadrtype =
  qhead :: nat
  qtail :: nat
  shmad :: "int list"
  iniflag :: int
  endflag :: int

definition isQueneEmpty :: "shmadrtype \<Rightarrow> bool" where
  "isQueneEmpty q \<longleftrightarrow> qhead q = qtail q \<and> shmad q ! qhead q = 0"

definition isQueneFull :: "shmadrtype \<Rightarrow> bool" where
  "isQueneFull q \<longleftrightarrow> (qhead q + 1) mod QUENE_NUM = qtail q"

definition getQueneValue :: "shmadrtype \<Rightarrow> int \<times> shmadrtype" where
  "getQueneValue q =
     (if isQueneEmpty q then (- 1, q)
      else
        (shmad q ! qtail q,
         q\<lparr>shmad := (shmad q)[qtail q := 0], qtail := (qtail q + 1) mod QUENE_NUM\<rparr>))"

definition putQueneValue :: "int \<Rightarrow> shmadrtype \<Rightarrow> shmadrtype" where
  "putQueneValue v q =
     (if isQueneFull q then q
      else q\<lparr>shmad := (shmad q)[qhead q := v], qhead := (qhead q + 1) mod QUENE_NUM\<rparr>)"

text \<open>The contents of the queue, and when it is in order: cells that are not in use are 0.\<close>

definition quene_len :: "shmadrtype \<Rightarrow> nat" where
  "quene_len q = (qhead q + QUENE_NUM - qtail q) mod QUENE_NUM"

definition quene_list :: "shmadrtype \<Rightarrow> int list" where
  "quene_list q = ring_list (\<lambda>i. shmad q ! i) QUENE_NUM (qtail q) (quene_len q)"

definition quene_ok :: "shmadrtype \<Rightarrow> bool" where
  "quene_ok q \<longleftrightarrow> qhead q < QUENE_NUM \<and> qtail q < QUENE_NUM \<and> length (shmad q) = QUENE_NUM \<and>
     (\<forall>p < QUENE_NUM. (\<forall>j < quene_len q. p \<noteq> (qtail q + j) mod QUENE_NUM) \<longrightarrow> shmad q ! p = 0)"

lemma quene_len_list [simp]: "length (quene_list q) = quene_len q"
  by (simp add: quene_list_def)

lemma head_of_len: "quene_ok q \<Longrightarrow> qhead q = (qtail q + quene_len q) mod QUENE_NUM"
  by (auto simp: quene_ok_def quene_len_def mod_simps)

lemma quene_len_if:
  assumes "qhead q < QUENE_NUM" and "qtail q < QUENE_NUM"
  shows "quene_len q = (if qtail q \<le> qhead q then qhead q - qtail q else qhead q + QUENE_NUM - qtail q)"
proof (cases "qtail q \<le> qhead q")
  case True
  then have "quene_len q = ((qhead q - qtail q) + QUENE_NUM) mod QUENE_NUM" by (simp add: quene_len_def)
  also have "\<dots> = qhead q - qtail q" using assms(1) by (simp only: mod_add_self2) simp
  finally show ?thesis using True by simp
qed (use assms in \<open>simp add: quene_len_def\<close>)

lemma quene_suc: "x < QUENE_NUM \<Longrightarrow> (x + 1) mod QUENE_NUM = (if x = QUENE_NUM - 1 then 0 else x + 1)"
  by (auto simp: QUENE_NUM_def)

lemma quene_okD:
  assumes "quene_ok q"
  shows "qhead q < QUENE_NUM" "qtail q < QUENE_NUM" "length (shmad q) = QUENE_NUM"
    "quene_len q = (if qtail q \<le> qhead q then qhead q - qtail q else qhead q + QUENE_NUM - qtail q)"
  using assms quene_len_if [of q] by (simp_all add: quene_ok_def)

lemma quene_len_0: "quene_ok q \<Longrightarrow> quene_len q = 0 \<longleftrightarrow> qhead q = qtail q"
  using quene_okD [of q] by auto

lemma quene_full: "quene_ok q \<Longrightarrow> isQueneFull q \<longleftrightarrow> quene_len q = QUENE_NUM - 1"
  using quene_okD [of q] quene_suc [of "qhead q"] by (auto simp: isQueneFull_def QUENE_NUM_def)

lemma quene_empty:
  assumes "quene_ok q"
  shows "isQueneEmpty q \<longleftrightarrow> quene_list q = []"
proof -
  have "shmad q ! qhead q = 0" if "quene_len q = 0" using assms that by (simp add: quene_ok_def)
  moreover have "quene_list q = [] \<longleftrightarrow> quene_len q = 0"
    by (metis quene_len_list length_0_conv)
  ultimately show ?thesis using quene_len_0 [OF assms] by (auto simp: isQueneEmpty_def)
qed

interpretation qu: bounded_fifo quene_list quene_ok "QUENE_NUM - 1" putQueneValue getQueneValue
proof
  fix q x assume ok: "quene_ok q" and room: "length (quene_list q) < QUENE_NUM - 1"
  let ?q = "putQueneValue x q" and ?n = "quene_len q"
  have n: "?n + 1 < QUENE_NUM" using room by simp
  have q: "?q = q\<lparr>shmad := (shmad q)[qhead q := x], qhead := (qhead q + 1) mod QUENE_NUM\<rparr>"
    using n quene_full [OF ok] by (simp add: putQueneValue_def)
  have len: "quene_len ?q = ?n + 1"
    using quene_okD [OF ok] n quene_suc [of "qhead q"] unfolding q by (subst quene_len_if) auto
  have h: "qhead q = (qtail q + ?n) mod QUENE_NUM" by (rule head_of_len [OF ok])
  have lq: "length (shmad q) = QUENE_NUM" "qhead q < QUENE_NUM" using ok by (simp_all add: quene_ok_def)
  have "ring_list (\<lambda>i. (shmad q)[qhead q := x] ! i) QUENE_NUM (qtail q) (?n + length [x]) =
    ring_list (\<lambda>i. shmad q ! i) QUENE_NUM (qtail q) ?n @ [x]"
    using lq n h by (intro ring_list_append) (auto simp: QUENE_NUM_def)
  then show "quene_list ?q = quene_list q @ [x]" unfolding quene_list_def len by (simp add: q)
  have "shmad ?q ! p = 0" if p: "p < QUENE_NUM" "\<forall>j < quene_len ?q. p \<noteq> (qtail ?q + j) mod QUENE_NUM" for p
  proof -
    have "p \<noteq> qhead q" "\<forall>j < ?n. p \<noteq> (qtail q + j) mod QUENE_NUM"
      using p(2) h unfolding len by (auto simp: q)
    then show ?thesis using ok p(1) by (simp add: q quene_ok_def)
  qed
  then show "quene_ok ?q" using ok unfolding quene_ok_def by (auto simp: q QUENE_NUM_def)
next
  fix q assume ok: "quene_ok q" and ne: "quene_list q \<noteq> []"
  let ?q = "snd (getQueneValue q)" and ?n = "quene_len q"
  have "?n \<noteq> 0" using ne by (metis quene_len_list length_0_conv)
  then have n: "0 < ?n" "?n < QUENE_NUM" by (simp_all add: quene_len_def QUENE_NUM_def)
  have q: "getQueneValue q = (shmad q ! qtail q, q\<lparr>shmad := (shmad q)[qtail q := 0], qtail := (qtail q + 1) mod QUENE_NUM\<rparr>)"
    using ne quene_empty [OF ok] by (simp add: getQueneValue_def)
  have t: "qtail q < QUENE_NUM" "length (shmad q) = QUENE_NUM" using ok by (simp_all add: quene_ok_def)
  have len: "quene_len ?q = ?n - 1"
    using quene_okD [OF ok] n quene_suc [of "qtail q"] unfolding q by (subst quene_len_if) auto
  have split: "quene_list q = shmad q ! qtail q # ring_list (\<lambda>i. shmad q ! i) QUENE_NUM ((qtail q + 1) mod QUENE_NUM) (?n - 1)"
    using ring_list_add [of "\<lambda>i. shmad q ! i" QUENE_NUM "qtail q" 1 "?n - 1"] n t
    by (simp add: quene_list_def ring_list_def)
  have pos: "qtail q \<noteq> Suc (qtail q + j) mod QUENE_NUM" if "j < ?n - 1" for j
  proof
    assume "qtail q = Suc (qtail q + j) mod QUENE_NUM"
    then have "(qtail q + (1 + j)) mod QUENE_NUM = (qtail q + 0) mod QUENE_NUM" using t by (simp add: add.assoc)
    then have "1 + j = 0" by (rule ring_position_inj) (use that n in linarith)+
    then show False by simp
  qed
  have "quene_list ?q = ring_list (\<lambda>i. shmad q ! i) QUENE_NUM ((qtail q + 1) mod QUENE_NUM) (?n - 1)"
    unfolding quene_list_def len using pos t by (auto simp: q mod_simps intro!: ring_list_cong)
  with split show "fst (getQueneValue q) = hd (quene_list q) \<and> quene_list ?q = tl (quene_list q)"
    by (simp add: q)
  have "shmad ?q ! p = 0" if p: "p < QUENE_NUM" "\<forall>j < quene_len ?q. p \<noteq> (qtail ?q + j) mod QUENE_NUM" for p
  proof (cases "p = qtail q")
    case True
    then show ?thesis using t by (simp add: q)
  next
    case False
    have "p \<noteq> (qtail q + j) mod QUENE_NUM" if "j < ?n" for j
    proof (cases j)
      case 0
      then show ?thesis using False t by simp
    next
      case (Suc i)
      then have "i < quene_len ?q" using that len by simp
      then have "p \<noteq> (qtail ?q + i) mod QUENE_NUM" using p(2) by blast
      then show ?thesis by (simp add: q Suc mod_simps)
    qed
    then have "shmad q ! p = 0" using ok p(1) by (simp add: quene_ok_def)
    then show ?thesis using False by (simp add: q)
  qed
  then show "quene_ok ?q" using ok unfolding quene_ok_def by (auto simp: q QUENE_NUM_def)
qed


declare quene_len_list [simp del]

subsection \<open>The processes\<close>

text \<open>
  Where the producer is in \<open>pc.c\<close> and a consumer in \<open>consumer_00.c\<close>. The flag of \<open>C_Post_mutex\<close> and
  \<open>C_Post_empty\<close> is the variable \<open>flag\<close> of the loop.
\<close>

datatype ploc = P_Start | P_Init | P_Inited | P_Loop | P_Mutex | P_Put | P_Post_mutex | P_Post_full | P_Done

datatype cloc = C_Start | C_Init | C_Inited | C_Loop | C_Mutex | C_Body | C_Post_mutex bool
  | C_Post_empty bool | C_End_mutex | C_End_empty | C_Exit | C_Done

record pcs =
  s_mutex :: int
  s_full :: int
  s_empty :: int
  shm :: shmadrtype
  p_at :: ploc
  p_i :: nat
  c_at :: "nat \<Rightarrow> cloc"
  got :: "(nat \<times> int) list"

definition FLAG :: int where "FLAG = 0x55AA"

definition init_shm :: "shmadrtype \<Rightarrow> shmadrtype" where
  "init_shm q =
     (if int (qhead q) \<noteq> FLAG
      then \<lparr>qhead = 0, qtail = 0, shmad = replicate QUENE_NUM 0, iniflag = FLAG, endflag = 0\<rparr>
      else q)"

definition ended :: "pcs \<Rightarrow> bool" where
  "ended s \<longleftrightarrow> endflag (shm s) = FLAG"

text \<open>The body of the loop of a consumer between the two calls on \<open>mutex\<close>.\<close>

definition consume :: "nat \<Rightarrow> pcs \<Rightarrow> pcs" where
  "consume c s =
     (if ended s then s\<lparr>c_at := (c_at s)(c := C_End_mutex)\<rparr>
      else
        let i = fst (getQueneValue (shm s)); q = snd (getQueneValue (shm s)) in
        if i = int SHMDATA
        then s\<lparr>shm := q\<lparr>endflag := FLAG\<rparr>, c_at := (c_at s)(c := C_Post_mutex False), got := got s @ [(c, i)]\<rparr>
        else s\<lparr>shm := q, c_at := (c_at s)(c := C_Post_mutex True), got := got s @ [(c, i)]\<rparr>)"

inductive pc_step :: "pcs \<Rightarrow> pcs \<Rightarrow> bool" where
  p_start: "\<lbrakk>p_at s = P_Start; 0 < s_mutex s\<rbrakk> \<Longrightarrow> pc_step s (s\<lparr>s_mutex := s_mutex s - 1, p_at := P_Init\<rparr>)"
| p_init: "p_at s = P_Init \<Longrightarrow> pc_step s (s\<lparr>shm := init_shm (shm s), p_at := P_Inited\<rparr>)"
| p_inited: "p_at s = P_Inited \<Longrightarrow> pc_step s (s\<lparr>s_mutex := s_mutex s + 1, p_at := P_Loop, p_i := 0\<rparr>)"
| p_loop: "\<lbrakk>p_at s = P_Loop; p_i s < SHMDATA; 0 < s_empty s\<rbrakk> \<Longrightarrow>
    pc_step s (s\<lparr>s_empty := s_empty s - 1, p_at := P_Mutex, p_i := p_i s + 1\<rparr>)"
| p_leave: "\<lbrakk>p_at s = P_Loop; \<not> p_i s < SHMDATA\<rbrakk> \<Longrightarrow> pc_step s (s\<lparr>p_at := P_Done\<rparr>)"
| p_mutex: "\<lbrakk>p_at s = P_Mutex; 0 < s_mutex s\<rbrakk> \<Longrightarrow> pc_step s (s\<lparr>s_mutex := s_mutex s - 1, p_at := P_Put\<rparr>)"
| p_put: "p_at s = P_Put \<Longrightarrow>
    pc_step s (s\<lparr>shm := putQueneValue (int (p_i s)) (shm s), p_at := P_Post_mutex\<rparr>)"
| p_post_mutex: "p_at s = P_Post_mutex \<Longrightarrow> pc_step s (s\<lparr>s_mutex := s_mutex s + 1, p_at := P_Post_full\<rparr>)"
| p_post_full: "p_at s = P_Post_full \<Longrightarrow> pc_step s (s\<lparr>s_full := s_full s + 1, p_at := P_Loop\<rparr>)"
| c_start: "\<lbrakk>c < CONSUM_NUM; c_at s c = C_Start; 0 < s_mutex s\<rbrakk> \<Longrightarrow>
    pc_step s (s\<lparr>s_mutex := s_mutex s - 1, c_at := (c_at s)(c := C_Init)\<rparr>)"
| c_init: "\<lbrakk>c < CONSUM_NUM; c_at s c = C_Init\<rbrakk> \<Longrightarrow>
    pc_step s (s\<lparr>shm := init_shm (shm s), c_at := (c_at s)(c := C_Inited)\<rparr>)"
| c_inited: "\<lbrakk>c < CONSUM_NUM; c_at s c = C_Inited\<rbrakk> \<Longrightarrow>
    pc_step s (s\<lparr>s_mutex := s_mutex s + 1, c_at := (c_at s)(c := C_Loop)\<rparr>)"
| c_full: "\<lbrakk>c < CONSUM_NUM; c_at s c = C_Loop; 0 < s_full s\<rbrakk> \<Longrightarrow>
    pc_step s (s\<lparr>s_full := s_full s - 1, c_at := (c_at s)(c := C_Mutex)\<rparr>)"
| c_mutex: "\<lbrakk>c < CONSUM_NUM; c_at s c = C_Mutex; 0 < s_mutex s\<rbrakk> \<Longrightarrow>
    pc_step s (s\<lparr>s_mutex := s_mutex s - 1, c_at := (c_at s)(c := C_Body)\<rparr>)"
| c_body: "\<lbrakk>c < CONSUM_NUM; c_at s c = C_Body\<rbrakk> \<Longrightarrow> pc_step s (consume c s)"
| c_post_mutex: "\<lbrakk>c < CONSUM_NUM; c_at s c = C_Post_mutex b\<rbrakk> \<Longrightarrow>
    pc_step s (s\<lparr>s_mutex := s_mutex s + 1, c_at := (c_at s)(c := C_Post_empty b)\<rparr>)"
| c_post_empty: "\<lbrakk>c < CONSUM_NUM; c_at s c = C_Post_empty b\<rbrakk> \<Longrightarrow>
    pc_step s (s\<lparr>s_empty := s_empty s + 1, c_at := (c_at s)(c := if b then C_Loop else C_Exit)\<rparr>)"
| c_end_mutex: "\<lbrakk>c < CONSUM_NUM; c_at s c = C_End_mutex\<rbrakk> \<Longrightarrow>
    pc_step s (s\<lparr>s_mutex := s_mutex s + 1, c_at := (c_at s)(c := C_End_empty)\<rparr>)"
| c_end_empty: "\<lbrakk>c < CONSUM_NUM; c_at s c = C_End_empty\<rbrakk> \<Longrightarrow>
    pc_step s (s\<lparr>s_empty := s_empty s + 1, c_at := (c_at s)(c := C_Exit)\<rparr>)"
| c_exit: "\<lbrakk>c < CONSUM_NUM; c_at s c = C_Exit\<rbrakk> \<Longrightarrow>
    pc_step s (s\<lparr>s_full := s_full s + 1, c_at := (c_at s)(c := C_Done)\<rparr>)"

inductive_cases pc_stepE: "pc_step s t"

text \<open>
  The first state: the semaphores as \<open>crearShmAndSem\<close> opens them, the page of shared memory cleared.
  \<open>pc.c\<close> sleeps for ten seconds before it goes on, so that the consumers are ready: the relation
  \<open>pc_sync\<close> is what it relies on, no value is put while a consumer has not initialised. Nothing in the
  program enforces that: \<open>pc_sync\<close> is an assumption on the scheduling, no code has it.
\<close>

definition pc_boot :: pcs where
  "pc_boot = \<lparr>s_mutex = 1, s_full = 0, s_empty = int CONSUM_NUM,
     shm = \<lparr>qhead = 0, qtail = 0, shmad = replicate QUENE_NUM 0, iniflag = 0, endflag = 0\<rparr>,
     p_at = P_Start, p_i = 0, c_at = (\<lambda>_. C_Start), got = []\<rparr>"

definition starting :: "cloc \<Rightarrow> bool" where
  "starting l \<longleftrightarrow> l = C_Start \<or> l = C_Init \<or> l = C_Inited"

definition pc_sync :: "pcs \<Rightarrow> pcs \<Rightarrow> bool" where
  "pc_sync s t \<longleftrightarrow> pc_step s t \<and>
     (p_at s = P_Loop \<and> p_at t = P_Mutex \<longrightarrow> (\<forall>c < CONSUM_NUM. \<not> starting (c_at s c)))"

definition pc_finished :: "pcs \<Rightarrow> bool" where
  "pc_finished s \<longleftrightarrow> p_at s = P_Done \<and> (\<forall>c < CONSUM_NUM. c_at s c = C_Done)"

subsection \<open>Counting over the consumers\<close>

definition tot :: "(cloc \<Rightarrow> int) \<Rightarrow> (nat \<Rightarrow> cloc) \<Rightarrow> int" where
  "tot f g = (\<Sum>c < CONSUM_NUM. f (g c))"

lemma tot_upd [simp]: "c < CONSUM_NUM \<Longrightarrow> tot f (g(c := l)) = tot f g + f l - f (g c)"
  by (simp add: tot_def sum.remove [of "{..<CONSUM_NUM}" c] lessThan_iff)

lemma tot_ge:
  assumes "\<And>l. 0 \<le> f l"
  shows "0 \<le> tot f g" and "c < CONSUM_NUM \<Longrightarrow> f (g c) \<le> tot f g"
  using assms by (auto simp: tot_def intro: sum_nonneg member_le_sum)

lemma tot_zero:
  assumes "\<And>l. 0 \<le> f l" and "tot f g = 0" and "c < CONSUM_NUM"
  shows "f (g c) = 0"
  using tot_ge(2) [of f, OF assms(1) assms(3), of g] assms by (metis order_antisym)

lemma tot_const: "(\<And>c. c < CONSUM_NUM \<Longrightarrow> f (g c) = k) \<Longrightarrow> tot f g = int CONSUM_NUM * k"
  by (simp add: tot_def)

subsection \<open>Termination\<close>

text \<open>Every step, in whatever order, takes from this measure.\<close>

fun p_weight :: "ploc \<Rightarrow> int" where
  "p_weight P_Start = 4"
| "p_weight P_Init = 3"
| "p_weight P_Inited = 2"
| "p_weight P_Loop = 1"
| "p_weight P_Mutex = 14"
| "p_weight P_Put = 13"
| "p_weight P_Post_mutex = 12"
| "p_weight P_Post_full = 11"
| "p_weight P_Done = 0"

fun c_weight :: "cloc \<Rightarrow> int" where
  "c_weight C_Start = 23"
| "c_weight C_Init = 22"
| "c_weight C_Inited = 21"
| "c_weight C_Loop = 20"
| "c_weight C_Mutex = 27"
| "c_weight C_Body = 26"
| "c_weight (C_Post_mutex b) = 25"
| "c_weight (C_Post_empty b) = 24"
| "c_weight C_End_mutex = 25"
| "c_weight C_End_empty = 24"
| "c_weight C_Exit = 10"
| "c_weight C_Done = 0"

definition pc_measure :: "pcs \<Rightarrow> int" where
  "pc_measure s = p_weight (p_at s) + 20 * (int SHMDATA - int (p_i s)) + 8 * s_full s + tot c_weight (c_at s)"

definition pc_bounded :: "pcs \<Rightarrow> bool" where
  "pc_bounded s \<longleftrightarrow> 0 \<le> s_full s \<and> p_i s \<le> SHMDATA \<and>
     (p_at s = P_Start \<or> p_at s = P_Init \<or> p_at s = P_Inited \<longrightarrow> p_i s = 0)"

lemma pc_step_measure:
  assumes "pc_step s t" and "pc_bounded s"
  shows "pc_measure t < pc_measure s \<and> pc_bounded t"
  using assms
  by (induction rule: pc_step.induct) (auto simp: pc_measure_def pc_bounded_def consume_def Let_def)

lemma pc_measure_ge: "pc_bounded s \<Longrightarrow> 0 \<le> pc_measure s"
proof -
  assume "pc_bounded s"
  moreover have "0 \<le> c_weight l" for l by (cases l) simp_all
  then have "0 \<le> tot c_weight (c_at s)" by (rule tot_ge)
  moreover have "0 \<le> p_weight (p_at s)" by (cases "p_at s") simp_all
  ultimately show ?thesis by (simp add: pc_measure_def pc_bounded_def)
qed

lemma pc_steps_measure:
  assumes "(pc_step ^^ n) s t" and "pc_bounded s"
  shows "pc_measure t + int n \<le> pc_measure s \<and> pc_bounded t"
  using assms(1)
proof (induction n arbitrary: t)
  case (Suc n)
  then obtain u where "(pc_step ^^ n) s u" and "pc_step u t" by auto
  with Suc.IH [of u] pc_step_measure [of u t] show ?case by auto
qed (use assms(2) in simp)

lemma pc_boot_bounded: "pc_bounded pc_boot"
  by (simp add: pc_bounded_def pc_boot_def)

lemma pc_steps_bound: "(pc_step ^^ n) pc_boot s \<Longrightarrow> n \<le> 6188"
proof -
  assume "(pc_step ^^ n) pc_boot s"
  from pc_steps_measure [OF this pc_boot_bounded] pc_measure_ge [of s]
  have "int n \<le> pc_measure pc_boot" by simp
  also have "pc_measure pc_boot = 6188"
    by (simp add: pc_measure_def pc_boot_def tot_def SHMDATA_def CONSUM_NUM_def)
  finally show ?thesis by simp
qed


subsection \<open>The invariant\<close>

text \<open>
  Who is between \<open>sem_wait(mutex)\<close> and \<open>sem_post(mutex)\<close>; who holds or owes a unit of \<open>full\<close>; who holds
  or owes one of \<open>empty\<close>; which consumers are on their way out.
\<close>

fun p_crit :: "ploc \<Rightarrow> int" where
  "p_crit P_Init = 1"
| "p_crit P_Inited = 1"
| "p_crit P_Put = 1"
| "p_crit P_Post_mutex = 1"
| "p_crit _ = 0"

fun c_crit :: "cloc \<Rightarrow> int" where
  "c_crit C_Init = 1"
| "c_crit C_Inited = 1"
| "c_crit C_Body = 1"
| "c_crit (C_Post_mutex b) = 1"
| "c_crit C_End_mutex = 1"
| "c_crit _ = 0"

fun p_pend :: "ploc \<Rightarrow> int" where
  "p_pend P_Post_mutex = 1"
| "p_pend P_Post_full = 1"
| "p_pend _ = 0"

fun p_fill :: "ploc \<Rightarrow> int" where
  "p_fill P_Mutex = 1"
| "p_fill P_Put = 1"
| "p_fill _ = 0"

fun c_token :: "cloc \<Rightarrow> int" where
  "c_token C_Mutex = 1"
| "c_token C_Body = 1"
| "c_token (C_Post_mutex b) = (if b then 0 else 1)"
| "c_token (C_Post_empty b) = (if b then 0 else 1)"
| "c_token C_End_mutex = 1"
| "c_token C_End_empty = 1"
| "c_token C_Exit = 1"
| "c_token _ = 0"

fun c_owes :: "cloc \<Rightarrow> int" where
  "c_owes (C_Post_mutex b) = (if b then 1 else 0)"
| "c_owes (C_Post_empty b) = (if b then 1 else 0)"
| "c_owes _ = 0"

fun c_leaves :: "cloc \<Rightarrow> int" where
  "c_leaves (C_Post_mutex b) = (if b then 0 else 1)"
| "c_leaves (C_Post_empty b) = (if b then 0 else 1)"
| "c_leaves C_End_mutex = 1"
| "c_leaves C_End_empty = 1"
| "c_leaves C_Exit = 1"
| "c_leaves C_Done = 1"
| "c_leaves _ = 0"

definition c_starts :: "cloc \<Rightarrow> int" where
  "c_starts l = (if starting l then 1 else 0)"

lemma c_starts_simps [simp]:
  "c_starts C_Start = 1" "c_starts C_Init = 1" "c_starts C_Inited = 1" "c_starts C_Loop = 0"
  "c_starts C_Mutex = 0" "c_starts C_Body = 0" "c_starts (C_Post_mutex b) = 0" "c_starts (C_Post_empty b) = 0"
  "c_starts C_End_mutex = 0" "c_starts C_End_empty = 0" "c_starts C_Exit = 0" "c_starts C_Done = 0"
  by (simp_all add: c_starts_def starting_def)

lemma c_nonneg: "0 \<le> c_crit l" "0 \<le> c_token l" "0 \<le> c_owes l" "0 \<le> c_leaves l" "0 \<le> c_starts l"
  by (cases l; simp)+

lemma p_nonneg: "0 \<le> p_crit l" "0 \<le> p_pend l" "0 \<le> p_fill l"
  by (cases l; simp)+

lemma tot_nonneg: "0 \<le> tot c_crit g" "0 \<le> tot c_token g" "0 \<le> tot c_owes g" "0 \<le> tot c_leaves g"
    "0 \<le> tot c_starts g"
  by (rule tot_ge(1), rule c_nonneg)+

lemma crit_le: "c < CONSUM_NUM \<Longrightarrow> c_crit (g c) \<le> tot c_crit g"
  and token_le: "c < CONSUM_NUM \<Longrightarrow> c_token (g c) \<le> tot c_token g"
  and owes_le: "c < CONSUM_NUM \<Longrightarrow> c_owes (g c) \<le> tot c_owes g"
  and leaves_le: "c < CONSUM_NUM \<Longrightarrow> c_leaves (g c) \<le> tot c_leaves g"
  and starts_le: "c < CONSUM_NUM \<Longrightarrow> c_starts (g c) \<le> tot c_starts g"
  by (rule tot_ge(2), rule c_nonneg, assumption)+

definition numbers :: "nat \<Rightarrow> int list" where
  "numbers n = List.map int [1..<Suc n]"

definition values_read :: "pcs \<Rightarrow> int list" where
  "values_read s = List.map snd (got s)"

definition nput :: "pcs \<Rightarrow> nat" where
  "nput s = (if p_at s = P_Mutex \<or> p_at s = P_Put then p_i s - 1 else p_i s)"

definition early :: "pcs \<Rightarrow> bool" where
  "early s \<longleftrightarrow> p_at s = P_Start \<or> p_at s = P_Init \<or> p_at s = P_Inited \<or> 0 < tot c_starts (c_at s)"

definition inv_mutex :: "pcs \<Rightarrow> bool" where
  "inv_mutex s \<longleftrightarrow> 0 \<le> s_mutex s \<and> s_mutex s + p_crit (p_at s) + tot c_crit (c_at s) = 1"

definition inv_place :: "pcs \<Rightarrow> bool" where
  "inv_place s \<longleftrightarrow> p_i s \<le> SHMDATA \<and> (p_at s = P_Done \<longrightarrow> p_i s = SHMDATA) \<and>
     (p_at s = P_Mutex \<or> p_at s = P_Put \<longrightarrow> 0 < p_i s) \<and>
     (early s \<longrightarrow> p_i s = 0 \<and> (p_at s = P_Start \<or> p_at s = P_Init \<or> p_at s = P_Inited \<or> p_at s = P_Loop))"

definition inv_data :: "pcs \<Rightarrow> bool" where
  "inv_data s \<longleftrightarrow> quene_ok (shm s) \<and> values_read s @ quene_list (shm s) = numbers (nput s)"

definition inv_count :: "pcs \<Rightarrow> bool" where
  "inv_count s \<longleftrightarrow> 0 \<le> s_full s \<and> 0 \<le> s_empty s \<and>
     s_full s + tot c_token (c_at s) + p_pend (p_at s) =
       (if ended s then 1 else int (length (quene_list (shm s))))"

definition inv_end :: "pcs \<Rightarrow> bool" where
  "inv_end s \<longleftrightarrow>
     (if ended s then quene_list (shm s) = [] \<and> p_i s = SHMDATA \<and> (p_at s = P_Loop \<or> p_at s = P_Done)
      else s_empty s + p_fill (p_at s) + int (length (quene_list (shm s))) + tot c_owes (c_at s) = int CONSUM_NUM \<and>
        tot c_leaves (c_at s) = 0 \<and> int SHMDATA \<notin> set (values_read s))"

lemmas pc_inv_defs = inv_mutex_def inv_place_def inv_data_def inv_count_def inv_end_def

definition pc_inv :: "pcs \<Rightarrow> bool" where
  "pc_inv s \<longleftrightarrow> inv_mutex s \<and> inv_place s \<and> inv_data s \<and> inv_count s \<and> inv_end s"

lemma inv_mutex_step: "pc_step s t \<Longrightarrow> inv_mutex s \<Longrightarrow> inv_mutex t"
  by (induction rule: pc_step.induct) (auto simp: inv_mutex_def consume_def Let_def)

lemma not_starting_tot: "(\<And>c. c < CONSUM_NUM \<Longrightarrow> \<not> starting (g c)) \<Longrightarrow> tot c_starts g = 0"
  using tot_const [of c_starts g 0] by (simp add: c_starts_def)

lemma shmdata_pos [simp]: "0 < SHMDATA" "SHMDATA \<noteq> 0"
  by (simp_all add: SHMDATA_def)

lemma inv_place_step:
  assumes "pc_sync s t" and "inv_place s"
  shows "inv_place t"
proof -
  have st: "pc_step s t" and w: "p_at s = P_Loop \<Longrightarrow> p_at t = P_Mutex \<Longrightarrow> tot c_starts (c_at s) = 0"
    using assms(1) not_starting_tot [of "c_at s"] by (auto simp: pc_sync_def)
  from st w assms(2) show ?thesis
    by (induction rule: pc_step.induct) (auto simp: inv_place_def early_def consume_def Let_def)
qed

lemma numbers_0 [simp]: "numbers 0 = []"
  by (simp add: numbers_def)

lemma numbers_Suc: "numbers (Suc n) = numbers n @ [int (Suc n)]"
  by (simp add: numbers_def)

lemma length_numbers [simp]: "length (numbers n) = n"
  by (simp add: numbers_def)

lemma init_shm_ok:
  assumes "quene_ok q"
  shows "quene_ok (init_shm q)" and "quene_list (init_shm q) = []" and "endflag (init_shm q) = 0"
  using quene_okD [OF assms]
  by (auto simp: init_shm_def FLAG_def QUENE_NUM_def quene_ok_def quene_len_def quene_list_def)


lemma put_endflag [simp]: "endflag (putQueneValue v q) = endflag q"
  by (simp add: putQueneValue_def)

lemma get_endflag [simp]: "endflag (snd (getQueneValue q)) = endflag q"
  by (simp add: getQueneValue_def)

lemma put_step:
  assumes inv: "pc_inv s" and at: "p_at s = P_Put"
    and t: "t = s\<lparr>shm := putQueneValue (int (p_i s)) (shm s), p_at := P_Post_mutex\<rparr>"
  shows "inv_data t \<and> inv_count t \<and> inv_end t"
proof -
  have ne: "\<not> ended s" using inv at by (auto simp: pc_inv_def inv_end_def)
  have ok: "quene_ok (shm s)" using inv by (simp add: pc_inv_def inv_data_def)
  have "s_empty s + 1 + int (length (quene_list (shm s))) + tot c_owes (c_at s) = int CONSUM_NUM" and "0 \<le> s_empty s"
    using inv ne at by (simp_all add: pc_inv_def inv_end_def inv_count_def)
  with tot_nonneg(3) [of "c_at s"] have room: "length (quene_list (shm s)) < QUENE_NUM - 1"
    by (simp add: CONSUM_NUM_def QUENE_NUM_def)
  have q: "quene_list (shm t) = quene_list (shm s) @ [int (p_i s)]" "quene_ok (shm t)"
    using qu.enq_contents [OF ok room] qu.enq_ok [OF ok room] by (simp_all add: t)
  have "numbers (p_i s) = numbers (p_i s - 1) @ [int (p_i s)]"
    using inv at numbers_Suc [of "p_i s - 1"] by (auto simp: pc_inv_def inv_place_def)
  with inv q at have "inv_data t" by (simp add: pc_inv_def inv_data_def t nput_def values_read_def)
  moreover have "\<not> ended t" using ne by (simp add: ended_def t)
  ultimately show ?thesis
    using inv at ne q by (simp add: pc_inv_def inv_count_def inv_end_def t values_read_def)
qed

text \<open>A consumer in the critical section finds a value, unless the end has been announced.\<close>

lemma body_not_empty:
  assumes inv: "pc_inv s" and c: "c < CONSUM_NUM" and at: "c_at s c = C_Body" and ne: "\<not> ended s"
  shows "quene_list (shm s) \<noteq> []"
proof -
  have "1 \<le> tot c_token (c_at s)" using token_le [OF c, of "c_at s"] at by simp
  with inv ne p_nonneg(2) [of "p_at s"] have "1 \<le> int (length (quene_list (shm s)))"
    by (simp add: pc_inv_def inv_count_def)
  then show ?thesis by auto
qed

lemma body_value:
  assumes inv: "pc_inv s" and c: "c < CONSUM_NUM" and at: "c_at s c = C_Body" and ne: "\<not> ended s"
  shows "fst (getQueneValue (shm s)) = hd (quene_list (shm s))"
    "quene_list (snd (getQueneValue (shm s))) = tl (quene_list (shm s))"
    "quene_ok (snd (getQueneValue (shm s)))"
    "values_read s @ hd (quene_list (shm s)) # tl (quene_list (shm s)) = numbers (nput s)"
proof -
  have ok: "quene_ok (shm s)" and v: "values_read s @ quene_list (shm s) = numbers (nput s)"
    using inv by (simp_all add: pc_inv_def inv_data_def)
  note nempty = body_not_empty [OF inv c at ne]
  show "fst (getQueneValue (shm s)) = hd (quene_list (shm s))"
    "quene_list (snd (getQueneValue (shm s))) = tl (quene_list (shm s))"
    using qu.deq_contents [OF ok nempty] by simp_all
  show "quene_ok (snd (getQueneValue (shm s)))" by (rule qu.deq_ok [OF ok nempty])
  show "values_read s @ hd (quene_list (shm s)) # tl (quene_list (shm s)) = numbers (nput s)"
    using v nempty by simp
qed

lemma numbers_last:
  assumes "xs @ int m # ys = numbers n" and "n \<le> m"
  shows "ys = [] \<and> n = m"
proof -
  have len: "length xs + Suc (length ys) = n" using arg_cong [OF assms(1), of length] by simp
  have "numbers n ! length xs = int (Suc (length xs))"
    using len by (simp add: numbers_def nth_append del: upt_Suc)
  moreover have "numbers n ! length xs = int m" by (simp flip: assms(1))
  ultimately have "m = Suc (length xs)" by (simp only: of_nat_eq_iff)
  then have "length ys = 0" using len assms(2) by linarith
  then show ?thesis using \<open>m = Suc (length xs)\<close> len by simp
qed

lemma body_step_end:
  assumes inv: "pc_inv s" and c: "c < CONSUM_NUM" and at: "c_at s c = C_Body" and ne: "\<not> ended s"
    and last: "hd (quene_list (shm s)) = int SHMDATA"
    and t: "t = s\<lparr>shm := snd (getQueneValue (shm s))\<lparr>endflag := FLAG\<rparr>,
      c_at := (c_at s)(c := C_Post_mutex False), got := got s @ [(c, int SHMDATA)]\<rparr>"
  shows "inv_data t \<and> inv_count t \<and> inv_end t"
proof -
  note v = body_value [OF inv c at ne]
  have pi: "p_i s \<le> SHMDATA" "p_at s = P_Mutex \<or> p_at s = P_Put \<Longrightarrow> 0 < p_i s"
    using inv by (simp_all add: pc_inv_def inv_place_def)
  have "tl (quene_list (shm s)) = [] \<and> nput s = SHMDATA"
    using v(4) pi(1) unfolding last by (intro numbers_last) (auto simp: nput_def)
  then have tl: "tl (quene_list (shm s)) = []" and n: "nput s = SHMDATA" by simp_all
  have q: "quene_list (shm t) = []" "quene_ok (shm t)" "ended t"
    using v(2,3) tl by (simp_all add: t ended_def quene_list_def quene_len_def quene_ok_def)
  have len: "int (length (quene_list (shm s))) = 1"
    using tl body_not_empty [OF inv c at ne] by (cases "quene_list (shm s)") auto
  have "1 \<le> tot c_token (c_at s)" using token_le [OF c, of "c_at s"] at by simp
  with inv ne len p_nonneg(2) [of "p_at s"]
  have cnt: "s_full s = 0" "tot c_token (c_at s) = 1" "p_pend (p_at s) = 0" "0 \<le> s_empty s"
    by (simp_all add: pc_inv_def inv_count_def)
  have at': "p_at s = P_Loop \<or> p_at s = P_Done" "p_i s = SHMDATA"
    using n pi cnt(3) inv by (cases "p_at s"; auto simp: nput_def pc_inv_def inv_place_def early_def)+
  then have "nput t = SHMDATA" by (auto simp: nput_def t)
  then have "inv_data t" using q v(4) n tl last by (simp add: inv_data_def) (simp add: values_read_def t)
  moreover have "inv_count t" using q cnt c at by (simp add: inv_count_def) (simp add: t)
  ultimately show ?thesis using q at' by (simp add: inv_end_def) (simp add: t)
qed

lemma body_step:
  assumes inv: "pc_inv s" and c: "c < CONSUM_NUM" and at: "c_at s c = C_Body"
  shows "inv_data (consume c s) \<and> inv_count (consume c s) \<and> inv_end (consume c s)"
proof (cases "ended s")
  case True
  then have "consume c s = s\<lparr>c_at := (c_at s)(c := C_End_mutex)\<rparr>" by (simp add: consume_def)
  then show ?thesis
    using inv True c at
    by (auto simp: pc_inv_def inv_data_def inv_count_def inv_end_def ended_def values_read_def nput_def)
next
  case ne: False
  note v = body_value [OF inv c at ne] and nempty = body_not_empty [OF inv c at ne]
  show ?thesis
  proof (cases "hd (quene_list (shm s)) = int SHMDATA")
    case True
    then show ?thesis
      using body_step_end [OF inv c at ne True refl] ne v(1) by (simp add: consume_def Let_def)
  next
    case False
    let ?t = "consume c s"
    have t: "?t = s\<lparr>shm := snd (getQueneValue (shm s)), c_at := (c_at s)(c := C_Post_mutex True),
        got := got s @ [(c, hd (quene_list (shm s)))]\<rparr>"
      using ne v(1) False by (simp add: consume_def Let_def)
    have lt: "int (length (tl (quene_list (shm s)))) = int (length (quene_list (shm s))) - 1"
      using nempty by (cases "quene_list (shm s)") auto
    have net: "\<not> ended ?t" using ne by (simp add: ended_def t)
    have "inv_data ?t" using v by (simp add: inv_data_def t values_read_def nput_def)
    moreover have "inv_count ?t" using net v(2) inv ne nempty c at
      by (simp add: inv_count_def pc_inv_def) (simp add: t v(2) lt del: length_tl)
    moreover have "inv_end ?t" using net v(2) inv ne nempty c at False
      by (simp add: inv_end_def pc_inv_def) (simp add: t v(2) lt values_read_def del: length_tl)
    ultimately show ?thesis by simp
  qed
qed


text \<open>Initialising the shared memory does no harm as long as nothing has been put.\<close>

lemma early_facts:
  assumes inv: "pc_inv s" and e: "early s"
  shows "\<not> ended s" "values_read s = []" "quene_list (shm s) = []" "quene_ok (shm s)" "nput s = 0"
proof -
  have i: "p_i s = 0" using inv e by (simp add: pc_inv_def inv_place_def)
  then show n: "nput s = 0" by (simp add: nput_def)
  show "\<not> ended s" using inv i by (auto simp: pc_inv_def inv_end_def)
  have "quene_ok (shm s) \<and> values_read s @ quene_list (shm s) = []"
    using inv n by (simp add: pc_inv_def inv_data_def)
  then show "values_read s = []" "quene_list (shm s) = []" "quene_ok (shm s)" by simp_all
qed

lemma init_step:
  assumes inv: "pc_inv s" and e: "early s"
    and shm: "shm t = init_shm (shm s)" and same: "got t = got s" "s_full t = s_full s" "s_empty t = s_empty s"
      "nput t = nput s"
    and w: "tot c_token (c_at t) = tot c_token (c_at s)" "p_pend (p_at t) = p_pend (p_at s)"
      "p_fill (p_at t) = p_fill (p_at s)" "tot c_owes (c_at t) = tot c_owes (c_at s)"
      "tot c_leaves (c_at t) = tot c_leaves (c_at s)"
  shows "inv_data t \<and> inv_count t \<and> inv_end t"
proof -
  note f = early_facts [OF inv e] and g = init_shm_ok [OF early_facts(4) [OF inv e]]
  have ne: "\<not> ended t" using g(3) by (simp add: ended_def shm FLAG_def)
  have "inv_data t" using f g by (simp add: inv_data_def shm same values_read_def)
  moreover have "inv_count t" using inv f(1,3) g(2) ne by (simp add: pc_inv_def inv_count_def shm same w)
  moreover have "inv_end t"
    using inv f(1,2,3) g(2) ne by (simp add: pc_inv_def inv_end_def shm same w values_read_def)
  ultimately show ?thesis by simp
qed

text \<open>The other steps leave the shared memory as it is.\<close>

lemma other_step:
  assumes "inv_data s" and "inv_count s" and "inv_end s" and "shm t = shm s" and "got t = got s"
    and "nput t = nput s" and "0 \<le> s_full t" and "0 \<le> s_empty t"
    and "s_full t + tot c_token (c_at t) + p_pend (p_at t) = s_full s + tot c_token (c_at s) + p_pend (p_at s)"
    and "ended s \<Longrightarrow> p_i t = p_i s \<and> (p_at t = P_Loop \<or> p_at t = P_Done)"
    and "\<not> ended s \<Longrightarrow> s_empty t + p_fill (p_at t) + tot c_owes (c_at t) =
        s_empty s + p_fill (p_at s) + tot c_owes (c_at s) \<and> tot c_leaves (c_at t) = tot c_leaves (c_at s)"
  shows "inv_data t \<and> inv_count t \<and> inv_end t"
  using assms by (cases "ended s") (auto simp: inv_data_def inv_count_def inv_end_def ended_def values_read_def)

lemma early_c: "\<lbrakk>c < CONSUM_NUM; starting (c_at s c)\<rbrakk> \<Longrightarrow> early s"
  using starts_le [of c "c_at s"] by (auto simp: early_def c_starts_def)

lemma not_leaving: "\<lbrakk>inv_end s; \<not> ended s; c < CONSUM_NUM\<rbrakk> \<Longrightarrow> c_leaves (c_at s c) = 0"
  by (rule tot_zero [OF c_nonneg(4)]) (simp_all add: inv_end_def)

lemma inv_data_step:
  assumes "pc_step s t" and "pc_inv s"
  shows "inv_data t \<and> inv_count t \<and> inv_end t"
proof -
  have d: "inv_data s" "inv_count s" "inv_end s" and p: "inv_place s" and n: "0 \<le> s_full s" "0 \<le> s_empty s"
    using assms(2) by (simp_all add: pc_inv_def inv_count_def)
  have at: "p_at s = P_Loop \<or> p_at s = P_Done" "p_i s = SHMDATA" if "ended s" using d(3) that by (simp_all add: inv_end_def)
  from assms(1) show ?thesis
  proof cases
    case p_put
    then show ?thesis using put_step [OF assms(2)] by simp
  next
    case (c_body c)
    then show ?thesis using body_step [OF assms(2)] by simp
  next
    case p_init
    then show ?thesis by (intro init_step [OF assms(2)]) (simp_all add: early_def nput_def)
  next
    case (c_init c)
    then show ?thesis by (intro init_step [OF assms(2) early_c [of c]]) (simp_all add: starting_def nput_def)
  next
    case p_inited
    then show ?thesis using n at p by (intro other_step [OF d]) (auto simp: nput_def inv_place_def early_def)
  next
    case (c_post_empty c b)
    then show ?thesis using n not_leaving [OF d(3), of c] at
      by (intro other_step [OF d]) (auto simp: nput_def split: if_splits)
  next
    case (c_end_empty c)
    then show ?thesis using n not_leaving [OF d(3), of c] at by (intro other_step [OF d]) (auto simp: nput_def)
  qed (use n at in \<open>intro other_step [OF d]; auto simp: nput_def\<close>)+
qed

lemma pc_inv_step: "pc_sync s t \<Longrightarrow> pc_inv s \<Longrightarrow> pc_inv t"
  using inv_mutex_step inv_place_step inv_data_step by (auto simp: pc_inv_def pc_sync_def)

lemma pc_inv_boot: "pc_inv pc_boot"
proof -
  have "tot c_crit (c_at pc_boot) = 0" "tot c_token (c_at pc_boot) = 0" "tot c_owes (c_at pc_boot) = 0"
    "tot c_leaves (c_at pc_boot) = 0"
    using tot_const [of _ "c_at pc_boot" 0] by (simp_all add: pc_boot_def)
  moreover have "quene_ok (shm pc_boot)" "quene_list (shm pc_boot) = []"
    by (simp_all add: pc_boot_def quene_ok_def quene_list_def quene_len_def QUENE_NUM_def)
  ultimately show ?thesis
    by (simp add: pc_inv_def inv_mutex_def inv_place_def inv_data_def inv_count_def inv_end_def)
      (simp add: pc_boot_def early_def nput_def values_read_def ended_def FLAG_def)
qed

lemma pc_inv_reachable: "pc_sync\<^sup>*\<^sup>* pc_boot s \<Longrightarrow> pc_inv s"
  by (induction rule: rtranclp_induct) (simp_all add: pc_inv_boot pc_inv_step)


text \<open>At no time are two processes between their \<open>sem_wait\<close> and \<open>sem_post\<close> of the mutex.\<close>

lemma one_inside: "inv_mutex s \<Longrightarrow> p_crit (p_at s) + tot c_crit (c_at s) \<le> 1"
  by (simp add: inv_mutex_def)

text \<open>C19: as long as nothing is put before all eight consumers have initialised the shared memory (what
  \<open>pc.c\<close> sleeps ten seconds for; nothing enforces it, and C40 shows what happens without), the consumers
  together read the numbers from 1 on, each once and in order, whoever reads them: no value is lost or read
  twice, the queue is never found empty (a read never gives -1), never more than eight values lie in it, and
  at no time is more than one of the nine processes between its \<open>sem_wait\<close> and \<open>sem_post\<close> of the mutex.
  The semaphores are counters here, and what a process does with the queue inside the mutex is one step.\<close>

theorem prodcons_in_order:
  assumes "pc_sync\<^sup>*\<^sup>* pc_boot s"
  shows "\<exists>n \<le> SHMDATA. values_read s @ quene_list (shm s) = numbers n \<and> length (quene_list (shm s)) \<le> CONSUM_NUM \<and>
    p_crit (p_at s) + tot c_crit (c_at s) \<le> 1"
proof -
  note inv = pc_inv_reachable [OF assms]
  then have "values_read s @ quene_list (shm s) = numbers (nput s)" "nput s \<le> SHMDATA"
    by (auto simp: pc_inv_def inv_data_def inv_place_def nput_def)
  moreover have "length (quene_list (shm s)) \<le> CONSUM_NUM"
    using inv p_nonneg(3) [of "p_at s"] tot_nonneg(3) [of "c_at s"]
    by (auto simp: pc_inv_def inv_end_def inv_count_def split: if_splits)
  moreover have "p_crit (p_at s) + tot c_crit (c_at s) \<le> 1"
    using inv by (simp add: pc_inv_def one_inside)
  ultimately show ?thesis by blast
qed

subsection \<open>Every run comes to its end\<close>

lemma exists_weight: "0 < tot f g \<Longrightarrow> \<exists>c < CONSUM_NUM. 0 < f (g c)"
  using sum_nonpos [of "{..<CONSUM_NUM}" "\<lambda>c. f (g c)"] by (fastforce simp: tot_def not_less)

lemma pc_syncI: "pc_step s t \<Longrightarrow> p_at s \<noteq> P_Loop \<or> p_at t \<noteq> P_Mutex \<Longrightarrow> pc_sync s t"
  by (auto simp: pc_sync_def)

lemma consume_p_at [simp]: "p_at (consume c s) = p_at s"
  by (simp add: consume_def Let_def)

text \<open>Who has nothing to wait for can go on, a consumer in the critical section among them.\<close>

lemma p_moves:
  assumes "p_at s \<noteq> P_Loop" and "p_at s \<noteq> P_Done" and "p_at s = P_Start \<or> p_at s = P_Mutex \<Longrightarrow> 0 < s_mutex s"
  shows "\<exists>t. pc_sync s t"
proof -
  have "\<exists>t. pc_step s t"
    using assms p_start [of s] p_init [of s] p_inited [of s] p_mutex [of s] p_put [of s] p_post_mutex [of s]
      p_post_full [of s] by (cases "p_at s") blast+
  with assms(1) show ?thesis using pc_syncI by blast
qed

lemma c_go: "pc_step s t \<Longrightarrow> p_at t = p_at s \<Longrightarrow> \<exists>t. pc_sync s t"
  using pc_syncI [of s t] by (cases "p_at s") auto

lemma c_moves:
  assumes c: "c < CONSUM_NUM" and "c_at s c \<noteq> C_Loop" and "c_at s c \<noteq> C_Done"
    and m: "c_at s c = C_Start \<or> c_at s c = C_Mutex \<Longrightarrow> 0 < s_mutex s"
  shows "\<exists>t. pc_sync s t"
proof (cases "c_at s c")
    case C_Start
    then show ?thesis using m by (intro c_go [OF c_start [OF c]]) simp_all
  next
    case C_Init
    then show ?thesis using m by (intro c_go [OF c_init [OF c]]) simp_all
  next
    case C_Inited
    then show ?thesis using m by (intro c_go [OF c_inited [OF c]]) simp_all
  next
    case C_Mutex
    then show ?thesis using m by (intro c_go [OF c_mutex [OF c]]) simp_all
  next
    case C_Body
    then show ?thesis using m by (intro c_go [OF c_body [OF c]]) simp_all
  next
    case (C_Post_mutex b)
    then show ?thesis using m by (intro c_go [OF c_post_mutex [OF c]]) simp_all
  next
    case (C_Post_empty b)
    then show ?thesis using m by (intro c_go [OF c_post_empty [OF c]]) simp_all
  next
    case C_End_mutex
    then show ?thesis using m by (intro c_go [OF c_end_mutex [OF c]]) simp_all
  next
    case C_End_empty
    then show ?thesis using m by (intro c_go [OF c_end_empty [OF c]]) simp_all
  next
    case C_Exit
    then show ?thesis using m by (intro c_go [OF c_exit [OF c]]) simp_all
qed (use assms(2,3) in simp_all)

lemma mutex_free:
  assumes "inv_mutex s" and stuck: "\<nexists>t. pc_sync s t"
  shows "0 < s_mutex s"
proof (rule ccontr)
  assume n: "\<not> 0 < s_mutex s"
  have "p_crit (p_at s) = 0" using p_moves [of s] stuck by (cases "p_at s") auto
  with n assms(1) exists_weight [of c_crit "c_at s"] obtain c where "c < CONSUM_NUM" "0 < c_crit (c_at s c)"
    by (auto simp: inv_mutex_def)
  then show False using c_moves [of c s] stuck by (cases "c_at s c") auto
qed

text \<open>A state without a next step: everyone waits at the top of the loop or has ended.\<close>

lemma stuck_places:
  assumes "inv_mutex s" and stuck: "\<nexists>t. pc_sync s t"
  shows "p_at s = P_Loop \<or> p_at s = P_Done"
    and "c < CONSUM_NUM \<Longrightarrow> c_at s c = C_Loop \<or> c_at s c = C_Done"
    and "tot c_token (c_at s) = 0" and "tot c_owes (c_at s) = 0"
    and "c < CONSUM_NUM \<Longrightarrow> c_at s c = C_Loop \<Longrightarrow> s_full s \<le> 0"
    and "p_at s = P_Loop \<Longrightarrow> p_i s < SHMDATA \<and> s_empty s \<le> 0"
proof -
  note m = mutex_free [OF assms]
  show "p_at s = P_Loop \<or> p_at s = P_Done" using p_moves [of s] stuck m by blast
  have at: "c_at s c = C_Loop \<or> c_at s c = C_Done" if "c < CONSUM_NUM" for c using c_moves [of c s] stuck m that by blast
  then show "c < CONSUM_NUM \<Longrightarrow> c_at s c = C_Loop \<or> c_at s c = C_Done" .
  have "c_token (c_at s c) = 0" "c_owes (c_at s c) = 0" if "c < CONSUM_NUM" for c using at [OF that] by auto
  then show "tot c_token (c_at s) = 0" "tot c_owes (c_at s) = 0"
    using tot_const [of c_token "c_at s" 0] tot_const [of c_owes "c_at s" 0] by simp_all
  show "s_full s \<le> 0" if c: "c < CONSUM_NUM" "c_at s c = C_Loop"
  proof (rule ccontr)
    assume "\<not> s_full s \<le> 0"
    then have "0 < s_full s" by simp
    from pc_syncI [OF c_full [OF c this]] show False using stuck by (cases "p_at s") auto
  qed
  show "p_i s < SHMDATA \<and> s_empty s \<le> 0" if l: "p_at s = P_Loop"
  proof (rule ccontr)
    assume "\<not> (p_i s < SHMDATA \<and> s_empty s \<le> 0)"
    moreover have "\<not> starting (c_at s c)" if "c < CONSUM_NUM" for c using at [OF that] by (auto simp: starting_def)
    ultimately have "\<exists>t. pc_sync s t"
      using p_loop [OF l] pc_syncI [OF p_leave [OF l]] by (cases "p_i s < SHMDATA") (auto simp: pc_sync_def)
    then show False using stuck by blast
  qed
qed

lemma stuck_finished:
  assumes "pc_sync\<^sup>*\<^sup>* pc_boot s" and stuck: "\<nexists>t. pc_sync s t"
  shows "pc_finished s \<and> values_read s = numbers SHMDATA"
proof -
  note inv = pc_inv_reachable [OF assms(1)]
  then have m: "inv_mutex s" by (simp add: pc_inv_def)
  note at = stuck_places [OF m stuck]
  have p: "p_pend (p_at s) = 0" "p_fill (p_at s) = 0" using at(1) by auto
  have v: "values_read s @ quene_list (shm s) = numbers (p_i s)"
    using inv at(1) by (auto simp: pc_inv_def inv_data_def nput_def)
  show ?thesis
  proof (cases "ended s")
    case True
    then have e: "quene_list (shm s) = []" "p_i s = SHMDATA" "s_full s = 1"
      using inv p at(3) by (simp_all add: pc_inv_def inv_end_def inv_count_def)
    then have "p_at s = P_Done" using at(1,6) by auto
    moreover have "c_at s c = C_Done" if "c < CONSUM_NUM" for c using at(2,5) [OF that] e(3) by auto
    ultimately show ?thesis using v e by (simp add: pc_finished_def)
  next
    case False
    have c0: "0 < CONSUM_NUM" by (simp add: CONSUM_NUM_def)
    have "c_at s 0 = C_Loop" using not_leaving [OF _ False c0] at(2) [OF c0] inv by (auto simp: pc_inv_def)
    with at(5) [OF c0] have "s_full s \<le> 0" by simp
    then have "int (length (quene_list (shm s))) \<le> 0" using inv False p at(3) by (auto simp: pc_inv_def inv_count_def)
    then have q: "quene_list (shm s) = []" by simp
    then have "s_empty s = int CONSUM_NUM" using inv False p at(4) by (simp add: pc_inv_def inv_end_def)
    then have "p_at s = P_Done" using at(1,6) c0 by auto
    then have "p_i s = SHMDATA" using inv by (simp add: pc_inv_def inv_place_def)
    then have "int SHMDATA \<in> set (values_read s)" using v q by (simp add: numbers_def Suc_le_eq)
    then show ?thesis using inv False by (simp add: pc_inv_def inv_end_def)
  qed
qed


lemma pc_sync_steps: "(pc_sync ^^ n) s t \<Longrightarrow> (pc_step ^^ n) s t"
  by (rule relpowp_mono [of pc_sync pc_step]) (simp_all add: pc_sync_def)

lemma finished_reachable: "\<exists>s. pc_sync\<^sup>*\<^sup>* pc_boot s \<and> (\<nexists>t. pc_sync s t)"
proof -
  let ?P = "\<lambda>s. pc_sync\<^sup>*\<^sup>* pc_boot s"
  have bnd: "pc_bounded s" if "?P s" for s
    using that by (induction rule: rtranclp_induct) (auto simp: pc_boot_bounded pc_sync_def dest: pc_step_measure)
  obtain s where s: "?P s" and least: "\<And>t. ?P t \<Longrightarrow> nat (pc_measure s) \<le> nat (pc_measure t)"
    using ex_has_least_nat [of ?P pc_boot "\<lambda>s. nat (pc_measure s)"] by auto
  have False if t: "pc_sync s t" for t
  proof -
    have "?P t" using s t by (rule rtranclp.rtrancl_into_rtrancl)
    moreover have "pc_measure t < pc_measure s" using pc_step_measure [of s t] bnd [OF s] t by (simp add: pc_sync_def)
    ultimately show False using least [of t] pc_measure_ge [OF bnd [of t]] by simp
  qed
  with s show ?thesis by blast
qed

text \<open>C20: in every interleaving of its nine processes the test program stops: it never takes more than 6188
  steps. And in those in which nothing is put before all eight consumers have initialised the shared memory
  (what \<open>pc.c\<close> sleeps ten seconds for; nothing enforces it, and C40 shows what happens without) a deadlock
  is impossible: whenever no process can take a step all nine have ended, and the consumers have read exactly
  the numbers from 1 to 300. The semaphores are counters here, and what a process does with the queue inside
  the mutex is one step.\<close>

theorem prodcons_finishes:
  assumes "(pc_step ^^ n) pc_boot s"
  shows "n \<le> 6188 \<and>
    ((pc_sync ^^ n) pc_boot s \<and> (\<nexists>t. pc_sync s t) \<longrightarrow> pc_finished s \<and> values_read s = numbers SHMDATA)"
proof -
  have "n \<le> 6188" using assms by (rule pc_steps_bound)
  moreover have "pc_sync\<^sup>*\<^sup>* pc_boot s" if "(pc_sync ^^ n) pc_boot s" using that by (rule relpowp_imp_rtranclp)
  ultimately show ?thesis using stuck_finished by blast
qed

lemma boot_shm:
  "shm pc_boot = \<lparr>qhead = 0, qtail = 0, shmad = replicate QUENE_NUM 0, iniflag = 0, endflag = 0\<rparr>"
  by (simp add: pc_boot_def)

text \<open>
  The test that guards the initialisation reads \<open>head\<close>, which never has the value \<open>0x55AA\<close>, where
  \<open>iniflag\<close> is meant: every process initialises, and one that comes late throws away what is queued.
\<close>

text \<open>C40: without the delay of the producer a consumer can read -1 from a queue in which \<open>full\<close> announces
  a value, and the value 1 is lost: it is neither read nor queued any more.\<close>

theorem prodcons_late_start:
  "\<exists>s. pc_step\<^sup>*\<^sup>* pc_boot s \<and> values_read s = [- 1] \<and> quene_list (shm s) = [] \<and> p_i s = 1 \<and> p_at s = P_Loop"
proof -
  let ?S = "\<lambda>m f e q l i c g. \<lparr>s_mutex = m, s_full = f, s_empty = e, shm = q, p_at = l, p_i = i,
    c_at = (\<lambda>_. C_Start)(0 := c), got = g\<rparr>"
  let ?q1 = "init_shm (shm pc_boot)"
  let ?q2 = "putQueneValue (int 1) ?q1"
  let ?q3 = "init_shm ?q2"
  have c0: "0 < CONSUM_NUM" by (simp add: CONSUM_NUM_def)
  have q1: "?q1 = \<lparr>qhead = 0, qtail = 0, shmad = replicate QUENE_NUM 0, iniflag = FLAG, endflag = 0\<rparr>"
    by (simp add: init_shm_def FLAG_def boot_shm)
  have q2: "?q2 = ?q1\<lparr>qhead := 1, shmad := (replicate QUENE_NUM 0)[0 := 1]\<rparr>"
    by (simp add: q1 putQueneValue_def isQueneFull_def QUENE_NUM_def)
  have q3: "?q3 = ?q1" unfolding q2 by (simp add: init_shm_def boot_shm FLAG_def)
  have read: "consume 0 (?S 0 0 7 ?q3 P_Loop 1 C_Body []) = ?S 0 0 7 ?q1 P_Loop 1 (C_Post_mutex True) [(0, - 1)]"
    unfolding q3 by (simp add: consume_def ended_def q1 FLAG_def getQueneValue_def isQueneEmpty_def QUENE_NUM_def SHMDATA_def)
  have boot: "pc_boot = ?S 1 0 8 (shm pc_boot) P_Start 0 C_Start []"
    by (rule pcs.equality) (simp_all add: pc_boot_def CONSUM_NUM_def fun_upd_idem)
  note steps = p_start [of "?S 1 0 8 (shm pc_boot) P_Start 0 C_Start []"]
    p_init [of "?S 0 0 8 (shm pc_boot) P_Init 0 C_Start []"] p_inited [of "?S 0 0 8 ?q1 P_Inited 0 C_Start []"]
    p_loop [of "?S 1 0 8 ?q1 P_Loop 0 C_Start []"] p_mutex [of "?S 1 0 7 ?q1 P_Mutex 1 C_Start []"]
    p_put [of "?S 0 0 7 ?q1 P_Put 1 C_Start []"] p_post_mutex [of "?S 0 0 7 ?q2 P_Post_mutex 1 C_Start []"]
    p_post_full [of "?S 1 0 7 ?q2 P_Post_full 1 C_Start []"]
    c_start [of 0 "?S 1 1 7 ?q2 P_Loop 1 C_Start []", OF c0] c_init [of 0 "?S 0 1 7 ?q2 P_Loop 1 C_Init []", OF c0]
    c_inited [of 0 "?S 0 1 7 ?q3 P_Loop 1 C_Inited []", OF c0] c_full [of 0 "?S 1 1 7 ?q3 P_Loop 1 C_Loop []", OF c0]
    c_mutex [of 0 "?S 1 0 7 ?q3 P_Loop 1 C_Mutex []", OF c0] c_body [of 0 "?S 0 0 7 ?q3 P_Loop 1 C_Body []", OF c0]
  have "pc_step\<^sup>*\<^sup>* (?S 1 0 8 (shm pc_boot) P_Start 0 C_Start []) (?S 0 0 7 ?q1 P_Loop 1 (C_Post_mutex True) [(0, - 1)])"
    using steps unfolding read by (simp add: rtranclp.rtrancl_into_rtrancl)
  then have "pc_step\<^sup>*\<^sup>* pc_boot (?S 0 0 7 ?q1 P_Loop 1 (C_Post_mutex True) [(0, - 1)])" by (simp flip: boot)
  then show ?thesis
    by (intro exI conjI) (assumption, simp_all add: values_read_def q1 quene_list_def quene_len_def)
qed

theorem prodcons_in_order_witness:
  "\<exists>s. values_read s = numbers SHMDATA \<and>
     (\<exists>n \<le> SHMDATA. values_read s @ quene_list (shm s) = numbers n \<and> length (quene_list (shm s)) \<le> CONSUM_NUM \<and>
        p_crit (p_at s) + tot c_crit (c_at s) \<le> 1)"
proof -
  obtain s where "pc_sync\<^sup>*\<^sup>* pc_boot s" "\<nexists>t. pc_sync s t" using finished_reachable by blast
  from prodcons_in_order [OF this(1)] stuck_finished [OF this] show ?thesis by blast
qed

theorem prodcons_finishes_witness:
  "\<exists>n s. (pc_sync ^^ n) pc_boot s \<and> n \<le> 6188 \<and> pc_finished s \<and> values_read s = numbers SHMDATA"
proof -
  obtain s where s: "pc_sync\<^sup>*\<^sup>* pc_boot s" "\<nexists>t. pc_sync s t" using finished_reachable by blast
  obtain n where n: "(pc_sync ^^ n) pc_boot s" using rtranclp_imp_relpowp [OF s(1)] by blast
  then have "(pc_step ^^ n) pc_boot s" by (rule pc_sync_steps)
  with prodcons_finishes [OF this] n s(2) show ?thesis by blast
qed

end
