(* ===== verification/Floppy.thy ===== *)
theory Floppy
  imports Hd
begin

text \<open>
  The driver of the floppy disks, \<open>kernel/blk_drv/floppy.c\<close>, with \<open>include/linux/fdreg.h\<close> and the
  interrupt entry of \<open>kernel/system_call.s\<close>. As in theory \<open>Hd\<close> the controller is the environment that
  answers the input instructions, and what is written to the ports is appended to \<open>outputs\<close>. The motor
  timers are those of theory \<open>Timers\<close>. Where the data of a buffer lies in memory, which matters to the DMA
  controller, is \<open>b_address\<close>. Delay loops and messages have no effect here.
\<close>

subsection \<open>Data\<close>

definition FD_STATUS :: u16 where "FD_STATUS = 0x3F4"
definition FD_DATA :: u16 where "FD_DATA = 0x3F5"
definition FD_DOR :: u16 where "FD_DOR = 0x3F2"
definition FD_DIR :: u16 where "FD_DIR = 0x3F7"
definition FD_DCR :: u16 where "FD_DCR = 0x3F7"

definition STATUS_BUSY :: u8 where "STATUS_BUSY = 0x10"
definition STATUS_DIR :: u8 where "STATUS_DIR = 0x40"
definition STATUS_READY :: u8 where "STATUS_READY = 0x80"

definition FD_RECALIBRATE :: u8 where "FD_RECALIBRATE = 0x07"
definition FD_SEEK :: u8 where "FD_SEEK = 0x0F"
definition FD_READ :: u8 where "FD_READ = 0xE6"
definition FD_WRITE :: u8 where "FD_WRITE = 0xC5"
definition FD_SENSEI :: u8 where "FD_SENSEI = 0x08"
definition FD_SPECIFY :: u8 where "FD_SPECIFY = 0x03"

definition DMA_READ :: u8 where "DMA_READ = 0x46"
definition DMA_WRITE :: u8 where "DMA_WRITE = 0x4A"

definition FD_MAX_ERRORS :: int where "FD_MAX_ERRORS = 8"
definition MAX_REPLIES :: nat where "MAX_REPLIES = 7"

definition FD_TYPE :: "nat \<Rightarrow> nat" where "FD_TYPE x = x div 4"
definition FD_DRIVE :: "int \<Rightarrow> nat" where "FD_DRIVE x = unat (of_int x AND 3 :: u32)"

record floppy_struct =
  fl_size :: u32
  fl_sect :: u32
  fl_head :: u32
  fl_track :: u32
  fl_stretch :: u32
  fl_gap :: u8
  fl_rate :: u8
  fl_spec1 :: u8

definition fl :: "u32 \<Rightarrow> u32 \<Rightarrow> u32 \<Rightarrow> u32 \<Rightarrow> u32 \<Rightarrow> u8 \<Rightarrow> u8 \<Rightarrow> u8 \<Rightarrow> floppy_struct" where
  "fl sz sect head track stretch gap rate spec1 =
     \<lparr>fl_size = sz, fl_sect = sect, fl_head = head, fl_track = track, fl_stretch = stretch,
      fl_gap = gap, fl_rate = rate, fl_spec1 = spec1\<rparr>"

definition floppy_type :: "floppy_struct list" where
  "floppy_type =
     [fl 0 0 0 0 0 0x00 0x00 0x00,
      fl 720 9 2 40 0 0x2A 0x02 0xDF,
      fl 2400 15 2 80 0 0x1B 0x00 0xDF,
      fl 720 9 2 40 1 0x2A 0x02 0xDF,
      fl 1440 9 2 80 0 0x2A 0x02 0xDF,
      fl 720 9 2 40 1 0x23 0x01 0xDF,
      fl 1440 9 2 80 0 0x23 0x01 0xDF,
      fl 2880 18 2 80 0 0x1B 0x00 0xCF]"

datatype fd_intr = Rw_interrupt | Seek_interrupt | Recal_interrupt | Reset_interrupt

text \<open>The numbers by which the two functions of this file stand in the list of timers.\<close>

definition TRANSFER :: nat where "TRANSFER = 1"
definition FLOPPY_ON_INTERRUPT :: nat where "FLOPPY_ON_INTERRUPT = 2"

record fds = hds +
  fd_recalibrate :: bool
  fd_reset :: bool
  fd_seek :: bool
  reply_buffer :: "u8 list"
  cur_spec1 :: int
  cur_rate :: int
  floppy :: nat
  current_drive :: u8
  fd_sector :: u8
  fd_head :: u8
  fd_track :: u8
  seek_track :: u8
  current_track :: u8
  fd_command :: u8
  fd_selected :: bool
  wait_on_floppy_select :: "nat option"
  do_floppy :: "fd_intr option"
  b_address :: "nat \<Rightarrow> u32"
  tmp_area_address :: u32
  tmp_floppy_area :: "u8 list"

abbreviation fl_now :: "'a fds_scheme \<Rightarrow> floppy_struct" where
  "fl_now s \<equiv> floppy_type ! floppy s"

subsection \<open>Selecting a drive\<close>

definition floppy_deselect :: "'a fds_scheme \<Rightarrow> 'a fds_scheme" where
  "floppy_deselect s =
     (case wake_up (wait_on_floppy_select s) (s\<lparr>fd_selected := False\<rparr>) of (q, s) \<Rightarrow>
      s\<lparr>wait_on_floppy_select := q\<rparr>)"

text \<open>
  \<open>floppy_change\<close> up to the first time it has to wait, after which it asks again. One more round is
  needed when no drive is selected and another one was in the register.
\<close>

fun fd_change :: "nat \<Rightarrow> nat \<Rightarrow> 'a fds_scheme \<Rightarrow> (bool, 'a fds_scheme) res" where
  "fd_change 0 nr s = Hang"
| "fd_change (Suc fuel) nr s =
     bind (floppy_on (fd_selected s) nr s) (\<lambda>_ s.
     if unat (current_DOR s AND 3) \<noteq> nr then
       if fd_selected s
       then bind (interruptible_sleep_on_enter (wait_on_floppy_select s) s) (\<lambda>q t.
              Sleeps (t\<lparr>wait_on_floppy_select := q\<rparr>))
       else fd_change fuel nr s
     else case port_inb FD_DIR s of (v, s) \<Rightarrow> Ok (v AND 0x80 \<noteq> 0) (floppy_off nr s))"

subsection \<open>The controller\<close>

fun out_loop :: "nat \<Rightarrow> u8 \<Rightarrow> 'a fds_scheme \<Rightarrow> 'a fds_scheme" where
  "out_loop 0 byte s = s\<lparr>fd_reset := True\<rparr>"
| "out_loop (Suc n) byte s =
     (case port_inb FD_STATUS s of (v, s) \<Rightarrow>
      if v AND (STATUS_READY OR STATUS_DIR) = STATUS_READY then port_outb (ucast byte) FD_DATA s
      else out_loop n byte s)"

definition output_byte :: "u8 \<Rightarrow> 'a fds_scheme \<Rightarrow> 'a fds_scheme" where
  "output_byte byte s = (if fd_reset s then s else out_loop 10000 byte s)"

text \<open>The number of bytes of the reply, or -1.\<close>

fun result_loop :: "nat \<Rightarrow> nat \<Rightarrow> 'a fds_scheme \<Rightarrow> int \<times> 'a fds_scheme" where
  "result_loop 0 i s = (- 1, s\<lparr>fd_reset := True\<rparr>)"
| "result_loop (Suc n) i s =
     (case port_inb FD_STATUS s of (v, s) \<Rightarrow>
      let status = v AND (STATUS_DIR OR STATUS_READY OR STATUS_BUSY) in
      if status = STATUS_READY then (int i, s)
      else if status = STATUS_DIR OR STATUS_READY OR STATUS_BUSY then
        if MAX_REPLIES \<le> i then (- 1, s\<lparr>fd_reset := True\<rparr>)
        else case port_inb FD_DATA s of (d, s) \<Rightarrow>
          result_loop n (i + 1) (s\<lparr>reply_buffer := (reply_buffer s)[i := d]\<rparr>)
      else result_loop n i s)"

definition result :: "'a fds_scheme \<Rightarrow> int \<times> 'a fds_scheme" where
  "result s = (if fd_reset s then (- 1, s) else result_loop 10000 0 s)"

abbreviation ST0 :: "'a fds_scheme \<Rightarrow> u8" where "ST0 s \<equiv> reply_buffer s ! 0"
abbreviation ST1 :: "'a fds_scheme \<Rightarrow> u8" where "ST1 s \<equiv> reply_buffer s ! 1"
abbreviation ST2 :: "'a fds_scheme \<Rightarrow> u8" where "ST2 s \<equiv> reply_buffer s ! 2"

text \<open>The address of the data of a request, and the data itself.\<close>

definition request_address :: "'a fds_scheme \<Rightarrow> nat \<Rightarrow> nat \<Rightarrow> u32" where
  "request_address s r b = b_address s b + of_nat (rq_buffer (rq s r))"

definition request_data :: "'a fds_scheme \<Rightarrow> nat \<Rightarrow> nat \<Rightarrow> u8 list" where
  "request_data s r b = take BLOCK_SIZE (drop (rq_buffer (rq s r)) (b_data (bf s b)))"

definition set_request_data :: "nat \<Rightarrow> nat \<Rightarrow> u8 list \<Rightarrow> 'a fds_scheme \<Rightarrow> 'a fds_scheme" where
  "set_request_data r b d s =
     (let off = rq_buffer (rq s r) in
      set_bf b (\<lambda>x. x\<lparr>b_data := take off (b_data x) @ d @ drop (off + length d) (b_data x)\<rparr>) s)"

text \<open>
  \<open>CURRENT\<close> with its buffer. A request without a buffer has an address that belongs to no buffer of the
  model.
\<close>

definition with_current ::
    "(nat \<Rightarrow> nat \<Rightarrow> 'a fds_scheme \<Rightarrow> ('b, 'a fds_scheme) res) \<Rightarrow> 'a fds_scheme \<Rightarrow> ('b, 'a fds_scheme) res" where
  "with_current f s =
     (case current_request s ! 2 of
        None \<Rightarrow> Fault ''CURRENT''
      | Some r \<Rightarrow>
          (case rq_bh (rq s r) of
             None \<Rightarrow> Fault ''buffer''
           | Some b \<Rightarrow> if length (b_data (bf s b)) < rq_buffer (rq s r) + BLOCK_SIZE then Fault ''buffer'' else f r b s))"

text \<open>The DMA controller reaches only the first megabyte, so a buffer above it goes through a copy.\<close>

definition setup_DMA :: "'a fds_scheme \<Rightarrow> (unit, 'a fds_scheme) res" where
  "setup_DMA = with_current (\<lambda>r b s.
     let high = 0x100000 \<le> sint (request_address s r b);
         addr = (if high then tmp_area_address s else request_address s r b);
         s = (if high \<and> fd_command s = FD_WRITE then s\<lparr>tmp_floppy_area := request_data s r b\<rparr> else s);
         mode = (if fd_command s = FD_READ then DMA_READ else DMA_WRITE);
         s = port_outb 6 10 s;
         s = port_outb (ucast mode) 12 s;
         s = port_outb (ucast mode) 11 s;
         s = port_outb addr 4 s;
         s = port_outb (signed_drop_bit 8 addr) 4 s;
         s = port_outb (signed_drop_bit 8 (signed_drop_bit 8 addr)) 0x81 s;
         s = port_outb 0xFF 5 s;
         s = port_outb 3 5 s in
     Ok () (port_outb 2 10 s))"

subsection \<open>Requests\<close>

definition fd_end_request :: "nat \<Rightarrow> bool \<Rightarrow> 'a fds_scheme \<Rightarrow> 'a fds_scheme" where
  "fd_end_request r uptodate s = end_request 2 r uptodate (floppy_off (FD_DRIVE (rq_dev (rq s r))) s)"

text \<open>As in the driver of the hard disk, the error count is read again after the request has been ended.\<close>

definition bad_flp_intr :: "'a fds_scheme \<Rightarrow> (unit, 'a fds_scheme) res" where
  "bad_flp_intr s =
     (case current_request s ! 2 of
        None \<Rightarrow> Fault ''CURRENT''
      | Some r \<Rightarrow>
          let s = set_rq r (\<lambda>x. x\<lparr>rq_errors := rq_errors x + 1\<rparr>) s;
              s = (if FD_MAX_ERRORS < rq_errors (rq s r) then fd_end_request r False (floppy_deselect s) else s);
              errors = (case current_request s ! 2 of None \<Rightarrow> sint (phys s 8) | Some r \<Rightarrow> rq_errors (rq s r)) in
          Ok () (if FD_MAX_ERRORS div 2 < errors then s\<lparr>fd_reset := True\<rparr> else s\<lparr>fd_recalibrate := True\<rparr>))"

text \<open>
  The functions below call each other and \<open>do_fd_request\<close>, which is their parameter \<open>again\<close> and is tied
  in its own definition.
\<close>

definition rw_interrupt ::
    "('a fds_scheme \<Rightarrow> (unit, 'a fds_scheme) res) \<Rightarrow> 'a fds_scheme \<Rightarrow> (unit, 'a fds_scheme) res" where
  "rw_interrupt again s =
     (case result s of (n, s) \<Rightarrow>
      if n \<noteq> 7 \<or> ST0 s AND 0xF8 \<noteq> 0 \<or> ST1 s AND 0xBF \<noteq> 0 \<or> ST2 s AND 0x73 \<noteq> 0 then
        bind (if ST1 s AND 2 \<noteq> 0 then
                case current_request s ! 2 of
                  None \<Rightarrow> Fault ''CURRENT''
                | Some r \<Rightarrow> Ok () (fd_end_request r False (floppy_deselect s))
              else bad_flp_intr s) (\<lambda>_ s. again s)
      else
        with_current (\<lambda>r b s.
          let s = (if fd_command s = FD_READ \<and> 0x100000 \<le> request_address s r b
                   then set_request_data r b (tmp_floppy_area s) s else s) in
          again (fd_end_request r True (floppy_deselect s))) s)"

definition setup_rw_floppy ::
    "('a fds_scheme \<Rightarrow> (unit, 'a fds_scheme) res) \<Rightarrow> 'a fds_scheme \<Rightarrow> (unit, 'a fds_scheme) res" where
  "setup_rw_floppy again s =
     bind (setup_DMA s) (\<lambda>_ s.
     let s = s\<lparr>do_floppy := Some Rw_interrupt\<rparr>;
         s = output_byte (fd_command s) s;
         s = output_byte (push_bit 2 (fd_head s) OR current_drive s) s;
         s = output_byte (fd_track s) s;
         s = output_byte (fd_head s) s;
         s = output_byte (fd_sector s) s;
         s = output_byte 2 s;
         s = output_byte (ucast (fl_sect (fl_now s))) s;
         s = output_byte (fl_gap (fl_now s)) s;
         s = output_byte 0xFF s in
     if fd_reset s then again s else Ok () s)"

definition seek_interrupt ::
    "('a fds_scheme \<Rightarrow> (unit, 'a fds_scheme) res) \<Rightarrow> 'a fds_scheme \<Rightarrow> (unit, 'a fds_scheme) res" where
  "seek_interrupt again s =
     (case result (output_byte FD_SENSEI s) of (n, s) \<Rightarrow>
      if n \<noteq> 2 \<or> ST0 s AND 0xF8 \<noteq> 0x20 \<or> ST1 s \<noteq> seek_track s
      then bind (bad_flp_intr s) (\<lambda>_ s. again s)
      else setup_rw_floppy again (s\<lparr>current_track := ST1 s\<rparr>))"

definition transfer ::
    "('a fds_scheme \<Rightarrow> (unit, 'a fds_scheme) res) \<Rightarrow> 'a fds_scheme \<Rightarrow> (unit, 'a fds_scheme) res" where
  "transfer again s =
     (let s = (if cur_spec1 s \<noteq> uint (fl_spec1 (fl_now s)) then
                 let s = s\<lparr>cur_spec1 := uint (fl_spec1 (fl_now s))\<rparr>;
                     s = output_byte FD_SPECIFY s;
                     s = output_byte (of_int (cur_spec1 s)) s in
                 output_byte 6 s
               else s);
          s = (if cur_rate s \<noteq> uint (fl_rate (fl_now s)) then
                 let s = s\<lparr>cur_rate := uint (fl_rate (fl_now s))\<rparr> in
                 port_outb (of_int (cur_rate s)) FD_DCR s
               else s) in
      if fd_reset s then again s
      else if \<not> fd_seek s then setup_rw_floppy again s
      else
        let s = s\<lparr>do_floppy := Some Seek_interrupt\<rparr>;
            s = (if seek_track s \<noteq> 0 then
                   output_byte (seek_track s)
                     (output_byte (push_bit 2 (fd_head s) OR current_drive s) (output_byte FD_SEEK s))
                 else output_byte (push_bit 2 (fd_head s) OR current_drive s) (output_byte FD_RECALIBRATE s)) in
        if fd_reset s then again s else Ok () s)"

definition recal_interrupt ::
    "('a fds_scheme \<Rightarrow> (unit, 'a fds_scheme) res) \<Rightarrow> 'a fds_scheme \<Rightarrow> (unit, 'a fds_scheme) res" where
  "recal_interrupt again s =
     (case result (output_byte FD_SENSEI s) of (n, s) \<Rightarrow>
      again (if n \<noteq> 2 \<or> ST0 s AND 0xE0 = 0x60 then s\<lparr>fd_reset := True\<rparr> else s\<lparr>fd_recalibrate := False\<rparr>))"

definition unexpected_floppy_interrupt :: "'a fds_scheme \<Rightarrow> 'a fds_scheme" where
  "unexpected_floppy_interrupt s =
     (case result (output_byte FD_SENSEI s) of (n, s) \<Rightarrow>
      if n \<noteq> 2 \<or> ST0 s AND 0xE0 = 0x60 then s\<lparr>fd_reset := True\<rparr> else s\<lparr>fd_recalibrate := True\<rparr>)"

definition recalibrate_floppy ::
    "('a fds_scheme \<Rightarrow> (unit, 'a fds_scheme) res) \<Rightarrow> 'a fds_scheme \<Rightarrow> (unit, 'a fds_scheme) res" where
  "recalibrate_floppy again s =
     (let s = s\<lparr>fd_recalibrate := False, current_track := 0, do_floppy := Some Recal_interrupt\<rparr>;
          s = output_byte FD_RECALIBRATE s;
          s = output_byte (push_bit 2 (fd_head s) OR current_drive s) s in
      if fd_reset s then again s else Ok () s)"

definition reset_interrupt ::
    "('a fds_scheme \<Rightarrow> (unit, 'a fds_scheme) res) \<Rightarrow> 'a fds_scheme \<Rightarrow> (unit, 'a fds_scheme) res" where
  "reset_interrupt again s =
     (let s = snd (result (output_byte FD_SENSEI s));
          s = output_byte FD_SPECIFY s;
          s = output_byte (of_int (cur_spec1 s)) s in
      again (output_byte 6 s))"

definition reset_floppy :: "'a fds_scheme \<Rightarrow> 'a fds_scheme" where
  "reset_floppy s =
     (let s = s\<lparr>fd_reset := False, cur_spec1 := - 1, cur_rate := - 1, fd_recalibrate := True,
                do_floppy := Some Reset_interrupt\<rparr> in
      port_outb (ucast (current_DOR s)) FD_DOR (port_outb (ucast (current_DOR s AND 0xFB)) FD_DOR s))"

definition floppy_on_interrupt ::
    "('a fds_scheme \<Rightarrow> (unit, 'a fds_scheme) res) \<Rightarrow> 'a fds_scheme \<Rightarrow> (unit, 'a fds_scheme) res" where
  "floppy_on_interrupt again s =
     (let s = s\<lparr>fd_selected := True\<rparr> in
      if current_drive s \<noteq> current_DOR s AND 3 then
        let s = s\<lparr>current_DOR := (current_DOR s AND 0xFC) OR current_drive s\<rparr> in
        add_timer (\<lambda>_ s. s) 2 (Some TRANSFER) (port_outb (ucast (current_DOR s)) FD_DOR s)
      else transfer again s)"

text \<open>The loop of \<open>INIT_REQUEST\<close>: requests beyond the end of the disk are dropped.\<close>

fun fd_next :: "nat \<Rightarrow> 'a fds_scheme \<Rightarrow> (nat option, 'a fds_scheme) res" where
  "fd_next 0 s = Hang"
| "fd_next (Suc fuel) s =
     (case current_request s ! 2 of
        None \<Rightarrow> Ok None s
      | Some r \<Rightarrow>
          let q = rq s r in
          if MAJOR (of_int (rq_dev q)) \<noteq> 2 then Panic ''floppy: request list destroyed''
          else if (case rq_bh q of None \<Rightarrow> False | Some b \<Rightarrow> \<not> b_lock (bf s b))
          then Panic ''floppy: block not locked''
          else
            let s = s\<lparr>floppy := FD_TYPE (MINOR (of_int (rq_dev q)))\<rparr>;
                s = (if unat (current_drive s) \<noteq> FD_DRIVE (rq_dev q) then s\<lparr>fd_seek := True\<rparr> else s);
                s = s\<lparr>current_drive := of_nat (FD_DRIVE (rq_dev q))\<rparr> in
            if length floppy_type \<le> floppy s then Fault ''floppy_type''
            else if fl_size (fl_now s) < rq_sector q + 2 then fd_next fuel (fd_end_request r False s)
            else Ok (Some r) s)"

text \<open>The place of a block on the disk.\<close>

definition set_place :: "u32 \<Rightarrow> 'a fds_scheme \<Rightarrow> 'a fds_scheme" where
  "set_place block s =
     (let s = s\<lparr>fd_sector := ucast (block mod fl_sect (fl_now s))\<rparr>;
          block = block div fl_sect (fl_now s);
          s = s\<lparr>fd_head := ucast (block mod fl_head (fl_now s)), fd_track := ucast (block div fl_head (fl_now s))\<rparr>;
          s = s\<lparr>seek_track := push_bit (unat (fl_stretch (fl_now s))) (fd_track s)\<rparr>;
          s = (if seek_track s \<noteq> current_track s then s\<lparr>fd_seek := True\<rparr> else s) in
      s\<lparr>fd_sector := fd_sector s + 1\<rparr>)"

fun do_fd_request :: "nat \<Rightarrow> 'a fds_scheme \<Rightarrow> (unit, 'a fds_scheme) res" where
  "do_fd_request 0 s = Hang"
| "do_fd_request (Suc fuel) s =
     (let s = s\<lparr>fd_seek := False\<rparr> in
      if fd_reset s then Ok () (reset_floppy s)
      else if fd_recalibrate s then recalibrate_floppy (do_fd_request fuel) s
      else
        bind (fd_next (NR_REQUEST + 1) s) (\<lambda>next s.
        case next of
          None \<Rightarrow> Ok () s
        | Some r \<Rightarrow>
            if fl_sect (fl_now s) = 0 then Fault ''divide error''
            else
              let s = set_place (rq_sector (rq s r)) s in
              if rq_cmd (rq s r) \<noteq> READ \<and> rq_cmd (rq s r) \<noteq> WRITE then Panic ''do_fd_request: unknown command''
              else
                let s = s\<lparr>fd_command := (if rq_cmd (rq s r) = READ then FD_READ else FD_WRITE)\<rparr> in
                bind (ticks_to_floppy_on (fd_selected s) (unat (current_drive s)) s) (\<lambda>ticks s.
                if ticks \<le> 0 then floppy_on_interrupt (do_fd_request fuel) s
                else add_timer (\<lambda>_ s. s) ticks (Some FLOPPY_ON_INTERRUPT) s)))"

text \<open>A nested call finds \<open>reset\<close> set and comes back, so two levels are enough.\<close>

definition FD_FUEL :: nat where "FD_FUEL = 2"

abbreviation fd_request :: "'a fds_scheme \<Rightarrow> (unit, 'a fds_scheme) res" where
  "fd_request \<equiv> do_fd_request FD_FUEL"

definition floppy_interrupt :: "'a fds_scheme \<Rightarrow> (unit, 'a fds_scheme) res" where
  "floppy_interrupt s =
     (let s = port_outb 0x20 0x20 s; f = do_floppy s; s = s\<lparr>do_floppy := None\<rparr> in
      case f of
        None \<Rightarrow> Ok () (unexpected_floppy_interrupt s)
      | Some Rw_interrupt \<Rightarrow> rw_interrupt fd_request s
      | Some Seek_interrupt \<Rightarrow> seek_interrupt fd_request s
      | Some Recal_interrupt \<Rightarrow> recal_interrupt fd_request s
      | Some Reset_interrupt \<Rightarrow> reset_interrupt fd_request s)"

text \<open>What the clock calls when one of the timers of this file is due.\<close>

definition floppy_timer :: "nat \<Rightarrow> 'a fds_scheme \<Rightarrow> (unit, 'a fds_scheme) res" where
  "floppy_timer f s = (if f = TRANSFER then transfer fd_request s else floppy_on_interrupt fd_request s)"

definition floppy_init :: "'a fds_scheme \<Rightarrow> 'a fds_scheme" where
  "floppy_init s =
     (case port_inb 0x21 (s\<lparr>request_fn := (request_fn s)(2 := True)\<rparr>) of (v, s) \<Rightarrow>
      port_outb (ucast (v AND 0xBF)) 0x21 s)"


subsection \<open>The depth of the calls\<close>

text \<open>\<open>do_fd_request\<close> is called again only when the controller has to be reset, which ends the recursion.\<close>

lemma again_cong:
  assumes "\<And>s. fd_reset s \<Longrightarrow> f s = g s"
  shows "setup_rw_floppy f s = setup_rw_floppy g s" and "recalibrate_floppy f s = recalibrate_floppy g s"
    and "transfer f s = transfer g s" and "floppy_on_interrupt f s = floppy_on_interrupt g s"
proof -
  show su: "setup_rw_floppy f s = setup_rw_floppy g s" for s
    unfolding setup_rw_floppy_def by (intro arg_cong2 [where f = bind] ext refl) (simp add: assms Let_def)
  show "recalibrate_floppy f s = recalibrate_floppy g s"
    by (simp add: recalibrate_floppy_def Let_def assms)
  show tr: "transfer f s = transfer g s" for s
    unfolding transfer_def Let_def by (intro if_cong refl su assms)
  show "floppy_on_interrupt f s = floppy_on_interrupt g s"
    by (simp add: floppy_on_interrupt_def Let_def tr)
qed

lemma do_fd_request_fuel: "do_fd_request (Suc (Suc n)) s = fd_request s"
proof -
  have r: "do_fd_request (Suc n) s = do_fd_request (Suc 0) s" if "fd_reset s" for s :: "'a fds_scheme"
    using that by simp
  have c: "recalibrate_floppy (do_fd_request (Suc n)) s = recalibrate_floppy (do_fd_request (Suc 0)) s"
    "floppy_on_interrupt (do_fd_request (Suc n)) s = floppy_on_interrupt (do_fd_request (Suc 0)) s" for s :: "'a fds_scheme"
    by (rule again_cong, erule r)+
  show ?thesis
    unfolding FD_FUEL_def numeral_2_eq_2 do_fd_request.simps(2) [of "Suc n"] do_fd_request.simps(2) [of "Suc 0"] c ..
qed

subsection \<open>The place of a block\<close>

lemma less_8: "(t :: nat) < 8 \<Longrightarrow> t = 0 \<or> t = 1 \<or> t = 2 \<or> t = 3 \<or> t = 4 \<or> t = 5 \<or> t = 6 \<or> t = 7"
  by linarith

lemma floppy_type_facts:
  assumes "t < length floppy_type" and "0 < unat (fl_size (floppy_type ! t))"
  shows "fl_head (floppy_type ! t) = 2" "0 < unat (fl_sect (floppy_type ! t))" "unat (fl_sect (floppy_type ! t)) \<le> 18"
    "unat (fl_track (floppy_type ! t)) * 2 ^ unat (fl_stretch (floppy_type ! t)) \<le> 80"
    "unat (fl_size (floppy_type ! t)) =
      unat (fl_sect (floppy_type ! t)) * 2 * unat (fl_track (floppy_type ! t))"
proof -
  have "t < 8" using assms(1) by (simp add: floppy_type_def)
  then show "fl_head (floppy_type ! t) = 2" "0 < unat (fl_sect (floppy_type ! t))"
    "unat (fl_sect (floppy_type ! t)) \<le> 18"
    "unat (fl_track (floppy_type ! t)) * 2 ^ unat (fl_stretch (floppy_type ! t)) \<le> 80"
    "unat (fl_size (floppy_type ! t)) =
      unat (fl_sect (floppy_type ! t)) * 2 * unat (fl_track (floppy_type ! t))"
    using assms(2) by (auto dest!: less_8 simp: floppy_type_def fl_def)
qed

lemma unat_small: "unat (x :: u32) < 256 \<Longrightarrow> unat (ucast x :: u8) = unat x"
  unfolding unsigned_ucast_eq by (simp add: take_bit_nat_eq_self)

lemma even_place:
  fixes b n :: nat
  assumes "even b" and "0 < n"
  shows "(b + 1) div (n * 2) = b div (n * 2)"
proof -
  have "even (b mod (n * 2))" using assms(1) by (simp add: even_mod_2_iff dvd_mod_iff)
  moreover have "b mod (n * 2) < n * 2" using assms(2) by simp
  ultimately obtain k where "b mod (n * 2) = 2 * k" "2 * k < n * 2" by fastforce
  then have "b mod (n * 2) + 1 < n * 2" by simp
  moreover have "(b + 1) div (n * 2) = b div (n * 2) + (b mod (n * 2) + 1) div (n * 2)"
    using assms(2) by (metis div_mult_mod_eq add.assoc div_mult_self3 mult_eq_0_iff neq0_conv zero_neq_numeral)
  ultimately show ?thesis by simp
qed

text \<open>Where \<open>set_place\<close> puts a block that lies on the disk: the registers are within the geometry and name it.\<close>

lemma place_in_bounds:
  assumes t: "floppy s < length floppy_type" and fits: "unat block + 2 \<le> unat (fl_size (fl_now s))" and ev: "even (unat block)"
    and u: "u = set_place block s"
  shows "1 \<le> unat (fd_sector u) \<and> unat (fd_sector u) \<le> unat (fl_sect (fl_now s)) \<and>
    unat (fd_head u) < unat (fl_head (fl_now s)) \<and> unat (fd_track u) < unat (fl_track (fl_now s)) \<and>
    (unat (fd_track u) * unat (fl_head (fl_now s)) + unat (fd_head u)) * unat (fl_sect (fl_now s)) + (unat (fd_sector u) - 1) =
      unat block \<and>
    unat (seek_track u) = unat (fd_track u) * 2 ^ unat (fl_stretch (fl_now s)) \<and>
    (unat block + 1) div (unat (fl_sect (fl_now s)) * unat (fl_head (fl_now s))) = unat (fd_track u)"
proof -
  let ?f = "fl_now s"
  let ?S = "unat (fl_sect ?f)" and ?T = "unat (fl_track ?f)" and ?b = "unat block" and ?st = "unat (fl_stretch ?f)"
  have "0 < unat (fl_size ?f)" using fits by simp
  note F = floppy_type_facts [OF t this]
  have lt: "?b < ?S * 2 * ?T" using fits F(5) by linarith
  have trk: "?b div ?S div 2 < ?T" using lt by (simp add: div_mult2_eq [symmetric] less_mult_imp_div_less mult.commute)
  have T80: "?T \<le> 80" using F(4) by (metis le_trans mult_le_mono2 mult.right_neutral one_le_numeral one_le_power)
  have sec: "?b mod ?S < ?S" using F(2) by simp
  have u8: "unat (ucast (block mod fl_sect ?f) :: u8) = ?b mod ?S"
    using sec F(3) by (subst unat_small) (simp_all add: unat_mod)
  have s1: "unat (fd_sector u) = Suc (?b mod ?S)"
    using sec F(3) u8 by (simp add: u set_place_def Let_def unat_word_ariths)
  have "fd_head u = ucast (block div fl_sect ?f mod 2)" by (simp add: u set_place_def Let_def F(1))
  then have h1: "unat (fd_head u) = ?b div ?S mod 2"
    by (simp add: unat_small unat_mod unat_div)
  have "fd_track u = ucast (block div fl_sect ?f div 2)" by (simp add: u set_place_def Let_def F(1))
  then have t1: "unat (fd_track u) = ?b div ?S div 2"
    using trk T80 by (simp add: unat_small unat_div)
  have "seek_track u = push_bit ?st (fd_track u)" by (auto simp: u set_place_def Let_def)
  then have "unat (seek_track u) = take_bit LENGTH(8) (push_bit ?st (unat (fd_track u)))"
    by (simp only: unsigned_push_bit_eq)
  then have "unat (seek_track u) = take_bit 8 (unat (fd_track u) * 2 ^ ?st)" by (simp add: push_bit_eq_mult)
  moreover have "unat (fd_track u) * 2 ^ ?st < 256"
  proof -
    have "unat (fd_track u) * 2 ^ ?st \<le> ?T * 2 ^ ?st" using trk by (simp add: t1)
    then show ?thesis using F(4) by linarith
  qed
  ultimately have sk: "unat (seek_track u) = unat (fd_track u) * 2 ^ ?st" by (simp add: take_bit_nat_eq_self)
  have name: "(?b div ?S div 2 * 2 + ?b div ?S mod 2) * ?S + ?b mod ?S = ?b" by simp
  show ?thesis
    using sec trk sk name even_place [OF ev F(2)]
    by (simp add: s1 h1 t1 F(1) div_mult2_eq)
qed

subsection \<open>Reading a block\<close>

text \<open>What the k-th input instruction would read from the two registers of the controller.\<close>

definition fd_status :: "'a hds_scheme \<Rightarrow> nat \<Rightarrow> u8" where
  "fd_status s k = ucast (port_in s k FD_STATUS)"

definition fd_data :: "'a hds_scheme \<Rightarrow> nat \<Rightarrow> u8" where
  "fd_data s k = ucast (port_in s k FD_DATA)"

text \<open>
  The effect of sending bytes to a controller that is ready for each of them, and the address that the DMA
  controller has been given.
\<close>

definition sent :: "u8 list \<Rightarrow> 'a fds_scheme \<Rightarrow> 'a fds_scheme" where
  "sent bs s = s\<lparr>inputs := inputs s + length bs,
     outputs := outputs s @ List.map (\<lambda>b. (FD_DATA, ucast (ucast b :: u32) AND 0xFF)) bs\<rparr>"

definition fd_accepts :: "nat \<Rightarrow> 'a hds_scheme \<Rightarrow> bool" where
  "fd_accepts n s \<longleftrightarrow> (\<forall>k < n. fd_status s (inputs s + k) AND 0xC0 = 0x80)"

lemma output_byte_ready:
  assumes "\<not> fd_reset s" and "fd_status s (inputs s) AND 0xC0 = 0x80"
  shows "output_byte b s = sent [b] s"
proof -
  have "out_loop n b s = sent [b] s" if "0 < n" for n
    using that assms(2)
    by (cases n) (simp_all add: port_inb_def port_outb_def fd_status_def sent_def STATUS_READY_def STATUS_DIR_def)
  with assms(1) show ?thesis by (simp add: output_byte_def)
qed

lemma sent_sent: "sent ys (sent xs s) = sent (xs @ ys) s"
  by (simp add: sent_def)

lemma sent_simps [simp]:
  "fd_reset (sent bs s) = fd_reset s" "inputs (sent bs s) = inputs s + length bs" "port_in (sent bs s) = port_in s"
  "fd_status (sent bs s) = fd_status s" "fd_command (sent bs s) = fd_command s" "fd_head (sent bs s) = fd_head s"
  "fd_track (sent bs s) = fd_track s" "fd_sector (sent bs s) = fd_sector s" "floppy (sent bs s) = floppy s"
  "current_drive (sent bs s) = current_drive s"
  by (simp_all add: sent_def fd_status_def fun_eq_iff)

lemma output_next:
  assumes "\<not> fd_reset s" and "fd_accepts n s" and "length bs < n"
  shows "output_byte b (sent bs s) = sent (bs @ [b]) s"
  using assms output_byte_ready [of "sent bs s" b] by (simp add: fd_accepts_def sent_sent)

lemma output_first: "\<not> fd_reset s \<Longrightarrow> fd_accepts n s \<Longrightarrow> 0 < n \<Longrightarrow> output_byte b s = sent [b] s"
  using output_byte_ready [of s b] by (auto simp: fd_accepts_def)

definition command_bytes :: "'a fds_scheme \<Rightarrow> u8 list" where
  "command_bytes s = [fd_command s, push_bit 2 (fd_head s) OR current_drive s, fd_track s, fd_head s, fd_sector s, 2,
     ucast (fl_sect (fl_now s)), fl_gap (fl_now s), 0xFF]"

definition dma_bytes :: "u8 \<Rightarrow> u32 \<Rightarrow> (u16 \<times> u16) list" where
  "dma_bytes mode addr = [(10, 6), (12, ucast mode), (11, ucast mode), (4, ucast addr AND 0xFF),
     (4, ucast (signed_drop_bit 8 addr) AND 0xFF), (0x81, ucast (signed_drop_bit 8 (signed_drop_bit 8 addr)) AND 0xFF),
     (5, 0xFF), (5, 3), (10, 2)]"

definition dma_target :: "'a fds_scheme \<Rightarrow> nat \<Rightarrow> nat \<Rightarrow> u32" where
  "dma_target s r b = (if 0x100000 \<le> sint (request_address s r b) then tmp_area_address s else request_address s r b)"

lemma setup_DMA_read:
  assumes "current_request s ! 2 = Some r" and "rq_bh (rq s r) = Some b"
    and "rq_buffer (rq s r) + BLOCK_SIZE \<le> length (b_data (bf s b))" and "fd_command s = FD_READ"
  shows "setup_DMA s = Ok () (s\<lparr>outputs := outputs s @ dma_bytes DMA_READ (dma_target s r b)\<rparr>)"
  using assms
  by (simp add: setup_DMA_def with_current_def Let_def port_outb_def dma_bytes_def dma_target_def
      FD_READ_def FD_WRITE_def DMA_READ_def not_less)

lemma setup_rw_floppy_read:
  assumes "current_request s ! 2 = Some r" and "rq_bh (rq s r) = Some b"
    and "rq_buffer (rq s r) + BLOCK_SIZE \<le> length (b_data (bf s b))" and "fd_command s = FD_READ"
    and nr: "\<not> fd_reset s" and acc: "fd_accepts 9 s"
  shows "setup_rw_floppy again s = Ok () (sent (command_bytes s)
    (s\<lparr>outputs := outputs s @ dma_bytes DMA_READ (dma_target s r b), do_floppy := Some Rw_interrupt\<rparr>))"
proof -
  define u where "u = s\<lparr>outputs := outputs s @ dma_bytes DMA_READ (dma_target s r b), do_floppy := Some Rw_interrupt\<rparr>"
  have a: "fd_accepts 9 u" "\<not> fd_reset u" using acc nr by (simp_all add: fd_accepts_def fd_status_def u_def)
  note o = output_next [OF a(2,1)] output_first [OF a(2,1)]
  have "setup_rw_floppy again s = Ok () (sent (command_bytes u) u)"
    unfolding setup_rw_floppy_def setup_DMA_read [OF assms(1-4)] bind.simps Let_def
    using a(2) by (simp add: u_def [symmetric] o command_bytes_def)
  moreover have "command_bytes u = command_bytes s" by (simp add: command_bytes_def u_def)
  ultimately show ?thesis by (simp add: u_def)
qed


text \<open>
  The driver's variables after it has accepted a read, and when the disk is ready for it at once: the motor
  runs, the drive is selected and its head stands on the track, the parameters of the controller are set.
\<close>

definition fd_placed :: "nat \<Rightarrow> 'a fds_scheme \<Rightarrow> 'a fds_scheme" where
  "fd_placed r s =
     (let q = rq s r;
          u = set_place (rq_sector q) (s\<lparr>fd_seek := False, floppy := FD_TYPE (MINOR (of_int (rq_dev q))),
                current_drive := of_nat (FD_DRIVE (rq_dev q))\<rparr>) in
      u\<lparr>fd_command := FD_READ, moff_timer := (moff_timer u)[FD_DRIVE (rq_dev q) := 10000], fd_selected := True\<rparr>)"

definition fd_warm :: "nat \<Rightarrow> 'a fds_scheme \<Rightarrow> bool" where
  "fd_warm r s \<longleftrightarrow>
     (let d = FD_DRIVE (rq_dev (rq s r)); f = floppy_type ! FD_TYPE (MINOR (of_int (rq_dev (rq s r)))) in
      current_drive s = of_nat d \<and> seek_track (fd_placed r s) = current_track s \<and>
      push_bit d 0x10 OR current_DOR s = current_DOR s \<and> current_DOR s AND 3 = of_nat d \<and> mon_timer s ! d = 0 \<and>
      cur_spec1 s = uint (fl_spec1 f) \<and> cur_rate s = uint (fl_rate f))"

lemma FD_DRIVE_less: "FD_DRIVE x < 4"
proof -
  have "(of_int x AND 3 :: u32) = take_bit 2 (of_int x)" by (simp add: take_bit_eq_mask mask_eq_exp_minus_1)
  then have "FD_DRIVE x = take_bit 2 (unat (of_int x :: u32))"
    unfolding FD_DRIVE_def by (simp only: unsigned_take_bit_eq)
  then show ?thesis by (simp add: take_bit_eq_mod)
qed

lemma dor_parts: "((x :: u8) AND 0xFC) OR (x AND 3) = x"
proof -
  have "(x AND 0xFC) OR (x AND 3) = x AND (0xFC OR 3)" by (simp only: bit.conj_disj_distrib)
  also have "(0xFC OR 3 :: u8) = - 1" by simp
  finally show ?thesis by simp
qed

lemma motor_running:
  assumes "nr < 4" and "push_bit nr 0x10 OR current_DOR s = current_DOR s" and "current_DOR s AND 3 = of_nat nr"
    and "mon_timer s ! nr = 0"
  shows "ticks_to_floppy_on sel nr s = Ok 0 (s\<lparr>moff_timer := (moff_timer s)[nr := 10000]\<rparr>)"
  using assms dor_parts [of "current_DOR s"] by (simp add: ticks_to_floppy_on_def Let_def)

lemma set_place_simps [simp]:
  "fd_seek (set_place k s) \<longleftrightarrow> fd_seek s \<or> seek_track (set_place k s) \<noteq> current_track s"
  "floppy (set_place k s) = floppy s" "current_drive (set_place k s) = current_drive s"
  "fd_reset (set_place k s) = fd_reset s" "fd_selected (set_place k s) = fd_selected s"
  "current_DOR (set_place k s) = current_DOR s" "mon_timer (set_place k s) = mon_timer s"
  "moff_timer (set_place k s) = moff_timer s" "requests (set_place k s) = requests s" "rq (set_place k s) = rq s"
  "cur_spec1 (set_place k s) = cur_spec1 s" "cur_rate (set_place k s) = cur_rate s"
  by (auto simp: set_place_def Let_def rq_def fun_eq_iff)

text \<open>A request that the loop of \<open>do_fd_request\<close> lets pass: its type and drive are set, and the 32-bit sum was in range.\<close>

lemma fd_next_accepts:
  "fd_next n s = Ok (Some r) t \<Longrightarrow>
   current_request t ! 2 = Some r \<and> MAJOR (of_int (rq_dev (rq t r))) = 2 \<and>
   floppy t = FD_TYPE (MINOR (of_int (rq_dev (rq t r)))) \<and> floppy t < length floppy_type \<and>
   unat (current_drive t) = FD_DRIVE (rq_dev (rq t r)) \<and> \<not> fl_size (fl_now t) < rq_sector (rq t r) + 2"
proof (induction n arbitrary: s)
  case 0
  then show ?case by simp
next
  case (Suc n)
  have d: "unat (of_nat (FD_DRIVE x) :: u8) = FD_DRIVE x" for x
    using FD_DRIVE_less [of x] by (simp add: unat_of_nat take_bit_nat_eq_self)
  from Suc.prems show ?case
    by (auto simp: Let_def rq_def d not_le split: option.splits if_splits dest!: Suc.IH)
qed

text \<open>
  C18: when neither a reset nor a recalibration is due, a request that \<open>do_fd_request\<close> accepts by its 32-bit
  test \<open>block+2 > floppy->size\<close>, for any type of floppy disk, is sent to a place on the disk: sector, head and
  track are within the geometry of the type of its device (sectors from 1 on), they name exactly the block that
  is asked for, doubling the track for the drives that need it never overflows the byte it is kept in, and the
  second sector of the block lies on the same cylinder, so no second seek is needed. \<open>do_fd_request\<close> goes on
  from there to the motor, without a division by zero. The sector is even, as \<open>make_request\<close> makes it, and it is
  not 0xFFFFFFFE, the one even sector for which the sum of the test wraps around (\<open>floppy_sum_wraps\<close>).
\<close>

theorem floppy_place_in_bounds:
  assumes go: "\<not> fd_reset s" "\<not> fd_recalibrate s"
    and acc: "fd_next (NR_REQUEST + 1) (s\<lparr>fd_seek := False\<rparr>) = Ok (Some r) t"
    and cmd: "rq_cmd (rq t r) = READ \<or> rq_cmd (rq t r) = WRITE"
    and block: "block = rq_sector (rq t r)" and ev: "even (unat block)" and wrap: "block \<noteq> 0xFFFFFFFE"
    and f: "f = floppy_type ! FD_TYPE (MINOR (of_int (rq_dev (rq t r))))" and u: "u = set_place block t"
  shows "1 \<le> unat (fd_sector u) \<and> unat (fd_sector u) \<le> unat (fl_sect f) \<and>
    unat (fd_head u) < unat (fl_head f) \<and> unat (fd_track u) < unat (fl_track f) \<and>
    (unat (fd_track u) * unat (fl_head f) + unat (fd_head u)) * unat (fl_sect f) + (unat (fd_sector u) - 1) =
      unat block \<and>
    unat (seek_track u) = unat (fd_track u) * 2 ^ unat (fl_stretch f) \<and>
    (unat block + 1) div (unat (fl_sect f) * unat (fl_head f)) = unat (fd_track u) \<and>
    do_fd_request (Suc n) s =
      bind (ticks_to_floppy_on (fd_selected u) (FD_DRIVE (rq_dev (rq t r)))
              (u\<lparr>fd_command := if rq_cmd (rq t r) = READ then FD_READ else FD_WRITE\<rparr>))
        (\<lambda>ticks v. if ticks \<le> 0 then floppy_on_interrupt (do_fd_request n) v
                   else add_timer (\<lambda>_ v. v) ticks (Some FLOPPY_ON_INTERRUPT) v)"
proof -
  note A = fd_next_accepts [OF acc]
  have f': "fl_now t = f" using A by (simp add: f)
  have "unat block \<noteq> 0xFFFFFFFE" "unat block < 2 ^ 32"
    using wrap unsigned_less [of block] by (auto simp: word_unat_eq_iff)
  moreover have "unat block \<noteq> 0xFFFFFFFF" using ev by auto
  ultimately have "unat (block + 2) = unat block + 2" by (simp add: unat_word_ariths)
  moreover have "\<not> fl_size (fl_now t) < block + 2" unfolding block using A by blast
  ultimately have fits: "unat block + 2 \<le> unat (fl_size (fl_now t))"
    by (simp only: word_less_nat_alt not_less)
  have ok: "floppy t < length floppy_type" using A by simp
  have "0 < unat (fl_size (fl_now t))" using fits by linarith
  from floppy_type_facts(2) [OF ok this] have sect: "fl_sect (fl_now t) \<noteq> 0" by auto
  have "do_fd_request (Suc n) s =
      bind (ticks_to_floppy_on (fd_selected u) (FD_DRIVE (rq_dev (rq t r)))
              (u\<lparr>fd_command := if rq_cmd (rq t r) = READ then FD_READ else FD_WRITE\<rparr>))
        (\<lambda>ticks v. if ticks \<le> 0 then floppy_on_interrupt (do_fd_request n) v
                   else add_timer (\<lambda>_ v. v) ticks (Some FLOPPY_ON_INTERRUPT) v)"
    using go sect cmd A acc [unfolded Suc_eq_plus1 [symmetric]]
    by (auto simp: Let_def block [symmetric] u [symmetric] simp del: fd_next.simps)
       (simp_all add: u block)
  with place_in_bounds [OF ok fits ev u] show ?thesis unfolding f' by blast
qed

lemma accept_read:
  assumes cur: "current_request s ! 2 = Some r" and q: "q = rq s r"
    and dev: "MAJOR (of_int (rq_dev q)) = 2" "FD_TYPE (MINOR (of_int (rq_dev q))) < length floppy_type"
    and b: "rq_bh q = Some b" "b_lock (bf s b)" and cmd: "rq_cmd q = READ"
    and fits: "unat (rq_sector q) + 2 \<le> unat (fl_size (floppy_type ! FD_TYPE (MINOR (of_int (rq_dev q)))))"
    and go: "\<not> fd_reset s" "\<not> fd_recalibrate s" and warm: "fd_warm r s"
  shows "do_fd_request (Suc n) s = setup_rw_floppy (do_fd_request n) (fd_placed r s)"
proof -
  let ?t = "FD_TYPE (MINOR (of_int (rq_dev q)))" and ?d = "FD_DRIVE (rq_dev q)"
  let ?u = "s\<lparr>fd_seek := False, floppy := ?t, current_drive := of_nat ?d\<rparr>"
  have d4: "?d < 4" by (rule FD_DRIVE_less)
  have drv: "unat (of_nat ?d :: u8) = ?d" using d4 by (simp add: unat_of_nat take_bit_nat_eq_self)
  have w: "current_drive s = of_nat ?d" "seek_track (fd_placed r s) = current_track s"
    "push_bit ?d 0x10 OR current_DOR s = current_DOR s" "current_DOR s AND 3 = of_nat ?d" "mon_timer s ! ?d = 0"
    "cur_spec1 s = uint (fl_spec1 (floppy_type ! ?t))" "cur_rate s = uint (fl_rate (floppy_type ! ?t))"
    using warm by (simp_all add: fd_warm_def Let_def q)
  have "unat (fl_size (floppy_type ! ?t)) < 2 ^ 32"
    using unsigned_less [of "fl_size (floppy_type ! ?t)"] by simp
  then have "unat (rq_sector q + 2) = unat (rq_sector q) + 2"
    using fits by (simp add: unat_word_ariths)
  then have fit: "\<not> fl_size (floppy_type ! ?t) < rq_sector q + 2" using fits by (simp add: word_less_nat_alt)
  have next1: "fd_next (NR_REQUEST + 1) (s\<lparr>fd_seek := False\<rparr>) = Ok (Some r) ?u"
    using cur dev b fit w(1) drv by (simp add: rq_def q bf_def Let_def)
  have "0 < unat (fl_size (floppy_type ! ?t))" using fits by simp
  from floppy_type_facts(2) [OF dev(2) this] have sect: "fl_sect (floppy_type ! ?t) \<noteq> 0" by (auto simp: unat_gt_0)
  let ?v = "(set_place (rq_sector q) ?u)\<lparr>fd_command := FD_READ\<rparr>"
  have tk: "ticks_to_floppy_on (fd_selected ?v) ?d ?v = Ok 0 (?v\<lparr>moff_timer := (moff_timer ?v)[?d := 10000]\<rparr>)"
    by (rule motor_running [OF d4]) (simp_all add: w)
  have fin: "?v\<lparr>moff_timer := (moff_timer ?v)[?d := 10000], fd_selected := True\<rparr> = fd_placed r s"
    by (simp add: fd_placed_def Let_def q)
  have sk: "seek_track (set_place (rq_sector q) ?u) = current_track s"
    using w(2) by (simp add: fd_placed_def Let_def q)
  have "do_fd_request (Suc n) s =
      floppy_on_interrupt (do_fd_request n) (?v\<lparr>moff_timer := (moff_timer ?v)[?d := 10000]\<rparr>)"
    unfolding do_fd_request.simps Let_def
    using go sect tk cmd drv next1 [unfolded Suc_eq_plus1 [symmetric]]
    by (simp add: q rq_def READ_def WRITE_def del: fd_next.simps)
  also have "\<dots> = transfer (do_fd_request n) (fd_placed r s)"
    unfolding fin [symmetric] by (simp add: floppy_on_interrupt_def w Let_def)
  also have "\<dots> = setup_rw_floppy (do_fd_request n) (fd_placed r s)"
    using sk go by (simp add: transfer_def Let_def fd_placed_def q w(6,7) [unfolded q])
  finally show ?thesis .
qed


text \<open>The reply of the controller: seven bytes, each announced by the status, and then none.\<close>

definition fd_replies :: "nat \<Rightarrow> nat \<Rightarrow> 'a hds_scheme \<Rightarrow> bool" where
  "fd_replies m n s \<longleftrightarrow> (\<forall>k < m. fd_status s (n + 2 * k) AND 0xD0 = 0xD0) \<and> fd_status s (n + 2 * m) AND 0xD0 = 0x80"

definition reply_bytes :: "nat \<Rightarrow> nat \<Rightarrow> 'a hds_scheme \<Rightarrow> u8 list" where
  "reply_bytes m n s = List.map (\<lambda>k. fd_data s (n + 2 * k + 1)) [0..<m]"

lemma reply_bytes_Suc: "reply_bytes (Suc m) n s = fd_data s (n + 1) # reply_bytes m (n + 2) s"
  by (simp add: reply_bytes_def upt_conv_Cons map_Suc_upt [symmetric] del: upt_Suc)

lemma status_mask: "STATUS_DIR OR STATUS_READY OR STATUS_BUSY = 0xD0"
  by (simp add: STATUS_DIR_def STATUS_READY_def STATUS_BUSY_def)

lemma status_neq: "0xD0 \<noteq> STATUS_READY"
  by (simp add: STATUS_READY_def)

lemma result_loop_replies:
  assumes "fd_replies m (inputs s) s" and "i + m \<le> 7" and "length (reply_buffer s) = 7" and "m < fuel"
  shows "result_loop fuel i s = (int (i + m), s\<lparr>inputs := inputs s + 2 * m + 1,
    reply_buffer := take i (reply_buffer s) @ reply_bytes m (inputs s) s @ drop (i + m) (reply_buffer s)\<rparr>)"
  using assms
proof (induction m arbitrary: i s fuel)
  case 0
  then obtain f where f: "fuel = Suc f" by (cases fuel) auto
  have st: "fd_status s (inputs s) AND 0xD0 = STATUS_READY"
    using "0.prems"(1) by (simp add: fd_replies_def STATUS_READY_def)
  have "result_loop fuel i s = (int i, s\<lparr>inputs := inputs s + 1\<rparr>)"
    using st unfolding f result_loop.simps
    by (simp add: port_inb_def fd_status_def status_mask Let_def)
  then show ?case by (simp add: reply_bytes_def)
next
  case (Suc m)
  obtain f where f: "fuel = Suc f" using Suc.prems(4) by (cases fuel) auto
  let ?s = "s\<lparr>inputs := inputs s + 2, reply_buffer := (reply_buffer s)[i := fd_data s (inputs s + 1)]\<rparr>"
  have st: "fd_status s (inputs s) AND 0xD0 = 0xD0" using Suc.prems(1) by (auto simp: fd_replies_def)
  have step: "result_loop fuel i s = result_loop f (i + 1) ?s"
    using st Suc.prems(2) unfolding f
    by (simp add: port_inb_def fd_status_def fd_data_def status_mask status_neq MAX_REPLIES_def Let_def)
  have "fd_replies m (inputs ?s) ?s"
  proof -
    have "fd_status ?s (inputs ?s + 2 * k) = fd_status s (inputs s + 2 * Suc k)" for k by (simp add: fd_status_def)
    then show ?thesis using Suc.prems(1) unfolding fd_replies_def by (metis Suc_less_eq)
  qed
  from Suc.IH [OF this, of "i + 1" f] Suc.prems f
  have "result_loop f (i + 1) ?s = (int (i + 1 + m), ?s\<lparr>inputs := inputs ?s + 2 * m + 1,
    reply_buffer := take (i + 1) (reply_buffer ?s) @ reply_bytes m (inputs ?s) ?s @ drop (i + 1 + m) (reply_buffer ?s)\<rparr>)"
    by simp
  moreover have "take (i + 1) (reply_buffer ?s) = take i (reply_buffer s) @ [fd_data s (inputs s + 1)]"
    using Suc.prems(2,3) by (simp add: take_Suc_conv_app_nth)
  moreover have "reply_bytes m (inputs ?s) ?s = reply_bytes m (inputs s + 2) s"
    by (simp add: reply_bytes_def fd_data_def)
  ultimately show ?case unfolding step by (simp add: reply_bytes_Suc)
qed

text \<open>The address that the DMA controller has been given, and what it does with the data it gets.\<close>

definition dma_address :: "'a fds_scheme \<Rightarrow> nat" where
  "dma_address s =
     (let lows = List.map snd (filter (\<lambda>(p, v). p = 4) (outputs s));
          page = last (List.map snd (filter (\<lambda>(p, v). p = 0x81) (outputs s))) in
      unat (last (butlast lows)) + 256 * unat (last lows) + 65536 * unat page)"

definition fd_dma :: "nat \<Rightarrow> u8 list \<Rightarrow> 'a fds_scheme \<Rightarrow> 'a fds_scheme" where
  "fd_dma b d s =
     (if dma_address s = unat (tmp_area_address s) then s\<lparr>tmp_floppy_area := d\<rparr>
      else if dma_address s = unat (b_address s b) then set_bf b (\<lambda>x. x\<lparr>b_data := d\<rparr>) s
      else s)"

lemma shifted_low_byte:
  fixes x :: u32
  shows "ucast (signed_drop_bit 8 x) AND 0xFF = (ucast (drop_bit 8 x) AND 0xFF :: u16)"
    and "ucast (signed_drop_bit 8 (signed_drop_bit 8 x)) AND 0xFF = (ucast (drop_bit 16 x) AND 0xFF :: u16)"
    and "ucast (signed_drop_bit 16 x) AND 0xFF = (ucast (drop_bit 16 x) AND 0xFF :: u16)"
proof -
  have m: "(0xFF :: u16) = mask 8" by (simp add: mask_eq_exp_minus_1)
  show "ucast (signed_drop_bit 8 x) AND 0xFF = (ucast (drop_bit 8 x) AND 0xFF :: u16)"
    unfolding m by (rule bit_word_eqI) (auto simp: bit_simps)
  show "ucast (signed_drop_bit 8 (signed_drop_bit 8 x)) AND 0xFF = (ucast (drop_bit 16 x) AND 0xFF :: u16)"
    unfolding m by (rule bit_word_eqI) (auto simp: bit_simps)
  then show "ucast (signed_drop_bit 16 x) AND 0xFF = (ucast (drop_bit 16 x) AND 0xFF :: u16)" by simp
qed

lemma dma_address_given:
  assumes "outputs s = xs @ dma_bytes mode addr @ List.map (\<lambda>b. (FD_DATA, g b)) bs" and "unat addr < 2 ^ 24"
  shows "dma_address s = unat addr"
proof -
  have "dma_address s = unat (ucast addr AND 0xFF :: u16) + 256 * unat (ucast (drop_bit 8 addr) AND 0xFF :: u16) +
      65536 * unat (ucast (drop_bit 16 addr) AND 0xFF :: u16)"
    by (simp add: dma_address_def assms(1) dma_bytes_def shifted_low_byte FD_DATA_def filter_map o_def butlast_append)
  also have "\<dots> = unat addr mod 256 + 256 * (unat addr div 256 mod 256) + 65536 * (unat addr div 65536 mod 256)"
    unfolding low_byte unat_drop_bit_eq by (simp add: drop_bit_eq_div)
  also have "\<dots> = unat addr"
  proof -
    have "unat addr div 65536 < 256" using assms(2) by simp
    then have "unat addr div 65536 mod 256 = unat addr div 256 div 256" by (simp add: div_mult2_eq [symmetric])
    moreover have "unat addr = 256 * (unat addr div 256) + unat addr mod 256"
      "unat addr div 256 = 256 * (unat addr div 256 div 256) + unat addr div 256 mod 256" by simp_all
    ultimately show ?thesis by linarith
  qed
  finally show ?thesis .
qed


lemma fd_placed_simps [simp]:
  "current_request (fd_placed r s) = current_request s" "rq (fd_placed r s) = rq s" "buffers (fd_placed r s) = buffers s"
  "bf (fd_placed r s) = bf s" "requests (fd_placed r s) = requests s" "inputs (fd_placed r s) = inputs s"
  "outputs (fd_placed r s) = outputs s" "port_in (fd_placed r s) = port_in s" "b_address (fd_placed r s) = b_address s"
  "tmp_area_address (fd_placed r s) = tmp_area_address s" "fd_command (fd_placed r s) = FD_READ"
  "reply_buffer (fd_placed r s) = reply_buffer s" "fd_reset (fd_placed r s) = fd_reset s"
  "fd_recalibrate (fd_placed r s) = fd_recalibrate s"
  by (simp_all add: fd_placed_def set_place_def Let_def rq_def bf_def fun_eq_iff)

lemma floppy_deselect_simps [simp]:
  "current_request (floppy_deselect s) = current_request s" "requests (floppy_deselect s) = requests s"
  "buffers (floppy_deselect s) = buffers s" "fd_reset (floppy_deselect s) = fd_reset s"
  "fd_recalibrate (floppy_deselect s) = fd_recalibrate s" "\<not> fd_selected (floppy_deselect s)"
  by (simp_all add: floppy_deselect_def wake_up_def upd_def split: option.splits)

lemma end_request_fd [simp]:
  "fd_reset (end_request m r ok s) = fd_reset s" "fd_recalibrate (end_request m r ok s) = fd_recalibrate s"
  "fd_selected (end_request m r ok s) = fd_selected s"
  by (simp_all add: end_request_def unlock_buffer_def wake_up_def upd_def set_bf_def set_rq_def Let_def split: option.splits)

lemma end_request_buffer:
  assumes "rq_bh (rq s r) = Some b" and "b < length (buffers s)"
  shows "b_data (bf (end_request m r ok s) b) = b_data (bf s b) \<and> b_uptodate (bf (end_request m r ok s) b) = ok \<and>
    \<not> b_lock (bf (end_request m r ok s) b)"
  using assms
  by (simp add: end_request_def unlock_buffer_def wake_up_def upd_def set_bf_def set_rq_def bf_def rq_def Let_def
      split: option.splits)

lemma do_fd_request_idle:
  assumes "current_request s ! 2 = None" and "\<not> fd_reset s" and "\<not> fd_recalibrate s"
  shows "fd_request s = Ok () (s\<lparr>fd_seek := False\<rparr>)"
  using assms by (simp add: FD_FUEL_def numeral_2_eq_2)

lemma rw_completes:
  assumes go: "do_floppy s = Some Rw_interrupt" "\<not> fd_reset s" "\<not> fd_recalibrate s" "fd_command s = FD_READ"
    and cur: "current_request s ! 2 = Some r" "length (current_request s) = NR_BLK_DEV" "r < length (requests s)"
    and q: "rq_bh (rq s r) = Some b" "rq_buffer (rq s r) = 0" "rq_next (rq s r) = None"
    and b: "b < length (buffers s)" "length (b_data (bf s b)) = BLOCK_SIZE" "length d = BLOCK_SIZE"
    and reply: "length (reply_buffer s) = 7" "fd_replies 7 (inputs s) s" "reply_bytes 7 (inputs s) s ! 0 AND 0xF8 = 0"
      "reply_bytes 7 (inputs s) s ! 1 AND 0xBF = 0" "reply_bytes 7 (inputs s) s ! 2 AND 0x73 = 0"
    and d: "if 0x100000 \<le> b_address s b then tmp_floppy_area s = d else b_data (bf s b) = d"
  shows "\<exists>t. floppy_interrupt s = Ok () t \<and> b_data (bf t b) = d \<and> b_uptodate (bf t b) \<and> \<not> b_lock (bf t b) \<and>
    current_request t ! 2 = None \<and> \<not> fd_selected t"
proof -
  let ?s = "s\<lparr>outputs := outputs s @ [(0x20, 0x20)], do_floppy := None\<rparr>"
  define v where "v = ?s\<lparr>inputs := inputs s + 15, reply_buffer := reply_bytes 7 (inputs s) s\<rparr>"
  have first: "floppy_interrupt s = rw_interrupt fd_request ?s"
    using go(1) by (simp add: floppy_interrupt_def port_outb_def Let_def)
  have same: "fd_replies 7 (inputs ?s) ?s" "reply_bytes 7 (inputs ?s) ?s = reply_bytes 7 (inputs s) s"
    using reply(2) by (simp_all add: fd_replies_def fd_status_def reply_bytes_def fd_data_def)
  have res: "result ?s = (7, v)"
    using result_loop_replies [OF same(1), of 0 10000] reply(1) same(2) go(2) by (simp add: result_def v_def)
  define w where "w = (if 0x100000 \<le> b_address s b then set_bf b (\<lambda>x. x\<lparr>b_data := d\<rparr>) v else v)"
  have copy: "set_request_data r b (tmp_floppy_area v) v = set_bf b (\<lambda>x. x\<lparr>b_data := d\<rparr>) v" if "0x100000 \<le> b_address s b"
    using d that q(2) b(2,3)
    by (simp add: set_request_data_def v_def rq_def bf_def set_bf_def nth_list_update Let_def)
  let ?e = "fd_end_request r True (floppy_deselect w)"
  have "rw_interrupt fd_request ?s = fd_request ?e"
    unfolding rw_interrupt_def res prod.case
    using reply(3-5) cur(1) q(1,2) b(2) go(4) copy
    by (simp add: v_def with_current_def rq_def bf_def w_def request_address_def)
  moreover have "fd_request ?e = Ok () (?e\<lparr>fd_seek := False\<rparr>)"
  proof (rule do_fd_request_idle)
    have "current_request ?e = (current_request s)[2 := None]"
      using cur(3) q(3) by (simp add: fd_end_request_def end_request_current floppy_off_def rq_def w_def v_def)
    then show "current_request ?e ! 2 = None" using cur(2) by (simp add: NR_BLK_DEV_def)
  qed (use go in \<open>simp_all add: fd_end_request_def floppy_off_def w_def v_def set_bf_def\<close>)
  moreover have "b_data (bf ?e b) = d \<and> b_uptodate (bf ?e b) \<and> \<not> b_lock (bf ?e b)"
  proof -
    let ?x = "floppy_off (FD_DRIVE (rq_dev (rq (floppy_deselect w) r))) (floppy_deselect w)"
    have "rq_bh (rq ?x r) = Some b" "b < length (buffers ?x)" "b_data (bf ?x b) = d"
      using q(1) b d by (auto simp: w_def v_def floppy_off_def rq_def bf_def)
    with end_request_buffer [of ?x r b 2 True] show ?thesis by (simp add: fd_end_request_def)
  qed
  moreover have "current_request ?e ! 2 = None" "\<not> fd_selected ?e"
    using cur q(3)
    by (simp_all add: fd_end_request_def end_request_current floppy_off_def rq_def w_def v_def NR_BLK_DEV_def)
  ultimately show ?thesis unfolding first by (intro exI [of _ "?e\<lparr>fd_seek := False\<rparr>"]) (simp add: bf_def)
qed

text \<open>C17: reading a block from a floppy disk. When a read of a block on the disk is the only request, the drive
  is ready and the controller takes the command, \<open>do_fd_request\<close> programs the DMA controller with an address
  it can reach and sends the command with the place of the block (\<open>floppy_place_in_bounds\<close>). When then
  the DMA controller has stored the data \<open>d\<close> where it was told to and the controller replies without an error,
  the interrupt ends the request with exactly \<open>d\<close> in the buffer, wherever the buffer lies: up-to-date, unlocked,
  the queue empty and the drive released.\<close>

theorem floppy_reads_block:
  assumes cur: "current_request s ! 2 = Some r" "length (current_request s) = NR_BLK_DEV" "r < length (requests s)"
    and q: "q = rq s r" "MAJOR (of_int (rq_dev q)) = 2" "FD_TYPE (MINOR (of_int (rq_dev q))) < length floppy_type"
      "rq_cmd q = READ" "rq_bh q = Some b" "rq_buffer q = 0" "rq_next q = None"
      "unat (rq_sector q) + 2 \<le> unat (fl_size (floppy_type ! FD_TYPE (MINOR (of_int (rq_dev q)))))"
    and b: "b_lock (bf s b)" "b < length (buffers s)" "length (b_data (bf s b)) = BLOCK_SIZE" "length d = BLOCK_SIZE"
    and mem: "unat (b_address s b) < 2 ^ 24" "unat (tmp_area_address s) < 0x100000" "b_address s b \<noteq> tmp_area_address s"
    and go: "\<not> fd_reset s" "\<not> fd_recalibrate s" "fd_warm r s" "fd_accepts 9 s"
    and reply: "length (reply_buffer s) = 7" "fd_replies 7 (inputs s + 9) s" "rs = reply_bytes 7 (inputs s + 9) s"
      "rs ! 0 AND 0xF8 = 0" "rs ! 1 AND 0xBF = 0" "rs ! 2 AND 0x73 = 0"
  shows "\<exists>u t addr. do_fd_request FD_FUEL s = Ok () u \<and> unat addr < 0x100000 \<and>
    outputs u = outputs s @ dma_bytes DMA_READ addr @
      List.map (\<lambda>c. (FD_DATA, ucast (ucast c :: u32) AND 0xFF)) (command_bytes (fd_placed r s)) \<and>
    floppy_interrupt (fd_dma b d u) = Ok () t \<and> b_data (bf t b) = d \<and> b_uptodate (bf t b) \<and> \<not> b_lock (bf t b) \<and>
    current_request t ! 2 = None \<and> \<not> fd_selected t"
proof -
  let ?p = "fd_placed r s" and ?a = "dma_target (fd_placed r s) r b"
  let ?c = "List.map (\<lambda>c. (FD_DATA, ucast (ucast c :: u32) AND 0xFF)) (command_bytes ?p)"
  define u where "u = sent (command_bytes ?p)
    (?p\<lparr>outputs := outputs ?p @ dma_bytes DMA_READ ?a, do_floppy := Some Rw_interrupt\<rparr>)"
  have acc: "fd_accepts 9 ?p" using go(4) by (simp add: fd_accepts_def fd_status_def)
  have run: "do_fd_request FD_FUEL s = Ok () u"
    unfolding FD_FUEL_def numeral_2_eq_2 u_def
    using accept_read [OF cur(1) q(1,2,3,5) b(1) q(4,8) go(1,2,3)] setup_rw_floppy_read [of ?p r b, OF _ _ _ _ _ acc]
      cur(1) q b(3) go(1) by simp
  have out: "outputs u = outputs s @ dma_bytes DMA_READ ?a @ ?c" by (simp add: u_def sent_def)
  have ra: "request_address ?p r b = b_address s b" using q(1,6) by (simp add: request_address_def)
  have high: "0x100000 \<le> sint (b_address s b) \<longleftrightarrow> 0x100000 \<le> b_address s b"
  proof -
    have "int (unat (b_address s b)) < int (2 ^ 31)" using mem(1) by (intro iffD2 [OF of_nat_less_iff]) simp
    then have "uint (b_address s b) < 2 ^ 31" by simp
    moreover have "- (2 ^ 31) \<le> uint (b_address s b)"
      by (rule order_trans [OF _ unsigned_greater_eq]) simp
    ultimately have "sint (b_address s b) = uint (b_address s b)"
      using signed_take_bit_int_eq_self [of 31 "uint (b_address s b)"] by (simp add: sint_uint)
    then show ?thesis by (simp add: word_le_def)
  qed
  have a: "?a = (if 0x100000 \<le> b_address s b then tmp_area_address s else b_address s b)"
    by (simp add: dma_target_def ra high)
  have low: "unat ?a < 0x100000" using mem(2) unfolding a by (auto simp: word_le_nat_alt not_le)
  have addr: "dma_address u = unat ?a"
    by (rule dma_address_given) (use out low in auto)
  have uf: "tmp_area_address u = tmp_area_address s" "b_address u = b_address s" by (simp_all add: u_def sent_def)
  define v where "v = fd_dma b d u"
  have v: "v = (if 0x100000 \<le> b_address s b then u\<lparr>tmp_floppy_area := d\<rparr> else set_bf b (\<lambda>x. x\<lparr>b_data := d\<rparr>) u)"
    using mem(3) by (simp add: v_def fd_dma_def addr a uf word_unat_eq_iff [symmetric])
  have "inputs v = inputs s + 9" by (simp add: v u_def sent_def command_bytes_def)
  moreover have "fd_replies 7 n v = fd_replies 7 n s" "reply_bytes 7 n v = reply_bytes 7 n s" for n
    by (simp_all add: fd_replies_def reply_bytes_def fd_status_def fd_data_def v u_def sent_def)
  ultimately have "\<exists>t. floppy_interrupt v = Ok () t \<and> b_data (bf t b) = d \<and> b_uptodate (bf t b) \<and> \<not> b_lock (bf t b) \<and>
    current_request t ! 2 = None \<and> \<not> fd_selected t"
    using cur q b go(1,2) reply
    by (intro rw_completes [of v r b d]) (simp_all add: v u_def sent_def rq_def bf_def set_bf_def)
  with run out low show ?thesis unfolding v_def by blast
qed


text \<open>A read of block 18 of a 1.44MB disk in drive 0 into a buffer at 2MB.\<close>

definition demo_rq :: request where
  "demo_rq = \<lparr>rq_dev = 0x21C, rq_cmd = READ, rq_errors = 0, rq_sector = 36, rq_nr_sectors = 2, rq_buffer = 0,
     rq_waiting = None, rq_bh = Some 0, rq_next = None\<rparr>"

definition demo_fds :: fds where
  "demo_fds = hds.extend
     (demo_hds\<lparr>current_request := (replicate NR_BLK_DEV None)[2 := Some 0],
        requests := replicate NR_REQUEST demo_rq, current_DOR := 0x1C, mon_timer := [0, 0, 0, 0],
        port_in := (\<lambda>n p. if p = FD_STATUS then if 9 \<le> n \<and> n < 23 then 0xD0 else 0x80 else 0)\<rparr>)
     (fds.fields False False False (replicate 7 0) 0xCF 0 0 0 0 0 0 0 1 0 False None None (\<lambda>_. 0x200000) 0x1000 [])"

lemma demo_fds_simps:
  "current_request demo_fds = (replicate NR_BLK_DEV None)[2 := Some 0]" "requests demo_fds = replicate NR_REQUEST demo_rq"
  "buffers demo_fds = [demo_buf\<lparr>b_lock := True\<rparr>]" "current_DOR demo_fds = 0x1C" "mon_timer demo_fds = [0, 0, 0, 0]"
  "port_in demo_fds = (\<lambda>n p. if p = FD_STATUS then if 9 \<le> n \<and> n < 23 then 0xD0 else 0x80 else 0)"
  "inputs demo_fds = 0" "\<not> fd_reset demo_fds" "\<not> fd_recalibrate demo_fds" "reply_buffer demo_fds = replicate 7 0"
  "cur_spec1 demo_fds = 0xCF" "cur_rate demo_fds = 0" "current_drive demo_fds = 0" "current_track demo_fds = 1"
  "b_address demo_fds = (\<lambda>_. 0x200000)" "tmp_area_address demo_fds = 0x1000" "outputs demo_fds = []"
  by (simp_all add: demo_fds_def hds.extend_def fds.fields_def demo_hds_simps)

lemma demo_type: "FD_TYPE (MINOR (of_int (rq_dev demo_rq))) = 7" "FD_DRIVE (rq_dev demo_rq) = 0"
  "MAJOR (of_int (rq_dev demo_rq)) = 2"
  by (simp_all add: demo_rq_def FD_TYPE_def MINOR_def FD_DRIVE_def MAJOR_def)

lemma demo_sector: "rq_sector demo_rq = 36"
  by (simp add: demo_rq_def)

lemma demo_rq_0: "rq demo_fds 0 = demo_rq"
  by (simp add: rq_def demo_fds_simps NR_REQUEST_def)

lemma type_7: "length floppy_type = 8" "floppy_type ! 7 = fl 2880 18 2 80 0 0x1B 0x00 0xCF"
  by (simp_all add: floppy_type_def)

lemma demo_warm: "fd_warm 0 demo_fds"
proof -
  have "seek_track (fd_placed 0 demo_fds) = 1"
    by (simp add: fd_placed_def Let_def demo_rq_0 demo_type set_place_def type_7 fl_def demo_sector)
  then show ?thesis by (simp add: fd_warm_def demo_rq_0 demo_type demo_fds_simps type_7 fl_def)
qed

text \<open>The loop accepts this request.\<close>

lemma demo_next: "fd_next (Suc n) (demo_fds\<lparr>fd_seek := False\<rparr>) = Ok (Some 0) (demo_fds\<lparr>fd_seek := False, floppy := 7\<rparr>)"
proof -
  have [simp]: "current_request demo_fds ! 2 = Some 0" by (simp add: demo_fds_simps NR_BLK_DEV_def)
  have [simp]: "requests demo_fds ! 0 = demo_rq" by (simp add: demo_fds_simps NR_REQUEST_def)
  have [simp]: "rq_bh demo_rq = Some 0" "b_lock (buffers demo_fds ! 0)"
    by (simp_all add: demo_rq_def demo_fds_simps)
  show ?thesis
    by (simp add: rq_def bf_def demo_type demo_sector type_7 fl_def Let_def demo_fds_simps(13))
qed

text \<open>The same request for sector 0xFFFFFFFE passes too: the sum of the test is 0.\<close>

lemma floppy_sum_wraps:
  "fd_next (Suc n) (demo_fds\<lparr>fd_seek := False, requests := replicate NR_REQUEST (demo_rq\<lparr>rq_sector := 0xFFFFFFFE\<rparr>)\<rparr>) =
     Ok (Some 0) (demo_fds\<lparr>fd_seek := False, requests := replicate NR_REQUEST (demo_rq\<lparr>rq_sector := 0xFFFFFFFE\<rparr>),
       floppy := 7\<rparr>)"
  and "unat (fd_track (set_place 0xFFFFFFFE (demo_fds\<lparr>fd_seek := False, floppy := 7\<rparr>))) = 199"
proof -
  have [simp]: "current_request demo_fds ! 2 = Some 0" by (simp add: demo_fds_simps NR_BLK_DEV_def)
  have [simp]: "rq_bh demo_rq = Some 0" "b_lock (buffers demo_fds ! 0)"
    by (simp_all add: demo_rq_def demo_fds_simps)
  show "fd_next (Suc n) (demo_fds\<lparr>fd_seek := False, requests := replicate NR_REQUEST (demo_rq\<lparr>rq_sector := 0xFFFFFFFE\<rparr>)\<rparr>) =
     Ok (Some 0) (demo_fds\<lparr>fd_seek := False, requests := replicate NR_REQUEST (demo_rq\<lparr>rq_sector := 0xFFFFFFFE\<rparr>),
       floppy := 7\<rparr>)"
    by (simp add: rq_def bf_def demo_type type_7 fl_def Let_def demo_fds_simps(13) NR_REQUEST_def)
  show "unat (fd_track (set_place 0xFFFFFFFE (demo_fds\<lparr>fd_seek := False, floppy := 7\<rparr>))) = 199"
    by (simp add: set_place_def Let_def type_7 fl_def)
qed

theorem floppy_reads_block_witness:
  "\<exists>u t. do_fd_request FD_FUEL demo_fds = Ok () u \<and>
     floppy_interrupt (fd_dma 0 (replicate BLOCK_SIZE 5) u) = Ok () t \<and> b_data (bf t 0) = replicate BLOCK_SIZE 5"
proof -
  have q: "rq demo_fds 0 = rq demo_fds 0" "MAJOR (of_int (rq_dev (rq demo_fds 0))) = 2"
    "FD_TYPE (MINOR (of_int (rq_dev (rq demo_fds 0)))) < length floppy_type" "rq_cmd (rq demo_fds 0) = READ"
    "rq_bh (rq demo_fds 0) = Some 0" "rq_buffer (rq demo_fds 0) = 0" "rq_next (rq demo_fds 0) = None"
    "unat (rq_sector (rq demo_fds 0)) + 2 \<le> unat (fl_size (floppy_type ! FD_TYPE (MINOR (of_int (rq_dev (rq demo_fds 0))))))"
    unfolding demo_rq_0 demo_type type_7 by (simp_all add: demo_rq_def fl_def)
  have c: "current_request demo_fds ! 2 = Some 0" "length (current_request demo_fds) = NR_BLK_DEV"
    "0 < length (requests demo_fds)" "b_lock (bf demo_fds 0)" "0 < length (buffers demo_fds)"
    "length (b_data (bf demo_fds 0)) = BLOCK_SIZE" "length (replicate BLOCK_SIZE (5 :: u8)) = BLOCK_SIZE"
    by (simp_all add: demo_fds_simps NR_BLK_DEV_def NR_REQUEST_def bf_def demo_buf_def)
  have m: "unat (b_address demo_fds 0) < 2 ^ 24" "unat (tmp_area_address demo_fds) < 0x100000"
    "b_address demo_fds 0 \<noteq> tmp_area_address demo_fds" "fd_accepts 9 demo_fds"
    by (simp_all add: demo_fds_simps fd_accepts_def fd_status_def)
  have r: "length (reply_buffer demo_fds) = 7" "fd_replies 7 (inputs demo_fds + 9) demo_fds"
    "reply_bytes 7 (inputs demo_fds + 9) demo_fds = replicate 7 0"
    by (simp_all add: demo_fds_simps fd_replies_def fd_status_def reply_bytes_def fd_data_def FD_DATA_def FD_STATUS_def
        map_replicate_const)
  from floppy_reads_block [OF c(1-3) q c(4-7) m(1-3) demo_fds_simps(8,9) demo_warm m(4) r(1,2) refl]
  show ?thesis unfolding r(3) by (simp, blast)
qed

theorem floppy_place_in_bounds_witness:
  "let u = set_place 36 (demo_fds\<lparr>fd_seek := False, floppy := 7\<rparr>) in
   1 \<le> unat (fd_sector u) \<and> unat (fd_sector u) \<le> 18 \<and> unat (fd_head u) < 2 \<and> unat (fd_track u) = 1"
proof -
  let ?t = "demo_fds\<lparr>fd_seek := False, floppy := 7\<rparr>"
  have rq: "rq ?t 0 = demo_rq" by (simp add: rq_def demo_fds_simps NR_REQUEST_def)
  have acc: "fd_next (NR_REQUEST + 1) (demo_fds\<lparr>fd_seek := False\<rparr>) = Ok (Some 0) ?t"
    unfolding Suc_eq_plus1 [symmetric] by (rule demo_next)
  have h: "rq_cmd (rq ?t 0) = READ \<or> rq_cmd (rq ?t 0) = WRITE" "36 = rq_sector (rq ?t 0)" "even (unat (36 :: u32))"
    "(36 :: u32) \<noteq> 0xFFFFFFFE"
    unfolding rq by (simp_all add: demo_rq_def)
  have "1 \<le> unat (fd_sector (set_place 36 ?t)) \<and> unat (fd_sector (set_place 36 ?t)) \<le> unat (fl_sect (floppy_type ! 7)) \<and>
    unat (fd_head (set_place 36 ?t)) < unat (fl_head (floppy_type ! 7)) \<and>
    (unat (36 :: u32) + 1) div (unat (fl_sect (floppy_type ! 7)) * unat (fl_head (floppy_type ! 7))) =
      unat (fd_track (set_place 36 ?t))"
    using floppy_place_in_bounds [OF demo_fds_simps(8,9) acc h refl refl] unfolding rq demo_type by blast
  then show ?thesis unfolding type_7 by (simp add: Let_def fl_def)
qed

end
