(* ===== verification/Desc.thy ===== *)
theory Desc
  imports Addr
begin

text \<open>
  The descriptors of segments and gates, as the macros of \<open>include/linux/sched.h\<close> and
  \<open>include/asm/system.h\<close> read and write them. A descriptor is the list of its eight bytes; the inline
  assembly is rendered register by register. The other theories keep the base and the limit of a segment
  as numbers: the lemmas below say that this is what the descriptors hold.
\<close>

definition byte_of :: "nat \<Rightarrow> u32 \<Rightarrow> u8" where
  "byte_of k x = ucast (drop_bit (8 * k) x)"

subsection \<open>Base and limit\<close>

text \<open>\<open>movw dx\<close>, \<open>rorl 16\<close>, \<open>movb dl\<close>, \<open>movb dh\<close>.\<close>

definition set_base :: "u32 \<Rightarrow> u8 list \<Rightarrow> u8 list" where
  "set_base base d = d[2 := byte_of 0 base, 3 := byte_of 1 base, 4 := byte_of 2 base, 7 := byte_of 3 base]"

definition set_raw_limit :: "u32 \<Rightarrow> u8 list \<Rightarrow> u8 list" where
  "set_raw_limit limit d =
     (let d = d[0 := byte_of 0 limit, 1 := byte_of 1 limit] in d[6 := byte_of 2 limit OR (d ! 6 AND 0xF0)])"

definition set_limit :: "u32 \<Rightarrow> u8 list \<Rightarrow> u8 list" where
  "set_limit limit d = set_raw_limit (drop_bit 12 (limit - 1)) d"

definition get_base :: "u8 list \<Rightarrow> u32" where
  "get_base d =
     (let edx = push_bit 8 (ucast (d ! 7)) OR ucast (d ! 4); edx = push_bit 16 edx in
      edx OR (push_bit 8 (ucast (d ! 3)) OR ucast (d ! 2)))"

text \<open>
  What the instruction \<open>lsl\<close> loads for a segment with this descriptor: the limit in bytes, whose lower 12
  bits are ones when it is counted in pages.
\<close>

definition raw_limit :: "u8 list \<Rightarrow> u32" where
  "raw_limit d = ucast (d ! 0) OR push_bit 8 (ucast (d ! 1)) OR push_bit 16 (ucast (d ! 6 AND 0x0F))"

definition in_pages :: "u8 list \<Rightarrow> bool" where
  "in_pages d \<longleftrightarrow> bit (d ! 6) 7"

definition lsl :: "u8 list \<Rightarrow> u32" where
  "lsl d = (if in_pages d then push_bit 12 (raw_limit d) OR 0xFFF else raw_limit d)"

definition get_limit :: "u8 list \<Rightarrow> u32" where
  "get_limit d = lsl d + 1"

definition PAGE_ALIGN :: "u32 \<Rightarrow> u32" where
  "PAGE_ALIGN n = (n + 0xFFF) AND 0xFFFFF000"

text \<open>A descriptor for the TSS or the LDT of a task, of 104 bytes.\<close>

definition set_tssldt_desc :: "u32 \<Rightarrow> u8 \<Rightarrow> u8 list \<Rightarrow> u8 list" where
  "set_tssldt_desc addr type d =
     d[0 := 104, 1 := 0, 2 := byte_of 0 addr, 3 := byte_of 1 addr, 4 := byte_of 2 addr, 5 := type, 6 := 0,
       7 := byte_of 3 addr]"

definition set_tss_desc :: "u32 \<Rightarrow> u8 list \<Rightarrow> u8 list" where
  "set_tss_desc addr = set_tssldt_desc addr 0x89"

definition set_ldt_desc :: "u32 \<Rightarrow> u8 list \<Rightarrow> u8 list" where
  "set_ldt_desc addr = set_tssldt_desc addr 0x82"

definition TSS_selector :: "nat \<Rightarrow> u32" where
  "TSS_selector n = push_bit 4 (of_nat n) + push_bit 3 4"

definition LDT_selector :: "nat \<Rightarrow> u32" where
  "LDT_selector n = push_bit 4 (of_nat n) + push_bit 3 5"

text \<open>The LDT of the first task, \<open>INIT_TASK\<close>: nothing, code, data.\<close>

definition init_ldt :: "u8 list list" where
  "init_ldt = [[0, 0, 0, 0, 0, 0, 0, 0], [0x9F, 0, 0, 0, 0, 0xFA, 0xC0, 0], [0x9F, 0, 0, 0, 0, 0xF2, 0xC0, 0]]"

lemma init_ldt_limits: "List.map (\<lambda>d. (get_base d, get_limit d)) (tl init_ldt) = [(0, 0xA0000), (0, 0xA0000)]"
  by (simp add: init_ldt_def get_base_def get_limit_def lsl_def in_pages_def raw_limit_def)

subsection \<open>What is stored is what is read\<close>

lemma bytes_join:
  "push_bit 16 (push_bit 8 (ucast (byte_of 3 x)) OR ucast (byte_of 2 x)) OR
     (push_bit 8 (ucast (byte_of 1 x)) OR ucast (byte_of 0 x)) = x" (is "?l = x")
proof (rule bit_word_eqI)
  fix n assume "n < LENGTH(32)"
  then show "bit ?l n \<longleftrightarrow> bit x n"
    by (cases "n < 8"; cases "n < 16"; cases "n < 24") (auto simp: byte_of_def bit_simps)
qed

lemma get_base_set_base: "length d = 8 \<Longrightarrow> get_base (set_base b d) = b"
  using bytes_join [of b] by (simp add: get_base_def set_base_def Let_def)

lemma get_base_tssldt: "length d = 8 \<Longrightarrow> get_base (set_tssldt_desc b t d) = b"
  using bytes_join [of b] by (simp add: get_base_def set_tssldt_desc_def Let_def)

lemma get_limit_set_base: "length d = 8 \<Longrightarrow> get_limit (set_base b d) = get_limit d"
  by (simp add: get_limit_def lsl_def in_pages_def raw_limit_def set_base_def)

lemma get_base_set_limit: "length d = 8 \<Longrightarrow> get_base (set_limit n d) = get_base d"
  by (simp add: get_base_def set_limit_def set_raw_limit_def Let_def)

lemma raw_limit_set:
  assumes "length d = 8"
  shows "raw_limit (set_raw_limit n d) = take_bit 20 n" and "in_pages (set_raw_limit n d) \<longleftrightarrow> in_pages d \<or> bit n 23"
proof -
  have m: "(0x0F :: u8) = mask 4" "(0xF0 :: u8) = push_bit 4 (mask 4)"
    by (simp_all add: mask_eq_exp_minus_1)
  show "raw_limit (set_raw_limit n d) = take_bit 20 n"
    using assms unfolding raw_limit_def set_raw_limit_def Let_def m
    by (intro bit_word_eqI) (auto simp: byte_of_def bit_simps)
  show "in_pages (set_raw_limit n d) \<longleftrightarrow> in_pages d \<or> bit n 23"
    using assms unfolding in_pages_def set_raw_limit_def Let_def m
    by (auto simp: byte_of_def bit_simps)
qed

lemma page_round: "(push_bit 12 (drop_bit 12 (x :: u32)) OR 0xFFF) + 1 = (x + 0x1000) AND 0xFFFFF000"
proof -
  have f: "push_bit 12 (drop_bit 12 x) = x AND 0xFFFFF000"
    unfolding frame_mask by (rule bit_word_eqI) (auto simp: bit_simps)
  have "(x AND 0xFFFFF000 OR 0xFFF) = (x AND 0xFFFFF000) + 0xFFF"
    by (rule page_add_or [symmetric]) (simp_all add: page_simps)
  then have l: "(x AND 0xFFFFF000 OR 0xFFF) + 1 = (x AND 0xFFFFF000) + 0x1000" by simp
  have x: "x + 0x1000 = ((x AND 0xFFFFF000) + 0x1000) + (x AND 0xFFF)"
  proof -
    have "x = (x AND 0xFFFFF000) OR (x AND 0xFFF)" 
      unfolding frame_mask off_mask by (rule bit_word_eqI) (auto simp: bit_simps)
    also have "\<dots> = (x AND 0xFFFFF000) + (x AND 0xFFF)"
      by (rule page_add_or [symmetric]) (simp_all add: page_simps)
    finally show ?thesis by (simp add: add_ac)
  qed
  have "((x AND 0xFFFFF000) + 0x1000) AND 0xFFF = 0"
  proof -
    have "2 ^ 12 dvd (x AND 0xFFFFF000)"
      using frame_off0 [of x] unfolding off_mask by (simp only: take_bit_eq_mask [symmetric] take_bit_eq_0_iff)
    moreover have "2 ^ 12 dvd (0x1000 :: u32)" by simp
    ultimately have "2 ^ 12 dvd ((x AND 0xFFFFF000) + 0x1000)" by (rule dvd_add)
    then show ?thesis unfolding off_mask by (simp only: take_bit_eq_mask [symmetric] take_bit_eq_0_iff)
  qed
  then have "(x + 0x1000) AND 0xFFFFF000 = (x AND 0xFFFFF000) + 0x1000"
    unfolding x by (rule frame_add) (simp add: page_simps)
  then show ?thesis unfolding f l by simp
qed

text \<open>C26: the descriptors hold exactly the base and the limit that the rest of the kernel works with. For a segment
  counted in pages, \<open>set_base\<close> and \<open>get_base\<close> are inverse to each other for every address, \<open>get_limit\<close>
  gives back what \<open>set_limit\<close> stored rounded up to a whole page, for every limit up to 4GB (stored as 0),
  and neither touches the other's part.\<close>

theorem descriptor_roundtrip:
  assumes "length d = 8" and "in_pages d"
  shows "get_base (set_base b d) = b \<and> get_limit (set_base b d) = get_limit d \<and>
    get_limit (set_limit n d) = PAGE_ALIGN n \<and> get_base (set_limit n d) = get_base d"
proof -
  let ?r = "drop_bit 12 (n - 1)"
  have "take_bit 20 ?r = ?r" by (rule bit_word_eqI) (auto simp: bit_simps dest: bit_imp_le_length)
  then have "get_limit (set_limit n d) = (push_bit 12 ?r OR 0xFFF) + 1"
    using assms by (simp add: get_limit_def lsl_def set_limit_def raw_limit_set)
  also have "\<dots> = PAGE_ALIGN n" unfolding page_round PAGE_ALIGN_def by (simp add: add_ac)
  finally show ?thesis
    using assms(1) by (simp add: get_base_set_base get_limit_set_base get_base_set_limit)
qed

theorem descriptor_roundtrip_witness:
  "get_base (set_base 0x4000000 (init_ldt ! 1)) = 0x4000000 \<and> get_limit (set_limit 0x5001 (init_ldt ! 1)) = 0x6000"
proof -
  have "length (init_ldt ! 1) = 8" "in_pages (init_ldt ! 1)" by (simp_all add: init_ldt_def in_pages_def)
  from descriptor_roundtrip [OF this, of "0x4000000" "0x5001"] show ?thesis by (simp add: PAGE_ALIGN_def)
qed

text \<open>
  The descriptor of an LDT gives it 104 bytes, the size of the hardware part of a TSS, where the three
  descriptors of an LDT take 24.
\<close>

lemma ldt_desc_limit: "length d = 8 \<Longrightarrow> raw_limit (set_ldt_desc addr d) = 104"
  by (simp add: raw_limit_def set_ldt_desc_def set_tssldt_desc_def)

subsection \<open>Gates\<close>

text \<open>An entry of the interrupt descriptor table: its two words.\<close>

definition make_gate :: "u32 \<Rightarrow> u32 \<Rightarrow> u32 \<Rightarrow> u32 \<times> u32" where
  "make_gate type dpl addr =
     (let eax = 0x00080000; edx = addr;
          eax = (eax AND 0xFFFF0000) OR (edx AND 0xFFFF);
          edx = (edx AND 0xFFFF0000) OR ((0x8000 + push_bit 13 dpl + push_bit 8 type) AND 0xFFFF) in
      (eax, edx))"

definition gate_offset :: "u32 \<times> u32 \<Rightarrow> u32" where
  "gate_offset g = (snd g AND 0xFFFF0000) OR (fst g AND 0xFFFF)"

definition gate_selector :: "u32 \<times> u32 \<Rightarrow> u32" where
  "gate_selector g = drop_bit 16 (fst g)"

definition gate_dpl :: "u32 \<times> u32 \<Rightarrow> u32" where
  "gate_dpl g = drop_bit 13 (snd g) AND 3"

definition gate_type :: "u32 \<times> u32 \<Rightarrow> u32" where
  "gate_type g = drop_bit 8 (snd g) AND 0x1F"

definition gate_present :: "u32 \<times> u32 \<Rightarrow> bool" where
  "gate_present g \<longleftrightarrow> bit (snd g) 15"

lemma words16: "(0xFFFF :: u32) = mask 16" "(0xFFFF0000 :: u32) = NOT (mask 16)"
  by (simp_all add: mask_eq_exp_minus_1)

lemma bit_high: "bit (x AND 0xFFFF0000 :: u32) n \<longleftrightarrow> 16 \<le> n \<and> bit x n"
  unfolding words16 by (auto simp: bit_simps dest: bit_imp_le_length)

lemma bit_low: "bit (x AND 0xFFFF :: u32) n \<longleftrightarrow> n < 16 \<and> bit x n"
  unfolding words16 by (auto simp: bit_simps dest: bit_imp_le_length)

text \<open>What \<open>_set_gate\<close> writes is a present gate into the kernel's code segment.\<close>

lemma make_gate_fields:
  assumes "dpl = 0 \<or> dpl = 3" and "type = 14 \<or> type = 15"
  shows "gate_offset (make_gate type dpl addr) = addr" and "gate_selector (make_gate type dpl addr) = 8"
    and "gate_dpl (make_gate type dpl addr) = dpl" and "gate_type (make_gate type dpl addr) = type"
    and "gate_present (make_gate type dpl addr)"
proof -
  let ?h = "addr AND 0xFFFF0000"
  have m: "(3 :: u32) = mask 2" "(0x1F :: u32) = mask 5" by (simp_all add: mask_eq_exp_minus_1)
  have z: "drop_bit 13 ?h AND 3 = 0" "drop_bit 8 ?h AND 0x1F = 0"
    unfolding m words16 by (rule bit_word_eqI, auto simp: bit_simps)+
  show "gate_offset (make_gate type dpl addr) = addr"
    unfolding gate_offset_def make_gate_def Let_def fst_conv snd_conv words16
    by (rule bit_word_eqI) (auto simp: bit_simps)
  have "drop_bit 16 (addr AND 0xFFFF) = 0" unfolding words16 by (rule bit_word_eqI) (auto simp: bit_simps)
  then show "gate_selector (make_gate type dpl addr) = 8"
    by (simp add: gate_selector_def make_gate_def Let_def drop_bit_or)
  show "gate_dpl (make_gate type dpl addr) = dpl" "gate_type (make_gate type dpl addr) = type"
    using assms z by (auto simp: gate_dpl_def gate_type_def make_gate_def Let_def drop_bit_or bit.conj_disj_distrib2)
  show "gate_present (make_gate type dpl addr)"
    using assms by (auto simp: gate_present_def make_gate_def Let_def bit_or_iff)
qed

end
