(* ===== verification/Traps.thy ===== *)
theory Traps
  imports Floppy Process Desc
begin

text \<open>
  Traps, \<open>kernel/traps.c\<close>, and what the other parts of the kernel put into the descriptor tables:
  \<open>sched_init\<close>, \<open>fork\<close>, \<open>rs_init\<close>, \<open>con_init\<close>, \<open>hd_init\<close> and \<open>floppy_init\<close>. The entries in assembly
  (\<open>kernel/asm.s\<close>, \<open>kernel/system_call.s\<close>), which save the registers and call the handlers here, are known by
  their addresses only. What is printed is a list of formats with their arguments.
\<close>

subsection \<open>State\<close>

datatype handler = Ignore_int | Divide_error | Debug | Nmi | Int3 | Overflow | Bounds | Invalid_op
  | Device_not_available | Double_fault | Coprocessor_segment_overrun | Invalid_TSS | Segment_not_present
  | Stack_segment | General_protection | Page_fault | Reserved | Coprocessor_error | Irq13 | Parallel_interrupt
  | Timer_interrupt | System_call | Keyboard_interrupt | Rs1_interrupt | Rs2_interrupt | Hd_interrupt
  | Floppy_interrupt

datatype karg = Num u32 | Str string

record trs = fds +
  idt :: "(u32 \<times> u32) list"
  gdt :: "u8 list list"
  handler_address :: "handler \<Rightarrow> u32"
  tss_address :: "nat \<Rightarrow> u32"
  ldt_address :: "nat \<Rightarrow> u32"
  printed :: "(string \<times> karg list) list"

definition printk :: "string \<Rightarrow> karg list \<Rightarrow> 'a trs_scheme \<Rightarrow> 'a trs_scheme" where
  "printk fmt args s = s\<lparr>printed := printed s @ [(fmt, args)]\<rparr>"

definition set_gate :: "nat \<Rightarrow> u32 \<Rightarrow> u32 \<Rightarrow> handler \<Rightarrow> 'a trs_scheme \<Rightarrow> 'a trs_scheme" where
  "set_gate n type dpl h s = s\<lparr>idt := (idt s)[n := make_gate type dpl (handler_address s h)]\<rparr>"

definition set_intr_gate :: "nat \<Rightarrow> handler \<Rightarrow> 'a trs_scheme \<Rightarrow> 'a trs_scheme" where
  "set_intr_gate n = set_gate n 14 0"

definition set_trap_gate :: "nat \<Rightarrow> handler \<Rightarrow> 'a trs_scheme \<Rightarrow> 'a trs_scheme" where
  "set_trap_gate n = set_gate n 15 0"

definition set_system_gate :: "nat \<Rightarrow> handler \<Rightarrow> 'a trs_scheme \<Rightarrow> 'a trs_scheme" where
  "set_system_gate n = set_gate n 15 3"

text \<open>\<open>setup_idt\<close> of \<open>boot/head.s\<close> fills the table.\<close>

definition setup_idt :: "'a trs_scheme \<Rightarrow> 'a trs_scheme" where
  "setup_idt s = s\<lparr>idt := replicate 256 (make_gate 14 0 (handler_address s Ignore_int))\<rparr>"

text \<open>\<open>outb(inb_p(port) & mask, port)\<close>.\<close>

definition mask_port :: "u8 \<Rightarrow> u16 \<Rightarrow> 'a hds_scheme \<Rightarrow> 'a hds_scheme" where
  "mask_port m port s = (case port_inb port s of (v, s) \<Rightarrow> port_outb (ucast (v AND m)) port s)"

subsection \<open>The handlers\<close>

definition FIRST_TSS_ENTRY :: nat where "FIRST_TSS_ENTRY = 4"
definition FIRST_LDT_ENTRY :: nat where "FIRST_LDT_ENTRY = FIRST_TSS_ENTRY + 1"

text \<open>The n-th word from \<open>esp\<close>; bytes and words of a segment of user space or of the kernel.\<close>

definition esp_word :: "u32 \<Rightarrow> nat \<Rightarrow> 'a trs_scheme \<Rightarrow> u32" where
  "esp_word esp n s = phys s (esp + 4 * of_nat n)"

definition get_seg_byte :: "u32 \<Rightarrow> u32 \<Rightarrow> 'a trs_scheme \<Rightarrow> u8" where
  "get_seg_byte seg addr s = (if seg AND 0xFFFF = 0x0F \<or> seg AND 0xFFFF = 0x17 then get_fs_byte addr s else phys_byte addr s)"

definition get_seg_long :: "u32 \<Rightarrow> 'a trs_scheme \<Rightarrow> u32" where
  "get_seg_long addr s = get_fs_long addr s"

text \<open>The number of the task, from the selector of its TSS that \<open>str\<close> reads.\<close>

definition str_task :: "'a trs_scheme \<Rightarrow> u32" where
  "str_task s = drop_bit 4 (TSS_selector (current s) - push_bit 3 (of_nat FIRST_TSS_ENTRY))"

definition die :: "u32 \<Rightarrow> string \<Rightarrow> u32 \<Rightarrow> u32 \<Rightarrow> 'a trs_scheme \<Rightarrow> (unit, 'a trs_scheme) res" where
  "die fs_reg msg esp nr s =
     (let s = printk ''%s: %04x'' [Str msg, Num (nr AND 0xFFFF)] s;
          e = (\<lambda>n. esp_word esp n s);
          s = printk ''EIP: %04x:%p EFLAGS: %p ESP: %04x:%p'' [Num (e 1), Num (e 0), Num (e 2), Num (e 4), Num (e 3)] s;
          s = printk ''fs: %04x'' [Num fs_reg] s;
          s = printk ''base: %p, limit: %p'' [Num (code_base (cur s)), Num (data_limit (cur s))] s;
          s = (if e 4 = 0x17 then
                 let s = printk ''Stack: '' [] s;
                     s = fold (\<lambda>i s. printk ''%p '' [Num (get_seg_long (e 3 + 4 * of_nat i) s)] s) [0..<4] s in
                 printk '''' [] s
               else s);
          s = printk ''Pid: %d, process nr: %d'' [Num (of_int (pid (cur s))), Num (0xFFFF AND str_task s)] s;
          s = fold (\<lambda>i s. printk ''%02x '' [Num (ucast (get_seg_byte (e 1) (e 0 + of_nat i) s))] s) [0..<10] s in
      do_exit 11 (printk '''' [] s))"

definition do_double_fault :: "u32 \<Rightarrow> u32 \<Rightarrow> u32 \<Rightarrow> 'a trs_scheme \<Rightarrow> (unit, 'a trs_scheme) res" where
  "do_double_fault fs_reg = die fs_reg ''double fault''"

definition do_general_protection :: "u32 \<Rightarrow> u32 \<Rightarrow> u32 \<Rightarrow> 'a trs_scheme \<Rightarrow> (unit, 'a trs_scheme) res" where
  "do_general_protection fs_reg = die fs_reg ''general protection''"

definition do_divide_error :: "u32 \<Rightarrow> u32 \<Rightarrow> u32 \<Rightarrow> 'a trs_scheme \<Rightarrow> (unit, 'a trs_scheme) res" where
  "do_divide_error fs_reg = die fs_reg ''divide error''"

definition do_nmi :: "u32 \<Rightarrow> u32 \<Rightarrow> u32 \<Rightarrow> 'a trs_scheme \<Rightarrow> (unit, 'a trs_scheme) res" where
  "do_nmi fs_reg = die fs_reg ''nmi''"

definition do_debug :: "u32 \<Rightarrow> u32 \<Rightarrow> u32 \<Rightarrow> 'a trs_scheme \<Rightarrow> (unit, 'a trs_scheme) res" where
  "do_debug fs_reg = die fs_reg ''debug''"

definition do_overflow :: "u32 \<Rightarrow> u32 \<Rightarrow> u32 \<Rightarrow> 'a trs_scheme \<Rightarrow> (unit, 'a trs_scheme) res" where
  "do_overflow fs_reg = die fs_reg ''overflow''"

definition do_bounds :: "u32 \<Rightarrow> u32 \<Rightarrow> u32 \<Rightarrow> 'a trs_scheme \<Rightarrow> (unit, 'a trs_scheme) res" where
  "do_bounds fs_reg = die fs_reg ''bounds''"

definition do_invalid_op :: "u32 \<Rightarrow> u32 \<Rightarrow> u32 \<Rightarrow> 'a trs_scheme \<Rightarrow> (unit, 'a trs_scheme) res" where
  "do_invalid_op fs_reg = die fs_reg ''invalid operand''"

definition do_device_not_available :: "u32 \<Rightarrow> u32 \<Rightarrow> u32 \<Rightarrow> 'a trs_scheme \<Rightarrow> (unit, 'a trs_scheme) res" where
  "do_device_not_available fs_reg = die fs_reg ''device not available''"

definition do_coprocessor_segment_overrun :: "u32 \<Rightarrow> u32 \<Rightarrow> u32 \<Rightarrow> 'a trs_scheme \<Rightarrow> (unit, 'a trs_scheme) res" where
  "do_coprocessor_segment_overrun fs_reg = die fs_reg ''coprocessor segment overrun''"

definition do_invalid_TSS :: "u32 \<Rightarrow> u32 \<Rightarrow> u32 \<Rightarrow> 'a trs_scheme \<Rightarrow> (unit, 'a trs_scheme) res" where
  "do_invalid_TSS fs_reg = die fs_reg ''invalid TSS''"

definition do_segment_not_present :: "u32 \<Rightarrow> u32 \<Rightarrow> u32 \<Rightarrow> 'a trs_scheme \<Rightarrow> (unit, 'a trs_scheme) res" where
  "do_segment_not_present fs_reg = die fs_reg ''segment not present''"

definition do_stack_segment :: "u32 \<Rightarrow> u32 \<Rightarrow> u32 \<Rightarrow> 'a trs_scheme \<Rightarrow> (unit, 'a trs_scheme) res" where
  "do_stack_segment fs_reg = die fs_reg ''stack segment''"

definition do_coprocessor_error :: "u32 \<Rightarrow> u32 \<Rightarrow> u32 \<Rightarrow> 'a trs_scheme \<Rightarrow> (unit, 'a trs_scheme) res" where
  "do_coprocessor_error fs_reg esp error_code s =
     (if last_task_used_math s \<noteq> Some (current s) then Ok () s
      else die fs_reg ''coprocessor error'' esp error_code s)"

definition do_reserved :: "u32 \<Rightarrow> u32 \<Rightarrow> u32 \<Rightarrow> 'a trs_scheme \<Rightarrow> (unit, 'a trs_scheme) res" where
  "do_reserved fs_reg = die fs_reg ''reserved (15,17-47) error''"

text \<open>The registers that \<open>asm.s\<close> has pushed, and the breakpoint trap, which prints them and returns.\<close>

record saved_regs =
  sv_fs :: u32
  sv_es :: u32
  sv_ds :: u32
  sv_ebp :: u32
  sv_esi :: u32
  sv_edi :: u32
  sv_edx :: u32
  sv_ecx :: u32
  sv_ebx :: u32
  sv_eax :: u32

definition do_int3 :: "u32 \<Rightarrow> saved_regs \<Rightarrow> 'a trs_scheme \<Rightarrow> 'a trs_scheme" where
  "do_int3 esp r s =
     (let tr = TSS_selector (current s);
          s = printk ''eax ebx ecx edx %8x %8x %8x %8x'' [Num (sv_eax r), Num (sv_ebx r), Num (sv_ecx r), Num (sv_edx r)] s;
          s = printk ''esi edi ebp esp %8x %8x %8x %8x'' [Num (sv_esi r), Num (sv_edi r), Num (sv_ebp r), Num esp] s;
          s = printk ''ds es fs tr %4x %4x %4x %4x'' [Num (sv_ds r), Num (sv_es r), Num (sv_fs r), Num tr] s in
      printk ''EIP: %8x   CS: %4x  EFLAGS: %8x'' [Num (esp_word esp 0 s), Num (esp_word esp 1 s), Num (esp_word esp 2 s)] s)"

text \<open>
  \<open>kernel/math/math_emulate.c\<close>: there is no emulation; the process gets \<open>SIGFPE\<close>. \<open>cs\<close> and \<open>eip\<close> are those of the
  instruction that needs the coprocessor.
\<close>

definition SIGFPE :: int where "SIGFPE = 8"

definition math_emulate :: "u32 \<Rightarrow> u32 \<Rightarrow> 'a trs_scheme \<Rightarrow> (unit, 'a trs_scheme) res" where
  "math_emulate cs eip s =
     (if cs AND 0xFFFF \<noteq> 0x0F then Panic ''Math emulation needed in kernel''
      else
        let first = get_fs_byte eip s; second = get_fs_byte (eip + 1) s;
            s = printk ''%04x:%08x %02x %02x'' [Num (cs AND 0xFFFF), Num eip, Num (ucast first), Num (ucast second)] s in
        Ok () (upd_cur (\<lambda>p. p\<lparr>signal := signal p OR sigbit SIGFPE\<rparr>) s))"

definition math_error :: "'a trs_scheme \<Rightarrow> 'a trs_scheme" where
  "math_error s =
     (case last_task_used_math s of
        None \<Rightarrow> s
      | Some i \<Rightarrow> upd i (\<lambda>p. p\<lparr>signal := signal p OR sigbit SIGFPE\<rparr>) s)"

subsection \<open>Setting up\<close>

definition trap_init :: "'a trs_scheme \<Rightarrow> 'a trs_scheme" where
  "trap_init s =
     (let s = set_trap_gate 0 Divide_error s;
          s = set_trap_gate 1 Debug s;
          s = set_trap_gate 2 Nmi s;
          s = set_system_gate 3 Int3 s;
          s = set_system_gate 4 Overflow s;
          s = set_system_gate 5 Bounds s;
          s = set_trap_gate 6 Invalid_op s;
          s = set_trap_gate 7 Device_not_available s;
          s = set_trap_gate 8 Double_fault s;
          s = set_trap_gate 9 Coprocessor_segment_overrun s;
          s = set_trap_gate 10 Invalid_TSS s;
          s = set_trap_gate 11 Segment_not_present s;
          s = set_trap_gate 12 Stack_segment s;
          s = set_trap_gate 13 General_protection s;
          s = set_trap_gate 14 Page_fault s;
          s = set_trap_gate 15 Reserved s;
          s = set_trap_gate 16 Coprocessor_error s;
          s = fold (\<lambda>i. set_trap_gate i Reserved) [17..<48] s;
          s = set_trap_gate 45 Irq13 s;
          s = mask_port 0xFB 0x21 s;
          s = mask_port 0xDF 0xA1 s in
      set_trap_gate 39 Parallel_interrupt s)"

text \<open>The descriptors of the TSS and the LDT of task \<open>nr\<close>, as \<open>copy_process\<close> sets them.\<close>

definition set_task_descs :: "nat \<Rightarrow> 'a trs_scheme \<Rightarrow> 'a trs_scheme" where
  "set_task_descs nr s =
     (let t = nr * 2 + FIRST_TSS_ENTRY; l = nr * 2 + FIRST_LDT_ENTRY;
          s = s\<lparr>gdt := (gdt s)[t := set_tss_desc (tss_address s nr) (gdt s ! t)]\<rparr> in
      s\<lparr>gdt := (gdt s)[l := set_ldt_desc (ldt_address s nr) (gdt s ! l)]\<rparr>)"

definition clear_task_descs :: "nat \<Rightarrow> 'a trs_scheme \<Rightarrow> 'a trs_scheme" where
  "clear_task_descs nr s =
     s\<lparr>gdt := (gdt s)[nr * 2 + FIRST_TSS_ENTRY := replicate 8 0, nr * 2 + FIRST_LDT_ENTRY := replicate 8 0]\<rparr>"

definition LATCH :: nat where "LATCH = 11931"

text \<open>\<open>sched_init\<close>, with the tables, the clock and the gates.\<close>

definition sched_init_tables :: "'a trs_scheme \<Rightarrow> 'a trs_scheme" where
  "sched_init_tables s =
     (let s = set_task_descs 0 s;
          s = fold clear_task_descs [1..<NR_TASKS] (sched_init s);
          s = port_outb 0x36 0x43 s;
          s = port_outb (of_nat LATCH AND 0xFF) 0x40 s;
          s = port_outb (drop_bit 8 (of_nat LATCH)) 0x40 s;
          s = set_intr_gate 0x20 Timer_interrupt s;
          s = mask_port 0xFE 0x21 s in
      set_system_gate 0x80 System_call s)"

definition init_port :: "u32 \<Rightarrow> 'a trs_scheme \<Rightarrow> 'a trs_scheme" where
  "init_port port s =
     (let p = ucast port :: u16;
          s = port_outb 0x80 (p + 3) s;
          s = port_outb 0x30 p s;
          s = port_outb 0 (p + 1) s;
          s = port_outb 3 (p + 3) s;
          s = port_outb 0x0B (p + 4) s;
          s = port_outb 0x0D (p + 1) s in
      snd (port_inb p s))"

definition rs_init :: "'a trs_scheme \<Rightarrow> 'a trs_scheme" where
  "rs_init s =
     (let s = set_intr_gate 0x24 Rs1_interrupt s;
          s = set_intr_gate 0x23 Rs2_interrupt s;
          s = init_port (q_data (read_q (tt s 1))) s;
          s = init_port (q_data (read_q (tt s 2))) s in
      mask_port 0xE7 0x21 s)"

definition tty_init :: "setup_info \<Rightarrow> 'a trs_scheme \<Rightarrow> 'a trs_scheme" where
  "tty_init b s =
     (let s = rs_init s in
      set_trap_gate 0x21 Keyboard_interrupt (s\<lparr>con := con_init b (con s)\<rparr>))"

definition hd_init_gates :: "'a trs_scheme \<Rightarrow> 'a trs_scheme" where
  "hd_init_gates s = hd_init (set_intr_gate 0x2E Hd_interrupt s)"

definition floppy_init_gates :: "'a trs_scheme \<Rightarrow> 'a trs_scheme" where
  "floppy_init_gates s = floppy_init (set_trap_gate 0x26 Floppy_interrupt s)"

end
