(* ===== verification/Boot.thy ===== *)
theory Boot
  imports Traps Cache Mktime
begin

text \<open>
  Starting up: \<open>time_init\<close> and \<open>main\<close> of \<open>init/main.c\<close> up to the first \<open>fork\<close>, which call the
  initialisation of every other part in turn. \<open>init()\<close>, which runs as a user process and only issues system
  calls, is left out. What \<open>setup.s\<close> has left in memory is the record \<open>boot_info\<close>; \<open>RAMDISK\<close> is the size
  in kilobytes that the kernel may have been compiled with.
\<close>

record boot_info =
  EXT_MEM_K :: u16
  ORIG_ROOT_DEV :: u16
  video :: setup_info
  RAMDISK :: "nat option"

subsection \<open>The clock\<close>

definition BCD_TO_BIN :: "int \<Rightarrow> int" where
  "BCD_TO_BIN val = (val AND 15) + drop_bit 4 val * 10"

definition read_clock :: "'a hds_scheme \<Rightarrow> tm \<times> 'a hds_scheme" where
  "read_clock s =
     (case CMOS_READ 0 s of (sec, s) \<Rightarrow>
      case CMOS_READ 2 s of (mi, s) \<Rightarrow>
      case CMOS_READ 4 s of (hour, s) \<Rightarrow>
      case CMOS_READ 7 s of (mday, s) \<Rightarrow>
      case CMOS_READ 8 s of (mon, s) \<Rightarrow>
      case CMOS_READ 9 s of (year, s) \<Rightarrow>
      (\<lparr>tm_sec = uint sec, tm_min = uint mi, tm_hour = uint hour, tm_mday = uint mday, tm_mon = uint mon,
        tm_year = uint year\<rparr>, s))"

text \<open>The loop reads again when the second has changed in between.\<close>

fun clock_loop :: "nat \<Rightarrow> 'a hds_scheme \<Rightarrow> (tm, 'a hds_scheme) res" where
  "clock_loop 0 s = Hang"
| "clock_loop (Suc fuel) s =
     (case read_clock s of (t, s) \<Rightarrow>
      case CMOS_READ 0 s of (sec, s) \<Rightarrow> if tm_sec t \<noteq> uint sec then clock_loop fuel s else Ok t s)"

definition CLOCK_FUEL :: nat where "CLOCK_FUEL = 1000"

definition time_init :: "'a hds_scheme \<Rightarrow> (unit, 'a hds_scheme) res" where
  "time_init s =
     bind (clock_loop CLOCK_FUEL s) (\<lambda>t s.
     let t = \<lparr>tm_sec = BCD_TO_BIN (tm_sec t), tm_min = BCD_TO_BIN (tm_min t), tm_hour = BCD_TO_BIN (tm_hour t),
           tm_mday = BCD_TO_BIN (tm_mday t), tm_mon = BCD_TO_BIN (tm_mon t), tm_year = BCD_TO_BIN (tm_year t)\<rparr>;
         t = t\<lparr>tm_mon := tm_mon t - 1\<rparr> in
     case kernel_mktime t of None \<Rightarrow> Fault ''month'' | Some x \<Rightarrow> Ok () (s\<lparr>startup_time := x\<rparr>))"

subsection \<open>main\<close>

definition memory_end :: "u16 \<Rightarrow> u32" where
  "memory_end ext =
     (let m = (push_bit 20 1 + push_bit 10 (ucast ext)) AND 0xFFFFF000 in
      if 16 * 1024 * 1024 < m then 16 * 1024 * 1024 else m)"

definition buffer_memory_end :: "u32 \<Rightarrow> u32" where
  "buffer_memory_end m =
     (if 12 * 1024 * 1024 < m then 4 * 1024 * 1024
      else if 6 * 1024 * 1024 < m then 2 * 1024 * 1024
      else 1024 * 1024)"

definition main_memory :: "nat option \<Rightarrow> u32 \<Rightarrow> 'a fs_scheme \<Rightarrow> u32 \<times> 'a fs_scheme" where
  "main_memory ramdisk start s =
     (case ramdisk of
        None \<Rightarrow> (start, s)
      | Some k \<Rightarrow> (case rd_init start (of_nat k * 1024) s of (n, s) \<Rightarrow> (start + n, s)))"

definition kernel_main :: "boot_info \<Rightarrow> 'a trs_scheme \<Rightarrow> (unit, 'a trs_scheme) res" where
  "kernel_main b s =
     (let s = s\<lparr>ROOT_DEV := ORIG_ROOT_DEV b\<rparr>;
          mem = memory_end (EXT_MEM_K b);
          buf = buffer_memory_end mem in
      case main_memory (RAMDISK b) buf s of (start, s) \<Rightarrow>
      bind (mem_init start mem s) (\<lambda>_ s.
      let s = tty_init (video b) (blk_dev_init (trap_init s)) in
      bind (time_init s) (\<lambda>_ s.
      let s = sched_init_tables s;
          s = buffer_init (uint buf) s;
          s = hd_init_gates s;
          s = floppy_init_gates s;
          s = snd (sys_inishm s) in
      Ok () (snd (sys_inisem s)))))"

subsection \<open>What the clock says\<close>

text \<open>A number below 100 as the clock gives it, and a clock that shows a date for seven reads.\<close>

definition to_bcd :: "int \<Rightarrow> u8" where
  "to_bcd n = of_int (16 * (n div 10) + n mod 10)"

definition clock_shows :: "tm \<Rightarrow> nat \<Rightarrow> 'a hds_scheme \<Rightarrow> bool" where
  "clock_shows d n s \<longleftrightarrow>
     List.map (\<lambda>k. ucast (port_in s (n + k) 0x71) :: u8) [0..<7] =
       List.map to_bcd [tm_sec d, tm_min d, tm_hour d, tm_mday d, tm_mon d + 1, tm_year d, tm_sec d]"

definition proper_date :: "tm \<Rightarrow> bool" where
  "proper_date d \<longleftrightarrow> 0 \<le> tm_sec d \<and> tm_sec d < 60 \<and> 0 \<le> tm_min d \<and> tm_min d < 60 \<and> 0 \<le> tm_hour d \<and> tm_hour d < 24 \<and>
     1 \<le> tm_mday d \<and> tm_mday d \<le> 31 \<and> 0 \<le> tm_mon d \<and> tm_mon d < 12 \<and> 0 \<le> tm_year d \<and> tm_year d < 100"

lemma bcd: "0 \<le> n \<Longrightarrow> n < 100 \<Longrightarrow> BCD_TO_BIN (uint (to_bcd n)) = n"
proof -
  assume n: "0 \<le> n" "n < 100"
  then have r: "0 \<le> 16 * (n div 10) + n mod 10" "16 * (n div 10) + n mod 10 < 256" by presburger+
  then have u: "uint (to_bcd n) = 16 * (n div 10) + n mod 10"
    unfolding to_bcd_def uint_word_of_int_eq by (simp add: take_bit_int_eq_self)
  have "x AND 15 = x mod 16" for x :: int
    using take_bit_eq_mask [of 4 x] by (simp add: take_bit_eq_mod mask_eq_exp_minus_1)
  then have "BCD_TO_BIN (uint (to_bcd n)) = (16 * (n div 10) + n mod 10) mod 16 + (16 * (n div 10) + n mod 10) div 16 * 10"
    unfolding BCD_TO_BIN_def u by (simp only: drop_bit_eq_div) simp
  also have "\<dots> = n mod 10 + n div 10 * 10"
  proof -
    have "0 \<le> n mod 10" "n mod 10 < 16" by (simp, rule order.strict_trans [OF pos_mod_bound]) simp_all
    then have "(16 * (n div 10) + n mod 10) mod 16 = n mod 10" "(16 * (n div 10) + n mod 10) div 16 = n div 10"
      by simp_all
    then show ?thesis by simp
  qed
  also have "\<dots> = n" by simp
  finally show ?thesis .
qed

lemma CMOS_READ_eq:
  "CMOS_READ a s = (ucast (port_in s (inputs s) 0x71),
     s\<lparr>outputs := outputs s @ [(0x70, ucast (0x80 OR a) AND 0xFF)], inputs := Suc (inputs s)\<rparr>)"
  by (simp add: CMOS_READ_def port_outb_def port_inb_def)

definition clock_ports :: "(u16 \<times> u16) list" where
  "clock_ports = List.map (\<lambda>a :: u32. (0x70, ucast (0x80 OR a) AND 0xFF)) [0, 2, 4, 7, 8, 9, 0]"

lemma time_init_shows:
  assumes d: "proper_date d" and c: "clock_shows d (inputs s) s"
  shows "\<exists>x. kernel_mktime d = Some x \<and>
    time_init s = Ok () (s\<lparr>outputs := outputs s @ clock_ports, inputs := inputs s + 7, startup_time := x\<rparr>)"
proof -
  have r: "ucast (port_in s (inputs s) 0x71) = to_bcd (tm_sec d)" "ucast (port_in s (Suc (inputs s)) 0x71) = to_bcd (tm_min d)"
    "ucast (port_in s (Suc (Suc (inputs s))) 0x71) = to_bcd (tm_hour d)" "ucast (port_in s (Suc (Suc (Suc (inputs s)))) 0x71) = to_bcd (tm_mday d)"
    "ucast (port_in s (Suc (Suc (Suc (Suc (inputs s))))) 0x71) = to_bcd (tm_mon d + 1)" "ucast (port_in s (Suc (Suc (Suc (Suc (Suc (inputs s)))))) 0x71) = to_bcd (tm_year d)"
    "ucast (port_in s (Suc (Suc (Suc (Suc (Suc (Suc (inputs s))))))) 0x71) = to_bcd (tm_sec d)"
    using c by (simp_all add: clock_shows_def upt_rec)
  note b = bcd [of "tm_sec d"] bcd [of "tm_min d"] bcd [of "tm_hour d"] bcd [of "tm_mday d"] bcd [of "tm_year d"]
    bcd [of "tm_mon d + 1"]
  obtain x where x: "kernel_mktime d = Some x" using d by (auto simp: kernel_mktime_def proper_date_def Let_def)
  let ?t = "s\<lparr>outputs := outputs s @ clock_ports, inputs := inputs s + 7\<rparr>"
  have "clock_loop n s = Ok \<lparr>tm_sec = uint (to_bcd (tm_sec d)), tm_min = uint (to_bcd (tm_min d)),
      tm_hour = uint (to_bcd (tm_hour d)), tm_mday = uint (to_bcd (tm_mday d)), tm_mon = uint (to_bcd (tm_mon d + 1)),
      tm_year = uint (to_bcd (tm_year d))\<rparr> ?t" if "0 < n" for n
    using that by (cases n) (simp_all add: read_clock_def CMOS_READ_eq r clock_ports_def)
  moreover have "0 < CLOCK_FUEL" by (simp add: CLOCK_FUEL_def)
  moreover have "kernel_mktime \<lparr>tm_sec = tm_sec d, tm_min = tm_min d, tm_hour = tm_hour d, tm_mday = tm_mday d,
    tm_mon = tm_mon d, tm_year = tm_year d\<rparr> = Some x" using x by (cases d) simp
  ultimately have "time_init s = Ok () (?t\<lparr>startup_time := x\<rparr>)"
    using d b by (simp add: time_init_def proper_date_def)
  with x show ?thesis by blast
qed

subsection \<open>The gates that are installed\<close>

text \<open>
  Each part installs a list of gates; a later gate for the same vector replaces an earlier one.
\<close>

type_synonym vector = "nat \<times> u32 \<times> u32 \<times> handler"

definition install :: "(handler \<Rightarrow> u32) \<Rightarrow> vector list \<Rightarrow> (u32 \<times> u32) list \<Rightarrow> (u32 \<times> u32) list" where
  "install addr vs g = fold (\<lambda>(n, type, dpl, h) g. g[n := make_gate type dpl (addr h)]) vs g"

lemma install_append [simp]: "install addr ws (install addr vs g) = install addr (vs @ ws) g"
  by (simp add: install_def)

lemma length_install [simp]: "length (install addr vs g) = length g"
  by (induction vs arbitrary: g) (auto simp: install_def)

lemma install_nth:
  "n < length g \<Longrightarrow> install addr vs g ! n =
     (case map_of (rev vs) n of None \<Rightarrow> g ! n | Some (type, dpl, h) \<Rightarrow> make_gate type dpl (addr h))"
proof (induction vs rule: rev_induct)
  case (snoc v vs)
  obtain k type dpl h where v: "v = (k, type, dpl, h)" by (cases v) auto
  have "install addr (vs @ [v]) g = (install addr vs g)[k := make_gate type dpl (addr h)]"
    by (simp add: v install_def)
  with snoc show ?case by (simp add: v nth_list_update)
qed (simp add: install_def)

lemma gates:
  "set_gate n type dpl h s = s\<lparr>idt := install (handler_address s) [(n, type, dpl, h)] (idt s)\<rparr>"
  "set_intr_gate n h s = s\<lparr>idt := install (handler_address s) [(n, 14, 0, h)] (idt s)\<rparr>"
  "set_trap_gate n h s = s\<lparr>idt := install (handler_address s) [(n, 15, 0, h)] (idt s)\<rparr>"
  "set_system_gate n h s = s\<lparr>idt := install (handler_address s) [(n, 15, 3, h)] (idt s)\<rparr>"
  by (simp_all add: set_intr_gate_def set_trap_gate_def set_system_gate_def set_gate_def install_def)

lemma fold_trap_gates:
  "fold (\<lambda>i. set_trap_gate i h) ns s =
     s\<lparr>idt := install (handler_address s) (List.map (\<lambda>i. (i, 15, 0, h)) ns) (idt s)\<rparr>"
  by (induction ns arbitrary: s) (simp_all add: gates, simp add: install_def)

lemmas io_simps = gates mask_port_def port_inb_def port_outb_def Let_def

lemma fold_clear_descs:
  "fold clear_task_descs ns s =
     s\<lparr>gdt := fold (\<lambda>nr g. g[nr * 2 + FIRST_TSS_ENTRY := replicate 8 0, nr * 2 + FIRST_LDT_ENTRY := replicate 8 0]) ns (gdt s)\<rparr>"
  by (induction ns arbitrary: s) (simp_all add: clear_task_descs_def)

definition trap_vectors :: "vector list" where
  "trap_vectors =
     [(0, 15, 0, Divide_error), (1, 15, 0, Debug), (2, 15, 0, Nmi), (3, 15, 3, Int3), (4, 15, 3, Overflow),
      (5, 15, 3, Bounds), (6, 15, 0, Invalid_op), (7, 15, 0, Device_not_available), (8, 15, 0, Double_fault),
      (9, 15, 0, Coprocessor_segment_overrun), (10, 15, 0, Invalid_TSS), (11, 15, 0, Segment_not_present),
      (12, 15, 0, Stack_segment), (13, 15, 0, General_protection), (14, 15, 0, Page_fault), (15, 15, 0, Reserved),
      (16, 15, 0, Coprocessor_error)] @ List.map (\<lambda>i. (i, 15, 0, Reserved)) [17..<48] @
     [(45, 15, 0, Irq13), (39, 15, 0, Parallel_interrupt)]"

lemma trap_init_eq:
  "\<exists>out. trap_init s = s\<lparr>idt := install (handler_address s) trap_vectors (idt s), inputs := inputs s + 2, outputs := out\<rparr>"
  by (rule exI [of _ "outputs (trap_init s)"])
     (simp add: trap_init_def fold_trap_gates io_simps trap_vectors_def del: upt_Suc upt.simps)

lemma tty_init_eq:
  "\<exists>out. tty_init b s = s\<lparr>con := con_init b (con s),
     idt := install (handler_address s)
       [(0x24, 14, 0, Rs1_interrupt), (0x23, 14, 0, Rs2_interrupt), (0x21, 15, 0, Keyboard_interrupt)] (idt s),
     inputs := inputs s + 3, outputs := out\<rparr>"
  by (rule exI [of _ "outputs (tty_init b s)"]) (simp add: tty_init_def rs_init_def init_port_def io_simps)

lemma sched_init_tables_eq:
  "\<exists>out g. sched_init_tables s = sched_init s
     \<lparr>gdt := g,
      idt := install (handler_address s) [(0x20, 14, 0, Timer_interrupt), (0x80, 15, 3, System_call)] (idt s),
      inputs := inputs s + 1, outputs := out\<rparr>"
  by (rule exI [of _ "outputs (sched_init_tables s)"], rule exI [of _ "gdt (sched_init_tables s)"])
     (simp add: sched_init_tables_def fold_clear_descs set_task_descs_def sched_init_def io_simps)

lemma hd_init_gates_eq:
  "\<exists>out. hd_init_gates s = s\<lparr>request_fn := (request_fn s)(3 := True),
     idt := install (handler_address s) [(0x2E, 14, 0, Hd_interrupt)] (idt s), inputs := inputs s + 2, outputs := out\<rparr>"
  by (rule exI [of _ "outputs (hd_init_gates s)"]) (simp add: hd_init_gates_def hd_init_def io_simps)

lemma floppy_init_gates_eq:
  "\<exists>out. floppy_init_gates s = s\<lparr>request_fn := (request_fn s)(2 := True),
     idt := install (handler_address s) [(0x26, 15, 0, Floppy_interrupt)] (idt s), inputs := inputs s + 1, outputs := out\<rparr>"
  by (rule exI [of _ "outputs (floppy_init_gates s)"]) (simp add: floppy_init_gates_def floppy_init_def io_simps)

subsection \<open>The state after start-up\<close>

lemma unat_frame: "unat (x AND 0xFFFFF000 :: u32) = unat x div 4096 * 4096"
proof -
  have f: "x AND 0xFFFFF000 = push_bit 12 (drop_bit 12 x)"
    unfolding frame_mask by (rule bit_word_eqI) (auto simp: bit_simps)
  have l: "unat x < 2 ^ 32" using unsigned_less [of x] by simp
  moreover have "unat x div 4096 * 4096 < 2 ^ 32" by (rule le_less_trans [OF _ l]) simp
  ultimately show ?thesis
    unfolding f unsigned_push_bit_eq unsigned_drop_bit_eq
    by (simp add: push_bit_eq_mult drop_bit_eq_div take_bit_nat_eq_self)
qed

lemma memory_end_ok:
  "memory_end k AND 0xFFF = 0" "LOW_MEM \<le> memory_end k" "memory_end k \<le> 0x1000000"
proof -
  let ?x = "push_bit 20 1 + push_bit 10 (ucast k) :: u32"
  show "memory_end k AND 0xFFF = 0" by (simp add: memory_end_def Let_def page_simps)
  show "memory_end k \<le> 0x1000000" by (auto simp: memory_end_def Let_def not_less)
  have k: "unat k < 65536" using unsigned_less [of k] by simp
  have p: "push_bit 10 (ucast k :: u32) = of_nat (1024 * unat k)" "push_bit 20 (1 :: u32) = of_nat 1048576"
    by (simp_all add: push_bit_eq_mult)
  have "unat ?x = 1048576 + 1024 * unat k"
    unfolding p of_nat_add [symmetric] using k by (simp only: unat_of_nat take_bit_nat_eq_self_iff) simp
  then have "1048576 \<le> unat (?x AND 0xFFFFF000)" unfolding unat_frame by simp
  then show "LOW_MEM \<le> memory_end k"
    by (simp add: memory_end_def Let_def LOW_MEM_def word_le_nat_alt)
qed

lemma buffer_memory_end_ok:
  assumes "LOW_MEM \<le> m"
  shows "buffer_memory_end m \<in> {0x100000, 0x200000, 0x400000}" "LOW_MEM \<le> buffer_memory_end m"
    "buffer_memory_end m \<le> m" "buffer_memory_end m AND 0xFFF = 0"
  using assms by (auto simp: buffer_memory_end_def LOW_MEM_def word_le_nat_alt word_less_nat_alt)

lemma wf_mm_cong: "mem_map t = mem_map s \<Longrightarrow> HIGH_MEMORY t = HIGH_MEMORY s \<Longrightarrow> wf_mm t = wf_mm s"
  by (simp add: wf_mm_def)

lemma page_refs_cong: "mem_map t = mem_map s \<Longrightarrow> page_refs t = page_refs s"
  by (simp add: page_refs_def fun_eq_iff)

lemma cache_ok_cong:
  assumes "buffers t = buffers s" "free_head t = free_head s" "hash_table t = hash_table s"
  shows "cache_ok t = cache_ok s"
proof -
  have "bf t = bf s" using assms by (simp add: bf_def fun_eq_iff)
  then have "nf t = nf s" "pf t = pf s" "nx t = nx s" "pv t = pv s" "bf_hash t = bf_hash s"
    by (simp_all add: nf_def pf_def nx_def pv_def bf_hash_def fun_eq_iff)
  with assms \<open>bf t = bf s\<close> show ?thesis by (simp add: cache_ok_def wf_cache_def)
qed

lemma buffer_init_some:
  assumes "uint (start_buffer s) + 36 \<le> 0x9FC00" and "e \<in> {0x100000, 0x200000, 0x400000}"
  shows "buffers (buffer_init e s) \<noteq> []" "cache_ok (buffer_init e s)"
proof -
  have "data_blocks (uint (start_buffer s)) (if e = 0x100000 then 640 * 1024 else e) \<noteq> []"
    using assms by (subst data_blocks.simps) (auto simp: Let_def)
  then show "buffers (buffer_init e s) \<noteq> []" by (simp add: buffer_init_def Let_def)
  then show "cache_ok (buffer_init e s)" unfolding cache_ok_def using buffer_init_wf by blast
qed

definition boot_vectors :: "vector list" where
  "boot_vectors = trap_vectors @
     [(0x24, 14, 0, Rs1_interrupt), (0x23, 14, 0, Rs2_interrupt), (0x21, 15, 0, Keyboard_interrupt),
      (0x20, 14, 0, Timer_interrupt), (0x80, 15, 3, System_call), (0x2E, 14, 0, Hd_interrupt),
      (0x26, 15, 0, Floppy_interrupt)]"

text \<open>What the whole of \<open>main\<close> does to the state.\<close>

lemma kernel_main_state:
  fixes s :: "'a trs_scheme"
  assumes d: "proper_date d" and c: "clock_shows d (inputs s + 5) s" and r: "RAMDISK b = None"
  shows "\<exists>t u. kernel_main b s = Ok () t \<and>
     mem_init (buffer_memory_end (memory_end (EXT_MEM_K b))) (memory_end (EXT_MEM_K b)) (s\<lparr>ROOT_DEV := ORIG_ROOT_DEV b\<rparr>) = Ok () u \<and>
     mem_map t = mem_map u \<and> HIGH_MEMORY t = HIGH_MEMORY u \<and>
     kernel_mktime d = Some (startup_time t) \<and>
     idt t = install (handler_address s) boot_vectors (idt s) \<and>
     live t = live (sched_init s) \<and> request_fn t = (request_fn s)(3 := True, 2 := True) \<and>
     requests t = requests (blk_dev_init s) \<and> current_request t = current_request s \<and>
     wait_for_request t = wait_for_request s \<and>
     (\<exists>v :: 'a trs_scheme. start_buffer v = start_buffer s \<and>
        buffers t = buffers (buffer_init (uint (buffer_memory_end (memory_end (EXT_MEM_K b)))) v) \<and>
        free_head t = free_head (buffer_init (uint (buffer_memory_end (memory_end (EXT_MEM_K b)))) v) \<and>
        hash_table t = hash_table (buffer_init (uint (buffer_memory_end (memory_end (EXT_MEM_K b)))) v)) \<and>
     (\<forall>e \<in> set (semarray t). sem_name e = []) \<and> (\<forall>e \<in> set (shmnum t). shm_key e = -1)"
proof -
  define m where "m = memory_end (EXT_MEM_K b)"
  define e where "e = uint (buffer_memory_end m)"
  let ?s0 = "s\<lparr>ROOT_DEV := ORIG_ROOT_DEV b\<rparr>"
  have bm: "buffer_memory_end m AND 0xFFF = 0" "LOW_MEM \<le> buffer_memory_end m" "buffer_memory_end m \<le> m"
    "m AND 0xFFF = 0" "m \<le> 0x1000000"
    using memory_end_ok [of "EXT_MEM_K b"] buffer_memory_end_ok [of m] by (simp_all add: m_def)
  obtain mp where mp: "mem_init (buffer_memory_end m) m ?s0 = Ok () (?s0\<lparr>HIGH_MEMORY := m, mem_map := mp\<rparr>)"
    using mem_init_spec [OF bm(1,4,2,3,5), of ?s0] by blast
  define u where "u = ?s0\<lparr>HIGH_MEMORY := m, mem_map := mp\<rparr>"
  obtain o1 where s1: "trap_init u = u\<lparr>idt := install (handler_address u) trap_vectors (idt u), inputs := inputs u + 2, outputs := o1\<rparr>"
    using trap_init_eq [of u] by blast
  define s2 where "s2 = blk_dev_init (trap_init u)"
  have e2: "s2 = u\<lparr>idt := install (handler_address u) trap_vectors (idt u), inputs := inputs u + 2, outputs := o1,
      requests := List.map (\<lambda>x. x\<lparr>rq_dev := -1, rq_next := None\<rparr>) (requests u)\<rparr>"
    by (simp add: s2_def s1 blk_dev_init_def)
  obtain o3 where s3: "tty_init (video b) s2 = s2\<lparr>con := con_init (video b) (con s2),
     idt := install (handler_address s2)
       [(0x24, 14, 0, Rs1_interrupt), (0x23, 14, 0, Rs2_interrupt), (0x21, 15, 0, Keyboard_interrupt)] (idt s2),
     inputs := inputs s2 + 3, outputs := o3\<rparr>"
    using tty_init_eq [of "video b" s2] by blast
  define s3 where "s3 = tty_init (video b) s2"
  have "inputs s3 = inputs s + 5" "port_in s3 = port_in s"
    by (simp_all add: s3 [folded s3_def] e2 u_def)
  then have "clock_shows d (inputs s3) s3" using c by (simp add: clock_shows_def)
  from time_init_shows [OF d this] obtain x where x: "kernel_mktime d = Some x"
    and s4: "time_init s3 = Ok () (s3\<lparr>outputs := outputs s3 @ clock_ports, inputs := inputs s3 + 7, startup_time := x\<rparr>)"
    by blast
  define s4 where "s4 = s3\<lparr>outputs := outputs s3 @ clock_ports, inputs := inputs s3 + 7, startup_time := x\<rparr>"
  obtain o5 g where s5: "sched_init_tables s4 = sched_init s4
     \<lparr>gdt := g, idt := install (handler_address s4) [(0x20, 14, 0, Timer_interrupt), (0x80, 15, 3, System_call)] (idt s4),
      inputs := inputs s4 + 1, outputs := o5\<rparr>"
    using sched_init_tables_eq [of s4] by blast
  define s5 where "s5 = sched_init_tables s4"
  define s6 where "s6 = buffer_init e s5"
  obtain o7 where s7: "hd_init_gates s6 = s6\<lparr>request_fn := (request_fn s6)(3 := True),
     idt := install (handler_address s6) [(0x2E, 14, 0, Hd_interrupt)] (idt s6), inputs := inputs s6 + 2, outputs := o7\<rparr>"
    using hd_init_gates_eq [of s6] by blast
  define s7 where "s7 = hd_init_gates s6"
  obtain o8 where s8: "floppy_init_gates s7 = s7\<lparr>request_fn := (request_fn s7)(2 := True),
     idt := install (handler_address s7) [(0x26, 15, 0, Floppy_interrupt)] (idt s7), inputs := inputs s7 + 1, outputs := o8\<rparr>"
    using floppy_init_gates_eq [of s7] by blast
  define s8 where "s8 = floppy_init_gates s7"
  define t where "t = snd (sys_inisem (snd (sys_inishm s8)))"
  note early = s4_def s3 [folded s3_def] e2 u_def
  note late = t_def sys_inisem_def sys_inishm_def s8 [folded s8_def] s7 [folded s7_def]
  have main: "kernel_main b s = Ok () t"
    by (simp add: kernel_main_def main_memory_def r m_def [symmetric] mp u_def [symmetric] s2_def [symmetric]
        s3_def [symmetric] s4 s4_def [symmetric] s5_def [symmetric] s6_def [symmetric] s7_def [symmetric]
        s8_def [symmetric] t_def [symmetric] e_def [symmetric] Let_def)
  have b6: "mem_map s6 = mem_map s5" "HIGH_MEMORY s6 = HIGH_MEMORY s5" "startup_time s6 = startup_time s5"
    "idt s6 = idt s5" "handler_address s6 = handler_address s5" "live s6 = live s5" "request_fn s6 = request_fn s5"
    "requests s6 = requests s5" "current_request s6 = current_request s5" "wait_for_request s6 = wait_for_request s5"
    by (simp_all add: s6_def buffer_init_def Let_def)
  have b5: "mem_map s5 = mp" "HIGH_MEMORY s5 = m" "startup_time s5 = x" "handler_address s5 = handler_address s"
    "live s5 = live (sched_init s)" "request_fn s5 = request_fn s" "requests s5 = requests (blk_dev_init s)"
    "current_request s5 = current_request s" "wait_for_request s5 = wait_for_request s" "start_buffer s5 = start_buffer s"
    by (simp_all add: s5 [folded s5_def] sched_init_def early blk_dev_init_def)
  have idt5: "idt s5 = install (handler_address s) (trap_vectors @
      [(0x24, 14, 0, Rs1_interrupt), (0x23, 14, 0, Rs2_interrupt), (0x21, 15, 0, Keyboard_interrupt),
       (0x20, 14, 0, Timer_interrupt), (0x80, 15, 3, System_call)]) (idt s)"
    by (simp add: s5 [folded s5_def] sched_init_def early blk_dev_init_def)
  have t: "mem_map t = mp" "HIGH_MEMORY t = m" "startup_time t = x" "live t = live (sched_init s)"
    "request_fn t = (request_fn s)(3 := True, 2 := True)" "requests t = requests (blk_dev_init s)"
    "current_request t = current_request s" "wait_for_request t = wait_for_request s"
    "buffers t = buffers (buffer_init e s5)" "free_head t = free_head (buffer_init e s5)"
    "hash_table t = hash_table (buffer_init e s5)"
    by (simp_all add: late b6 b5 s6_def [symmetric])
  have v: "idt t = install (handler_address s) boot_vectors (idt s)"
    by (simp add: late b6 b5 idt5 boot_vectors_def)
  have k: "\<forall>e \<in> set (semarray t). sem_name e = []" "\<forall>e \<in> set (shmnum t). shm_key e = -1"
    by (auto simp: late ini_shm_def)
  have q: "\<exists>v :: 'a trs_scheme. start_buffer v = start_buffer s \<and> buffers t = buffers (buffer_init e v) \<and>
      free_head t = free_head (buffer_init e v) \<and> hash_table t = hash_table (buffer_init e v)"
    using t(9-) b5(10) by (intro exI [of _ s5] conjI)
  have "mem_map t = mem_map u \<and> HIGH_MEMORY t = HIGH_MEMORY u"
    using t by (simp add: u_def)
  then show ?thesis
    unfolding m_def [symmetric] e_def [symmetric]
    using main mp [folded u_def] t(3-8) v k x q by - (rule exI [of _ t], rule exI [of _ u], simp)
qed

lemma buffer_init_unlocked: "\<forall>b \<in> set (buffers (buffer_init e s)). \<not> b_lock b \<and> b_wait b = None"
  by (auto simp: buffer_init_def Let_def)

subsection \<open>A machine\<close>

text \<open>A machine with 16MB and a clock at 12:34:56 on 17 September 1991.\<close>

definition demo_date :: tm where
  "demo_date = \<lparr>tm_sec = 56, tm_min = 34, tm_hour = 12, tm_mday = 17, tm_mon = 8, tm_year = 91\<rparr>"

definition demo_info :: boot_info where
  "demo_info = \<lparr>EXT_MEM_K = 15360, ORIG_ROOT_DEV = 0x301,
     video = \<lparr>ORIG_X = 0, ORIG_Y = 0, ORIG_VIDEO_PAGE = 0, ORIG_VIDEO_MODE_COLS = 0x5003, ORIG_VIDEO_EGA_BX = 3\<rparr>,
     RAMDISK = None\<rparr>"

definition demo_trs :: trs where
  "demo_trs = fds.extend
     (demo_fds\<lparr>current_request := replicate NR_BLK_DEV None, wait_for_request := None, start_buffer := 0x20000,
        port_in := (\<lambda>n p. [0x56, 0x34, 0x12, 0x17, 0x09, 0x91, 0x56] ! (n - 5))\<rparr>)
     (trs.fields [] (replicate 256 (replicate 8 0)) (\<lambda>_. 0x7000) (\<lambda>_. 0x8000) (\<lambda>_. 0x9000) [])"

lemma demo_trs_simps:
  "requests demo_trs = replicate NR_REQUEST demo_rq" "current_request demo_trs = replicate NR_BLK_DEV None"
  "wait_for_request demo_trs = None" "start_buffer demo_trs = 0x20000" "inputs demo_trs = 0"
  "port_in demo_trs = (\<lambda>n p. [0x56, 0x34, 0x12, 0x17, 0x09, 0x91, 0x56] ! (n - 5))"
  "handler_address demo_trs = (\<lambda>_. 0x7000)"
  by (simp_all add: demo_trs_def fds.extend_def trs.fields_def demo_fds_simps)

lemma demo_clock: "clock_shows demo_date (inputs demo_trs + 5) demo_trs"
  by (simp add: clock_shows_def demo_trs_simps demo_date_def to_bcd_def upt_rec)

lemma demo_date_ok: "proper_date demo_date"
  by (simp add: proper_date_def demo_date_def)

text \<open>C2: what start-up hands to the first process. With a clock that shows a date since 1970, the static data
  zero, no RAM disk compiled in (as in the Makefile) and a kernel that ends below 640K, \<open>main\<close> gets through to the \<open>fork\<close>, and then: the allocator's invariant holds, and exactly
  the pages from the end of the buffers to the end of the memory that the BIOS reported (at most 16MB) are free; the
  buffer cache satisfies its invariant; no request is queued and both disks have their drivers; the table of tasks
  holds task 0 only, no semaphore and no segment exists; and \<open>startup_time\<close> is the number of seconds since 1970.\<close>

theorem boot_ready:
  assumes date: "proper_date d" "70 \<le> tm_year d" and clock: "clock_shows d (inputs s + 5) s"
    and ram: "RAMDISK b = None" and start: "uint (start_buffer s) + 36 \<le> 0x9FC00"
    and bss: "length (requests s) = NR_REQUEST" "current_request s = replicate NR_BLK_DEV None" "wait_for_request s = None"
  shows "\<exists>t. kernel_main b s = Ok () t \<and> wf_mm t \<and>
     (\<forall>p. is_page p \<longrightarrow> page_refs t p =
        (if buffer_memory_end (memory_end (EXT_MEM_K b)) \<le> p \<and> p < memory_end (EXT_MEM_K b) then 0 else unat USED)) \<and>
     cache_ok t \<and> quiet t \<and> (\<forall>dev. MAJOR dev \<in> {2, 3} \<longrightarrow> has_driver t dev) \<and>
     (\<forall>i. slot i \<longrightarrow> \<not> live t i) \<and> startup_time t = epoch_seconds d \<and>
     (\<forall>e \<in> set (semarray t). sem_name e = []) \<and> (\<forall>e \<in> set (shmnum t). shm_key e = -1)"
proof -
  define m where "m = memory_end (EXT_MEM_K b)"
  obtain t u where k: "kernel_main b s = Ok () t" "mem_init (buffer_memory_end m) m (s\<lparr>ROOT_DEV := ORIG_ROOT_DEV b\<rparr>) = Ok () u"
    "mem_map t = mem_map u" "HIGH_MEMORY t = HIGH_MEMORY u" "kernel_mktime d = Some (startup_time t)"
    "live t = live (sched_init s)" "request_fn t = (request_fn s)(3 := True, 2 := True)"
    "requests t = requests (blk_dev_init s)" "current_request t = current_request s" "wait_for_request t = wait_for_request s"
    "\<forall>e \<in> set (semarray t). sem_name e = []" "\<forall>e \<in> set (shmnum t). shm_key e = -1"
    and v: "\<exists>v :: 'a trs_scheme. start_buffer v = start_buffer s \<and> buffers t = buffers (buffer_init (uint (buffer_memory_end m)) v) \<and>
      free_head t = free_head (buffer_init (uint (buffer_memory_end m)) v) \<and>
      hash_table t = hash_table (buffer_init (uint (buffer_memory_end m)) v)"
    using kernel_main_state [OF date(1) clock ram] unfolding m_def by blast
  have bm: "buffer_memory_end m AND 0xFFF = 0" "LOW_MEM \<le> buffer_memory_end m" "buffer_memory_end m \<le> m"
    "m AND 0xFFF = 0" "m \<le> 0x1000000" "uint (buffer_memory_end m) \<in> {0x100000, 0x200000, 0x400000}"
    using memory_end_ok [of "EXT_MEM_K b"] buffer_memory_end_ok [of m] by (auto simp: m_def)
  have mm: "wf_mm t" "\<forall>p. is_page p \<longrightarrow> page_refs t p = (if buffer_memory_end m \<le> p \<and> p < m then 0 else unat USED)"
    using mem_init_spec [OF bm(1,4,2,3,5), of "s\<lparr>ROOT_DEV := ORIG_ROOT_DEV b\<rparr>"] k(2)
      wf_mm_cong [OF k(3,4)] page_refs_cong [OF k(3)] by auto
  obtain v :: "'a trs_scheme" where v: "start_buffer v = start_buffer s" "buffers t = buffers (buffer_init (uint (buffer_memory_end m)) v)"
      "free_head t = free_head (buffer_init (uint (buffer_memory_end m)) v)"
      "hash_table t = hash_table (buffer_init (uint (buffer_memory_end m)) v)"
    using v by blast
  have "uint (start_buffer v) + 36 \<le> 0x9FC00" using start v(1) by simp
  from buffer_init_some(2) [OF this bm(6)] have cache: "cache_ok t" using cache_ok_cong [OF v(2-4)] by simp
  have quiet: "quiet t"
    using bss k(8-10) buffer_init_unlocked [of _ v] by (simp add: quiet_def v(2) blk_dev_init_def rq_def)
  have "\<forall>dev. MAJOR dev \<in> {2, 3} \<longrightarrow> has_driver t dev" using k(7) by (auto simp: has_driver_def)
  moreover have "\<forall>i. slot i \<longrightarrow> \<not> live t i" using k(6) by (simp add: sched_init_def slot_def)
  moreover have "startup_time t = epoch_seconds d"
    using kernel_mktime_epoch [of d] epoch_seconds_fits [of d] date k(5) by (simp add: proper_date_def)
  ultimately show ?thesis
    unfolding m_def [symmetric] using k(1,11,12) mm cache quiet by blast
qed

theorem boot_ready_witness:
  "\<exists>t. kernel_main demo_info demo_trs = Ok () t \<and> wf_mm t \<and> page_refs t 0x400000 = 0 \<and> page_refs t 0x3FF000 = 100 \<and>
     cache_ok t \<and> quiet t \<and> startup_time t = 685110896"
proof -
  have b: "RAMDISK demo_info = None" "70 \<le> tm_year demo_date" "uint (start_buffer demo_trs) + 36 \<le> 0x9FC00"
    "length (requests demo_trs) = NR_REQUEST" "memory_end (EXT_MEM_K demo_info) = 0x1000000"
    by (simp_all add: demo_info_def demo_date_def demo_trs_simps memory_end_def)
  have p: "is_page 0x400000" "is_page 0x3FF000" "buffer_memory_end 0x1000000 = 0x400000"
    by (simp_all add: is_page_def LOW_MEM_def MAP_NR_def PAGING_PAGES_def buffer_memory_end_def)
  have "epoch_seconds demo_date = 685110896"
    by (simp add: epoch_seconds_def demo_date_def days_before_year_closed days_before_month_def month_days_def leap_def)
  with boot_ready [OF demo_date_ok b(2) demo_clock b(1,3,4) demo_trs_simps(2,3)] p b(5) show ?thesis
    by (auto simp: USED_def)
qed

text \<open>
  The clock of a PC gives two digits of the year. From 2000 on \<open>startup_time\<close> is before 1970, since
  \<open>kernel_mktime\<close> counts from 1900 as the \<open>tm\<close> structure does.
\<close>

lemma year_2000_negative:
  "kernel_mktime \<lparr>tm_sec = 0, tm_min = 0, tm_hour = 0, tm_mday = 1, tm_mon = 0, tm_year = 0\<rparr> = Some 2085978496"
  by (simp add: long_def kernel_mktime_def month_def Let_def YEAR_def DAY_def HOUR_def MINUTE_def signed_divide_int_def signed_modulo_int_def)

lemma boot_vectors_cover: "n < 48 \<or> n = 0x80 \<Longrightarrow> n \<in> fst ` set boot_vectors"
  by (simp add: boot_vectors_def trap_vectors_def, presburger)

text \<open>
  What the list says of each vector; \<open>list_all\<close> so that it can be computed.
\<close>

definition vector_ok :: "vector \<Rightarrow> bool" where
  "vector_ok v = (case v of (n, type, dpl, h) \<Rightarrow>
     (type = 14 \<or> type = 15) \<and> dpl = (if n \<in> {3, 4, 5, 0x80} then 3 else 0) \<and> h \<noteq> Ignore_int)"

lemma boot_vectors_ok: "list_all vector_ok boot_vectors"
  by (simp add: boot_vectors_def trap_vectors_def vector_ok_def)

definition served :: "(nat \<times> handler) list" where
  "served = [(14, Page_fault), (0x20, Timer_interrupt), (0x21, Keyboard_interrupt), (0x23, Rs2_interrupt),
     (0x24, Rs1_interrupt), (0x26, Floppy_interrupt), (0x2E, Hd_interrupt), (0x80, System_call)]"

lemma boot_vectors_served_last:
  "(n, h) \<in> set served \<Longrightarrow> map_option (\<lambda>(type, dpl, h). h) (map_of (rev boot_vectors) n) = Some h"
  by (auto simp: served_def boot_vectors_def trap_vectors_def)

text \<open>C3: every vector of the interrupt descriptor table is served after start-up: its gate is present, leads into
  the kernel's code segment and to the address of a handler, which for the exceptions and the first 48 vectors is
  never the stub \<open>ignore_int\<close>. A process may raise four of them itself, 3, 4, 5 and \<open>0x80\<close>, and no other. The timer,
  keyboard, serial and disk interrupts and the system call lead to their handlers, although \<open>trap_init\<close> writes
  the same entries before.\<close>

theorem boot_vectors_served:
  assumes date: "proper_date d" and clock: "clock_shows d (inputs s + 5) s" and ram: "RAMDISK b = None" and n: "n < 256"
  shows "\<exists>t h. kernel_main b (setup_idt s) = Ok () t \<and>
     (let g = idt t ! n in
       gate_present g \<and> gate_selector g = 8 \<and> gate_offset g = handler_address s h \<and>
       gate_dpl g = (if n \<in> {3, 4, 5, 0x80} then 3 else 0) \<and> (n < 48 \<longrightarrow> h \<noteq> Ignore_int) \<and>
       (\<forall>k. (n, k) \<in> set served \<longrightarrow> h = k))"
proof -
  have "clock_shows d (inputs (setup_idt s) + 5) (setup_idt s)" using clock by (simp add: clock_shows_def setup_idt_def)
  from kernel_main_state [OF date this ram] obtain t where t: "kernel_main b (setup_idt s) = Ok () t"
    "idt t = install (handler_address s) boot_vectors (replicate 256 (make_gate 14 0 (handler_address s Ignore_int)))"
    by (auto simp: setup_idt_def)
  let ?g = "idt t ! n"
  show ?thesis
  proof (cases "map_of (rev boot_vectors) n")
    case None
    then have "\<not> n < 48" "n \<noteq> 0x80" using boot_vectors_cover [of n] by (auto simp: map_of_eq_None_iff)
    moreover have "?g = make_gate 14 0 (handler_address s Ignore_int)" using n by (simp add: t(2) install_nth None)
    moreover have "(n, k) \<notin> set served" for k using boot_vectors_served_last [of n k] None by auto
    ultimately show ?thesis
      using t(1) by (intro exI [of _ t] exI [of _ Ignore_int]) (simp add: make_gate_fields)
  next
    case (Some v)
    obtain type dpl h where v: "v = (type, dpl, h)" by (cases v) auto
    have "(n, type, dpl, h) \<in> set boot_vectors" using map_of_SomeD [OF Some] v by simp
    then have ok: "type = 14 \<or> type = 15" "dpl = (if n \<in> {3, 4, 5, 0x80} then 3 else 0)" "h \<noteq> Ignore_int"
      using boot_vectors_ok by (auto simp: list_all_iff vector_ok_def)
    have d: "dpl = 0 \<or> dpl = 3" using ok(2) by auto
    have g: "?g = make_gate type dpl (handler_address s h)" using n by (simp add: t(2) install_nth Some v)
    have "h = k" if "(n, k) \<in> set served" for k using boot_vectors_served_last [OF that] Some v by simp
    moreover have "gate_dpl ?g = (if n \<in> {3, 4, 5, 0x80} then 3 else 0)"
      unfolding ok(2) [symmetric] by (simp add: g make_gate_fields [OF d ok(1)])
    moreover have "gate_present ?g" "gate_selector ?g = 8" "gate_offset ?g = handler_address s h"
      by (simp_all add: g make_gate_fields [OF d ok(1)])
    ultimately show ?thesis
      using t(1) ok(3) by (intro exI [of _ t] exI [of _ h]) (simp only: Let_def simp_thms, blast)
  qed
qed

theorem boot_vectors_served_witness:
  "\<exists>t. kernel_main demo_info (setup_idt demo_trs) = Ok () t \<and> gate_dpl (idt t ! 0x80) = 3 \<and> gate_offset (idt t ! 14) = 0x7000 \<and>
     gate_dpl (idt t ! 14) = 0"
proof -
  have r: "RAMDISK demo_info = None" by (simp add: demo_info_def)
  note b = boot_vectors_served [OF demo_date_ok demo_clock r]
  obtain t where "kernel_main demo_info (setup_idt demo_trs) = Ok () t" "gate_dpl (idt t ! 0x80) = 3"
    using b [of "0x80"] by (auto simp: Let_def)
  moreover obtain u where "kernel_main demo_info (setup_idt demo_trs) = Ok () u" "gate_offset (idt u ! 14) = 0x7000"
    "gate_dpl (idt u ! 14) = 0"
    using b [of 14] by (auto simp: Let_def demo_trs_simps)
  ultimately show ?thesis by auto
qed

end
