(* ===== verification/Syscalls.thy ===== *)
theory Syscalls
  imports Boot Exec Files Sys Signals
begin

text \<open>
  System calls from end to end: the stubs of \<open>include/unistd.h\<close> and \<open>lib\<close>, the entry \<open>system_call\<close> of
  \<open>kernel/system_call.s\<close> with its table in \<open>include/linux/sys.h\<close>, and the way back to the process, where
  signals are delivered. Each entry of the table passes the registers \<open>ebx\<close>, \<open>ecx\<close>, \<open>edx\<close> to the routine
  with the types of its parameters. \<open>sys_ftok\<close> of \<open>mm/shm.c\<close> is here since it needs the file system.
\<close>

subsection \<open>The calls\<close>

text \<open>
  What the calls find outside the state: the address of the variable \<open>nr_system_calls\<close>, that of
  \<open>first_return_from_kernel\<close>, those of the semaphores in \<open>semarray\<close>, the uninitialised bytes of the kernel
  stack, the image that demand loading would bring in, and the fuel for the search of \<open>shmat\<close>.
\<close>

record sys_env =
  nr_system_calls :: u32
  first_return :: u32
  sem_address :: "nat \<Rightarrow> u32"
  stack_bytes :: "nat \<Rightarrow> u8"
  demand_image :: "u32 \<Rightarrow> u8"
  shm_fuel :: nat

type_synonym 'a sys_fn = "sys_env \<Rightarrow> regs \<Rightarrow> 'a trs_scheme \<Rightarrow> (u32 \<times> regs, 'a trs_scheme) res"

definition ret :: "regs \<Rightarrow> (int, 'a trs_scheme) res \<Rightarrow> (u32 \<times> regs, 'a trs_scheme) res" where
  "ret r m = bind m (\<lambda>v s. Ok (of_int v, r) s)"

definition ret_word :: "regs \<Rightarrow> (u32, 'a trs_scheme) res \<Rightarrow> (u32 \<times> regs, 'a trs_scheme) res" where
  "ret_word r m = bind m (\<lambda>v s. Ok (v, r) s)"

definition ret_unit :: "regs \<Rightarrow> (unit, 'a trs_scheme) res \<Rightarrow> (u32 \<times> regs, 'a trs_scheme) res" where
  "ret_unit r m = bind m (\<lambda>_ s. Ok (0, r) s)"

definition ret_pair :: "regs \<Rightarrow> int \<times> 'a trs_scheme \<Rightarrow> (u32 \<times> regs, 'a trs_scheme) res" where
  "ret_pair r p = (case p of (v, s) \<Rightarrow> Ok (of_int v, r) s)"

definition ret_pair_word :: "regs \<Rightarrow> u32 \<times> 'a trs_scheme \<Rightarrow> (u32 \<times> regs, 'a trs_scheme) res" where
  "ret_pair_word r p = (case p of (v, s) \<Rightarrow> Ok (v, r) s)"

text \<open>\<open>schedule()\<close> that comes back at once when it chooses the same task again.\<close>

definition ret_pause :: "regs \<Rightarrow> 'a trs_scheme \<Rightarrow> (u32 \<times> regs, 'a trs_scheme) res" where
  "ret_pause r s = bind (sys_pause s) (\<lambda>_ t. if current t = current s then Ok (0, r) t else Sleeps t)"

text \<open>A semaphore is handed to the process as the address of its \<open>sem\<close> in the kernel, and read through it.\<close>

definition ret_sem :: "sys_env \<Rightarrow> regs \<Rightarrow> nat option \<times> 'a trs_scheme \<Rightarrow> (u32 \<times> regs, 'a trs_scheme) res" where
  "ret_sem e r p = (case p of (v, s) \<Rightarrow> Ok (case v of None \<Rightarrow> 0 | Some i \<Rightarrow> sem_address e i, r) s)"

definition sem_ref :: "sys_env \<Rightarrow> u32 \<Rightarrow> 'a trs_scheme \<Rightarrow> u32 option" where
  "sem_ref e p s =
     (if p = 0 then None
      else case find_idx (\<lambda>i. sem_address e i = p) [0..<SEM_NUM] of
             Some i \<Rightarrow> Some (sem_index (semarray s ! i))
           | None \<Rightarrow> Some (word_rcat (List.map (\<lambda>k. phys_byte (p + of_nat k) s) [3, 2, 1, 0])))"

definition sys_ftok :: "u32 \<Rightarrow> u32 \<Rightarrow> 'a fs_scheme \<Rightarrow> (int, 'a fs_scheme) res" where
  "sys_ftok pathname proj_id s =
     (if pathname = 0 \<or> proj_id = 0 then Ok (-1) s
      else
        bind (open_namei pathname 0 0x1F8 s) (\<lambda>r s.
        case r of (err, i) \<Rightarrow>
        if err < 0 then Ok (-1) s
        else
          case i of
            None \<Rightarrow> Fault ''null inode''
          | Some i \<Rightarrow>
              Ok (uint ((push_bit 8 (ucast (i_num (ino s i)) :: u32) AND 0x00FFFF00) OR (proj_id AND 0xFF))) s))"

definition sys_fork :: "'a sys_fn" where
  "sys_fork e r s =
     bind (find_empty_process s) (\<lambda>nr s.
     if nr < 0 then Ok (of_int nr, r) s
     else
       bind (copy_process (first_return e) (nat nr) r s) (\<lambda>v s.
       Ok (of_int v, r) (if v < 0 then s else set_task_descs (nat nr) s)))"

definition sys_execve :: "'a sys_fn" where
  "sys_execve e r s =
     bind (do_execve (r_cs r) (r_ebx r) (r_ecx r) (r_edx r) (demand_image e) s) (\<lambda>p s.
     case p of (v, place) \<Rightarrow>
       Ok (of_int v, case place of None \<Rightarrow> r | Some (eip, esp) \<Rightarrow> r\<lparr>r_eip := eip, r_esp := esp\<rparr>) s)"

definition sys_call_table :: "(string \<times> 'a sys_fn) list" where
  "sys_call_table =
     [(''setup'', \<lambda>e r s. ret r (sys_setup (r_ebx r) s)),
      (''exit'', \<lambda>e r s. ret_unit r (sys_exit (sint (r_ebx r)) s)),
      (''fork'', \<lambda>e r s. sys_fork e r s),
      (''read'', \<lambda>e r s. ret r (sys_read (stack_bytes e) (r_ebx r) (r_ecx r) (sint (r_edx r)) s)),
      (''write'', \<lambda>e r s. ret r (sys_write (r_ebx r) (r_ecx r) (sint (r_edx r)) s)),
      (''open'', \<lambda>e r s. ret r (sys_open (r_ebx r) (r_ecx r) (r_edx r) s)),
      (''close'', \<lambda>e r s. ret r (sys_close (r_ebx r) s)),
      (''waitpid'', \<lambda>e r s. ret r (sys_waitpid (sint (r_ebx r)) (r_ecx r) (sint (r_edx r)) s)),
      (''creat'', \<lambda>e r s. ret r (sys_creat (r_ebx r) (r_ecx r) s)),
      (''link'', \<lambda>e r s. ret r (sys_link (r_ebx r) (r_ecx r) s)),
      (''unlink'', \<lambda>e r s. ret r (sys_unlink (r_ebx r) s)),
      (''execve'', \<lambda>e r s. sys_execve e r s),
      (''chdir'', \<lambda>e r s. ret r (sys_chdir (r_ebx r) s)),
      (''time'', \<lambda>e r s. ret r (sys_time (r_ebx r) s)),
      (''mknod'', \<lambda>e r s. ret r (sys_mknod (r_ebx r) (r_ecx r) (r_edx r) s)),
      (''chmod'', \<lambda>e r s. ret r (sys_chmod (r_ebx r) (r_ecx r) s)),
      (''chown'', \<lambda>e r s. ret r (sys_chown (r_ebx r) (r_ecx r) (r_edx r) s)),
      (''break'', \<lambda>e r s. Ok (of_int (- ENOSYS), r) s),
      (''stat'', \<lambda>e r s. ret r (sys_stat (stack_bytes e) (r_ebx r) (r_ecx r) s)),
      (''lseek'', \<lambda>e r s. ret_pair r (sys_lseek (r_ebx r) (r_ecx r) (sint (r_edx r)) s)),
      (''getpid'', \<lambda>e r s. Ok (of_int (sys_getpid s), r) s),
      (''mount'', \<lambda>e r s. ret r (sys_mount (r_ebx r) (r_ecx r) s)),
      (''umount'', \<lambda>e r s. ret r (sys_umount (r_ebx r) s)),
      (''setuid'', \<lambda>e r s. ret_pair r (sys_setuid (sint (r_ebx r)) s)),
      (''getuid'', \<lambda>e r s. Ok (of_int (sys_getuid s), r) s),
      (''stime'', \<lambda>e r s. ret_pair r (sys_stime (r_ebx r) s)),
      (''ptrace'', \<lambda>e r s. Ok (of_int (- ENOSYS), r) s),
      (''alarm'', \<lambda>e r s. ret_pair r (sys_alarm (sint (r_ebx r)) s)),
      (''fstat'', \<lambda>e r s. ret r (sys_fstat (stack_bytes e) (r_ebx r) (r_ecx r) s)),
      (''pause'', \<lambda>e r s. ret_pause r s),
      (''utime'', \<lambda>e r s. ret r (sys_utime (r_ebx r) (r_ecx r) s)),
      (''stty'', \<lambda>e r s. Ok (of_int (- ENOSYS), r) s),
      (''gtty'', \<lambda>e r s. Ok (of_int (- ENOSYS), r) s),
      (''access'', \<lambda>e r s. ret r (sys_access (r_ebx r) (ucast (r_ecx r)) s)),
      (''nice'', \<lambda>e r s. ret_pair r (sys_nice (sint (r_ebx r)) s)),
      (''ftime'', \<lambda>e r s. Ok (of_int (- ENOSYS), r) s),
      (''sync'', \<lambda>e r s. ret r (sys_sync s)),
      (''kill'', \<lambda>e r s. ret_pair r (sys_kill (sint (r_ebx r)) (sint (r_ecx r)) s)),
      (''rename'', \<lambda>e r s. Ok (of_int (- ENOSYS), r) s),
      (''mkdir'', \<lambda>e r s. ret r (sys_mkdir (r_ebx r) (r_ecx r) s)),
      (''rmdir'', \<lambda>e r s. ret r (sys_rmdir (r_ebx r) s)),
      (''dup'', \<lambda>e r s. ret_pair r (sys_dup (r_ebx r) s)),
      (''pipe'', \<lambda>e r s. ret r (sys_pipe (r_ebx r) s)),
      (''times'', \<lambda>e r s. ret r (sys_times (r_ebx r) s)),
      (''prof'', \<lambda>e r s. Ok (of_int (- ENOSYS), r) s),
      (''brk'', \<lambda>e r s. ret_pair_word r (sys_brk (r_ebx r) s)),
      (''setgid'', \<lambda>e r s. ret_pair r (sys_setgid (sint (r_ebx r)) s)),
      (''getgid'', \<lambda>e r s. Ok (of_int (sys_getgid s), r) s),
      (''signal'', \<lambda>e r s. ret_pair_word r (sys_signal (sint (r_ebx r)) (r_ecx r) (r_edx r) s)),
      (''geteuid'', \<lambda>e r s. Ok (of_int (sys_geteuid s), r) s),
      (''getegid'', \<lambda>e r s. Ok (of_int (sys_getegid s), r) s),
      (''acct'', \<lambda>e r s. Ok (of_int (- ENOSYS), r) s),
      (''phys'', \<lambda>e r s. Ok (of_int (- ENOSYS), r) s),
      (''lock'', \<lambda>e r s. Ok (of_int (- ENOSYS), r) s),
      (''ioctl'', \<lambda>e r s. ret r (sys_ioctl (stack_bytes e 17) (r_ebx r) (r_ecx r) (r_edx r) s)),
      (''fcntl'', \<lambda>e r s. ret_pair r (sys_fcntl (r_ebx r) (r_ecx r) (r_edx r) s)),
      (''mpx'', \<lambda>e r s. Ok (of_int (- ENOSYS), r) s),
      (''setpgid'', \<lambda>e r s. ret_pair r (sys_setpgid (sint (r_ebx r)) (sint (r_ecx r)) s)),
      (''ulimit'', \<lambda>e r s. Ok (of_int (- ENOSYS), r) s),
      (''uname'', \<lambda>e r s. ret r (sys_uname (r_ebx r) s)),
      (''umask'', \<lambda>e r s. ret_pair_word r (map_prod ucast id (sys_umask (ucast (r_ebx r)) s))),
      (''chroot'', \<lambda>e r s. ret r (sys_chroot (r_ebx r) s)),
      (''ustat'', \<lambda>e r s. Ok (of_int sys_ustat, r) s),
      (''dup2'', \<lambda>e r s. ret r (sys_dup2 (r_ebx r) (r_ecx r) s)),
      (''getppid'', \<lambda>e r s. Ok (of_int (sys_getppid s), r) s),
      (''getpgrp'', \<lambda>e r s. Ok (of_int (sys_getpgrp s), r) s),
      (''setsid'', \<lambda>e r s. ret_pair r (sys_setsid s)),
      (''sigaction'', \<lambda>e r s. ret r (sys_sigaction (sint (r_ebx r)) (r_ecx r) (r_edx r) s)),
      (''sgetmask'', \<lambda>e r s. Ok (sys_sgetmask s, r) s),
      (''ssetmask'', \<lambda>e r s. ret_pair_word r (sys_ssetmask (r_ebx r) s)),
      (''setreuid'', \<lambda>e r s. ret_pair r (sys_setreuid (sint (r_ebx r)) (sint (r_ecx r)) s)),
      (''setregid'', \<lambda>e r s. ret_pair r (sys_setregid (sint (r_ebx r)) (sint (r_ecx r)) s)),
      (''sem_open'', \<lambda>e r s. ret_sem e r (sys_sem_open (r_ebx r) (r_ecx r) (r_edx r) s)),
      (''sem_wait'', \<lambda>e r s. ret r (sys_sem_wait (sem_ref e (r_ebx r) s) s)),
      (''sem_post'', \<lambda>e r s. ret r (sys_sem_post (sem_ref e (r_ebx r) s) s)),
      (''sem_unlink'', \<lambda>e r s. ret_pair r (sys_sem_unlink (r_ebx r) s)),
      (''ftok'', \<lambda>e r s. ret r (sys_ftok (r_ebx r) (r_ecx r) s)),
      (''shmget'', \<lambda>e r s. ret r (sys_shmget (r_ebx r) (r_ecx r) (r_edx r) s)),
      (''shmat'', \<lambda>e r s. ret_word r (sys_shmat (shm_fuel e) (sint (r_ebx r)) (r_ecx r) (r_edx r) s)),
      (''shmdt'', \<lambda>e r s. ret r (sys_shmdt (r_ebx r) s))]"

subsection \<open>In and out of the kernel\<close>

text \<open>The lowest bit that is set, as \<open>bsfl\<close> finds it.\<close>

definition lowest_bit :: "u32 \<Rightarrow> nat option" where
  "lowest_bit w = find_idx (\<lambda>k. bit w k) [0..<32]"

definition ret_from_sys_call :: "u32 \<Rightarrow> regs \<Rightarrow> 'a trs_scheme \<Rightarrow> (u32 \<times> regs, 'a trs_scheme) res" where
  "ret_from_sys_call v r s =
     (if current s = 0 \<or> r_cs r AND 0xFFFF \<noteq> 0x0F \<or> r_ss r AND 0xFFFF \<noteq> 0x17 then Ok (v, r) s
      else
        case lowest_bit (signal (cur s) AND NOT (blocked (cur s))) of
          None \<Rightarrow> Ok (v, r) s
        | Some k \<Rightarrow>
            let s = upd_cur (\<lambda>p. p\<lparr>signal := unset_bit k (signal p)\<rparr>) s in
            bind (do_signal (int k + 1) v (r_ecx r) (r_edx r) (r_eip r) (r_eflags r) (r_esp r) s) (\<lambda>p s.
            case p of (eip, esp) \<Rightarrow> Ok (v, r\<lparr>r_eip := eip, r_esp := esp\<rparr>) s))"

text \<open>A task that is not running any more, or has used up its time, calls \<open>schedule()\<close> first.\<close>

definition after_call :: "u32 \<times> regs \<Rightarrow> 'a trs_scheme \<Rightarrow> (u32 \<times> regs, 'a trs_scheme) res" where
  "after_call p s =
     (case p of (v, r) \<Rightarrow>
      if state (cur s) \<noteq> 0 \<or> counter (cur s) = 0 then
        bind (schedule s) (\<lambda>_ t. if current t = current s then ret_from_sys_call v r t else Sleeps t)
      else ret_from_sys_call v r s)"

text \<open>\<open>do_exit\<close>, where a routine has ended the process with the outcome \<open>Exits\<close>. It does not return.\<close>

definition exits :: "('b, 'a ttys_scheme) res \<Rightarrow> ('b, 'a ttys_scheme) res" where
  "exits m = (case m of Exits code s \<Rightarrow> bind (do_exit code s) (\<lambda>_ s. Fault ''do_exit has returned'') | _ \<Rightarrow> m)"

text \<open>
  The test for the number compares it with the operand \<open>$nr_system_calls-1\<close>, which is the address of the
  variable and not what it holds.
\<close>

definition system_call :: "u32 \<Rightarrow> 'a sys_fn" where
  "system_call eax e r s =
     (if nr_system_calls e - 1 < eax then Ok (-1, r) s
      else if length (sys_call_table :: (string \<times> 'a sys_fn) list) \<le> unat eax then Fault ''behind sys_call_table''
      else exits (bind (snd (sys_call_table ! unat eax) e r s) after_call))"

subsection \<open>The stubs\<close>

text \<open>The numbers \<open>__NR_name\<close>.\<close>

definition syscall_numbers :: "(string \<times> nat) list" where
  "syscall_numbers =
     [(''setup'', 0), (''exit'', 1), (''fork'', 2), (''read'', 3), (''write'', 4), (''open'', 5), (''close'', 6),
      (''waitpid'', 7), (''creat'', 8), (''link'', 9), (''unlink'', 10), (''execve'', 11), (''chdir'', 12),
      (''time'', 13), (''mknod'', 14), (''chmod'', 15), (''chown'', 16), (''break'', 17), (''stat'', 18),
      (''lseek'', 19), (''getpid'', 20), (''mount'', 21), (''umount'', 22), (''setuid'', 23), (''getuid'', 24),
      (''stime'', 25), (''ptrace'', 26), (''alarm'', 27), (''fstat'', 28), (''pause'', 29), (''utime'', 30),
      (''stty'', 31), (''gtty'', 32), (''access'', 33), (''nice'', 34), (''ftime'', 35), (''sync'', 36),
      (''kill'', 37), (''rename'', 38), (''mkdir'', 39), (''rmdir'', 40), (''dup'', 41), (''pipe'', 42),
      (''times'', 43), (''prof'', 44), (''brk'', 45), (''setgid'', 46), (''getgid'', 47), (''signal'', 48),
      (''geteuid'', 49), (''getegid'', 50), (''acct'', 51), (''phys'', 52), (''lock'', 53), (''ioctl'', 54),
      (''fcntl'', 55), (''mpx'', 56), (''setpgid'', 57), (''ulimit'', 58), (''uname'', 59), (''umask'', 60),
      (''chroot'', 61), (''ustat'', 62), (''dup2'', 63), (''getppid'', 64), (''getpgrp'', 65), (''setsid'', 66),
      (''sigaction'', 67), (''sgetmask'', 68), (''ssetmask'', 69), (''setreuid'', 70), (''setregid'', 71),
      (''sem_open'', 72), (''sem_wait'', 73), (''sem_post'', 74), (''sem_unlink'', 75), (''ftok'', 76),
      (''shmget'', 77), (''shmat'', 78), (''shmdt'', 79)]"

fun with_args :: "u32 list \<Rightarrow> regs \<Rightarrow> regs" where
  "with_args [] r = r"
| "with_args [a] r = r\<lparr>r_ebx := a\<rparr>"
| "with_args [a, b] r = r\<lparr>r_ebx := a, r_ecx := b\<rparr>"
| "with_args (a # b # c # _) r = r\<lparr>r_ebx := a, r_ecx := b, r_edx := c\<rparr>"

text \<open>\<open>if (__res >= 0) return __res; errno = -__res; return -1;\<close>: the result and \<open>errno\<close>.\<close>

definition stub_result :: "int \<Rightarrow> u32 \<Rightarrow> int \<times> int" where
  "stub_result errno res = (if 0 \<le> sint res then (sint res, errno) else (-1, - sint res))"

text \<open>\<open>_syscall0\<close> to \<open>_syscall3\<close>, by the number of arguments.\<close>

definition syscall :: "string \<Rightarrow> u32 list \<Rightarrow> int \<Rightarrow> sys_env \<Rightarrow> regs \<Rightarrow> 'a trs_scheme \<Rightarrow> ((int \<times> int) \<times> regs, 'a trs_scheme) res" where
  "syscall name args errno e r s =
     (case map_of syscall_numbers name of
        None \<Rightarrow> Fault ''no such call''
      | Some n \<Rightarrow> bind (system_call (of_nat n) e (with_args args r) s) (\<lambda>p s. Ok (stub_result errno (fst p), snd p) s))"

definition lib_wait :: "u32 \<Rightarrow> int \<Rightarrow> sys_env \<Rightarrow> regs \<Rightarrow> 'a trs_scheme \<Rightarrow> ((int \<times> int) \<times> regs, 'a trs_scheme) res" where
  "lib_wait wait_stat = syscall ''waitpid'' [-1, wait_stat, 0]"

definition lib_open :: "u32 \<Rightarrow> u32 \<Rightarrow> u32 \<Rightarrow> int \<Rightarrow> sys_env \<Rightarrow> regs \<Rightarrow> 'a trs_scheme \<Rightarrow> ((int \<times> int) \<times> regs, 'a trs_scheme) res" where
  "lib_open filename flag mode = syscall ''open'' [filename, flag, mode]"

text \<open>\<open>_exit\<close> does not look at a result.\<close>

definition lib_exit :: "u32 \<Rightarrow> sys_env \<Rightarrow> regs \<Rightarrow> 'a trs_scheme \<Rightarrow> (unit, 'a trs_scheme) res" where
  "lib_exit c e r s = bind (system_call 1 e (with_args [c] r) s) (\<lambda>_ s. Ok () s)"

text \<open>The exit status as a parent reads it, \<open>include/sys/wait.h\<close>.\<close>

definition WIFEXITED :: "u32 \<Rightarrow> bool" where "WIFEXITED s \<longleftrightarrow> s AND 0xFF = 0"
definition WIFSTOPPED :: "u32 \<Rightarrow> bool" where "WIFSTOPPED s \<longleftrightarrow> s AND 0xFF = 0x7F"
definition WEXITSTATUS :: "u32 \<Rightarrow> u32" where "WEXITSTATUS s = drop_bit 8 s AND 0xFF"
definition WTERMSIG :: "u32 \<Rightarrow> u32" where "WTERMSIG s = s AND 0x7F"
definition WSTOPSIG :: "u32 \<Rightarrow> u32" where "WSTOPSIG s = drop_bit 8 s AND 0xFF"
definition WIFSIGNALED :: "u32 \<Rightarrow> bool" where "WIFSIGNALED s \<longleftrightarrow> (s - 1) AND 0xFFFF < 0xFF"

subsection \<open>The stubs reach the routines\<close>

lemma length_sys_call_table: "length (sys_call_table :: (string \<times> 'a sys_fn) list) = 80"
  by (simp add: sys_call_table_def)

lemma table_names: "List.map fst (sys_call_table :: (string \<times> 'a sys_fn) list) = List.map fst syscall_numbers"
  by (simp add: sys_call_table_def syscall_numbers_def)

lemma table_numbers: "List.map snd syscall_numbers = [0..<80]"
  by (simp add: syscall_numbers_def upt_rec)

lemma table_distinct: "distinct (List.map fst syscall_numbers)"
  by (simp add: syscall_numbers_def)

lemma number_of:
  assumes "(nm, f) \<in> set (sys_call_table :: (string \<times> 'a sys_fn) list)"
  shows "\<exists>n. map_of syscall_numbers nm = Some n \<and> n < 80 \<and> (sys_call_table ! n :: string \<times> 'a sys_fn) = (nm, f)"
proof -
  let ?t = "sys_call_table :: (string \<times> 'a sys_fn) list"
  obtain n where n: "n < 80" "?t ! n = (nm, f)"
    using assms by (auto simp: in_set_conv_nth length_sys_call_table)
  have len: "length syscall_numbers = 80" using arg_cong [OF table_numbers, of length] by simp
  have "fst (syscall_numbers ! n) = nm"
    using arg_cong [OF table_names [where ?'a = 'a], of "\<lambda>xs. xs ! n"] n len by (simp add: length_sys_call_table)
  moreover have "snd (syscall_numbers ! n) = n"
    using arg_cong [OF table_numbers, of "\<lambda>xs. xs ! n"] n len by simp
  ultimately have "(nm, n) \<in> set syscall_numbers" using n(1) len nth_mem [of n syscall_numbers] by (metis prod.collapse)
  then have "map_of syscall_numbers nm = Some n" using table_distinct by (rule map_of_is_SomeI [rotated])
  with n show ?thesis by blast
qed

lemma syscall_reach:
  fixes f :: "'a sys_fn"
  assumes "(nm, f) \<in> set sys_call_table" and "80 \<le> nr_system_calls e"
  shows "syscall nm args errno e r s =
     bind (exits (bind (f e (with_args args r) s) after_call)) (\<lambda>p s. Ok (stub_result errno (fst p), snd p) s)"
proof -
  obtain n where n: "map_of syscall_numbers nm = Some n" "n < 80" "(sys_call_table ! n :: string \<times> 'a sys_fn) = (nm, f)"
    using number_of [OF assms(1)] by blast
  have u: "unat (of_nat n :: u32) = n" using n(2) by (simp add: unat_of_nat take_bit_nat_eq_self)
  have e: "unat (nr_system_calls e - 1) = unat (nr_system_calls e) - 1" "80 \<le> unat (nr_system_calls e)"
    using assms(2) by (simp_all add: word_le_nat_alt unat_sub)
  have "\<not> nr_system_calls e - 1 < of_nat n" using u n(2) e by (simp add: word_less_nat_alt)
  then show ?thesis using n(2) by (simp add: syscall_def system_call_def n(1,3) u length_sys_call_table)
qed

text \<open>A task that goes straight back: it runs, has time left, and no signal is to be delivered.\<close>

definition undisturbed :: "'a trs_scheme \<Rightarrow> bool" where
  "undisturbed s \<longleftrightarrow> state (cur s) = 0 \<and> counter (cur s) \<noteq> 0 \<and> signal (cur s) AND NOT (blocked (cur s)) = 0"

lemma lowest_bit_0: "lowest_bit 0 = None"
  by (simp add: lowest_bit_def find_idx_def find_idx_from_None_iff)

lemma after_undisturbed: "undisturbed s \<Longrightarrow> after_call (v, r) s = Ok (v, r) s"
  by (simp add: undisturbed_def after_call_def ret_from_sys_call_def lowest_bit_0)

text \<open>The way back to a process, not into the kernel.\<close>

definition to_user :: "regs \<Rightarrow> 'a trs_scheme \<Rightarrow> bool" where
  "to_user r s \<longleftrightarrow> current s \<noteq> 0 \<and> r_cs r AND 0xFFFF = 0x0F \<and> r_ss r AND 0xFFFF = 0x17"

definition pending :: "'a trs_scheme \<Rightarrow> u32" where
  "pending s = signal (cur s) AND NOT (blocked (cur s))"

subsection \<open>A process\<close>

definition demo_env :: sys_env where
  "demo_env = \<lparr>nr_system_calls = 0x6400, first_return = 0x7600, sem_address = (\<lambda>i. 0x20000 + 40 * of_nat i),
     stack_bytes = (\<lambda>_. 0), demand_image = (\<lambda>_. 0), shm_fuel = 100\<rparr>"

definition demo_regs :: regs where
  "demo_regs = \<lparr>r_ebp = 0, r_edi = 0, r_esi = 0, r_gs = 0x17, r_ebx = 0, r_ecx = 0, r_edx = 0, r_fs = 0x17, r_es = 0x17,
     r_ds = 0x17, r_eip = 0x400, r_cs = 0x0F, r_eflags = 0x200, r_esp = 0x8000, r_ss = 0x17\<rparr>"

definition demo_user :: "task_struct \<Rightarrow> trs" where
  "demo_user p = demo_trs\<lparr>current := 1, ts := (\<lambda>_. p), phys := (\<lambda>_. 0)\<rparr>"

lemma demo_user_simps: "current (demo_user p) = 1" "cur (demo_user p) = p" "phys (demo_user p) = (\<lambda>_. 0)"
  by (simp_all add: demo_user_def cur_def)

lemma demo_to_user: "to_user demo_regs (demo_user p)"
  by (simp add: to_user_def demo_regs_def demo_user_simps)

lemma demo_undisturbed: "undisturbed (demo_user (init_task\<lparr>pid := 7\<rparr>))"
  by (simp add: undisturbed_def demo_user_simps init_task_def)

text \<open>C30: the numbers in \<open>unistd.h\<close>, the order of the table in \<open>sys.h\<close> and the names agree: a stub
  called by its name runs the kernel routine of that name, with its arguments in the registers, goes back through
  the check for signals, and turns a negative result into -1 and \<open>errno\<close>.\<close>

theorem syscall_reaches:
  fixes f :: "'a sys_fn"
  assumes "(nm, f) \<in> set sys_call_table" and "80 \<le> nr_system_calls e"
  shows "syscall nm args errno e r s =
     bind (exits (bind (f e (with_args args r) s) after_call)) (\<lambda>p s. Ok (stub_result errno (fst p), snd p) s)"
  using assms by (rule syscall_reach)

theorem syscall_reaches_witness:
  "syscall ''getpid'' [] 0 demo_env demo_regs (demo_user (init_task\<lparr>pid := 7\<rparr>)) = Ok ((7, 0), demo_regs) (demo_user (init_task\<lparr>pid := 7\<rparr>))"
proof -
  have t: "(''getpid'', (\<lambda>e r s. Ok (of_int (sys_getpid s), r) s) :: unit sys_fn) \<in> set sys_call_table"
    by (simp add: sys_call_table_def)
  have "80 \<le> nr_system_calls demo_env" by (simp add: demo_env_def)
  from syscall_reaches [OF t this] show ?thesis
    using after_undisturbed [OF demo_undisturbed] by (simp add: exits_def sys_getpid_def demo_user_simps stub_result_def)
qed

subsection \<open>Semaphores by their handles\<close>

text \<open>The address that \<open>sem_open\<close> returns for an open semaphore is that of its slot, and no other.\<close>

definition sem_handles :: "sys_env \<Rightarrow> bool" where
  "sem_handles e \<longleftrightarrow> inj_on (sem_address e) {..<SEM_NUM} \<and> (\<forall>i < SEM_NUM. sem_address e i \<noteq> 0)"

lemma sem_ref_handle: "sem_handles e \<Longrightarrow> i < SEM_NUM \<Longrightarrow> sem_ref e (sem_address e i) s = Some (sem_index (semarray s ! i))"
proof -
  assume h: "sem_handles e" "i < SEM_NUM"
  then have "find_idx (\<lambda>k. sem_address e k = sem_address e i) [0..<SEM_NUM] = Some i"
    by (auto simp: find_idx_Some_iff sem_handles_def inj_on_def) 
  then show ?thesis using h by (simp add: sem_ref_def sem_handles_def)
qed

lemma find_index:
  assumes "wf_sem s" "i < SEM_NUM" "sem_name (semarray s ! i) \<noteq> []"
  shows "find_idx (\<lambda>x. sem_index (semarray s ! i) = sem_index x) (semarray s) = Some i"
proof -
  have n: "sem_index (semarray s ! k) \<noteq> of_nat i + 1" if "k < i" for k
  proof -
    have k: "k < SEM_NUM" using that assms(2) by simp
    have "(of_nat k + 1 :: u32) \<noteq> of_nat i + 1"
      using that assms(2) by (simp add: SEM_NUM_def of_nat_inverse [symmetric] word_of_nat_eq_iff take_bit_nat_eq_self)
    then show ?thesis using wf_semD(1,2) [OF assms(1) k] slot_number [OF assms(2)] by (cases "sem_name (semarray s ! k) = []") auto
  qed
  have "length (semarray s) = SEM_NUM" using assms(1) by (simp add: wf_sem_def)
  moreover have "sem_index (semarray s ! i) = of_nat i + 1" using wf_semD(2) [OF assms] by simp
  ultimately show ?thesis using n assms(2) by (simp add: find_idx_Some_iff) metis
qed

lemma lamport_simps:
  "lamportLock p s = Ok () u \<Longrightarrow> semarray u = semarray s \<and> cur u = cur s"
  "semarray (lamportUnlock p s) = semarray s"
  by (auto simp: lamportLock_def lamportUnlock_def cur_def split: prod.splits if_splits bool.splits)

lemma cur_set_sem: "cur (set_sem i f s) = cur s"
  by (simp add: set_sem_def cur_def)

lemma semarray_wake: "semarray (snd (wake_up q s)) = semarray s" "fst (wake_up q s) = None"
  by (simp_all add: wake_up_def upd_def split: option.splits)

lemma sem_map_cong: "semarray t = semarray s \<Longrightarrow> sem_map t = sem_map s \<and> wf_sem t = wf_sem s"
  by (simp add: sem_map_def wf_sem_def fun_eq_iff)

text \<open>Writing the value or the queue of an open slot.\<close>

lemma sem_map_update:
  assumes wf: "wf_sem s" and i: "i < SEM_NUM" "sem_name (semarray s ! i) \<noteq> []"
    and f: "\<And>x. sem_name (f x) = sem_name x" "\<And>x. sem_index (f x) = sem_index x" "\<And>x. sem_count (f x) = sem_count x"
  shows "wf_sem (set_sem i f s) \<and> sem_map (set_sem i f s) =
    (sem_map s)(sem_name (semarray s ! i) \<mapsto> (semvalue (f (semarray s ! i)), sem_count (semarray s ! i)))"
proof -
  have "sem_name (semarray s ! j) \<noteq> sem_name (semarray s ! i)" if "j < SEM_NUM" "j \<noteq> i" for j
    using wf_semD(4) [OF wf i that(1)] that(2) by metis
  then have w: "wf_sem (set_sem i f s)"
    using wf_semD(2) [OF wf i] i(2) by (intro wf_sem_set [OF wf i(1)]) (auto simp: f)
  then show ?thesis using i(2) by (auto simp: sem_map_set [OF wf i(1) w] f sem_map_Nil)
qed

text \<open>C10: semaphores from the side of a process. On a well-formed table, \<open>sem_post\<close> with the handle of an open
  semaphore adds one to the value under its name and \<open>sem_wait\<close>, when the value is not 0, takes one away, both return 0,
  the table stays well-formed and no other semaphore changes, if the task gets the lock.\<close>

theorem sem_handle_acts:
  assumes wf: "wf_sem s" and h: "sem_handles e" and i: "i < SEM_NUM" "sem_name (semarray s ! i) = n" "n \<noteq> []"
    and v: "sem_map s n = Some (v, c)" and lock: "lamportLock (pid (cur s)) s = Ok () u"
  shows "(\<exists>t. sys_sem_post (sem_ref e (sem_address e i) s) s = Ok 0 t \<and> wf_sem t \<and> sem_map t = (sem_map s)(n \<mapsto> (v + 1, c))) \<and>
    (v \<noteq> 0 \<longrightarrow> (\<exists>t. sys_sem_wait (sem_ref e (sem_address e i) s) s = Ok 0 t \<and> wf_sem t \<and> sem_map t = (sem_map s)(n \<mapsto> (v - 1, c))))"
proof -
  have len: "length (semarray s) = SEM_NUM" using wf by (simp add: wf_sem_def)
  have nm: "sem_name (semarray s ! i) \<noteq> []" using i by simp
  have vc: "semvalue (semarray s ! i) = v" "sem_count (semarray s ! i) = c"
    using sem_map_at [OF wf i] v by simp_all
  note ref = sem_ref_handle [OF h i(1), of s] find_index [OF wf i(1) nm]
  note lk = lamport_simps(1) [OF lock]
  let ?p = "\<lambda>x. x\<lparr>semvalue := semvalue x + 1, sem_waiting := None\<rparr>"
  let ?w = "\<lambda>x. x\<lparr>semvalue := semvalue x - 1\<rparr>"
  obtain t where t: "sys_sem_post (sem_ref e (sem_address e i) s) s = Ok 0 t" "semarray t = semarray (set_sem i ?p s)"
  proof
    let ?s = "lamportUnlock (pid (cur s)) (set_sem i (\<lambda>x. x\<lparr>semvalue := semvalue x + 1\<rparr>) u)"
    let ?t = "set_sem i (\<lambda>x. x\<lparr>sem_waiting := None\<rparr>) (snd (wake_up (sem_waiting (semarray ?s ! i)) ?s))"
    show "sys_sem_post (sem_ref e (sem_address e i) s) s = Ok 0 ?t"
      using lk by (simp add: sys_sem_post_def ref lock Let_def cur_set_sem semarray_wake(2) case_prod_beta)
    show "semarray ?t = semarray (set_sem i ?p s)"
      using lk len i(1) by (simp add: set_sem_def semarray_wake(1) lamport_simps(2))
  qed
  obtain t' where t': "v \<noteq> 0 \<Longrightarrow> sys_sem_wait (sem_ref e (sem_address e i) s) s = Ok 0 t'" "semarray t' = semarray (set_sem i ?w s)"
  proof
    let ?t = "lamportUnlock (pid (cur s)) (set_sem i ?w u)"
    show "sys_sem_wait (sem_ref e (sem_address e i) s) s = Ok 0 ?t" if "v \<noteq> 0"
      using that vc lk by (simp add: sys_sem_wait_def ref lock sem_round_def Let_def cur_set_sem)
    show "semarray ?t = semarray (set_sem i ?w s)" using lk by (simp add: lamport_simps(2) set_sem_def)
  qed
  have "wf_sem t" "sem_map t = (sem_map s)(n \<mapsto> (v + 1, c))"
    using sem_map_cong [OF t(2)] sem_map_update [OF wf i(1) nm, of ?p] vc i(2) by simp_all
  moreover have "wf_sem t'" "sem_map t' = (sem_map s)(n \<mapsto> (v - 1, c))"
    using sem_map_cong [OF t'(2)] sem_map_update [OF wf i(1) nm, of ?w] vc i(2) by simp_all
  ultimately show ?thesis using t(1) t'(1) by blast
qed

definition demo_sems :: trs where
  "demo_sems = (demo_user (init_task\<lparr>pid := 7\<rparr>))
     \<lparr>semarray := (replicate SEM_NUM \<lparr>sem_index = 0, sem_name = [], semvalue = 0, sem_waiting = None, sem_count = 0\<rparr>)
        [3 := \<lparr>sem_index = 4, sem_name = [115], semvalue = 5, sem_waiting = None, sem_count = 1\<rparr>],
      lamparray := replicate NR_TASKS \<lparr>lpid = 0, lchoosing = False, lnum = 0\<rparr>\<rparr>"

lemma lamp_find_none:
  "(\<And>j. i \<le> j \<Longrightarrow> j < i + n \<Longrightarrow> lpid (l ! j) = 0) \<Longrightarrow> p \<noteq> 0 \<Longrightarrow>
     lamp_find n i d p l = (False, if n = 0 then d else i + n - 1)"
  by (induction n i d p l rule: lamp_find.induct) auto

lemma demo_sems_facts:
  "wf_sem demo_sems" "sem_map demo_sems [115] = Some (5, 1)" "sem_name (semarray demo_sems ! 3) = [115]"
  "\<exists>u. lamportLock (pid (cur demo_sems)) demo_sems = Ok () u"
proof -
  have sa: "semarray demo_sems = (replicate SEM_NUM \<lparr>sem_index = 0, sem_name = [], semvalue = 0, sem_waiting = None, sem_count = 0\<rparr>)
        [3 := \<lparr>sem_index = 4, sem_name = [115], semvalue = 5, sem_waiting = None, sem_count = 1\<rparr>]"
    and la: "lamparray demo_sems = replicate NR_TASKS \<lparr>lpid = 0, lchoosing = False, lnum = 0\<rparr>"
    and pid: "pid (cur demo_sems) = 7"
    by (simp_all add: demo_sems_def demo_user_def cur_def)
  show w: "wf_sem demo_sems" by (auto simp: wf_sem_def sa nth_list_update SEM_NUM_def)
  show n: "sem_name (semarray demo_sems ! 3) = [115]" by (simp add: sa SEM_NUM_def)
  show "sem_map demo_sems [115] = Some (5, 1)"
    using sem_map_at [OF w _ n] by (simp add: sa SEM_NUM_def)
  let ?l = "replicate NR_TASKS \<lparr>lpid = 0, lchoosing = False, lnum = 0\<rparr>"
  let ?k = "NR_TASKS - 1"
  have f: "lamp_find (NR_TASKS - 1) 1 0 7 ?l = (False, ?k)"
    by (subst lamp_find_none) (simp_all add: NR_TASKS_def)
  have m: "lamp_max ?k (?l[?k := \<lparr>lpid = 7, lchoosing = False, lnum = 0\<rparr>]) = 0"
    by (rule lamp_max_zero) (auto simp: nth_list_update NR_TASKS_def)
  have "lamp_take 7 ?l = (?k, ?l[?k := \<lparr>lpid = 7, lchoosing = False, lnum = 1\<rparr>])"
    unfolding lamp_take_def f prod.case Let_def using m by (simp add: NR_TASKS_def)
  moreover have "\<not> lamp_blocks (?l[?k := \<lparr>lpid = 7, lchoosing = False, lnum = 1\<rparr>]) ?k j" if "j < NR_TASKS" for j
    using that by (auto simp: lamp_blocks_def nth_list_update NR_TASKS_def)
  ultimately show "\<exists>u. lamportLock (pid (cur demo_sems)) demo_sems = Ok () u"
    by (auto simp: lamportLock_def la pid)
qed

theorem sem_handle_acts_witness:
  "\<exists>t t'. sys_sem_post (sem_ref demo_env 0x20078 demo_sems) demo_sems = Ok 0 t \<and> sem_map t [115] = Some (6, 1) \<and>
     sys_sem_wait (sem_ref demo_env 0x20078 demo_sems) demo_sems = Ok 0 t' \<and> sem_map t' [115] = Some (4, 1)"
proof -
  have u: "unat (0x20000 + 40 * of_nat i :: u32) = 0x20000 + 40 * i" if "i < 64" for i
  proof -
    have "(0x20000 + 40 * of_nat i :: u32) = of_nat (0x20000 + 40 * i)" by simp
    then show ?thesis using that by (simp only: unat_of_nat take_bit_nat_eq_self_iff) simp
  qed
  have "sem_handles demo_env"
    unfolding sem_handles_def inj_on_def demo_env_def SEM_NUM_def
  proof (intro conjI ballI impI allI, goal_cases)
    case (1 i j)
    then show ?case using u [of i] u [of j] by (simp add: word_unat_eq_iff)
  next
    case (2 i)
    then show ?case using u [of i] by (auto simp: unat_eq_0)
  qed
  moreover have "sem_address demo_env 3 = 0x20078" "(3 :: nat) < SEM_NUM" by (simp_all add: demo_env_def SEM_NUM_def)
  moreover obtain u where "lamportLock (pid (cur demo_sems)) demo_sems = Ok () u" using demo_sems_facts(4) by blast
  ultimately show ?thesis
    using sem_handle_acts [OF demo_sems_facts(1) _ _ demo_sems_facts(3) _ demo_sems_facts(2), of demo_env u] by auto
qed

text \<open>A call that is not implemented: the process gets -1 with \<open>errno\<close> set to \<open>ENOSYS\<close>, and nothing in the
  kernel has changed.\<close>

theorem unimplemented_calls:
  assumes "undisturbed s" and "80 \<le> nr_system_calls e"
    and "nm \<in> {''break'', ''ptrace'', ''stty'', ''gtty'', ''ftime'', ''rename'', ''prof'', ''acct'', ''phys'', ''lock'', ''mpx'', ''ulimit'', ''ustat''}"
  shows "syscall nm args errno e r s = Ok ((-1, ENOSYS), with_args args r) s"
proof -
  let ?f = "(\<lambda>e r s. Ok (of_int (- ENOSYS), r) s) :: 'a sys_fn"
  have "(nm, ?f) \<in> set sys_call_table"
    using assms(3) by (auto simp: sys_call_table_def sys_ustat_def)
  from syscall_reach [OF this assms(2)]
  show ?thesis using after_undisturbed [OF assms(1)] by (simp add: exits_def stub_result_def ENOSYS_def)
qed

theorem unimplemented_calls_witness:
  "syscall ''ptrace'' [1, 2, 3] 0 demo_env demo_regs (demo_user (init_task\<lparr>pid := 7\<rparr>)) =
     Ok ((-1, 38), with_args [1, 2, 3] demo_regs) (demo_user (init_task\<lparr>pid := 7\<rparr>))"
proof -
  have "80 \<le> nr_system_calls demo_env" by (simp add: demo_env_def)
  from unimplemented_calls [OF demo_undisturbed this, of "''ptrace''"] show ?thesis by (simp add: ENOSYS_def)
qed

subsection \<open>Signals on the way back\<close>

lemma lowest_bitI:
  assumes "bit w k" and "\<And>j. j < k \<Longrightarrow> \<not> bit w j"
  shows "lowest_bit w = Some k"
proof -
  have "k < 32" using assms(1) bit_imp_le_length [of w k] by simp
  then show ?thesis using assms by (simp add: lowest_bit_def find_idx_Some_iff)
qed

lemma status_of_signal:
  "k < 32 \<Longrightarrow> (WTERMSIG (of_int (2 ^ k)) = of_nat k + 1 \<and> WIFSIGNALED (of_int (2 ^ k)) \<longleftrightarrow> k < 2) \<and>
     (WIFEXITED (of_int (2 ^ k)) \<longleftrightarrow> 8 \<le> k)"
proof -
  have "list_all (\<lambda>k. (WTERMSIG (of_int (2 ^ k)) = of_nat k + 1 \<and> WIFSIGNALED (of_int (2 ^ k)) \<longleftrightarrow> k < 2) \<and>
     (WIFEXITED (of_int (2 ^ k)) \<longleftrightarrow> 8 \<le> k)) [0..<32]"
    by (simp add: upt_rec WTERMSIG_def WIFSIGNALED_def WIFEXITED_def)
  then show "k < 32 \<Longrightarrow> ?thesis" by (simp add: list_all_iff)
qed

lemma pending_lt: "bit (pending s) k \<Longrightarrow> k < 32"
  using bit_imp_le_length [of "pending s" k] by simp

lemma bit_sigkill: "bit (sigbit SIGKILL) n \<longleftrightarrow> n = 8"
  unfolding sigbit_def SIGKILL_def bit_push_bit_iff bit_1_iff by auto

lemma kill_bit: "w AND sigbit SIGKILL \<noteq> 0 \<longleftrightarrow> bit w 8"
proof -
  have "bit (w AND sigbit SIGKILL) n \<longleftrightarrow> n = 8 \<and> bit w 8" for n by (auto simp: bit_and_iff bit_sigkill)
  then show ?thesis by (metis bit_0_eq bot_apply bot_bool_def bit_word_eqI)
qed

lemma kill_masked: "bit b 8 \<Longrightarrow> sigbit SIGKILL AND NOT b = (0 :: u32)"
  by (rule bit_word_eqI) (auto simp: bit_and_iff bit_not_iff bit_sigkill)

text \<open>C31: what becomes of a process that a signal kills. On the way back to the process the lowest pending signal
  that is not blocked is taken, and no other; when it has the default action the process ends, but with the status
  \<open>1 << (n-1)\<close> for signal \<open>n\<close>. The macros of \<open>sys/wait.h\<close> read the number itself from it: of all signals they
  give the right number for 1 and 2 only, and from 9 on, \<open>SIGKILL\<close> included, they say that the process has
  called \<open>exit\<close>.\<close>

theorem fatal_signal_misreported:
  assumes u: "to_user r s" and k: "bit (pending s) k" "\<And>j. j < k \<Longrightarrow> \<not> bit (pending s) j"
    and h: "sa_handler (action (int k + 1) s) = 0" "int k + 1 \<noteq> SIGCHLD"
  shows "\<exists>t. ret_from_sys_call v r s = Exits (2 ^ k) t \<and>
     (\<forall>j. bit (signal (cur t)) j \<longleftrightarrow> bit (signal (cur s)) j \<and> j \<noteq> k) \<and>
     (WTERMSIG (of_int (2 ^ k)) = of_nat k + 1 \<and> WIFSIGNALED (of_int (2 ^ k)) \<longleftrightarrow> k < 2) \<and>
     (WIFEXITED (of_int (2 ^ k)) \<longleftrightarrow> 8 \<le> k)"
proof -
  let ?s = "upd_cur (\<lambda>p. p\<lparr>signal := unset_bit k (signal p)\<rparr>) s"
  have k32: "k < 32" using pending_lt [OF k(1)] .
  have low: "lowest_bit (signal (cur s) AND NOT (blocked (cur s))) = Some k"
    using lowest_bitI [OF k] by (simp add: pending_def)
  have "sa_handler (action (int k + 1) ?s) = 0" using h(1) by (simp add: action_def)
  then have "do_signal (int k + 1) v (r_ecx r) (r_edx r) (r_eip r) (r_eflags r) (r_esp r) ?s = Exits (2 ^ k) ?s"
    using h(2) by (simp add: do_signal_def Let_def)
  then have "ret_from_sys_call v r s = Exits (2 ^ k) ?s"
    using u by (simp add: ret_from_sys_call_def to_user_def low Let_def)
  moreover have "bit (signal (cur ?s)) j \<longleftrightarrow> bit (signal (cur s)) j \<and> j \<noteq> k" for j
    by (auto simp: bit_unset_bit_iff)
  ultimately show ?thesis using status_of_signal [OF k32] by blast
qed

theorem fatal_signal_misreported_witness:
  "\<exists>t. ret_from_sys_call 0 demo_regs (demo_user (init_task\<lparr>signal := 0x100\<rparr>)) = Exits 256 t \<and> WIFEXITED 256"
proof -
  let ?s = "demo_user (init_task\<lparr>signal := 0x100\<rparr>)"
  have p: "pending ?s = sigbit SIGKILL" by (simp add: pending_def demo_user_simps init_task_def sigbit_def SIGKILL_def)
  have "sa_handler (action (int 8 + 1) ?s) = 0" by (simp add: action_def demo_user_simps init_task_def)
  from fatal_signal_misreported [OF demo_to_user _ _ this, of 0] show ?thesis
    by (auto simp: p bit_sigkill SIGCHLD_def)
qed

text \<open>What \<open>sigaction\<close> stores when the user's flags do not ask for \<open>SA_NOMASK\<close>.\<close>

lemma save_old_cur: "save_old f addr s = Ok v t \<Longrightarrow> cur t = cur s \<and> current t = current s"
  by (auto simp: save_old_def cur_def same_tasks_def dest!: same_tasks_verify_area)

lemma sigaction_stores:
  assumes ok: "sys_sigaction signum new old s0 = Ok 0 s1" and len: "length (sigaction (cur s0)) = 32"
    and mask: "get_fs_long (new + 8) s0 AND SA_NOMASK = 0"
  shows "action signum s1 = (get_new new s0)\<lparr>sa_mask := get_fs_long (new + 4) s0 OR sigbit signum\<rparr>"
    and "1 \<le> signum" and "signum \<le> 32" and "signum \<noteq> SIGKILL"
proof -
  have rng: "\<not> (signum < 1 \<or> 32 < signum \<or> signum = SIGKILL)" using ok by (auto simp: sys_sigaction_def)
  then show r: "1 \<le> signum" "signum \<le> 32" "signum \<noteq> SIGKILL" by auto
  let ?s = "set_action signum (get_new new s0) s0"
  have n: "nat (signum - 1) < 32" using r by simp
  from ok rng obtain u where u: "cur u = cur ?s" "current u = current ?s"
    and s1: "s1 = set_action signum (let a = action signum u in
        if sa_flags a AND SA_NOMASK \<noteq> 0 then a\<lparr>sa_mask := 0\<rparr> else a\<lparr>sa_mask := sa_mask a OR sigbit signum\<rparr>) u"
    by (auto simp: sys_sigaction_def Let_def bind_eq_Ok dest: save_old_cur split: if_splits)
  have cs: "cur ?s = (cur s0)\<lparr>sigaction := (sigaction (cur s0))[nat (signum - 1) := get_new new s0]\<rparr>"
    by (simp add: set_action_def)
  have "action signum u = get_new new s0"
    unfolding action_def u cs using n len by simp
  moreover have "length (sigaction (cur u)) = 32" unfolding u cs using len by simp
  ultimately show "action signum s1 = (get_new new s0)\<lparr>sa_mask := get_fs_long (new + 4) s0 OR sigbit signum\<rparr>"
    using mask n unfolding s1 by (simp add: action_def set_action_def get_new_def Let_def)
qed

text \<open>Entering a handler blocks what is in its mask.\<close>

lemma handler_blocks:
  assumes u: "to_user r s" and k: "bit (pending s) k" "\<And>j. j < k \<Longrightarrow> \<not> bit (pending s) j"
    and h: "sa_handler (action (int k + 1) s) \<notin> {0, 1}"
    and ok: "ret_from_sys_call v r s = Ok (v, r') t"
  shows "\<exists>m. blocked (cur t) = m OR sa_mask (action (int k + 1) s)"
proof -
  let ?s = "upd_cur (\<lambda>p. p\<lparr>signal := unset_bit k (signal p)\<rparr>) s"
  let ?sa = "action (int k + 1) s"
  have low: "lowest_bit (signal (cur s) AND NOT (blocked (cur s))) = Some k"
    using lowest_bitI [OF k] by (simp add: pending_def)
  have a: "action (int k + 1) ?s = ?sa" by (simp add: action_def)
  obtain x where x: "do_signal (int k + 1) v (r_ecx r) (r_edx r) (r_eip r) (r_eflags r) (r_esp r) ?s = Ok x t"
    using u ok by (auto simp: ret_from_sys_call_def to_user_def low Let_def bind_def split: res.splits)
  from x h obtain u where t: "t = upd_cur (\<lambda>p. p\<lparr>blocked := blocked p OR sa_mask ?sa\<rparr>) u"
    by (auto simp: do_signal_def Let_def a bind_def split: res.splits)
  then show ?thesis by auto
qed

text \<open>C32: \<open>SIGKILL\<close> can be blocked. \<open>ssetmask\<close> takes it out of the mask, whatever it is asked for; but
  \<open>sigaction\<close>, called for any signal with a structure whose mask contains \<open>SIGKILL\<close> and whose flags do not
  contain \<open>SA_NOMASK\<close>, stores that mask. When the signal then comes, with the action still in place, entering the
  handler blocks \<open>SIGKILL\<close>: from then on a process whose only pending signal is \<open>SIGKILL\<close> goes on undisturbed.\<close>

theorem kill_blockable:
  fixes s :: "'a trs_scheme"
  assumes c: "sys_sigaction signum new old s0 = Ok 0 s1" "length (sigaction (cur s0)) = 32"
    and user: "get_fs_long new s0 \<notin> {0, 1}" "get_fs_long (new + 4) s0 AND sigbit SIGKILL \<noteq> 0"
      "get_fs_long (new + 8) s0 AND SA_NOMASK = 0"
    and s: "to_user r s" "action signum s = action signum s1"
    and k: "bit (pending s) (nat (signum - 1))" "\<And>j. j < nat (signum - 1) \<Longrightarrow> \<not> bit (pending s) j"
    and ok: "ret_from_sys_call v r s = Ok (v, r') t"
  shows "blocked (cur (snd (sys_ssetmask m s))) AND sigbit SIGKILL = 0 \<and>
     sa_mask (action signum s1) AND sigbit SIGKILL \<noteq> 0 \<and> blocked (cur t) AND sigbit SIGKILL \<noteq> 0 \<and>
     ret_from_sys_call w r' (upd_cur (\<lambda>p. p\<lparr>signal := sigbit SIGKILL\<rparr>) t) = Ok (w, r') (upd_cur (\<lambda>p. p\<lparr>signal := sigbit SIGKILL\<rparr>) t)"
proof -
  note st = sigaction_stores [OF c user(3)]
  have num: "int (nat (signum - 1)) + 1 = signum" using st(2) by simp
  have h: "sa_handler (action signum s) \<notin> {0, 1}" using user(1) by (simp add: s(2) st(1) get_new_def)
  obtain b where b: "blocked (cur t) = b OR sa_mask (action signum s1)"
    using handler_blocks [OF s(1), of "nat (signum - 1)" v r' t] k h ok unfolding num s(2) by blast
  have m: "bit (sa_mask (action signum s1)) 8" using user(2) by (simp add: st(1) kill_bit bit_or_iff)
  then have t: "bit (blocked (cur t)) 8" by (simp add: b bit_or_iff)
  have set: "blocked (cur (snd (sys_ssetmask m s))) AND sigbit SIGKILL = 0" by (simp add: sys_ssetmask_def ac_simps)
  show ?thesis
    using m t set kill_masked [OF t] by (simp add: ret_from_sys_call_def lowest_bit_0 kill_bit)
qed

text \<open>A process that calls \<open>sigaction(2, 0x5000, 0)\<close> with a handler, the mask \<open>1 << 8\<close> and no flags.\<close>

definition demo_caller :: trs where
  "demo_caller = put_fs_longs [0x1000, 0x100, 0, 0x2000] 0x5000
     (demo_user (init_task\<lparr>sigaction := replicate 32 \<lparr>sa_handler = 0, sa_mask = 0, sa_flags = 0, sa_restorer = 0\<rparr>\<rparr>))"

lemma demo_caller_user:
  "get_fs_long 0x5000 demo_caller = 0x1000" "get_fs_long 0x5004 demo_caller = 0x100"
  "get_fs_long 0x5008 demo_caller = 0" "get_fs_long 0x500C demo_caller = 0x2000"
proof -
  let ?l = "[0x1000, 0x100, 0, 0x2000] :: u32 list"
  have g: "get_fs_long (0x5000 + 4 * of_nat i) demo_caller = ?l ! i" if "i < 4" for i
    unfolding demo_caller_def by (rule get_put_longs) (use that in simp_all)
  show "get_fs_long 0x5000 demo_caller = 0x1000" "get_fs_long 0x5004 demo_caller = 0x100"
    "get_fs_long 0x5008 demo_caller = 0" "get_fs_long 0x500C demo_caller = 0x2000"
    using g [of 0] g [of 1] g [of 2] g [of 3] by simp_all
qed

lemma demo_caller_simps:
  "cur demo_caller = init_task\<lparr>sigaction := replicate 32 \<lparr>sa_handler = 0, sa_mask = 0, sa_flags = 0, sa_restorer = 0\<rparr>\<rparr>"
  "phys demo_caller = (\<lambda>_. 0)" "current demo_caller = 1"
  by (simp_all add: demo_caller_def demo_user_simps)

text \<open>Its action afterwards, and the arrival of signal 2.\<close>

abbreviation demo_stored :: sigact where
  "demo_stored \<equiv> \<lparr>sa_handler = 0x1000, sa_mask = 0x102, sa_flags = 0, sa_restorer = 0x2000\<rparr>"

definition demo_signalled :: trs where
  "demo_signalled = upd_cur (\<lambda>p. p\<lparr>signal := 2\<rparr>) (set_action 2 demo_stored demo_caller)"

lemma demo_sigaction: "sys_sigaction 2 0x5000 0 demo_caller = Ok 0 (set_action 2 demo_stored demo_caller)"
proof -
  have n: "get_new 0x5000 demo_caller = \<lparr>sa_handler = 0x1000, sa_mask = 0x100, sa_flags = 0, sa_restorer = 0x2000\<rparr>"
    using demo_caller_user by (simp add: get_new_def)
  have a: "action 2 (set_action 2 x demo_caller) = x" for x
    by (simp add: action_def set_action_def demo_caller_simps)
  have twice: "set_action 2 x (set_action 2 y demo_caller) = set_action 2 x demo_caller" for x y
    by (simp add: set_action_def upd_cur_def upd_def cur_def)
  show ?thesis
    by (simp add: sys_sigaction_def n a twice SIGKILL_def sigbit_def SA_NOMASK_def Let_def)
qed

lemma demo_signalled_simps:
  "to_user demo_regs demo_signalled" "pending demo_signalled = 2" "action 2 demo_signalled = demo_stored"
  by (simp_all add: demo_signalled_def to_user_def demo_regs_def set_action_def demo_caller_simps pending_def
      init_task_def action_def)

lemma demo_kill_enters: "\<exists>r' t. ret_from_sys_call 0 demo_regs demo_signalled = Ok (0, r') t"
proof -
  let ?s = "upd_cur (\<lambda>p. p\<lparr>signal := unset_bit 1 (signal p)\<rparr>) demo_signalled"
  have wv: "write_verify x s = Ok () s" if "phys s = (\<lambda>_. 0)" for x and s :: trs
    using that by (simp add: write_verify_def)
  have c: "phys ?s = (\<lambda>_. 0)" "data_base (cur ?s) = 0"
    by (simp_all add: demo_signalled_def set_action_def demo_caller_simps init_task_def)
  have va: "verify_area 0x7FE0 32 ?s = Ok () ?s"
    using c(2) by (simp add: verify_area_def) (simp add: verify_loop.simps wv [OF c(1), simplified])
  have sa: "action 2 ?s = demo_stored" using demo_signalled_simps(3) by (simp add: action_def)
  have "lowest_bit (pending demo_signalled) = Some 1"
    by (rule lowest_bitI) (simp_all add: demo_signalled_simps bit_Suc)
  then have low: "lowest_bit (signal (cur demo_signalled) AND NOT (blocked (cur demo_signalled))) = Some 1"
    by (simp add: pending_def)
  have "\<exists>x t. do_signal 2 0 0 0 0x400 0x200 0x8000 ?s = Ok x t"
    unfolding do_signal_def Let_def sa by (simp add: SA_NOMASK_def SA_ONESHOT_def va [simplified])
  then show ?thesis
    using low demo_signalled_simps(1) by (auto simp: ret_from_sys_call_def to_user_def demo_regs_def)
qed

theorem kill_blockable_witness:
  "\<exists>r' t. sys_sigaction 2 0x5000 0 demo_caller = Ok 0 (set_action 2 demo_stored demo_caller) \<and>
     ret_from_sys_call 0 demo_regs demo_signalled = Ok (0, r') t \<and>
     ret_from_sys_call 5 r' (upd_cur (\<lambda>p. p\<lparr>signal := sigbit SIGKILL\<rparr>) t) = Ok (5, r') (upd_cur (\<lambda>p. p\<lparr>signal := sigbit SIGKILL\<rparr>) t)"
proof -
  let ?s1 = "set_action 2 demo_stored demo_caller"
  obtain r' t where ok: "ret_from_sys_call 0 demo_regs demo_signalled = Ok (0, r') t" using demo_kill_enters by blast
  have l: "length (sigaction (cur demo_caller)) = 32" by (simp add: demo_caller_simps)
  have user: "get_fs_long 0x5000 demo_caller \<notin> {0, 1}" "get_fs_long (0x5000 + 4) demo_caller AND sigbit SIGKILL \<noteq> 0"
    "get_fs_long (0x5000 + 8) demo_caller AND SA_NOMASK = 0"
    using demo_caller_user by (simp_all add: sigbit_def SIGKILL_def)
  have same: "action 2 demo_signalled = action 2 ?s1"
    unfolding demo_signalled_simps(3) by (simp add: action_def set_action_def demo_caller_simps)
  have k: "bit (pending demo_signalled) (nat (2 - 1))" "\<And>j. j < nat (2 - 1) \<Longrightarrow> \<not> bit (pending demo_signalled) j"
    by (simp_all add: demo_signalled_simps bit_Suc)
  from kill_blockable [OF demo_sigaction l user demo_signalled_simps(1) same k ok, of 0 5] demo_sigaction ok
  show ?thesis by blast
qed

end
