(* ===== verification/Build.thy ===== *)
theory Build
  imports Prelude "HOL-Library.Word"
begin

text \<open>
  \<open>tools/build.c\<close>, which puts the boot sector, the setup code and the kernel into one image. A file is the
  list of its bytes, or \<open>None\<close> when it cannot be opened; reading does not fail, and the k-th call of \<open>write\<close>
  succeeds when \<open>writes k\<close>. The buffer is kept, since parts of it are read that no call has filled. \<open>long\<close> has
  32 bits. What has been written stays written when the program ends with an error.
\<close>

type_synonym byte = "8 word"

definition MINIX_HEADER :: nat where "MINIX_HEADER = 32"
definition SYS_SIZE :: nat where "SYS_SIZE = 0x3000"
definition DEFAULT_MAJOR_ROOT :: byte where "DEFAULT_MAJOR_ROOT = 3"
definition DEFAULT_MINOR_ROOT :: byte where "DEFAULT_MINOR_ROOT = 1"
definition SETUP_SECTS :: nat where "SETUP_SECTS = 4"

subsection \<open>Reading and writing\<close>

text \<open>The image so far and the number of writes; an error is a message.\<close>

record disk_image =
  out :: "byte list"
  wrote :: nat

datatype 'a outcome = Done 'a disk_image | Dies string disk_image

definition quoted :: "string \<Rightarrow> string" where
  "quoted x = CHR 0x27 # x @ [CHR 0x27]"

definition andthen :: "'a outcome \<Rightarrow> ('a \<Rightarrow> disk_image \<Rightarrow> 'b outcome) \<Rightarrow> 'b outcome" where
  "andthen m f = (case m of Done a s \<Rightarrow> f a s | Dies e s \<Rightarrow> Dies e s)"

definition put_out :: "(nat \<Rightarrow> bool) \<Rightarrow> byte list \<Rightarrow> disk_image \<Rightarrow> unit outcome" where
  "put_out writes bs s =
     (let s' = s\<lparr>wrote := Suc (wrote s)\<rparr> in
      if writes (wrote s) then Done () (s'\<lparr>out := out s @ bs\<rparr>) else Dies ''Write call failed'' s')"

text \<open>\<open>read(id, buf, n)\<close>: how many bytes, the buffer, and the rest of the file.\<close>

definition read_in :: "nat \<Rightarrow> byte list \<Rightarrow> byte list \<Rightarrow> nat \<times> byte list \<times> byte list" where
  "read_in n f buf =
     (let got = take n f in (length got, got @ drop (length got) buf, drop n f))"

definition long_at :: "nat \<Rightarrow> byte list \<Rightarrow> 32 word" where
  "long_at k buf = ucast (buf ! (4 * k)) + 0x100 * ucast (buf ! (4 * k + 1)) + 0x10000 * ucast (buf ! (4 * k + 2)) +
     0x1000000 * ucast (buf ! (4 * k + 3))"

definition BUF :: nat where "BUF = 1024"

fun copy_out :: "nat \<Rightarrow> (nat \<Rightarrow> bool) \<Rightarrow> nat \<Rightarrow> byte list \<Rightarrow> byte list \<Rightarrow> disk_image \<Rightarrow> (nat \<times> byte list) outcome" where
  "copy_out 0 writes i f buf s = Done (i, buf) s"
| "copy_out (Suc fuel) writes i f buf s =
     (case read_in BUF f buf of (c, buf, f) \<Rightarrow>
      if c = 0 then Done (i, buf) s
      else andthen (put_out writes (take c buf) s) (\<lambda>_ s. copy_out fuel writes (i + c) f buf s))"

fun pad_out :: "nat \<Rightarrow> (nat \<Rightarrow> bool) \<Rightarrow> nat \<Rightarrow> disk_image \<Rightarrow> unit outcome" where
  "pad_out 0 writes i s = Done () s"
| "pad_out (Suc fuel) writes i s =
     (if SETUP_SECTS * 512 \<le> i then Done () s
      else let c = min (SETUP_SECTS * 512 - i) BUF in
        andthen (put_out writes (replicate c 0) s) (\<lambda>_ s. pad_out fuel writes (i + c) s))"

subsection \<open>The root device\<close>

text \<open>
  The fifth argument: none, \<open>FLOPPY\<close>, or a device file with its \<open>st_rdev\<close> if there is such a file; or
  \<open>argc\<close> is neither 4 nor 5.
\<close>

datatype root_arg = Wrong_argc | Default | Floppy_root | Device "nat option"

definition root_device :: "root_arg \<Rightarrow> string + byte \<times> byte" where
  "root_device a =
     (case a of
        Wrong_argc \<Rightarrow> Inl ''Usage: build bootsect setup system [rootdev] [> image]''
      | Default \<Rightarrow> Inr (DEFAULT_MAJOR_ROOT, DEFAULT_MINOR_ROOT)
      | Floppy_root \<Rightarrow> Inr (0, 0)
      | Device None \<Rightarrow> Inl (''Couldn'' @ CHR 0x27 # ''t stat root device.'')
      | Device (Some rdev) \<Rightarrow> Inr (of_nat (rdev div 256), of_nat (rdev mod 256)))"

definition bad_major :: "byte \<Rightarrow> bool" where
  "bad_major m \<longleftrightarrow> m \<noteq> 2 \<and> m \<noteq> 3 \<and> m \<noteq> 0"

subsection \<open>The three parts\<close>

text \<open>The checks of a header, in the order of the code: the first error that is found.\<close>

definition header_error :: "string \<Rightarrow> nat \<Rightarrow> byte list \<Rightarrow> string option" where
  "header_error name got buf =
     (if got \<noteq> MINIX_HEADER then Some (''Unable to read header of '' @ name)
      else if long_at 0 buf \<noteq> 0x04100301 then Some (''Non-Minix header of '' @ name)
      else if long_at 1 buf \<noteq> of_nat MINIX_HEADER then Some (''Non-Minix header of '' @ name)
      else if long_at 3 buf \<noteq> 0 then Some (''Illegal data segment in '' @ name)
      else if long_at 4 buf \<noteq> 0 then Some (''Illegal bss in '' @ name)
      else if long_at 5 buf \<noteq> 0 then Some (''Non-Minix header of '' @ name)
      else if long_at 7 buf \<noteq> 0 then Some (''Illegal symbol table in '' @ name)
      else None)"

definition build_boot :: "(nat \<Rightarrow> bool) \<Rightarrow> byte \<times> byte \<Rightarrow> byte list option \<Rightarrow> byte list \<Rightarrow> disk_image \<Rightarrow> byte list outcome" where
  "build_boot writes root file buf s =
     (case file of None \<Rightarrow> Dies (''Unable to open '' @ quoted ''boot'') s | Some f \<Rightarrow>
      case read_in MINIX_HEADER f buf of (got, buf, f) \<Rightarrow>
      case header_error (quoted ''boot'') got buf of Some e \<Rightarrow> Dies e s | None \<Rightarrow>
      case read_in BUF f buf of (i, buf, f) \<Rightarrow>
      if i \<noteq> 512 then Dies ''Boot block must be exactly 512 bytes'' s
      else if buf ! 510 \<noteq> 0x55 \<or> buf ! 511 \<noteq> 0xAA then Dies (''Boot block hasn'' @ CHR 0x27 # ''t got boot flag (0xAA55)'') s
      else
        let buf = buf[508 := snd root, 509 := fst root] in
        andthen (put_out writes (take 512 buf) s) (\<lambda>_ s. Done buf s))"

definition build_setup :: "(nat \<Rightarrow> bool) \<Rightarrow> byte list option \<Rightarrow> byte list \<Rightarrow> disk_image \<Rightarrow> unit outcome" where
  "build_setup writes file buf s =
     (case file of None \<Rightarrow> Dies (''Unable to open '' @ quoted ''setup'') s | Some f \<Rightarrow>
      case read_in MINIX_HEADER f buf of (got, buf, f) \<Rightarrow>
      case header_error (quoted ''setup'') got buf of Some e \<Rightarrow> Dies e s | None \<Rightarrow>
      andthen (copy_out (length f + 1) writes 0 f buf s) (\<lambda>(i, buf) s.
      if SETUP_SECTS * 512 < i then Dies ''Setup exceeds SETUP_SECTS sectors - rewrite build/boot/setup'' s
      else pad_out (SETUP_SECTS * 512 + 1) writes i s))"

definition build_system :: "(nat \<Rightarrow> bool) \<Rightarrow> byte list option \<Rightarrow> disk_image \<Rightarrow> unit outcome" where
  "build_system writes file s =
     (case file of None \<Rightarrow> Dies (''Unable to open '' @ quoted ''system'') s | Some f \<Rightarrow>
      andthen (copy_out (length f + 1) writes 0 f (replicate BUF 0) s) (\<lambda>(i, buf) s.
      if SYS_SIZE * 16 < i then Dies ''System is too big'' s else Done () s))"

definition build ::
    "(nat \<Rightarrow> bool) \<Rightarrow> root_arg \<Rightarrow> byte list option \<Rightarrow> byte list option \<Rightarrow> byte list option \<Rightarrow> unit outcome" where
  "build writes root boot setup system =
     (let s = \<lparr>out = [], wrote = 0\<rparr> in
      case root_device root of Inl e \<Rightarrow> Dies e s | Inr (major, minor) \<Rightarrow>
      if bad_major major then Dies ''Bad root device --- major #'' s
      else
        andthen (build_boot writes (major, minor) boot (replicate BUF 0) s) (\<lambda>buf s.
        andthen (build_setup writes setup buf s) (\<lambda>_ s. build_system writes system s)))"

subsection \<open>What is in the image\<close>

lemma put_out_always: "put_out (\<lambda>_. True) bs s = Done () \<lparr>out = out s @ bs, wrote = Suc (wrote s)\<rparr>"
  by (cases s) (simp add: put_out_def Let_def)

lemma read_in_eq: "read_in n f buf = (min n (length f), take n f @ drop (min n (length f)) buf, drop n f)"
  by (simp add: read_in_def Let_def min.commute)

lemma copy_out_always:
  "length f < fuel \<Longrightarrow> \<exists>b k. copy_out fuel (\<lambda>_. True) i f buf s = Done (i + length f, b) \<lparr>out = out s @ f, wrote = k\<rparr>"
proof (induction fuel arbitrary: i f buf s)
  case (Suc fuel)
  show ?case
  proof (cases "f = []")
    case True
    then show ?thesis by (cases s) (simp add: read_in_eq)
  next
    case False
    let ?c = "min BUF (length f)"
    let ?s = "\<lparr>out = out s @ take BUF f, wrote = Suc (wrote s)\<rparr>"
    have "length (drop BUF f) < fuel" using Suc.prems False by (cases f) (simp_all add: BUF_def)
    from Suc.IH [OF this, of "i + ?c" "take BUF f @ drop ?c buf" ?s]
    obtain b k where "copy_out fuel (\<lambda>_. True) (i + ?c) (drop BUF f) (take BUF f @ drop ?c buf) ?s =
      Done (i + ?c + length (drop BUF f), b) \<lparr>out = (out s @ take BUF f) @ drop BUF f, wrote = k\<rparr>" by auto
    moreover have "take ?c (take BUF f @ drop ?c buf) = take BUF f" "?c + length (drop BUF f) = length f" "?c \<noteq> 0"
      using False by (auto simp: BUF_def min_def)
    ultimately show ?thesis using False
      by (simp add: read_in_eq put_out_always andthen_def add.assoc del: append_assoc length_drop drop_append) simp
  qed
qed simp

lemma pad_out_always:
  "SETUP_SECTS * 512 - i < fuel \<Longrightarrow>
     \<exists>k. pad_out fuel (\<lambda>_. True) i s = Done () \<lparr>out = out s @ replicate (SETUP_SECTS * 512 - i) 0, wrote = k\<rparr>"
proof (induction fuel arbitrary: i s)
  case (Suc fuel)
  show ?case
  proof (cases "SETUP_SECTS * 512 \<le> i")
    case True
    then show ?thesis by (cases s) simp
  next
    case False
    let ?c = "min (SETUP_SECTS * 512 - i) BUF"
    have c: "0 < ?c" "?c \<le> SETUP_SECTS * 512 - i" using False by (simp_all add: BUF_def)
    have "SETUP_SECTS * 512 - (i + ?c) = SETUP_SECTS * 512 - i - ?c" by simp
    also have "\<dots> < fuel" using Suc.prems c by (metis diff_less less_Suc_eq_le less_le_trans order_less_le_trans)
    finally have "SETUP_SECTS * 512 - (i + ?c) < fuel" .
    from Suc.IH [OF this, of "\<lparr>out = out s @ replicate ?c 0, wrote = Suc (wrote s)\<rparr>"]
    obtain k where "pad_out fuel (\<lambda>_. True) (i + ?c) \<lparr>out = out s @ replicate ?c 0, wrote = Suc (wrote s)\<rparr> =
      Done () \<lparr>out = (out s @ replicate ?c 0) @ replicate (SETUP_SECTS * 512 - (i + ?c)) 0, wrote = k\<rparr>"
      by auto
    moreover have "replicate ?c (0 :: byte) @ replicate (SETUP_SECTS * 512 - (i + ?c)) 0 = replicate (SETUP_SECTS * 512 - i) 0"
      using c by (simp add: replicate_add [symmetric])
    ultimately show ?thesis using False by (simp add: put_out_always andthen_def Let_def)
  qed
qed simp

text \<open>A file with a header of the right kind.\<close>

definition minix_file :: "byte list \<Rightarrow> bool" where
  "minix_file f \<longleftrightarrow> MINIX_HEADER \<le> length f \<and>
     List.map (\<lambda>k. long_at k f) [0, 1, 3, 4, 5, 7] = [0x04100301, 32, 0, 0, 0, 0]"

lemma long_at_take:
  assumes "length f = n" "4 * k + 4 \<le> n" shows "long_at k (f @ g) = long_at k f"
  using assms by (simp add: long_at_def nth_append)

lemma header_ok:
  assumes "minix_file f"
  shows "header_error name (min MINIX_HEADER (length f)) (take MINIX_HEADER f @ buf) = None"
proof -
  have len: "MINIX_HEADER \<le> length f" using assms by (simp add: minix_file_def)
  have "long_at k (take MINIX_HEADER f @ buf) = long_at k f" if "k < 8" for k
  proof -
    have "long_at k (take MINIX_HEADER f @ buf) = long_at k (take MINIX_HEADER f)"
      using len that by (intro long_at_take) (simp_all add: MINIX_HEADER_def, arith?)
    also have "\<dots> = long_at k (take MINIX_HEADER f @ drop MINIX_HEADER f)"
      using len that by (intro long_at_take [symmetric]) (simp_all add: MINIX_HEADER_def, arith?)
    finally show ?thesis by simp
  qed
  then show ?thesis using assms len by (simp add: header_error_def minix_file_def MINIX_HEADER_def)
qed

lemma build_boot_ok:
  assumes f: "minix_file f" "length f = 544" "f ! 542 = 0x55" "f ! 543 = 0xAA"
  shows "\<exists>buf. build_boot (\<lambda>_. True) (major, minor) (Some f) (replicate BUF 0) \<lparr>out = [], wrote = 0\<rparr> =
     Done buf \<lparr>out = (drop 32 f)[508 := minor, 509 := major], wrote = 1\<rparr> \<and> length buf = BUF"
proof -
  define z where "z = replicate BUF (0 :: byte)"
  define h where "h = take MINIX_HEADER f @ drop 32 z"
  define b where "b = drop 32 f @ drop 512 h"
  define buf where "buf = b[508 := minor, 509 := major]"
  have n: "b ! 510 = 0x55" "b ! 511 = 0xAA" using f by (simp_all add: b_def nth_append)
  have r1: "read_in MINIX_HEADER f z = (min MINIX_HEADER (length f), h, drop 32 f)"
    "read_in BUF (drop 32 f) h = (512, b, [])" and len: "length b = BUF"
    using f(2) by (simp_all add: read_in_eq h_def b_def z_def MINIX_HEADER_def BUF_def)
  have "take 512 buf = (drop 32 f)[508 := minor, 509 := major]"
    using f(2) by (simp add: buf_def b_def list_update_append)
  then have "build_boot (\<lambda>_. True) (major, minor) (Some f) z \<lparr>out = [], wrote = 0\<rparr> =
    Done buf \<lparr>out = (drop 32 f)[508 := minor, 509 := major], wrote = 1\<rparr>"
    using n header_ok [OF f(1), of "quoted ''boot''" "drop 32 z"]
    by (simp add: build_boot_def r1 h_def [symmetric] put_out_always andthen_def buf_def [symmetric])
  moreover have "length buf = BUF" using len by (simp add: buf_def)
  ultimately show ?thesis unfolding z_def by blast
qed

lemma build_setup_ok:
  assumes f: "minix_file f" "length f \<le> 2080" and s: "s = \<lparr>out = o1, wrote = k1\<rparr>"
  shows "\<exists>k. build_setup (\<lambda>_. True) (Some f) buf s =
     Done () \<lparr>out = (o1 @ drop 32 f) @ replicate (2048 - length (drop 32 f)) 0, wrote = k\<rparr>"
proof -
  define n where "n = length (drop 32 f)"
  have n: "n \<le> 2048" "32 \<le> length f" using f by (simp_all add: n_def minix_file_def MINIX_HEADER_def)
  obtain b k2 where c: "copy_out (n + 1) (\<lambda>_. True) 0 (drop 32 f) (take MINIX_HEADER f @ drop MINIX_HEADER buf) s =
    Done (n, b) \<lparr>out = o1 @ drop 32 f, wrote = k2\<rparr>"
    using copy_out_always [of "drop 32 f" "n + 1" 0 "take MINIX_HEADER f @ drop MINIX_HEADER buf" s]
    by (simp add: n_def [symmetric] s del: copy_out.simps length_drop) blast
  have fuel: "SETUP_SECTS * 512 - n < SETUP_SECTS * 512 + 1" by simp
  obtain k3 where p: "pad_out (SETUP_SECTS * 512 + 1) (\<lambda>_. True) n \<lparr>out = o1 @ drop 32 f, wrote = k2\<rparr> =
    Done () \<lparr>out = (o1 @ drop 32 f) @ replicate (2048 - n) 0, wrote = k3\<rparr>"
    using pad_out_always [OF fuel, of "\<lparr>out = o1 @ drop 32 f, wrote = k2\<rparr>"] by (auto simp: SETUP_SECTS_def)
  have r: "read_in MINIX_HEADER f buf = (min MINIX_HEADER (length f), take MINIX_HEADER f @ drop MINIX_HEADER buf, drop 32 f)"
    using n(2) by (simp add: read_in_eq MINIX_HEADER_def)
  have "build_setup (\<lambda>_. True) (Some f) buf s = Done () \<lparr>out = (o1 @ drop 32 f) @ replicate (2048 - n) 0, wrote = k3\<rparr>"
    unfolding build_setup_def option.case r prod.case header_ok [OF f(1)] n_def [symmetric] c andthen_def outcome.case
    using n(1) p by (simp add: SETUP_SECTS_def)
  then show ?thesis unfolding n_def by blast
qed

lemma build_system_ok:
  assumes "length f \<le> SYS_SIZE * 16"
  shows "\<exists>k. build_system (\<lambda>_. True) (Some f) s = Done () \<lparr>out = out s @ f, wrote = k\<rparr>"
proof -
  obtain b k where "copy_out (length f + 1) (\<lambda>_. True) 0 f (replicate BUF 0) s = Done (length f, b) \<lparr>out = out s @ f, wrote = k\<rparr>"
    using copy_out_always [of f "length f + 1" 0 "replicate BUF 0" s] by (simp del: copy_out.simps) blast
  then show ?thesis
    using assms by (intro exI [of _ k]) (simp add: build_system_def andthen_def del: copy_out.simps)
qed

text \<open>C38: the layout of the image that the boot sector relies on. When the two files with a header have a
  proper one, the boot sector has 512 bytes with its flag, the setup code fits into 4 sectors and the kernel below
  its limit, the root device is accepted (its major number is 0, 2 or 3) and every write succeeds, then the tool
  succeeds, and the image is the boot sector with the root device in its bytes 508 and
  509, the setup code filled up with zeros to 4 sectors, and the kernel from sector 5 on.\<close>

theorem build_layout:
  assumes b: "minix_file f1" "length f1 = 544" "f1 ! 542 = 0x55" "f1 ! 543 = 0xAA"
    and st: "minix_file f2" "length f2 \<le> 2080"
    and sy: "length f3 \<le> SYS_SIZE * 16"
    and rt: "root_device r = Inr (major, minor)" "\<not> bad_major major"
  shows "\<exists>k. build (\<lambda>_. True) r (Some f1) (Some f2) (Some f3) =
     Done () \<lparr>out = (drop 32 f1)[508 := minor, 509 := major] @
       drop 32 f2 @ replicate (2048 - length (drop 32 f2)) 0 @ f3, wrote = k\<rparr>"
proof -
  let ?sector = "(drop 32 f1)[508 := minor, 509 := major]"
  let ?loaded = "(?sector @ drop 32 f2) @ replicate (2048 - length (drop 32 f2)) 0"
  obtain buf where b1: "build_boot (\<lambda>_. True) (major, minor) (Some f1) (replicate BUF 0) \<lparr>out = [], wrote = 0\<rparr> =
      Done buf \<lparr>out = ?sector, wrote = 1\<rparr>" using build_boot_ok [OF b] by blast
  obtain k2 where b2: "build_setup (\<lambda>_. True) (Some f2) buf \<lparr>out = ?sector, wrote = 1\<rparr> = Done () \<lparr>out = ?loaded, wrote = k2\<rparr>"
    using build_setup_ok [OF st refl] by blast
  obtain k3 where "build_system (\<lambda>_. True) (Some f3) \<lparr>out = ?loaded, wrote = k2\<rparr> = Done () \<lparr>out = ?loaded @ f3, wrote = k3\<rparr>"
    using build_system_ok [OF sy, of "\<lparr>out = ?loaded, wrote = k2\<rparr>"] by auto
  with rt b1 b2 show ?thesis by (intro exI [of _ k3]) (simp add: build_def andthen_def)
qed

text \<open>An image with a boot sector and a setup code of 512 bytes and an empty kernel.\<close>

definition demo_header :: "byte list" where
  "demo_header = [1, 3, 0x10, 4, 32] @ replicate 27 0"

theorem build_layout_witness:
  "\<exists>k. build (\<lambda>_. True) Default (Some (demo_header @ replicate 510 7 @ [0x55, 0xAA])) (Some (demo_header @ replicate 512 9))
     (Some [5]) = Done () \<lparr>out = replicate 508 7 @ [1, 3, 0x55, 0xAA] @ replicate 512 9 @ replicate 1536 0 @ [5], wrote = k\<rparr>"
proof -
  have m: "minix_file (demo_header @ x)" for x
    by (simp add: minix_file_def demo_header_def MINIX_HEADER_def long_at_def nth_append)
  let ?f1 = "demo_header @ replicate 510 7 @ [0x55, 0xAA]" and ?f2 = "demo_header @ replicate 512 9"
  have l: "length demo_header = 32" by (simp add: demo_header_def)
  have f: "length ?f1 = 544" "?f1 ! 542 = 0x55" "?f1 ! 543 = 0xAA" "length ?f2 \<le> 2080" "length [5 :: byte] \<le> SYS_SIZE * 16"
    "root_device Default = Inr (3, 1)" "\<not> bad_major 3" "drop 32 ?f1 = replicate 510 7 @ [0x55, 0xAA]" "drop 32 ?f2 = replicate 512 9"
    by (simp_all add: l nth_append SYS_SIZE_def root_device_def DEFAULT_MAJOR_ROOT_def DEFAULT_MINOR_ROOT_def bad_major_def)
  have "(replicate 510 7 @ [0x55, 0xAA])[508 := 1, 509 := 3] = replicate 508 7 @ [1, 3 :: byte, 0x55, 0xAA]"
  proof -
    have "replicate 510 (7 :: byte) = replicate 508 7 @ [7, 7]"
      using replicate_add [of 508 2 "7 :: byte"] by (simp add: numeral_2_eq_2)
    then show ?thesis by (simp add: list_update_append)
  qed
  with build_layout [OF m f(1-3) m f(4-7)] show ?thesis unfolding f(8,9) by simp
qed

end
