(* ===== verification/Spec2Isabelle.thy ===== *)
theory Spec2Isabelle
  imports Paging Timers WaitQueue UserMem Signals Sys Exit Shm Mktime Vsprintf Lamport Sem Cache Exec Pipe Screen Strings Fork CopyTables Malloc Hd ProdCons Floppy Syscalls Build
begin

text \<open>
  Verification of the kernel in \<open>src/oslab/linux-0.11\<close>: Linux 0.11 with semaphores, shared memory, a
  lamport lock and a \<open>/proc\<close> file system added. Paths below are relative to that directory.

  \<^bold>\<open>How the C is rendered.\<close> A kernel routine is a function from the state to a result (theory \<open>Prelude\<close>):
  it returns (\<open>Ok\<close>), panics, exits the task, goes to sleep, has no defined meaning (\<open>Fault\<close>), or uses up
  the fuel of a loop (\<open>Hang\<close>). The state is one record that grows by extension in the order in which the
  components build on each other: \<open>mm\<close> (physical memory), \<open>kern\<close> (process table), \<open>shm\<close>, \<open>semst\<close>,
  \<open>timers\<close>, \<open>fs\<close> (buffers, inodes, files, super blocks, requests), \<open>ttys\<close>, \<open>ttyc\<close> and \<open>kst\<close> (terminals, the
  rest of read and write), \<open>hds\<close> and \<open>fds\<close> (disk controllers), \<open>trs\<close> (descriptor tables). A pointer into a static table is its index, or
  \<open>None\<close> for \<open>NULL\<close>. As a rule, unsigned machine integers that are stored (memory, page tables, descriptors, blocks,
  inodes, requests, the fields of buffers, queues and segments) are words of their width. Signed ones are integers:
  the fields of the process table, of the timers and of the lock, and local variables; where the code computes on
  them in a way that can leave their width (counters and priorities, alarms, \<open>kernel_mktime\<close>, the numbers
  of the lock, process numbers) the wrap-around is written out, mostly with \<open>long\<close> of theory \<open>Prelude\<close>; counts of ticks
  and times are assumed not to reach \<open>2^31\<close>. A task that has to wait is cut at its call of
  \<open>schedule\<close>: the outcome is \<open>Sleeps\<close>, and the state is the one it leaves behind.

  \<^bold>\<open>The parts, and where they are.\<close>
  \<^item> Memory: \<open>Addr\<close> (address arithmetic), \<open>PageAlloc\<close> (what clients need from the allocator, a locale that
    \<open>Paging\<close> interprets), \<open>Mm\<close> (\<open>mm/memory.c\<close>: allocation map, page tables, copy on write), \<open>Paging\<close>
    (its meaning: translation of addresses), \<open>CopyTables\<close> (what \<open>fork\<close> does to an address space), \<open>Shm\<close> (\<open>mm/shm.c\<close>).
  \<^item> Tasks: \<open>Task\<close> (\<open>include/linux/sched.h\<close>), \<open>Sched\<close> and \<open>Timers\<close> (\<open>kernel/sched.c\<close>), \<open>WaitQueue\<close>
    (\<open>sleep_on\<close> and \<open>wake_up\<close> in every interleaving), \<open>UserMem\<close> (\<open>include/asm/segment.h\<close>,
    \<open>verify_area\<close>), \<open>Signals\<close> (\<open>kernel/signal.c\<close>), \<open>Sys\<close> (\<open>kernel/sys.c\<close>), \<open>Exit\<close> (\<open>kernel/exit.c\<close>),
    \<open>Process\<close> (\<open>kernel/fork.c\<close>, \<open>do_exit\<close>, page faults on executables), \<open>Fork\<close> (choice of the process number), \<open>Exec\<close> (\<open>fs/exec.c\<close>).
  \<^item> Synchronisation: \<open>Lamport\<close> (\<open>include/linux/lamport.h\<close> as a step relation of processes that search for and
    claim their slots, shown to simulate the algorithm on slots), \<open>Sem\<close> (\<open>kernel/sem.c\<close>).
  \<^item> Block devices and the cache: \<open>FsTypes\<close> (\<open>include/linux/fs.h\<close>), \<open>Blk\<close> (\<open>kernel/blk_drv/ll_rw_blk.c\<close>,
    \<open>blk.h\<close>, \<open>ramdisk.c\<close>), \<open>Hd\<close> (\<open>kernel/blk_drv/hd.c\<close>, and that it does what
    \<open>Blk\<close> assumes of a disk: \<open>hd_read_refines\<close>, \<open>hd_write_refines\<close>), \<open>Floppy\<close> (\<open>kernel/blk_drv/floppy.c\<close>, likewise for reads), \<open>Buffer\<close> (\<open>fs/buffer.c\<close>), \<open>Pointer_Lists\<close> (linked lists), \<open>Cache\<close> (the
    invariant of the cache and what \<open>getblk\<close> and \<open>bread\<close> do).
  \<^item> The file system: \<open>Bitmap\<close> (\<open>fs/bitmap.c\<close>), \<open>Inode\<close> (\<open>fs/inode.c\<close>, \<open>fs/truncate.c\<close>), \<open>Super\<close> and
    \<open>Mount\<close> (\<open>fs/super.c\<close>), \<open>Namei\<close> and \<open>Dirs\<close> (\<open>fs/namei.c\<close>), \<open>FileIO\<close> (\<open>fs/file_dev.c\<close>,
    \<open>fs/block_dev.c\<close>, \<open>fs/pipe.c\<close>), \<open>Pipe\<close> (pipes as queues), \<open>ReadWrite\<close> (\<open>fs/read_write.c\<close>,
    \<open>fs/char_dev.c\<close>, \<open>fs/proc.c\<close>), \<open>Files\<close> (\<open>fs/open.c\<close>, \<open>fs/fcntl.c\<close>, \<open>fs/stat.c\<close>, \<open>fs/ioctl.c\<close>).
  \<^item> Terminals: \<open>Ring\<close> (ring buffers and the locale of bounded queues), \<open>Console\<close>
    (\<open>kernel/chr_drv/console.c\<close>), \<open>Video\<close> and \<open>Screen\<close> (what it does to the screen), \<open>TtyQueue\<close>
    (\<open>include/linux/tty.h\<close>), \<open>Tty\<close> (\<open>kernel/chr_drv/tty_io.c\<close>), \<open>TtyIoctl\<close>
    (\<open>kernel/chr_drv/tty_ioctl.c\<close>).
  \<^item> Start-up and traps: \<open>Desc\<close> (descriptors, \<open>include/linux/sched.h\<close> and \<open>include/asm/system.h\<close>), \<open>Traps\<close>
    (\<open>kernel/traps.c\<close> and the gates that the other parts install), \<open>Boot\<close> (\<open>init/main.c\<close>: all the
    initialisations in their order), \<open>Syscalls\<close> (\<open>kernel/system_call.s\<close>, \<open>include/linux/sys.h\<close>,
    \<open>include/unistd.h\<close>: from the stub of a call to its routine and back, with the signals).
  \<^item> A program: \<open>ProdCons\<close> (\<open>src/test6\<close>, outside the kernel: a producer and consumers over the semaphores and
    the shared memory, in every interleaving). A tool: \<open>Build\<close> (\<open>tools/build.c\<close>, which assembles the image).
  \<^item> Library routines: \<open>Mktime\<close> (\<open>kernel/mktime.c\<close>), \<open>Vsprintf\<close> (\<open>kernel/vsprintf.c\<close>), \<open>Strings\<close>
    (\<open>include/string.h\<close>), \<open>Malloc\<close> (\<open>lib/malloc.c\<close>).

  \<^bold>\<open>How they interact.\<close> A read of a file goes from \<open>sys_read\<close> (\<open>ReadWrite\<close>) through \<open>file_read\<close>
  (\<open>FileIO\<close>), \<open>bmap\<close> (\<open>Inode\<close>) and \<open>bread\<close> (\<open>Buffer\<close>) to \<open>ll_rw_block\<close> (\<open>Blk\<close>). \<open>getblk\<close> may write out
  a device, and so write inodes, and so call \<open>getblk\<close> again; \<open>iput\<close> may truncate a file, and \<open>open_namei\<close>
  and \<open>namei\<close> take and give back inodes all along a path. Waiting anywhere is \<open>sleep_on\<close> of \<open>Sched\<close>.
  Shared memory, \<open>fork\<close> and \<open>execve\<close> work on the page tables of \<open>Mm\<close>. The console answers a query by
  feeding its own input queue.

  \<^bold>\<open>What the lemmas show.\<close> For memory: reference counts are preserved, a page handed out is zero and not
  in use, a write to a shared page gives a private copy, \<open>put_page\<close> maps an address and no other. For
  tasks: \<open>schedule\<close> picks the first runnable task with the largest counter and always finds one if there
  is one; no sleeper of a wait queue is forgotten, in any interleaving; the frame that \<open>do_signal\<close> builds
  gives every register back; timers fire at their deadlines. For the lock: mutual exclusion, under the condition that
  two processes do not search for their first slot at the same time, and the race without it; progress when alone.
  For the cache: the pointer structures refine lists, no block is in two buffers, and what a read returns is the
  contents of the block, in the cache or on the disk (a dirty buffer that is not up to date is excluded, see
  \<open>bread_discards_whole_block\<close>). For the RAM disk: what is written is read back. For pipes and terminal queues: they are bounded FIFO queues. For the console:
  whatever it is sent, it stays in its video memory, and both ways of scrolling are the same. For the
  disk drivers: a command names a place on the disk, and a read takes it into the buffer. For the start-up: every
  invariant holds when the first process is made, and every interrupt leads to its handler. For system calls:
  a stub reaches the routine of its name, and what the way back does with signals, right and wrong. For the producer and
  consumers: they always stop, and when no value is put before every consumer has initialised, what is consumed is
  what was produced, and all of it in the end; without that a value can be lost. For the
  library routines: numbers and dates are printed and computed as the mathematics says. Other lemmas show
  what the code does where it does not do what it means to; the findings of the manifest list these.

  \<^bold>\<open>Fuel.\<close> \<open>SCHED_FUEL\<close> is 2: one round may have to recharge the counters, after which the next one
  picks. \<open>BUF_FUEL\<close> bounds the recursion of \<open>getblk\<close> through \<open>sync_dev\<close>; a call that finds a clean
  buffer uses 1. \<open>iput\<close> recurses once, for block devices, \<open>iget\<close> at most once for each mounted device.
  \<open>PATH_FUEL\<close> is the size of the address space, in which a path name has to end. \<open>ADD_FUEL\<close> bounds the
  entries of a directory. The loops of reads and writes move at least one byte a round, and have the count
  as fuel. \<open>TTY_FUEL\<close> bounds the echo of the console's own answers and \<open>COOK_FUEL\<close> the characters that
  one call of \<open>copy_to_cooked\<close> takes. The search of \<open>Shm\<close> for a free address really can run forever.

  \<^bold>\<open>Simplifications.\<close> User memory, the field \<open>user\<close>, is one flat space: \<open>get_fs_byte\<close> and \<open>put_fs_byte\<close> do not go
  through the page tables, and it is not switched with the task; a theorem about a system call is about the task that
  makes it. Theory \<open>Blk\<close> runs a request of a hard disk or floppy disk at once with \<open>disk_transfer\<close>, which stands for
  the driver: theories \<open>Hd\<close> and \<open>Floppy\<close> model the drivers themselves, command and interrupts, and show for a block
  that is transferred without an error that the result is the same; only the RAM disk needs no such stand-in. The
  functions of timers are a parameter of \<open>tick_timers\<close>, which its theorem assumes to leave the list of timers alone
  (\<open>floppy_on_interrupt\<close> need not: it may call \<open>add_timer\<close>). In \<open>ProdCons\<close> a semaphore is a counter and a
  critical section one step, and \<open>pc_sync\<close> is an assumption on the scheduling: it says that no value is put before
  all consumers have initialised, what the \<open>sleep(10)\<close> of \<open>pc.c\<close> hopes for. In \<open>Lamport\<close> a statement is one step.
  The macro \<open>WIFEXITED\<close>, in which a parenthesis is missing, is taken as it is meant.

  \<^bold>\<open>Not modelled.\<close> The switch of registers and stacks and the state of the coprocessor, and most of what is written in
  assembly files (of \<open>kernel/system_call.s\<close> the dispatch of calls, \<open>fork\<close>, \<open>execve\<close>, the delivery of signals and
  the entry of the disk interrupts are modelled): HOL has no counterpart of these that could be compared with the source
  line by line. \<open>printk\<close> (what the traps print is kept as a list of formats and arguments), and \<open>init\<close> of
  \<open>init/main.c\<close>, which runs as a user process and does nothing but issue calls. A call that has to wait ends in
  \<open>Sleeps\<close>; for \<open>sleep_on\<close>, \<open>waitpid\<close> and \<open>sem_wait\<close> what follows when it is woken is a definition of
  its own (\<open>sleep_on_resume\<close>, \<open>waitpid_resume\<close>, \<open>sem_wait_resume\<close>); other calls are followed up to there.
  
\<close>

end
